(* ===== verification/Go_Prelude.thy ===== *)
theory Go_Prelude
  imports Complex_Main "HOL-Library.AList" "HOL-Library.Sublist" "HOL-Library.Char_ord"
    "HOL-Library.Multiset"
begin

text \<open>
  What the components share: the Go standard-library operations the modelled code calls
  (package \<open>strings\<close>, \<open>strconv\<close>, \<open>time\<close>) and generic lemmas on lists and finite maps.

  Conventions.
  \<^item> A Go \<open>string\<close> is a sequence of bytes, here a \<^typ>\<open>string\<close> (a list of 8-bit
    characters). \<open>strings.TrimSpace\<close> and \<open>strings.ToLower\<close> are modelled on ASCII bytes;
    other bytes are left as they are.
  \<^item> \<open>time.Time\<close> and \<open>time.Duration\<close> are integers counting nanoseconds. A Go zero time is
    the option value \<^const>\<open>None\<close> where the code tests \<open>IsZero\<close>.
  \<^item> A Go map is an association list with distinct keys; the order of the list is the order in
    which \<open>range\<close> happens to visit the map, so a result that does not depend on the iteration
    order is a theorem (invariance under permutation of the list), never an assumption.
\<close>

section \<open>Types and automation\<close>

type_synonym time = int
type_synonym duration = int
type_synonym ('k, 'v) gomap = "('k \<times> 'v) list"

named_theorems string_simps "evaluation and rewriting of the string operations"
named_theorems alist_simps "finite maps as association lists"

abbreviation millisecond :: duration where "millisecond \<equiv> 1000000"
abbreviation second :: duration where "second \<equiv> 1000000000"
abbreviation minute :: duration where "minute \<equiv> 60 * second"
abbreviation hour :: duration where "hour \<equiv> 60 * minute"

section \<open>Strings\<close>

definition is_space :: "char \<Rightarrow> bool" where
  "is_space c \<longleftrightarrow> c \<in> {CHR 0x09, CHR 0x0A, CHR 0x0B, CHR 0x0C, CHR 0x0D, CHR 0x20}"

definition trim_left :: "string \<Rightarrow> string" where
  "trim_left s = dropWhile is_space s"

definition trim_right :: "string \<Rightarrow> string" where
  "trim_right s = rev (dropWhile is_space (rev s))"

definition trim_space :: "string \<Rightarrow> string" where
  "trim_space s = trim_right (trim_left s)"

definition lower_char :: "char \<Rightarrow> char" where
  "lower_char c =
     (let n = (of_char c :: nat) in if 65 \<le> n \<and> n \<le> 90 then char_of (n + 32) else c)"

definition to_lower :: "string \<Rightarrow> string" where
  "to_lower s = map lower_char s"

text \<open>\<open>strings.IndexByte\<close>, with \<^const>\<open>None\<close> for -1.\<close>

fun index_byte :: "string \<Rightarrow> char \<Rightarrow> nat option" where
  "index_byte [] c = None"
| "index_byte (x # xs) c = (if x = c then Some 0 else map_option Suc (index_byte xs c))"

text \<open>
  \<open>strings.TrimPrefix\<close>, \<open>TrimSuffix\<close>, \<open>Contains\<close>, \<open>ContainsAny\<close> (\<open>prefix\<close> and
  \<open>suffix\<close> of the library are \<open>HasPrefix\<close> and \<open>HasSuffix\<close>).
\<close>

definition trim_prefix :: "string \<Rightarrow> string \<Rightarrow> string" where
  "trim_prefix s p = (if prefix p s then drop (length p) s else s)"

definition trim_suffix :: "string \<Rightarrow> string \<Rightarrow> string" where
  "trim_suffix s p = (if suffix p s then take (length s - length p) s else s)"

fun contains_sub :: "string \<Rightarrow> string \<Rightarrow> bool" where
  "contains_sub [] p \<longleftrightarrow> p = []"
| "contains_sub (c # s) p \<longleftrightarrow> prefix p (c # s) \<or> contains_sub s p"

definition contains_any :: "string \<Rightarrow> string \<Rightarrow> bool" where
  "contains_any s chars \<longleftrightarrow> (\<exists>c \<in> set s. c \<in> set chars)"

text \<open>\<open>strings.Split(s, "/")\<close>.\<close>

fun split_slash :: "string \<Rightarrow> string list" where
  "split_slash [] = [[]]"
| "split_slash (c # cs) =
     (if c = CHR ''/'' then [] # split_slash cs
      else (case split_slash cs of [] \<Rightarrow> [[c]] | p # ps \<Rightarrow> (c # p) # ps))"

text \<open>\<open>bufio.ScanLines\<close> takes a carriage return off the end of a line.\<close>

definition drop_cr :: "string \<Rightarrow> string" where
  "drop_cr s = (if s \<noteq> [] \<and> last s = CHR 0x0D then butlast s else s)"

text \<open>\<open>%d\<close> of a non-negative number, and \<open>'%s'\<close>.\<close>

definition digit :: "int \<Rightarrow> char" where
  "digit n = char_of (48 + n)"

function itoa :: "int \<Rightarrow> string" where
  "itoa n = (if n < 10 then [digit n] else itoa (n div 10) @ [digit (n mod 10)])"
  by pat_completeness auto

termination by (relation "measure nat") auto

declare itoa.simps [simp del]

definition squote :: "string \<Rightarrow> string" where
  "squote s = [CHR 0x27] @ s @ [CHR 0x27]"

text \<open>\<open>%q\<close> (\<open>strconv.Quote\<close>) on ASCII bytes.\<close>

definition hex_digit :: "int \<Rightarrow> char" where
  "hex_digit n = (if n < 10 then char_of (48 + n) else char_of (87 + n))"

definition quote_char :: "char \<Rightarrow> string" where
  "quote_char c =
     (if c = CHR 0x22 then [CHR 0x5C, CHR 0x22]
      else if c = CHR 0x5C then [CHR 0x5C, CHR 0x5C]
      else if c = CHR 0x07 then [CHR 0x5C, CHR ''a'']
      else if c = CHR 0x08 then [CHR 0x5C, CHR ''b'']
      else if c = CHR 0x0C then [CHR 0x5C, CHR ''f'']
      else if c = CHR 0x0A then [CHR 0x5C, CHR ''n'']
      else if c = CHR 0x0D then [CHR 0x5C, CHR ''r'']
      else if c = CHR 0x09 then [CHR 0x5C, CHR ''t'']
      else if c = CHR 0x0B then [CHR 0x5C, CHR ''v'']
      else let n = (of_char c :: int) in
        if 32 \<le> n \<and> n < 127 then [c]
        else [CHR 0x5C, CHR ''x'', hex_digit (n div 16), hex_digit (n mod 16)])"

definition go_quote :: "string \<Rightarrow> string" where
  "go_quote s = [CHR 0x22] @ concat (map quote_char s) @ [CHR 0x22]"

lemma of_char_bounds: "0 \<le> (of_char c :: int)" "(of_char c :: int) < 256"
  using pos_mod_bound [of 256 "of_char c :: int"] pos_mod_sign [of 256 "of_char c :: int"]
  by (simp_all add: of_char_mod_256)

lemma trim_left_id [string_simps]: "s = [] \<or> \<not> is_space (hd s) \<Longrightarrow> trim_left s = s"
  by (cases s) (auto simp: trim_left_def)

lemma trim_right_id: "s = [] \<or> \<not> is_space (last s) \<Longrightarrow> trim_right s = s"
  by (cases s rule: rev_cases) (auto simp: trim_right_def)

lemma trim_left_first: "trim_left s = [] \<or> \<not> is_space (hd (trim_left s))"
  unfolding trim_left_def using hd_dropWhile [of is_space s] by blast

lemma trim_right_last: "trim_right s = [] \<or> \<not> is_space (last (trim_right s))"
  unfolding trim_right_def
  using hd_dropWhile [of is_space "rev s"] by (auto simp: last_rev)

lemma trim_right_prefix: "prefix (trim_right s) s"
  unfolding trim_right_def prefix_def
  by (metis rev_append rev_rev_ident takeWhile_dropWhile_id)

lemma trim_left_suffix: "suffix (trim_left s) s"
  unfolding trim_left_def by (metis suffix_def takeWhile_dropWhile_id)

lemma trim_space_first: "trim_space s = [] \<or> \<not> is_space (hd (trim_space s))"
proof (cases "trim_space s")
  case (Cons c r)
  then obtain t where t: "trim_left s = (c # r) @ t"
    using trim_right_prefix [of "trim_left s"] by (auto simp: trim_space_def prefix_def)
  with trim_left_first [of s] Cons show ?thesis by auto
qed simp

lemma trim_space_last: "trim_space s = [] \<or> \<not> is_space (last (trim_space s))"
  unfolding trim_space_def by (rule trim_right_last)

lemma trim_space_id:
  "s = [] \<or> (\<not> is_space (hd s) \<and> \<not> is_space (last s)) \<Longrightarrow> trim_space s = s"
  unfolding trim_space_def by (auto simp: trim_left_id trim_right_id)

lemma trim_space_idem [simp, string_simps]: "trim_space (trim_space s) = trim_space s"
  by (rule trim_space_id) (use trim_space_first [of s] trim_space_last [of s] in blast)

lemma trim_space_Nil [simp, string_simps]: "trim_space [] = []"
  by (simp add: trim_space_def trim_left_def trim_right_def)

lemma set_trim_space: "set (trim_space s) \<subseteq> set s"
  unfolding trim_space_def
  by (meson set_mono_prefix set_mono_suffix trim_left_suffix trim_right_prefix subset_trans)

lemma of_char_lower_char:
  "(of_char (lower_char c) :: nat) =
     (if 65 \<le> (of_char c :: nat) \<and> (of_char c :: nat) \<le> 90 then of_char c + 32 else of_char c)"
  by (auto simp: lower_char_def Let_def)

lemma lower_char_idem [simp, string_simps]: "lower_char (lower_char c) = lower_char c"
  by (auto simp: lower_char_def Let_def)

lemma to_lower_idem [simp, string_simps]: "to_lower (to_lower s) = to_lower s"
  by (simp add: to_lower_def)

lemma to_lower_Nil [simp, string_simps]: "to_lower s = [] \<longleftrightarrow> s = []" "to_lower [] = []"
  by (simp_all add: to_lower_def)

lemma to_lower_append [simp, string_simps]: "to_lower (s @ t) = to_lower s @ to_lower t"
  by (simp add: to_lower_def)

lemma length_to_lower [simp]: "length (to_lower s) = length s"
  by (simp add: to_lower_def)

lemma index_byte_Some:
  "index_byte s c = Some i \<Longrightarrow> i < length s \<and> s ! i = c \<and> c \<notin> set (take i s)"
  by (induction s c arbitrary: i rule: index_byte.induct) (auto split: if_splits)

lemma contains_sub_iff: "contains_sub s p \<longleftrightarrow> sublist p s"
proof (induction s)
  case (Cons c s)
  then show ?case by (simp add: sublist_Cons_right)
qed simp

lemma index_byte_None: "index_byte s c = None \<longleftrightarrow> c \<notin> set s"
  by (induction s c rule: index_byte.induct) auto

section \<open>Error values\<close>

text \<open>A chain of checks that return the first error: no error means that no check fired.\<close>

lemma if_Some_eq_None: "(if c then Some m else x) = None \<longleftrightarrow> \<not> c \<and> x = None"
  by simp

lemma if_not_swap: "(if \<not> b then x else y) = (if b then y else x)"
  by simp

lemma case_Some_eq_None: "(case e of Some m \<Rightarrow> Some m | None \<Rightarrow> x) = None \<longleftrightarrow> e = None \<and> x = None"
  by (cases e) simp_all

section \<open>Finite maps\<close>

text \<open>
  \<open>m[k]\<close> is \<^term>\<open>map_of m k\<close>, \<open>m[k] = v\<close> is \<^term>\<open>AList.update k v m\<close>,
  \<open>delete(m, k)\<close> is \<^term>\<open>AList.delete k m\<close>, \<open>len(m)\<close> is \<^term>\<open>length m\<close>.
\<close>

definition gomap_wf :: "('k, 'v) gomap \<Rightarrow> bool" where
  "gomap_wf m \<longleftrightarrow> distinct (map fst m)"

lemma gomap_wf_Nil [simp, alist_simps]: "gomap_wf []"
  by (simp add: gomap_wf_def)

lemma gomap_wf_update [simp, alist_simps]: "gomap_wf m \<Longrightarrow> gomap_wf (AList.update k v m)"
  by (simp add: gomap_wf_def distinct_update)

lemma gomap_wf_delete [simp, alist_simps]: "gomap_wf m \<Longrightarrow> gomap_wf (AList.delete k m)"
  by (simp add: gomap_wf_def distinct_delete)

lemma gomap_wf_filter: "gomap_wf m \<Longrightarrow> gomap_wf (filter P m)"
  by (simp add: gomap_wf_def distinct_map_filter)

lemma map_of_update [simp, alist_simps]:
  "map_of (AList.update k v m) k' = (if k' = k then Some v else map_of m k')"
  by (simp add: update_conv)

lemma map_of_delete [simp, alist_simps]:
  "map_of (AList.delete k m) k' = (if k' = k then None else map_of m k')"
  by (simp add: delete_conv)

lemma gomap_lookup: "gomap_wf m \<Longrightarrow> map_of m k = Some v \<longleftrightarrow> (k, v) \<in> set m"
  by (simp add: gomap_wf_def)

lemma gomap_perm_lookup:
  assumes "gomap_wf m" and "mset m' = mset m"
  shows "map_of m' k = map_of m k"
proof -
  have s: "set m' = set m" using assms(2) by (metis set_mset_mset)
  have "mset (map fst m') = mset (map fst m)" using assms(2) by simp
  then have "distinct (map fst m')"
    using assms(1) unfolding gomap_wf_def by (metis mset_eq_imp_distinct_iff)
  with assms(1) s show ?thesis
    by (metis gomap_wf_def map_of_inject_set)
qed

lemma length_update_le: "length (AList.update k v m) \<le> Suc (length m)"
  by (induction m) auto

lemma length_update:
  "length (AList.update k v m) = (if map_of m k = None then Suc (length m) else length m)"
  by (induction m) auto

lemma length_delete_le: "length (AList.delete k m) \<le> length m"
  by (simp add: AList.delete_eq length_filter_le)

end
