(* ===== verification/Glob.thy ===== *)
theory Glob
  imports Go_Prelude
begin

text \<open>
  \<open>policy.MatchGlob\<close> (pkg/policy/evaluator.go): the wildcard matcher behind the tool policies and
  the exec allowlists. The code walks two indices \<open>pi\<close> and \<open>si\<close> and remembers the last
  star in \<open>starPI\<close>, \<open>starSI\<close>; here \<open>pattern[pi:]\<close> and \<open>s[si:]\<close> are the lists
  \<open>p\<close> and \<open>s\<close>, and the remembered star is \<open>Some (pattern[starPI+1:], s[starSI:])\<close>.
  The main result is that this greedy loop with a single backtracking point decides the
  declarative meaning of the pattern.
\<close>

section \<open>The matcher\<close>

definition star :: char where "star = CHR ''*''"
definition qmark :: char where "qmark = CHR ''?''"

definition star_valid :: "string \<Rightarrow> string \<Rightarrow> (string \<times> string) option \<Rightarrow> bool" where
  "star_valid p s st = (case st of None \<Rightarrow> True | Some (sp, ss) \<Rightarrow> suffix p sp \<and> suffix s ss)"

definition star_len :: "string \<Rightarrow> (string \<times> string) option \<Rightarrow> nat" where
  "star_len p st = (case st of None \<Rightarrow> length p | Some (sp, ss) \<Rightarrow> length sp)"

definition star_rest :: "(string \<times> string) option \<Rightarrow> nat" where
  "star_rest st = (case st of None \<Rightarrow> 0 | Some (sp, ss) \<Rightarrow> length ss)"

text \<open>
  The main loop and the loop over trailing stars. It terminates although \<open>pi\<close> and \<open>si\<close>
  move backwards: a new star is strictly later in the pattern than the last, and between two
  new stars each backtrack starts strictly later in the subject.
\<close>

function glob_loop :: "string \<Rightarrow> string \<Rightarrow> (string \<times> string) option \<Rightarrow> bool" where
  "glob_loop p s st =
     (case s of
        [] \<Rightarrow> (case dropWhile (\<lambda>c. c = star) p of [] \<Rightarrow> True | _ \<Rightarrow> False)
      | d # s' \<Rightarrow>
          (if p \<noteq> [] \<and> hd p = star then glob_loop (tl p) s (Some (tl p, s))
           else if p \<noteq> [] \<and> (hd p = qmark \<or> hd p = d) then glob_loop (tl p) s' st
           else case st of
                  Some (sp, ss) \<Rightarrow> glob_loop sp (tl ss) (Some (sp, tl ss))
                | None \<Rightarrow> False))"
  by pat_completeness auto

lemma star_valid_tl:
  "star_valid p s st \<Longrightarrow> star_valid (tl p) (tl s) st"
  by (auto simp: star_valid_def suffix_def split: option.splits)
     (metis append.assoc append_Cons append_Nil list.collapse list.sel(2))+

termination glob_loop
proof (relation "measures [\<lambda>(p, s, st). if star_valid p s st then 0 else 1,
    \<lambda>(p, s, st). star_len p st, \<lambda>(p, s, st). star_rest st, \<lambda>(p, s, st). length s]",
    goal_cases)
  case 1
  show ?case by simp
next
  case (2 p s st d s')
  then have "length (tl p) < star_len p st \<or> \<not> star_valid p s st"
    by (cases p) (auto simp: star_len_def star_valid_def suffix_length_le split: option.splits
        dest!: suffix_length_le)
  then show ?case by (auto simp: star_valid_def star_len_def)
next
  case (3 p s st d s')
  then show ?case
    using star_valid_tl [of p s st]
    by (cases p; cases st) (auto simp: star_len_def star_rest_def)
next
  case (4 p s st d s' y sp ss)
  then have "ss \<noteq> [] \<or> \<not> star_valid p s st"
    by (auto simp: star_valid_def)
  then have "length (tl ss) < length ss \<or> \<not> star_valid p s st" by (cases ss) auto
  with 4 show ?case by (auto simp: star_valid_def star_len_def star_rest_def)
qed

declare glob_loop.simps [simp del]

definition match_glob :: "string \<Rightarrow> string \<Rightarrow> bool" where
  "match_glob pattern s =
     (if star \<notin> set pattern \<and> qmark \<notin> set pattern then pattern = s
      else glob_loop pattern s None)"

section \<open>What a pattern means\<close>

fun glob_spec :: "string \<Rightarrow> string \<Rightarrow> bool" where
  "glob_spec [] s = (s = [])"
| "glob_spec (c # p) s =
     (if c = star then (\<exists>k \<le> length s. glob_spec p (drop k s))
      else (case s of [] \<Rightarrow> False | d # s' \<Rightarrow> (c = qmark \<or> c = d) \<and> glob_spec p s'))"

lemma glob_spec_Nil: "glob_spec p [] \<longleftrightarrow> dropWhile (\<lambda>c. c = star) p = []"
  by (induction p) auto

lemma glob_spec_star: "glob_spec (star # p) s \<longleftrightarrow> (\<exists>k. glob_spec p (drop k s))"
  by auto (metis drop_all nle_le)

lemma glob_spec_star_drop: "glob_spec (star # p) (drop k s) \<Longrightarrow> glob_spec (star # p) s"
  unfolding glob_spec_star by auto

lemma glob_spec_prefix:
  "star \<notin> set q \<Longrightarrow> glob_spec (q @ p) t \<Longrightarrow> length q \<le> length t \<and> glob_spec p (drop (length q) t)"
  by (induction q arbitrary: t) (auto split: list.splits)

lemma glob_spec_literal:
  "star \<notin> set p \<Longrightarrow> qmark \<notin> set p \<Longrightarrow> glob_spec p s \<longleftrightarrow> p = s"
  by (induction p arbitrary: s) (auto split: list.splits)

section \<open>The loop decides the meaning\<close>

text \<open>
  The loop invariant. When a star is remembered, \<open>q\<close> is the star-free part of the pattern
  matched since it, and the current subject is what is left after \<open>q\<close>.
\<close>

definition star_inv :: "string \<Rightarrow> string \<Rightarrow> string \<Rightarrow> string \<Rightarrow> string \<Rightarrow> bool" where
  "star_inv q p s sp ss \<longleftrightarrow>
     sp = q @ p \<and> star \<notin> set q \<and> s = drop (length q) ss \<and> length q \<le> length ss"

text \<open>Every later attempt of the remembered star is an attempt of a star met now.\<close>

lemma later_star_subsumes:
  assumes "star_inv q (star # p) s sp ss" and "glob_spec sp (drop k ss)"
  shows "glob_spec (star # p) s"
proof -
  from assms have "glob_spec (star # p) (drop (length q) (drop k ss))"
    unfolding star_inv_def by (metis glob_spec_prefix)
  then have "glob_spec (star # p) (drop k s)"
    using assms(1) by (simp add: star_inv_def add.commute)
  then show ?thesis by (rule glob_spec_star_drop)
qed

definition star_alternatives :: "(string \<times> string) option \<Rightarrow> bool" where
  "star_alternatives st =
     (case st of None \<Rightarrow> False | Some (sp, ss) \<Rightarrow> (\<exists>k \<ge> 1. glob_spec sp (drop k ss)))"

definition loop_inv :: "string \<Rightarrow> string \<Rightarrow> (string \<times> string) option \<Rightarrow> bool" where
  "loop_inv p s st = (case st of None \<Rightarrow> True | Some (sp, ss) \<Rightarrow> (\<exists>q. star_inv q p s sp ss))"

lemma loop_inv_fresh: "loop_inv p s (Some (p, s))"
  unfolding loop_inv_def star_inv_def by (auto intro!: exI [of _ "[]"])

lemma loop_inv_literal:
  assumes "loop_inv (c # p) (d # s) st" and "c \<noteq> star"
  shows "loop_inv p s st"
proof (cases st)
  case (Some x)
  obtain sp ss where x: "x = (sp, ss)" by (cases x)
  with assms(1) Some obtain q where q: "star_inv q (c # p) (d # s) sp ss"
    by (auto simp: loop_inv_def)
  then have l: "length q < length ss" and s: "drop (length q) ss = d # s"
    unfolding star_inv_def by (metis drop_eq_Nil linorder_not_less list.distinct(1), simp)
  from s have "drop (Suc (length q)) ss = s"
    by (metis drop_Suc list.sel(3) tl_drop)
  with q l assms(2) have "star_inv (q @ [c]) p s sp ss" by (auto simp: star_inv_def)
  with Some x show ?thesis by (auto simp: loop_inv_def)
qed (simp add: loop_inv_def)

lemma loop_end_alternatives:
  assumes "loop_inv p [] st" and "star_alternatives st"
  shows "glob_spec p []"
proof -
  from assms(2) obtain sp ss k where st: "st = Some (sp, ss)" and k: "k \<ge> 1" "glob_spec sp (drop k ss)"
    by (auto simp: star_alternatives_def split: option.splits)
  with assms(1) obtain q where "star_inv q p [] sp ss" by (auto simp: loop_inv_def)
  then have q: "sp = q @ p" "star \<notin> set q" "length q = length ss" by (auto simp: star_inv_def)
  with k have p: "length q \<le> length (drop k ss) \<and> glob_spec p (drop (length q) (drop k ss))"
    using glob_spec_prefix by metis
  with q have "drop (length q) (drop k ss) = []" by simp
  with p show ?thesis by simp
qed

lemma ex_ge_1: "(\<exists>k \<ge> 1. P k) \<longleftrightarrow> (\<exists>j. P (Suc j))"
  by (metis One_nat_def Suc_le_D Suc_le_mono le0)

lemma star_alternatives_fresh:
  "glob_spec p s \<or> star_alternatives (Some (p, s)) \<longleftrightarrow> glob_spec (star # p) s"
proof -
  have "(\<exists>k. glob_spec p (drop k s)) \<longleftrightarrow> glob_spec p s \<or> (\<exists>k \<ge> 1. glob_spec p (drop k s))"
    by (metis One_nat_def Suc_leI drop0 gr0I)
  then show ?thesis unfolding glob_spec_star star_alternatives_def by simp
qed

lemma star_alternatives_next:
  "glob_spec sp (tl ss) \<or> star_alternatives (Some (sp, tl ss)) \<longleftrightarrow> star_alternatives (Some (sp, ss))"
proof -
  have "(\<exists>k \<ge> 1. glob_spec sp (drop k ss)) \<longleftrightarrow> (\<exists>j. glob_spec sp (drop j (tl ss)))"
    unfolding ex_ge_1 drop_Suc ..
  also have "\<dots> \<longleftrightarrow> glob_spec sp (tl ss) \<or> (\<exists>k \<ge> 1. glob_spec sp (drop k (tl ss)))"
    unfolding ex_ge_1 by (metis drop0 not0_implies_Suc)
  finally show ?thesis
    by (simp only: star_alternatives_def option.case prod.case)
qed

lemma glob_loop_spec:
  "loop_inv p s st \<Longrightarrow> glob_loop p s st \<longleftrightarrow> glob_spec p s \<or> star_alternatives st"
proof (induction p s st rule: glob_loop.induct)
  case (1 p s st)
  show ?case
  proof (cases s)
    case Nil
    then have "glob_loop p s st \<longleftrightarrow> glob_spec p []"
      by (subst glob_loop.simps, cases "dropWhile (\<lambda>c. c = star) p")
        (simp_all add: glob_spec_Nil del: dropWhile_eq_Nil_conv)
    with Nil "1.prems" show ?thesis using loop_end_alternatives by blast
  next
    case (Cons d s')
    note s = this
    consider (new) p' where "p = star # p'"
      | (lit) c p' where "p = c # p'" "c \<noteq> star" "c = qmark \<or> c = d"
      | (mis) "\<not> (p \<noteq> [] \<and> (hd p = star \<or> hd p = qmark \<or> hd p = d))"
      by (cases p) auto
    then show ?thesis
    proof cases
      case new
      then have "glob_loop p s st \<longleftrightarrow> glob_loop p' s (Some (p', s))"
        by (subst glob_loop.simps) (simp add: s)
      also have "\<dots> \<longleftrightarrow> glob_spec p' s \<or> star_alternatives (Some (p', s))"
        using "1.IH"(1) [OF s] new loop_inv_fresh [of p' s] by simp
      also have "\<dots> \<longleftrightarrow> glob_spec p s" using star_alternatives_fresh new by simp
      finally have eq: "glob_loop p s st \<longleftrightarrow> glob_spec p s" .
      have "star_alternatives st \<Longrightarrow> glob_spec p s"
        using "1.prems" new later_star_subsumes
        by (auto simp: loop_inv_def star_alternatives_def split: option.splits)
      with eq show ?thesis by blast
    next
      case lit
      then have "glob_loop p s st \<longleftrightarrow> glob_loop p' s' st"
        by (subst glob_loop.simps) (auto simp: s)
      also have "\<dots> \<longleftrightarrow> glob_spec p' s' \<or> star_alternatives st"
        using "1.IH"(2) [OF s] lit "1.prems" loop_inv_literal [of c p' d s' st] s by auto
      finally show ?thesis using lit s by auto
    next
      case mis
      then have no: "\<not> glob_spec p s" by (cases p) (auto simp: s)
      show ?thesis
      proof (cases st)
        case None
        with mis no show ?thesis
          by (subst glob_loop.simps) (auto simp: s star_alternatives_def)
      next
        case (Some x)
        obtain sp ss where x: "x = (sp, ss)" by (cases x)
        have "glob_loop p s st \<longleftrightarrow> glob_loop sp (tl ss) (Some (sp, tl ss))"
          using mis Some x by (subst glob_loop.simps) (auto simp: s)
        also have "\<dots> \<longleftrightarrow> glob_spec sp (tl ss) \<or> star_alternatives (Some (sp, tl ss))"
          using "1.IH"(3) [OF s _ _ Some x [symmetric]] mis loop_inv_fresh [of sp "tl ss"] x by auto
        also have "\<dots> \<longleftrightarrow> star_alternatives st"
          using star_alternatives_next Some x by simp
        finally show ?thesis using no by blast
      qed
    qed
  qed
qed

text \<open>
  The matcher is correct: greedy matching with a single backtracking point (and the fast path
  for patterns without wildcards) accepts exactly the strings the pattern means.
\<close>

lemma match_glob_spec: "match_glob p s \<longleftrightarrow> glob_spec p s"
proof (cases "star \<notin> set p \<and> qmark \<notin> set p")
  case True
  then show ?thesis by (simp add: match_glob_def glob_spec_literal)
next
  case False
  moreover have "glob_loop p s None \<longleftrightarrow> glob_spec p s"
    using glob_loop_spec [of p s None] by (simp add: loop_inv_def star_alternatives_def)
  ultimately show ?thesis unfolding match_glob_def by (simp only: if_False)
qed

section \<open>The contract the callers rely on\<close>

text \<open>
  The policy evaluator and the exec allowlist use the matcher through this contract only.
\<close>

locale glob_matcher =
  fixes matches :: "string \<Rightarrow> string \<Rightarrow> bool"
  assumes matches_spec: "matches p s \<longleftrightarrow> glob_spec p s"
begin

lemma literal: "star \<notin> set p \<Longrightarrow> qmark \<notin> set p \<Longrightarrow> matches p s \<longleftrightarrow> p = s"
  by (simp add: matches_spec glob_spec_literal)

lemma universal: "matches [star] s"
  by (simp add: matches_spec glob_spec_star) (metis drop_all order_refl)

lemma append_star:
  "star \<notin> set p \<Longrightarrow> qmark \<notin> set p \<Longrightarrow> matches (p @ [star]) s \<longleftrightarrow> prefix p s"
proof (induction p arbitrary: s)
  case Nil
  then show ?case using universal by simp
next
  case (Cons c p)
  then show ?case
    by (cases s) (auto simp: matches_spec)
qed

lemma qmark_one_byte: "matches [qmark] s \<longleftrightarrow> length s = 1"
  by (cases s) (auto simp: matches_spec star_def qmark_def)

end

interpretation mg: glob_matcher match_glob
  by unfold_locales (rule match_glob_spec)

text \<open>Trailing stars in a pattern are redundant after the first.\<close>

lemma glob_spec_star_star: "glob_spec (star # star # p) s \<longleftrightarrow> glob_spec (star # p) s"
  unfolding glob_spec_star [of "star # p"] using glob_spec_star_drop
  by (metis drop0)

lemma match_glob_examples:
  "match_glob ''git *'' ''git push''" "\<not> match_glob ''git *'' ''gitk''"
  "match_glob ''*a*b?'' ''xxaybaabz''" "match_glob ''read_file'' ''read_file''"
  by code_simp+

end
