(* ===== verification/Policy.thy ===== *)
theory Policy
  imports Glob
begin

text \<open>
  pkg/policy: the security configuration and its validation (policy.go), the tool and exec
  evaluator (evaluator.go), the admin-ask fence (admin_ask_fence.go), the admin predicate
  (admin.go), the saturation cap (saturation.go) and the auditing wrapper (auditor.go).
  Policy values are the code's strings, so that values that are not valid are represented;
  a nil slice is \<^const>\<open>None\<close> and differs from an empty one.
\<close>

section \<open>Configuration\<close>

type_synonym tool_policy = string
type_synonym default_policy = string

definition PolicyAllow :: default_policy where "PolicyAllow = ''allow''"
definition PolicyDeny :: default_policy where "PolicyDeny = ''deny''"

definition ToolPolicyAllow :: tool_policy where "ToolPolicyAllow = ''allow''"
definition ToolPolicyAsk :: tool_policy where "ToolPolicyAsk = ''ask''"
definition ToolPolicyDeny :: tool_policy where "ToolPolicyDeny = ''deny''"

lemma tool_policy_distinct [simp]:
  "ToolPolicyAllow \<noteq> ToolPolicyAsk" "ToolPolicyAsk \<noteq> ToolPolicyAllow"
  "ToolPolicyAllow \<noteq> ToolPolicyDeny" "ToolPolicyDeny \<noteq> ToolPolicyAllow"
  "ToolPolicyAsk \<noteq> ToolPolicyDeny" "ToolPolicyDeny \<noteq> ToolPolicyAsk"
  "ToolPolicyAllow \<noteq> ''''" "ToolPolicyAsk \<noteq> ''''" "ToolPolicyDeny \<noteq> ''''"
  "PolicyAllow \<noteq> PolicyDeny" "PolicyDeny \<noteq> PolicyAllow" "PolicyAllow \<noteq> ''''" "PolicyDeny \<noteq> ''''"
  by (simp_all add: ToolPolicyAllow_def ToolPolicyAsk_def ToolPolicyDeny_def PolicyAllow_def
      PolicyDeny_def)

lemmas policy_consts = PolicyAllow_def PolicyDeny_def ToolPolicyAllow_def ToolPolicyAsk_def
  ToolPolicyDeny_def

record decision =
  d_allowed :: bool
  d_policy :: string
  d_rule :: string

record agent_tools_policy =
  tools_Allow :: "string list option"
  tools_Deny :: "string list option"

record agent_policy =
  ap_Tools :: agent_tools_policy
  ap_ToolsAllow :: "string list option"
  ap_ToolsDeny :: "string list option"

definition slice :: "'a list option \<Rightarrow> 'a list" where
  "slice xs = (case xs of None \<Rightarrow> [] | Some l \<Rightarrow> l)"

definition effective_allow :: "agent_policy \<Rightarrow> string list" where
  "effective_allow ap =
     (if length (slice (tools_Allow (ap_Tools ap))) > 0 then slice (tools_Allow (ap_Tools ap))
      else slice (ap_ToolsAllow ap))"

definition effective_deny :: "agent_policy \<Rightarrow> string list" where
  "effective_deny ap =
     (if length (slice (tools_Deny (ap_Tools ap))) > 0 then slice (tools_Deny (ap_Tools ap))
      else slice (ap_ToolsDeny ap))"

definition has_allow_list :: "agent_policy \<Rightarrow> bool" where
  "has_allow_list ap \<longleftrightarrow> tools_Allow (ap_Tools ap) \<noteq> None \<or> ap_ToolsAllow ap \<noteq> None"

record ssrf_policy =
  ssrf_enabled :: bool
  ssrf_allow_internal :: "string list"

record audit_policy =
  audit_output :: string
  audit_redaction :: bool
  audit_redaction_patterns :: "string list"
  audit_tamper_evident :: bool
  audit_retention_days :: int

record exec_policy =
  exec_allowed_binaries :: "string list"
  exec_approval :: string

record filesystem_policy =
  fs_allowed_paths :: "string list"

record policy_section =
  section_filesystem :: filesystem_policy
  section_exec :: exec_policy

record rate_limits_policy =
  daily_cost_cap_usd :: real

record prompt_guard_config =
  pg_strictness :: string

type_synonym skill_trust_policy = string

definition SkillTrustBlockUnverified :: skill_trust_policy where
  "SkillTrustBlockUnverified = ''block_unverified''"
definition SkillTrustWarnUnverified :: skill_trust_policy where
  "SkillTrustWarnUnverified = ''warn_unverified''"
definition SkillTrustAllowAll :: skill_trust_policy where
  "SkillTrustAllowAll = ''allow_all''"

record security_config =
  sc_DefaultPolicy :: default_policy
  sc_Agents :: "(string, agent_policy) gomap"
  sc_SSRF :: ssrf_policy
  sc_Audit :: audit_policy
  sc_Policy :: policy_section
  sc_RateLimits :: rate_limits_policy
  sc_SkillTrust :: skill_trust_policy
  sc_PromptGuard :: prompt_guard_config
  sc_ToolPolicies :: "(string, tool_policy) gomap"
  sc_DefaultToolPolicy :: tool_policy

definition builtin_tool_policies :: "(string, tool_policy) gomap" where
  "builtin_tool_policies = [(''browser.evaluate'', ToolPolicyDeny)]"

section \<open>Validation\<close>

definition is_abs :: "string \<Rightarrow> bool" where
  "is_abs p = prefix ''/'' p"

definition msg_default_policy :: "string \<Rightarrow> string" where
  "msg_default_policy v = ''security.default_policy: invalid value '' @ go_quote v
     @ '' (must be \"allow\" or \"deny\")''"
definition msg_default_tool_policy :: "string \<Rightarrow> string" where
  "msg_default_tool_policy v = ''security.default_tool_policy: invalid value '' @ go_quote v
     @ '' (must be \"allow\", \"ask\", or \"deny\")''"
definition msg_tool_policies :: "string \<Rightarrow> string \<Rightarrow> string" where
  "msg_tool_policies tool v = ''security.tool_policies['' @ go_quote tool @ '']: invalid value ''
     @ go_quote v @ '' (must be \"allow\", \"ask\", or \"deny\")''"
definition msg_audit_output :: "string \<Rightarrow> string" where
  "msg_audit_output v = ''security.audit.output: invalid value '' @ go_quote v"
definition msg_exec_approval :: "string \<Rightarrow> string" where
  "msg_exec_approval v = ''security.policy.exec.approval: invalid value '' @ go_quote v"
definition msg_skill_trust :: "string \<Rightarrow> string" where
  "msg_skill_trust v = ''security.skill_trust: invalid value '' @ go_quote v
     @ '' (must be \"block_unverified\", \"warn_unverified\", or \"allow_all\")''"
definition msg_strictness :: "string \<Rightarrow> string" where
  "msg_strictness v = ''security.prompt_guard.strictness: invalid value '' @ go_quote v
     @ '' (must be \"low\", \"medium\", or \"high\")''"
definition msg_allowed_paths :: "string \<Rightarrow> string" where
  "msg_allowed_paths p = ''security.policy.filesystem.allowed_paths: path '' @ go_quote p
     @ '' must be absolute or start with ~/''"

fun validate_tool_policies :: "(string, tool_policy) gomap \<Rightarrow> string option" where
  "validate_tool_policies [] = None"
| "validate_tool_policies ((tool, tp) # rest) =
     (if tp \<in> {ToolPolicyAllow, ToolPolicyAsk, ToolPolicyDeny} then validate_tool_policies rest
      else Some (msg_tool_policies tool tp))"

fun validate_paths :: "string list \<Rightarrow> string option" where
  "validate_paths [] = None"
| "validate_paths (p # rest) =
     (if \<not> is_abs p \<and> \<not> prefix ''~/'' p
      then Some (msg_allowed_paths p)
      else validate_paths rest)"

text \<open>\<open>validateConfig\<close>: \<^const>\<open>None\<close> is the nil error, \<open>Some m\<close> the first problem's message.\<close>

definition validate_config :: "security_config \<Rightarrow> string option" where
  "validate_config cfg =
     (if sc_DefaultPolicy cfg \<notin> {'''', PolicyAllow, PolicyDeny} then
        Some (msg_default_policy (sc_DefaultPolicy cfg))
      else if sc_DefaultToolPolicy cfg \<notin> {'''', ToolPolicyAllow, ToolPolicyAsk, ToolPolicyDeny} then
        Some (msg_default_tool_policy (sc_DefaultToolPolicy cfg))
      else case validate_tool_policies (sc_ToolPolicies cfg) of Some e \<Rightarrow> Some e | None \<Rightarrow>
      if audit_output (sc_Audit cfg) \<notin> {'''', ''file'', ''stdout'', ''both''} then
        Some (msg_audit_output (audit_output (sc_Audit cfg)))
      else if exec_approval (section_exec (sc_Policy cfg)) \<notin> {'''', ''ask'', ''off''} then
        Some (msg_exec_approval (exec_approval (section_exec (sc_Policy cfg))))
      else if sc_SkillTrust cfg \<notin>
          {'''', SkillTrustBlockUnverified, SkillTrustWarnUnverified, SkillTrustAllowAll} then
        Some (msg_skill_trust (sc_SkillTrust cfg))
      else if pg_strictness (sc_PromptGuard cfg) \<notin> {'''', ''low'', ''medium'', ''high''} then
        Some (msg_strictness (pg_strictness (sc_PromptGuard cfg)))
      else validate_paths (fs_allowed_paths (section_filesystem (sc_Policy cfg))))"

text \<open>\<open>ParseSecurityConfig\<close>; the JSON decoder is the parameter \<open>unmarshal\<close>.\<close>

definition parse_security_config ::
  "(string \<Rightarrow> string + security_config) \<Rightarrow> string \<Rightarrow> string + security_config" where
  "parse_security_config unmarshal data =
     (case unmarshal data of
        Inl e \<Rightarrow> Inl (''security config: invalid JSON: '' @ e)
      | Inr cfg \<Rightarrow> (case validate_config cfg of Some e \<Rightarrow> Inl e | None \<Rightarrow> Inr cfg))"

definition effective_skill_trust :: "security_config \<Rightarrow> skill_trust_policy" where
  "effective_skill_trust sc =
     (if sc_SkillTrust sc \<in> {SkillTrustBlockUnverified, SkillTrustAllowAll} then sc_SkillTrust sc
      else SkillTrustWarnUnverified)"

definition get_default_policy :: "security_config \<Rightarrow> default_policy" where
  "get_default_policy sc = (if sc_DefaultPolicy sc = '''' then PolicyDeny else sc_DefaultPolicy sc)"

definition is_system_agent :: "string \<Rightarrow> bool" where
  "is_system_agent agent_type \<longleftrightarrow> agent_type = ''core'' \<or> agent_type = ''system''"

lemma validate_tool_policies_None:
  "validate_tool_policies m = None \<longleftrightarrow>
     (\<forall>v \<in> snd ` set m. v \<in> {ToolPolicyAllow, ToolPolicyAsk, ToolPolicyDeny})"
  by (induction m rule: validate_tool_policies.induct) auto

lemma validate_paths_None:
  "validate_paths ps = None \<longleftrightarrow> (\<forall>p \<in> set ps. is_abs p \<or> prefix ''~/'' p)"
  by (induction ps) auto

section \<open>Global tool policies\<close>

definition rank :: "tool_policy \<Rightarrow> nat" where
  "rank p = (if p = ToolPolicyAsk then 1 else if p = ToolPolicyDeny then 2 else 0)"

definition is_stricter :: "tool_policy \<Rightarrow> tool_policy \<Rightarrow> bool" where
  "is_stricter candidate current \<longleftrightarrow> rank candidate > rank current"

text \<open>The loop of \<open>resolveStrictestPolicy\<close> over the map, with \<open>best\<close> so far.\<close>

fun strictest_loop :: "(string, tool_policy) gomap \<Rightarrow> string \<Rightarrow> tool_policy \<Rightarrow> tool_policy" where
  "strictest_loop [] tool best = best"
| "strictest_loop ((pattern, pol) # rest) tool best =
     (if \<not> match_glob pattern tool then strictest_loop rest tool best
      else if best = '''' \<or> is_stricter pol best then strictest_loop rest tool pol
      else strictest_loop rest tool best)"

definition resolve_strictest_policy :: "(string, tool_policy) gomap \<Rightarrow> string \<Rightarrow> tool_policy" where
  "resolve_strictest_policy policies tool = strictest_loop policies tool ''''"

definition resolve_tool_policy :: "security_config option \<Rightarrow> string \<Rightarrow> tool_policy" where
  "resolve_tool_policy sc tool =
     (case sc of
        None \<Rightarrow>
          (let resolved = resolve_strictest_policy builtin_tool_policies tool
           in if resolved \<noteq> '''' then resolved else ToolPolicyAllow)
      | Some sc \<Rightarrow>
          (let user = (if length (sc_ToolPolicies sc) > 0
                       then resolve_strictest_policy (sc_ToolPolicies sc) tool else '''')
           in if user \<noteq> '''' then user
              else let builtin = resolve_strictest_policy builtin_tool_policies tool
                in if builtin \<noteq> '''' then builtin
                   else if sc_DefaultToolPolicy sc \<noteq> '''' then sc_DefaultToolPolicy sc
                   else ToolPolicyAllow))"

section \<open>The evaluator\<close>

record evaluator =
  e_defaultPolicy :: default_policy
  e_agents :: "(string, agent_policy) gomap"
  e_execAllowedBins :: "string list"
  e_toolPolicies :: "(string, tool_policy) gomap"
  e_defaultToolPolicy :: tool_policy

definition new_evaluator :: "security_config option \<Rightarrow> evaluator" where
  "new_evaluator cfg =
     (case cfg of
        None \<Rightarrow> \<lparr>e_defaultPolicy = PolicyDeny, e_agents = [], e_execAllowedBins = [],
                 e_toolPolicies = [], e_defaultToolPolicy = ''''\<rparr>
      | Some c \<Rightarrow>
          \<lparr>e_defaultPolicy = (if sc_DefaultPolicy c \<noteq> '''' then sc_DefaultPolicy c else PolicyDeny),
           e_agents = sc_Agents c,
           e_execAllowedBins = exec_allowed_binaries (section_exec (sc_Policy c)),
           e_toolPolicies = sc_ToolPolicies c,
           e_defaultToolPolicy = sc_DefaultToolPolicy c\<rparr>)"

definition resolve_global_tool_policy :: "evaluator \<Rightarrow> string \<Rightarrow> tool_policy" where
  "resolve_global_tool_policy e tool =
     (let user = (if length (e_toolPolicies e) > 0
                  then resolve_strictest_policy (e_toolPolicies e) tool else '''')
      in if user \<noteq> '''' then user
         else let builtin = resolve_strictest_policy builtin_tool_policies tool
           in if builtin \<noteq> '''' then builtin
              else if e_defaultToolPolicy e \<noteq> '''' then e_defaultToolPolicy e
              else ToolPolicyAllow)"

text \<open>The format strings of the evaluator's explanations (SEC-17).\<close>

definition msg_global_deny :: "string \<Rightarrow> string" where
  "msg_global_deny tool = ''tool '' @ squote tool @ '' denied by global tool policy''"
definition msg_default_deny :: "string \<Rightarrow> string \<Rightarrow> string" where
  "msg_default_deny tool agent = ''default_policy is '' @ squote ''deny''
     @ '', no allow rule for tool '' @ squote tool @ '' (agent '' @ squote agent @ '')''"
definition msg_default_allow :: "string \<Rightarrow> string" where
  "msg_default_allow tool = ''security.default_policy is '' @ squote ''allow''
     @ '', no deny rule matched for tool '' @ squote tool"
definition msg_agent_deny :: "string \<Rightarrow> string \<Rightarrow> string" where
  "msg_agent_deny tool agent = ''tool '' @ squote tool @ '' in tools.deny for agent '' @ squote agent"
definition msg_agent_deny_over_allow :: "string \<Rightarrow> string \<Rightarrow> string" where
  "msg_agent_deny_over_allow tool agent =
     msg_agent_deny tool agent @ '' (deny takes precedence over allow)''"
definition msg_allow_empty :: "string \<Rightarrow> string" where
  "msg_allow_empty agent = ''tools.allow is empty for agent '' @ squote agent @ '' (no tools permitted)''"
definition msg_allow_matched :: "string \<Rightarrow> string \<Rightarrow> string" where
  "msg_allow_matched tool agent = ''tools.allow matched '' @ squote tool @ '' for agent '' @ squote agent"
definition msg_not_in_allow :: "string \<Rightarrow> string \<Rightarrow> string" where
  "msg_not_in_allow tool agent = ''tool '' @ squote tool @ '' not in tools.allow for agent '' @ squote agent"
definition msg_exec_empty :: "string \<Rightarrow> string" where
  "msg_exec_empty bin = ''binary '' @ go_quote bin @ '' not in exec allowlist (empty allowlist)''"
definition msg_exec_unlisted :: "string \<Rightarrow> string" where
  "msg_exec_unlisted bin = ''binary '' @ go_quote bin @ '' not in exec allowlist''"
definition msg_exec_matched :: "string \<Rightarrow> string" where
  "msg_exec_matched pat = ''exec allowed: command matched pattern '' @ go_quote pat"
definition msg_exec_unconfigured :: string where
  "msg_exec_unconfigured =
     ''exec allowed: no exec allowlist configured, default_policy is '' @ squote ''allow''"

definition evaluate_default :: "evaluator \<Rightarrow> string \<Rightarrow> string \<Rightarrow> decision" where
  "evaluate_default e agent tool =
     (if e_defaultPolicy e = PolicyDeny then
        \<lparr>d_allowed = False, d_policy = ToolPolicyDeny, d_rule = msg_default_deny tool agent\<rparr>
      else
        \<lparr>d_allowed = True, d_policy = ToolPolicyAllow, d_rule = msg_default_allow tool\<rparr>)"

definition evaluate_with_policy :: "evaluator \<Rightarrow> string \<Rightarrow> string \<Rightarrow> agent_policy \<Rightarrow> decision" where
  "evaluate_with_policy e agent tool ap =
     (let deny = effective_deny ap; allow = effective_allow ap in
      if \<exists>d \<in> set deny. match_glob d tool then
        (if \<exists>a \<in> set allow. match_glob a tool then
           \<lparr>d_allowed = False, d_policy = ToolPolicyDeny,
            d_rule = msg_agent_deny_over_allow tool agent\<rparr>
         else
           \<lparr>d_allowed = False, d_policy = ToolPolicyDeny, d_rule = msg_agent_deny tool agent\<rparr>)
      else if has_allow_list ap then
        (if length allow = 0 then
           \<lparr>d_allowed = False, d_policy = ToolPolicyDeny, d_rule = msg_allow_empty agent\<rparr>
         else if \<exists>a \<in> set allow. match_glob a tool then
           \<lparr>d_allowed = True, d_policy = ToolPolicyAllow, d_rule = msg_allow_matched tool agent\<rparr>
         else
           \<lparr>d_allowed = False, d_policy = ToolPolicyDeny, d_rule = msg_not_in_allow tool agent\<rparr>)
      else evaluate_default e agent tool)"

text \<open>
  \<open>EvaluateTool\<close>. The variadic \<open>agentPolicy\<close> argument is \<^const>\<open>None\<close> when it is absent or
  nil, which the code treats alike. \<open>elevate\<close> is the block the code repeats after an agent
  policy has been evaluated.
\<close>

definition elevate :: "tool_policy \<Rightarrow> decision \<Rightarrow> decision" where
  "elevate global d =
     (if d_allowed d \<and> d_policy d = '''' \<and> global = ToolPolicyAsk then d\<lparr>d_policy := ToolPolicyAsk\<rparr>
      else if d_policy d = '''' then d\<lparr>d_policy := ToolPolicyAllow\<rparr>
      else d)"

definition evaluate_tool :: "evaluator \<Rightarrow> string \<Rightarrow> string \<Rightarrow> agent_policy option \<Rightarrow> decision" where
  "evaluate_tool e agent tool explicit =
     (let global = resolve_global_tool_policy e tool in
      if global = ToolPolicyDeny then
        \<lparr>d_allowed = False, d_policy = ToolPolicyDeny, d_rule = msg_global_deny tool\<rparr>
      else case explicit of
        Some ap \<Rightarrow> elevate global (evaluate_with_policy e agent tool ap)
      | None \<Rightarrow>
          (case map_of (e_agents e) agent of
             Some ap \<Rightarrow> elevate global (evaluate_with_policy e agent tool ap)
           | None \<Rightarrow>
               (let d = evaluate_default e agent tool in
                if d_allowed d \<and> global = ToolPolicyAsk then d\<lparr>d_policy := ToolPolicyAsk\<rparr>
                else if d_allowed d then d\<lparr>d_policy := ToolPolicyAllow\<rparr>
                else d\<lparr>d_policy := ToolPolicyDeny\<rparr>)))"

text \<open>\<open>FirstToken\<close> and \<open>EvaluateExec\<close>; a decision of the latter leaves the policy string empty.\<close>

definition first_token :: "string \<Rightarrow> string" where
  "first_token s =
     (let t = trim_space s in
      case index_byte t (CHR '' '') of Some i \<Rightarrow> take i t | None \<Rightarrow> t)"

definition evaluate_exec :: "evaluator \<Rightarrow> string \<Rightarrow> string \<Rightarrow> decision" where
  "evaluate_exec e agent command =
     (if length (e_execAllowedBins e) = 0 then
        (if e_defaultPolicy e = PolicyDeny then
           \<lparr>d_allowed = False, d_policy = '''', d_rule = msg_exec_empty (first_token command)\<rparr>
         else
           \<lparr>d_allowed = True, d_policy = '''', d_rule = msg_exec_unconfigured\<rparr>)
      else case find (\<lambda>pat. match_glob pat command) (e_execAllowedBins e) of
        Some pat \<Rightarrow>
          \<lparr>d_allowed = True, d_policy = '''', d_rule = msg_exec_matched pat\<rparr>
      | None \<Rightarrow>
          \<lparr>d_allowed = False, d_policy = '''', d_rule = msg_exec_unlisted (first_token command)\<rparr>)"

text \<open>\<open>Engine\<close> wraps an evaluator that has nothing but a default policy.\<close>

definition empty_security_config :: security_config where
  "empty_security_config =
     \<lparr>sc_DefaultPolicy = '''', sc_Agents = [],
      sc_SSRF = \<lparr>ssrf_enabled = False, ssrf_allow_internal = []\<rparr>,
      sc_Audit = \<lparr>audit_output = '''', audit_redaction = False, audit_redaction_patterns = [],
        audit_tamper_evident = False, audit_retention_days = 0\<rparr>,
      sc_Policy = \<lparr>section_filesystem = \<lparr>fs_allowed_paths = []\<rparr>,
        section_exec = \<lparr>exec_allowed_binaries = [], exec_approval = ''''\<rparr>\<rparr>,
      sc_RateLimits = \<lparr>daily_cost_cap_usd = 0\<rparr>, sc_SkillTrust = '''',
      sc_PromptGuard = \<lparr>pg_strictness = ''''\<rparr>, sc_ToolPolicies = [], sc_DefaultToolPolicy = ''''\<rparr>"

definition new_engine :: "default_policy \<Rightarrow> evaluator" where
  "new_engine dp = new_evaluator (Some (empty_security_config\<lparr>sc_DefaultPolicy := dp\<rparr>))"

definition engine_evaluate :: "evaluator \<Rightarrow> string \<Rightarrow> string \<Rightarrow> agent_policy option \<Rightarrow> decision" where
  "engine_evaluate eng agent tool ap = evaluate_tool eng agent tool ap"

section \<open>Admin role and admin-ask fence\<close>

text \<open>\<open>IsAdmin\<close>; the user is given by its role, \<^const>\<open>None\<close> for a nil user.\<close>

definition UserRoleAdmin :: string where "UserRoleAdmin = ''admin''"

definition is_admin :: "string option \<Rightarrow> bool" where
  "is_admin u = (case u of None \<Rightarrow> False | Some role \<Rightarrow> role = UserRoleAdmin)"

text \<open>\<open>ApplyAdminAskFence\<close>; a nil predicate is \<^const>\<open>None\<close>.\<close>

definition apply_admin_ask_fence ::
  "string \<Rightarrow> string \<Rightarrow> string \<Rightarrow> (string \<Rightarrow> bool) option \<Rightarrow> (string \<Rightarrow> bool) option \<Rightarrow> string \<times> bool" where
  "apply_admin_ask_fence effective tool agent requires_admin_ask is_core =
     (if effective \<noteq> ''allow'' then (effective, False)
      else if (case is_core of None \<Rightarrow> False | Some f \<Rightarrow> f agent) then (effective, False)
      else if (case requires_admin_ask of None \<Rightarrow> True | Some f \<Rightarrow> \<not> f tool) then (effective, False)
      else (''ask'', True))"

lemma fence_weakens_only_allow:
  "apply_admin_ask_fence eff tool agent ra core = (r, applied) \<Longrightarrow>
     r = (if applied then ''ask'' else eff) \<and> (applied \<longrightarrow> eff = ''allow'')"
  by (auto simp: apply_admin_ask_fence_def split: if_splits)

section \<open>Saturation cap\<close>

definition SaturationConfigKey :: string where
  "SaturationConfigKey = ''gateway.tool_approval_max_pending''"
definition SaturationDefault :: int where "SaturationDefault = 64"
definition SaturationSentinelUnlimited :: int where "SaturationSentinelUnlimited = 0"

datatype boot_event =
    ConfigInvalidValue string int
  | BootAbortStderr string int
  | StartupGuardDisabled string

text \<open>\<open>ValidateSaturationCap\<close>: effective cap, continue flag, and what is emitted, in order.\<close>

definition validate_saturation_cap :: "int \<Rightarrow> int \<times> bool \<times> boot_event list" where
  "validate_saturation_cap sat_cap =
     (if sat_cap < 0 then
        (0, False, [ConfigInvalidValue SaturationConfigKey sat_cap,
                    BootAbortStderr SaturationConfigKey sat_cap])
      else if sat_cap = SaturationSentinelUnlimited then
        (SaturationSentinelUnlimited, True, [StartupGuardDisabled SaturationConfigKey])
      else (sat_cap, True, []))"

definition should_saturate :: "int \<Rightarrow> int \<Rightarrow> bool" where
  "should_saturate sat_cap current_pending =
     (if sat_cap = SaturationSentinelUnlimited then False else current_pending \<ge> sat_cap)"

section \<open>Auditing wrapper\<close>

record audit_entry =
  ae_timestamp :: time
  ae_event :: string
  ae_decision :: string
  ae_agent :: string
  ae_session :: string
  ae_tool :: string
  ae_command :: string
  ae_rule :: string

text \<open>
  \<open>PolicyAuditor\<close>: the logger is the log it has written, \<^const>\<open>None\<close> for a nil logger. A
  failing write is reported and otherwise ignored by the code, so \<open>write\<close>, the logger's
  behaviour, is a parameter from entry and log to the new log. \<open>NewPolicyAuditor\<close> panics
  (\<^const>\<open>None\<close>) on a nil evaluator.
\<close>

record auditor =
  pa_eval :: evaluator
  pa_log :: "audit_entry list option"
  pa_session :: string

definition new_policy_auditor ::
  "evaluator option \<Rightarrow> audit_entry list option \<Rightarrow> string \<Rightarrow> auditor option" where
  "new_policy_auditor eval logger session =
     (case eval of None \<Rightarrow> None
      | Some e \<Rightarrow> Some \<lparr>pa_eval = e, pa_log = logger, pa_session = session\<rparr>)"

definition log_decision ::
  "(audit_entry \<Rightarrow> audit_entry list \<Rightarrow> audit_entry list) \<Rightarrow> time \<Rightarrow> auditor \<Rightarrow> string \<Rightarrow> string \<Rightarrow>
     string \<Rightarrow> string \<Rightarrow> decision \<Rightarrow> auditor" where
  "log_decision write now pa event agent tool command d =
     (case pa_log pa of
        None \<Rightarrow> pa
      | Some l \<Rightarrow> pa\<lparr>pa_log := Some (write
          \<lparr>ae_timestamp = now, ae_event = event,
           ae_decision = (if d_allowed d then ''allow'' else ''deny''),
           ae_agent = agent, ae_session = pa_session pa, ae_tool = tool, ae_command = command,
           ae_rule = d_rule d\<rparr> l)\<rparr>)"

definition audited_evaluate_tool ::
  "(audit_entry \<Rightarrow> audit_entry list \<Rightarrow> audit_entry list) \<Rightarrow> time \<Rightarrow> auditor \<Rightarrow> string \<Rightarrow> string \<Rightarrow>
     agent_policy option \<Rightarrow> decision \<times> auditor" where
  "audited_evaluate_tool write now pa agent tool ap =
     (let d = evaluate_tool (pa_eval pa) agent tool ap
      in (d, log_decision write now pa ''tool_call'' agent tool '''' d))"

definition audited_evaluate_exec ::
  "(audit_entry \<Rightarrow> audit_entry list \<Rightarrow> audit_entry list) \<Rightarrow> time \<Rightarrow> auditor \<Rightarrow> string \<Rightarrow> string \<Rightarrow>
     decision \<times> auditor" where
  "audited_evaluate_exec write now pa agent command =
     (let d = evaluate_exec (pa_eval pa) agent command
      in (d, log_decision write now pa ''exec'' agent '''' command d))"

section \<open>DM safety\<close>

record channel_config =
  cc_name :: string
  cc_enabled :: bool
  cc_allow_from :: "string list"

definition is_letter :: "char \<Rightarrow> bool" where
  "is_letter c = (let n = (of_char c :: nat) in (65 \<le> n \<and> n \<le> 90) \<or> (97 \<le> n \<and> n \<le> 122))"

definition is_separator :: "char \<Rightarrow> bool" where
  "is_separator c =
     (let n = (of_char c :: nat) in \<not> is_letter c \<and> \<not> (48 \<le> n \<and> n \<le> 57) \<and> c \<noteq> CHR ''_'')"

definition title_char :: "char \<Rightarrow> char" where
  "title_char c = (let n = (of_char c :: nat) in if 97 \<le> n \<and> n \<le> 122 then char_of (n - 32) else c)"

text \<open>\<open>strings.Title\<close> on ASCII bytes: a letter after a separator (or first) is upper-cased.\<close>

fun go_title :: "char \<Rightarrow> string \<Rightarrow> string" where
  "go_title prev [] = []"
| "go_title prev (c # s) = (if is_separator prev then title_char c else c) # go_title c s"

fun check_dm_safety :: "channel_config list \<Rightarrow> string list" where
  "check_dm_safety [] = []"
| "check_dm_safety (ch # rest) =
     (if \<not> cc_enabled ch then check_dm_safety rest
      else if length (cc_allow_from ch) = 0 then
        (go_title (CHR '' '') (cc_name ch)
          @ '' channel accepts messages from anyone. Set policies.allow_from to restrict access.'')
        # check_dm_safety rest
      else check_dm_safety rest)"

section \<open>Strictest policy wins, whatever the iteration order\<close>

definition matched_policies :: "(string, tool_policy) gomap \<Rightarrow> string \<Rightarrow> tool_policy set" where
  "matched_policies ps tool = {v. \<exists>p. (p, v) \<in> set ps \<and> match_glob p tool}"

definition strictest_of :: "tool_policy set \<Rightarrow> tool_policy" where
  "strictest_of P =
     (if ToolPolicyDeny \<in> P then ToolPolicyDeny else if ToolPolicyAsk \<in> P then ToolPolicyAsk
      else if ToolPolicyAllow \<in> P then ToolPolicyAllow else '''')"

definition valid_policies :: "(string, tool_policy) gomap \<Rightarrow> bool" where
  "valid_policies ps \<longleftrightarrow> snd ` set ps \<subseteq> {ToolPolicyAllow, ToolPolicyAsk, ToolPolicyDeny}"

lemma matched_policies_Cons:
  "matched_policies ((p, v) # ps) tool =
     (if match_glob p tool then insert v (matched_policies ps tool) else matched_policies ps tool)"
  by (auto simp: matched_policies_def)

lemma strictest_of_keep:
  "v \<in> {ToolPolicyAllow, ToolPolicyAsk, ToolPolicyDeny} \<Longrightarrow>
   best \<in> {'''', ToolPolicyAllow, ToolPolicyAsk, ToolPolicyDeny} \<Longrightarrow> best = '''' \<or> is_stricter v best \<Longrightarrow>
   strictest_of (insert best (insert v M)) = strictest_of (insert v M)"
  unfolding strictest_of_def is_stricter_def rank_def by (elim insertE emptyE disjE; simp)

lemma strictest_of_skip:
  "v \<in> {ToolPolicyAllow, ToolPolicyAsk, ToolPolicyDeny} \<Longrightarrow>
   best \<in> {'''', ToolPolicyAllow, ToolPolicyAsk, ToolPolicyDeny} \<Longrightarrow>
   \<not> (best = '''' \<or> is_stricter v best) \<Longrightarrow>
   strictest_of (insert best (insert v M)) = strictest_of (insert best M)"
  unfolding strictest_of_def is_stricter_def rank_def by (elim insertE emptyE disjE; simp)

lemma strictest_loop_spec:
  assumes "valid_policies ps" and "best \<in> {'''', ToolPolicyAllow, ToolPolicyAsk, ToolPolicyDeny}"
  shows "strictest_loop ps tool best = strictest_of (insert best (matched_policies ps tool))"
  using assms
proof (induction ps tool best rule: strictest_loop.induct)
  case (1 tool best)
  then show ?case by (auto simp: matched_policies_def strictest_of_def)
next
  case (2 p v ps tool best)
  then have v: "v \<in> {ToolPolicyAllow, ToolPolicyAsk, ToolPolicyDeny}" and vp: "valid_policies ps"
    by (auto simp: valid_policies_def)
  let ?M = "matched_policies ps tool"
  show ?case
  proof (cases "match_glob p tool")
    case False
    with 2 vp show ?thesis by (simp add: matched_policies_Cons)
  next
    case True
    note keep = strictest_of_keep [OF v "2.prems"(2), of ?M]
      and skip = strictest_of_skip [OF v "2.prems"(2), of ?M]
    show ?thesis
    proof (cases "best = '''' \<or> is_stricter v best")
      case new: True
      then have "strictest_loop ps tool v = strictest_of (insert v ?M)"
        using "2.IH"(2) True vp v by auto
      with new True keep show ?thesis by (simp add: matched_policies_Cons)
    next
      case False
      then have "strictest_loop ps tool best = strictest_of (insert best ?M)"
        using "2.IH"(3) True vp "2.prems"(2) by auto
      with False True skip show ?thesis by (simp add: matched_policies_Cons)
    qed
  qed
qed

lemma strictest_of_insert_empty: "strictest_of (insert '''' P) = strictest_of P"
  by (simp add: strictest_of_def)

lemma resolve_strictest_spec:
  "valid_policies ps \<Longrightarrow> resolve_strictest_policy ps tool = strictest_of (matched_policies ps tool)"
  by (simp add: resolve_strictest_policy_def strictest_loop_spec strictest_of_insert_empty)

lemma validate_config_tool_policies:
  "validate_config cfg = None \<Longrightarrow> validate_tool_policies (sc_ToolPolicies cfg) = None"
  unfolding validate_config_def if_Some_eq_None
  by (cases "validate_tool_policies (sc_ToolPolicies cfg)") simp_all

lemma validate_config_valid_policies:
  "validate_config cfg = None \<Longrightarrow> valid_policies (sc_ToolPolicies cfg)"
  using validate_tool_policies_None [of "sc_ToolPolicies cfg"] validate_config_tool_policies
  unfolding valid_policies_def by auto

section \<open>Who may call which tool\<close>

lemma evaluate_default_allowed [simp]:
  "d_allowed (evaluate_default e agent tool) \<longleftrightarrow> e_defaultPolicy e \<noteq> PolicyDeny"
  by (simp add: evaluate_default_def)

lemma elevate_allowed [simp]: "d_allowed (elevate g d) = d_allowed d"
  by (simp add: elevate_def)

definition agent_permits :: "evaluator \<Rightarrow> agent_policy \<Rightarrow> string \<Rightarrow> bool" where
  "agent_permits e ap tool \<longleftrightarrow>
     (\<forall>d \<in> set (effective_deny ap). \<not> glob_spec d tool) \<and>
     (if has_allow_list ap then \<exists>a \<in> set (effective_allow ap). glob_spec a tool
      else e_defaultPolicy e \<noteq> PolicyDeny)"

lemma evaluate_with_policy_allowed:
  "d_allowed (evaluate_with_policy e agent tool ap) \<longleftrightarrow> agent_permits e ap tool"
  by (auto simp: evaluate_with_policy_def agent_permits_def Let_def mg.matches_spec)

definition effective_agent_policy :: "evaluator \<Rightarrow> string \<Rightarrow> agent_policy option \<Rightarrow> agent_policy option" where
  "effective_agent_policy e agent explicit =
     (case explicit of Some ap \<Rightarrow> Some ap | None \<Rightarrow> map_of (e_agents e) agent)"

lemma evaluate_with_policy_policy:
  "d_policy (evaluate_with_policy e agent tool ap) =
     (if d_allowed (evaluate_with_policy e agent tool ap) then ToolPolicyAllow else ToolPolicyDeny)"
  unfolding evaluate_with_policy_def evaluate_default_def Let_def by simp

lemma evaluate_tool_policy_cases:
  "d_policy (evaluate_tool e agent tool explicit) \<in> {ToolPolicyAllow, ToolPolicyAsk, ToolPolicyDeny}"
  unfolding evaluate_tool_def elevate_def Let_def
  by (simp add: evaluate_with_policy_policy evaluate_default_def split: option.split)

lemma elevate_id: "d_policy d \<noteq> '''' \<Longrightarrow> elevate g d = d"
  by (simp add: elevate_def)

lemma match_exec [simp]: "match_glob ''exec'' ''exec''"
  by code_simp

text \<open>
  C2. Tool access is decided exactly as the documented order says: a tool call is allowed if and
  only if the global policy does not deny the tool, no deny pattern of the agent's policy matches
  it, and it is matched by an allow pattern when an allow list is set (so an empty allow list
  allows nothing); without an allow list or without any policy for the agent, the default policy
  decides. Patterns are taken by their declarative meaning.
\<close>

theorem evaluate_tool_allowed_iff:
  "d_allowed (evaluate_tool e agent tool explicit) \<longleftrightarrow>
     resolve_global_tool_policy e tool \<noteq> ToolPolicyDeny \<and>
     (case (case explicit of Some ap \<Rightarrow> Some ap | None \<Rightarrow> map_of (e_agents e) agent) of
        Some ap \<Rightarrow>
          (\<forall>d \<in> set (effective_deny ap). \<not> glob_spec d tool) \<and>
          (if has_allow_list ap then \<exists>a \<in> set (effective_allow ap). glob_spec a tool
           else e_defaultPolicy e \<noteq> PolicyDeny)
      | None \<Rightarrow> e_defaultPolicy e \<noteq> PolicyDeny)"
  unfolding evaluate_tool_def Let_def
  by (simp add: evaluate_with_policy_allowed agent_permits_def split: option.split)

theorem evaluate_tool_allowed_iff_witness:
  "let e = new_evaluator (Some empty_security_config);
       ap = \<lparr>ap_Tools = \<lparr>tools_Allow = Some [''fs.*''], tools_Deny = Some [''fs.write'']\<rparr>,
             ap_ToolsAllow = None, ap_ToolsDeny = None\<rparr>
   in d_allowed (evaluate_tool e ''bot'' ''fs.read'' (Some ap)) \<and>
      \<not> d_allowed (evaluate_tool e ''bot'' ''fs.write'' (Some ap))"
proof -
  let ?e = "new_evaluator (Some empty_security_config)"
  let ?ap = "\<lparr>ap_Tools = \<lparr>tools_Allow = Some [''fs.*''], tools_Deny = Some [''fs.write'']\<rparr>,
             ap_ToolsAllow = None, ap_ToolsDeny = None\<rparr>"
  have g: "resolve_global_tool_policy ?e ''fs.read'' \<noteq> ToolPolicyDeny"
    by code_simp
  have m: "glob_spec ''fs.*'' ''fs.read''" "\<not> glob_spec ''fs.write'' ''fs.read''"
    "glob_spec ''fs.write'' ''fs.write''"
    unfolding match_glob_spec [symmetric] by code_simp+
  have l: "effective_deny ?ap = [''fs.write'']" "effective_allow ?ap = [''fs.*'']" "has_allow_list ?ap"
    by (simp_all add: effective_deny_def effective_allow_def has_allow_list_def slice_def)
  have "d_allowed (evaluate_tool ?e ''bot'' ''fs.read'' (Some ?ap))"
    unfolding evaluate_tool_allowed_iff using g m by (simp add: l del: glob_spec.simps)
  moreover have "\<not> d_allowed (evaluate_tool ?e ''bot'' ''fs.write'' (Some ?ap))"
    unfolding evaluate_tool_allowed_iff option.case l using m by (simp del: glob_spec.simps)
  ultimately show ?thesis by (simp add: Let_def)
qed

text \<open>
  For a configuration that passes validation, the policy of a tool under the configured
  patterns is the strictest policy (deny, then ask, then allow) of the patterns that match it,
  and nothing when none matches. In particular it does not depend on the order in which Go
  iterates over the map.
\<close>

theorem validated_policies_strictest:
  assumes "validate_config cfg = None"
  shows "resolve_strictest_policy (sc_ToolPolicies cfg) tool =
    (let P = {v. \<exists>p. (p, v) \<in> set (sc_ToolPolicies cfg) \<and> glob_spec p tool} in
     if ToolPolicyDeny \<in> P then ToolPolicyDeny
     else if ToolPolicyAsk \<in> P then ToolPolicyAsk
     else if ToolPolicyAllow \<in> P then ToolPolicyAllow else '''')"
  using resolve_strictest_spec [OF validate_config_valid_policies [OF assms], of tool]
  by (simp add: strictest_of_def matched_policies_def match_glob_spec Let_def)

theorem validated_policies_strictest_witness:
  "let c = empty_security_config\<lparr>sc_ToolPolicies :=
        [(''fs.*'', ToolPolicyAllow), (''*.write'', ToolPolicyDeny)]\<rparr>
   in validate_config c = None \<and>
      resolve_strictest_policy (sc_ToolPolicies c) ''fs.write'' = ToolPolicyDeny"
proof -
  let ?c = "empty_security_config\<lparr>sc_ToolPolicies :=
      [(''fs.*'', ToolPolicyAllow), (''*.write'', ToolPolicyDeny)]\<rparr>"
  have v: "validate_config ?c = None"
    by (simp add: validate_config_def empty_security_config_def)
  have m: "glob_spec ''*.write'' ''fs.write''"
    unfolding match_glob_spec [symmetric] by code_simp
  have "resolve_strictest_policy (sc_ToolPolicies ?c) ''fs.write'' = ToolPolicyDeny"
    unfolding validated_policies_strictest [OF v] Let_def using m by (auto simp del: glob_spec.simps)
  then show ?thesis using v by (simp add: Let_def)
qed

text \<open>
  The floor that a global ask policy is meant to be is not applied to an agent that has a
  policy of its own: whatever the global policy says, an allowed call of such an agent is
  reported with policy allow. For an agent without a policy the same global policy is reported as
  ask. (The documented rule is that the agent's policy cannot lower the floor back to allow.)
\<close>

theorem agent_policy_drops_ask_floor:
  assumes "resolve_global_tool_policy e tool = ToolPolicyAsk"
  shows "d_policy (evaluate_tool e agent tool (Some ap)) =
      (if d_allowed (evaluate_tool e agent tool (Some ap)) then ToolPolicyAllow else ToolPolicyDeny)
    \<and> (map_of (e_agents e) agent = None \<longrightarrow>
      d_policy (evaluate_tool e agent tool None) =
        (if d_allowed (evaluate_tool e agent tool None) then ToolPolicyAsk else ToolPolicyDeny))"
  using assms unfolding evaluate_tool_def Let_def
  by (simp add: elevate_id evaluate_with_policy_policy evaluate_default_def)

theorem agent_policy_drops_ask_floor_witness:
  "let e = new_evaluator (Some (empty_security_config\<lparr>sc_ToolPolicies := [(''exec'', ToolPolicyAsk)]\<rparr>));
       ap = \<lparr>ap_Tools = \<lparr>tools_Allow = Some [''exec''], tools_Deny = None\<rparr>,
             ap_ToolsAllow = None, ap_ToolsDeny = None\<rparr>
   in resolve_global_tool_policy e ''exec'' = ToolPolicyAsk \<and>
      d_policy (evaluate_tool e ''bot'' ''exec'' (Some ap)) = ToolPolicyAllow"
proof -
  let ?e = "new_evaluator (Some (empty_security_config\<lparr>sc_ToolPolicies := [(''exec'', ToolPolicyAsk)]\<rparr>))"
  let ?ap = "\<lparr>ap_Tools = \<lparr>tools_Allow = Some [''exec''], tools_Deny = None\<rparr>,
             ap_ToolsAllow = None, ap_ToolsDeny = None\<rparr>"
  have g: "resolve_global_tool_policy ?e ''exec'' = ToolPolicyAsk"
    by (simp add: new_evaluator_def resolve_global_tool_policy_def resolve_strictest_policy_def
        Let_def)
  have "d_allowed (evaluate_tool ?e ''bot'' ''exec'' (Some ?ap))"
    using g by (simp add: evaluate_tool_def Let_def evaluate_with_policy_def effective_deny_def
        effective_allow_def has_allow_list_def slice_def)
  then have "d_policy (evaluate_tool ?e ''bot'' ''exec'' (Some ?ap)) = ToolPolicyAllow"
    using agent_policy_drops_ask_floor [OF g, of "''bot''" ?ap] by simp
  then show ?thesis using g by (simp add: Let_def)
qed

section \<open>Exec commands\<close>

lemma find_None_or_Some: "(case find P xs of None \<Rightarrow> a | Some x \<Rightarrow> b) =
    (if \<exists>x \<in> set xs. P x then b else a)"
  by (induction xs) auto

text \<open>
  A command line is allowed exactly when one of the configured patterns matches the whole
  of it, or when no pattern is configured and the default policy is not deny.
\<close>

theorem evaluate_exec_allowed_iff:
  "d_allowed (evaluate_exec e agent command) \<longleftrightarrow>
     (if e_execAllowedBins e = [] then e_defaultPolicy e \<noteq> PolicyDeny
      else \<exists>pat \<in> set (e_execAllowedBins e). glob_spec pat command)"
  unfolding evaluate_exec_def
  by (auto simp: match_glob_spec find_None_iff find_Some_iff split: option.split
      simp del: glob_spec.simps)

section \<open>Configuration: parsing and the two resolvers\<close>

lemma parse_iff_validated:
  "parse_security_config unmarshal data = Inr cfg \<longleftrightarrow>
     unmarshal data = Inr cfg \<and> validate_config cfg = None"
  unfolding parse_security_config_def by (auto split: sum.splits option.splits)

text \<open>
  Parsing succeeds exactly on documents that decode to a configuration all of whose
  enumerated settings are among the documented values and whose filesystem paths are absolute or
  start with a tilde; it then returns the decoded configuration unchanged. In particular a
  configuration with an unknown tool policy is never accepted.
\<close>

theorem parse_security_config_iff:
  "parse_security_config unmarshal data = Inr cfg \<longleftrightarrow>
     unmarshal data = Inr cfg \<and>
     sc_DefaultPolicy cfg \<in> {'''', PolicyAllow, PolicyDeny} \<and>
     sc_DefaultToolPolicy cfg \<in> {'''', ToolPolicyAllow, ToolPolicyAsk, ToolPolicyDeny} \<and>
     snd ` set (sc_ToolPolicies cfg) \<subseteq> {ToolPolicyAllow, ToolPolicyAsk, ToolPolicyDeny} \<and>
     audit_output (sc_Audit cfg) \<in> {'''', ''file'', ''stdout'', ''both''} \<and>
     exec_approval (section_exec (sc_Policy cfg)) \<in> {'''', ''ask'', ''off''} \<and>
     sc_SkillTrust cfg \<in>
       {'''', SkillTrustBlockUnverified, SkillTrustWarnUnverified, SkillTrustAllowAll} \<and>
     pg_strictness (sc_PromptGuard cfg) \<in> {'''', ''low'', ''medium'', ''high''} \<and>
     (\<nexists>p. p \<in> set (fs_allowed_paths (section_filesystem (sc_Policy cfg))) \<and>
        \<not> prefix ''/'' p \<and> \<not> prefix ''~/'' p)"
  (is "?L \<longleftrightarrow> _ \<and> ?V")
proof -
  have t: "validate_tool_policies m = None \<longleftrightarrow>
      snd ` set m \<subseteq> {ToolPolicyAllow, ToolPolicyAsk, ToolPolicyDeny}" for m
    unfolding validate_tool_policies_None by (simp only: subset_iff Ball_def)
  have p: "validate_paths ps = None \<longleftrightarrow>
      (\<nexists>p. p \<in> set ps \<and> \<not> prefix ''/'' p \<and> \<not> prefix ''~/'' p)" for ps
    unfolding validate_paths_None is_abs_def by blast
  have "validate_config cfg = None \<longleftrightarrow> ?V"
    unfolding validate_config_def
    by (simp only: if_Some_eq_None case_Some_eq_None t p not_not)
  then show ?thesis
    by (simp only: parse_iff_validated)
qed

text \<open>
  The two resolvers of the global policy, the evaluator's and the configuration's (which
  other packages call), always agree, also when no configuration is loaded.
\<close>

theorem global_policy_resolvers_agree:
  "resolve_global_tool_policy (new_evaluator c) tool = resolve_tool_policy c tool"
  by (cases c) (auto simp: resolve_global_tool_policy_def new_evaluator_def resolve_tool_policy_def
      Let_def)

section \<open>Every decision is audited\<close>

datatype policy_query =
    ToolQuery string string "agent_policy option"
  | ExecQuery string string

fun ask_policy :: "evaluator \<Rightarrow> policy_query \<Rightarrow> decision" where
  "ask_policy e (ToolQuery agent tool ap) = evaluate_tool e agent tool ap"
| "ask_policy e (ExecQuery agent command) = evaluate_exec e agent command"

fun ask_auditor ::
  "(audit_entry \<Rightarrow> audit_entry list \<Rightarrow> audit_entry list) \<Rightarrow> auditor \<Rightarrow> time \<times> policy_query \<Rightarrow>
     decision \<times> auditor" where
  "ask_auditor write pa (now, ToolQuery agent tool ap) = audited_evaluate_tool write now pa agent tool ap"
| "ask_auditor write pa (now, ExecQuery agent command) = audited_evaluate_exec write now pa agent command"

fun run_auditor ::
  "(audit_entry \<Rightarrow> audit_entry list \<Rightarrow> audit_entry list) \<Rightarrow> auditor \<Rightarrow> (time \<times> policy_query) list \<Rightarrow>
     decision list \<times> auditor" where
  "run_auditor write pa [] = ([], pa)"
| "run_auditor write pa (q # qs) =
     (let (d, pa1) = ask_auditor write pa q; (ds, pa2) = run_auditor write pa1 qs in (d # ds, pa2))"

fun audit_record :: "string \<Rightarrow> (time \<times> policy_query) \<times> decision \<Rightarrow> audit_entry" where
  "audit_record session ((now, ToolQuery agent tool ap), d) =
     \<lparr>ae_timestamp = now, ae_event = ''tool_call'',
      ae_decision = (if d_allowed d then ''allow'' else ''deny''), ae_agent = agent,
      ae_session = session, ae_tool = tool, ae_command = '''', ae_rule = d_rule d\<rparr>"
| "audit_record session ((now, ExecQuery agent command), d) =
     \<lparr>ae_timestamp = now, ae_event = ''exec'',
      ae_decision = (if d_allowed d then ''allow'' else ''deny''), ae_agent = agent,
      ae_session = session, ae_tool = '''', ae_command = command, ae_rule = d_rule d\<rparr>"

lemma ask_auditor_append:
  "pa_log pa = Some l \<Longrightarrow>
   ask_auditor (\<lambda>x l. l @ [x]) pa q =
     (ask_policy (pa_eval pa) (snd q),
      pa\<lparr>pa_log := Some (l @ [audit_record (pa_session pa) (q, ask_policy (pa_eval pa) (snd q))])\<rparr>)"
  by (cases q; cases "snd q")
    (auto simp: audited_evaluate_tool_def audited_evaluate_exec_def log_decision_def Let_def)

lemma run_auditor_append:
  "pa_log pa = Some l \<Longrightarrow>
   run_auditor (\<lambda>x l. l @ [x]) pa qs =
     (map (ask_policy (pa_eval pa) \<circ> snd) qs,
      pa\<lparr>pa_log := Some (l @ map (\<lambda>q. audit_record (pa_session pa) (q, ask_policy (pa_eval pa) (snd q))) qs)\<rparr>)"
proof (induction qs arbitrary: pa l)
  case (Cons q qs)
  note ih = Cons.IH [of "pa\<lparr>pa_log := Some (l @ [audit_record (pa_session pa)
    (q, ask_policy (pa_eval pa) (snd q))])\<rparr>"]
  show ?case using ih by (simp add: ask_auditor_append [OF Cons.prems])
qed simp

text \<open>
  Auditing is complete and faithful: with a logger that appends, any sequence of tool and
  exec queries is answered as the bare evaluator answers it, and the log grows by exactly one
  entry per query, in order, carrying that query and the decision it got.
\<close>

theorem audit_trail_complete:
  "run_auditor (\<lambda>x l. l @ [x]) \<lparr>pa_eval = e, pa_log = Some l, pa_session = s\<rparr> qs =
     (map (ask_policy e \<circ> snd) qs,
      \<lparr>pa_eval = e, pa_log = Some (l @ map (\<lambda>q. audit_record s (q, ask_policy e (snd q))) qs),
       pa_session = s\<rparr>)"
  by (simp add: run_auditor_append)

text \<open>
  The admin-ask fence turns the policy into ask exactly for an allowed tool that requires an
  admin, used by an agent that is not a core agent; otherwise it leaves the policy as it is. So
  it never turns ask or deny into allow, and applying it twice is applying it once.
\<close>

theorem admin_ask_fence_spec:
  "apply_admin_ask_fence eff tool agent ra core =
     (let fenced = (eff = ''allow'' \<and> (\<exists>f. ra = Some f \<and> f tool) \<and> \<not> (\<exists>f. core = Some f \<and> f agent))
      in (if fenced then ''ask'' else eff, fenced)) \<and>
   apply_admin_ask_fence (fst (apply_admin_ask_fence eff tool agent ra core)) tool agent ra core =
     (fst (apply_admin_ask_fence eff tool agent ra core), False)"
  unfolding apply_admin_ask_fence_def Let_def by (auto split: option.split)

end
