(* ===== verification/Approvals.thy ===== *)
theory Approvals
  imports Policy
begin

text \<open>
  pkg/gateway/approvals.go: the in-process tool-approval registry, with the REST handler that acts
  on it (rest_tool_registry.go) and the agent-loop adapter (policy_approver.go).

  Each registry method holds the mutex for its state change, so it is one function on the
  registry. An entry's result channel (capacity 1) outlives the entry's removal from the map, so
  channels are not part of the registry: a method returns the list of sends it performs after
  it has released the mutex. The armed \<open>time.AfterFunc\<close> deletions are the field \<open>r_deletes\<close>.
  The arguments of a tool call are a Go map, \<^const>\<open>None\<close> when nil, to opaque values
  \<^typ>\<open>'a\<close>.
\<close>

section \<open>Data\<close>

datatype approval_state =
    Pending | Approved | DeniedUser | DeniedTimeout | DeniedCancel | DeniedRestart
  | DeniedSaturated | DeniedBatchShortCircuit

fun is_terminal :: "approval_state \<Rightarrow> bool" where
  "is_terminal Approved = True"
| "is_terminal DeniedUser = True"
| "is_terminal DeniedTimeout = True"
| "is_terminal DeniedCancel = True"
| "is_terminal DeniedRestart = True"
| "is_terminal DeniedSaturated = True"
| "is_terminal DeniedBatchShortCircuit = True"
| "is_terminal Pending = False"

lemma is_terminal_iff: "is_terminal s \<longleftrightarrow> s \<noteq> Pending"
  by (cases s) simp_all

record 'a approval_entry =
  ApprovalID :: string
  ToolCallID :: string
  ToolName :: string
  Args :: "(string, 'a) gomap option"
  AgentID :: string
  SessionID :: string
  TurnID :: string
  RequiresAdmin :: bool
  CreatedAt :: time
  ExpiresAt :: "time option"
  ent_state :: approval_state
  timer_armed :: bool

record approval_outcome =
  o_approved :: bool
  o_reason :: string

type_synonym send = "string \<times> approval_outcome"

record 'a approval_registry =
  r_entries :: "(string, 'a approval_entry) gomap"
  r_maxPending :: int
  r_timeout :: duration
  r_terminalRetention :: duration
  r_pendingCount :: int
  r_deletes :: "string list"

definition default_terminal_retention :: duration where
  "default_terminal_retention = 60 * second"

definition new_approval_registry :: "int \<Rightarrow> duration \<Rightarrow> 'a approval_registry" where
  "new_approval_registry max_cap timeout =
     \<lparr>r_entries = [], r_maxPending = max_cap,
      r_timeout = (if timeout \<le> 0 then 300 * second else timeout),
      r_terminalRetention = default_terminal_retention, r_pendingCount = 0, r_deletes = []\<rparr>"

section \<open>Methods\<close>

definition schedule_terminal_delete :: "string \<Rightarrow> 'a approval_registry \<Rightarrow> 'a approval_registry" where
  "schedule_terminal_delete aid r =
     (if r_terminalRetention r \<le> 0 then r\<lparr>r_entries := AList.delete aid (r_entries r)\<rparr>
      else r\<lparr>r_deletes := aid # r_deletes r\<rparr>)"

text \<open>The deferred deletion, when its timer fires.\<close>

definition fire_delete :: "string \<Rightarrow> 'a approval_registry \<Rightarrow> 'a approval_registry" where
  "fire_delete aid r =
     r\<lparr>r_entries := AList.delete aid (r_entries r), r_deletes := remove1 aid (r_deletes r)\<rparr>"

definition is_pending :: "string \<times> 'a approval_entry \<Rightarrow> bool" where
  "is_pending e \<longleftrightarrow> ent_state (snd e) = Pending"

definition pending_entries :: "'a approval_registry \<Rightarrow> (string, 'a approval_entry) gomap" where
  "pending_entries r = filter is_pending (r_entries r)"

definition mk_entry ::
  "string \<Rightarrow> string \<Rightarrow> string \<Rightarrow> (string, 'a) gomap option \<Rightarrow> string \<Rightarrow> string \<Rightarrow> string \<Rightarrow> bool \<Rightarrow>
     time \<Rightarrow> time option \<Rightarrow> approval_state \<Rightarrow> bool \<Rightarrow> 'a approval_entry" where
  "mk_entry aid tcall tool args agent session turn admin now expires st timer =
     \<lparr>ApprovalID = aid, ToolCallID = tcall, ToolName = tool, Args = args, AgentID = agent,
      SessionID = session, TurnID = turn, RequiresAdmin = admin, CreatedAt = now,
      ExpiresAt = expires, ent_state = st, timer_armed = timer\<rparr>"

text \<open>
  \<open>requestApproval\<close>. \<open>aid\<close> is the fresh UUID, \<open>now\<close> the clock. The result is the entry,
  whether it was accepted, the registry, and the outcome delivered at once (saturated path).
\<close>

definition request_approval ::
  "string \<Rightarrow> time \<Rightarrow> string \<Rightarrow> string \<Rightarrow> (string, 'a) gomap option \<Rightarrow> string \<Rightarrow> string \<Rightarrow> string \<Rightarrow> bool \<Rightarrow>
     'a approval_registry \<Rightarrow> 'a approval_entry \<times> bool \<times> 'a approval_registry \<times> send list" where
  "request_approval aid now tcall tool args agent session turn admin r =
     (let pending_count = int (length (pending_entries r)); max_cap = r_maxPending r in
      if max_cap > 0 \<and> pending_count \<ge> max_cap then
        (mk_entry aid tcall tool args agent session turn admin now None DeniedSaturated False,
         False, r, [(aid, \<lparr>o_approved = False, o_reason = ''saturated''\<rparr>)])
      else
        (let e = mk_entry aid tcall tool args agent session turn admin now
                   (Some (now + r_timeout r)) Pending True in
         (e, True, r\<lparr>r_entries := AList.update aid e (r_entries r),
                     r_pendingCount := r_pendingCount r + 1\<rparr>, [])))"

definition set_entry :: "string \<Rightarrow> 'a approval_entry \<Rightarrow> 'a approval_registry \<Rightarrow> 'a approval_registry" where
  "set_entry aid e r = r\<lparr>r_entries := AList.update aid e (r_entries r)\<rparr>"

text \<open>State change, counter and scheduled removal of one entry, as the resolving methods do them.\<close>

definition finish_entry ::
  "string \<Rightarrow> 'a approval_entry \<Rightarrow> approval_state \<Rightarrow> bool \<Rightarrow> 'a approval_registry \<Rightarrow> 'a approval_registry" where
  "finish_entry aid e st timer r =
     schedule_terminal_delete aid
       ((set_entry aid (e\<lparr>ent_state := st, timer_armed := timer\<rparr>) r)
         \<lparr>r_pendingCount := r_pendingCount r - 1\<rparr>)"

definition fire_timeout :: "string \<Rightarrow> 'a approval_registry \<Rightarrow> 'a approval_registry \<times> send list" where
  "fire_timeout aid r =
     (case map_of (r_entries r) aid of
        None \<Rightarrow> (r, [])
      | Some e \<Rightarrow>
          if ent_state e \<noteq> Pending then (r, [])
          else (finish_entry aid e DeniedTimeout (timer_armed e) r,
                [(aid, \<lparr>o_approved = False, o_reason = ''timeout''\<rparr>)]))"

datatype approval_action = Approve | Deny | Cancel | UnknownAction string

fun action_effect :: "approval_action \<Rightarrow> (approval_state \<times> approval_outcome) option" where
  "action_effect Approve = Some (Approved, \<lparr>o_approved = True, o_reason = ''approved''\<rparr>)"
| "action_effect Deny = Some (DeniedUser, \<lparr>o_approved = False, o_reason = ''user''\<rparr>)"
| "action_effect Cancel = Some (DeniedCancel, \<lparr>o_approved = False, o_reason = ''cancel''\<rparr>)"
| "action_effect (UnknownAction _) = None"

text \<open>\<open>resolve\<close>: the pair of booleans is \<open>(resolveOK, gone)\<close>.\<close>

definition resolve ::
  "string \<Rightarrow> approval_action \<Rightarrow> 'a approval_registry \<Rightarrow> (bool \<times> bool) \<times> 'a approval_registry \<times> send list" where
  "resolve aid action r =
     (case map_of (r_entries r) aid of
        None \<Rightarrow> ((False, False), r, [])
      | Some e \<Rightarrow>
          if is_terminal (ent_state e) then ((False, True), r, [])
          else (case action_effect action of
                  None \<Rightarrow> ((False, False), r, [])
                | Some (st, outcome) \<Rightarrow>
                    ((True, False), finish_entry aid e st False r, [(aid, outcome)])))"

definition cancel_batch_short_circuit ::
  "string \<Rightarrow> 'a approval_registry \<Rightarrow> bool \<times> 'a approval_registry \<times> send list" where
  "cancel_batch_short_circuit aid r =
     (case map_of (r_entries r) aid of
        None \<Rightarrow> (False, r, [])
      | Some e \<Rightarrow>
          if is_terminal (ent_state e) then (False, r, [])
          else (True, finish_entry aid e DeniedBatchShortCircuit False r,
                [(aid, \<lparr>o_approved = False, o_reason = ''batch_short_circuit''\<rparr>)]))"

definition get_entry :: "string \<Rightarrow> 'a approval_registry \<Rightarrow> 'a approval_entry option" where
  "get_entry aid r = map_of (r_entries r) aid"

definition pending_approvals :: "time \<Rightarrow> 'a approval_registry \<Rightarrow> 'a approval_entry list" where
  "pending_approvals now r =
     [e. (k, e) \<leftarrow> r_entries r,
         ent_state e = Pending \<and> (case ExpiresAt e of None \<Rightarrow> False | Some t \<Rightarrow> now < t)]"

text \<open>
  The two bulk cancellations walk the map once, changing the selected pending entries, and then
  schedule the removal of each.
\<close>

definition cancel_selected ::
  "('a approval_entry \<Rightarrow> bool) \<Rightarrow> approval_state \<Rightarrow> string \<Rightarrow> 'a approval_registry \<Rightarrow>
     'a approval_entry list \<times> 'a approval_registry \<times> send list" where
  "cancel_selected sel st reason r =
     (let hit = (\<lambda>e. ent_state e = Pending \<and> sel e);
          upd = (\<lambda>e. e\<lparr>ent_state := st, timer_armed := False\<rparr>);
          canceled = map (upd \<circ> snd) (filter (hit \<circ> snd) (r_entries r));
          ids = map ApprovalID canceled;
          r1 = r\<lparr>r_entries := map (\<lambda>(k, e). (k, if hit e then upd e else e)) (r_entries r),
                 r_pendingCount := r_pendingCount r - int (length canceled)\<rparr>
      in (canceled, fold schedule_terminal_delete ids r1,
          map (\<lambda>aid. (aid, \<lparr>o_approved = False, o_reason = reason\<rparr>)) ids))"

definition cancel_all_pending_for_restart ::
  "'a approval_registry \<Rightarrow> 'a approval_entry list \<times> 'a approval_registry \<times> send list" where
  "cancel_all_pending_for_restart r = cancel_selected (\<lambda>_. True) DeniedRestart ''restart'' r"

definition cancel_all_pending_for_session ::
  "string \<Rightarrow> string \<Rightarrow> 'a approval_registry \<Rightarrow> int \<times> 'a approval_registry \<times> send list" where
  "cancel_all_pending_for_session session reason r =
     (case cancel_selected (\<lambda>e. SessionID e = session) DeniedCancel reason r of
        (canceled, r', sends) \<Rightarrow> (int (length canceled), r', sends))"

definition pending_gauge_value :: "'a approval_registry \<Rightarrow> int" where
  "pending_gauge_value r = r_pendingCount r"

text \<open>\<open>Milliseconds\<close> truncates towards zero, which is the floor for a non-negative remainder.\<close>

definition expires_in_ms :: "time \<Rightarrow> 'a approval_entry \<Rightarrow> int" where
  "expires_in_ms now e =
     (case ExpiresAt e of
        None \<Rightarrow> 0
      | Some t \<Rightarrow> (let remaining = t - now in if remaining < 0 then 0 else remaining div millisecond))"

section \<open>Well-formed registries\<close>

text \<open>
  Every entry is stored under its own id, ids are unique, the gauge counts the pending entries,
  a positive cap is respected, and only terminal entries await deletion.
\<close>

definition pending_ids :: "'a approval_registry \<Rightarrow> string set" where
  "pending_ids r = {aid. \<exists>e. map_of (r_entries r) aid = Some e \<and> ent_state e = Pending}"

definition keys_match :: "'a approval_registry \<Rightarrow> bool" where
  "keys_match r \<longleftrightarrow> (\<forall>aid e. map_of (r_entries r) aid = Some e \<longrightarrow> ApprovalID e = aid)"

definition registry_wf :: "'a approval_registry \<Rightarrow> bool" where
  "registry_wf r \<longleftrightarrow>
     gomap_wf (r_entries r) \<and> keys_match r \<and>
     r_pendingCount r = int (card (pending_ids r)) \<and>
     (r_maxPending r > 0 \<longrightarrow> r_pendingCount r \<le> r_maxPending r) \<and>
     set (r_deletes r) \<inter> pending_ids r = {}"

text \<open>
  What every resolving method promises: it settles a set of pending entries, sends one outcome
  for each of them and leaves every other entry as it is.
\<close>

definition settles :: "'a approval_registry \<Rightarrow> 'a approval_registry \<Rightarrow> send list \<Rightarrow> bool" where
  "settles r r' sends \<longleftrightarrow>
     gomap_wf (r_entries r') \<and>
     distinct (map fst sends) \<and> set (map fst sends) \<subseteq> pending_ids r \<and>
     (\<forall>aid \<in> set (map fst sends). \<forall>e'. map_of (r_entries r') aid = Some e' \<longrightarrow>
        (\<exists>e. map_of (r_entries r) aid = Some e \<and> ent_state e' \<noteq> Pending \<and>
             ApprovalID e' = ApprovalID e \<and> RequiresAdmin e' = RequiresAdmin e)) \<and>
     (\<forall>aid. aid \<notin> set (map fst sends) \<longrightarrow> map_of (r_entries r') aid = map_of (r_entries r) aid) \<and>
     r_pendingCount r' = r_pendingCount r - int (length sends) \<and>
     r_maxPending r' = r_maxPending r \<and> r_timeout r' = r_timeout r \<and>
     r_terminalRetention r' = r_terminalRetention r \<and>
     set (r_deletes r') \<subseteq> set (r_deletes r) \<union> set (map fst sends)"

lemma pending_ids_finite [simp]: "finite (pending_ids r)"
proof (rule finite_subset)
  show "pending_ids r \<subseteq> fst ` set (r_entries r)"
    by (auto simp: pending_ids_def dest: map_of_SomeD intro: rev_image_eqI)
qed simp

lemma length_pending_entries:
  assumes "gomap_wf (r_entries r)"
  shows "length (pending_entries r) = card (pending_ids r)"
proof -
  have d: "distinct (map fst (pending_entries r))"
    using assms by (simp add: pending_entries_def gomap_wf_def distinct_map_filter)
  have "set (map fst (pending_entries r)) = pending_ids r"
    using gomap_lookup [OF assms]
    by (force simp: pending_entries_def pending_ids_def is_pending_def)
  then show ?thesis using distinct_card [OF d] by simp
qed

lemma settles_pending_ids:
  "settles r r' sends \<Longrightarrow> pending_ids r' = pending_ids r - set (map fst sends)"
  unfolding settles_def pending_ids_def by (fastforce simp del: set_map)

lemma settles_wf:
  assumes s: "settles r r' sends" and w: "registry_wf r"
  shows "registry_wf r'"
proof -
  have p: "pending_ids r' = pending_ids r - set (map fst sends)" by (rule settles_pending_ids [OF s])
  have sub: "set (map fst sends) \<subseteq> pending_ids r" and d: "distinct (map fst sends)"
    and c: "r_pendingCount r' = r_pendingCount r - int (length sends)"
    and m: "r_maxPending r' = r_maxPending r" and g: "gomap_wf (r_entries r')"
    and dl: "set (r_deletes r') \<subseteq> set (r_deletes r) \<union> set (map fst sends)"
    using s unfolding settles_def by blast+
  have "card (set (map fst sends)) = length sends" using distinct_card [OF d] by simp
  then have k: "int (card (pending_ids r')) = int (card (pending_ids r)) - int (length sends)"
    using card_Diff_subset [of "set (map fst sends)" "pending_ids r"] card_mono [OF _ sub] sub
    by (simp add: p of_nat_diff)
  have km: "keys_match r'"
    unfolding keys_match_def
  proof (intro allI impI)
    fix aid e' assume e': "map_of (r_entries r') aid = Some e'"
    show "ApprovalID e' = aid"
    proof (cases "aid \<in> set (map fst sends)")
      case True
      then obtain e where "map_of (r_entries r) aid = Some e" "ApprovalID e' = ApprovalID e"
        using s e' unfolding settles_def by blast
      then show ?thesis using w by (auto simp: registry_wf_def keys_match_def)
    next
      case False
      then show ?thesis using s e' w unfolding settles_def registry_wf_def keys_match_def by metis
    qed
  qed
  have "set (r_deletes r') \<inter> pending_ids r' = {}"
    using dl w unfolding p registry_wf_def by blast
  with k km c m g w show ?thesis by (auto simp: registry_wf_def)
qed

lemma settles_refl: "registry_wf r \<Longrightarrow> settles r r []"
  by (simp add: settles_def registry_wf_def)

lemma settles_sent:
  assumes "settles r r' sends" and "(aid, out) \<in> set sends"
  shows "aid \<in> pending_ids r \<and> aid \<notin> pending_ids r'"
proof -
  have "aid \<in> set (map fst sends)" using assms(2) by force
  moreover have "set (map fst sends) \<subseteq> pending_ids r" using assms(1) by (simp add: settles_def)
  ultimately show ?thesis using settles_pending_ids [OF assms(1)] by blast
qed

lemma settles_keeps:
  assumes "settles r r' sends" and "aid \<notin> pending_ids r"
  shows "map_of (r_entries r') aid = map_of (r_entries r) aid"
proof -
  have "aid \<notin> set (map fst sends)" using assms unfolding settles_def by blast
  with assms(1) show ?thesis unfolding settles_def by blast
qed

section \<open>Every resolving method settles\<close>

lemma schedule_terminal_delete_simps [simp]:
  "r_pendingCount (schedule_terminal_delete aid r) = r_pendingCount r"
  "r_maxPending (schedule_terminal_delete aid r) = r_maxPending r"
  "r_timeout (schedule_terminal_delete aid r) = r_timeout r"
  "r_terminalRetention (schedule_terminal_delete aid r) = r_terminalRetention r"
  "gomap_wf (r_entries r) \<Longrightarrow> gomap_wf (r_entries (schedule_terminal_delete aid r))"
  "set (r_deletes (schedule_terminal_delete aid r)) \<subseteq> insert aid (set (r_deletes r))"
  "map_of (r_entries (schedule_terminal_delete aid r)) k =
     (if k = aid \<and> r_terminalRetention r \<le> 0 then None else map_of (r_entries r) k)"
  by (auto simp: schedule_terminal_delete_def)

lemma fold_schedule_simps [simp]:
  "r_pendingCount (fold schedule_terminal_delete ids r) = r_pendingCount r"
  "r_maxPending (fold schedule_terminal_delete ids r) = r_maxPending r"
  "r_timeout (fold schedule_terminal_delete ids r) = r_timeout r"
  "r_terminalRetention (fold schedule_terminal_delete ids r) = r_terminalRetention r"
  "gomap_wf (r_entries r) \<Longrightarrow> gomap_wf (r_entries (fold schedule_terminal_delete ids r))"
  "map_of (r_entries (fold schedule_terminal_delete ids r)) k =
     (if k \<in> set ids \<and> r_terminalRetention r \<le> 0 then None else map_of (r_entries r) k)"
  by (induction ids arbitrary: r) auto

lemma fold_schedule_deletes:
  "set (r_deletes (fold schedule_terminal_delete ids r)) \<subseteq> set ids \<union> set (r_deletes r)"
proof (induction ids arbitrary: r)
  case (Cons a ids)
  have "set (r_deletes (schedule_terminal_delete a r)) \<subseteq> insert a (set (r_deletes r))" by simp
  with Cons.IH [of "schedule_terminal_delete a r"]
  have "set (r_deletes (fold schedule_terminal_delete ids (schedule_terminal_delete a r)))
      \<subseteq> set ids \<union> insert a (set (r_deletes r))" by blast
  then show ?case by auto
qed simp

lemma finish_entry_settles:
  assumes "registry_wf r" and "map_of (r_entries r) aid = Some e" and "ent_state e = Pending"
    and "st \<noteq> Pending"
  shows "settles r (finish_entry aid e st timer r) [(aid, out)]"
proof -
  let ?r = "(set_entry aid (e\<lparr>ent_state := st, timer_armed := timer\<rparr>) r)
      \<lparr>r_pendingCount := r_pendingCount r - 1\<rparr>"
  have "set (r_deletes (schedule_terminal_delete aid ?r)) \<subseteq> insert aid (set (r_deletes ?r))"
    by (rule schedule_terminal_delete_simps)
  then show ?thesis
    using assms
    by (auto simp: settles_def finish_entry_def set_entry_def pending_ids_def registry_wf_def)
qed

locale settling =
  fixes op :: "'a approval_registry \<Rightarrow> 'a approval_registry \<times> send list"
  assumes op_settles: "registry_wf r \<Longrightarrow> op r = (r', sends) \<Longrightarrow> settles r r' sends"
begin

lemma settles_result: "registry_wf r \<Longrightarrow> settles r (fst (op r)) (snd (op r))"
  by (rule op_settles) simp_all

lemma keeps_wf: "registry_wf r \<Longrightarrow> registry_wf (fst (op r))"
  by (rule settles_wf [OF settles_result])

lemma sends_are_new_terminals:
  "registry_wf r \<Longrightarrow> (aid, out) \<in> set (snd (op r)) \<Longrightarrow>
     aid \<in> pending_ids r \<and> aid \<notin> pending_ids (fst (op r))"
  by (rule settles_sent [OF settles_result])

lemma terminal_final:
  assumes "registry_wf r" and "map_of (r_entries r) aid = Some e" and "ent_state e \<noteq> Pending"
  shows "map_of (r_entries (fst (op r))) aid = Some e"
  using settles_keeps [OF settles_result [OF assms(1)]] assms(2,3) by (simp add: pending_ids_def)

end

lemma action_effect_terminal: "action_effect a = Some (st, out) \<Longrightarrow> st \<noteq> Pending"
  by (cases a) auto

interpretation timeout_op: settling "fire_timeout aid" for aid
proof
  fix r r' :: "'a approval_registry" and sends
  assume "registry_wf r" "fire_timeout aid r = (r', sends)"
  then show "settles r r' sends"
    using finish_entry_settles [of r aid _ DeniedTimeout] settles_refl [of r]
    by (fastforce simp: fire_timeout_def split: option.splits if_splits)
qed

interpretation short_circuit_op: settling "\<lambda>r. snd (cancel_batch_short_circuit aid r)" for aid
proof
  fix r r' :: "'a approval_registry" and sends
  assume "registry_wf r" "snd (cancel_batch_short_circuit aid r) = (r', sends)"
  then show "settles r r' sends"
    using finish_entry_settles [of r aid _ DeniedBatchShortCircuit] settles_refl [of r]
    by (fastforce simp: cancel_batch_short_circuit_def is_terminal_iff
        split: option.splits if_splits)
qed

interpretation resolve_op: settling "\<lambda>r. snd (resolve aid action r)" for aid action
proof
  fix r r' :: "'a approval_registry" and sends
  assume w: "registry_wf r" and r: "snd (resolve aid action r) = (r', sends)"
  show "settles r r' sends"
  proof (cases "\<exists>e st out. map_of (r_entries r) aid = Some e \<and> ent_state e = Pending \<and>
      action_effect action = Some (st, out)")
    case True
    then obtain e st out where e: "map_of (r_entries r) aid = Some e" "ent_state e = Pending"
      and a: "action_effect action = Some (st, out)" by blast
    from r e a have "r' = finish_entry aid e st False r" "sends = [(aid, out)]"
      by (auto simp: resolve_def is_terminal_iff)
    with finish_entry_settles [OF w e action_effect_terminal [OF a]] show ?thesis by simp
  next
    case False
    with r have "r' = r" "sends = []"
      by (auto simp: resolve_def is_terminal_iff split: option.splits if_splits)
    with w show ?thesis by (simp add: settles_refl)
  qed
qed

text \<open>The two bulk cancellations.\<close>

lemma cancel_selected_settles:
  assumes w: "registry_wf r" and st: "st \<noteq> Pending"
    and c: "cancel_selected sel st reason r = (canceled, r', sends)"
  shows "settles r r' sends"
    and "set (map fst sends) =
      {aid. \<exists>e. map_of (r_entries r) aid = Some e \<and> ent_state e = Pending \<and> sel e}"
    and "length canceled = length sends"
    and "\<forall>s \<in> set sends. snd s = \<lparr>o_approved = False, o_reason = reason\<rparr>"
proof -
  let ?hit = "\<lambda>e. ent_state e = Pending \<and> sel e"
  let ?upd = "\<lambda>e. e\<lparr>ent_state := st, timer_armed := False\<rparr>"
  let ?hits = "filter (?hit \<circ> snd) (r_entries r)"
  let ?r1 = "r\<lparr>r_entries := map (\<lambda>(k, e). (k, if ?hit e then ?upd e else e)) (r_entries r),
      r_pendingCount := r_pendingCount r - int (length ?hits)\<rparr>"
  have g: "gomap_wf (r_entries r)" and km: "keys_match r" using w by (auto simp: registry_wf_def)
  have "map (ApprovalID \<circ> snd) ?hits = map fst ?hits"
    using km gomap_lookup [OF g] by (force simp: keys_match_def)
  then have ids: "map ApprovalID (map (?upd \<circ> snd) ?hits) = map fst ?hits"
    by (simp add: comp_def)
  have r': "r' = fold schedule_terminal_delete (map fst ?hits) ?r1"
    and sends: "sends = map (\<lambda>aid. (aid, \<lparr>o_approved = False, o_reason = reason\<rparr>)) (map fst ?hits)"
    and can: "canceled = map (?upd \<circ> snd) ?hits"
    using c unfolding cancel_selected_def Let_def ids
    by (auto simp only: length_map prod.inject)
  have fs: "map fst sends = map fst ?hits" by (simp add: sends comp_def)
  have lk: "map_of (r_entries ?r1) aid =
      map_option (\<lambda>e. if ?hit e then ?upd e else e) (map_of (r_entries r) aid)" for aid
    by (simp add: map_of_map)
  have mem: "aid \<in> set (map fst ?hits) \<longleftrightarrow> (\<exists>e. map_of (r_entries r) aid = Some e \<and> ?hit e)" for aid
    using gomap_lookup [OF g] by force
  show "set (map fst sends) = {aid. \<exists>e. map_of (r_entries r) aid = Some e \<and> ent_state e = Pending \<and> sel e}"
    unfolding fs using mem by blast
  show "length canceled = length sends" by (simp add: can sends)
  show "\<forall>s \<in> set sends. snd s = \<lparr>o_approved = False, o_reason = reason\<rparr>" by (auto simp: sends)
  show "settles r r' sends"
    unfolding settles_def fs
  proof (intro conjI allI impI ballI)
    have "map fst (r_entries ?r1) = map fst (r_entries r)" by (simp add: case_prod_beta comp_def)
    then have "gomap_wf (r_entries ?r1)" using g by (simp only: gomap_wf_def)
    then show "gomap_wf (r_entries r')" unfolding r' by simp
    show "distinct (map fst ?hits)" using g by (simp add: gomap_wf_def distinct_map_filter)
    show "set (map fst ?hits) \<subseteq> pending_ids r" using mem unfolding pending_ids_def by blast
    show "r_pendingCount r' = r_pendingCount r - int (length sends)" by (simp add: r' sends)
    show "set (r_deletes r') \<subseteq> set (r_deletes r) \<union> set (map fst ?hits)"
      using fold_schedule_deletes [of "map fst ?hits" ?r1] unfolding r' by auto
  next
    fix aid e' assume "aid \<in> set (map fst ?hits)" and e': "map_of (r_entries r') aid = Some e'"
    then obtain e where e: "map_of (r_entries r) aid = Some e" "?hit e" using mem by blast
    with e' have "e' = ?upd e" unfolding r' fold_schedule_simps lk by (simp split: if_splits)
    with e st show "\<exists>e. map_of (r_entries r) aid = Some e \<and> ent_state e' \<noteq> Pending \<and>
        ApprovalID e' = ApprovalID e \<and> RequiresAdmin e' = RequiresAdmin e" by simp
  next
    fix aid assume n: "aid \<notin> set (map fst ?hits)"
    have "map_option (\<lambda>e. if ?hit e then ?upd e else e) (map_of (r_entries r) aid)
        = map_of (r_entries r) aid"
      using mem [of aid] n by (cases "map_of (r_entries r) aid") auto
    then show "map_of (r_entries r') aid = map_of (r_entries r) aid"
      unfolding r' fold_schedule_simps lk using n by simp
  qed (simp_all add: r')
qed

interpretation restart_op: settling "\<lambda>r. snd (cancel_all_pending_for_restart r)"
proof
  fix r r' :: "'a approval_registry" and sends
  assume "registry_wf r" "snd (cancel_all_pending_for_restart r) = (r', sends)"
  then show "settles r r' sends"
    using cancel_selected_settles(1) [of r DeniedRestart]
    unfolding cancel_all_pending_for_restart_def by (metis approval_state.distinct(9) surjective_pairing)
qed

interpretation session_op: settling "\<lambda>r. snd (cancel_all_pending_for_session session reason r)"
  for session reason
proof
  fix r r' :: "'a approval_registry" and sends
  assume "registry_wf r" "snd (cancel_all_pending_for_session session reason r) = (r', sends)"
  then show "settles r r' sends"
    using cancel_selected_settles(1) [of r DeniedCancel]
    unfolding cancel_all_pending_for_session_def
    by (auto split: prod.splits)
qed

section \<open>Requests and deferred deletions\<close>

lemma request_approval_accepts:
  assumes "registry_wf r"
  shows "fst (snd (request_approval aid now tcall tool args agent session turn admin r)) \<longleftrightarrow>
    \<not> (r_maxPending r > 0 \<and> r_pendingCount r \<ge> r_maxPending r)"
  using assms by (simp add: request_approval_def Let_def length_pending_entries registry_wf_def)

lemma request_accepted_registry:
  assumes "request_approval aid now tcall tool args agent session turn admin r = (e, True, r', sends)"
  shows "e = mk_entry aid tcall tool args agent session turn admin now
            (Some (now + r_timeout r)) Pending True"
    and "r' = r\<lparr>r_entries := AList.update aid e (r_entries r), r_pendingCount := r_pendingCount r + 1\<rparr>"
    and "sends = []"
  using assms by (auto simp: request_approval_def Let_def split: if_splits)

lemma request_rejected_registry:
  assumes "request_approval aid now tcall tool args agent session turn admin r = (e, False, r', sends)"
  shows "ent_state e = DeniedSaturated" and "r' = r"
    and "sends = [(aid, \<lparr>o_approved = False, o_reason = ''saturated''\<rparr>)]"
  using assms by (auto simp: request_approval_def Let_def mk_entry_def split: if_splits)

lemma request_pending_ids:
  assumes "request_approval aid now tcall tool args agent session turn admin r = (e, True, r', sends)"
  shows "pending_ids r' = insert aid (pending_ids r)"
  using request_accepted_registry [OF assms] by (auto simp: pending_ids_def mk_entry_def)

lemma request_wf:
  assumes w: "registry_wf r" and fresh: "map_of (r_entries r) aid = None" "aid \<notin> set (r_deletes r)"
    and q: "request_approval aid now tcall tool args agent session turn admin r = (e, acc, r', sends)"
  shows "registry_wf r'"
proof (cases acc)
  case True
  have acc: "\<not> (r_maxPending r > 0 \<and> r_pendingCount r \<ge> r_maxPending r)"
    using request_approval_accepts [OF w, of aid now tcall tool args agent session turn admin] q True
    by simp
  have qT: "request_approval aid now tcall tool args agent session turn admin r = (e, True, r', sends)"
    using q True by simp
  note r' = request_accepted_registry [OF qT] and p = request_pending_ids [OF qT]
  have "aid \<notin> pending_ids r" using fresh by (simp add: pending_ids_def)
  then have "card (pending_ids r') = Suc (card (pending_ids r))" by (simp add: p)
  moreover have "keys_match r'"
    using w by (auto simp: r' keys_match_def registry_wf_def mk_entry_def)
  moreover have "set (r_deletes r') \<inter> pending_ids r' = {}"
    using w fresh unfolding p registry_wf_def by (simp add: r')
  ultimately show ?thesis using w acc unfolding registry_wf_def by (auto simp: r')
next
  case False
  with request_rejected_registry(2) [of aid now tcall tool args agent session turn admin r e r' sends]
  show ?thesis using w q by simp
qed

lemma fire_delete_pending_ids:
  "registry_wf r \<Longrightarrow> aid \<in> set (r_deletes r) \<Longrightarrow> pending_ids (fire_delete aid r) = pending_ids r"
  by (auto simp: registry_wf_def pending_ids_def fire_delete_def)

lemma fire_delete_wf:
  assumes "registry_wf r" and "aid \<in> set (r_deletes r)"
  shows "registry_wf (fire_delete aid r)"
proof -
  have "set (r_deletes (fire_delete aid r)) \<subseteq> set (r_deletes r)"
    by (simp add: fire_delete_def set_remove1_subset)
  then show ?thesis
    using assms fire_delete_pending_ids [OF assms] unfolding registry_wf_def keys_match_def
    by (auto simp: fire_delete_def)
qed

lemma new_registry_wf: "registry_wf (new_approval_registry max_cap timeout)"
  by (auto simp: registry_wf_def new_approval_registry_def pending_ids_def keys_match_def)

end
