(* ===== verification/Approval_System.thy ===== *)
theory Approval_System
  imports Approvals
begin

text \<open>
  The approval registry in its concurrent setting. Goroutines that resolve an entry change the
  registry under its mutex and perform the channel sends after they have released it, so between
  the two anything may happen: timers fire, users act, sessions are cancelled, terminal entries
  are deleted, the blocked agent loop receives. A step of \<open>sys_step\<close> is one such atomic action;
  every interleaving is a run. The channel of an entry has capacity 1: a send is enabled only when
  the channel is empty.
\<close>

section \<open>The system\<close>

record 'a sys =
  sy_reg :: "'a approval_registry"
  sy_requested :: "string set"
  sy_inflight :: "send list"
  sy_chan :: "send list"
  sy_received :: "send list"
  sy_approve_calls :: "string set"

datatype registry_event =
    TimerFires string
  | UserActs string approval_action
  | BatchShortCircuit string
  | GatewayRestart
  | SessionCancel string string

fun registry_op :: "registry_event \<Rightarrow> 'a approval_registry \<Rightarrow> 'a approval_registry \<times> send list" where
  "registry_op (TimerFires aid) r = fire_timeout aid r"
| "registry_op (UserActs aid action) r = snd (resolve aid action r)"
| "registry_op (BatchShortCircuit aid) r = snd (cancel_batch_short_circuit aid r)"
| "registry_op GatewayRestart r = snd (cancel_all_pending_for_restart r)"
| "registry_op (SessionCancel session reason) r = snd (cancel_all_pending_for_session session reason r)"

fun approve_call :: "registry_event \<Rightarrow> string set" where
  "approve_call (UserActs aid Approve) = {aid}"
| "approve_call _ = {}"

inductive sys_step :: "'a sys \<Rightarrow> 'a sys \<Rightarrow> bool" where
  request: "\<lbrakk>aid \<notin> sy_requested s;
     request_approval aid now tcall tool args agent session turn admin (sy_reg s) = (e, acc, r', sends)\<rbrakk>
   \<Longrightarrow> sys_step s (s\<lparr>sy_reg := r', sy_requested := insert aid (sy_requested s),
                      sy_chan := sends @ sy_chan s\<rparr>)"
| registry: "registry_op ev (sy_reg s) = (r', sends) \<Longrightarrow>
   sys_step s (s\<lparr>sy_reg := r', sy_inflight := sends @ sy_inflight s,
                 sy_approve_calls := approve_call ev \<union> sy_approve_calls s\<rparr>)"
| delete: "aid \<in> set (r_deletes (sy_reg s)) \<Longrightarrow>
   sys_step s (s\<lparr>sy_reg := fire_delete aid (sy_reg s)\<rparr>)"
| deliver: "\<lbrakk>(aid, out) \<in> set (sy_inflight s); aid \<notin> fst ` set (sy_chan s)\<rbrakk> \<Longrightarrow>
   sys_step s (s\<lparr>sy_inflight := remove1 (aid, out) (sy_inflight s),
                 sy_chan := (aid, out) # sy_chan s\<rparr>)"
| receive: "(aid, out) \<in> set (sy_chan s) \<Longrightarrow>
   sys_step s (s\<lparr>sy_chan := remove1 (aid, out) (sy_chan s),
                 sy_received := (aid, out) # sy_received s\<rparr>)"

definition sys_init :: "int \<Rightarrow> duration \<Rightarrow> duration \<Rightarrow> 'a sys" where
  "sys_init max_cap timeout retention =
     \<lparr>sy_reg = (new_approval_registry max_cap timeout)\<lparr>r_terminalRetention := retention\<rparr>,
      sy_requested = {}, sy_inflight = [], sy_chan = [], sy_received = [], sy_approve_calls = {}\<rparr>"

inductive sys_reachable :: "'a sys \<Rightarrow> bool" where
  start: "sys_reachable (sys_init max_cap timeout retention)"
| step: "sys_reachable s \<Longrightarrow> sys_step s s' \<Longrightarrow> sys_reachable s'"

section \<open>The invariant\<close>

definition outcomes :: "'a sys \<Rightarrow> send list" where
  "outcomes s = sy_inflight s @ sy_chan s @ sy_received s"

definition sys_inv :: "'a sys \<Rightarrow> bool" where
  "sys_inv s \<longleftrightarrow>
     registry_wf (sy_reg s) \<and>
     dom (map_of (r_entries (sy_reg s))) \<union> set (r_deletes (sy_reg s)) \<subseteq> sy_requested s \<and>
     distinct (map fst (outcomes s)) \<and>
     set (map fst (outcomes s)) = sy_requested s - pending_ids (sy_reg s) \<and>
     (\<forall>x \<in> set (outcomes s). o_approved (snd x) \<longrightarrow> fst x \<in> sy_approve_calls s)"

lemma pending_subset_dom: "pending_ids r \<subseteq> dom (map_of (r_entries r))"
  by (auto simp: pending_ids_def)

lemma registry_op_settles:
  assumes "registry_wf r" and "registry_op ev r = (r', sends)"
  shows "settles r r' sends"
  using assms
  by (cases ev)
    (auto intro: timeout_op.op_settles resolve_op.op_settles short_circuit_op.op_settles
      restart_op.op_settles session_op.op_settles)

lemma cancel_selected_not_approved:
  "x \<in> set (snd (snd (cancel_selected sel st reason r))) \<Longrightarrow> \<not> o_approved (snd x)"
  by (auto simp: cancel_selected_def Let_def)

lemma resolve_approved:
  "x \<in> set (snd (snd (resolve aid action r))) \<Longrightarrow> o_approved (snd x) \<Longrightarrow>
     action = Approve \<and> fst x = aid"
  by (cases action) (auto simp: resolve_def split: option.splits if_splits)

lemma registry_op_approved:
  assumes "registry_op ev r = (r', sends)" and "x \<in> set sends" and "o_approved (snd x)"
  shows "fst x \<in> approve_call ev"
proof (cases ev)
  case (UserActs aid action)
  then show ?thesis using assms resolve_approved [of x aid action r] by auto
next
  case GatewayRestart
  then show ?thesis
    using assms cancel_selected_not_approved [of x "\<lambda>_. True" DeniedRestart "''restart''" r]
    by (simp add: cancel_all_pending_for_restart_def)
next
  case (SessionCancel session reason)
  then show ?thesis
    using assms cancel_selected_not_approved [of x "\<lambda>e. SessionID e = session" DeniedCancel reason r]
    by (cases "cancel_selected (\<lambda>e. SessionID e = session) DeniedCancel reason r")
      (auto simp: cancel_all_pending_for_session_def)
qed (use assms in \<open>auto simp: fire_timeout_def cancel_batch_short_circuit_def
      split: option.splits if_splits\<close>)

lemma inv_init: "sys_inv (sys_init max_cap timeout retention)"
  using new_registry_wf [of max_cap timeout]
  by (simp add: sys_inv_def sys_init_def outcomes_def registry_wf_def new_approval_registry_def
      keys_match_def pending_ids_def)

lemma inv_request:
  assumes i: "sys_inv s" and f: "aid \<notin> sy_requested s"
    and q: "request_approval aid now tcall tool args agent session turn admin (sy_reg s) = (e, acc, r', sends)"
  shows "sys_inv (s\<lparr>sy_reg := r', sy_requested := insert aid (sy_requested s),
                    sy_chan := sends @ sy_chan s\<rparr>)"
proof -
  let ?r = "sy_reg s"
  have w: "registry_wf ?r" and d: "dom (map_of (r_entries ?r)) \<union> set (r_deletes ?r) \<subseteq> sy_requested s"
    using i by (auto simp: sys_inv_def)
  have fr: "map_of (r_entries ?r) aid = None" "aid \<notin> set (r_deletes ?r)" "aid \<notin> pending_ids ?r"
    using d f pending_subset_dom [of ?r] by auto
  have w': "registry_wf r'" by (rule request_wf [OF w fr(1,2) q])
  show ?thesis
  proof (cases acc)
    case True
    then have q': "request_approval aid now tcall tool args agent session turn admin ?r = (e, True, r', sends)"
      using q by simp
    note r' = request_accepted_registry [OF q'] and p = request_pending_ids [OF q']
    have "dom (map_of (r_entries r')) \<union> set (r_deletes r') \<subseteq> insert aid (sy_requested s)"
      using d by (auto simp: r' dom_map_of_conv_image_fst dom_update)
    moreover have "sy_requested s - pending_ids ?r = insert aid (sy_requested s) - insert aid (pending_ids ?r)"
      using f by blast
    ultimately show ?thesis using i w' f unfolding sys_inv_def outcomes_def by (simp add: p r'(3))
  next
    case False
    then have q': "request_approval aid now tcall tool args agent session turn admin ?r = (e, False, r', sends)"
      using q by simp
    note r' = request_rejected_registry [OF q']
    have "insert aid (sy_requested s) - pending_ids ?r = insert aid (sy_requested s - pending_ids ?r)"
      using fr by blast
    with i w' d f show ?thesis unfolding sys_inv_def outcomes_def by (auto simp: r')
  qed
qed

lemma inv_registry:
  assumes i: "sys_inv s" and op: "registry_op ev (sy_reg s) = (r', sends)"
  shows "sys_inv (s\<lparr>sy_reg := r', sy_inflight := sends @ sy_inflight s,
                 sy_approve_calls := approve_call ev \<union> sy_approve_calls s\<rparr>)"
    (is "sys_inv ?s")
proof -
  let ?r = "sy_reg s"
  have w: "registry_wf ?r" using i by (simp add: sys_inv_def)
  have s: "settles ?r r' sends" by (rule registry_op_settles [OF w op])
  have p: "pending_ids r' = pending_ids ?r - set (map fst sends)" by (rule settles_pending_ids [OF s])
  have sub: "set (map fst sends) \<subseteq> pending_ids ?r" "distinct (map fst sends)"
    and dl: "set (r_deletes r') \<subseteq> set (r_deletes ?r) \<union> set (map fst sends)"
    using s unfolding settles_def by blast+
  have d: "dom (map_of (r_entries ?r)) \<union> set (r_deletes ?r) \<subseteq> sy_requested s"
    using i by (simp add: sys_inv_def)
  have pr: "pending_ids ?r \<subseteq> sy_requested s" using d pending_subset_dom [of ?r] by blast
  have "dom (map_of (r_entries r')) \<subseteq> dom (map_of (r_entries ?r))"
  proof
    fix aid assume "aid \<in> dom (map_of (r_entries r'))"
    then obtain e' where "map_of (r_entries r') aid = Some e'" by blast
    then show "aid \<in> dom (map_of (r_entries ?r))"
      using s unfolding settles_def by (metis domI)
  qed
  then have d': "dom (map_of (r_entries r')) \<union> set (r_deletes r') \<subseteq> sy_requested s"
    using d dl sub pr by blast
  have o: "outcomes ?s = sends @ outcomes s" by (simp add: outcomes_def)
  have so: "set (map fst (outcomes s)) = sy_requested s - pending_ids ?r"
    and do: "distinct (map fst (outcomes s))" using i by (auto simp: sys_inv_def)
  have "set (map fst (outcomes ?s)) = sy_requested s - pending_ids r'"
    unfolding o p map_append set_append so using sub pr by blast
  moreover have "distinct (map fst (outcomes ?s))"
    unfolding o map_append distinct_append using sub do so by blast
  moreover have "\<forall>x \<in> set (outcomes ?s). o_approved (snd x) \<longrightarrow> fst x \<in> sy_approve_calls ?s"
    using i registry_op_approved [OF op] unfolding o sys_inv_def by auto
  ultimately show ?thesis using d' settles_wf [OF s w] unfolding sys_inv_def by simp
qed

lemma inv_move:
  assumes "sys_inv s" and "mset (outcomes s') = mset (outcomes s)" and "sy_reg s' = sy_reg s"
    and "sy_requested s' = sy_requested s" and "sy_approve_calls s' = sy_approve_calls s"
  shows "sys_inv s'"
proof -
  have "mset (map fst (outcomes s')) = mset (map fst (outcomes s))" using assms(2) by simp
  then have "distinct (map fst (outcomes s')) = distinct (map fst (outcomes s))"
    by (metis mset_eq_imp_distinct_iff)
  moreover have "set (outcomes s') = set (outcomes s)" using assms(2) by (metis set_mset_mset)
  ultimately show ?thesis using assms by (simp add: sys_inv_def)
qed

lemma inv_delete:
  assumes "sys_inv s" and "aid \<in> set (r_deletes (sy_reg s))"
  shows "sys_inv (s\<lparr>sy_reg := fire_delete aid (sy_reg s)\<rparr>)"
proof -
  let ?r = "sy_reg s"
  have w: "registry_wf ?r" using assms by (simp add: sys_inv_def)
  have "dom (map_of (r_entries (fire_delete aid ?r))) \<union> set (r_deletes (fire_delete aid ?r))
      \<subseteq> dom (map_of (r_entries ?r)) \<union> set (r_deletes ?r)"
    using set_remove1_subset [of aid "r_deletes ?r"]
    by (auto simp: fire_delete_def split: if_splits)
  then have "dom (map_of (r_entries (fire_delete aid ?r))) \<union> set (r_deletes (fire_delete aid ?r))
      \<subseteq> sy_requested s" using assms(1) unfolding sys_inv_def by blast
  then show ?thesis
    using assms(1) fire_delete_wf [OF w assms(2)] fire_delete_pending_ids [OF w assms(2)]
    unfolding sys_inv_def outcomes_def by simp
qed

lemma inv_step: "sys_step s s' \<Longrightarrow> sys_inv s \<Longrightarrow> sys_inv s'"
proof (induction rule: sys_step.induct)
  case (deliver aid out s)
  show ?case by (rule inv_move [OF deliver.prems]) (use deliver.hyps in \<open>auto simp: outcomes_def\<close>)
next
  case (receive aid out s)
  show ?case by (rule inv_move [OF receive.prems]) (use receive.hyps in \<open>auto simp: outcomes_def\<close>)
qed (blast intro: inv_request inv_registry inv_delete)+

lemma inv_reachable: "sys_reachable s \<Longrightarrow> sys_inv s"
  by (induction rule: sys_reachable.induct) (auto intro: inv_init inv_step)

section \<open>Delivery of outcomes\<close>

text \<open>A run that requests an approval, approves it and delivers the outcome.\<close>

definition demo_request :: "string sys" where
  "demo_request =
     (let (e, acc, r, sends) = request_approval ''a1'' 5 ''c1'' ''exec'' None ''bot'' ''s1'' ''t1'' False
            (sy_reg (sys_init 1 0 (60 * second)))
      in (sys_init 1 0 (60 * second))\<lparr>sy_reg := r, sy_requested := {''a1''}\<rparr>)"

definition demo_approved :: "string sys" where
  "demo_approved =
     (let (r, sends) = registry_op (UserActs ''a1'' Approve) (sy_reg demo_request)
      in demo_request\<lparr>sy_reg := r, sy_inflight := sends, sy_approve_calls := {''a1''}\<rparr>)"

lemma demo_request_reachable: "sys_reachable demo_request"
proof -
  let ?i = "sys_init 1 0 (60 * second) :: string sys"
  obtain e acc r sends where q: "request_approval ''a1'' 5 ''c1'' ''exec'' None ''bot'' ''s1'' ''t1'' False
      (sy_reg ?i) = (e, acc, r, sends)" by (metis prod_cases4)
  then have "sends = []"
    by (auto simp: request_approval_def sys_init_def new_approval_registry_def pending_entries_def
        Let_def)
  then have "demo_request = ?i\<lparr>sy_reg := r, sy_requested := insert ''a1'' (sy_requested ?i),
      sy_chan := sends @ sy_chan ?i\<rparr>"
    using q by (simp add: demo_request_def) (simp add: sys_init_def)
  moreover have "sys_step ?i (?i\<lparr>sy_reg := r, sy_requested := insert ''a1'' (sy_requested ?i),
      sy_chan := sends @ sy_chan ?i\<rparr>)"
    by (rule sys_step.request [OF _ q]) (simp add: sys_init_def)
  ultimately show ?thesis by (metis sys_reachable.start sys_reachable.step)
qed

lemma demo_approved_reachable: "sys_reachable demo_approved"
proof -
  obtain r sends where op: "registry_op (UserActs ''a1'' Approve) (sy_reg demo_request) = (r, sends)"
    by (metis surj_pair)
  have "sy_inflight demo_request = []" "sy_approve_calls demo_request = {}"
    by (simp_all add: demo_request_def sys_init_def split: prod.split)
  with op have "demo_approved = demo_request\<lparr>sy_reg := r,
      sy_inflight := sends @ sy_inflight demo_request,
      sy_approve_calls := approve_call (UserActs ''a1'' Approve) \<union> sy_approve_calls demo_request\<rparr>"
    by (simp add: demo_approved_def del: registry_op.simps)
  with sys_step.registry [OF op] show ?thesis
    by (metis demo_request_reachable sys_reachable.step)
qed

lemma demo_approved_inflight:
  "sy_inflight demo_approved = [(''a1'', \<lparr>o_approved = True, o_reason = ''approved''\<rparr>)]"
  by (simp add: demo_approved_def demo_request_def sys_init_def new_approval_registry_def
      request_approval_def pending_entries_def resolve_def mk_entry_def Let_def finish_entry_def)

text \<open>
  C1. Every approval request gets exactly one outcome: in any interleaving, a requested approval
  that is still pending has none and any other has exactly one, whether it is still being sent,
  in its channel or already received. So no outcome is lost and none is delivered twice, however
  user actions, timers, cancellations and deletions race.
\<close>

theorem exactly_one_outcome:
  assumes "sys_reachable s" and "aid \<in> sy_requested s"
  shows "length (filter (\<lambda>x. fst x = aid) (sy_inflight s @ sy_chan s @ sy_received s)) =
    (if \<exists>e. map_of (r_entries (sy_reg s)) aid = Some e \<and> ent_state e = Pending then 0 else 1)"
proof -
  have i: "distinct (map fst (outcomes s))"
    "set (map fst (outcomes s)) = sy_requested s - pending_ids (sy_reg s)"
    using inv_reachable [OF assms(1)] by (auto simp: sys_inv_def)
  have "length (filter (\<lambda>x. fst x = aid) (outcomes s)) = count_list (map fst (outcomes s)) aid"
    by (induction "outcomes s" rule: list.induct) (simp_all add: count_list_eq_length_filter filter_map comp_def eq_commute)
  also have "\<dots> = (if aid \<in> set (map fst (outcomes s)) then 1 else 0)"
    using i(1) by (metis count_list_0_iff distinct_count_atmost_1 count_mset)
  also have "aid \<in> set (map fst (outcomes s)) \<longleftrightarrow>
      \<not> (\<exists>e. map_of (r_entries (sy_reg s)) aid = Some e \<and> ent_state e = Pending)"
    using i(2) assms(2) unfolding pending_ids_def by blast
  finally show ?thesis unfolding outcomes_def if_not_swap .
qed

theorem exactly_one_outcome_witness:
  "length (filter (\<lambda>x. fst x = ''a1'')
     (sy_inflight demo_approved @ sy_chan demo_approved @ sy_received demo_approved)) = 1"
proof -
  have "''a1'' \<in> sy_requested demo_approved"
    by (simp add: demo_approved_def demo_request_def Let_def case_prod_beta)
  from exactly_one_outcome [OF demo_approved_reachable this] demo_approved_inflight
  show ?thesis by (simp split: if_splits)
qed

text \<open>
  A send of an outcome never blocks: whenever a goroutine is about to send, the channel of
  the entry (capacity 1) is empty, so the send can take place at once.
\<close>

theorem outcome_send_never_blocks:
  assumes "sys_reachable s" and "(aid, out) \<in> set (sy_inflight s)"
  shows "aid \<notin> fst ` set (sy_chan s) \<and>
    sys_step s (s\<lparr>sy_inflight := remove1 (aid, out) (sy_inflight s),
                  sy_chan := (aid, out) # sy_chan s\<rparr>)"
proof -
  have "distinct (map fst (outcomes s))" using inv_reachable [OF assms(1)] by (simp add: sys_inv_def)
  then have "aid \<notin> fst ` set (sy_chan s)"
    using assms(2) by (force simp: outcomes_def)
  with assms(2) show ?thesis by (auto intro: sys_step.deliver)
qed

theorem outcome_send_never_blocks_witness:
  "''a1'' \<notin> fst ` set (sy_chan demo_approved)"
  using outcome_send_never_blocks [OF demo_approved_reachable,
      of "''a1''" "\<lparr>o_approved = True, o_reason = ''approved''\<rparr>"]
  by (simp add: demo_approved_inflight)

text \<open>
  A tool call is let through only by an explicit approval: an approving outcome, wherever it
  is, belongs to an approval on which the approve action was invoked. No timeout, cancellation,
  restart, short circuit or saturation ever yields one.
\<close>

theorem approved_only_by_action:
  assumes "sys_reachable s"
    and "(aid, out) \<in> set (sy_inflight s @ sy_chan s @ sy_received s)" and "o_approved out"
  shows "aid \<in> sy_approve_calls s"
  using inv_reachable [OF assms(1)] assms(2,3) unfolding sys_inv_def outcomes_def by fastforce

theorem approved_only_by_action_witness: "''a1'' \<in> sy_approve_calls demo_approved"
  using approved_only_by_action [OF demo_approved_reachable,
      of "''a1''" "\<lparr>o_approved = True, o_reason = ''approved''\<rparr>"]
  by (simp add: demo_approved_inflight)

text \<open>
  The Prometheus gauge is exact and the saturation cap is never exceeded, in every reachable
  state: the gauge equals the number of pending entries, and with a positive cap that number is
  at most the cap.
\<close>

theorem gauge_exact_and_capped:
  assumes "sys_reachable s"
  shows "pending_gauge_value (sy_reg s) = int (length (pending_entries (sy_reg s))) \<and>
    \<not> (r_maxPending (sy_reg s) > 0 \<and> pending_gauge_value (sy_reg s) > r_maxPending (sy_reg s))"
  using inv_reachable [OF assms] length_pending_entries [of "sy_reg s"]
  unfolding sys_inv_def registry_wf_def pending_gauge_value_def by auto

theorem gauge_exact_and_capped_witness:
  "pending_gauge_value (sy_reg demo_request) = int (length (pending_entries (sy_reg demo_request)))"
  using gauge_exact_and_capped [OF demo_request_reachable] by blast

section \<open>Terminal states are final\<close>

definition approval_status :: "'a sys \<Rightarrow> string \<Rightarrow> approval_state option" where
  "approval_status s aid = map_option ent_state (map_of (r_entries (sy_reg s)) aid)"

lemma status_registry:
  assumes "sys_inv s" and "registry_op ev (sy_reg s) = (r', sends)" and "approval_status s aid \<noteq> Some Pending"
  shows "map_of (r_entries r') aid = map_of (r_entries (sy_reg s)) aid"
proof (rule settles_keeps)
  show "settles (sy_reg s) r' sends"
    using assms(1,2) by (auto simp: sys_inv_def intro: registry_op_settles)
  show "aid \<notin> pending_ids (sy_reg s)"
    using assms(3) by (auto simp: approval_status_def pending_ids_def)
qed

text \<open>
  A decided approval stays decided: once an approval is in a terminal state or has been
  removed, every later step leaves it in that state or removes it. It is never pending again and
  never changes from one decision to another.
\<close>

theorem decision_is_final:
  assumes "sys_reachable s" and "sys_step s s'" and "aid \<in> sy_requested s"
    and "approval_status s aid \<noteq> Some Pending"
  shows "approval_status s' aid \<in> {approval_status s aid, None}"
  using assms(2)
proof (cases rule: sys_step.cases)
  case (request aid' now tcall tool args agent session turn admin e acc r' sends)
  then have "aid' \<noteq> aid" using assms(3) by auto
  with request show ?thesis
    by (cases acc) (auto simp: approval_status_def dest: request_accepted_registry request_rejected_registry)
next
  case (registry ev r' sends)
  with status_registry [OF inv_reachable [OF assms(1)] registry(2) assms(4)]
  show ?thesis by (simp add: approval_status_def)
qed (auto simp: approval_status_def fire_delete_def)

theorem decision_is_final_witness:
  "\<exists>s'. sys_step demo_approved s' \<and> approval_status s' ''a1'' \<in> {Some Approved, None}"
proof -
  obtain r sends where op: "registry_op (TimerFires ''a1'') (sy_reg demo_approved) = (r, sends)"
    by (metis surj_pair)
  let ?s' = "demo_approved\<lparr>sy_reg := r, sy_inflight := sends @ sy_inflight demo_approved,
      sy_approve_calls := approve_call (TimerFires ''a1'') \<union> sy_approve_calls demo_approved\<rparr>"
  have st: "sys_step demo_approved ?s'" by (rule sys_step.registry [OF op])
  have a: "approval_status demo_approved ''a1'' = Some Approved"
    by (simp add: approval_status_def demo_approved_def demo_request_def sys_init_def
        new_approval_registry_def request_approval_def pending_entries_def resolve_def mk_entry_def
        Let_def finish_entry_def schedule_terminal_delete_def set_entry_def)
  have q: "''a1'' \<in> sy_requested demo_approved"
    by (simp add: demo_approved_def demo_request_def Let_def case_prod_beta)
  from decision_is_final [OF demo_approved_reachable st q] a
  have "approval_status ?s' ''a1'' \<in> {Some Approved, None}" by auto
  with st show ?thesis by blast
qed

section \<open>Progress\<close>

text \<open>
  The three actions that release a loop, each of which does nothing when it is not enabled: the armed timer of
  an approval fires, the goroutine that resolved it sends the outcome, the loop takes it off the channel.
\<close>

definition timer_elapses :: "string \<Rightarrow> 'a sys \<Rightarrow> 'a sys" where
  "timer_elapses aid s =
     (case map_of (r_entries (sy_reg s)) aid of
        None \<Rightarrow> s
      | Some e \<Rightarrow>
          if timer_armed e then
            (case fire_timeout aid (sy_reg s) of (r', sends) \<Rightarrow> s\<lparr>sy_reg := r', sy_inflight := sends @ sy_inflight s\<rparr>)
          else s)"

definition outcome_sent :: "string \<Rightarrow> 'a sys \<Rightarrow> 'a sys" where
  "outcome_sent aid s =
     (case find (\<lambda>x. fst x = aid) (sy_inflight s) of
        None \<Rightarrow> s
      | Some x \<Rightarrow>
          if aid \<in> fst ` set (sy_chan s) then s
          else s\<lparr>sy_inflight := remove1 x (sy_inflight s), sy_chan := x # sy_chan s\<rparr>)"

definition outcome_taken :: "string \<Rightarrow> 'a sys \<Rightarrow> 'a sys" where
  "outcome_taken aid s =
     (case find (\<lambda>x. fst x = aid) (sy_chan s) of
        None \<Rightarrow> s
      | Some x \<Rightarrow> s\<lparr>sy_chan := remove1 x (sy_chan s), sy_received := x # sy_received s\<rparr>)"

text \<open>A pending approval has its timer armed, for the time it was requested plus the configured timeout.\<close>

definition timers_armed :: "'a approval_registry \<Rightarrow> bool" where
  "timers_armed r \<longleftrightarrow>
     (\<forall>aid e. map_of (r_entries r) aid = Some e \<longrightarrow> ent_state e = Pending \<longrightarrow>
        timer_armed e \<and> ExpiresAt e = Some (CreatedAt e + r_timeout r))"

lemma armed_settles:
  assumes "timers_armed r" and "settles r r' sends"
  shows "timers_armed r'"
  unfolding timers_armed_def
proof (intro allI impI)
  fix aid e assume e: "map_of (r_entries r') aid = Some e" "ent_state e = Pending"
  then have "aid \<in> pending_ids r'" by (auto simp: pending_ids_def)
  then have "aid \<notin> set (map fst sends)" unfolding settles_pending_ids [OF assms(2)] by blast
  then have "map_of (r_entries r) aid = Some e" "r_timeout r' = r_timeout r"
    using assms(2) e(1) unfolding settles_def by auto
  then show "timer_armed e \<and> ExpiresAt e = Some (CreatedAt e + r_timeout r')"
    using assms(1) e(2) by (auto simp: timers_armed_def)
qed

lemma armed_request:
  assumes "timers_armed r"
    and "request_approval aid now tcall tool args agent session turn admin r = (e, acc, r', sends)"
  shows "timers_armed r'"
  using assms by (auto simp: timers_armed_def request_approval_def mk_entry_def Let_def update_conv' split: if_splits)

lemma armed_delete: "timers_armed r \<Longrightarrow> timers_armed (fire_delete aid r)"
  by (auto simp: timers_armed_def fire_delete_def delete_conv' split: if_splits)

lemma armed_step: "sys_step s s' \<Longrightarrow> sys_inv s \<Longrightarrow> timers_armed (sy_reg s) \<Longrightarrow> timers_armed (sy_reg s')"
proof (induction rule: sys_step.induct)
  case (registry ev s r' sends)
  have "settles (sy_reg s) r' sends"
    using registry by (auto simp: sys_inv_def intro: registry_op_settles)
  with registry show ?case by (auto intro: armed_settles)
qed (auto intro: armed_request armed_delete)

lemma armed_reachable: "sys_reachable s \<Longrightarrow> timers_armed (sy_reg s)"
proof (induction rule: sys_reachable.induct)
  case (start max_cap timeout retention)
  show ?case by (simp add: timers_armed_def sys_init_def new_approval_registry_def)
qed (blast intro: armed_step inv_reachable)

lemma timer_elapses_step: "sys_step\<^sup>*\<^sup>* s (timer_elapses aid s)"
proof -
  obtain r sends where op: "registry_op (TimerFires aid) (sy_reg s) = (r, sends)" by (metis surj_pair)
  have "sys_step s (s\<lparr>sy_reg := r, sy_inflight := sends @ sy_inflight s\<rparr>)"
    using sys_step.registry [OF op] by simp
  then show ?thesis using op by (auto simp: timer_elapses_def split: option.split)
qed

lemma outcome_sent_step: "sys_step\<^sup>*\<^sup>* s (outcome_sent aid s)"
proof (cases "find (\<lambda>x. fst x = aid) (sy_inflight s)")
  case (Some x)
  then have "(aid, snd x) \<in> set (sy_inflight s)" "x = (aid, snd x)" by (auto simp: find_Some_iff)
  with Some sys_step.deliver [of aid "snd x" s] show ?thesis
    by (auto simp: outcome_sent_def)
qed (simp add: outcome_sent_def)

lemma outcome_taken_step: "sys_step\<^sup>*\<^sup>* s (outcome_taken aid s)"
proof (cases "find (\<lambda>x. fst x = aid) (sy_chan s)")
  case (Some x)
  then have "(aid, snd x) \<in> set (sy_chan s)" "x = (aid, snd x)" by (auto simp: find_Some_iff)
  with Some sys_step.receive [of aid "snd x" s] show ?thesis
    by (auto simp: outcome_taken_def)
qed (simp add: outcome_taken_def)

lemma sent_then_taken:
  assumes "distinct (map fst (outcomes s))" and "(aid, out) \<in> set (outcomes s)"
  shows "(aid, out) \<in> set (sy_received (outcome_taken aid (outcome_sent aid s)))"
proof -
  have only: "x = (aid, out)" if "x \<in> set (outcomes s)" "fst x = aid" for x
    using eq_key_imp_eq_value [OF assms(1), of aid "snd x" out] that assms(2) by (cases x) auto
  have d: "distinct (map fst (sy_inflight s @ sy_chan s @ sy_received s))" using assms(1) by (simp add: outcomes_def)
  consider (inflight) "(aid, out) \<in> set (sy_inflight s)" | (chan) "(aid, out) \<in> set (sy_chan s)" | (received) "(aid, out) \<in> set (sy_received s)"
    using assms(2) by (auto simp: outcomes_def)
  then show ?thesis
  proof cases
    case inflight
    then obtain x where x: "find (\<lambda>x. fst x = aid) (sy_inflight s) = Some x"
      by (cases "find (\<lambda>x. fst x = aid) (sy_inflight s)") (auto simp: find_None_iff)
    then have "x \<in> set (sy_inflight s)" "fst x = aid" by (auto simp: find_Some_iff)
    then have e: "x = (aid, out)" by (intro only) (simp_all add: outcomes_def)
    have "aid \<notin> fst ` set (sy_chan s)" using d inflight by force
    then show ?thesis using x e by (simp add: outcome_sent_def outcome_taken_def)
  next
    case chan
    then have "aid \<notin> fst ` set (sy_inflight s)" using d by force
    then have "find (\<lambda>x. fst x = aid) (sy_inflight s) = None" by (force simp: find_None_iff)
    then have s: "outcome_sent aid s = s" by (simp add: outcome_sent_def)
    obtain x where x: "find (\<lambda>x. fst x = aid) (sy_chan s) = Some x"
      using chan by (cases "find (\<lambda>x. fst x = aid) (sy_chan s)") (auto simp: find_None_iff)
    then have "x \<in> set (sy_chan s)" "fst x = aid" by (auto simp: find_Some_iff)
    then have "x = (aid, out)" by (intro only) (simp_all add: outcomes_def)
    then show ?thesis using x s by (simp add: outcome_taken_def)
  qed (auto simp: outcome_taken_def outcome_sent_def split: option.split)
qed

text \<open>
  C16. A blocked agent loop is released by its timer. In every reachable state a pending approval has its timer
  armed for the time of its request plus the configured timeout. From every reachable state, and so whatever other
  steps come before, when the timer of a requested approval elapses, the outcome is sent and the loop takes it, the loop has
  an outcome and the approval is no longer pending; if it was pending, the outcome is the timeout denial.
\<close>

theorem blocked_loop_released:
  assumes "sys_reachable s" and "aid \<in> sy_requested s"
  shows "(\<forall>e. map_of (r_entries (sy_reg s)) aid = Some e \<and> ent_state e = Pending \<longrightarrow>
        timer_armed e \<and> ExpiresAt e = Some (CreatedAt e + r_timeout (sy_reg s))) \<and>
    (let s' = outcome_taken aid (outcome_sent aid (timer_elapses aid s))
     in sys_step\<^sup>*\<^sup>* s s' \<and> aid \<in> fst ` set (sy_received s') \<and> approval_status s' aid \<noteq> Some Pending \<and>
        (approval_status s aid = Some Pending \<longrightarrow> (aid, \<lparr>o_approved = False, o_reason = ''timeout''\<rparr>) \<in> set (sy_received s')))"
proof -
  let ?t = "timer_elapses aid s"
  let ?s' = "outcome_taken aid (outcome_sent aid ?t)"
  have armed: "timers_armed (sy_reg s)" by (rule armed_reachable [OF assms(1)])
  have steps: "sys_step\<^sup>*\<^sup>* s ?s'"
    using timer_elapses_step [of s aid] outcome_sent_step [of ?t aid] outcome_taken_step [of "outcome_sent aid ?t" aid]
    by (meson rtranclp_trans)
  have reach: "sys_reachable u" if "sys_step\<^sup>*\<^sup>* s u" for u
    using that assms(1) by (induction rule: rtranclp_induct) (blast intro: sys_reachable.step)+
  have inv: "sys_inv ?t" by (rule inv_reachable [OF reach [OF timer_elapses_step]])
  have reg: "sy_reg ?s' = sy_reg ?t" by (simp add: outcome_sent_def outcome_taken_def split: option.split)
  have requested: "sy_requested ?t = sy_requested s"
    by (simp add: timer_elapses_def split: option.split prod.split)
  have fired: "approval_status ?t aid \<noteq> Some Pending \<and>
      (approval_status s aid = Some Pending \<longrightarrow> (aid, \<lparr>o_approved = False, o_reason = ''timeout''\<rparr>) \<in> set (outcomes ?t))"
  proof (cases "approval_status s aid = Some Pending")
    case True
    then obtain e where e: "map_of (r_entries (sy_reg s)) aid = Some e" "ent_state e = Pending"
      by (auto simp: approval_status_def)
    then have "timer_armed e" using armed by (simp add: timers_armed_def)
    then show ?thesis using e
      by (auto simp: timer_elapses_def fire_timeout_def approval_status_def outcomes_def finish_entry_def set_entry_def
          schedule_terminal_delete_def update_conv' delete_conv')
  next
    case False
    then have "fire_timeout aid (sy_reg s) = (sy_reg s, [])"
      by (auto simp: fire_timeout_def approval_status_def split: option.split)
    then have "?t = s" by (auto simp: timer_elapses_def split: option.split)
    then show ?thesis using False by simp
  qed
  then have "aid \<notin> pending_ids (sy_reg ?t)" by (auto simp: approval_status_def pending_ids_def)
  then have "aid \<in> set (map fst (outcomes ?t))" using inv assms(2) requested by (simp add: sys_inv_def)
  then obtain out where out: "(aid, out) \<in> set (outcomes ?t)" by force
  have d: "distinct (map fst (outcomes ?t))" using inv by (simp add: sys_inv_def)
  have "aid \<in> fst ` set (sy_received ?s')" using sent_then_taken [OF d out] by force
  then show ?thesis
    using steps fired sent_then_taken [OF d] armed reg unfolding Let_def timers_armed_def approval_status_def by auto
qed

theorem blocked_loop_released_witness:
  "(''a1'', \<lparr>o_approved = False, o_reason = ''timeout''\<rparr>) \<in>
     set (sy_received (outcome_taken ''a1'' (outcome_sent ''a1'' (timer_elapses ''a1'' demo_request))))"
proof -
  have r: "''a1'' \<in> sy_requested demo_request" by (simp add: demo_request_def Let_def case_prod_beta)
  have p: "approval_status demo_request ''a1'' = Some Pending"
    by (simp add: approval_status_def demo_request_def sys_init_def new_approval_registry_def request_approval_def
        pending_entries_def mk_entry_def Let_def)
  show ?thesis using blocked_loop_released [OF demo_request_reachable r] p by (simp add: Let_def)
qed

text \<open>
  A graceful shutdown leaves nothing pending: it settles every pending approval, reports
  exactly those, sends one denial with reason restart to each, and the gauge drops to 0.
\<close>

theorem restart_cancels_all:
  assumes "sys_reachable s"
    and "cancel_all_pending_for_restart (sy_reg s) = (canceled, r', sends)"
  shows "pending_ids r' = {} \<and> r_pendingCount r' = 0 \<and>
    length canceled = length (pending_entries (sy_reg s)) \<and>
    distinct (map fst sends) \<and> set (map fst sends) = pending_ids (sy_reg s) \<and>
    snd ` set sends \<subseteq> {\<lparr>o_approved = False, o_reason = ''restart''\<rparr>}"
proof -
  have w: "registry_wf (sy_reg s)" using inv_reachable [OF assms(1)] by (simp add: sys_inv_def)
  note c = cancel_selected_settles [OF w _ assms(2) [unfolded cancel_all_pending_for_restart_def]]
  have s: "settles (sy_reg s) r' sends" by (rule c) simp
  have ids: "set (map fst sends) = pending_ids (sy_reg s)" using c(2) by (simp add: pending_ids_def)
  have d: "distinct (map fst sends)" using s by (simp add: settles_def)
  have p: "pending_ids r' = {}" using settles_pending_ids [OF s] ids by blast
  then have "r_pendingCount r' = 0" using settles_wf [OF s w] by (simp add: registry_wf_def)
  moreover have "length sends = card (pending_ids (sy_reg s))"
    using distinct_card [OF d] ids by simp
  then have "length canceled = length (pending_entries (sy_reg s))"
    using c(3) length_pending_entries [of "sy_reg s"] w by (simp add: registry_wf_def)
  moreover have "snd ` set sends \<subseteq> {\<lparr>o_approved = False, o_reason = ''restart''\<rparr>}"
    using c(4) by auto
  ultimately show ?thesis using p d ids by blast
qed

theorem restart_cancels_all_witness:
  "\<exists>canceled r' sends. cancel_all_pending_for_restart (sy_reg demo_request) = (canceled, r', sends) \<and>
     pending_ids r' = {}"
proof -
  obtain canceled r' sends where
    "cancel_all_pending_for_restart (sy_reg demo_request) = (canceled, r', sends)" by (metis prod_cases3)
  with restart_cancels_all [OF demo_request_reachable this] show ?thesis by blast
qed

end
