(* ===== verification/Approval_Api.thy ===== *)
theory Approval_Api
  imports Approval_System
begin

text \<open>
  What surrounds the approval registry: the REST handler that acts on an approval
  (rest_tool_registry.go), the adapter through which the agent loop requests one
  (policy_approver.go) and the WebSocket frames that announce them (ws_tool_approval.go).
\<close>

section \<open>POST /api/v1/tool-approvals/\<close>

text \<open>\<open>validateEntityID\<close> (rest.go).\<close>

definition valid_entity_id :: "string \<Rightarrow> bool" where
  "valid_entity_id aid \<longleftrightarrow>
     \<not> (aid = '''' \<or> contains_any aid [CHR ''/'', CHR 0x5C] \<or> contains_sub aid ''..'' \<or> CHR 0x00 \<in> set aid)"

text \<open>The caller's role as \<open>withAuth\<close> left it in the request context, if any.\<close>

definition is_admin_role :: "string option \<Rightarrow> bool" where
  "is_admin_role role \<longleftrightarrow> (case role of None \<Rightarrow> '''' | Some r \<Rightarrow> r) = UserRoleAdmin"

datatype http_body =
    JsonErr string
  | ApprovalResponse string string

type_synonym http_response = "nat \<times> http_body"

fun parse_action :: "string \<Rightarrow> approval_action option" where
  "parse_action body =
     (if body = ''approve'' then Some Approve else if body = ''deny'' then Some Deny
      else if body = ''cancel'' then Some Cancel else None)"

definition approval_id_of_path :: "string \<Rightarrow> string" where
  "approval_id_of_path path = trim_suffix (trim_prefix path ''/api/v1/tool-approvals/'') ''/''"

definition msg_approval_not_found :: "string \<Rightarrow> string" where
  "msg_approval_not_found aid = ''approval '' @ go_quote aid @ '' not found''"
definition msg_unknown_action :: "string \<Rightarrow> string" where
  "msg_unknown_action a = ''unknown action '' @ go_quote a @ '': must be approve, deny, or cancel''"

text \<open>
  \<open>HandleToolApprovals\<close>. \<open>decoded\<close> is the outcome of \<open>decodeAndValidate\<close>: the error response
  it has written, or the action of the body. The registry is \<^const>\<open>None\<close> when it is not
  initialised. Other goroutines may run between the lookup and the transition: \<open>env\<close> is what
  they do to the registry there.
\<close>

definition handle_tool_approvals ::
  "string \<Rightarrow> string \<Rightarrow> http_response + string \<Rightarrow> string option \<Rightarrow>
     ('a approval_registry \<Rightarrow> 'a approval_registry) \<Rightarrow> 'a approval_registry option \<Rightarrow>
     http_response \<times> 'a approval_registry option \<times> send list" where
  "handle_tool_approvals http_method path decoded role env reg =
     (if http_method \<noteq> ''POST'' then ((405, JsonErr ''method not allowed''), reg, [])
      else let aid = approval_id_of_path path in
      if \<not> valid_entity_id aid then ((400, JsonErr ''invalid approval_id''), reg, [])
      else case decoded of Inl resp \<Rightarrow> (resp, reg, []) | Inr body \<Rightarrow>
      case parse_action body of None \<Rightarrow> ((400, JsonErr (msg_unknown_action body)), reg, [])
      | Some action \<Rightarrow>
      case reg of None \<Rightarrow> ((503, JsonErr ''approval registry not initialized''), reg, [])
      | Some r \<Rightarrow>
      case get_entry aid r of None \<Rightarrow> ((404, JsonErr (msg_approval_not_found aid)), reg, [])
      | Some entry \<Rightarrow>
      if RequiresAdmin entry \<and> \<not> is_admin_role role then
        ((403, JsonErr ''admin role required to act on this approval''), reg, [])
      else case resolve aid action (env r) of ((resolved, gone), r', sends) \<Rightarrow>
      if gone then ((410, JsonErr ''approval already resolved''), Some r', sends)
      else if \<not> resolved then ((404, JsonErr (msg_approval_not_found aid)), Some r', sends)
      else ((200, ApprovalResponse aid body), Some r', sends))"

lemma resolve_result:
  "resolve aid action r =
     (case map_of (r_entries r) aid of
        None \<Rightarrow> ((False, False), r, [])
      | Some e \<Rightarrow>
          (if ent_state e \<noteq> Pending then ((False, True), r, [])
           else case action_effect action of
                  None \<Rightarrow> ((False, False), r, [])
                | Some (st, outcome) \<Rightarrow> ((True, False), finish_entry aid e st False r, [(aid, outcome)])))"
  by (simp add: resolve_def is_terminal_iff split: option.split)

lemma parse_action_effect: "parse_action body = Some action \<Longrightarrow> \<exists>st out. action_effect action = Some (st, out)"
  by (auto split: if_splits)

lemma resolve_parsed:
  assumes "parse_action body = Some action" and "resolve aid action r = ((resolved, gone), r', sends)"
  shows "resolved \<longleftrightarrow> (\<exists>e. map_of (r_entries r) aid = Some e \<and> ent_state e = Pending)"
    and "gone \<longleftrightarrow> (\<exists>e. map_of (r_entries r) aid = Some e \<and> ent_state e \<noteq> Pending)"
    and "\<not> resolved \<Longrightarrow> r' = r \<and> sends = []"
    and "resolved \<Longrightarrow> sends = [(aid, snd (the (action_effect action)))]"
  using assms parse_action_effect [OF assms(1)]
  by (auto simp: resolve_result split: option.splits if_splits)

text \<open>
  C8. The handler acts exactly when it should. It answers 200 if and only if the request is a POST
  with a well-formed id and a known action, the approval exists, its admin requirement is met by
  the caller, and it is still pending when the transition is attempted (whatever other goroutines
  did since the lookup); then exactly one outcome, that of the requested action, is sent. In every
  other case it sends nothing and leaves the registry as the others left it.
\<close>

theorem handle_tool_approvals_effect:
  assumes "handle_tool_approvals http_method path (Inr body) role env (Some r) = ((status, resp), reg', sends)"
    and "aid = approval_id_of_path path"
  shows "(status = 200 \<longleftrightarrow>
      http_method = ''POST'' \<and> valid_entity_id aid \<and> body \<in> {''approve'', ''deny'', ''cancel''} \<and>
      (\<exists>e. get_entry aid r = Some e \<and> \<not> (RequiresAdmin e \<and> \<not> is_admin_role role)) \<and>
      (\<exists>e. get_entry aid (env r) = Some e \<and> ent_state e = Pending)) \<and>
    (if status = 200
     then resp = ApprovalResponse aid body \<and>
       sends = [(aid, \<lparr>o_approved = (body = ''approve''),
                       o_reason = (if body = ''approve'' then ''approved''
                                   else if body = ''deny'' then ''user'' else ''cancel'')\<rparr>)]
     else sends = [] \<and> reg' \<in> {Some r, Some (env r)})"
proof (cases "http_method = ''POST'' \<and> valid_entity_id aid \<and> parse_action body \<noteq> None \<and>
    (\<exists>e. get_entry aid r = Some e \<and> \<not> (RequiresAdmin e \<and> \<not> is_admin_role role))")
  case False
  have ns: "status \<noteq> 200" "sends = []" "reg' = Some r"
    using assms False unfolding handle_tool_approvals_def Let_def
    by (auto simp del: parse_action.simps split: option.splits if_splits)
  have "body \<in> {''approve'', ''deny'', ''cancel''} \<longleftrightarrow> parse_action body \<noteq> None" by auto
  then show ?thesis unfolding if_not_P [OF ns(1)] using ns False by blast
next
  case True
  then obtain action e where a: "parse_action body = Some action"
    and e: "get_entry aid r = Some e" "\<not> (RequiresAdmin e \<and> \<not> is_admin_role role)" by blast
  obtain resolved gone r' s' where res: "resolve aid action (env r) = ((resolved, gone), r', s')"
    by (metis surj_pair)
  have out: "(if gone then ((410, JsonErr ''approval already resolved''), Some r', s')
       else if \<not> resolved then ((404, JsonErr (msg_approval_not_found aid)), Some r', s')
       else ((200, ApprovalResponse aid body), Some r', s')) = ((status, resp), reg', sends)"
    using assms(1) True a e(1) res if_not_P [OF e(2)] unfolding assms(2)
    by (simp add: handle_tool_approvals_def Let_def del: parse_action.simps de_Morgan_conj split del: if_split)
  note rp = resolve_parsed [OF a res]
  have b: "body \<in> {''approve'', ''deny'', ''cancel''}" using a by (auto split: if_splits)
  show ?thesis
  proof (cases resolved)
    case rT: True
    with rp(1,2) have "\<not> gone" by auto
    with rT out have o: "status = 200" "resp = ApprovalResponse aid body" "sends = s'" by auto
    have "s' = [(aid, snd (the (action_effect action)))]" by (rule rp(4) [OF rT])
    moreover have "snd (the (action_effect action)) = \<lparr>o_approved = (body = ''approve''),
        o_reason = (if body = ''approve'' then ''approved'' else if body = ''deny'' then ''user'' else ''cancel'')\<rparr>"
      using a by (auto split: if_splits)
    ultimately show ?thesis using True b e o rp(1) rT by (auto simp: get_entry_def simp del: parse_action.simps)
  next
    case False
    with out rp(3) have "status \<noteq> 200" "sends = []" "reg' = Some (env r)"
      by (auto split: if_splits)
    with rp(1) False show ?thesis by (auto simp: get_entry_def)
  qed
qed

theorem handle_tool_approvals_effect_witness:
  "\<exists>resp reg'. handle_tool_approvals ''POST'' ''/api/v1/tool-approvals/a1'' (Inr ''approve'') None
       (\<lambda>r. r) (Some (sy_reg demo_request)) =
     ((200, resp), reg', [(''a1'', \<lparr>o_approved = True, o_reason = ''approved''\<rparr>)])"
proof -
  let ?p = "''/api/v1/tool-approvals/a1''"
  have p: "approval_id_of_path ?p = ''a1''" "valid_entity_id ''a1''"
    by (simp_all add: approval_id_of_path_def trim_prefix_def trim_suffix_def suffix_def
        valid_entity_id_def contains_any_def)
  obtain e where e: "get_entry ''a1'' (sy_reg demo_request) = Some e" "\<not> RequiresAdmin e"
      "ent_state e = Pending"
    by (simp add: get_entry_def demo_request_def sys_init_def new_approval_registry_def
        request_approval_def pending_entries_def mk_entry_def Let_def)
  obtain status resp reg' sends where h: "handle_tool_approvals ''POST'' ?p (Inr ''approve'') None (\<lambda>r. r)
      (Some (sy_reg demo_request)) = ((status, resp), reg', sends)" by (metis surj_pair)
  from handle_tool_approvals_effect [OF h refl] e p
  have "status = 200" by simp
  with handle_tool_approvals_effect [OF h refl] h p show ?thesis by simp
qed

section \<open>The agent loop's adapter\<close>

record ws_conn =
  wc_role :: string
  wc_userID :: string
  wc_sendCh :: "string list"
  wc_cap :: nat
  wc_dropped :: int
  wc_done :: bool

record 'a approval_frame =
  fr_type :: string
  fr_ApprovalId :: string
  fr_ToolCallId :: string
  fr_ToolName :: string
  fr_Args :: "(string, 'a) gomap"
  fr_AgentId :: string
  fr_SessionId :: string
  fr_TurnId :: string
  fr_ExpiresInMs :: int

text \<open>
  \<open>broadcastToolApprovalRequired\<close>; \<open>marshal\<close> is \<open>json.Marshal\<close>, which may fail. A send on a
  full buffer is dropped and counted.
\<close>

definition ws_push :: "string \<Rightarrow> ws_conn \<Rightarrow> ws_conn" where
  "ws_push raw wc =
     (if length (wc_sendCh wc) < wc_cap wc then wc\<lparr>wc_sendCh := wc_sendCh wc @ [raw]\<rparr>
      else wc\<lparr>wc_dropped := wc_dropped wc + 1\<rparr>)"

definition broadcast_tool_approval_required ::
  "('a approval_frame \<Rightarrow> string option) \<Rightarrow> time \<Rightarrow> 'a approval_entry option \<Rightarrow> ws_conn list \<Rightarrow> ws_conn list" where
  "broadcast_tool_approval_required marshal now entry conns =
     (case entry of None \<Rightarrow> conns
      | Some e \<Rightarrow>
        (case marshal \<lparr>fr_type = ''tool_approval_required'', fr_ApprovalId = ApprovalID e,
             fr_ToolCallId = ToolCallID e, fr_ToolName = ToolName e,
             fr_Args = (case Args e of None \<Rightarrow> [] | Some m \<Rightarrow> m), fr_AgentId = AgentID e,
             fr_SessionId = SessionID e, fr_TurnId = TurnID e, fr_ExpiresInMs = expires_in_ms now e\<rparr> of
           None \<Rightarrow> conns
         | Some raw \<Rightarrow>
             map (\<lambda>wc. if wc_role wc \<noteq> UserRoleAdmin \<and> wc_userID wc \<noteq> AgentID e then wc
                       else ws_push raw wc) conns))"

text \<open>
  \<open>emitSessionState\<close> on one connection. \<open>pick_done\<close> is Go's choice in the select when both the
  send and the closed \<open>doneCh\<close> are ready; \<open>registry\<close> is \<^const>\<open>None\<close> when it is nil.
\<close>

record pending_info =
  pi_ApprovalId :: string
  pi_SessionId :: string
  pi_ToolName :: string
  pi_AgentId :: string
  pi_ExpiresInMs :: int

record session_state_frame =
  ss_type :: string
  ss_UserId :: string
  ss_PendingApprovals :: "pending_info list"
  ss_EmittedAt :: string

definition session_state_frame_for ::
  "string \<Rightarrow> time \<Rightarrow> 'a approval_registry option \<Rightarrow> ws_conn \<Rightarrow> session_state_frame" where
  "session_state_frame_for emitted now reg wc =
     \<lparr>ss_type = ''session_state'', ss_UserId = wc_userID wc,
      ss_PendingApprovals =
        (case reg of None \<Rightarrow> []
         | Some r \<Rightarrow>
             map (\<lambda>e. \<lparr>pi_ApprovalId = ApprovalID e, pi_SessionId = SessionID e,
                        pi_ToolName = ToolName e, pi_AgentId = AgentID e,
                        pi_ExpiresInMs = expires_in_ms now e\<rparr>)
               (filter (\<lambda>e. wc_role wc = UserRoleAdmin) (pending_approvals now r))),
      ss_EmittedAt = emitted\<rparr>"

definition emit_session_state ::
  "(session_state_frame \<Rightarrow> string option) \<Rightarrow> bool \<Rightarrow> string \<Rightarrow> time \<Rightarrow> 'a approval_registry option \<Rightarrow>
     ws_conn \<Rightarrow> ws_conn" where
  "emit_session_state marshal pick_done emitted now reg wc =
     (case marshal (session_state_frame_for emitted now reg wc) of
        None \<Rightarrow> wc
      | Some raw \<Rightarrow>
          (let can_send = length (wc_sendCh wc) < wc_cap wc in
           if can_send \<and> \<not> (wc_done wc \<and> pick_done) then wc\<lparr>wc_sendCh := wc_sendCh wc @ [raw]\<rparr>
           else if wc_done wc then wc
           else wc\<lparr>wc_dropped := wc_dropped wc + 1\<rparr>))"

text \<open>
  \<open>RequestApproval\<close> of the adapter in two parts: what it does before it blocks, and what it does
  when the select wakes it up.
\<close>

definition approver_start ::
  "('a approval_frame \<Rightarrow> string option) \<Rightarrow> string \<Rightarrow> time \<Rightarrow> string \<Rightarrow> string \<Rightarrow> (string, 'a) gomap option \<Rightarrow>
     string \<Rightarrow> string \<Rightarrow> string \<Rightarrow> bool \<Rightarrow> 'a approval_registry \<Rightarrow> ws_conn list \<Rightarrow>
     'a approval_entry \<times> 'a approval_registry \<times> send list \<times> ws_conn list" where
  "approver_start marshal aid now tcall tool args agent session turn admin r conns =
     (case request_approval aid now tcall tool args agent session turn admin r of
        (entry, accepted, r', sends) \<Rightarrow>
          (entry, r', sends,
           if accepted then broadcast_tool_approval_required marshal now (Some entry) conns else conns))"

datatype wake_up = OutcomeReceived approval_outcome | ContextDone

fun approver_finish ::
  "'a approval_entry \<Rightarrow> wake_up \<Rightarrow> 'a approval_registry \<Rightarrow>
     (bool \<times> string) \<times> 'a approval_registry \<times> send list" where
  "approver_finish entry (OutcomeReceived out) r = ((o_approved out, o_reason out), r, [])"
| "approver_finish entry ContextDone r = ((False, ''cancel''), snd (resolve (ApprovalID entry) Cancel r))"

lemma ws_push_capacity: "length (wc_sendCh (ws_push raw wc)) \<le> max (wc_cap wc) (length (wc_sendCh wc))"
  by (simp add: ws_push_def)

text \<open>
  Approval requests are disclosed only in scope. A broadcast changes the queue of a connection
  only if its user is an admin or its user id equals the entry's agent id, and then by at most one
  frame at its end; and the session state sent to a connection that is not an admin's lists no
  pending approval.
\<close>

theorem approvals_disclosed_in_scope:
  assumes "i < length conns"
    and "wc_sendCh (broadcast_tool_approval_required marshal now (Some e) conns ! i) \<noteq> wc_sendCh (conns ! i)"
  shows "(wc_role (conns ! i) = UserRoleAdmin \<or> wc_userID (conns ! i) = AgentID e) \<and>
    (\<exists>raw. wc_sendCh (broadcast_tool_approval_required marshal now (Some e) conns ! i)
        = wc_sendCh (conns ! i) @ [raw]) \<and>
    (wc_role wc \<noteq> UserRoleAdmin \<longrightarrow>
       ss_PendingApprovals (session_state_frame_for emitted now' reg wc) = [])"
  using assms
  by (auto simp: broadcast_tool_approval_required_def ws_push_def session_state_frame_for_def
      split: option.splits if_splits)

theorem approvals_disclosed_in_scope_witness:
  "let e = mk_entry ''a1'' ''c1'' ''exec'' (None :: (string, nat) gomap option) ''bot'' ''s1'' ''t1'' False 0
         (Some 5) Pending True;
       wc = \<lparr>wc_role = ''admin'', wc_userID = ''u'', wc_sendCh = [], wc_cap = 4, wc_dropped = 0, wc_done = False\<rparr>
   in wc_role wc = UserRoleAdmin \<or> wc_userID wc = AgentID e"
proof -
  let ?e = "mk_entry ''a1'' ''c1'' ''exec'' (None :: (string, nat) gomap option) ''bot'' ''s1'' ''t1'' False 0
      (Some 5) Pending True"
  let ?wc = "\<lparr>wc_role = ''admin'', wc_userID = ''u'', wc_sendCh = [], wc_cap = 4, wc_dropped = 0, wc_done = False\<rparr>"
  have "wc_sendCh (broadcast_tool_approval_required (\<lambda>_. Some ''x'') 0 (Some ?e) [?wc] ! 0) \<noteq> wc_sendCh ([?wc] ! 0)"
    by (simp add: broadcast_tool_approval_required_def ws_push_def UserRoleAdmin_def)
  from approvals_disclosed_in_scope [THEN conjunct1, OF _ this] show ?thesis by (simp add: Let_def)
qed

text \<open>
  A cancelled turn leaves no approval behind: when the agent loop's context ends first, the
  call returns not approved with reason cancel, its approval is no longer pending, and every
  other approval is untouched.
\<close>

theorem cancelled_turn_leaves_nothing_pending:
  assumes "registry_wf r"
    and "approver_finish entry ContextDone r = (answer, r', sends)"
  shows "answer = (False, ''cancel'') \<and> pending_ids r' = pending_ids r - {ApprovalID entry} \<and>
    (\<forall>aid. aid = ApprovalID entry \<or> map_of (r_entries r') aid = map_of (r_entries r) aid)"
proof -
  have op: "snd (resolve (ApprovalID entry) Cancel r) = (r', sends)" and a: "answer = (False, ''cancel'')"
    using assms(2) by simp_all
  have s: "settles r r' sends" by (rule resolve_op.op_settles [OF assms(1) op])
  have ids: "set (map fst sends) = {ApprovalID entry} \<inter> pending_ids r"
    using op by (auto simp: resolve_result pending_ids_def split: option.splits if_splits)
  have "pending_ids r' = pending_ids r - {ApprovalID entry}"
    using settles_pending_ids [OF s] unfolding ids by blast
  moreover have "map_of (r_entries r') aid = map_of (r_entries r) aid" if "aid \<noteq> ApprovalID entry" for aid
    using s that ids unfolding settles_def by blast
  ultimately show ?thesis using a by blast
qed

theorem cancelled_turn_leaves_nothing_pending_witness:
  "\<exists>e r' sends. approver_finish e ContextDone (sy_reg demo_request) = ((False, ''cancel''), r', sends) \<and>
     ''a1'' \<notin> pending_ids r'"
proof -
  let ?e = "mk_entry ''a1'' ''c1'' ''exec'' None ''bot'' ''s1'' ''t1'' False 5 None Pending True :: string approval_entry"
  obtain ans r' sends where f: "approver_finish ?e ContextDone (sy_reg demo_request) = (ans, r', sends)"
    by (metis prod_cases3)
  have "registry_wf (sy_reg demo_request)"
    using inv_reachable [OF demo_request_reachable] by (simp add: sys_inv_def)
  from cancelled_turn_leaves_nothing_pending [OF this f]
  have "ans = (False, ''cancel'')" "''a1'' \<notin> pending_ids r'" by (auto simp: mk_entry_def)
  with f show ?thesis by blast
qed

end
