(* ===== verification/Window_Limit.thy ===== *)
theory Window_Limit
  imports Go_Prelude
begin

text \<open>
  The contract that the repository's sliding-window rate limiters share. Each of them keeps the
  times of the calls it admitted, drops those that have left the window and admits a call when
  fewer than its limit remain. They differ in what expires (strictly or not), in how they drop
  and in what else they require; theory Rate_Limits instantiates the contract for each.
\<close>

section \<open>Runs of a limiter\<close>

text \<open>A trace lists the calls with their labels, clock values and verdicts, oldest first.\<close>

fun run_limiter ::
  "('l \<Rightarrow> time \<Rightarrow> 's \<Rightarrow> bool \<times> 's) \<Rightarrow> ('l \<times> time) list \<Rightarrow> 's \<Rightarrow> (('l \<times> time) \<times> bool) list \<times> 's" where
  "run_limiter step [] s = ([], s)"
| "run_limiter step ((l, t) # calls) s =
     (let (b, s1) = step l t s; (tr, s2) = run_limiter step calls s1 in (((l, t), b) # tr, s2))"

definition admitted :: "('l \<Rightarrow> bool) \<Rightarrow> (('l \<times> time) \<times> bool) list \<Rightarrow> time list" where
  "admitted mine tr = [t. ((l, t), b) \<leftarrow> tr, b \<and> mine l]"

definition clock_ordered :: "('l \<times> time) list \<Rightarrow> bool" where
  "clock_ordered calls \<longleftrightarrow> sorted (map snd calls)"

lemma admitted_simps [simp]:
  "admitted mine [] = []"
  "admitted mine (((l, t), b) # tr) = (if b \<and> mine l then t # admitted mine tr else admitted mine tr)"
  by (simp_all add: admitted_def)

lemma clock_ordered_simps [simp]:
  "clock_ordered []"
  "clock_ordered (c # calls) \<longleftrightarrow> (\<forall>d \<in> set calls. snd c \<le> snd d) \<and> clock_ordered calls"
  by (auto simp: clock_ordered_def)

section \<open>The contract\<close>

text \<open>
  \<open>live now t\<close>: an admission at \<open>t\<close> is still in the window at \<open>now\<close>. \<open>mine\<close> selects the
  calls that are charged to the window under consideration (one key of a limiter that has many).
  \<open>ok\<close> is the implementation's invariant.
\<close>

locale window_limiter =
  fixes step :: "'l \<Rightarrow> time \<Rightarrow> 's \<Rightarrow> bool \<times> 's"
    and ok :: "'s \<Rightarrow> bool" and mine :: "'l \<Rightarrow> bool" and live :: "time \<Rightarrow> time \<Rightarrow> bool"
    and limit :: nat and events :: "'s \<Rightarrow> time list"
  assumes step_ok: "ok s \<Longrightarrow> step l now s = (b, s') \<Longrightarrow> ok s'"
    and step_mine: "ok s \<Longrightarrow> mine l \<Longrightarrow> sorted (events s) \<Longrightarrow> \<forall>t \<in> set (events s). t \<le> now \<Longrightarrow>
      step l now s = (b, s') \<Longrightarrow>
        events s' = filter (live now) (events s) @ (if b then [now] else []) \<and>
        (b \<longrightarrow> length (filter (live now) (events s)) < limit)"
    and step_other: "ok s \<Longrightarrow> \<not> mine l \<Longrightarrow> step l now s = (b, s') \<Longrightarrow> events s' = events s"
    and live_mono: "live now' t \<Longrightarrow> now \<le> now' \<Longrightarrow> live now t"
begin

text \<open>The window of the state and the full history of admissions agree on what is live.\<close>

definition represents :: "time list \<Rightarrow> 's \<Rightarrow> time \<Rightarrow> bool" where
  "represents h s prev \<longleftrightarrow> ok s \<and> sorted (events s) \<and> sorted h \<and>
     (\<forall>t \<in> set h \<union> set (events s). t \<le> prev) \<and>
     (\<forall>now \<ge> prev. filter (live now) (events s) = filter (live now) h) \<and>
     (\<forall>now. length (filter (\<lambda>t. t \<le> now \<and> live now t) h) \<le> limit)"

lemma represents_later: "represents h s prev \<Longrightarrow> prev \<le> now \<Longrightarrow> represents h s now"
  unfolding represents_def by (meson order_trans)

lemma filter_live_live:
  "now \<le> now' \<Longrightarrow> filter (live now') (filter (live now) ts) = filter (live now') ts"
  by (auto intro: filter_cong dest: live_mono)

lemma represents_step:
  assumes r: "represents h s now" and st: "step l now s = (b, s')"
  shows "represents (if b \<and> mine l then h @ [now] else h) s' now"
proof (cases "mine l")
  case False
  with step_other [of s l now b s'] step_ok [of s l now b s'] r st show ?thesis
    by (simp add: represents_def)
next
  case True
  have k: "ok s" "sorted (events s)" "sorted h" "\<forall>t \<in> set h \<union> set (events s). t \<le> now"
    and same: "\<And>n. n \<ge> now \<Longrightarrow> filter (live n) (events s) = filter (live n) h"
    and bnd: "\<And>n. length (filter (\<lambda>t. t \<le> n \<and> live n t) h) \<le> limit"
    using r by (auto simp: represents_def)
  have ev: "events s' = filter (live now) (events s) @ (if b then [now] else [])"
    and lt: "b \<Longrightarrow> length (filter (live now) (events s)) < limit"
    using step_mine [OF k(1) True k(2) _ st] k(4) by auto
  let ?h = "if b \<and> mine l then h @ [now] else h"
  have "sorted (events s')" using k(2,4) by (auto simp: ev sorted_append sorted_wrt_filter)
  moreover have "sorted ?h" using k(3,4) by (auto simp: sorted_append)
  moreover have "\<forall>t \<in> set ?h \<union> set (events s'). t \<le> now" using k(4) by (auto simp: ev)
  moreover have "filter (live n) (events s') = filter (live n) ?h" if "n \<ge> now" for n
    using filter_live_live [OF that, of "events s"] same [OF that] True by (simp add: ev)
  moreover have "length (filter (\<lambda>t. t \<le> n \<and> live n t) ?h) \<le> limit" for n
  proof (cases "b \<and> n \<ge> now")
    case True
    then have "length (filter (live now) h) < limit" using lt same [of now] by simp
    moreover have "length (filter (\<lambda>t. t \<le> n \<and> live n t) h) \<le> length (filter (live now) h)"
      using True live_mono by (induction h) auto
    ultimately show ?thesis by auto
  qed (use bnd [of n] in auto)
  ultimately show ?thesis using step_ok [OF k(1) st] by (simp add: represents_def)
qed

lemma run_represents:
  "represents h s prev \<Longrightarrow> clock_ordered calls \<Longrightarrow> \<forall>c \<in> set calls. prev \<le> snd c \<Longrightarrow>
   run_limiter step calls s = (tr, s') \<Longrightarrow> \<exists>prev'. represents (h @ admitted mine tr) s' prev'"
proof (induction calls arbitrary: h s prev tr)
  case (Cons c calls)
  obtain l t where c: "c = (l, t)" by fastforce
  obtain b s1 where st: "step l t s = (b, s1)" by fastforce
  obtain tr1 where run: "run_limiter step calls s1 = (tr1, s')" and tr: "tr = ((l, t), b) # tr1"
    using Cons.prems(4) by (auto simp: c st split: prod.splits)
  have "represents h s t" using Cons.prems(1,3) represents_later by (simp add: c)
  from represents_step [OF this st] Cons.IH [OF _ _ _ run] Cons.prems(2)
  have "\<exists>prev'. represents ((if b \<and> mine l then h @ [t] else h) @ admitted mine tr1) s' prev'"
    by (simp add: c)
  moreover have "(if b \<and> mine l then h @ [t] else h) @ admitted mine tr1 = h @ admitted mine tr"
    by (simp add: tr)
  ultimately show ?case by simp
qed auto

lemma represents_fresh: "ok s \<Longrightarrow> events s = [] \<Longrightarrow> represents [] s prev"
  by (simp add: represents_def)

text \<open>At no time does the window that ends there hold more admissions than the limit.\<close>

lemma window_bound:
  assumes "ok s" and "events s = []" and "clock_ordered calls" and "run_limiter step calls s = (tr, s')"
  shows "length (filter (\<lambda>t. t \<le> now \<and> live now t) (admitted mine tr)) \<le> limit"
proof -
  have "\<forall>c \<in> set calls. Min (snd ` set calls) \<le> snd c" by (intro ballI Min_le) simp_all
  from run_represents [OF represents_fresh [OF assms(1,2)] assms(3) this assms(4)]
  show ?thesis by (auto simp: represents_def)
qed

end

text \<open>A limiter that also never refuses a call that fits.\<close>

locale exact_limiter = window_limiter +
  assumes step_fits: "ok s \<Longrightarrow> mine l \<Longrightarrow> sorted (events s) \<Longrightarrow> \<forall>t \<in> set (events s). t \<le> now \<Longrightarrow>
      length (filter (live now) (events s)) < limit \<Longrightarrow> fst (step l now s)"
begin

lemma exact_step:
  assumes "represents h s now" and "mine l"
  shows "fst (step l now s) \<longleftrightarrow> length (filter (live now) h) < limit"
proof -
  obtain b s' where st: "step l now s = (b, s')" by fastforce
  have k: "ok s" "sorted (events s)" "\<forall>t \<in> set (events s). t \<le> now"
    "filter (live now) (events s) = filter (live now) h"
    using assms(1) by (auto simp: represents_def)
  from step_mine [OF k(1) assms(2) k(2,3) st] step_fits [OF k(1) assms(2) k(2,3)] st k(4)
  show ?thesis by auto
qed

text \<open>Each verdict is the one the full history of admissions calls for.\<close>

lemma run_exact:
  "represents h s prev \<Longrightarrow> clock_ordered calls \<Longrightarrow> \<forall>c \<in> set calls. prev \<le> snd c \<Longrightarrow>
   run_limiter step calls s = (tr, s') \<Longrightarrow> tr = pre @ ((l, t), b) # post \<Longrightarrow> mine l \<Longrightarrow>
   b \<longleftrightarrow> length (filter (live t) (h @ admitted mine pre)) < limit"
proof (induction calls arbitrary: h s prev tr pre)
  case (Cons c calls)
  obtain l0 t0 where c: "c = (l0, t0)" by fastforce
  obtain b0 s1 where st: "step l0 t0 s = (b0, s1)" by fastforce
  obtain tr1 where run: "run_limiter step calls s1 = (tr1, s')" and tr: "tr = ((l0, t0), b0) # tr1"
    using Cons.prems(4) by (auto simp: c st split: prod.splits)
  have r: "represents h s t0" using Cons.prems(1,3) represents_later by (simp add: c)
  show ?case
  proof (cases pre)
    case Nil
    then show ?thesis using exact_step [OF r, of l] Cons.prems(5,6) st by (simp add: tr)
  next
    case (Cons p pre1)
    let ?h1 = "if b0 \<and> mine l0 then h @ [t0] else h"
    have h1: "?h1 @ admitted mine pre1 = h @ admitted mine pre"
      using Cons.prems(5) unfolding tr Cons by (cases p) auto
    have "b \<longleftrightarrow> length (filter (live t) (?h1 @ admitted mine pre1)) < limit"
      by (rule Cons.IH [OF represents_step [OF r st] _ _ run])
        (use Cons.prems Cons in \<open>auto simp: c tr\<close>)
    then show ?thesis unfolding h1 .
  qed
qed simp

end

end
