(* ===== verification/Rate_Limits.thy ===== *)
theory Rate_Limits
  imports Window_Limit
begin

text \<open>
  The rate limiters: pkg/security/ratelimit.go (sliding windows and their registry),
  pkg/sysagent/ratelimit.go (per-category limits of the system tools),
  pkg/tools/memory_rate_limit.go (two-bucket limit on memory writes) and the per-IP limiter of
  pkg/gateway/rest_auth.go. Each is an instance of the contract of theory Window_Limit. The
  mutex of each limiter makes a call one atomic step; a clock reading is an argument. A message
  built with \<open>Sprintf\<close> is represented by its arguments.
\<close>

lemma dropWhile_sorted_filter:
  "sorted ts \<Longrightarrow> dropWhile (\<lambda>t. t < c) ts = filter (\<lambda>t. \<not> t < c) (ts :: int list)"
proof (induction ts)
  case (Cons a ts)
  then have "\<not> a < c \<Longrightarrow> filter (\<lambda>t. \<not> t < c) ts = ts" by (auto simp: filter_id_conv)
  with Cons show ?case by auto
qed simp

section \<open>Sliding windows (pkg/security)\<close>

definition is_privileged_agent :: "string \<Rightarrow> bool" where
  "is_privileged_agent agent_type \<longleftrightarrow> agent_type = ''core'' \<or> agent_type = ''system''"

type_synonym rate_limit_scope = string

definition ScopeAgent :: rate_limit_scope where "ScopeAgent = ''agent''"
definition ScopeChannel :: rate_limit_scope where "ScopeChannel = ''channel''"
definition ScopeGlobal :: rate_limit_scope where "ScopeGlobal = ''global''"

datatype policy_rule =
    NoRule
  | WindowRule string int duration rate_limit_scope string
  | PrivilegedExempt
  | CostCapRule real

record rate_limit_result =
  rl_Allowed :: bool
  rl_RetryAfterSeconds :: real
  rl_PolicyRule :: policy_rule

record sliding_window =
  sw_events :: "time list"
  sw_maxCount :: int
  sw_windowSize :: duration
  sw_scope :: rate_limit_scope
  sw_scopeID :: string
  sw_resource :: string

definition seconds_of :: "duration \<Rightarrow> real" where
  "seconds_of d = real_of_int d / 1000000000"

definition new_sliding_window :: "int \<Rightarrow> duration \<Rightarrow> rate_limit_scope \<Rightarrow> string \<Rightarrow> string \<Rightarrow> sliding_window" where
  "new_sliding_window limit window scope scopeID resource =
     \<lparr>sw_events = [], sw_maxCount = limit, sw_windowSize = window, sw_scope = scope,
      sw_scopeID = scopeID, sw_resource = resource\<rparr>"

text \<open>\<open>allowAt\<close>; \<^const>\<open>None\<close> is the index panic on \<open>events[0]\<close> of an empty window.\<close>

definition allow_at :: "time \<Rightarrow> sliding_window \<Rightarrow> (rate_limit_result \<times> sliding_window) option" where
  "allow_at now sw =
     (let cutoff = now - sw_windowSize sw;
          events = dropWhile (\<lambda>t. t < cutoff) (sw_events sw) in
      if int (length events) < sw_maxCount sw then
        Some (\<lparr>rl_Allowed = True, rl_RetryAfterSeconds = 0, rl_PolicyRule = NoRule\<rparr>,
              sw\<lparr>sw_events := events @ [now]\<rparr>)
      else case events of
        [] \<Rightarrow> None
      | oldest # _ \<Rightarrow>
          (let retry_after = seconds_of (oldest + sw_windowSize sw - now) in
           Some (\<lparr>rl_Allowed = False,
                  rl_RetryAfterSeconds = (if retry_after < 1 / 1000 then 1 / 1000 else retry_after),
                  rl_PolicyRule = WindowRule (sw_resource sw) (sw_maxCount sw) (sw_windowSize sw)
                                    (sw_scope sw) (sw_scopeID sw)\<rparr>,
                 sw\<lparr>sw_events := events\<rparr>)))"

definition window_step :: "unit \<Rightarrow> time \<Rightarrow> sliding_window \<Rightarrow> bool \<times> sliding_window" where
  "window_step u now sw =
     (case allow_at now sw of None \<Rightarrow> (False, sw) | Some (res, sw') \<Rightarrow> (rl_Allowed res, sw'))"

definition window_ok :: "int \<Rightarrow> duration \<Rightarrow> sliding_window \<Rightarrow> bool" where
  "window_ok n w sw \<longleftrightarrow> 0 < n \<and> sw_maxCount sw = n \<and> sw_windowSize sw = w"

definition live_from :: "duration \<Rightarrow> time \<Rightarrow> time \<Rightarrow> bool" where
  "live_from w now t \<longleftrightarrow> \<not> t < now - w"

lemma live_from_mono: "live_from w now' t \<Longrightarrow> now \<le> now' \<Longrightarrow> live_from w now t"
  by (simp add: live_from_def)

text \<open>What one call does to a well-configured window; in particular it does not panic.\<close>

lemma allow_at_spec:
  assumes "window_ok n w sw" and "sorted (sw_events sw)"
  shows "\<exists>res sw'. allow_at now sw = Some (res, sw') \<and> window_ok n w sw' \<and>
    sw_events sw' = filter (live_from w now) (sw_events sw) @ (if rl_Allowed res then [now] else []) \<and>
    (rl_Allowed res \<longleftrightarrow> length (filter (live_from w now) (sw_events sw)) < nat n) \<and>
    (\<not> rl_Allowed res \<longrightarrow> rl_RetryAfterSeconds res > 0)"
proof -
  have d: "dropWhile (\<lambda>t. t < now - sw_windowSize sw) (sw_events sw) = filter (live_from w now) (sw_events sw)"
    using assms by (simp add: dropWhile_sorted_filter live_from_def [abs_def] window_ok_def)
  show ?thesis
  proof (cases "filter (live_from w now) (sw_events sw)")
    case Nil
    with assms(1) show ?thesis unfolding allow_at_def Let_def d by (simp add: window_ok_def)
  next
    case (Cons a ts)
    with assms(1) show ?thesis
      unfolding allow_at_def Let_def d by (auto simp: window_ok_def)
  qed
qed

interpretation sliding: exact_limiter window_step "window_ok n w" "\<lambda>_. True" "live_from w" "nat n" sw_events
  for n w
proof
  fix s s' :: sliding_window and l now b
  assume "window_ok n w s" "window_step l now s = (b, s')"
  then show "window_ok n w s'"
    by (auto simp: window_step_def allow_at_def window_ok_def Let_def
        split: option.splits list.splits if_splits)
next
  fix s s' :: sliding_window and l now b
  assume "window_ok n w s" "sorted (sw_events s)" "window_step l now s = (b, s')"
  then show "sw_events s' = filter (live_from w now) (sw_events s) @ (if b then [now] else []) \<and>
      (b \<longrightarrow> length (filter (live_from w now) (sw_events s)) < nat n)"
    using allow_at_spec [of n w s now] by (auto simp: window_step_def)
next
  fix s l now
  assume "window_ok n w s" "sorted (sw_events s)"
    "length (filter (live_from w now) (sw_events s)) < nat n"
  then show "fst (window_step l now s)"
    using allow_at_spec [of n w s now] by (auto simp: window_step_def)
qed (auto simp: live_from_def)

section \<open>The registry of windows\<close>

record rate_limiter_registry =
  rr_windows :: "(string, sliding_window) gomap"
  rr_dailyCostUSD :: real
  rr_dailyCostCap :: real
  rr_costDay :: string

definition new_rate_limiter_registry :: rate_limiter_registry where
  "new_rate_limiter_registry =
     \<lparr>rr_windows = [], rr_dailyCostUSD = 0, rr_dailyCostCap = 0, rr_costDay = ''''\<rparr>"

definition get_or_create ::
  "string \<Rightarrow> int \<Rightarrow> duration \<Rightarrow> rate_limit_scope \<Rightarrow> string \<Rightarrow> string \<Rightarrow> rate_limiter_registry \<Rightarrow>
     sliding_window \<times> rate_limiter_registry" where
  "get_or_create key limit window scope scopeID resource r =
     (case map_of (rr_windows r) key of
        Some sw \<Rightarrow> (sw, r)
      | None \<Rightarrow>
          (let sw = new_sliding_window limit window scope scopeID resource
           in (sw, r\<lparr>rr_windows := AList.update key sw (rr_windows r)\<rparr>)))"

text \<open>\<open>GetOrCreate(...).Allow()\<close>, as the agent loop calls it: the window is updated in place.\<close>

record window_config =
  wcfg_limit :: int
  wcfg_window :: duration
  wcfg_scope :: rate_limit_scope
  wcfg_scopeID :: string
  wcfg_resource :: string

definition registry_allow ::
  "(string \<Rightarrow> window_config) \<Rightarrow> string \<Rightarrow> time \<Rightarrow> rate_limiter_registry \<Rightarrow>
     (rate_limit_result \<times> rate_limiter_registry) option" where
  "registry_allow cfg key now r =
     (let c = cfg key;
          (sw, r1) = get_or_create key (wcfg_limit c) (wcfg_window c) (wcfg_scope c) (wcfg_scopeID c)
                       (wcfg_resource c) r
      in map_option (\<lambda>(res, sw'). (res, r1\<lparr>rr_windows := AList.update key sw' (rr_windows r1)\<rparr>))
           (allow_at now sw))"

definition registry_step ::
  "(string \<Rightarrow> window_config) \<Rightarrow> string \<Rightarrow> time \<Rightarrow> rate_limiter_registry \<Rightarrow> bool \<times> rate_limiter_registry" where
  "registry_step cfg key now r =
     (case registry_allow cfg key now r of None \<Rightarrow> (False, r) | Some (res, r') \<Rightarrow> (rl_Allowed res, r'))"

definition registry_events :: "string \<Rightarrow> rate_limiter_registry \<Rightarrow> time list" where
  "registry_events key r = (case map_of (rr_windows r) key of None \<Rightarrow> [] | Some sw \<Rightarrow> sw_events sw)"

definition registry_ok :: "(string \<Rightarrow> window_config) \<Rightarrow> string \<Rightarrow> rate_limiter_registry \<Rightarrow> bool" where
  "registry_ok cfg key r \<longleftrightarrow> 0 < wcfg_limit (cfg key) \<and>
     (\<forall>sw. map_of (rr_windows r) key = Some sw \<longrightarrow>
        window_ok (wcfg_limit (cfg key)) (wcfg_window (cfg key)) sw)"

text \<open>The window that a call on \<open>key\<close> works on, and the call in terms of it.\<close>

definition key_window :: "(string \<Rightarrow> window_config) \<Rightarrow> string \<Rightarrow> rate_limiter_registry \<Rightarrow> sliding_window" where
  "key_window cfg key r =
     (case map_of (rr_windows r) key of
        Some sw \<Rightarrow> sw
      | None \<Rightarrow> new_sliding_window (wcfg_limit (cfg key)) (wcfg_window (cfg key)) (wcfg_scope (cfg key))
                  (wcfg_scopeID (cfg key)) (wcfg_resource (cfg key)))"

lemma key_window_ok:
  "registry_ok cfg key r \<Longrightarrow> window_ok (wcfg_limit (cfg key)) (wcfg_window (cfg key)) (key_window cfg key r)"
  by (auto simp: registry_ok_def key_window_def window_ok_def new_sliding_window_def split: option.split)

lemma key_window_events: "sw_events (key_window cfg key r) = registry_events key r"
  by (simp add: key_window_def registry_events_def new_sliding_window_def split: option.split)

lemma registry_step_eq:
  "fst (registry_step cfg key now r) = fst (window_step () now (key_window cfg key r)) \<and>
   (\<forall>k. k \<noteq> key \<longrightarrow> map_of (rr_windows (snd (registry_step cfg key now r))) k = map_of (rr_windows r) k) \<and>
   (allow_at now (key_window cfg key r) \<noteq> None \<longrightarrow>
     map_of (rr_windows (snd (registry_step cfg key now r))) key
       = Some (snd (window_step () now (key_window cfg key r))))"
  by (auto simp: registry_step_def registry_allow_def window_step_def get_or_create_def key_window_def
      Let_def split: option.splits)

interpretation registry: exact_limiter "registry_step cfg" "registry_ok cfg key" "\<lambda>k. k = key"
    "live_from (wcfg_window (cfg key))" "nat (wcfg_limit (cfg key))" "registry_events key" for cfg key
proof
  fix s s' :: rate_limiter_registry and l now b
  assume ok: "registry_ok cfg key s" and st: "registry_step cfg l now s = (b, s')"
  have s': "s' = snd (registry_step cfg l now s)" using st by simp
  show "registry_ok cfg key s'"
  proof (cases "l = key \<and> allow_at now (key_window cfg key s) \<noteq> None")
    case True
    then have "map_of (rr_windows s') key = Some (snd (window_step () now (key_window cfg key s)))"
      using registry_step_eq [of cfg key now s] s' by simp
    moreover have "window_ok (wcfg_limit (cfg key)) (wcfg_window (cfg key))
        (snd (window_step () now (key_window cfg key s)))"
      by (rule sliding.step_ok [OF key_window_ok [OF ok] prod.collapse [symmetric]])
    ultimately show ?thesis using ok by (simp add: registry_ok_def)
  next
    case False
    have "map_of (rr_windows s') key = map_of (rr_windows s) key"
    proof (cases "l = key")
      case True
      with False have "allow_at now (key_window cfg key s) = None" by blast
      then have "registry_allow cfg key now s = None"
        by (auto simp: registry_allow_def get_or_create_def key_window_def Let_def split: option.split_asm)
      then show ?thesis using s' True by (simp add: registry_step_def)
    next
      case False
      then show ?thesis using registry_step_eq [of cfg l now s] s' by simp
    qed
    then show ?thesis using ok by (simp add: registry_ok_def)
  qed
next
  fix s s' :: rate_limiter_registry and l now b
  assume ok: "registry_ok cfg key s" and l: "l = key" and so: "sorted (registry_events key s)"
    and le: "\<forall>t \<in> set (registry_events key s). t \<le> now" and st: "registry_step cfg l now s = (b, s')"
  have so': "sorted (sw_events (key_window cfg key s))" using so by (simp add: key_window_events)
  from allow_at_spec [OF key_window_ok [OF ok] so', of now]
  have a: "allow_at now (key_window cfg key s) \<noteq> None" by auto
  have le': "\<forall>t \<in> set (sw_events (key_window cfg key s)). t \<le> now"
    using le by (simp only: key_window_events)
  have w: "window_step () now (key_window cfg key s) = (b, snd (window_step () now (key_window cfg key s)))"
    using registry_step_eq [THEN conjunct1, of cfg key now s] st l by (simp add: prod_eq_iff)
  note e = sliding.step_mine [OF key_window_ok [OF ok] TrueI so' le' w, unfolded key_window_events]
  have "s' = snd (registry_step cfg key now s)" using st l by simp
  then have "map_of (rr_windows s') key = Some (snd (window_step () now (key_window cfg key s)))"
    using registry_step_eq [of cfg key now s] a by blast
  then have "registry_events key s' = sw_events (snd (window_step () now (key_window cfg key s)))"
    by (simp only: registry_events_def option.case)
  then show "registry_events key s' = filter (live_from (wcfg_window (cfg key)) now) (registry_events key s) @
        (if b then [now] else []) \<and>
      (b \<longrightarrow> length (filter (live_from (wcfg_window (cfg key)) now) (registry_events key s))
         < nat (wcfg_limit (cfg key)))"
    using e by simp
next
  fix s s' :: rate_limiter_registry and l now b
  assume "l \<noteq> key" "registry_step cfg l now s = (b, s')"
  then show "registry_events key s' = registry_events key s"
    using registry_step_eq [of cfg l now s] by (simp add: registry_events_def)
next
  fix s l now
  assume ok: "registry_ok cfg key s" and l: "l = key" and so: "sorted (registry_events key s)"
    and le: "\<forall>t \<in> set (registry_events key s). t \<le> now"
    and lt: "length (filter (live_from (wcfg_window (cfg key)) now) (registry_events key s))
      < nat (wcfg_limit (cfg key))"
  show "fst (registry_step cfg l now s)"
    using sliding.step_fits [OF key_window_ok [OF ok], of now "()"] so le lt l
      registry_step_eq [of cfg key now s] by (simp add: key_window_events)
qed (auto simp: live_from_def)

section \<open>System tool limits (pkg/sysagent)\<close>

datatype rate_limit_category =
    RateCreate | RateDelete | RateConfig | RateList | RateChannel | RateBackup

definition tool_category :: "(string, rate_limit_category) gomap" where
  "tool_category =
     [(''system.agent.create'', RateCreate), (''system.project.create'', RateCreate),
      (''system.task.create'', RateCreate), (''system.skill.install'', RateCreate),
      (''system.mcp.add'', RateCreate), (''system.pin.create'', RateCreate),
      (''system.agent.delete'', RateDelete), (''system.project.delete'', RateDelete),
      (''system.task.delete'', RateDelete), (''system.skill.remove'', RateDelete),
      (''system.mcp.remove'', RateDelete), (''system.pin.delete'', RateDelete),
      (''system.config.set'', RateConfig), (''system.provider.configure'', RateConfig),
      (''system.agent.update'', RateConfig), (''system.project.update'', RateConfig),
      (''system.task.update'', RateConfig),
      (''system.agent.list'', RateList), (''system.agent.activate'', RateList),
      (''system.agent.deactivate'', RateList), (''system.project.list'', RateList),
      (''system.task.list'', RateList), (''system.skill.list'', RateList),
      (''system.skill.search'', RateList), (''system.mcp.list'', RateList),
      (''system.provider.list'', RateList), (''system.provider.test'', RateList),
      (''system.pin.list'', RateList), (''system.config.get'', RateList),
      (''system.doctor.run'', RateList), (''system.cost.query'', RateList),
      (''system.navigate'', RateList),
      (''system.channel.enable'', RateChannel), (''system.channel.configure'', RateChannel),
      (''system.channel.disable'', RateChannel), (''system.channel.list'', RateChannel),
      (''system.channel.test'', RateChannel),
      (''system.backup.create'', RateBackup)]"

record category_limit =
  cl_maxCalls :: int
  cl_window :: duration

definition category_limits :: "(rate_limit_category, category_limit) gomap" where
  "category_limits =
     [(RateCreate, \<lparr>cl_maxCalls = 30, cl_window = minute\<rparr>),
      (RateDelete, \<lparr>cl_maxCalls = 10, cl_window = minute\<rparr>),
      (RateConfig, \<lparr>cl_maxCalls = 10, cl_window = minute\<rparr>),
      (RateList, \<lparr>cl_maxCalls = 60, cl_window = minute\<rparr>),
      (RateChannel, \<lparr>cl_maxCalls = 5, cl_window = minute\<rparr>),
      (RateBackup, \<lparr>cl_maxCalls = 1, cl_window = 5 * minute\<rparr>)]"

record sys_window =
  sysw_events :: "time list"
  sysw_limit :: category_limit

definition new_sys_window :: "category_limit \<Rightarrow> sys_window" where
  "new_sys_window cl = \<lparr>sysw_events = [], sysw_limit = cl\<rparr>"

text \<open>
  \<open>slidingWindow.allow\<close>: the error, if any, carries the seconds to wait. \<^const>\<open>None\<close> is the
  index panic on \<open>events[0]\<close>.
\<close>

definition sys_allow :: "time \<Rightarrow> sys_window \<Rightarrow> (real option \<times> sys_window) option" where
  "sys_allow now w =
     (let cutoff = now - cl_window (sysw_limit w);
          kept = filter (\<lambda>t. t > cutoff) (sysw_events w) in
      if int (length kept) \<ge> cl_maxCalls (sysw_limit w) then
        (case kept of
           [] \<Rightarrow> None
         | oldest # _ \<Rightarrow>
             Some (Some (seconds_of (oldest + cl_window (sysw_limit w) - now)), w\<lparr>sysw_events := kept\<rparr>))
      else Some (None, w\<lparr>sysw_events := kept @ [now]\<rparr>))"

type_synonym system_rate_limiter = "(rate_limit_category, sys_window) gomap"

definition new_system_rate_limiter :: system_rate_limiter where
  "new_system_rate_limiter = map (\<lambda>(cat, cl). (cat, new_sys_window cl)) category_limits"

record rate_limited_error =
  rle_category :: rate_limit_category
  rle_retryAfter :: real

definition sys_check ::
  "string \<Rightarrow> time \<Rightarrow> system_rate_limiter \<Rightarrow> (rate_limited_error option \<times> system_rate_limiter) option" where
  "sys_check tool now rl =
     (case map_of tool_category tool of
        None \<Rightarrow> Some (None, rl)
      | Some cat \<Rightarrow>
          (case map_of rl cat of
             None \<Rightarrow> Some (None, rl)
           | Some w \<Rightarrow>
               map_option (\<lambda>(err, w'). (map_option (\<lambda>s. \<lparr>rle_category = cat, rle_retryAfter = s\<rparr>) err,
                   AList.update cat w' rl)) (sys_allow now w)))"

definition sys_step :: "string \<Rightarrow> time \<Rightarrow> system_rate_limiter \<Rightarrow> bool \<times> system_rate_limiter" where
  "sys_step tool now rl =
     (case sys_check tool now rl of None \<Rightarrow> (False, rl) | Some (err, rl') \<Rightarrow> (err = None, rl'))"

definition sys_events :: "rate_limit_category \<Rightarrow> system_rate_limiter \<Rightarrow> time list" where
  "sys_events cat rl = (case map_of rl cat of None \<Rightarrow> [] | Some w \<Rightarrow> sysw_events w)"

definition sys_ok :: "rate_limit_category \<Rightarrow> category_limit \<Rightarrow> system_rate_limiter \<Rightarrow> bool" where
  "sys_ok cat cl rl \<longleftrightarrow> cl_maxCalls cl > 0 \<and> (\<exists>w. map_of rl cat = Some w \<and> sysw_limit w = cl)"

definition live_after :: "duration \<Rightarrow> time \<Rightarrow> time \<Rightarrow> bool" where
  "live_after w now t \<longleftrightarrow> t > now - w"

lemma sys_allow_spec:
  assumes "cl_maxCalls (sysw_limit w) > 0"
  shows "\<exists>err w'. sys_allow now w = Some (err, w') \<and> sysw_limit w' = sysw_limit w \<and>
    sysw_events w' = filter (live_after (cl_window (sysw_limit w)) now) (sysw_events w) @
      (if err = None then [now] else []) \<and>
    (err = None \<longleftrightarrow> length (filter (live_after (cl_window (sysw_limit w)) now) (sysw_events w))
       < nat (cl_maxCalls (sysw_limit w)))"
proof -
  have f: "filter (\<lambda>t. t > now - cl_window (sysw_limit w)) (sysw_events w) =
      filter (live_after (cl_window (sysw_limit w)) now) (sysw_events w)"
    by (simp add: live_after_def [abs_def])
  show ?thesis
    using assms unfolding sys_allow_def Let_def f by (auto split: list.split)
qed

lemma sys_step_eq:
  assumes "sys_ok cat cl rl" and "map_of tool_category tool = Some cat"
  shows "\<exists>b w'. sys_step tool now rl = (b, AList.update cat w' rl) \<and> sysw_limit w' = cl \<and>
    sysw_events w' = filter (live_after (cl_window cl) now) (sys_events cat rl) @ (if b then [now] else []) \<and>
    (b \<longleftrightarrow> length (filter (live_after (cl_window cl) now) (sys_events cat rl)) < nat (cl_maxCalls cl))"
proof -
  obtain w where w: "map_of rl cat = Some w" "sysw_limit w = cl" "cl_maxCalls cl > 0"
    using assms(1) by (auto simp: sys_ok_def)
  then obtain err w' where a: "sys_allow now w = Some (err, w')" and
    r: "sysw_limit w' = sysw_limit w"
      "sysw_events w' = filter (live_after (cl_window (sysw_limit w)) now) (sysw_events w) @
        (if err = None then [now] else [])"
      "err = None \<longleftrightarrow> length (filter (live_after (cl_window (sysw_limit w)) now) (sysw_events w))
        < nat (cl_maxCalls (sysw_limit w))"
    using sys_allow_spec [of w now] by auto
  have "sys_step tool now rl = (err = None, AList.update cat w' rl)"
    using w a assms(2) by (simp add: sys_step_def sys_check_def)
  then show ?thesis using r w by (auto simp: sys_events_def)
qed

lemma sys_step_other:
  assumes "map_of tool_category tool \<noteq> Some cat" and "sys_step tool now rl = (b, rl')"
  shows "map_of rl' cat = map_of rl cat"
  using assms by (auto simp: sys_step_def sys_check_def split: option.splits)

interpretation system_tools: exact_limiter sys_step "sys_ok cat cl"
    "\<lambda>tool. map_of tool_category tool = Some cat" "live_after (cl_window cl)" "nat (cl_maxCalls cl)"
    "sys_events cat" for cat cl
proof
  fix s s' :: system_rate_limiter and l now b
  assume "sys_ok cat cl s" "sys_step l now s = (b, s')"
  then show "sys_ok cat cl s'"
    using sys_step_eq [of cat cl s l now] sys_step_other [of l cat now s b s']
    by (cases "map_of tool_category l = Some cat") (auto simp: sys_ok_def)
next
  fix s s' :: system_rate_limiter and l now b
  assume "sys_ok cat cl s" "map_of tool_category l = Some cat" "sys_step l now s = (b, s')"
  then show "sys_events cat s' = filter (live_after (cl_window cl) now) (sys_events cat s) @
        (if b then [now] else []) \<and>
      (b \<longrightarrow> length (filter (live_after (cl_window cl) now) (sys_events cat s)) < nat (cl_maxCalls cl))"
    using sys_step_eq [of cat cl s l now] by (auto simp: sys_events_def [of cat "AList.update _ _ _"])
next
  fix s s' :: system_rate_limiter and l now b
  assume "map_of tool_category l \<noteq> Some cat" "sys_step l now s = (b, s')"
  then show "sys_events cat s' = sys_events cat s"
    using sys_step_other by (simp add: sys_events_def)
next
  fix s :: system_rate_limiter and l now
  assume "sys_ok cat cl s" "map_of tool_category l = Some cat"
    "length (filter (live_after (cl_window cl) now) (sys_events cat s)) < nat (cl_maxCalls cl)"
  then show "fst (sys_step l now s)"
    using sys_step_eq [of cat cl s l now] by auto
qed (auto simp: live_after_def)

section \<open>Memory writes (pkg/tools)\<close>

record memory_decision =
  md_Allowed :: bool
  md_RetryAfter :: duration
  md_Scope :: string

record memory_rate_limiter =
  ml_agents :: "(string, time list) gomap"
  ml_callers :: "(string, time list) gomap"
  ml_perAgentLimit :: int
  ml_perCallerLimit :: int
  ml_window :: duration

definition new_memory_rate_limiter :: "int \<Rightarrow> int \<Rightarrow> duration \<Rightarrow> memory_rate_limiter" where
  "new_memory_rate_limiter per_agent per_caller window =
     \<lparr>ml_agents = [], ml_callers = [],
      ml_perAgentLimit = (if per_agent \<le> 0 then 60 else per_agent),
      ml_perCallerLimit = (if per_caller \<le> 0 then 600 else per_caller),
      ml_window = (if window \<le> 0 then minute else window)\<rparr>"

definition empty_as_anonymous :: "string \<Rightarrow> string" where
  "empty_as_anonymous s = (if s = '''' then ''<anonymous>'' else s)"

definition bucket :: "(string, time list) gomap \<Rightarrow> string \<Rightarrow> time list" where
  "bucket m key = (case map_of m key of None \<Rightarrow> [] | Some ts \<Rightarrow> ts)"

definition evict_before :: "time \<Rightarrow> time list \<Rightarrow> time list" where
  "evict_before cutoff ts = dropWhile (\<lambda>t. t < cutoff) ts"

definition bucket_retry_after :: "time \<Rightarrow> duration \<Rightarrow> time list \<Rightarrow> duration" where
  "bucket_retry_after now window ts =
     (case ts of
        [] \<Rightarrow> 0
      | oldest # _ \<Rightarrow>
          (let wait = oldest + window - now in
           if wait \<le> 0 then second else if wait < second then second else wait))"

text \<open>\<open>Allow\<close>; a nil limiter is \<^const>\<open>None\<close>.\<close>

definition memory_allow ::
  "string \<Rightarrow> string \<Rightarrow> time \<Rightarrow> memory_rate_limiter option \<Rightarrow> memory_decision \<times> memory_rate_limiter option" where
  "memory_allow agent caller now ml =
     (case ml of
        None \<Rightarrow> (\<lparr>md_Allowed = True, md_RetryAfter = 0, md_Scope = ''''\<rparr>, None)
      | Some l \<Rightarrow>
          (let cutoff = now - ml_window l;
               agent_key = empty_as_anonymous agent;
               caller_key = empty_as_anonymous caller;
               agent_bucket = evict_before cutoff (bucket (ml_agents l) agent_key);
               caller_bucket = evict_before cutoff (bucket (ml_callers l) caller_key);
               put = (\<lambda>a c. l\<lparr>ml_agents := AList.update agent_key a (ml_agents l),
                               ml_callers := AList.update caller_key c (ml_callers l)\<rparr>) in
           if int (length agent_bucket) \<ge> ml_perAgentLimit l then
             (\<lparr>md_Allowed = False, md_RetryAfter = bucket_retry_after now (ml_window l) agent_bucket,
               md_Scope = ''agent''\<rparr>, Some (put agent_bucket caller_bucket))
           else if int (length caller_bucket) \<ge> ml_perCallerLimit l then
             (\<lparr>md_Allowed = False, md_RetryAfter = bucket_retry_after now (ml_window l) caller_bucket,
               md_Scope = ''caller''\<rparr>, Some (put agent_bucket caller_bucket))
           else
             (\<lparr>md_Allowed = True, md_RetryAfter = 0, md_Scope = ''''\<rparr>,
              Some (put (agent_bucket @ [now]) (caller_bucket @ [now])))))"

definition memory_step :: "string \<times> string \<Rightarrow> time \<Rightarrow> memory_rate_limiter \<Rightarrow> bool \<times> memory_rate_limiter" where
  "memory_step l now s =
     (case memory_allow (fst l) (snd l) now (Some s) of (d, s') \<Rightarrow> (md_Allowed d, the s'))"

definition memory_ok :: "int \<Rightarrow> int \<Rightarrow> duration \<Rightarrow> memory_rate_limiter \<Rightarrow> bool" where
  "memory_ok n m w s \<longleftrightarrow> ml_perAgentLimit s = n \<and> ml_perCallerLimit s = m \<and> ml_window s = w"

lemma bucket_update [simp]: "bucket (AList.update k v m) k' = (if k' = k then v else bucket m k')"
  by (simp add: bucket_def)

lemma evict_before_live: "sorted ts \<Longrightarrow> evict_before (now - w) ts = filter (live_from w now) ts"
  by (simp add: evict_before_def dropWhile_sorted_filter live_from_def [abs_def])

lemma memory_step_eq:
  assumes "memory_ok n m w s" and "memory_step l now s = (b, s')"
  defines "a \<equiv> empty_as_anonymous (fst l)" and "c \<equiv> empty_as_anonymous (snd l)"
  shows "memory_ok n m w s'" and
    "b \<longleftrightarrow> int (length (evict_before (now - w) (bucket (ml_agents s) a))) < n \<and>
          int (length (evict_before (now - w) (bucket (ml_callers s) c))) < m" and
    "bucket (ml_agents s') k = (if k = a then evict_before (now - w) (bucket (ml_agents s) a) @ (if b then [now] else [])
       else bucket (ml_agents s) k)" and
    "bucket (ml_callers s') k = (if k = c then evict_before (now - w) (bucket (ml_callers s) c) @ (if b then [now] else [])
       else bucket (ml_callers s) k)"
  using assms(1,2) unfolding a_def c_def
  by (auto simp: memory_step_def memory_allow_def memory_ok_def Let_def split: if_splits)

interpretation memory_agent: window_limiter memory_step "memory_ok n m w"
    "\<lambda>l. empty_as_anonymous (fst l) = k" "live_from w" "nat n" "\<lambda>s. bucket (ml_agents s) k" for n m w k
proof
  fix s s' :: memory_rate_limiter and l now b
  assume "memory_ok n m w s" "empty_as_anonymous (fst l) = k" "sorted (bucket (ml_agents s) k)"
    "memory_step l now s = (b, s')"
  then show "bucket (ml_agents s') k = filter (live_from w now) (bucket (ml_agents s) k) @ (if b then [now] else []) \<and>
      (b \<longrightarrow> length (filter (live_from w now) (bucket (ml_agents s) k)) < nat n)"
    using memory_step_eq(2,3) [of n m w s l now b s'] by (simp add: evict_before_live zless_nat_eq_int_zless)
qed (auto simp: memory_step_eq live_from_def)

interpretation memory_caller: window_limiter memory_step "memory_ok n m w"
    "\<lambda>l. empty_as_anonymous (snd l) = k" "live_from w" "nat m" "\<lambda>s. bucket (ml_callers s) k" for n m w k
proof
  fix s s' :: memory_rate_limiter and l now b
  assume "memory_ok n m w s" "empty_as_anonymous (snd l) = k" "sorted (bucket (ml_callers s) k)"
    "memory_step l now s = (b, s')"
  then show "bucket (ml_callers s') k = filter (live_from w now) (bucket (ml_callers s) k) @ (if b then [now] else []) \<and>
      (b \<longrightarrow> length (filter (live_from w now) (bucket (ml_callers s) k)) < nat m)"
    using memory_step_eq(2,4) [of n m w s l now b s'] by (simp add: evict_before_live zless_nat_eq_int_zless)
qed (auto simp: memory_step_eq live_from_def)

section \<open>Requests per IP (pkg/gateway)\<close>

record api_rate_limiter =
  al_windows :: "(string, time list) gomap"
  al_limit :: int
  al_window :: duration

definition new_api_rate_limiter :: "int \<Rightarrow> duration \<Rightarrow> api_rate_limiter" where
  "new_api_rate_limiter limit window = \<lparr>al_windows = [], al_limit = limit, al_window = window\<rparr>"

definition api_allow :: "string \<Rightarrow> time \<Rightarrow> api_rate_limiter \<Rightarrow> bool \<times> api_rate_limiter" where
  "api_allow ip now l =
     (let ts = evict_before (now - al_window l) (bucket (al_windows l) ip) in
      if int (length ts) \<ge> al_limit l then (False, l\<lparr>al_windows := AList.update ip ts (al_windows l)\<rparr>)
      else (True, l\<lparr>al_windows := AList.update ip (ts @ [now]) (al_windows l)\<rparr>))"

text \<open>\<open>retryAfter\<close>: whole seconds, rounded up.\<close>

definition api_retry_after :: "string \<Rightarrow> time \<Rightarrow> api_rate_limiter \<Rightarrow> int" where
  "api_retry_after ip now l =
     (case bucket (al_windows l) ip of
        [] \<Rightarrow> 0
      | oldest # _ \<Rightarrow> (let wait = oldest + al_window l - now in if wait \<le> 0 then 0 else wait div second + 1))"

text \<open>
  \<open>clientIP\<close> on the \<open>X-Forwarded-For\<close> header (empty if absent) and \<open>RemoteAddr\<close>, and the
  handler wrapper \<open>withRateLimit\<close>: \<open>Inl\<close> is the 429 response with its \<open>Retry-After\<close>.
\<close>

definition client_ip :: "string \<Rightarrow> string \<Rightarrow> string" where
  "client_ip fwd remote_addr =
     (if fwd \<noteq> '''' then
        (case index_byte fwd (CHR '','') of Some i \<Rightarrow> trim_space (take i fwd) | None \<Rightarrow> fwd)
      else remote_addr)"

definition with_rate_limit ::
  "string \<Rightarrow> string \<Rightarrow> time \<Rightarrow> time \<Rightarrow> ('a \<Rightarrow> 'b) \<Rightarrow> 'a \<Rightarrow> api_rate_limiter \<Rightarrow> (int + 'b) \<times> api_rate_limiter" where
  "with_rate_limit fwd remote_addr now now' handler req l =
     (let ip = client_ip fwd remote_addr; (allowed, l') = api_allow ip now l in
      if \<not> allowed then (Inl (api_retry_after ip now' l'), l') else (Inr (handler req), l'))"

definition api_ok :: "int \<Rightarrow> duration \<Rightarrow> api_rate_limiter \<Rightarrow> bool" where
  "api_ok n w l \<longleftrightarrow> al_limit l = n \<and> al_window l = w"

lemma api_allow_eq:
  assumes "api_ok n w l" and "api_allow ip now l = (b, l')"
  shows "api_ok n w l'" and "b \<longleftrightarrow> int (length (evict_before (now - w) (bucket (al_windows l) ip))) < n"
    and "bucket (al_windows l') k = (if k = ip then evict_before (now - w) (bucket (al_windows l) ip) @
      (if b then [now] else []) else bucket (al_windows l) k)"
  using assms by (auto simp: api_allow_def api_ok_def Let_def split: if_splits)

interpretation api_ip: exact_limiter api_allow "api_ok n w" "\<lambda>ip. ip = k" "live_from w" "nat n"
    "\<lambda>l. bucket (al_windows l) k" for n w k
proof
  fix s s' :: api_rate_limiter and l now b
  assume "api_ok n w s" "l = k" "sorted (bucket (al_windows s) k)" "api_allow l now s = (b, s')"
  then show "bucket (al_windows s') k = filter (live_from w now) (bucket (al_windows s) k) @ (if b then [now] else []) \<and>
      (b \<longrightarrow> length (filter (live_from w now) (bucket (al_windows s) k)) < nat n)"
    using api_allow_eq(2,3) [of n w s l now b s'] by (simp add: evict_before_live zless_nat_eq_int_zless)
next
  fix s :: api_rate_limiter and l now
  assume "api_ok n w s" "l = k" "sorted (bucket (al_windows s) k)"
    "length (filter (live_from w now) (bucket (al_windows s) k)) < nat n"
  then show "fst (api_allow l now s)"
    using api_allow_eq(2) [of n w s l now "fst (api_allow l now s)" "snd (api_allow l now s)"]
    by (simp add: evict_before_live)
qed (auto simp: api_allow_eq live_from_def)

section \<open>What the limiters guarantee\<close>

text \<open>
  C35. A registry window admits at most its limit in any window: for any sequence of calls on any
  keys, at clock values that do not go backwards, and for any point in time, the calls admitted on
  a key within the window that ends there are at most that key's limit.
\<close>

theorem registry_window_bound:
  assumes "wcfg_limit (cfg key) > 0" and "clock_ordered calls"
    and "run_limiter (registry_step cfg) calls new_rate_limiter_registry = (tr, r)"
  shows "length (filter (\<lambda>t. t \<le> now \<and> t \<ge> now - wcfg_window (cfg key)) (admitted (\<lambda>k. k = key) tr))
    \<le> nat (wcfg_limit (cfg key))"
proof -
  have "registry_ok cfg key new_rate_limiter_registry" "registry_events key new_rate_limiter_registry = []"
    using assms(1) by (simp_all add: registry_ok_def registry_events_def new_rate_limiter_registry_def)
  from registry.window_bound [OF this assms(2,3)]
  show ?thesis by (simp add: live_from_def not_less)
qed

definition demo_config :: "string \<Rightarrow> window_config" where
  "demo_config key = \<lparr>wcfg_limit = 2, wcfg_window = minute, wcfg_scope = ScopeAgent, wcfg_scopeID = key,
     wcfg_resource = ''llm_call''\<rparr>"

definition demo_calls :: "(string \<times> time) list" where
  "demo_calls = [(''k'', 0), (''k'', 5), (''j'', 6), (''k'', 7)]"

lemma demo_run: "fst (run_limiter (registry_step demo_config) demo_calls new_rate_limiter_registry) =
    [((''k'', 0), True), ((''k'', 5), True), ((''j'', 6), True)] @ ((''k'', 7), False) # []"
  by (simp add: demo_calls_def registry_step_def registry_allow_def demo_config_def get_or_create_def
      new_rate_limiter_registry_def new_sliding_window_def allow_at_def Let_def)

theorem registry_window_bound_witness:
  "length (filter (\<lambda>t. t \<le> 7 \<and> t \<ge> 7 - minute) (admitted (\<lambda>k. k = ''k'')
     (fst (run_limiter (registry_step demo_config) demo_calls new_rate_limiter_registry)))) \<le> 2"
proof -
  obtain tr r where r: "run_limiter (registry_step demo_config) demo_calls new_rate_limiter_registry = (tr, r)"
    by fastforce
  from registry_window_bound [OF _ _ r, of "''k''" 7] r show ?thesis
    by (simp add: demo_config_def demo_calls_def)
qed

text \<open>
  The registry never refuses a call that fits: the verdict on each call is exactly whether
  fewer than the key's limit of its earlier admitted calls lie in the window that ends at the
  call; so a burst that is refused has really used up the limit, and calls on other keys have no
  influence.
\<close>

theorem registry_verdict_exact:
  assumes "wcfg_limit (cfg key) > 0" and "clock_ordered calls"
    and "run_limiter (registry_step cfg) calls new_rate_limiter_registry = (pre @ ((key, t), b) # post, r)"
  shows "b \<longleftrightarrow> length (filter (\<lambda>u. u \<ge> t - wcfg_window (cfg key)) (admitted (\<lambda>k. k = key) pre))
    < nat (wcfg_limit (cfg key))"
proof -
  have ok: "registry_ok cfg key new_rate_limiter_registry" "registry_events key new_rate_limiter_registry = []"
    using assms(1) by (simp_all add: registry_ok_def registry_events_def new_rate_limiter_registry_def)
  have "\<forall>c \<in> set calls. Min (snd ` set calls) \<le> snd c" by (intro ballI Min_le) simp_all
  from registry.run_exact [OF registry.represents_fresh [OF ok] assms(2) this assms(3) refl refl]
  show ?thesis by (simp add: live_from_def [abs_def] not_less)
qed

theorem registry_verdict_exact_witness:
  "\<not> length (filter (\<lambda>u. u \<ge> 7 - minute) (admitted (\<lambda>k. k = ''k'')
     [((''k'', 0), True), ((''k'', 5), True), ((''j'', 6), True)])) < 2"
proof -
  obtain tr r where r: "run_limiter (registry_step demo_config) demo_calls new_rate_limiter_registry = (tr, r)"
    by fastforce
  then have "run_limiter (registry_step demo_config) demo_calls new_rate_limiter_registry =
      ([((''k'', 0), True), ((''k'', 5), True), ((''j'', 6), True)] @ ((''k'', 7), False) # [], r)"
    using demo_run by simp
  from registry_verdict_exact [OF _ _ this] show ?thesis
    by (simp add: demo_config_def demo_calls_def)
qed

lemma new_system_sys_ok:
  "map_of category_limits cat = Some cl \<Longrightarrow> sys_ok cat cl new_system_rate_limiter \<and>
     sys_events cat new_system_rate_limiter = []"
  by (auto simp: new_system_rate_limiter_def category_limits_def sys_ok_def sys_events_def
      new_sys_window_def split: if_splits)

lemma category_limits_total: "\<exists>cl. map_of category_limits cat = Some cl"
  by (cases cat) (simp_all add: category_limits_def)

lemma system_reachable_ok:
  assumes "map_of category_limits cat = Some cl" and "clock_ordered calls"
    and "run_limiter sys_step calls new_system_rate_limiter = (tr, rl)"
  shows "sys_ok cat cl rl"
proof -
  have "sys_ok cat cl new_system_rate_limiter" "sys_events cat new_system_rate_limiter = []"
    using new_system_sys_ok [OF assms(1)] by simp_all
  note fresh = system_tools.represents_fresh [OF this]
  have "\<forall>c \<in> set calls. Min (snd ` set calls) \<le> snd c" by (intro ballI Min_le) simp_all
  from system_tools.run_represents [OF fresh assms(2) this assms(3)]
  show ?thesis by (auto simp: system_tools.represents_def)
qed

lemma sys_check_no_panic:
  assumes "\<And>cat cl. map_of category_limits cat = Some cl \<Longrightarrow> sys_ok cat cl rl"
  shows "sys_check tool now rl \<noteq> None"
proof (cases "map_of tool_category tool")
  case (Some cat)
  obtain cl w where "map_of rl cat = Some w" "cl_maxCalls (sysw_limit w) > 0"
    using assms category_limits_total [of cat] by (auto simp: sys_ok_def)
  with Some sys_allow_spec [of w now] show ?thesis by (auto simp: sys_check_def)
qed (simp add: sys_check_def)

text \<open>
  No category of system tools exceeds its documented limit: with the limiter as it is
  constructed, in any sequence of tool calls the calls of a category admitted within its window
  number at most its maximum, for every category and every point in time; and no further check
  panics.
\<close>

theorem system_tool_limits:
  assumes "map_of category_limits cat = Some cl" and "clock_ordered calls"
    and "run_limiter sys_step calls new_system_rate_limiter = (tr, rl)"
  shows "length (filter (\<lambda>t. t \<le> now \<and> t > now - cl_window cl)
      (admitted (\<lambda>tool. map_of tool_category tool = Some cat) tr)) \<le> nat (cl_maxCalls cl) \<and>
    sys_check tool t rl \<noteq> None"
proof -
  have "sys_ok cat cl new_system_rate_limiter" "sys_events cat new_system_rate_limiter = []"
    using new_system_sys_ok [OF assms(1)] by simp_all
  from system_tools.window_bound [OF this assms(2,3)]
    sys_check_no_panic [OF system_reachable_ok [OF _ assms(2,3)]]
  show ?thesis by (simp add: live_after_def)
qed

theorem system_tool_limits_witness:
  "\<exists>tr rl. run_limiter sys_step [(''system.backup.create'', 0), (''system.backup.create'', 1)]
       new_system_rate_limiter = (tr, rl) \<and>
     length (filter (\<lambda>t. t \<le> 1 \<and> t > 1 - 5 * minute)
       (admitted (\<lambda>tool. map_of tool_category tool = Some RateBackup) tr)) \<le> 1"
proof -
  obtain tr rl where r: "run_limiter sys_step [(''system.backup.create'', 0), (''system.backup.create'', 1)]
       new_system_rate_limiter = (tr, rl)" by fastforce
  have "map_of category_limits RateBackup = Some \<lparr>cl_maxCalls = 1, cl_window = 5 * minute\<rparr>"
    by (simp add: category_limits_def)
  from system_tool_limits [THEN conjunct1, OF this _ r, of 1] r show ?thesis by auto
qed

text \<open>
  Memory writes are limited per agent and per caller at the same time: in any sequence of
  writes, those admitted for one agent within a window number at most the agent limit and those
  admitted for one caller at most the caller limit, with the anonymous agent and caller each one
  bucket of their own.
\<close>

theorem memory_write_limits:
  assumes "clock_ordered calls"
    and "run_limiter memory_step calls (new_memory_rate_limiter pa pc w) = (tr, s)"
  shows "length (filter (\<lambda>t. t \<le> now \<and> t \<ge> now - (if w \<le> 0 then minute else w))
        (admitted (\<lambda>l. empty_as_anonymous (fst l) = agent) tr)) \<le> nat (if pa \<le> 0 then 60 else pa) \<and>
    length (filter (\<lambda>t. t \<le> now \<and> t \<ge> now - (if w \<le> 0 then minute else w))
        (admitted (\<lambda>l. empty_as_anonymous (snd l) = caller) tr)) \<le> nat (if pc \<le> 0 then 600 else pc)"
proof -
  have ok: "memory_ok (if pa \<le> 0 then 60 else pa) (if pc \<le> 0 then 600 else pc) (if w \<le> 0 then minute else w)
      (new_memory_rate_limiter pa pc w)"
    by (simp add: memory_ok_def new_memory_rate_limiter_def)
  have e: "bucket (ml_agents (new_memory_rate_limiter pa pc w)) agent = []"
    "bucket (ml_callers (new_memory_rate_limiter pa pc w)) caller = []"
    by (simp_all add: bucket_def new_memory_rate_limiter_def)
  show ?thesis
    using memory_agent.window_bound [OF ok e(1) assms, of now]
      memory_caller.window_bound [OF ok e(2) assms, of now]
    unfolding live_from_def not_less by (rule conjI)
qed

theorem memory_write_limits_witness:
  "\<exists>tr s. run_limiter memory_step [((''a'', ''c''), 0), ((''a'', ''c''), 1)] (new_memory_rate_limiter 1 0 0) = (tr, s) \<and>
     length (filter (\<lambda>t. t \<le> 1 \<and> t \<ge> 1 - minute) (admitted (\<lambda>l. empty_as_anonymous (fst l) = ''a'') tr)) \<le> 1"
proof -
  obtain tr s where r: "run_limiter memory_step [((''a'', ''c''), 0), ((''a'', ''c''), 1)]
      (new_memory_rate_limiter 1 0 0) = (tr, s)" by fastforce
  from memory_write_limits [THEN conjunct1, OF _ r, of 1 "''a''"] r show ?thesis by auto
qed

end
