(* ===== verification/Abuse_Limits.thy ===== *)
theory Abuse_Limits
  imports Rate_Limits
begin

text \<open>
  The limiters that are not plain sliding windows: the login limiter (pkg/gateway/rest_auth.go),
  the cancel-abuse detector (pkg/agent/cancel_abuse.go), the daily cost cap with its persistence
  (pkg/security/ratelimit.go, costtracker.go) and the admission controller
  (pkg/agent/admission.go).
\<close>

section \<open>Login attempts\<close>

record login_attempt =
  la_count :: int
  la_firstAt :: time
  la_blocked :: "time option"

record login_rate_limiter =
  lr_attempts :: "(string, login_attempt) gomap"
  lr_limit :: int
  lr_window :: duration
  lr_block :: duration

definition new_login_rate_limiter :: login_rate_limiter where
  "new_login_rate_limiter =
     \<lparr>lr_attempts = [], lr_limit = 5, lr_window = 15 * minute, lr_block = 15 * minute\<rparr>"

definition login_key :: "string \<Rightarrow> string \<Rightarrow> string" where
  "login_key ip username = ip @ '':'' @ username"

definition login_check :: "string \<Rightarrow> string \<Rightarrow> time \<Rightarrow> login_rate_limiter \<Rightarrow> bool \<times> login_rate_limiter" where
  "login_check ip username now l =
     (let key = login_key ip username;
          put = (\<lambda>a. l\<lparr>lr_attempts := AList.update key a (lr_attempts l)\<rparr>);
          fresh = \<lparr>la_count = 1, la_firstAt = now, la_blocked = None\<rparr> in
      case map_of (lr_attempts l) key of
        None \<Rightarrow> (True, put fresh)
      | Some a \<Rightarrow>
          if now - la_firstAt a > lr_window l then (True, put fresh)
          else if (case la_blocked a of None \<Rightarrow> False | Some b \<Rightarrow> now - b < lr_block l) then (False, l)
          else if la_count a \<ge> lr_limit l then (False, put (a\<lparr>la_blocked := Some now\<rparr>))
          else (True, put (a\<lparr>la_count := la_count a + 1\<rparr>)))"

definition login_record_success :: "string \<Rightarrow> string \<Rightarrow> login_rate_limiter \<Rightarrow> login_rate_limiter" where
  "login_record_success ip username l =
     l\<lparr>lr_attempts := AList.delete (login_key ip username) (lr_attempts l)\<rparr>"

definition login_step :: "string \<times> string \<Rightarrow> time \<Rightarrow> login_rate_limiter \<Rightarrow> bool \<times> login_rate_limiter" where
  "login_step who now l = login_check (fst who) (snd who) now l"

text \<open>
  The history \<open>h\<close> of admitted attempts of a key falls into the current epoch, the one before it
  and older ones, which are more than a window before the current epoch's start.
\<close>

definition login_epochs :: "login_attempt \<Rightarrow> time list \<Rightarrow> time \<Rightarrow> time list \<Rightarrow> time list \<Rightarrow> time list \<Rightarrow> bool" where
  "login_epochs a h now older prev cur \<longleftrightarrow>
     h = older @ prev @ cur \<and> length prev \<le> 5 \<and> int (length cur) = la_count a \<and> length cur \<le> 5 \<and>
     (\<forall>t \<in> set cur. t \<le> la_firstAt a + 15 * minute) \<and> (\<forall>t \<in> set prev. t < la_firstAt a) \<and>
     (\<forall>t \<in> set older. t < la_firstAt a - 15 * minute) \<and> la_firstAt a \<le> now"

lemma login_epochs_blocked [simp]: "login_epochs (a\<lparr>la_blocked := bl\<rparr>) = login_epochs a"
  by (intro ext) (simp add: login_epochs_def)

definition login_inv :: "string \<Rightarrow> time list \<Rightarrow> login_rate_limiter \<Rightarrow> time \<Rightarrow> bool" where
  "login_inv k h l now \<longleftrightarrow> lr_limit l = 5 \<and> lr_window l = 15 * minute \<and>
     (case map_of (lr_attempts l) k of
        None \<Rightarrow> h = []
      | Some a \<Rightarrow> \<exists>older prev cur. login_epochs a h now older prev cur) \<and>
     (\<forall>x. length (filter (\<lambda>t. x \<le> t \<and> t \<le> x + 15 * minute) h) \<le> 10)"

lemma login_inv_later: "login_inv k h l now \<Longrightarrow> now \<le> now' \<Longrightarrow> login_inv k h l now'"
  unfolding login_inv_def login_epochs_def by (fastforce split: option.splits)

lemma login_interval_bound:
  assumes old: "\<forall>x. length (filter (\<lambda>t. x \<le> t \<and> t \<le> x + 15 * minute) (older @ recent)) \<le> 10"
    and o: "\<forall>t \<in> set older. t < now - 15 * minute" and r: "length recent \<le> 9"
  shows "length (filter (\<lambda>t. x \<le> t \<and> t \<le> x + 15 * minute) (older @ recent @ [now])) \<le> 10"
proof (cases "x \<le> now \<and> now \<le> x + 15 * minute")
  case True
  then have "filter (\<lambda>t. x \<le> t \<and> t \<le> x + 15 * minute) older = []"
    using o by (force simp: filter_empty_conv)
  moreover have "length (filter (\<lambda>t. x \<le> t \<and> t \<le> x + 15 * minute) recent) \<le> 9"
    using r le_trans length_filter_le by blast
  ultimately show ?thesis by simp
next
  case False
  with old [rule_format, of x] show ?thesis by auto
qed

lemma login_inv_step:
  assumes i: "login_inv k h l now" and c: "login_step who now l = (b, l')"
  shows "login_inv k (if b \<and> login_key (fst who) (snd who) = k then h @ [now] else h) l' now"
proof (cases "login_key (fst who) (snd who) = k")
  case False
  with c have "map_of (lr_attempts l') k = map_of (lr_attempts l) k" "lr_limit l' = lr_limit l"
    "lr_window l' = lr_window l"
    by (auto simp: login_step_def login_check_def Let_def split: option.splits if_splits)
  with i False show ?thesis by (simp add: login_inv_def)
next
  case key: True
  have cfg: "lr_limit l = 5" "lr_window l = 15 * minute"
    and bnd: "\<forall>x. length (filter (\<lambda>t. x \<le> t \<and> t \<le> x + 15 * minute) h) \<le> 10"
    using i by (auto simp: login_inv_def)
  show ?thesis
  proof (cases "map_of (lr_attempts l) k")
    case None
    with i have "h = []" by (simp add: login_inv_def)
    moreover have "b" "l' = l\<lparr>lr_attempts := AList.update k
        \<lparr>la_count = 1, la_firstAt = now, la_blocked = None\<rparr> (lr_attempts l)\<rparr>"
      using None c key by (auto simp: login_step_def login_check_def Let_def)
    moreover have "login_epochs \<lparr>la_count = 1, la_firstAt = now, la_blocked = None\<rparr> [now] now [] [] [now]"
      by (simp add: login_epochs_def)
    ultimately show ?thesis using cfg key unfolding login_inv_def by auto
  next
    case (Some a)
    then obtain older prev cur where h: "h = older @ prev @ cur" "length prev \<le> 5"
      "int (length cur) = la_count a" "length cur \<le> 5" "\<forall>t \<in> set cur. t \<le> la_firstAt a + 15 * minute"
      "\<forall>t \<in> set prev. t < la_firstAt a" "\<forall>t \<in> set older. t < la_firstAt a - 15 * minute" "la_firstAt a \<le> now"
      using i by (auto simp: login_inv_def login_epochs_def)
    consider (reset) "now - la_firstAt a > 15 * minute" | (denied) "\<not> b"
      | (count) "\<not> now - la_firstAt a > 15 * minute" "b" by blast
    then show ?thesis
    proof cases
      case reset
      with c key cfg Some have b: "b" and l': "l' = l\<lparr>lr_attempts := AList.update k
          \<lparr>la_count = 1, la_firstAt = now, la_blocked = None\<rparr> (lr_attempts l)\<rparr>"
        by (auto simp: login_step_def login_check_def Let_def)
      have o: "\<forall>t \<in> set (older @ prev). t < now - 15 * minute" using h reset by fastforce
      have "length (filter (\<lambda>t. x \<le> t \<and> t \<le> x + 15 * minute) ((older @ prev) @ cur @ [now])) \<le> 10" for x
        by (rule login_interval_bound [OF _ o]) (use bnd h in simp_all)
      moreover have "login_epochs \<lparr>la_count = 1, la_firstAt = now, la_blocked = None\<rparr> (h @ [now]) now
          (older @ prev) cur [now]"
        unfolding login_epochs_def
      proof (intro conjI)
        show "\<forall>t \<in> set cur. t < la_firstAt \<lparr>la_count = 1, la_firstAt = now, la_blocked = None\<rparr>"
          using h(5) reset by fastforce
      qed (use o h in simp_all)
      ultimately show ?thesis using h(1) cfg b key unfolding login_inv_def l' by auto
    next
      case denied
      with c key Some have "\<exists>bl. map_of (lr_attempts l') k = Some (a\<lparr>la_blocked := bl\<rparr>)"
        and cfg': "lr_limit l' = lr_limit l" "lr_window l' = lr_window l"
        by (auto simp: login_step_def login_check_def Let_def split: if_splits option.splits
            intro: exI [of _ "la_blocked a"])
      then obtain bl where "map_of (lr_attempts l') k = Some (a\<lparr>la_blocked := bl\<rparr>)" by blast
      with cfg' i Some denied show ?thesis by (simp add: login_inv_def)
    next
      case count
      with c key cfg Some have ct: "la_count a < 5" and l': "l' = l\<lparr>lr_attempts := AList.update k
          (a\<lparr>la_count := la_count a + 1\<rparr>) (lr_attempts l)\<rparr>"
        by (auto simp: login_step_def login_check_def Let_def split: if_splits)
      have o: "\<forall>t \<in> set older. t < now - 15 * minute" using h(7,8) by fastforce
      have lc: "length cur \<le> 4" using ct h(3) by simp
      have "length (filter (\<lambda>t. x \<le> t \<and> t \<le> x + 15 * minute) (older @ (prev @ cur) @ [now])) \<le> 10" for x
        by (rule login_interval_bound [OF _ o]) (use bnd h lc in simp_all)
      moreover have "login_epochs (a\<lparr>la_count := la_count a + 1\<rparr>) (h @ [now]) now older prev (cur @ [now])"
        using h lc count(1) by (auto simp: login_epochs_def)
      ultimately show ?thesis using h(1) cfg count(2) key unfolding login_inv_def l' by auto
    qed
  qed
qed

lemma login_run_inv:
  "login_inv k h l prev \<Longrightarrow> clock_ordered calls \<Longrightarrow> \<forall>c \<in> set calls. prev \<le> snd c \<Longrightarrow>
   run_limiter login_step calls l = (tr, l') \<Longrightarrow>
   \<exists>now. login_inv k (h @ admitted (\<lambda>who. login_key (fst who) (snd who) = k) tr) l' now"
proof (induction calls arbitrary: h l prev tr)
  case (Cons c calls)
  obtain who t where c: "c = (who, t)" by fastforce
  obtain b l1 where st: "login_step who t l = (b, l1)" by fastforce
  obtain tr1 where run: "run_limiter login_step calls l1 = (tr1, l')" and tr: "tr = ((who, t), b) # tr1"
    using Cons.prems(4) by (auto simp: c st split: prod.splits)
  have "login_inv k h l t" using Cons.prems(1,3) login_inv_later by (simp add: c)
  from Cons.IH [OF login_inv_step [OF this st] _ _ run] Cons.prems(2)
  show ?case by (auto simp: c tr split: if_splits)
qed auto

text \<open>
  Password guessing is bounded: in any sequence of login checks for an address and user name
  (without a success in between), at most ten are admitted within any 15 minutes, twice the
  documented limit, since a new epoch may begin in the middle of the interval.
\<close>

theorem login_attempts_bounded:
  assumes "clock_ordered calls"
    and "run_limiter login_step calls new_login_rate_limiter = (tr, l)"
  shows "length (filter (\<lambda>t. x \<le> t \<and> t \<le> x + 15 * minute)
    (admitted (\<lambda>who. login_key (fst who) (snd who) = k) tr)) \<le> 10"
proof -
  have "login_inv k [] new_login_rate_limiter p" for p
    by (simp add: login_inv_def new_login_rate_limiter_def)
  moreover have "\<forall>c \<in> set calls. Min (snd ` set calls) \<le> snd c" by (intro ballI Min_le) simp_all
  ultimately obtain now where "login_inv k ([] @ admitted (\<lambda>who. login_key (fst who) (snd who) = k) tr) l now"
    using login_run_inv assms by blast
  then show ?thesis by (simp add: login_inv_def)
qed

theorem login_attempts_bounded_witness:
  "\<exists>tr l. run_limiter login_step [((''ip'', ''bob''), 0), ((''ip'', ''bob''), 7)] new_login_rate_limiter = (tr, l) \<and>
     length (filter (\<lambda>t. 0 \<le> t \<and> t \<le> 15 * minute) (admitted (\<lambda>who. login_key (fst who) (snd who) = ''ip:bob'') tr)) \<le> 10"
proof -
  obtain tr l where r: "run_limiter login_step [((''ip'', ''bob''), 0), ((''ip'', ''bob''), 7)]
      new_login_rate_limiter = (tr, l)" by fastforce
  from login_attempts_bounded [OF _ r, of 0 "''ip:bob''"] r show ?thesis by auto
qed

text \<open>
  A login block does not last its documented 15 minutes: an attempt that is blocked is
  admitted again as soon as the window of the first attempt has expired, here one minute later.
\<close>

theorem login_block_cut_short:
  "map snd (fst (run_limiter login_step
      [((''ip'', ''bob''), 0), ((''ip'', ''bob''), 1), ((''ip'', ''bob''), 2), ((''ip'', ''bob''), 3),
       ((''ip'', ''bob''), 4), ((''ip'', ''bob''), 14 * minute), ((''ip'', ''bob''), 15 * minute + 1)]
      new_login_rate_limiter))
   = [True, True, True, True, True, False, True]"
  by (simp add: login_step_def login_check_def new_login_rate_limiter_def Let_def)

section \<open>Cancel abuse\<close>

type_synonym abuse_key = "string \<times> string"

record cancel_abuse_detector =
  ca_windows :: "(abuse_key, time list) gomap"
  ca_window :: duration
  ca_burstAt :: int
  ca_evictEvery :: int
  ca_callCount :: int

definition new_cancel_abuse_detector :: cancel_abuse_detector where
  "new_cancel_abuse_detector =
     \<lparr>ca_windows = [], ca_window = 60 * second, ca_burstAt = 10, ca_evictEvery = 50, ca_callCount = 0\<rparr>"

definition evict_stale :: "time \<Rightarrow> cancel_abuse_detector \<Rightarrow> cancel_abuse_detector" where
  "evict_stale now d =
     (let stale_before = now - 2 * ca_window d in
      d\<lparr>ca_windows := filter (\<lambda>(k, ts). \<not> (length ts = 0 \<or> last ts < stale_before)) (ca_windows d)\<rparr>)"

definition abuse_entries :: "cancel_abuse_detector \<Rightarrow> abuse_key \<Rightarrow> time list" where
  "abuse_entries d key = (case map_of (ca_windows d) key of None \<Rightarrow> [] | Some ts \<Rightarrow> ts)"

text \<open>\<open>recordAttempt\<close>: the result is the number of attempts of the audit event, if one is emitted.\<close>

definition record_attempt ::
  "abuse_key \<Rightarrow> time \<Rightarrow> cancel_abuse_detector \<Rightarrow> int option \<times> cancel_abuse_detector" where
  "record_attempt key now d =
     (let cutoff = now - ca_window d;
          filtered = filter (\<lambda>t. t > cutoff) (abuse_entries d key) @ [now];
          emit = int (length filtered) \<ge> ca_burstAt d;
          d1 = (if emit then d\<lparr>ca_windows := AList.delete key (ca_windows d)\<rparr>
                else d\<lparr>ca_windows := AList.update key filtered (ca_windows d)\<rparr>);
          d2 = d1\<lparr>ca_callCount := ca_callCount d1 + 1\<rparr>;
          d3 = (if ca_callCount d2 mod ca_evictEvery d2 = 0 then evict_stale now d2 else d2)
      in (if emit then Some (int (length filtered)) else None, d3))"

fun abuse_run :: "(abuse_key \<times> time) list \<Rightarrow> cancel_abuse_detector \<Rightarrow> int option list" where
  "abuse_run [] d = []"
| "abuse_run ((key, now) # calls) d =
     (let (e, d') = record_attempt key now d in e # abuse_run calls d')"

text \<open>The specification keeps the full list of each key's attempts since its last event.\<close>

fun abuse_spec :: "int \<Rightarrow> duration \<Rightarrow> (abuse_key \<times> time) list \<Rightarrow> (abuse_key \<Rightarrow> time list) \<Rightarrow> int option list" where
  "abuse_spec n w [] h = []"
| "abuse_spec n w ((key, now) # calls) h =
     (let k = 1 + int (length (filter (\<lambda>t. t > now - w) (h key))) in
      if k \<ge> n then Some k # abuse_spec n w calls (h(key := []))
      else None # abuse_spec n w calls (h(key := h key @ [now])))"

definition abuse_inv :: "(abuse_key \<Rightarrow> time list) \<Rightarrow> cancel_abuse_detector \<Rightarrow> time \<Rightarrow> bool" where
  "abuse_inv h d now \<longleftrightarrow> gomap_wf (ca_windows d) \<and> ca_window d \<ge> 0 \<and>
     (\<forall>k. sorted (abuse_entries d k) \<and>
        (\<forall>now' \<ge> now. filter (\<lambda>t. t > now' - ca_window d) (abuse_entries d k)
                      = filter (\<lambda>t. t > now' - ca_window d) (h k)) \<and>
        (\<forall>t \<in> set (abuse_entries d k). t \<le> now))"

lemma abuse_invD:
  assumes "abuse_inv h d now"
  shows "gomap_wf (ca_windows d)" "ca_window d \<ge> 0" "sorted (abuse_entries d k)"
    and "now \<le> now' \<Longrightarrow> filter (\<lambda>t. t > now' - ca_window d) (abuse_entries d k)
      = filter (\<lambda>t. t > now' - ca_window d) (h k)"
    and "t \<in> set (abuse_entries d k) \<Longrightarrow> t \<le> now"
  using assms unfolding abuse_inv_def by blast+

lemma abuse_inv_later: "abuse_inv h d now \<Longrightarrow> now \<le> now' \<Longrightarrow> abuse_inv h d now'"
  unfolding abuse_inv_def by (meson order_trans)

lemma evict_stale_entries:
  assumes "gomap_wf (ca_windows d)"
  shows "abuse_entries (evict_stale now d) k =
    (if abuse_entries d k \<noteq> [] \<and> last (abuse_entries d k) < now - 2 * ca_window d then []
     else abuse_entries d k)"
proof -
  have w: "gomap_wf (ca_windows (evict_stale now d))"
    using assms by (simp add: evict_stale_def Let_def gomap_wf_filter)
  have "map_of (ca_windows (evict_stale now d)) k =
      (case map_of (ca_windows d) k of None \<Rightarrow> None
       | Some ts \<Rightarrow> if length ts = 0 \<or> last ts < now - 2 * ca_window d then None else Some ts)"
  proof (cases "map_of (ca_windows d) k")
    case None
    then have "k \<notin> fst ` set (ca_windows (evict_stale now d))"
      by (auto simp: evict_stale_def Let_def map_of_eq_None_iff image_iff)
    then have "map_of (ca_windows (evict_stale now d)) k = None" by (simp add: map_of_eq_None_iff)
    then show ?thesis using None by simp
  next
    case (Some ts)
    have "map_of (ca_windows (evict_stale now d)) k = Some v \<longleftrightarrow>
        v = ts \<and> \<not> (length ts = 0 \<or> last ts < now - 2 * ca_window d)" for v
      using gomap_lookup [OF w, of k v] gomap_lookup [OF assms, of k v] gomap_lookup [OF assms, of k ts] Some
      by (auto simp: evict_stale_def Let_def)
    with Some show ?thesis by (cases "map_of (ca_windows (evict_stale now d)) k") auto
  qed
  then show ?thesis by (auto simp: abuse_entries_def split: option.split)
qed

lemma sorted_last_le: "sorted ts \<Longrightarrow> t \<in> set ts \<Longrightarrow> t \<le> last (ts :: int list)"
  by (induction ts) auto

lemma evict_stale_inv:
  assumes i: "abuse_inv h d now"
  shows "abuse_inv h (evict_stale now d) now"
proof -
  have wf: "gomap_wf (ca_windows d)" and w: "ca_window d \<ge> 0" using i by (auto simp: abuse_inv_def)
  have cw: "ca_window (evict_stale now d) = ca_window d" by (simp add: evict_stale_def Let_def)
  have gw: "gomap_wf (ca_windows (evict_stale now d))"
    using wf by (simp add: evict_stale_def Let_def gomap_wf_filter)
  have dead: "filter (\<lambda>t. t > now' - ca_window d) (abuse_entries d k) = []"
    if "last (abuse_entries d k) < now - 2 * ca_window d" "now \<le> now'" for k now'
  proof -
    have "sorted (abuse_entries d k)" by (rule abuse_invD [OF i])
    then have "t < now - 2 * ca_window d" if "t \<in> set (abuse_entries d k)" for t
      using sorted_last_le [OF _ that] \<open>last _ < _\<close> by fastforce
    then show ?thesis using w that(2) by (force simp: filter_empty_conv)
  qed
  show ?thesis
    using i gw dead unfolding abuse_inv_def evict_stale_entries [OF wf] cw by auto
qed

lemma abuse_step_inv:
  assumes i: "abuse_inv h d now" and r: "record_attempt key now d = (e, d')"
  defines "k \<equiv> 1 + int (length (filter (\<lambda>t. t > now - ca_window d) (h key)))"
  shows "e = (if k \<ge> ca_burstAt d then Some k else None)"
    and "abuse_inv (if k \<ge> ca_burstAt d then h(key := []) else h(key := h key @ [now])) d' now"
    and "ca_window d' = ca_window d \<and> ca_burstAt d' = ca_burstAt d"
proof -
  let ?f = "filter (\<lambda>t. t > now - ca_window d) (abuse_entries d key)"
  have f: "?f = filter (\<lambda>t. t > now - ca_window d) (h key)" by (rule abuse_invD [OF i]) simp
  have wf: "gomap_wf (ca_windows d)" using i by (simp add: abuse_inv_def)
  let ?d1 = "(if k \<ge> ca_burstAt d then d\<lparr>ca_windows := AList.delete key (ca_windows d)\<rparr>
      else d\<lparr>ca_windows := AList.update key (?f @ [now]) (ca_windows d)\<rparr>)\<lparr>ca_callCount := ca_callCount d + 1\<rparr>"
  have len: "int (length (?f @ [now])) = k" by (simp add: f k_def)
  show e: "e = (if k \<ge> ca_burstAt d then Some k else None)"
    using r len unfolding record_attempt_def Let_def by auto
  have d': "d' = ?d1 \<or> d' = evict_stale now ?d1"
    using r len unfolding record_attempt_def Let_def by (auto split: if_splits)
  have en: "abuse_entries ?d1 j = (if j = key then (if k \<ge> ca_burstAt d then [] else ?f @ [now])
      else abuse_entries d j)" for j
    by (simp add: abuse_entries_def)
  have tail: "filter (\<lambda>t. t > now' - ca_window d) ?f = filter (\<lambda>t. t > now' - ca_window d) (h key)"
    if "now' \<ge> now" for now'
  proof -
    have "filter (\<lambda>t. t > now' - ca_window d) ?f = filter (\<lambda>t. t > now' - ca_window d) (abuse_entries d key)"
      using that by (auto intro: filter_cong)
    also have "\<dots> = filter (\<lambda>t. t > now' - ca_window d) (h key)" by (rule abuse_invD(4) [OF i that])
    finally show ?thesis .
  qed
  have fs: "sorted ?f" and le: "\<forall>t \<in> set ?f. t \<le> now"
    using abuse_invD(3) [OF i, of key] abuse_invD(5) [OF i, of _ key] by (auto intro: sorted_wrt_filter)
  have d1: "abuse_inv (if k \<ge> ca_burstAt d then h(key := []) else h(key := h key @ [now])) ?d1 now"
    unfolding abuse_inv_def en
  proof (intro conjI allI impI ballI)
    fix j
    show "sorted (if j = key then if k \<ge> ca_burstAt d then [] else ?f @ [now] else abuse_entries d j)"
      using fs le abuse_invD(3) [OF i] by (simp add: sorted_append)
    fix t assume "t \<in> set (if j = key then if k \<ge> ca_burstAt d then [] else ?f @ [now] else abuse_entries d j)"
    then show "t \<le> now"
      using abuse_invD(5) [OF i, of t j] abuse_invD(5) [OF i, of t key] by (auto split: if_splits)
  next
    fix j now' assume n: "now \<le> now'"
    show "filter (\<lambda>t. now' - ca_window ?d1 < t)
        (if j = key then if k \<ge> ca_burstAt d then [] else ?f @ [now] else abuse_entries d j) =
      filter (\<lambda>t. now' - ca_window ?d1 < t)
        ((if k \<ge> ca_burstAt d then h(key := []) else h(key := h key @ [now])) j)"
      using tail [OF n] abuse_invD(4) [OF i n, of j] by simp
  qed (use wf abuse_invD(2) [OF i] in simp_all)
  show "abuse_inv (if k \<ge> ca_burstAt d then h(key := []) else h(key := h key @ [now])) d' now"
    using d' d1 evict_stale_inv [OF d1] by (elim disjE) simp_all
  show "ca_window d' = ca_window d \<and> ca_burstAt d' = ca_burstAt d"
    using d' by (auto simp: evict_stale_def Let_def)
qed

lemma abuse_run_spec:
  "abuse_inv h d now \<Longrightarrow> clock_ordered calls \<Longrightarrow> \<forall>c \<in> set calls. now \<le> snd c \<Longrightarrow>
   abuse_run calls d = abuse_spec (ca_burstAt d) (ca_window d) calls h"
proof (induction calls arbitrary: h d now)
  case (Cons c calls)
  obtain key now where c: "c = (key, now)" by fastforce
  obtain e d' where r: "record_attempt key now d = (e, d')" by fastforce
  have "abuse_inv h d now" using Cons.prems(1,3) abuse_inv_later by (simp add: c)
  note s = abuse_step_inv [OF this r]
  show ?case using Cons.IH [OF s(2)] Cons.prems(2) s(1,3) r by (simp add: c Let_def)
qed simp

text \<open>
  The abuse detector's housekeeping is invisible: with its pruning of old attempts and its
  periodic eviction of stale keys it emits exactly the events, with exactly the counts, of the
  specification that keeps every attempt since the key's last event and counts those in the window.
\<close>

theorem cancel_abuse_refines:
  assumes "clock_ordered calls"
  shows "abuse_run calls new_cancel_abuse_detector = abuse_spec 10 (60 * second) calls (\<lambda>_. [])"
proof -
  have "abuse_inv (\<lambda>_. []) new_cancel_abuse_detector p" for p
    by (simp add: abuse_inv_def new_cancel_abuse_detector_def abuse_entries_def)
  moreover have "\<forall>c \<in> set calls. Min (snd ` set calls) \<le> snd c" by (intro ballI Min_le) simp_all
  ultimately have "abuse_run calls new_cancel_abuse_detector =
      abuse_spec (ca_burstAt new_cancel_abuse_detector) (ca_window new_cancel_abuse_detector) calls (\<lambda>_. [])"
    using abuse_run_spec assms by blast
  then show ?thesis by (simp add: new_cancel_abuse_detector_def)
qed

theorem cancel_abuse_refines_witness:
  "abuse_run [((''u'', ''web''), 1), ((''u'', ''web''), 2)] new_cancel_abuse_detector = [None, None]"
  by (subst cancel_abuse_refines) simp_all

section \<open>Daily cost cap\<close>

text \<open>
  The cost operations of the registry. Amounts are reals: the rounding of \<open>float64\<close> is not
  modelled. \<open>today\<close> is the UTC date of the clock reading, \<open>now\<close> a second reading of the
  clock that only the hint for retrying uses.
\<close>

definition set_daily_cost_cap :: "real \<Rightarrow> rate_limiter_registry \<Rightarrow> rate_limiter_registry" where
  "set_daily_cost_cap c r = r\<lparr>rr_dailyCostCap := c\<rparr>"

definition next_utc_midnight :: "time \<Rightarrow> time" where
  "next_utc_midnight now = (now div (24 * hour) + 1) * (24 * hour)"

definition check_global_cost_cap ::
  "real \<Rightarrow> string \<Rightarrow> string \<Rightarrow> time \<Rightarrow> rate_limiter_registry \<Rightarrow> rate_limit_result \<times> rate_limiter_registry" where
  "check_global_cost_cap cost agent_type today now r =
     (if is_privileged_agent agent_type then
        (\<lparr>rl_Allowed = True, rl_RetryAfterSeconds = 0, rl_PolicyRule = PrivilegedExempt\<rparr>, r)
      else if rr_dailyCostCap r \<le> 0 then
        (\<lparr>rl_Allowed = True, rl_RetryAfterSeconds = 0, rl_PolicyRule = NoRule\<rparr>, r)
      else
        (let r1 = (if rr_costDay r \<noteq> today then r\<lparr>rr_costDay := today, rr_dailyCostUSD := 0\<rparr> else r) in
         if rr_dailyCostUSD r1 + cost > rr_dailyCostCap r1 then
           (\<lparr>rl_Allowed = False, rl_RetryAfterSeconds = seconds_of (next_utc_midnight now - now),
             rl_PolicyRule = CostCapRule (rr_dailyCostCap r1)\<rparr>, r1)
         else
           (\<lparr>rl_Allowed = True, rl_RetryAfterSeconds = 0, rl_PolicyRule = NoRule\<rparr>,
            r1\<lparr>rr_dailyCostUSD := rr_dailyCostUSD r1 + cost\<rparr>)))"

definition get_daily_cost :: "string \<Rightarrow> rate_limiter_registry \<Rightarrow> real" where
  "get_daily_cost today r = (if rr_costDay r \<noteq> today then 0 else rr_dailyCostUSD r)"

definition load_daily_cost :: "real \<Rightarrow> string \<Rightarrow> rate_limiter_registry \<Rightarrow> rate_limiter_registry" where
  "load_daily_cost cost date r = r\<lparr>rr_costDay := date, rr_dailyCostUSD := cost\<rparr>"

definition record_spend :: "real \<Rightarrow> string \<Rightarrow> string \<Rightarrow> rate_limiter_registry \<Rightarrow> rate_limiter_registry" where
  "record_spend cost agent_type today r =
     (if is_privileged_agent agent_type \<or> cost \<le> 0 then r
      else let r1 = (if rr_costDay r \<noteq> today then r\<lparr>rr_costDay := today, rr_dailyCostUSD := 0\<rparr> else r)
        in r1\<lparr>rr_dailyCostUSD := rr_dailyCostUSD r1 + cost\<rparr>)"

text \<open>Operations on the accumulator during one UTC day.\<close>

datatype cost_op = Gate real string time | Spend real string

fun cost_step :: "string \<Rightarrow> cost_op \<Rightarrow> rate_limiter_registry \<Rightarrow> bool \<times> rate_limiter_registry" where
  "cost_step today (Gate cost agent_type now) r =
     (let (res, r') = check_global_cost_cap cost agent_type today now r in (rl_Allowed res, r'))"
| "cost_step today (Spend cost agent_type) r = (True, record_spend cost agent_type today r)"

fun cost_run :: "string \<Rightarrow> cost_op list \<Rightarrow> rate_limiter_registry \<Rightarrow> (cost_op \<times> bool) list \<times> rate_limiter_registry" where
  "cost_run today [] r = ([], r)"
| "cost_run today (x # xs) r =
     (let (b, r1) = cost_step today x r; (tr, r2) = cost_run today xs r1 in ((x, b) # tr, r2))"

fun charged :: "cost_op \<times> bool \<Rightarrow> real" where
  "charged (Gate cost agent_type now, b) = (if is_privileged_agent agent_type \<or> \<not> b then 0 else cost)"
| "charged (Spend cost agent_type, b) = (if is_privileged_agent agent_type \<or> cost \<le> 0 then 0 else cost)"

lemma cost_step_charged:
  assumes "rr_dailyCostCap r > 0" and "cost_step today x r = (b, r')"
  shows "get_daily_cost today r' = get_daily_cost today r + charged (x, b) \<and> rr_dailyCostCap r' = rr_dailyCostCap r \<and>
    (\<forall>c a t. x = Gate c a t \<longrightarrow>
       b = (is_privileged_agent a \<or> get_daily_cost today r + c \<le> rr_dailyCostCap r))"
  using assms
  by (cases x) (auto simp: check_global_cost_cap_def record_spend_def get_daily_cost_def Let_def split: if_splits)

lemma cost_run_sum:
  "rr_dailyCostCap r > 0 \<Longrightarrow> cost_run today ops r = (tr, r') \<Longrightarrow>
   get_daily_cost today r' = get_daily_cost today r + sum_list (map charged tr)"
proof (induction ops arbitrary: r tr)
  case (Cons y ops)
  obtain b r1 where y: "cost_step today y r = (b, r1)" by fastforce
  obtain tr1 where run: "cost_run today ops r1 = (tr1, r')" and tr: "tr = (y, b) # tr1"
    using Cons.prems(2) y by (auto split: prod.splits)
  note c = cost_step_charged [OF Cons.prems(1) y]
  have "rr_dailyCostCap r1 > 0" using c Cons.prems(1) by simp
  from Cons.IH [OF this run] c show ?case by (simp add: tr)
qed simp

text \<open>
  With a cap configured the accumulator of a day is exactly the sum of what was charged, and
  the gate decides by it: in any sequence of gate checks and recorded spends, each check of an agent
  that is not privileged is admitted exactly if the sum charged before it plus the requested cost is
  within the cap (so spends that overshoot the cap close the gate), and privileged agents are
  always admitted and never charged.
\<close>

theorem cost_gate_exact:
  assumes "rr_dailyCostCap r > 0" and "cost_run today ops r = (pre @ (x, b) # post, r')"
  shows "(case x of
      Gate cost agent_type t \<Rightarrow>
        b = (is_privileged_agent agent_type \<or>
             get_daily_cost today r + sum_list (map charged pre) + cost \<le> rr_dailyCostCap r)
    | Spend cost agent_type \<Rightarrow> b) \<and>
    get_daily_cost today r' = get_daily_cost today r + sum_list (map charged (pre @ (x, b) # post))"
  using assms
proof (induction ops arbitrary: r pre)
  case (Cons o1 ops)
  obtain b1 r1 where st: "cost_step today o1 r = (b1, r1)" by fastforce
  obtain tr where run: "cost_run today ops r1 = (tr, r')" and eq: "(o1, b1) # tr = pre @ (x, b) # post"
    using Cons.prems(2) st by (auto split: prod.splits)
  note c = cost_step_charged [OF Cons.prems(1) st]
  show ?case
  proof (cases pre)
    case Nil
    with eq have e: "x = o1" "b = b1" "post = tr" by auto
    have "case x of Gate cost a t \<Rightarrow> b = (is_privileged_agent a \<or> get_daily_cost today r + cost \<le> rr_dailyCostCap r)
        | Spend cost a \<Rightarrow> b"
      using c st by (cases x) (auto simp: e)
    with cost_run_sum [OF _ run] c e Nil Cons.prems(1) show ?thesis by (simp split: cost_op.splits)
  next
    case (Cons p pre1)
    with eq have e: "p = (o1, b1)" "tr = pre1 @ (x, b) # post" by auto
    have "rr_dailyCostCap r1 > 0" using c Cons.prems(1) by simp
    from Cons.IH [OF this run [unfolded e(2)]] c e Cons
    show ?thesis by (simp add: algebra_simps split: cost_op.splits)
  qed
qed simp

theorem cost_gate_exact_witness:
  "cost_run ''d'' [Spend 4 ''custom'', Gate 7 ''custom'' 0] (set_daily_cost_cap 10 new_rate_limiter_registry) =
     ([(Spend 4 ''custom'', True)] @ (Gate 7 ''custom'' 0, False) # [],
      (new_rate_limiter_registry\<lparr>rr_dailyCostCap := 10, rr_costDay := ''d'', rr_dailyCostUSD := 4\<rparr>)) \<and>
   get_daily_cost ''d'' (new_rate_limiter_registry\<lparr>rr_dailyCostCap := 10, rr_costDay := ''d'', rr_dailyCostUSD := 4\<rparr>)
     = get_daily_cost ''d'' (set_daily_cost_cap 10 new_rate_limiter_registry) + 4"
proof -
  let ?r = "set_daily_cost_cap 10 new_rate_limiter_registry"
  have run: "cost_run ''d'' [Spend 4 ''custom'', Gate 7 ''custom'' 0] ?r =
      ([(Spend 4 ''custom'', True)] @ (Gate 7 ''custom'' 0, False) # [],
       (new_rate_limiter_registry\<lparr>rr_dailyCostCap := 10, rr_costDay := ''d'', rr_dailyCostUSD := 4\<rparr>))"
    by (simp add: record_spend_def check_global_cost_cap_def set_daily_cost_cap_def
        new_rate_limiter_registry_def is_privileged_agent_def Let_def)
  have "rr_dailyCostCap ?r > 0" by (simp add: set_daily_cost_cap_def)
  from cost_gate_exact [THEN conjunct2, OF this run] run show ?thesis
    by (simp add: is_privileged_agent_def)
qed

section \<open>Persistence of the day's cost\<close>

text \<open>
  \<open>CostTracker\<close> over a file system: paths to contents. \<open>unmarshal\<close> and \<open>marshal\<close> are
  \<open>encoding/json\<close>; \<open>fails\<close> says which of the four system calls fails.
\<close>

record cost_tracker_state =
  ct_Date :: string
  ct_CostUSD :: real

definition cost_load ::
  "(string \<Rightarrow> cost_tracker_state option) \<Rightarrow> string \<Rightarrow> string \<Rightarrow> (string, string) gomap \<Rightarrow> cost_tracker_state" where
  "cost_load unmarshal path today fs =
     (case map_of fs path of
        None \<Rightarrow> \<lparr>ct_Date = '''', ct_CostUSD = 0\<rparr>
      | Some data \<Rightarrow>
          (case unmarshal data of
             None \<Rightarrow> \<lparr>ct_Date = '''', ct_CostUSD = 0\<rparr>
           | Some st \<Rightarrow> if ct_Date st \<noteq> today then \<lparr>ct_Date = '''', ct_CostUSD = 0\<rparr> else st))"

datatype io_step = MkdirAll | Marshal | WriteTemp | Rename

definition cost_save ::
  "(cost_tracker_state \<Rightarrow> string) \<Rightarrow> (io_step \<Rightarrow> bool) \<Rightarrow> string \<Rightarrow> cost_tracker_state \<Rightarrow>
     (string, string) gomap \<Rightarrow> io_step option \<times> (string, string) gomap" where
  "cost_save marshal fails path st fs =
     (if fails MkdirAll then (Some MkdirAll, fs)
      else if fails Marshal then (Some Marshal, fs)
      else let tmp = path @ ''.tmp'' in
      if fails WriteTemp then (Some WriteTemp, fs)
      else let fs1 = AList.update tmp (marshal st) fs in
      if fails Rename then (Some Rename, fs1)
      else (None, AList.update path (marshal st) (AList.delete tmp fs1)))"

definition load_into_registry ::
  "(string \<Rightarrow> cost_tracker_state option) \<Rightarrow> string \<Rightarrow> string \<Rightarrow> (string, string) gomap \<Rightarrow>
     rate_limiter_registry \<Rightarrow> rate_limiter_registry" where
  "load_into_registry unmarshal path today fs r =
     (let st = cost_load unmarshal path today fs in
      if ct_Date st \<noteq> '''' \<and> ct_CostUSD st > 0 then load_daily_cost (ct_CostUSD st) (ct_Date st) r else r)"

definition save_from_registry ::
  "(cost_tracker_state \<Rightarrow> string) \<Rightarrow> (io_step \<Rightarrow> bool) \<Rightarrow> string \<Rightarrow> string \<Rightarrow> rate_limiter_registry \<Rightarrow>
     (string, string) gomap \<Rightarrow> io_step option \<times> (string, string) gomap" where
  "save_from_registry marshal fails path today r fs =
     cost_save marshal fails path \<lparr>ct_Date = today, ct_CostUSD = get_daily_cost today r\<rparr> fs"

text \<open>
  A restart does not reset the daily cap: a save that reports no error, followed by a restart
  on the same day, restores exactly the day's cost; on another day the restored cost is 0; and a
  save that fails at any step leaves the previously saved state readable.
\<close>

theorem cost_survives_restart:
  assumes json: "unmarshal (marshal \<lparr>ct_Date = today, ct_CostUSD = get_daily_cost today r\<rparr>)
        = Some \<lparr>ct_Date = today, ct_CostUSD = get_daily_cost today r\<rparr>" and "today \<noteq> ''''" and "rr_dailyCostUSD r \<ge> 0"
    and save: "save_from_registry marshal fails path today r fs = (err, fs')"
  shows "(if err = None
      then get_daily_cost today (load_into_registry unmarshal path today fs' new_rate_limiter_registry)
             = get_daily_cost today r \<and>
           (day \<noteq> today \<longrightarrow>
              get_daily_cost day (load_into_registry unmarshal path day fs' new_rate_limiter_registry) = 0)
      else cost_load unmarshal path day fs' = cost_load unmarshal path day fs)"
proof (cases "err = None")
  case True
  with save have "map_of fs' path = Some (marshal \<lparr>ct_Date = today, ct_CostUSD = get_daily_cost today r\<rparr>)"
    by (auto simp: save_from_registry_def cost_save_def Let_def split: if_splits)
  moreover have "get_daily_cost today r \<ge> 0" using assms(3) by (simp add: get_daily_cost_def)
  ultimately show ?thesis
    using True json assms(2)
    by (auto simp: load_into_registry_def cost_load_def load_daily_cost_def Let_def
        new_rate_limiter_registry_def get_daily_cost_def [of _ "rate_limiter_registry.make _ _ _ _"]
        get_daily_cost_def)
next
  case False
  with save have "map_of fs' path = map_of fs path"
    by (auto simp: save_from_registry_def cost_save_def Let_def split: if_splits)
  then show ?thesis unfolding if_not_P [OF False] by (simp add: cost_load_def)
qed

theorem cost_survives_restart_witness:
  "let r = load_daily_cost 4 ''d'' new_rate_limiter_registry;
       unmarshal = \<lambda>_. Some \<lparr>ct_Date = ''d'', ct_CostUSD = 4\<rparr>;
       fs = snd (save_from_registry (\<lambda>_. ''json'') (\<lambda>_. False) ''cost.json'' ''d'' r [])
   in get_daily_cost ''d'' (load_into_registry unmarshal ''cost.json'' ''d'' fs new_rate_limiter_registry) = 4"
proof -
  let ?r = "load_daily_cost 4 ''d'' new_rate_limiter_registry"
  have c: "get_daily_cost ''d'' ?r = 4" by (simp add: get_daily_cost_def load_daily_cost_def)
  obtain err fs where s: "save_from_registry (\<lambda>_. ''json'') (\<lambda>_. False) ''cost.json'' ''d'' ?r [] = (err, fs)"
    by fastforce
  then have "err = None" by (simp add: save_from_registry_def cost_save_def Let_def)
  with cost_survives_restart [where unmarshal = "\<lambda>_. Some \<lparr>ct_Date = ''d'', ct_CostUSD = 4\<rparr>", OF _ _ _ s] c s
  show ?thesis by (simp add: Let_def load_daily_cost_def)
qed

section \<open>Admission of session workers\<close>

record admission_controller =
  ac_softCap :: nat
  ac_activeScopes :: "string set"

definition new_admission_controller :: "nat \<Rightarrow> int \<Rightarrow> admission_controller" where
  "new_admission_controller num_cpu soft_cap =
     \<lparr>ac_softCap = (if soft_cap \<le> 0 then num_cpu * 4 else nat soft_cap), ac_activeScopes = {}\<rparr>"

text \<open>The release closure: the slot it gives back, or none for a follow-up turn.\<close>

datatype release = ReleaseSlot string | ReleaseNothing

definition try_admit :: "string \<Rightarrow> admission_controller \<Rightarrow> release option \<times> admission_controller" where
  "try_admit scope a =
     (if scope \<in> ac_activeScopes a then (Some ReleaseNothing, a)
      else if card (ac_activeScopes a) \<ge> ac_softCap a then (None, a)
      else (Some (ReleaseSlot scope), a\<lparr>ac_activeScopes := insert scope (ac_activeScopes a)\<rparr>))"

fun run_release :: "release \<Rightarrow> admission_controller \<Rightarrow> admission_controller" where
  "run_release (ReleaseSlot scope) a = a\<lparr>ac_activeScopes := ac_activeScopes a - {scope}\<rparr>"
| "run_release ReleaseNothing a = a"

datatype admission_event = Admit string | Release release

fun admission_step :: "admission_event \<Rightarrow> admission_controller \<Rightarrow> admission_controller" where
  "admission_step (Admit scope) a = snd (try_admit scope a)"
| "admission_step (Release rel) a = run_release rel a"

lemma admission_step_inv:
  "finite (ac_activeScopes a) \<and> card (ac_activeScopes a) \<le> ac_softCap a \<Longrightarrow>
   finite (ac_activeScopes (admission_step e a)) \<and>
   card (ac_activeScopes (admission_step e a)) \<le> ac_softCap (admission_step e a) \<and>
   ac_softCap (admission_step e a) = ac_softCap a"
proof (cases e)
  case (Release rel)
  assume "finite (ac_activeScopes a) \<and> card (ac_activeScopes a) \<le> ac_softCap a"
  then show ?thesis using Release
    by (cases rel) (auto intro: le_trans [OF card_mono])
qed (auto simp: try_admit_def)

lemma admission_bound:
  "finite (ac_activeScopes a) \<and> card (ac_activeScopes a) \<le> ac_softCap a \<Longrightarrow>
   card (ac_activeScopes (fold admission_step es a)) \<le> ac_softCap a"
proof (induction es arbitrary: a)
  case (Cons e es)
  from admission_step_inv [OF Cons.prems, of e] Cons.IH [of "admission_step e a"] show ?case by simp
qed simp

end
