(* ===== verification/Net_Lib.thy ===== *)
theory Net_Lib
  imports Go_Prelude "HOL-Library.Word"
begin

text \<open>
  The part of Go's package \<open>net\<close> that the SSRF checker uses: IP addresses as byte slices,
  textual parsing and printing of IPv4 and IPv6 addresses, CIDR ranges and their membership
  test, and \<open>SplitHostPort\<close>. Hexadecimal digits are lower case in printing and either case in
  parsing, as in Go; zone identifiers are rejected, as \<open>ParseIP\<close> and \<open>ParseCIDR\<close> do.
\<close>

section \<open>Addresses\<close>

type_synonym byte = "8 word"
type_synonym ip = "byte list"

definition ipv4 :: "byte \<Rightarrow> byte \<Rightarrow> byte \<Rightarrow> byte \<Rightarrow> ip" where
  "ipv4 a b c d = replicate 10 0 @ [0xFF, 0xFF, a, b, c, d]"

definition to4 :: "ip \<Rightarrow> ip option" where
  "to4 addr =
     (if length addr = 4 then Some addr
      else if length addr = 16 \<and> take 12 addr = replicate 10 0 @ [0xFF, 0xFF] then Some (drop 12 addr)
      else None)"

lemma to4_ipv4 [simp]: "to4 (ipv4 a b c d) = Some [a, b, c, d]"
  by (simp add: to4_def ipv4_def numeral_eq_Suc)

record ip_net =
  net_IP :: ip
  net_Mask :: "byte list"

text \<open>\<open>networkNumberAndMask\<close>; a nil pair is \<^const>\<open>None\<close>.\<close>

definition network_number_and_mask :: "ip_net \<Rightarrow> (ip \<times> byte list) option" where
  "network_number_and_mask n =
     (case (case to4 (net_IP n) of
              Some a \<Rightarrow> Some a
            | None \<Rightarrow> if length (net_IP n) \<noteq> 16 then None else Some (net_IP n)) of
        None \<Rightarrow> None
      | Some a \<Rightarrow>
          if length (net_Mask n) = 4 then (if length a \<noteq> 4 then None else Some (a, net_Mask n))
          else if length (net_Mask n) = 16 then
            (if length a = 4 then Some (a, drop 12 (net_Mask n)) else Some (a, net_Mask n))
          else None)"

definition net_contains :: "ip_net \<Rightarrow> ip \<Rightarrow> bool" where
  "net_contains n addr =
     (let (nn, m) = (case network_number_and_mask n of None \<Rightarrow> ([], []) | Some p \<Rightarrow> p);
          x = (case to4 addr of Some a \<Rightarrow> a | None \<Rightarrow> addr)
      in length x = length nn \<and>
         list_all2 (\<lambda>(a, k) b. and a k = and b k) (zip nn m) x)"

text \<open>\<open>CIDRMask\<close>: the bytes of a mask with \<open>n\<close> leading ones.\<close>

fun cidr_mask :: "nat \<Rightarrow> nat \<Rightarrow> byte list" where
  "cidr_mask n 0 = []"
| "cidr_mask n (Suc k) =
     (if n \<ge> 8 then 0xFF # cidr_mask (n - 8) k else not (mask (8 - n)) # cidr_mask 0 k)"

section \<open>Parsing\<close>

definition dec_value :: "char \<Rightarrow> int option" where
  "dec_value c = (let n = (of_char c :: int) in if 48 \<le> n \<and> n \<le> 57 then Some (n - 48) else None)"

definition hex_value :: "char \<Rightarrow> int option" where
  "hex_value c =
     (let n = (of_char c :: int) in
      if 48 \<le> n \<and> n \<le> 57 then Some (n - 48)
      else if 97 \<le> n \<and> n \<le> 102 then Some (n - 87)
      else if 65 \<le> n \<and> n \<le> 70 then Some (n - 55) else None)"

text \<open>
  \<open>parseIPv4Fields\<close>: the fields so far (reversed), the value of the current field and its number
  of digits.
\<close>

fun parse_ipv4_fields :: "string \<Rightarrow> int list \<Rightarrow> int \<Rightarrow> nat \<Rightarrow> int list option" where
  "parse_ipv4_fields [] acc val digLen =
     (if digLen = 0 \<or> length acc \<noteq> 3 then None else Some (rev (val # acc)))"
| "parse_ipv4_fields (c # s) acc val digLen =
     (case dec_value c of
        Some d \<Rightarrow>
          if digLen = 1 \<and> val = 0 then None
          else if val * 10 + d > 255 then None
          else parse_ipv4_fields s acc (val * 10 + d) (digLen + 1)
      | None \<Rightarrow>
          if c = CHR ''.'' then
            (if digLen = 0 \<or> s = [] \<or> length acc = 3 then None
             else parse_ipv4_fields s (val # acc) 0 0)
          else None)"

definition parse_ipv4 :: "string \<Rightarrow> ip option" where
  "parse_ipv4 s = map_option (map of_int) (parse_ipv4_fields s [] 0 0)"

text \<open>One group of an IPv6 address: its value and the rest, if it has one to four hex digits.\<close>

fun hex_group :: "string \<Rightarrow> nat \<Rightarrow> int \<Rightarrow> (nat \<times> int \<times> string) option" where
  "hex_group [] off acc = Some (off, acc, [])"
| "hex_group (c # s) off acc =
     (case hex_value c of
        None \<Rightarrow> Some (off, acc, c # s)
      | Some d \<Rightarrow> if off > 3 then None else hex_group s (off + 1) (acc * 16 + d))"

definition group_bytes :: "int \<Rightarrow> byte list" where
  "group_bytes v = [of_int (v div 256), of_int (v mod 256)]"

text \<open>
  The loop of \<open>parseIPv6\<close>: the bytes so far and the position of the ellipsis. Each round consumes
  a group, so fuel of the length of the string is enough; the fuel is the number of groups left.
\<close>

fun parse_ipv6_loop :: "nat \<Rightarrow> string \<Rightarrow> byte list \<Rightarrow> nat option \<Rightarrow> (string \<times> byte list \<times> nat option) option" where
  "parse_ipv6_loop 0 s bs ell = Some (s, bs, ell)"
| "parse_ipv6_loop (Suc k) s bs ell =
     (if length bs \<ge> 16 then Some (s, bs, ell)
      else case hex_group s 0 0 of
        None \<Rightarrow> None
      | Some (off, acc, rest) \<Rightarrow>
          if off = 0 then None
          else if rest \<noteq> [] \<and> hd rest = CHR ''.'' then
            (if ell = None \<and> length bs \<noteq> 12 then None
             else if length bs + 4 > 16 then None
             else case parse_ipv4 s of None \<Rightarrow> None | Some v4 \<Rightarrow> Some ([], bs @ v4, ell))
          else
            (let bs' = bs @ group_bytes acc in
             if rest = [] then Some ([], bs', ell)
             else if hd rest \<noteq> CHR '':'' then None
             else if tl rest = [] then None
             else if hd (tl rest) = CHR '':'' then
               (if ell \<noteq> None then None
                else if tl (tl rest) = [] then Some ([], bs', Some (length bs'))
                else parse_ipv6_loop k (tl (tl rest)) bs' (Some (length bs')))
             else parse_ipv6_loop k (tl rest) bs' ell))"

definition parse_ipv6 :: "string \<Rightarrow> ip option" where
  "parse_ipv6 s =
     (if s = ''::'' then Some (replicate 16 0)
      else
        (let (s0, ell0) = (if prefix ''::'' s then (drop 2 s, Some 0) else (s, None)) in
         case parse_ipv6_loop 8 s0 [] ell0 of
           None \<Rightarrow> None
         | Some (rest, bs, ell) \<Rightarrow>
             if rest \<noteq> [] then None
             else if length bs < 16 then
               (case ell of
                  None \<Rightarrow> None
                | Some e \<Rightarrow> Some (take e bs @ replicate (16 - length bs) 0 @ drop e bs))
             else if ell \<noteq> None then None else Some bs))"

text \<open>\<open>netip.ParseAddr\<close>: the first dot, colon or percent sign decides. The flag is \<open>Is4\<close>.\<close>

definition parse_addr :: "string \<Rightarrow> (bool \<times> ip) option" where
  "parse_addr s =
     (case find (\<lambda>c. c \<in> {CHR ''.'', CHR '':'', CHR ''%''}) s of
        None \<Rightarrow> None
      | Some c \<Rightarrow>
          if c = CHR ''.'' then map_option (\<lambda>a. (True, a)) (parse_ipv4 s)
          else if c = CHR '':'' then
            (if CHR ''%'' \<in> set s then None else map_option (\<lambda>a. (False, a)) (parse_ipv6 s))
          else None)"

text \<open>\<open>ParseIP\<close> returns the 16-byte form.\<close>

definition parse_ip :: "string \<Rightarrow> ip option" where
  "parse_ip s =
     (case parse_addr s of
        None \<Rightarrow> None
      | Some (is4, a) \<Rightarrow> if is4 then Some (replicate 10 0 @ [0xFF, 0xFF] @ a) else Some a)"

fun dec_number :: "string \<Rightarrow> int \<Rightarrow> int option" where
  "dec_number [] acc = Some acc"
| "dec_number (c # s) acc = (case dec_value c of None \<Rightarrow> None | Some d \<Rightarrow> dec_number s (acc * 10 + d))"

definition parse_cidr :: "string \<Rightarrow> ip_net option" where
  "parse_cidr s =
     (case index_byte s (CHR ''/'') of
        None \<Rightarrow> None
      | Some i \<Rightarrow>
          (case (parse_addr (take i s), if drop (Suc i) s = [] then None else dec_number (drop (Suc i) s) 0) of
             (Some (is4, a), Some n) \<Rightarrow>
               if n > 8 * int (length a) then None
               else (let m = cidr_mask (nat n) (length a) in
                     Some \<lparr>net_IP = map2 (\<lambda>x y. and x y) a m, net_Mask = m\<rparr>)
           | _ \<Rightarrow> None))"

section \<open>Printing\<close>

definition hex_str :: "int \<Rightarrow> string" where
  "hex_str v =
     (if v < 16 then [hex_digit v]
      else if v < 256 then [hex_digit (v div 16), hex_digit (v mod 16)]
      else if v < 4096 then [hex_digit (v div 256), hex_digit (v div 16 mod 16), hex_digit (v mod 16)]
      else [hex_digit (v div 4096), hex_digit (v div 256 mod 16), hex_digit (v div 16 mod 16),
            hex_digit (v mod 16)])"

fun ipv6_groups :: "ip \<Rightarrow> int list" where
  "ipv6_groups (a # b # r) = (256 * uint a + uint b) # ipv6_groups r"
| "ipv6_groups _ = []"

text \<open>The first longest run of at least two zero groups, as start and end.\<close>

definition zero_run :: "int list \<Rightarrow> nat \<Rightarrow> nat" where
  "zero_run gs i = length (takeWhile (\<lambda>g. g = 0) (drop i gs))"

definition best_run :: "int list \<Rightarrow> (nat \<times> nat) option" where
  "best_run gs =
     fold (\<lambda>i best. let l = zero_run gs i in
        if l \<ge> 2 \<and> (case best of None \<Rightarrow> True | Some (z0, z1) \<Rightarrow> l > z1 - z0) then Some (i, i + l) else best)
       [0..<length gs] None"

fun join_groups :: "int list \<Rightarrow> string" where
  "join_groups [] = []"
| "join_groups [g] = hex_str g"
| "join_groups (g # gs) = hex_str g @ '':'' @ join_groups gs"

definition ipv6_string :: "ip \<Rightarrow> string" where
  "ipv6_string addr =
     (let gs = ipv6_groups addr in
      case best_run gs of
        None \<Rightarrow> join_groups gs
      | Some (z0, z1) \<Rightarrow> join_groups (take z0 gs) @ ''::'' @ join_groups (drop z1 gs))"

text \<open>\<open>IP.String\<close>.\<close>

definition ip_string :: "ip \<Rightarrow> string" where
  "ip_string addr =
     (if addr = [] then ''<nil>''
      else case to4 addr of
        Some [a, b, c, d] \<Rightarrow>
          itoa (uint a) @ ''.'' @ itoa (uint b) @ ''.'' @ itoa (uint c) @ ''.'' @ itoa (uint d)
      | _ \<Rightarrow>
          if length addr = 16 then ipv6_string addr
          else ''?'' @ concat (map (\<lambda>b. [hex_digit (uint b div 16), hex_digit (uint b mod 16)]) addr))"

section \<open>Host and port\<close>

definition last_index :: "string \<Rightarrow> char \<Rightarrow> nat option" where
  "last_index s c = map_option (\<lambda>i. length s - 1 - i) (index_byte (rev s) c)"

definition split_host_port :: "string \<Rightarrow> (string \<times> string) option" where
  "split_host_port hp =
     (case last_index hp (CHR '':'') of
        None \<Rightarrow> None
      | Some i \<Rightarrow>
          if hd hp = CHR ''['' then
            (case index_byte hp (CHR '']'') of
               None \<Rightarrow> None
             | Some e \<Rightarrow>
                 if e + 1 \<noteq> i then None
                 else if CHR ''['' \<in> set (drop 1 hp) \<or> CHR '']'' \<in> set (drop (e + 1) hp) then None
                 else Some (drop 1 (take e hp), drop (Suc i) hp))
          else if CHR '':'' \<in> set (take i hp) then None
          else if CHR ''['' \<in> set hp \<or> CHR '']'' \<in> set hp then None
          else Some (take i hp, drop (Suc i) hp))"

definition join_host_port :: "string \<Rightarrow> string \<Rightarrow> string" where
  "join_host_port host port =
     (if CHR '':'' \<in> set host then ''['' @ host @ '']:'' @ port else host @ '':'' @ port)"

section \<open>Round trip of IPv4 addresses\<close>

lemma dec_value_digit: "0 \<le> n \<Longrightarrow> n < 10 \<Longrightarrow> dec_value (digit n) = Some n"
proof -
  assume "0 \<le> n" "n < 10"
  then have "n \<in> set [0..9]" by simp
  moreover have "\<forall>n \<in> set [0..9]. dec_value (digit n) = Some n" by code_simp
  ultimately show ?thesis by blast
qed

lemma itoa_octet:
  assumes "0 \<le> n" and "n < 256"
  shows "n < 10 \<and> itoa n = [digit n] \<or>
    10 \<le> n \<and> n < 100 \<and> itoa n = [digit (n div 10), digit (n mod 10)] \<or>
    100 \<le> n \<and> itoa n = [digit (n div 100), digit (n div 10 mod 10), digit (n mod 10)]"
proof -
  have "n \<ge> 100 \<Longrightarrow> n div 10 div 10 = n div 100" by simp
  moreover have "n div 100 < 10" using assms by simp
  ultimately show ?thesis using assms
    by (auto simp: itoa.simps [of n] itoa.simps [of "n div 10"] itoa.simps [of "n div 100"])
qed

lemma parse_three_digits:
  "dec_value c1 = Some x \<Longrightarrow> dec_value c2 = Some y \<Longrightarrow> dec_value c3 = Some z \<Longrightarrow>
   x \<noteq> 0 \<Longrightarrow> x \<le> 255 \<Longrightarrow> m = x * 10 + y \<Longrightarrow> m \<le> 255 \<Longrightarrow> n = m * 10 + z \<Longrightarrow> n \<le> 255 \<Longrightarrow>
   parse_ipv4_fields ([c1, c2, c3] @ s) acc 0 0 = parse_ipv4_fields s acc n 3"
  by (simp add: numeral_eq_Suc)

lemma parse_octet:
  assumes "0 \<le> n" and "n < 256"
  shows "\<exists>k > 0. parse_ipv4_fields (itoa n @ s) acc 0 0 = parse_ipv4_fields s acc n k"
proof -
  from itoa_octet [OF assms] consider
    "n < 10" "itoa n = [digit n]"
  | "10 \<le> n" "n < 100" "itoa n = [digit (n div 10), digit (n mod 10)]"
  | "100 \<le> n" "itoa n = [digit (n div 100), digit (n div 10 mod 10), digit (n mod 10)]" by blast
  then show ?thesis
  proof cases
    case 1
    then show ?thesis using assms by (intro exI [of _ 1]) (simp add: dec_value_digit)
  next
    case 2
    then have "dec_value (digit (n div 10)) = Some (n div 10)" "dec_value (digit (n mod 10)) = Some (n mod 10)"
      "n div 10 \<noteq> 0" "n div 10 \<le> 255" by (auto intro!: dec_value_digit)
    with 2 show ?thesis by (intro exI [of _ 2]) (simp add: numeral_eq_Suc)
  next
    case 3
    then have v: "dec_value (digit (n div 100)) = Some (n div 100)"
      "dec_value (digit (n div 10 mod 10)) = Some (n div 10 mod 10)"
      "dec_value (digit (n mod 10)) = Some (n mod 10)"
      using assms by (auto intro!: dec_value_digit)
    have "n div 100 \<noteq> 0" using 3 by auto
    moreover have "n div 100 = n div 10 div 10" by simp
    then have e: "n div 100 * 10 + n div 10 mod 10 = n div 10" "n div 10 * 10 + n mod 10 = n"
      by simp_all
    moreover have "n div 10 \<noteq> 0" "n div 100 \<le> 255" "n div 10 \<le> 255" using 3 assms by auto
    ultimately have "parse_ipv4_fields ([digit (n div 100), digit (n div 10 mod 10), digit (n mod 10)] @ s) acc 0 0
        = parse_ipv4_fields s acc n 3"
      using assms by (intro parse_three_digits [OF v, where m = "n div 10"]) simp_all
    then show ?thesis unfolding 3(2) by (intro exI [of _ 3]) simp
  qed
qed

lemma parse_octet_dot:
  assumes "0 \<le> n" and "n < 256" and "s \<noteq> []" and "length acc < 3"
  shows "parse_ipv4_fields (itoa n @ ''.'' @ s) acc 0 0 = parse_ipv4_fields s (n # acc) 0 0"
proof -
  obtain k where "k > 0" and "parse_ipv4_fields (itoa n @ ''.'' @ s) acc 0 0 = parse_ipv4_fields (''.'' @ s) acc n k"
    using parse_octet [OF assms(1,2)] by blast
  then show ?thesis using assms(3,4) by (simp add: dec_value_def)
qed

lemma itoa_nonempty [simp]: "itoa n \<noteq> []"
  by (subst itoa.simps) simp

lemma parse_ipv4_string:
  "parse_ipv4 (itoa (uint a) @ ''.'' @ itoa (uint b) @ ''.'' @ itoa (uint c) @ ''.'' @ itoa (uint d))
     = Some [a, b, c, d]"
proof -
  have r: "0 \<le> uint x" "uint x < 256" for x :: byte using uint_lt2p [of x] by simp_all
  obtain k where k: "k > 0"
    "parse_ipv4_fields (itoa (uint d) @ []) [uint c, uint b, uint a] 0 0 =
     parse_ipv4_fields [] [uint c, uint b, uint a] (uint d) k"
    using parse_octet [OF r, of d] by blast
  then show ?thesis unfolding parse_ipv4_def using parse_octet_dot [OF r] by simp
qed

lemma ip_string_ipv4:
  "ip_string (ipv4 a b c d) = itoa (uint a) @ ''.'' @ itoa (uint b) @ ''.'' @ itoa (uint c) @ ''.'' @ itoa (uint d)"
proof -
  have "ipv4 a b c d \<noteq> []" by (simp add: ipv4_def)
  then show ?thesis by (simp add: ip_string_def)
qed

lemma ip_string_ipv4_inj:
  "ip_string (ipv4 a b c d) = ip_string (ipv4 a' b' c' d') \<Longrightarrow> [a, b, c, d] = [a', b', c', d']"
  unfolding ip_string_ipv4 by (metis option.inject parse_ipv4_string)

lemma net_lib_examples:
  "parse_ip ''192.168.1.5'' = Some (ipv4 192 168 1 5)"
  "parse_ip ''2001:db8::1'' = Some ([0x20, 0x01, 0x0D, 0xB8] @ replicate 11 0 @ [1])"
  "parse_ip ''::ffff:10.0.0.1'' = Some (ipv4 10 0 0 1)"
  "parse_ip ''127.001'' = None" "parse_ip ''01.2.3.4'' = None" "parse_ip ''[::1]'' = None"
  "ip_string (ipv4 169 254 169 254) = ''169.254.169.254''"
  "ip_string (replicate 15 0 @ [1]) = ''::1''"
  "split_host_port ''[::1]:80'' = Some (''::1'', ''80'')" "split_host_port ''::1'' = None"
  "split_host_port ''host:80'' = Some (''host'', ''80'')"
  "parse_cidr ''172.16.0.0/12'' = Some \<lparr>net_IP = [172, 16, 0, 0], net_Mask = [0xFF, 0xF0, 0, 0]\<rparr>"
  by code_simp+

end
