(* ===== verification/Ssrf.thy ===== *)
theory Ssrf
  imports Net_Lib
begin

text \<open>
  pkg/security/ssrf.go: the checker that keeps outbound requests away from internal addresses.
  The DNS resolver and the dialer are parameters; the range tables are the code's strings, parsed
  by \<^const>\<open>parse_cidr\<close>. Errors are values that carry what the message prints.
\<close>

section \<open>The checker\<close>

definition private_ipv4_ranges :: "string list" where
  "private_ipv4_ranges =
     [''10.0.0.0/8'', ''172.16.0.0/12'', ''192.168.0.0/16'', ''169.254.0.0/16'', ''127.0.0.0/8'',
      ''0.0.0.0/8'', ''100.64.0.0/10'', ''192.0.0.0/24'', ''192.0.2.0/24'', ''198.18.0.0/15'',
      ''198.51.100.0/24'', ''203.0.113.0/24'']"

definition private_ipv6_ranges :: "string list" where
  "private_ipv6_ranges = [''::1/128'', ''fe80::/10'', ''fc00::/7'', ''::ffff:0:0/96'']"

record ssrf_checker =
  sc_ipv4Nets :: "ip_net list"
  sc_ipv6Nets :: "ip_net list"
  sc_allowList :: "(string, bool) gomap"
  sc_allowCIDRs :: "ip_net list"

text \<open>The loop over the operator's allowlist entries.\<close>

fun add_allow_entries :: "string list \<Rightarrow> ssrf_checker \<Rightarrow> ssrf_checker" where
  "add_allow_entries [] sc = sc"
| "add_allow_entries (raw # rest) sc =
     (let entry = trim_space raw in
      if entry = '''' then add_allow_entries rest sc
      else case parse_cidr entry of
        Some n \<Rightarrow> add_allow_entries rest (sc\<lparr>sc_allowCIDRs := sc_allowCIDRs sc @ [n]\<rparr>)
      | None \<Rightarrow>
          (case parse_ip entry of
             Some a \<Rightarrow> add_allow_entries rest
               (sc\<lparr>sc_allowList := AList.update (ip_string a) True (sc_allowList sc)\<rparr>)
           | None \<Rightarrow> add_allow_entries rest
               (sc\<lparr>sc_allowList := AList.update (to_lower entry) True (sc_allowList sc)\<rparr>)))"

text \<open>\<open>NewSSRFChecker\<close>; \<^const>\<open>None\<close> is the panic on a hard-coded range that does not parse.\<close>

fun parse_ranges :: "string list \<Rightarrow> ip_net list option" where
  "parse_ranges [] = Some []"
| "parse_ranges (c # cs) =
     (case parse_cidr c of None \<Rightarrow> None | Some n \<Rightarrow> map_option ((#) n) (parse_ranges cs))"

definition new_ssrf_checker :: "string list \<Rightarrow> ssrf_checker option" where
  "new_ssrf_checker allow_internal =
     (case parse_ranges private_ipv4_ranges of None \<Rightarrow> None | Some v4 \<Rightarrow>
      case parse_ranges private_ipv6_ranges of None \<Rightarrow> None | Some v6 \<Rightarrow>
        Some (add_allow_entries allow_internal
          \<lparr>sc_ipv4Nets = v4, sc_ipv6Nets = v6, sc_allowList = [], sc_allowCIDRs = []\<rparr>))"

definition allow_listed :: "string \<Rightarrow> ssrf_checker \<Rightarrow> bool" where
  "allow_listed key sc \<longleftrightarrow> map_of (sc_allowList sc) key = Some True"

datatype ssrf_error =
    NilAddress
  | CloudMetadata string
  | PrivateRange string ip_net
  | SixToFour string ssrf_error
  | Teredo string ssrf_error
  | PrivateIPv6 string ip_net
  | DnsFailedAllowlisted string string
  | DnsFailed string string
  | NoAddresses string
  | ResolvedToBlocked string ip ssrf_error
  | NoHost string
  | InvalidAddress string
  | NoConnectable string
  | DialFailed string
  | TooManyRedirects

definition metadata_ip :: string where "metadata_ip = ''169.254.169.254''"

text \<open>
  \<open>CheckIP\<close>; a nil address is the empty slice. The two recursive calls are on addresses in IPv4
  form, so the recursion is one level deep.
\<close>

function check_ip :: "ssrf_checker \<Rightarrow> ip \<Rightarrow> ssrf_error option" where
  "check_ip sc addr =
     (if addr = [] then Some NilAddress
      else let ipStr = ip_string addr in
      if allow_listed ipStr sc then None
      else if \<exists>n \<in> set (sc_allowCIDRs sc). net_contains n addr \<or>
          (case to4 addr of None \<Rightarrow> False | Some a4 \<Rightarrow> net_contains n a4) then None
      else if ipStr = metadata_ip then Some (CloudMetadata ipStr)
      else case to4 addr of
        Some a4 \<Rightarrow> map_option (PrivateRange ipStr) (find (\<lambda>n. net_contains n a4) (sc_ipv4Nets sc))
      | None \<Rightarrow>
          (case (if length addr = 16 \<and> addr ! 0 = 0x20 \<and> addr ! 1 = 0x02 then
                   map_option (SixToFour ipStr)
                     (check_ip sc (ipv4 (addr ! 2) (addr ! 3) (addr ! 4) (addr ! 5)))
                 else None) of
             Some e \<Rightarrow> Some e
           | None \<Rightarrow>
          (case (if length addr = 16 \<and> addr ! 0 = 0x20 \<and> addr ! 1 = 0x01 \<and> addr ! 2 = 0 \<and> addr ! 3 = 0 then
                   map_option (Teredo ipStr)
                     (check_ip sc (ipv4 (xor (addr ! 12) 0xFF) (xor (addr ! 13) 0xFF)
                                        (xor (addr ! 14) 0xFF) (xor (addr ! 15) 0xFF)))
                 else None) of
             Some e \<Rightarrow> Some e
           | None \<Rightarrow> map_option (PrivateIPv6 ipStr) (find (\<lambda>n. net_contains n addr) (sc_ipv6Nets sc)))))"
  by pat_completeness auto

termination by (relation "measure (\<lambda>(sc, addr). if to4 addr = None then 1 else 0)") auto

declare check_ip.simps [simp del]

text \<open>
  \<open>CheckHost\<close>: the addresses, or the error. \<open>lookup\<close> is the resolver.
\<close>

fun check_all :: "ssrf_checker \<Rightarrow> string \<Rightarrow> ip list \<Rightarrow> ssrf_error option" where
  "check_all sc host [] = None"
| "check_all sc host (a # as) =
     (case check_ip sc a of Some e \<Rightarrow> Some (ResolvedToBlocked host a e) | None \<Rightarrow> check_all sc host as)"

definition check_host ::
  "(string \<Rightarrow> string + ip list) \<Rightarrow> ssrf_checker \<Rightarrow> string \<Rightarrow> ssrf_error + ip list" where
  "check_host lookup sc host =
     (case parse_ip host of
        Some a \<Rightarrow> (case check_ip sc a of Some e \<Rightarrow> Inl e | None \<Rightarrow> Inr [a])
      | None \<Rightarrow>
          if allow_listed (to_lower host) sc then
            (case lookup host of Inl e \<Rightarrow> Inl (DnsFailedAllowlisted host e) | Inr addrs \<Rightarrow> Inr addrs)
          else
            (case lookup host of
               Inl e \<Rightarrow> Inl (DnsFailed host e)
             | Inr addrs \<Rightarrow>
                 if addrs = [] then Inl (NoAddresses host)
                 else case check_all sc host addrs of Some e \<Rightarrow> Inl e | None \<Rightarrow> Inr addrs))"

text \<open>\<open>extractHost\<close>, \<open>CheckURL\<close> and \<open>CheckRedirect\<close>.\<close>

fun index_sub :: "string \<Rightarrow> string \<Rightarrow> nat option" where
  "index_sub [] p = (if p = [] then Some 0 else None)"
| "index_sub (c # s) p = (if prefix p (c # s) then Some 0 else map_option Suc (index_sub s p))"

fun index_any :: "string \<Rightarrow> string \<Rightarrow> nat option" where
  "index_any [] cs = None"
| "index_any (c # s) cs = (if c \<in> set cs then Some 0 else map_option Suc (index_any s cs))"

definition extract_host :: "string \<Rightarrow> string" where
  "extract_host raw =
     (let url1 = (case index_sub raw ''://'' of Some i \<Rightarrow> drop (i + 3) raw | None \<Rightarrow> raw);
          url2 = (case index_any url1 ''/?#'' of Some i \<Rightarrow> take i url1 | None \<Rightarrow> url1);
          url3 = (case last_index url2 (CHR ''@'') of Some i \<Rightarrow> drop (i + 1) url2 | None \<Rightarrow> url2)
      in case split_host_port url3 of None \<Rightarrow> url3 | Some (host, port) \<Rightarrow> host)"

definition check_url ::
  "(string \<Rightarrow> string + ip list) \<Rightarrow> ssrf_checker \<Rightarrow> string \<Rightarrow> ssrf_error option" where
  "check_url lookup sc raw =
     (let host = extract_host raw in
      if host = '''' then Some (NoHost raw)
      else case check_host lookup sc host of Inl e \<Rightarrow> Some e | Inr _ \<Rightarrow> None)"

definition check_redirect ::
  "(string \<Rightarrow> string + ip list) \<Rightarrow> ssrf_checker \<Rightarrow> string \<Rightarrow> nat \<Rightarrow> ssrf_error option" where
  "check_redirect lookup sc url via = (if via \<ge> 10 then Some TooManyRedirects else check_url lookup sc url)"

text \<open>
  \<open>safeDialContext\<close>: the addresses are tried in turn; \<open>dial\<close> gives the dialer's error, if any,
  for a target. The result is the address connected to.
\<close>

fun dial_loop :: "(string \<Rightarrow> string option) \<Rightarrow> string \<Rightarrow> string \<Rightarrow> ip list \<Rightarrow> string option \<Rightarrow> ssrf_error + ip" where
  "dial_loop dial host port [] last_err =
     (case last_err of Some e \<Rightarrow> Inl (DialFailed e) | None \<Rightarrow> Inl (NoConnectable host))"
| "dial_loop dial host port (a # as) last_err =
     (case dial (join_host_port (ip_string a) port) of
        Some e \<Rightarrow> dial_loop dial host port as (Some e)
      | None \<Rightarrow> Inr a)"

definition safe_dial_context ::
  "(string \<Rightarrow> string + ip list) \<Rightarrow> (string \<Rightarrow> string option) \<Rightarrow> ssrf_checker \<Rightarrow> string \<Rightarrow> ssrf_error + ip" where
  "safe_dial_context lookup dial sc addr =
     (case split_host_port addr of
        None \<Rightarrow> Inl (InvalidAddress addr)
      | Some (host, port) \<Rightarrow>
          (case check_host lookup sc host of
             Inl e \<Rightarrow> Inl e
           | Inr addrs \<Rightarrow> dial_loop dial host port addrs None))"

section \<open>Connections go only to checked addresses\<close>

lemma check_all_None: "check_all sc host as = None \<longleftrightarrow> (\<forall>a \<in> set as. check_ip sc a = None)"
  by (induction as) (auto split: option.split)

lemma check_host_checked:
  "check_host lookup sc host = Inr addrs \<Longrightarrow> a \<in> set addrs \<Longrightarrow>
     check_ip sc a = None \<or> (parse_ip host = None \<and> allow_listed (to_lower host) sc)"
  by (auto simp: check_host_def check_all_None split: option.splits sum.splits if_splits)

lemma dial_loop_Inr: "dial_loop dial host port as e = Inr a \<Longrightarrow> a \<in> set as"
  by (induction as arbitrary: e) (auto split: option.splits)

text \<open>
  C36. Connections are made only to addresses that were checked: whatever the resolver answers
  (also if its answers change from one lookup to the next) and whichever address accepts, a
  connection of the safe transport goes to an address that passed the check, unless the operator
  allowlisted the host name itself.
\<close>

theorem dial_only_checked:
  assumes "safe_dial_context lookup dial sc addr = Inr a"
  shows "check_ip sc a = None \<or>
    (\<exists>host port. split_host_port addr = Some (host, port) \<and> parse_ip host = None \<and>
       allow_listed (to_lower host) sc)"
  using assms check_host_checked dial_loop_Inr
  by (fastforce simp: safe_dial_context_def split: option.splits prod.splits sum.splits)

theorem dial_only_checked_witness:
  "check_ip (the (new_ssrf_checker [])) (ipv4 1 1 1 1) = None"
proof -
  let ?lookup = "\<lambda>_. Inr [ipv4 1 1 1 1] :: string + ip list"
  have s: "safe_dial_context ?lookup (\<lambda>_. None) (the (new_ssrf_checker [])) ''one.one:443'' = Inr (ipv4 1 1 1 1)"
    by code_simp
  have "split_host_port ''one.one:443'' = Some (''one.one'', ''443'')" by code_simp
  moreover have "\<not> allow_listed (to_lower ''one.one'') (the (new_ssrf_checker []))" by code_simp
  ultimately show ?thesis using dial_only_checked [OF s] by auto
qed

section \<open>What the default checker blocks\<close>

definition default_checker :: ssrf_checker where
  "default_checker = the (new_ssrf_checker [])"

definition default_ipv4_nets :: "ip_net list" where
  "default_ipv4_nets =
     [\<lparr>net_IP = [10, 0, 0, 0], net_Mask = [0xFF, 0, 0, 0]\<rparr>,
      \<lparr>net_IP = [172, 16, 0, 0], net_Mask = [0xFF, 0xF0, 0, 0]\<rparr>,
      \<lparr>net_IP = [192, 168, 0, 0], net_Mask = [0xFF, 0xFF, 0, 0]\<rparr>,
      \<lparr>net_IP = [169, 254, 0, 0], net_Mask = [0xFF, 0xFF, 0, 0]\<rparr>,
      \<lparr>net_IP = [127, 0, 0, 0], net_Mask = [0xFF, 0, 0, 0]\<rparr>,
      \<lparr>net_IP = [0, 0, 0, 0], net_Mask = [0xFF, 0, 0, 0]\<rparr>,
      \<lparr>net_IP = [100, 64, 0, 0], net_Mask = [0xFF, 0xC0, 0, 0]\<rparr>,
      \<lparr>net_IP = [192, 0, 0, 0], net_Mask = [0xFF, 0xFF, 0xFF, 0]\<rparr>,
      \<lparr>net_IP = [192, 0, 2, 0], net_Mask = [0xFF, 0xFF, 0xFF, 0]\<rparr>,
      \<lparr>net_IP = [198, 18, 0, 0], net_Mask = [0xFF, 0xFE, 0, 0]\<rparr>,
      \<lparr>net_IP = [198, 51, 100, 0], net_Mask = [0xFF, 0xFF, 0xFF, 0]\<rparr>,
      \<lparr>net_IP = [203, 0, 113, 0], net_Mask = [0xFF, 0xFF, 0xFF, 0]\<rparr>]"

lemma default_checker_exists: "new_ssrf_checker [] \<noteq> None"
  by code_simp

lemma default_checker_simps [simp]:
  "sc_ipv4Nets default_checker = default_ipv4_nets"
  "sc_allowList default_checker = []" "sc_allowCIDRs default_checker = []"
  by code_simp+

text \<open>The reserved IPv4 blocks in dotted-decimal terms.\<close>

definition reserved_ipv4 :: "byte \<Rightarrow> byte \<Rightarrow> byte \<Rightarrow> byte \<Rightarrow> bool" where
  "reserved_ipv4 a b c d \<longleftrightarrow>
     a = 10 \<or> a = 127 \<or> a = 0 \<or>
     (a = 172 \<and> 16 \<le> b \<and> b \<le> 31) \<or> (a = 192 \<and> b = 168) \<or> (a = 169 \<and> b = 254) \<or>
     (a = 100 \<and> 64 \<le> b \<and> b \<le> 127) \<or> (a = 198 \<and> (b = 18 \<or> b = 19)) \<or>
     (a = 192 \<and> b = 0 \<and> (c = 0 \<or> c = 2)) \<or> (a = 198 \<and> b = 51 \<and> c = 100) \<or>
     (a = 203 \<and> b = 0 \<and> c = 113)"

lemma byte_exhaust:
  assumes "\<forall>n \<in> set [0..255]. P (word_of_int n :: byte)"
  shows "P b"
proof -
  have "uint b \<in> set [0..255]" using uint_lt2p [of b] by simp
  with assms show ?thesis by (metis word_of_int_uint)
qed

lemma byte_masks:
  "and b 0xFF = b" "and 0xFF b = b"
  "and b 0xF0 = 0x10 \<longleftrightarrow> 16 \<le> b \<and> b \<le> 31" "and b 0xC0 = 0x40 \<longleftrightarrow> 64 \<le> b \<and> b \<le> 127"
  "and b 0xFE = 18 \<longleftrightarrow> b = 18 \<or> b = 19" for b :: byte
  by (rule byte_exhaust [of _ b], code_simp)+

lemma net_contains_bytes:
  "net_contains \<lparr>net_IP = [n1, n2, n3, n4], net_Mask = [m1, m2, m3, m4]\<rparr> [a, b, c, d] \<longleftrightarrow>
     and a m1 = and n1 m1 \<and> and b m2 = and n2 m2 \<and> and c m3 = and n3 m3 \<and> and d m4 = and n4 m4"
  by (auto simp: net_contains_def network_number_and_mask_def to4_def)

lemma default_nets_contain:
  "(\<exists>n \<in> set default_ipv4_nets. net_contains n [a, b, c, d]) \<longleftrightarrow> reserved_ipv4 a b c d"
proof -
  have k: "and 16 240 = (16 :: byte)" "and 64 192 = (64 :: byte)" "and 18 254 = (18 :: byte)"
    by code_simp+
  show ?thesis
    unfolding default_ipv4_nets_def list.set bex_simps net_contains_bytes byte_masks and_zero_eq k
      reserved_ipv4_def simp_thms
    by argo
qed

lemma allow_listed_default [simp]: "\<not> allow_listed k default_checker"
  by (simp add: allow_listed_def)

lemma check_ip_v4:
  assumes "addr \<noteq> []" and "to4 addr = Some a4"
  shows "check_ip default_checker addr = None \<longleftrightarrow>
    ip_string addr \<noteq> metadata_ip \<and> \<not> (\<exists>n \<in> set default_ipv4_nets. net_contains n a4)"
  using assms by (subst check_ip.simps) (auto simp: Let_def find_None_iff)

lemma metadata_is_reserved:
  "ip_string (ipv4 a b c d) = metadata_ip \<Longrightarrow> reserved_ipv4 a b c d"
proof -
  assume "ip_string (ipv4 a b c d) = metadata_ip"
  moreover have "metadata_ip = ip_string (ipv4 169 254 169 254)" by code_simp
  ultimately have "[a, b, c, d] = [169, 254, 169, 254]" using ip_string_ipv4_inj by metis
  then show ?thesis by (simp add: reserved_ipv4_def)
qed

lemma ip_string_4: "ip_string [a, b, c, d] = ip_string (ipv4 a b c d)"
  by (simp add: ip_string_ipv4) (simp add: ip_string_def to4_def)

text \<open>
  C37. The default checker's verdict on an IPv4 address, in either of its two byte forms (4 bytes, or
  16 bytes IPv4-mapped), is exactly membership in the reserved blocks written out in dotted
  decimal: private, loopback, link-local with the cloud metadata address, current network,
  carrier-grade NAT, IETF, benchmarking and documentation addresses are refused and nothing else.
\<close>

theorem ipv4_blocked_iff_reserved:
  "(check_ip default_checker (ipv4 a b c d) \<noteq> None) = reserved_ipv4 a b c d \<and>
   (check_ip default_checker [a, b, c, d] \<noteq> None) = reserved_ipv4 a b c d"
proof -
  have n: "ipv4 a b c d \<noteq> []" by (simp add: ipv4_def)
  have t: "to4 [a, b, c, d] = Some [a, b, c, d]" by (simp add: to4_def)
  show ?thesis
    using check_ip_v4 [OF n to4_ipv4] check_ip_v4 [OF list.distinct(2) t] metadata_is_reserved [of a b c d]
    unfolding default_nets_contain ip_string_4 by (elim iffE) (intro conjI iffI; metis)
qed

section \<open>Addresses that embed an IPv4 address\<close>

definition six_to_four :: "byte \<Rightarrow> byte \<Rightarrow> byte \<Rightarrow> byte \<Rightarrow> byte list \<Rightarrow> ip" where
  "six_to_four a b c d rest = [0x20, 0x02, a, b, c, d] @ rest"

definition teredo :: "byte list \<Rightarrow> byte \<Rightarrow> byte \<Rightarrow> byte \<Rightarrow> byte \<Rightarrow> ip" where
  "teredo mid a b c d = [0x20, 0x01, 0, 0] @ mid @ [not a, not b, not c, not d]"

lemma xor_not_ff: "xor (not b) 0xFF = b" "not (xor b 0xFF) = b" for b :: byte
  by (rule byte_exhaust [of _ b], code_simp)+

lemma tunnel_ip_string_not_metadata:
  assumes "length addr = 16" and "hd addr = 0x20"
  shows "to4 addr = None"
proof -
  have "hd (take 12 addr) = 0x20" using assms by (cases addr) auto
  moreover have "hd (replicate 10 0 @ [0xFF, 0xFF]) = (0 :: byte)" by simp
  moreover have "(0x20 :: byte) \<noteq> 0" by simp
  ultimately have "take 12 addr \<noteq> replicate 10 0 @ [0xFF, 0xFF]" by metis
  with assms(1) show ?thesis by (simp add: to4_def)
qed

text \<open>
  Tunnel encodings do not bypass the IPv4 rules: a 6to4 or Teredo address is refused whenever
  the IPv4 address it embeds is refused, whatever its other bytes are, under any operator
  allowlist that does not itself cover the tunnel address.
\<close>

theorem tunnels_do_not_bypass:
  assumes "check_ip sc (ipv4 a b c d) \<noteq> None"
    and "addr = six_to_four a b c d rest \<and> length rest = 10 \<or> addr = teredo mid a b c d \<and> length mid = 8"
    and "\<not> allow_listed (ip_string addr) sc" and "\<not> (\<exists>n \<in> set (sc_allowCIDRs sc). net_contains n addr)"
  shows "check_ip sc addr \<noteq> None"
  using assms(2)
proof
  assume a: "addr = six_to_four a b c d rest \<and> length rest = 10"
  then have "length addr = 16" "hd addr = 0x20" by (simp_all add: six_to_four_def)
  moreover from this have "to4 addr = None" by (rule tunnel_ip_string_not_metadata)
  moreover have "addr ! 0 = 0x20" "addr ! 1 = 0x02" "addr ! 2 = a" "addr ! 3 = b" "addr ! 4 = c" "addr ! 5 = d"
    using a by (simp_all add: six_to_four_def)
  ultimately show ?thesis using assms(1,3,4)
    by (subst check_ip.simps) (auto simp: Let_def)
next
  assume a: "addr = teredo mid a b c d \<and> length mid = 8"
  then have "length addr = 16" "hd addr = 0x20" by (simp_all add: teredo_def)
  moreover from this have "to4 addr = None" by (rule tunnel_ip_string_not_metadata)
  moreover have "addr ! 0 = 0x20" "addr ! 1 = 0x01" "addr ! 2 = 0" "addr ! 3 = 0"
    using a by (simp_all add: teredo_def)
  moreover have "addr ! 12 = not a" "addr ! 13 = not b" "addr ! 14 = not c" "addr ! 15 = not d"
    using a by (simp_all add: teredo_def nth_append numeral_eq_Suc)
  ultimately show ?thesis using assms(1,3,4)
    by (subst check_ip.simps) (auto simp: Let_def xor_not_ff)
qed

theorem tunnels_do_not_bypass_witness:
  "check_ip default_checker (six_to_four 127 0 0 1 (replicate 10 0)) \<noteq> None"
proof (rule tunnels_do_not_bypass [where rest = "replicate 10 0"])
  show "check_ip default_checker (ipv4 127 0 0 1) \<noteq> None" by code_simp
qed simp_all

text \<open>
  The range tables have a hole: the unspecified IPv6 address, which a connection treats as the
  local host, passes the default checker (the IPv4 unspecified address does not), and so do the
  NAT64 and the IPv4-compatible forms of the loopback address.
\<close>

theorem ipv6_loopback_spellings_allowed:
  "check_ip default_checker (ipv4 0 0 0 0) \<noteq> None \<and>
   map (\<lambda>s. map_option (check_ip default_checker) (parse_ip s)) [''::'', ''64:ff9b::7f00:1'', ''::127.0.0.1'']
     = [Some None, Some None, Some None] \<and>
   (\<forall>lookup. check_url lookup default_checker ''http://[::]:8080/admin'' = None)"
proof -
  have e: "extract_host ''http://[::]:8080/admin'' = ''::''" by code_simp
  have p: "parse_ip ''::'' = Some (replicate 16 0)" by code_simp
  have c: "check_ip default_checker (replicate 16 0) = None" by code_simp
  have "check_url lookup default_checker ''http://[::]:8080/admin'' = None" for lookup
    unfolding check_url_def Let_def e check_host_def p
    by (simp only: option.case sum.case c) simp
  moreover have "check_ip default_checker (ipv4 0 0 0 0) \<noteq> None" by code_simp
  moreover have "map (\<lambda>s. map_option (check_ip default_checker) (parse_ip s))
      [''::'', ''64:ff9b::7f00:1'', ''::127.0.0.1''] = [Some None, Some None, Some None]" by code_simp
  ultimately show ?thesis by blast
qed

end
