(* ===== verification/Exec_Approval.thy ===== *)
theory Exec_Approval
  imports Policy Abuse_Limits
begin

text \<open>
  Approval of exec commands on the command line (pkg/security/execapproval.go): the allowlist
  matcher and \<open>ExecApprovalManager\<close>. Standard input is the bytes still to be read. The file
  system is a map from paths to contents with the set of paths that cannot be read; the steps of a
  save fail as an argument says. \<open>encoding/json\<close> is a parameter, read and write locks and log lines
  are not modelled: an operation is one step.
\<close>

section \<open>The matcher\<close>

record glob_match_result =
  gm_Allowed :: bool
  gm_PolicyRule :: string

definition match_exec_allowlist :: "string \<Rightarrow> string list \<Rightarrow> glob_match_result" where
  "match_exec_allowlist command patterns =
     (if length patterns = 0 then
        \<lparr>gm_Allowed = False, gm_PolicyRule = msg_exec_empty (first_token command)\<rparr>
      else if \<exists>pat \<in> set patterns. match_glob pat command then
        \<lparr>gm_Allowed = True, gm_PolicyRule = ''''\<rparr>
      else \<lparr>gm_Allowed = False, gm_PolicyRule = msg_exec_unlisted (first_token command)\<rparr>)"

section \<open>The approval manager\<close>

definition ExecApprovalModeAsk :: string where "ExecApprovalModeAsk = ''ask''"
definition ExecApprovalModeOff :: string where "ExecApprovalModeOff = ''off''"

record approval_result =
  ar_AutoApproved :: bool
  ar_Approved :: bool
  ar_PolicyRule :: string

record exec_approval_manager =
  em_mode :: string
  em_patterns :: "string list"
  em_filePath :: string
  em_reader :: string

definition new_exec_approval_manager :: "string \<Rightarrow> string \<Rightarrow> exec_approval_manager" where
  "new_exec_approval_manager cfg_mode stdin =
     \<lparr>em_mode = (if cfg_mode = '''' then ExecApprovalModeAsk else cfg_mode),
      em_patterns = [], em_filePath = '''', em_reader = stdin\<rparr>"

text \<open>Files: contents by path, and the paths that exist but cannot be read.\<close>

record exec_files =
  ef_contents :: "(string, string) gomap"
  ef_unreadable :: "string list"

datatype load_error = ReadError string | ParseError string

text \<open>\<open>load\<close>: a missing file is not an error.\<close>

definition exec_load ::
  "(string \<Rightarrow> string list option) \<Rightarrow> exec_files \<Rightarrow> exec_approval_manager \<Rightarrow>
     load_error option \<times> exec_approval_manager" where
  "exec_load unmarshal fs m =
     (if em_filePath m \<in> set (ef_unreadable fs) then (Some (ReadError (em_filePath m)), m)
      else case map_of (ef_contents fs) (em_filePath m) of
        None \<Rightarrow> (None, m)
      | Some data \<Rightarrow>
          (case unmarshal data of
             None \<Rightarrow> (Some (ParseError (em_filePath m)), m)
           | Some patterns \<Rightarrow> (None, m\<lparr>em_patterns := patterns\<rparr>)))"

definition with_allowlist_file ::
  "(string \<Rightarrow> string list option) \<Rightarrow> exec_files \<Rightarrow> string \<Rightarrow> exec_approval_manager \<Rightarrow>
     load_error option \<times> exec_approval_manager" where
  "with_allowlist_file unmarshal fs path m = exec_load unmarshal fs (m\<lparr>em_filePath := path\<rparr>)"

text \<open>\<open>save\<close>: every failure is logged and ends it; the new file is written beside the old one.\<close>

definition exec_save ::
  "(string list \<Rightarrow> string) \<Rightarrow> (io_step \<Rightarrow> bool) \<Rightarrow> exec_approval_manager \<Rightarrow> exec_files \<Rightarrow> exec_files" where
  "exec_save marshal fails m fs =
     (if em_filePath m = '''' then fs
      else if fails Marshal then fs
      else let data = marshal (em_patterns m) in
      if fails MkdirAll then fs
      else let tmp = em_filePath m @ ''.tmp'' in
      if fails WriteTemp then fs
      else let fs1 = fs\<lparr>ef_contents := AList.update tmp data (ef_contents fs)\<rparr> in
      if fails Rename then fs1
      else fs1\<lparr>ef_contents := AList.update (em_filePath m) data (AList.delete tmp (ef_contents fs1))\<rparr>)"

definition persist_pattern ::
  "(string list \<Rightarrow> string) \<Rightarrow> (io_step \<Rightarrow> bool) \<Rightarrow> string \<Rightarrow> exec_approval_manager \<Rightarrow> exec_files \<Rightarrow>
     exec_approval_manager \<times> exec_files" where
  "persist_pattern marshal fails pattern m fs =
     (if pattern \<in> set (em_patterns m) then (m, fs)
      else let m' = m\<lparr>em_patterns := em_patterns m @ [pattern]\<rparr> in (m', exec_save marshal fails m' fs))"

text \<open>
  \<open>bufio.Reader.ReadString('\n')\<close>: the line up to the delimiter, or the error at the end of the
  input when the delimiter is missing; in both cases what was read is consumed.
\<close>

definition newline :: char where "newline = CHR 0x0A"

definition read_line :: "string \<Rightarrow> string option \<times> string" where
  "read_line input =
     (case index_byte input newline of
        None \<Rightarrow> (None, [])
      | Some i \<Rightarrow> (Some (take (i + 1) input), drop (i + 1) input))"

definition rule_stdin :: string where
  "rule_stdin = ''exec approval: stdin read failed, denying for safety''"
definition rule_once :: string where "rule_once = ''exec approval: allowed once by user''"
definition rule_denied :: string where "rule_denied = ''exec approval: denied by user''"
definition rule_off :: string where "rule_off = ''exec approval disabled (mode: off)''"
definition rule_always :: "string \<Rightarrow> string" where
  "rule_always pattern = ''exec approval: always allow pattern '' @ go_quote pattern @ '' added''"
definition rule_persistent :: "string \<Rightarrow> string" where
  "rule_persistent pat = ''persistent allowlist match: '' @ go_quote pat"

definition always_pattern :: "string \<Rightarrow> string" where
  "always_pattern command = first_token command @ '' *''"

definition exec_prompt ::
  "(string list \<Rightarrow> string) \<Rightarrow> (io_step \<Rightarrow> bool) \<Rightarrow> string \<Rightarrow> exec_approval_manager \<Rightarrow> exec_files \<Rightarrow>
     approval_result \<times> exec_approval_manager \<times> exec_files" where
  "exec_prompt marshal fails command m fs =
     (case read_line (em_reader m) of
        (None, rest) \<Rightarrow>
          (\<lparr>ar_AutoApproved = False, ar_Approved = False, ar_PolicyRule = rule_stdin\<rparr>, m\<lparr>em_reader := rest\<rparr>, fs)
      | (Some line, rest) \<Rightarrow>
          (let m1 = m\<lparr>em_reader := rest\<rparr>; answer = to_lower (trim_space line) in
           if answer \<in> {'''', ''y''} then
             (\<lparr>ar_AutoApproved = False, ar_Approved = True, ar_PolicyRule = rule_once\<rparr>, m1, fs)
           else if answer \<in> {''a'', ''always'', ''always allow''} then
             (let pattern = always_pattern command in
              (\<lparr>ar_AutoApproved = True, ar_Approved = True, ar_PolicyRule = rule_always pattern\<rparr>,
               persist_pattern marshal fails pattern m1 fs))
           else (\<lparr>ar_AutoApproved = False, ar_Approved = False, ar_PolicyRule = rule_denied\<rparr>, m1, fs)))"

definition check_approval ::
  "(string list \<Rightarrow> string) \<Rightarrow> (io_step \<Rightarrow> bool) \<Rightarrow> string \<Rightarrow> exec_approval_manager \<Rightarrow> exec_files \<Rightarrow>
     approval_result \<times> exec_approval_manager \<times> exec_files" where
  "check_approval marshal fails command m fs =
     (if em_mode m = ExecApprovalModeOff then
        (\<lparr>ar_AutoApproved = False, ar_Approved = True, ar_PolicyRule = rule_off\<rparr>, m, fs)
      else case find (\<lambda>pat. match_glob pat command) (em_patterns m) of
        Some pat \<Rightarrow>
          (\<lparr>ar_AutoApproved = True, ar_Approved = True, ar_PolicyRule = rule_persistent pat\<rparr>, m, fs)
      | None \<Rightarrow> exec_prompt marshal fails command m fs)"

section \<open>What an answer grants\<close>

text \<open>The answer the user would give now, as the prompt reads it.\<close>

definition next_answer :: "exec_approval_manager \<Rightarrow> string option" where
  "next_answer m = map_option (\<lambda>l. to_lower (trim_space l)) (fst (read_line (em_reader m)))"

definition always_answers :: "string set" where
  "always_answers = {''a'', ''always'', ''always allow''}"

lemma find_glob_None [simp]:
  "find (\<lambda>pat. match_glob pat c) ps = None \<longleftrightarrow> (\<forall>pat \<in> set ps. \<not> match_glob pat c)"
  unfolding find_None_iff by blast

text \<open>A prompt is shown: the mode does not disable it and no stored pattern matches.\<close>

definition must_ask :: "exec_approval_manager \<Rightarrow> string \<Rightarrow> bool" where
  "must_ask m command \<longleftrightarrow>
     em_mode m \<noteq> ExecApprovalModeOff \<and> (\<forall>p \<in> set (em_patterns m). \<not> glob_spec p command)"

lemma persist_pattern_mode [simp]:
  "em_mode (fst (persist_pattern marshal fails p m fs)) = em_mode m"
  "em_filePath (fst (persist_pattern marshal fails p m fs)) = em_filePath m"
  "em_reader (fst (persist_pattern marshal fails p m fs)) = em_reader m"
  by (simp_all add: persist_pattern_def Let_def)

lemma persist_pattern_set [simp]:
  "set (em_patterns (fst (persist_pattern marshal fails p m fs))) = insert p (set (em_patterns m))"
  by (auto simp: persist_pattern_def Let_def)

lemma persist_pattern_distinct [simp]:
  "distinct (em_patterns (fst (persist_pattern marshal fails p m fs))) \<longleftrightarrow> distinct (em_patterns m)"
  by (auto simp: persist_pattern_def Let_def)

lemma check_approval_asks:
  "must_ask m command \<Longrightarrow> check_approval marshal fails command m fs = exec_prompt marshal fails command m fs"
  unfolding must_ask_def check_approval_def match_glob_spec [symmetric]
  by (auto split: option.split) (metis find_glob_None option.distinct(1))

lemma check_approval_silent:
  "\<not> must_ask m command \<Longrightarrow>
     \<exists>r. check_approval marshal fails command m fs = (r, m, fs) \<and> ar_Approved r \<and>
       (em_mode m \<noteq> ExecApprovalModeOff \<longrightarrow> ar_AutoApproved r)"
  unfolding must_ask_def check_approval_def match_glob_spec [symmetric]
  by (auto split: option.split)

lemma distinct_singleton: "distinct xs \<Longrightarrow> set xs = {x} \<Longrightarrow> xs = [x]"
proof (cases xs)
  case (Cons y ys)
  assume a: "distinct xs" "set xs = {x}"
  then have "y = x" "x \<notin> set ys" "set ys \<subseteq> {x}" by (auto simp: Cons)
  then have "ys = []" by (cases ys) auto
  with Cons \<open>y = x\<close> show ?thesis by simp
qed simp

lemma exec_prompt_by_answer:
  "exec_prompt marshal fails command m fs =
     (let m1 = m\<lparr>em_reader := snd (read_line (em_reader m))\<rparr> in
      case next_answer m of
        None \<Rightarrow> (\<lparr>ar_AutoApproved = False, ar_Approved = False, ar_PolicyRule = rule_stdin\<rparr>, m1, fs)
      | Some a \<Rightarrow>
          if a \<in> {'''', ''y''} then
            (\<lparr>ar_AutoApproved = False, ar_Approved = True, ar_PolicyRule = rule_once\<rparr>, m1, fs)
          else if a \<in> always_answers then
            (\<lparr>ar_AutoApproved = True, ar_Approved = True, ar_PolicyRule = rule_always (always_pattern command)\<rparr>,
             persist_pattern marshal fails (always_pattern command) m1 fs)
          else (\<lparr>ar_AutoApproved = False, ar_Approved = False, ar_PolicyRule = rule_denied\<rparr>, m1, fs))"
  unfolding exec_prompt_def next_answer_def always_answers_def Let_def
  by (cases "read_line (em_reader m)") (auto split: option.split)

text \<open>
  A command is approved exactly when prompting is off, a stored pattern matches all of it, or
  the user answers the prompt with one of the accepting answers; an end of input denies. Only an
  "always" answer changes the stored patterns, by adding the pattern of that command, once.
\<close>

theorem check_approval_decides:
  assumes "check_approval marshal fails command m fs = (r, m', fs')" and "distinct (em_patterns m)"
  shows "ar_Approved r = (if must_ask m command
       then next_answer m \<in> Some ` ({'''', ''y''} \<union> always_answers) else True) \<and>
     set (em_patterns m') = (if must_ask m command \<and> next_answer m \<in> Some ` always_answers
       then insert (always_pattern command) (set (em_patterns m)) else set (em_patterns m)) \<and>
     distinct (em_patterns m') \<and> em_mode m' = em_mode m"
proof (cases "must_ask m command")
  case True
  note e = assms(1) [unfolded check_approval_asks [OF True] exec_prompt_by_answer Let_def]
  have n: "'''' \<notin> always_answers" "''y'' \<notin> always_answers" by (auto simp: always_answers_def)
  show ?thesis
  proof (cases "next_answer m")
    case None
    with e True assms(2) show ?thesis by auto
  next
    case (Some a)
    let ?m1 = "m\<lparr>em_reader := snd (read_line (em_reader m))\<rparr>"
    consider "a \<in> {'''', ''y''}" | "a \<in> always_answers" "a \<notin> {'''', ''y''}"
      | "a \<notin> always_answers" "a \<notin> {'''', ''y''}" by blast
    then show ?thesis
    proof cases
      case 2
      with e Some have "ar_Approved r" "m' = fst (persist_pattern marshal fails (always_pattern command) ?m1 fs)"
        by (auto split: if_splits)
      with 2 Some True assms(2) show ?thesis by auto
    qed (use e Some True assms(2) n in auto)
  qed
next
  case False
  with check_approval_silent [OF False, of marshal fails fs] assms show ?thesis by auto
qed

theorem check_approval_decides_witness:
  "let m = new_exec_approval_manager ''ask'' (''Always'' @ [newline]);
       (r, m', fs') = check_approval concat (\<lambda>_. False) ''git push'' m \<lparr>ef_contents = [], ef_unreadable = []\<rparr>
   in ar_Approved r \<and> em_patterns m' = [''git *'']"
proof -
  let ?m = "new_exec_approval_manager ''ask'' (''Always'' @ [newline])"
  let ?fs = "\<lparr>ef_contents = [], ef_unreadable = []\<rparr>"
  obtain r m' fs' where c: "check_approval concat (\<lambda>_. False) ''git push'' ?m ?fs = (r, m', fs')"
    by (metis surj_pair)
  have p: "em_patterns ?m = []" by (simp add: new_exec_approval_manager_def)
  have a: "next_answer ?m = Some ''always''" "always_pattern ''git push'' = ''git *''" by code_simp+
  have k: "must_ask ?m ''git push''" unfolding must_ask_def p
    by (simp add: new_exec_approval_manager_def ExecApprovalModeOff_def)
  have d: "distinct (em_patterns ?m)" unfolding p by simp
  note r = check_approval_decides [OF c d, unfolded a p]
  have "set (em_patterns m') = {''git *''}" "distinct (em_patterns m')" "ar_Approved r"
    using r k by (simp_all add: always_answers_def)
  then have "em_patterns m' = [''git *'']" using distinct_singleton [of "em_patterns m'"] by simp
  with c \<open>ar_Approved r\<close> show ?thesis by simp
qed

text \<open>The blank that follows the binary in the persisted pattern is part of what must match.\<close>

lemma glob_spec_literal_append:
  "glob_spec p (drop (length b) s) \<Longrightarrow> prefix b s \<Longrightarrow> glob_spec (b @ p) s"
proof (induction b arbitrary: s)
  case (Cons c b)
  then obtain s' where s: "s = c # s'" "prefix b s'" by (auto simp: prefix_def)
  with Cons have "glob_spec (b @ p) s'" by simp
  with s show ?case
    by (cases "c = star") (auto simp del: glob_spec.simps(2) simp: glob_spec_star, simp_all,
        metis drop_Suc_Cons drop0)
qed simp

lemma always_pattern_prefix:
  "prefix (first_token command @ '' '') c \<Longrightarrow> glob_spec (always_pattern command) c"
  unfolding always_pattern_def
  using glob_spec_literal_append [of "[star]" "first_token command @ '' ''" c] mg.universal
  by (simp add: match_glob_spec star_def del: glob_spec.simps)

lemma always_pattern_exact:
  "star \<notin> set (first_token command) \<Longrightarrow> qmark \<notin> set (first_token command) \<Longrightarrow>
     glob_spec (always_pattern command) c \<longleftrightarrow> prefix (first_token command @ '' '') c"
  using mg.append_star [of "first_token command @ '' ''" c]
  by (simp add: always_pattern_def match_glob_spec star_def qmark_def del: glob_spec.simps)

text \<open>
  What "always" grants. Every later command that starts with the same first word and a blank
  is approved without reading the input; when the word has no wildcard, exactly these commands are
  newly approved, so that a command that is only the word (no argument) is asked for again.
\<close>

theorem always_allow_grants:
  assumes "check_approval marshal fails command m fs = (r, m', fs')"
    and "must_ask m command" and "next_answer m \<in> Some ` always_answers"
  shows "(prefix (first_token command @ '' '') c \<longrightarrow>
      (\<exists>r'. check_approval marshal fails c m' fs' = (r', m', fs') \<and> ar_Approved r' \<and> ar_AutoApproved r')) \<and>
    (star \<notin> set (first_token command) \<and> qmark \<notin> set (first_token command) \<longrightarrow>
      must_ask m' c = (must_ask m c \<and> \<not> prefix (first_token command @ '' '') c) \<and>
      (first_token command = command \<longrightarrow> must_ask m' command))"
proof -
  obtain a where a: "next_answer m = Some a" "a \<in> always_answers" "a \<notin> {'''', ''y''}"
    using assms(3) by (auto simp: always_answers_def)
  let ?m1 = "m\<lparr>em_reader := snd (read_line (em_reader m))\<rparr>"
  have m': "m' = fst (persist_pattern marshal fails (always_pattern command) ?m1 fs)"
    using assms(1) a by (auto simp: check_approval_asks [OF assms(2)] exec_prompt_by_answer Let_def)
  then have ask: "must_ask m' c = (must_ask m c \<and> \<not> glob_spec (always_pattern command) c)" for c
    unfolding must_ask_def by auto
  have on: "em_mode m' \<noteq> ExecApprovalModeOff" using assms(2) m' by (simp add: must_ask_def)
  have "prefix (first_token command @ '' '') c \<longrightarrow> \<not> must_ask m' c"
    using ask always_pattern_prefix by blast
  then show ?thesis
    using check_approval_silent [of m' c marshal fails fs'] on ask always_pattern_exact assms(2)
    by (auto dest: prefix_length_le)
qed

theorem always_allow_grants_witness:
  "let m = new_exec_approval_manager ''ask'' (''a'' @ [newline]);
       (r, m', fs') = check_approval concat (\<lambda>_. False) ''ls'' m \<lparr>ef_contents = [], ef_unreadable = []\<rparr>
   in must_ask m' ''ls'' \<and> \<not> must_ask m' ''ls -l'' \<and> must_ask m' ''lsof''"
proof -
  let ?m = "new_exec_approval_manager ''ask'' (''a'' @ [newline])"
  let ?fs = "\<lparr>ef_contents = [], ef_unreadable = []\<rparr>"
  obtain r m' fs' where c: "check_approval concat (\<lambda>_. False) ''ls'' ?m ?fs = (r, m', fs')"
    by (metis surj_pair)
  have k: "must_ask ?m s" for s
    by (simp add: must_ask_def new_exec_approval_manager_def ExecApprovalModeOff_def)
  have a: "next_answer ?m \<in> Some ` always_answers" unfolding always_answers_def by code_simp
  have t: "first_token ''ls'' = ''ls''" by code_simp
  note g = always_allow_grants [OF c k a, unfolded t]
  show ?thesis
    using g [of "''ls''"] g [of "''ls -l''"] g [of "''lsof''"] k c by (simp add: star_def qmark_def)
qed

section \<open>The stored allowlist\<close>

definition save_steps :: "io_step set" where
  "save_steps = {Marshal, MkdirAll, WriteTemp, Rename}"

lemma exec_save_outcome:
  assumes "em_filePath m \<noteq> ''''"
  shows "map_of (ef_contents (exec_save marshal fails m fs)) (em_filePath m) =
      (if \<exists>s \<in> save_steps. fails s then map_of (ef_contents fs) (em_filePath m)
       else Some (marshal (em_patterns m)))"
    and "ef_unreadable (exec_save marshal fails m fs) = ef_unreadable fs"
proof -
  have "em_filePath m @ ''.tmp'' \<noteq> em_filePath m" by simp
  then show "map_of (ef_contents (exec_save marshal fails m fs)) (em_filePath m) =
      (if \<exists>s \<in> save_steps. fails s then map_of (ef_contents fs) (em_filePath m)
       else Some (marshal (em_patterns m)))"
    using assms by (auto simp: exec_save_def save_steps_def Let_def)
qed (auto simp: exec_save_def Let_def)

text \<open>
  The allowlist survives a restart: a manager that loads the file after a pattern was added has
  exactly the patterns of the manager that added it; when a step of the save fails, it has the
  patterns that were stored before, never a partial file.
\<close>

theorem exec_allowlist_survives_restart:
  assumes "persist_pattern marshal fails p m fs = (m', fs')" and "p \<notin> set (em_patterns m)"
    and path: "em_filePath m \<noteq> ''''" "em_filePath m \<notin> set (ef_unreadable fs)"
    and json: "unmarshal (marshal (em_patterns m @ [p])) = Some (em_patterns m @ [p])"
    and stored: "map_of (ef_contents fs) (em_filePath m) = Some old" "unmarshal old = Some (em_patterns m)"
  shows "(case with_allowlist_file unmarshal fs' (em_filePath m) (new_exec_approval_manager mode stdin) of
     (err, m2) \<Rightarrow> err = None \<and>
       em_patterns m2 = (if \<exists>s \<in> save_steps. fails s then em_patterns m else em_patterns m') \<and>
       em_patterns m' = em_patterns m @ [p])"
proof -
  let ?m = "m\<lparr>em_patterns := em_patterns m @ [p]\<rparr>"
  have "m' = ?m" and fs': "fs' = exec_save marshal fails ?m fs"
    using assms(1,2) by (auto simp: persist_pattern_def Let_def)
  moreover have "map_of (ef_contents fs') (em_filePath m) =
      (if \<exists>s \<in> save_steps. fails s then Some old else Some (marshal (em_patterns m @ [p])))"
    and "ef_unreadable fs' = ef_unreadable fs"
    using exec_save_outcome [of ?m marshal fails fs] path stored fs' by auto
  ultimately show ?thesis
    using path json stored by (auto simp: with_allowlist_file_def exec_load_def)
qed

theorem exec_allowlist_survives_restart_witness:
  "let m = \<lparr>em_mode = ''ask'', em_patterns = [''a''], em_filePath = ''f'', em_reader = []\<rparr>;
       fs = \<lparr>ef_contents = [(''f'', ''a'')], ef_unreadable = []\<rparr>;
       (m', fs') = persist_pattern concat (\<lambda>_. False) ''b'' m fs
   in em_patterns (snd (with_allowlist_file (\<lambda>s. Some (map (\<lambda>c. [c]) s)) fs' ''f''
        (new_exec_approval_manager ''ask'' []))) = [''a'', ''b'']"
proof -
  let ?m = "\<lparr>em_mode = ''ask'', em_patterns = [''a''], em_filePath = ''f'', em_reader = []\<rparr>"
  let ?fs = "\<lparr>ef_contents = [(''f'', ''a'')], ef_unreadable = []\<rparr>"
  obtain m' fs' where c: "persist_pattern concat (\<lambda>_. False) ''b'' ?m ?fs = (m', fs')"
    by (metis surj_pair)
  show ?thesis
    using exec_allowlist_survives_restart [OF c, where unmarshal = "\<lambda>s. Some (map (\<lambda>c. [c]) s)"
        and old = "''a''" and mode = "''ask''" and stdin = "[]"] c
    by (simp add: split_beta save_steps_def)
qed

text \<open>The stand-alone matcher agrees with the policy evaluator on a configured allowlist.\<close>

lemma match_exec_allowlist_agrees:
  "e_execAllowedBins e \<noteq> [] \<Longrightarrow>
     gm_Allowed (match_exec_allowlist command (e_execAllowedBins e)) = d_allowed (evaluate_exec e agent command)"
  by (auto simp: match_exec_allowlist_def evaluate_exec_def find_Some_iff split: option.split dest: find_glob_None [THEN iffD1])

end
