(* ===== verification/Runes.thy ===== *)
theory Runes
  imports Go_Prelude
begin

text \<open>
  Text as runes (code points) and as UTF-8 bytes, with the operations of the packages \<open>strings\<close>,
  \<open>unicode\<close> and \<open>unicode/utf8\<close> that work on them. Text is valid UTF-8.
\<close>

section \<open>Runes and bytes\<close>

type_synonym rune = int
type_synonym bytes = "int list"

definition zwnj :: rune where "zwnj = 0x200C"

definition runes :: "string \<Rightarrow> rune list" where "runes s = map of_char s"

definition utf8_rune :: "rune \<Rightarrow> bytes" where
  "utf8_rune r =
     (if r < 0x80 then [r]
      else if r < 0x800 then [0xC0 + r div 64, 0x80 + r mod 64]
      else if r < 0x10000 then [0xE0 + r div 4096, 0x80 + r div 64 mod 64, 0x80 + r mod 64]
      else [0xF0 + r div 262144, 0x80 + r div 4096 mod 64, 0x80 + r div 64 mod 64, 0x80 + r mod 64])"

definition utf8 :: "rune list \<Rightarrow> bytes" where
  "utf8 rs = concat (map utf8_rune rs)"

definition continuation :: "int \<Rightarrow> bool" where
  "continuation b \<longleftrightarrow> 0x80 \<le> b \<and> b < 0xC0"

text \<open>\<open>utf8.RuneCountInString\<close> on valid text: the bytes that start a rune.\<close>

definition rune_count :: "bytes \<Rightarrow> nat" where
  "rune_count bs = length (filter (\<lambda>b. \<not> continuation b) bs)"

text \<open>\<open>unicode.ToLower\<close>, with the table beyond ASCII as an argument.\<close>

definition lower_rune :: "(rune \<Rightarrow> rune) \<Rightarrow> rune \<Rightarrow> rune" where
  "lower_rune tbl r =
     (if r < 0x80 then (if 65 \<le> r \<and> r \<le> 90 then r + 32 else r)
      else if r = zwnj then zwnj else tbl r)"

text \<open>\<open>strings.Index\<close>.\<close>

fun index_of :: "bytes \<Rightarrow> bytes \<Rightarrow> nat option" where
  "index_of [] p = (if p = [] then Some 0 else None)"
| "index_of (c # s) p = (if prefix p (c # s) then Some 0 else map_option Suc (index_of s p))"

end
