(* ===== verification/Go_Regexp.thy ===== *)
theory Go_Regexp
  imports Go_Prelude
begin

text \<open>
  The part of Go's regular expressions the error classifier uses: literals, classes, alternation,
  greedy repetition, word boundaries and one capture group, with leftmost-first matching. A state
  is the character before the position, the rest of the subject and the captured text;
  \<open>rx_match\<close> lists the states a match can end in, in the order of preference.
\<close>

datatype regex =
    REmpty
  | RLit string
  | RClass "char \<Rightarrow> bool"
  | RSeq regex regex
  | RAlt regex regex
  | RStar regex
  | RWordBoundary
  | RGroup regex

definition ropt :: "regex \<Rightarrow> regex" where "ropt a = RAlt a REmpty"
definition rplus :: "regex \<Rightarrow> regex" where "rplus a = RSeq a (RStar a)"

fun rseq :: "regex list \<Rightarrow> regex" where
  "rseq [] = REmpty"
| "rseq (a # rs) = RSeq a (rseq rs)"

fun ralts :: "string list \<Rightarrow> regex" where
  "ralts [] = REmpty"
| "ralts [s] = RLit s"
| "ralts (s # ss) = RAlt (RLit s) (ralts ss)"

type_synonym rx_state = "char option \<times> string \<times> string option"

definition rx_rest :: "rx_state \<Rightarrow> string" where "rx_rest st = fst (snd st)"

definition char_between :: "char \<times> char \<Rightarrow> char \<Rightarrow> bool" where
  "char_between r c \<longleftrightarrow> fst r \<le> c \<and> c \<le> snd r"

definition is_digit :: "char \<Rightarrow> bool" where
  "is_digit = char_between (CHR ''0'', CHR ''9'')"

definition word_ranges :: "(char \<times> char) list" where
  "word_ranges = [(CHR ''0'', CHR ''9''), (CHR ''A'', CHR ''Z''), (CHR ''_'', CHR ''_''), (CHR ''a'', CHR ''z'')]"

definition is_word :: "char \<Rightarrow> bool" where
  "is_word c \<longleftrightarrow> list_ex (\<lambda>r. char_between r c) word_ranges"

text \<open>The class \<open>\s\<close> of Go (no vertical tab) and the dot (no newline).\<close>

definition rx_space :: "char \<Rightarrow> bool" where
  "rx_space c \<longleftrightarrow> c \<in> {CHR 0x09, CHR 0x0A, CHR 0x0C, CHR 0x0D, CHR 0x20}"

definition rx_dot :: "char \<Rightarrow> bool" where "rx_dot c \<longleftrightarrow> c \<noteq> CHR 0x0A"

definition word_at :: "char option \<Rightarrow> bool" where
  "word_at c = (case c of None \<Rightarrow> False | Some d \<Rightarrow> is_word d)"

definition next_char :: "string \<Rightarrow> char option" where
  "next_char s = (case s of [] \<Rightarrow> None | c # _ \<Rightarrow> Some c)"

function rx_match :: "regex \<Rightarrow> rx_state \<Rightarrow> rx_state list" where
  "rx_match REmpty st = [st]"
| "rx_match (RLit l) (prev, s, cap) =
     (if prefix l s then [(if l = [] then prev else Some (last l), drop (length l) s, cap)] else [])"
| "rx_match (RClass P) (prev, s, cap) =
     (case s of [] \<Rightarrow> [] | c # s' \<Rightarrow> if P c then [(Some c, s', cap)] else [])"
| "rx_match (RSeq a b) st = concat (map (rx_match b) (rx_match a st))"
| "rx_match (RAlt a b) st = rx_match a st @ rx_match b st"
| "rx_match (RStar a) st =
     concat (map (rx_match (RStar a)) (filter (\<lambda>st'. length (rx_rest st') < length (rx_rest st)) (rx_match a st))) @ [st]"
| "rx_match RWordBoundary (prev, s, cap) = (if word_at prev \<noteq> word_at (next_char s) then [(prev, s, cap)] else [])"
| "rx_match (RGroup a) (prev, s, cap) =
     map (\<lambda>(prev', s', _). (prev', s', Some (take (length s - length s') s))) (rx_match a (prev, s, cap))"
  by pat_completeness auto

termination
  by (relation "measures [\<lambda>(r, st). size r, \<lambda>(r, st). length (rx_rest st)]") auto

text \<open>\<open>MatchString\<close> and the group of \<open>FindStringSubmatch\<close>: the leftmost match.\<close>

fun rx_search :: "regex \<Rightarrow> char option \<Rightarrow> string \<Rightarrow> rx_state option" where
  "rx_search r prev s =
     (case rx_match r (prev, s, None) of
        m # _ \<Rightarrow> Some m
      | [] \<Rightarrow> (case s of [] \<Rightarrow> None | c # s' \<Rightarrow> rx_search r (Some c) s'))"

declare rx_search.simps [simp del]

definition match_string :: "regex \<Rightarrow> string \<Rightarrow> bool" where
  "match_string r s \<longleftrightarrow> rx_search r None s \<noteq> None"

definition find_submatch :: "regex \<Rightarrow> string \<Rightarrow> string option" where
  "find_submatch r s = (case rx_search r None s of None \<Rightarrow> None | Some (_, _, cap) \<Rightarrow> cap)"

lemma rx_match_subset:
  "st' \<in> set (rx_match r st) \<Longrightarrow> suffix (rx_rest st') (rx_rest st)"
proof (induction r st arbitrary: st' rule: rx_match.induct)
  case (2 l prev s cap)
  then show ?case by (auto simp: rx_rest_def suffix_drop split: if_splits)
next
  case (3 P prev s cap)
  then show ?case by (auto simp: rx_rest_def suffix_Cons split: list.splits if_splits)
next
  case (4 a b st)
  then obtain m where "m \<in> set (rx_match a st)" "st' \<in> set (rx_match b m)"
    unfolding rx_match.simps(4) set_concat set_map by blast
  with 4 show ?case by (meson suffix_order.trans)
next
  case (6 a st)
  from 6(3) consider "st' = st"
    | m where "m \<in> set (rx_match a st)" "length (rx_rest m) < length (rx_rest st)" "st' \<in> set (rx_match (RStar a) m)"
    by (subst (asm) rx_match.simps(6)) (auto simp del: rx_match.simps)
  then show ?case
  proof cases
    case 2
    from 2(1,2) have "m \<in> set (filter (\<lambda>st'. length (rx_rest st') < length (rx_rest st)) (rx_match a st))"
      by (simp del: rx_match.simps)
    from 6(2) [OF this 2(3)] 6(1) [OF 2(1)] show ?thesis by (rule suffix_order.trans)
  qed (simp del: rx_match.simps)
next
  case (8 a prev s cap)
  then show ?case by (fastforce simp: rx_rest_def)
qed (auto split: if_splits)

text \<open>A literal is found exactly when it occurs.\<close>

lemma match_string_literal: "match_string (RLit l) s \<longleftrightarrow> contains_sub s l"
proof -
  have "rx_search (RLit l) prev s \<noteq> None \<longleftrightarrow> sublist l s" for prev
  proof (induction s arbitrary: prev)
    case Nil
    show ?case by (subst rx_search.simps) auto
  next
    case (Cons c s)
    then show ?case by (subst rx_search.simps) (auto simp: sublist_Cons_right)
  qed
  then show ?thesis by (simp add: match_string_def contains_sub_iff)
qed

lemma regexp_examples:
  "match_string (rseq [RLit ''exceeded'', RStar (RClass rx_dot), RLit ''quota'']) ''exceeded your quota''"
  "\<not> match_string (rseq [RWordBoundary, RLit ''402'', RWordBoundary]) ''code 4021''"
  "find_submatch (rseq [RLit ''status'', rplus (RClass (\<lambda>c. c = CHR '':'' \<or> rx_space c)),
       RGroup (rseq [RClass is_digit, RClass is_digit, RClass is_digit])]) ''got status: 4290'' = Some ''429''"
  by code_simp+

end
