(* ===== verification/Error_Classifier.thy ===== *)
theory Error_Classifier
  imports Go_Regexp
begin

text \<open>
  Classification of provider errors (pkg/providers/error_classifier.go and the types of types.go):
  which errors make the fallback chain try the next model. An error is what the classifier looks at:
  whether it wraps \<open>context.Canceled\<close> or \<open>context.DeadlineExceeded\<close>, and its text. Texts
  are ASCII; the case-insensitive flag of the patterns is without effect, because they are matched
  against the lower-cased text.
\<close>

section \<open>Reasons and errors\<close>

datatype failover_reason =
    FailoverAuth | FailoverRateLimit | FailoverBilling | FailoverTimeout | FailoverFormat
  | FailoverContextOverflow | FailoverOverloaded | FailoverUnknown

record run_error =
  re_canceled :: bool
  re_deadline :: bool
  re_text :: string

record failover_error =
  fo_Reason :: failover_reason
  fo_Provider :: string
  fo_Model :: string
  fo_Status :: int
  fo_Wrapped :: run_error

definition is_retriable :: "failover_error \<Rightarrow> bool" where
  "is_retriable e \<longleftrightarrow> fo_Reason e \<noteq> FailoverFormat \<and> fo_Reason e \<noteq> FailoverContextOverflow"

section \<open>The patterns\<close>

datatype error_pattern = Substr string | Rxp regex

definition three_digits :: regex where
  "three_digits = rseq [RClass is_digit, RClass is_digit, RClass is_digit]"

definition http_status_patterns :: "regex list" where
  "http_status_patterns =
     [rseq [RLit ''status'', rplus (RClass (\<lambda>c. c = CHR '':'' \<or> rx_space c)), RGroup three_digits],
      rseq [RLit ''http'', rplus (RClass (\<lambda>c. c = CHR ''/'' \<or> rx_space c)), RStar (RClass is_digit),
            ropt (RLit ''.''), RStar (RClass is_digit), rplus (RClass rx_space), RGroup three_digits],
      rseq [ralts [''status'', ''code'', ''http'', ''error'', ''returned''], RStar (RClass rx_space),
            ropt (RLit '':''), RStar (RClass rx_space),
            RGroup (rseq [RClass (char_between (CHR ''3'', CHR ''5'')), RClass is_digit, RClass is_digit]),
            RWordBoundary]]"

definition any_chars :: regex where "any_chars = RStar (RClass rx_dot)"
definition spaces :: regex where "spaces = RStar (RClass rx_space)"
definition sep :: regex where "sep = RClass (\<lambda>c. c = CHR ''_'' \<or> c = CHR '' '')"
definition whole_word :: "string \<Rightarrow> regex" where
  "whole_word s = rseq [RWordBoundary, RLit s, RWordBoundary]"

definition rate_limit_patterns :: "error_pattern list" where
  "rate_limit_patterns =
     [Rxp (rseq [RLit ''rate'', sep, RLit ''limit'']),
      Substr ''too many requests'',
      Substr ''429'',
      Substr ''exceeded your current quota'',
      Rxp (rseq [RLit ''exceeded'', any_chars, RLit ''quota'']),
      Rxp (RLit ''resource has been exhausted''),
      Rxp (rseq [RLit ''resource'', any_chars, RLit ''exhausted'']),
      Substr ''resource_exhausted'',
      Substr ''quota exceeded'',
      Substr ''usage limit'']"

definition overloaded_patterns :: "error_pattern list" where
  "overloaded_patterns =
     [Rxp (RLit ''overloaded_error''),
      Rxp (rseq [RLit ''\"type\"'', spaces, RLit '':'', spaces, RLit ''\"overloaded_error\"'']),
      Substr ''overloaded'']"

definition timeout_patterns :: "error_pattern list" where
  "timeout_patterns =
     [Substr ''timeout'', Substr ''timed out'', Substr ''deadline exceeded'', Substr ''context deadline exceeded'']"

definition billing_patterns :: "error_pattern list" where
  "billing_patterns =
     [Rxp (whole_word ''402''), Substr ''payment required'', Substr ''insufficient credits'',
      Substr ''credit balance'', Substr ''plans & billing'', Substr ''insufficient balance'']"

definition auth_patterns :: "error_pattern list" where
  "auth_patterns =
     [Rxp (rseq [RLit ''invalid'', ropt sep, RLit ''api'', ropt sep, RLit ''key'']),
      Substr ''incorrect api key'', Substr ''invalid token'', Substr ''authentication'',
      Substr ''re-authenticate'', Substr ''oauth token refresh failed'', Substr ''unauthorized'',
      Substr ''forbidden'', Substr ''access denied'', Substr ''expired'', Substr ''token has expired'',
      Rxp (whole_word ''401''), Rxp (whole_word ''403''),
      Substr ''no credentials found'', Substr ''no api key found'']"

definition format_patterns :: "error_pattern list" where
  "format_patterns =
     [Substr ''string should match pattern'', Substr ''tool_use.id'', Substr ''tool_use_id'',
      Substr ''messages.1.content.1.tool_use.id'', Substr ''invalid request format'']"

definition context_overflow_patterns :: "error_pattern list" where
  "context_overflow_patterns =
     [Rxp (rseq [RLit ''context'', ropt sep, RLit ''length'', ropt sep, RLit ''exceeded'']),
      Rxp (rseq [RLit ''context'', ropt sep, RLit ''window'', ropt sep, RLit ''exceeded'']),
      Substr ''maximum context length'', Substr ''token limit'', Substr ''too many tokens'',
      Substr ''prompt is too long'', Substr ''request too large'', Substr ''invalidparameter'',
      Substr ''total tokens of image and text exceed'']"

definition image_dimension_patterns :: "error_pattern list" where
  "image_dimension_patterns = [Rxp (RLit ''image dimensions exceed max'')]"

definition image_size_patterns :: "error_pattern list" where
  "image_size_patterns = [Rxp (rseq [RLit ''image exceeds'', any_chars, RLit ''mb''])]"

definition transient_status_codes :: "int list" where
  "transient_status_codes = [500, 502, 503, 521, 522, 523, 524, 529]"

section \<open>Classification\<close>

fun matches_any :: "string \<Rightarrow> error_pattern list \<Rightarrow> bool" where
  "matches_any msg [] = False"
| "matches_any msg (Rxp r # ps) = (match_string r msg \<or> matches_any msg ps)"
| "matches_any msg (Substr s # ps) = (s \<noteq> '''' \<and> contains_sub msg s \<or> matches_any msg ps)"

definition is_image_dimension_error :: "string \<Rightarrow> bool" where
  "is_image_dimension_error msg = matches_any msg image_dimension_patterns"

definition is_image_size_error :: "string \<Rightarrow> bool" where
  "is_image_size_error msg = matches_any msg image_size_patterns"

definition parse_digits :: "string \<Rightarrow> int" where
  "parse_digits s = foldl (\<lambda>n c. if is_digit c then n * 10 + (of_char c - 48) else n) 0 s"

fun extract_status :: "regex list \<Rightarrow> string \<Rightarrow> int" where
  "extract_status [] msg = 0"
| "extract_status (p # ps) msg =
     (case find_submatch p msg of Some m \<Rightarrow> parse_digits m | None \<Rightarrow> extract_status ps msg)"

definition extract_http_status :: "string \<Rightarrow> int" where
  "extract_http_status msg = extract_status http_status_patterns msg"

definition classify_by_status :: "int \<Rightarrow> failover_reason option" where
  "classify_by_status status =
     (if status = 401 \<or> status = 403 then Some FailoverAuth
      else if status = 402 then Some FailoverBilling
      else if status = 408 then Some FailoverTimeout
      else if status = 429 then Some FailoverRateLimit
      else if status = 400 then Some FailoverFormat
      else if status \<in> set transient_status_codes then Some FailoverTimeout
      else None)"

definition classify_by_message :: "string \<Rightarrow> failover_reason option" where
  "classify_by_message msg =
     (if matches_any msg rate_limit_patterns then Some FailoverRateLimit
      else if matches_any msg overloaded_patterns then Some FailoverRateLimit
      else if matches_any msg billing_patterns then Some FailoverBilling
      else if matches_any msg timeout_patterns then Some FailoverTimeout
      else if matches_any msg auth_patterns then Some FailoverAuth
      else if matches_any msg format_patterns then Some FailoverFormat
      else if matches_any msg context_overflow_patterns then Some FailoverContextOverflow
      else None)"

definition classify_error :: "run_error \<Rightarrow> string \<Rightarrow> string \<Rightarrow> failover_error option" where
  "classify_error err provider model =
     (let mk = (\<lambda>reason status. Some \<lparr>fo_Reason = reason, fo_Provider = provider, fo_Model = model,
                  fo_Status = status, fo_Wrapped = err\<rparr>);
          msg = to_lower (re_text err) in
      if re_canceled err then None
      else if re_deadline err then mk FailoverTimeout 0
      else if is_image_dimension_error msg \<or> is_image_size_error msg then mk FailoverFormat 0
      else
        (let status = extract_http_status msg;
             by_msg = (case classify_by_message msg of Some reason \<Rightarrow> mk reason 0 | None \<Rightarrow> None) in
         if status > 0 then
           (case (if status = 400 then classify_by_message msg else None) of
              Some reason \<Rightarrow> mk reason status
            | None \<Rightarrow> (case classify_by_status status of Some reason \<Rightarrow> mk reason status | None \<Rightarrow> by_msg))
         else by_msg))"

section \<open>What decides\<close>

text \<open>
  The digits 429 anywhere in a text decide: whatever surrounds them, an error that is no
  cancellation, deadline or image error and carries no status (or status 400) is a retriable rate
  limit. A context overflow whose token count contains these digits is one of them, while the same
  message with another count is a context overflow that is not retried.
\<close>

theorem digits_429_decide:
  assumes "sublist ''429'' (to_lower (re_text err))" and "\<not> re_canceled err" and "\<not> re_deadline err"
    and "\<not> is_image_dimension_error (to_lower (re_text err))" and "\<not> is_image_size_error (to_lower (re_text err))"
    and "extract_http_status (to_lower (re_text err)) \<in> {0, 400}"
  shows "\<exists>e. classify_error err provider model = Some e \<and> fo_Reason e = FailoverRateLimit \<and> is_retriable e \<and>
     map_option fo_Reason (classify_error \<lparr>re_canceled = False, re_deadline = False,
        re_text = ''status: 400 maximum context length is 4196 tokens''\<rparr> provider model) = Some FailoverContextOverflow"
proof -
  have m: "classify_by_message (to_lower (re_text err)) = Some FailoverRateLimit"
    using assms(1) by (simp add: classify_by_message_def rate_limit_patterns_def contains_sub_iff)
  let ?w = "''status: 400 maximum context length is 4196 tokens''"
  have w: "to_lower ?w = ?w" "classify_by_message ?w = Some FailoverContextOverflow"
    "extract_http_status ?w = 400" "\<not> is_image_dimension_error ?w" "\<not> is_image_size_error ?w"
    by code_simp+
  have "map_option fo_Reason (classify_error \<lparr>re_canceled = False, re_deadline = False, re_text = ?w\<rparr> provider model)
      = Some FailoverContextOverflow"
    unfolding classify_error_def Let_def by (simp add: w)
  moreover have "\<exists>e. classify_error err provider model = Some e \<and> fo_Reason e = FailoverRateLimit"
    unfolding classify_error_def Let_def using assms(2-6) by (auto simp: m)
  ultimately show ?thesis by (auto simp: is_retriable_def)
qed

theorem digits_429_decide_witness:
  "map_option fo_Reason (classify_error \<lparr>re_canceled = False, re_deadline = False,
      re_text = ''Status: 400 maximum context length is 4296 tokens''\<rparr> ''openai'' ''gpt'') = Some FailoverRateLimit"
proof -
  let ?e = "\<lparr>re_canceled = False, re_deadline = False,
      re_text = ''Status: 400 maximum context length is 4296 tokens''\<rparr>"
  have h: "sublist ''429'' (to_lower (re_text ?e))" "\<not> re_canceled ?e" "\<not> re_deadline ?e"
    "\<not> is_image_dimension_error (to_lower (re_text ?e))" "\<not> is_image_size_error (to_lower (re_text ?e))"
    "extract_http_status (to_lower (re_text ?e)) \<in> {0, 400}"
    by code_simp+
  show ?thesis using digits_429_decide [OF h, of "''openai''" "''gpt''"] by auto
qed

end
