(* ===== verification/Cooldown.thy ===== *)
theory Cooldown
  imports Error_Classifier
begin

text \<open>
  The cooldown tracker of the provider fallback (pkg/providers/cooldown.go): exponential backoff per
  key, with a longer one for billing errors, and a 24-hour window after which the counters start
  again. \<^const>\<open>None\<close> is the zero time; the clock is an argument; each method is one step, as
  its mutex makes it. The result is that the few fields of an entry, which forget the individual
  failures, block a key exactly as long as some failure since its last success does.
\<close>

section \<open>State and operations\<close>

record cooldown_entry =
  ce_ErrorCount :: int
  ce_FailureCounts :: "(failover_reason, int) gomap"
  ce_CooldownEnd :: "time option"
  ce_DisabledUntil :: "time option"
  ce_DisabledReason :: "failover_reason option"
  ce_LastFailure :: "time option"

record cooldown_tracker =
  ct_entries :: "(string, cooldown_entry) gomap"
  ct_failureWindow :: duration

definition default_failure_window :: duration where
  "default_failure_window = 24 * hour"

definition new_cooldown_tracker :: cooldown_tracker where
  "new_cooldown_tracker = \<lparr>ct_entries = [], ct_failureWindow = default_failure_window\<rparr>"

definition new_cooldown_entry :: cooldown_entry where
  "new_cooldown_entry =
     \<lparr>ce_ErrorCount = 0, ce_FailureCounts = [], ce_CooldownEnd = None, ce_DisabledUntil = None,
      ce_DisabledReason = None, ce_LastFailure = None\<rparr>"

definition count_of :: "failover_reason \<Rightarrow> (failover_reason, int) gomap \<Rightarrow> int" where
  "count_of r m = (case map_of m r of Some n \<Rightarrow> n | None \<Rightarrow> 0)"

definition calculate_standard_cooldown :: "int \<Rightarrow> duration" where
  "calculate_standard_cooldown error_count =
     (let n = max 1 error_count; e = min (n - 1) 3; ms = 60000 * 5 ^ nat e
      in min 3600000 ms * millisecond)"

definition calculate_billing_cooldown :: "int \<Rightarrow> duration" where
  "calculate_billing_cooldown billing_error_count =
     (let n = max 1 billing_error_count; e = min (n - 1) 10; raw = 5 * 60 * 60 * 1000 * 2 ^ nat e
      in min (24 * 60 * 60 * 1000) raw * millisecond)"

definition get_or_create_entry :: "string \<Rightarrow> cooldown_tracker \<Rightarrow> cooldown_entry" where
  "get_or_create_entry provider ct =
     (case map_of (ct_entries ct) provider of Some e \<Rightarrow> e | None \<Rightarrow> new_cooldown_entry)"

definition mark_failure :: "time \<Rightarrow> string \<Rightarrow> failover_reason \<Rightarrow> cooldown_tracker \<Rightarrow> cooldown_tracker" where
  "mark_failure now provider reason ct =
     (let entry = get_or_create_entry provider ct;
          entry = (case ce_LastFailure entry of
              Some l \<Rightarrow> if now - l > ct_failureWindow ct
                then entry\<lparr>ce_ErrorCount := 0, ce_FailureCounts := []\<rparr> else entry
            | None \<Rightarrow> entry);
          entry = entry\<lparr>ce_ErrorCount := ce_ErrorCount entry + 1,
            ce_FailureCounts := AList.update reason (count_of reason (ce_FailureCounts entry) + 1) (ce_FailureCounts entry),
            ce_LastFailure := Some now\<rparr>;
          entry = (if reason = FailoverBilling then
              entry\<lparr>ce_DisabledUntil := Some (now +
                  calculate_billing_cooldown (count_of FailoverBilling (ce_FailureCounts entry))),
                ce_DisabledReason := Some FailoverBilling\<rparr>
            else entry\<lparr>ce_CooldownEnd := Some (now + calculate_standard_cooldown (ce_ErrorCount entry))\<rparr>)
      in ct\<lparr>ct_entries := AList.update provider entry (ct_entries ct)\<rparr>)"

definition mark_success :: "string \<Rightarrow> cooldown_tracker \<Rightarrow> cooldown_tracker" where
  "mark_success provider ct =
     (case map_of (ct_entries ct) provider of
        None \<Rightarrow> ct
      | Some e \<Rightarrow> ct\<lparr>ct_entries := AList.update provider
          (e\<lparr>ce_ErrorCount := 0, ce_FailureCounts := [], ce_CooldownEnd := None,
             ce_DisabledUntil := None, ce_DisabledReason := None\<rparr>) (ct_entries ct)\<rparr>)"

definition before :: "time \<Rightarrow> time option \<Rightarrow> bool" where
  "before now t = (case t of None \<Rightarrow> False | Some u \<Rightarrow> now < u)"

definition is_available :: "time \<Rightarrow> string \<Rightarrow> cooldown_tracker \<Rightarrow> bool" where
  "is_available now provider ct =
     (case map_of (ct_entries ct) provider of
        None \<Rightarrow> True
      | Some e \<Rightarrow>
          if before now (ce_DisabledUntil e) then False
          else if before now (ce_CooldownEnd e) then False
          else True)"

definition cooldown_remaining :: "time \<Rightarrow> string \<Rightarrow> cooldown_tracker \<Rightarrow> duration" where
  "cooldown_remaining now provider ct =
     (case map_of (ct_entries ct) provider of
        None \<Rightarrow> 0
      | Some e \<Rightarrow>
          (let r1 = (case ce_DisabledUntil e of
                 Some u \<Rightarrow> if now < u then (if u - now > 0 then u - now else 0) else 0 | None \<Rightarrow> 0) in
           case ce_CooldownEnd e of
             Some u \<Rightarrow> if now < u then (if u - now > r1 then u - now else r1) else r1
           | None \<Rightarrow> r1))"

definition error_count :: "string \<Rightarrow> cooldown_tracker \<Rightarrow> int" where
  "error_count provider ct =
     (case map_of (ct_entries ct) provider of None \<Rightarrow> 0 | Some e \<Rightarrow> ce_ErrorCount e)"

definition failure_count :: "string \<Rightarrow> failover_reason \<Rightarrow> cooldown_tracker \<Rightarrow> int" where
  "failure_count provider reason ct =
     (case map_of (ct_entries ct) provider of None \<Rightarrow> 0 | Some e \<Rightarrow> count_of reason (ce_FailureCounts e))"

section \<open>What the failures of a key mean\<close>

text \<open>
  A history is the failures since the last success, newest first. The streak of its newest failure
  are the failures up to it without a gap of more than the window; the penalty of a failure depends
  on its place in its streak.
\<close>

type_synonym failures = "(time \<times> failover_reason) list"

fun streak :: "duration \<Rightarrow> failures \<Rightarrow> failures" where
  "streak w [] = []"
| "streak w [f] = [f]"
| "streak w (f # g # fs) = (if fst f - fst g > w then [f] else f # streak w (g # fs))"

definition billings :: "failures \<Rightarrow> int" where
  "billings fs = int (length (filter (\<lambda>f. snd f = FailoverBilling) fs))"

definition penalty :: "failures \<Rightarrow> duration" where
  "penalty fs =
     (if snd (hd fs) = FailoverBilling
      then calculate_billing_cooldown (billings (streak default_failure_window fs))
      else calculate_standard_cooldown (int (length (streak default_failure_window fs))))"

fun blocked :: "failures \<Rightarrow> time \<Rightarrow> bool" where
  "blocked [] t = False"
| "blocked (f # fs) t = (t < fst f + penalty (f # fs) \<or> blocked fs t)"

datatype cooldown_event = Failure time string failover_reason | Success string

fun cooldown_step :: "cooldown_event \<Rightarrow> cooldown_tracker \<Rightarrow> cooldown_tracker" where
  "cooldown_step (Failure t k r) ct = mark_failure t k r ct"
| "cooldown_step (Success k) ct = mark_success k ct"

definition run_cooldown :: "cooldown_event list \<Rightarrow> cooldown_tracker" where
  "run_cooldown evs = fold cooldown_step evs new_cooldown_tracker"

fun failures_step :: "string \<Rightarrow> cooldown_event \<Rightarrow> failures \<Rightarrow> failures" where
  "failures_step key (Failure t k r) fs = (if k = key then (t, r) # fs else fs)"
| "failures_step key (Success k) fs = (if k = key then [] else fs)"

definition failures_of :: "string \<Rightarrow> cooldown_event list \<Rightarrow> failures" where
  "failures_of key evs = fold (failures_step key) evs []"

fun failure_times :: "cooldown_event list \<Rightarrow> time list" where
  "failure_times [] = []"
| "failure_times (Failure t k r # evs) = t # failure_times evs"
| "failure_times (Success k # evs) = failure_times evs"

section \<open>The fields decide like the history\<close>

lemma standard_cooldown_cases:
  "calculate_standard_cooldown n =
     (if n \<le> 1 then minute else if n = 2 then 5 * minute else if n = 3 then 25 * minute else hour)"
proof -
  consider "n \<le> 1" | "n = 2" | "n = 3" | "n \<ge> 4" by linarith
  then show ?thesis
  proof cases
    case 4
    then have "min (max 1 n - 1) 3 = 3" by simp
    with 4 show ?thesis unfolding calculate_standard_cooldown_def Let_def by simp
  qed (simp_all add: calculate_standard_cooldown_def)
qed

lemma billing_cooldown_cases:
  "calculate_billing_cooldown n =
     (if n \<le> 1 then 5 * hour else if n = 2 then 10 * hour else if n = 3 then 20 * hour else 24 * hour)"
proof -
  consider "n \<le> 1" | "n = 2" | "n = 3" | "n \<ge> 4" by linarith
  then show ?thesis
  proof cases
    case 4
    then have e: "min (max 1 n - 1) 10 = min (n - 1) 10" "3 \<le> nat (min (n - 1) 10)" by simp_all
    from e(2) have "(2::int) ^ 3 \<le> 2 ^ nat (min (n - 1) 10)" by (intro power_increasing) simp_all
    then have "min (24 * 60 * 60 * 1000) (5 * 60 * 60 * 1000 * 2 ^ nat (min (n - 1) 10)) = (24 * 60 * 60 * 1000 :: int)"
      by simp
    with 4 show ?thesis unfolding calculate_billing_cooldown_def Let_def e(1) by simp
  qed (simp_all add: calculate_billing_cooldown_def)
qed

lemma standard_cooldown_bounds: "minute \<le> calculate_standard_cooldown n" "calculate_standard_cooldown n \<le> hour"
  by (simp_all add: standard_cooldown_cases)

lemma billing_cooldown_bounds: "5 * hour \<le> calculate_billing_cooldown n" "calculate_billing_cooldown n \<le> 24 * hour"
  by (simp_all add: billing_cooldown_cases)

lemma standard_cooldown_mono: "m \<le> n \<Longrightarrow> calculate_standard_cooldown m \<le> calculate_standard_cooldown n"
  by (simp add: standard_cooldown_cases)

lemma billing_cooldown_mono: "m \<le> n \<Longrightarrow> calculate_billing_cooldown m \<le> calculate_billing_cooldown n"
  by (simp add: billing_cooldown_cases)

text \<open>Marking one key leaves the others alone.\<close>

lemma get_or_create_mark [simp]:
  "k' \<noteq> k \<Longrightarrow> map_of (ct_entries (mark_failure now k r ct)) k' = map_of (ct_entries ct) k'"
  "k' \<noteq> k \<Longrightarrow> map_of (ct_entries (mark_success k ct)) k' = map_of (ct_entries ct) k'"
  "ct_failureWindow (mark_failure now k r ct) = ct_failureWindow ct"
  "ct_failureWindow (mark_success k ct) = ct_failureWindow ct"
  by (simp_all add: mark_failure_def mark_success_def Let_def split: option.split)

lemma is_available_entry:
  "is_available t k ct \<longleftrightarrow>
     \<not> before t (ce_DisabledUntil (get_or_create_entry k ct)) \<and> \<not> before t (ce_CooldownEnd (get_or_create_entry k ct))"
  by (auto simp: is_available_def get_or_create_entry_def new_cooldown_entry_def before_def split: option.split)

text \<open>
  What an entry remembers of the failures of its key: the counters are those of the newest streak,
  and neither end lies later than the newest failure plus the penalty its counter stands for.
\<close>

definition ends_by :: "time option \<Rightarrow> time \<Rightarrow> bool" where
  "ends_by e u \<longleftrightarrow> (case e of None \<Rightarrow> True | Some v \<Rightarrow> v \<le> u)"

definition entry_counts :: "cooldown_entry \<Rightarrow> failures \<Rightarrow> bool" where
  "entry_counts e fs \<longleftrightarrow>
     ce_ErrorCount e = int (length (streak default_failure_window fs)) \<and>
     count_of FailoverBilling (ce_FailureCounts e) = billings (streak default_failure_window fs) \<and>
     (fs \<noteq> [] \<longrightarrow> ce_LastFailure e = Some (fst (hd fs)))"

definition entry_ends :: "cooldown_entry \<Rightarrow> failures \<Rightarrow> bool" where
  "entry_ends e fs \<longleftrightarrow>
     (if fs = [] then ce_CooldownEnd e = None \<and> ce_DisabledUntil e = None
      else ends_by (ce_CooldownEnd e) (fst (hd fs) + calculate_standard_cooldown (ce_ErrorCount e)) \<and>
        ends_by (ce_DisabledUntil e) (fst (hd fs) + calculate_billing_cooldown (billings (streak default_failure_window fs))))"

definition entry_blocks :: "cooldown_entry \<Rightarrow> failures \<Rightarrow> time \<Rightarrow> bool" where
  "entry_blocks e fs now \<longleftrightarrow>
     (\<forall>t \<ge> now. blocked fs t \<longleftrightarrow> before t (ce_DisabledUntil e) \<or> before t (ce_CooldownEnd e))"

lemma streak_Cons:
  "fs \<noteq> [] \<Longrightarrow> streak w (f # fs) = (if fst f - fst (hd fs) > w then [f] else f # streak w fs)"
  by (cases fs) auto

lemma billings_Cons [simp]:
  "billings (f # fs) = (if snd f = FailoverBilling then 1 else 0) + billings fs" "billings [] = 0"
  by (simp_all add: billings_def)

lemma billings_nonneg: "0 \<le> billings fs"
  by (simp add: billings_def)

text \<open>One failure of the key.\<close>

definition after_failure :: "time \<Rightarrow> failover_reason \<Rightarrow> cooldown_entry \<Rightarrow> cooldown_entry" where
  "after_failure now r e = get_or_create_entry '''' (mark_failure now '''' r
     \<lparr>ct_entries = [('''', e)], ct_failureWindow = default_failure_window\<rparr>)"

lemma get_or_create_mark_failure:
  "ct_failureWindow ct = default_failure_window \<Longrightarrow>
     get_or_create_entry k (mark_failure now k r ct) = after_failure now r (get_or_create_entry k ct)"
  by (simp add: after_failure_def mark_failure_def get_or_create_entry_def Let_def split: option.split)

definition counters_reset :: "time \<Rightarrow> cooldown_entry \<Rightarrow> cooldown_entry" where
  "counters_reset now e =
     (case ce_LastFailure e of
        Some l \<Rightarrow> if now - l > default_failure_window then e\<lparr>ce_ErrorCount := 0, ce_FailureCounts := []\<rparr> else e
      | None \<Rightarrow> e)"

lemma after_failure_fields [simp]:
  "ce_ErrorCount (after_failure now r e) = ce_ErrorCount (counters_reset now e) + 1"
  "count_of FailoverBilling (ce_FailureCounts (after_failure now r e)) =
     count_of FailoverBilling (ce_FailureCounts (counters_reset now e)) + (if r = FailoverBilling then 1 else 0)"
  "ce_LastFailure (after_failure now r e) = Some now"
  "ce_CooldownEnd (after_failure now r e) =
     (if r = FailoverBilling then ce_CooldownEnd e
      else Some (now + calculate_standard_cooldown (ce_ErrorCount (counters_reset now e) + 1)))"
  "ce_DisabledUntil (after_failure now r e) =
     (if r = FailoverBilling
      then Some (now + calculate_billing_cooldown (count_of FailoverBilling (ce_FailureCounts (counters_reset now e)) + 1))
      else ce_DisabledUntil e)"
  unfolding after_failure_def mark_failure_def get_or_create_entry_def counters_reset_def Let_def
  by (auto simp: count_of_def split: option.split)

lemma count_of_Nil [simp]: "count_of r [] = 0"
  by (simp add: count_of_def)

lemma entry_counts_step:
  assumes "entry_counts e fs"
  shows "entry_counts (after_failure now r e) ((now, r) # fs)"
proof (cases "fs = []")
  case True
  with assms have "ce_ErrorCount (counters_reset now e) = 0"
    "count_of FailoverBilling (ce_FailureCounts (counters_reset now e)) = 0"
    by (auto simp: entry_counts_def counters_reset_def split: option.splits)
  with True show ?thesis by (simp add: entry_counts_def)
next
  case False
  with assms show ?thesis
    by (auto simp: entry_counts_def counters_reset_def streak_Cons)
qed

lemma ends_by_None [simp]: "ends_by None u" "ends_by (Some v) u \<longleftrightarrow> v \<le> u"
  by (simp_all add: ends_by_def)

lemma ends_by_mono: "ends_by x u \<Longrightarrow> u \<le> v \<Longrightarrow> ends_by x v"
  by (auto simp: ends_by_def split: option.splits)

lemma before_simps [simp]: "\<not> before t None" "before t (Some u) \<longleftrightarrow> t < u"
  by (simp_all add: before_def)

lemma before_ends_by: "ends_by x u \<Longrightarrow> before t x \<Longrightarrow> t < u"
  by (auto simp: ends_by_def before_def split: option.splits)

text \<open>The penalty of a new failure reaches at least as far as the ends the entry has.\<close>

lemma ends_covered:
  fixes now :: time and r :: failover_reason
  assumes "entry_counts e fs" and "entry_ends e fs" and "fs \<noteq> []" and "fst (hd fs) \<le> now"
  defines "e' \<equiv> after_failure now r e" and "fs' \<equiv> (now, r) # fs"
  shows "\<forall>t \<ge> now. before t (ce_CooldownEnd e) \<longrightarrow> t < now + calculate_standard_cooldown (ce_ErrorCount e')"
    and "\<forall>t \<ge> now. before t (ce_DisabledUntil e) \<longrightarrow>
      t < now + calculate_billing_cooldown (billings (streak default_failure_window fs'))"
proof -
  let ?l = "fst (hd fs)" and ?n = "ce_ErrorCount e" and ?b = "billings (streak default_failure_window fs)"
  have c: "ends_by (ce_CooldownEnd e) (?l + calculate_standard_cooldown ?n)"
    and d: "ends_by (ce_DisabledUntil e) (?l + calculate_billing_cooldown ?b)"
    using assms(2,3) by (auto simp: entry_ends_def)
  have n: "ce_ErrorCount e' = (if now - ?l > default_failure_window then 1 else ?n + 1)"
    using assms(1,3) by (simp add: e'_def counters_reset_def entry_counts_def)
  have b: "?b \<le> billings (streak default_failure_window fs')" if "\<not> now - ?l > default_failure_window"
    using that assms(3) by (simp add: fs'_def streak_Cons)
  note bounds = standard_cooldown_bounds [of ?n] billing_cooldown_bounds [of ?b]
    standard_cooldown_mono [of ?n "?n + 1"] billing_cooldown_mono [of ?b "billings (streak default_failure_window fs')"]
  show "\<forall>t \<ge> now. before t (ce_CooldownEnd e) \<longrightarrow> t < now + calculate_standard_cooldown (ce_ErrorCount e')"
    using before_ends_by [OF c] bounds assms(4) unfolding n default_failure_window_def by fastforce
  show "\<forall>t \<ge> now. before t (ce_DisabledUntil e) \<longrightarrow>
      t < now + calculate_billing_cooldown (billings (streak default_failure_window fs'))"
  proof (intro allI impI)
    fix t assume t: "now \<le> t" "before t (ce_DisabledUntil e)"
    from before_ends_by [OF d t(2)] have "t < ?l + calculate_billing_cooldown ?b" .
    with t bounds b assms(4) show "t < now + calculate_billing_cooldown (billings (streak default_failure_window fs'))"
      by (cases "now - ?l > default_failure_window") (auto simp: default_failure_window_def)
  qed
qed

definition entry_inv :: "time \<Rightarrow> cooldown_entry \<Rightarrow> failures \<Rightarrow> bool" where
  "entry_inv now e fs \<longleftrightarrow>
     entry_counts e fs \<and> entry_ends e fs \<and> entry_blocks e fs now \<and> (fs \<noteq> [] \<longrightarrow> fst (hd fs) \<le> now)"

lemma penalty_step:
  assumes "entry_counts e fs"
  shows "penalty ((now, r) # fs) =
    (if r = FailoverBilling then calculate_billing_cooldown (billings (streak default_failure_window ((now, r) # fs)))
     else calculate_standard_cooldown (ce_ErrorCount (after_failure now r e)))"
  using entry_counts_step [OF assms, of now r] by (simp add: penalty_def entry_counts_def)

lemma disabled_step:
  assumes "entry_counts e fs"
  shows "ce_DisabledUntil (after_failure now r e) =
    (if r = FailoverBilling
     then Some (now + calculate_billing_cooldown (billings (streak default_failure_window ((now, r) # fs))))
     else ce_DisabledUntil e)"
  using entry_counts_step [OF assms, of now r] by (auto simp: entry_counts_def)

lemma entry_inv_failure:
  assumes "entry_inv now0 e fs" and "now0 \<le> now"
  shows "entry_inv now (after_failure now r e) ((now, r) # fs)"
proof -
  have c: "entry_counts e fs" and e: "entry_ends e fs" and b: "entry_blocks e fs now0"
    and h: "fs \<noteq> [] \<longrightarrow> fst (hd fs) \<le> now"
    using assms by (auto simp: entry_inv_def)
  let ?e = "after_failure now r e" and ?fs = "(now, r) # fs"
  let ?s = "calculate_standard_cooldown (ce_ErrorCount ?e)"
    and ?b = "calculate_billing_cooldown (billings (streak default_failure_window ?fs))"
  have cov: "before t (ce_CooldownEnd e) \<Longrightarrow> t < now + ?s" "before t (ce_DisabledUntil e) \<Longrightarrow> t < now + ?b"
    if "now \<le> t" for t
    using ends_covered [OF c e _ , of now r] h e that by (cases "fs = []"; simp add: entry_ends_def)+
  have cd: "ce_CooldownEnd ?e = (if r = FailoverBilling then ce_CooldownEnd e else Some (now + ?s))" by simp
  have dd: "ce_DisabledUntil ?e = (if r = FailoverBilling then Some (now + ?b) else ce_DisabledUntil e)"
    by (rule disabled_step [OF c])
  have ends: "ends_by x u" if "\<And>t. now \<le> t \<Longrightarrow> before t x \<Longrightarrow> t < u" "now \<le> u" for x u
    using that by (cases x) (auto simp: not_le, metis less_irrefl not_le order.trans)
  have le: "now \<le> now + ?s" "now \<le> now + ?b"
    using standard_cooldown_bounds [of "ce_ErrorCount ?e"]
      billing_cooldown_bounds [of "billings (streak default_failure_window ?fs)"] by simp_all
  have "entry_ends ?e ?fs"
    unfolding entry_ends_def cd dd using ends [OF cov(1) le(1)] ends [OF cov(2) le(2)] by simp
  moreover have "entry_blocks ?e ?fs now"
    unfolding entry_blocks_def blocked.simps penalty_step [OF c] cd dd
    using b cov assms(2) by (auto simp: entry_blocks_def)
  ultimately show ?thesis using entry_counts_step [OF c] by (simp add: entry_inv_def)
qed

lemma entry_inv_new: "entry_inv now new_cooldown_entry []"
  by (simp add: entry_inv_def entry_counts_def entry_ends_def entry_blocks_def new_cooldown_entry_def)

lemma entry_inv_success:
  "entry_inv now (get_or_create_entry k (mark_success k ct)) []"
  by (auto simp: get_or_create_entry_def mark_success_def entry_inv_def entry_counts_def entry_ends_def
      entry_blocks_def new_cooldown_entry_def split: option.split)

lemma entry_inv_later: "entry_inv now e fs \<Longrightarrow> now \<le> now' \<Longrightarrow> entry_inv now' e fs"
  by (auto simp: entry_inv_def entry_blocks_def)

lemma failure_times_append [simp]: "failure_times (xs @ ys) = failure_times xs @ failure_times ys"
  by (induction xs rule: failure_times.induct) simp_all

lemma run_cooldown_window: "ct_failureWindow (run_cooldown evs) = default_failure_window"
  unfolding run_cooldown_def
proof (induction evs rule: rev_induct)
  case (snoc ev evs)
  then show ?case by (cases ev) simp_all
qed (simp add: new_cooldown_tracker_def)

lemma get_or_create_other:
  "k' \<noteq> k \<Longrightarrow> get_or_create_entry k' (mark_failure now k r ct) = get_or_create_entry k' ct"
  "k' \<noteq> k \<Longrightarrow> get_or_create_entry k' (mark_success k ct) = get_or_create_entry k' ct"
  by (simp_all add: get_or_create_entry_def)

lemma run_cooldown_inv:
  assumes "sorted (failure_times evs)" and "\<forall>u \<in> set (failure_times evs). u \<le> now"
  shows "entry_inv now (get_or_create_entry key (run_cooldown evs)) (failures_of key evs)"
  using assms
proof (induction evs arbitrary: now rule: rev_induct)
  case Nil
  then show ?case
    using entry_inv_new by (simp add: run_cooldown_def failures_of_def new_cooldown_tracker_def get_or_create_entry_def)
next
  case (snoc ev evs)
  note w = run_cooldown_window [of evs]
  have run: "run_cooldown (evs @ [ev]) = cooldown_step ev (run_cooldown evs)"
    "failures_of key (evs @ [ev]) = failures_step key ev (failures_of key evs)"
    by (simp_all add: run_cooldown_def failures_of_def)
  show ?case
  proof (cases ev)
    case (Failure t k r)
    with snoc.prems have s: "sorted (failure_times evs)" "\<forall>u \<in> set (failure_times evs). u \<le> t" "t \<le> now"
      by (auto simp: sorted_append)
    from snoc.IH [OF s(1,2)] have i: "entry_inv t (get_or_create_entry key (run_cooldown evs)) (failures_of key evs)" .
    show ?thesis
    proof (cases "k = key")
      case True
      with i s(3) show ?thesis unfolding run unfolding Failure
        by (simp add: get_or_create_mark_failure [OF w] entry_inv_later [OF entry_inv_failure [OF i order_refl]])
    next
      case False
      with entry_inv_later [OF i s(3)] show ?thesis unfolding run unfolding Failure by (simp add: get_or_create_other)
    qed
  next
    case (Success k)
    with snoc have "entry_inv now (get_or_create_entry key (run_cooldown evs)) (failures_of key evs)" by simp
    then show ?thesis unfolding run unfolding Success by (simp add: entry_inv_success get_or_create_other)
  qed
qed

lemma available_after_remaining:
  "t \<le> t' \<Longrightarrow> is_available t' k ct \<longleftrightarrow> t + cooldown_remaining t k ct \<le> t'"
  by (auto simp: is_available_def cooldown_remaining_def before_def Let_def split: option.split)

text \<open>
  C34. The tracker forgets nothing that matters: after any history, a key is available at a time
  exactly when every failure since its last success has served its penalty, which is 1, 5, 25 or 60
  minutes by its place in its streak (5, 10, 20 or 24 hours by its place among the billing errors);
  and the remaining time it reports is exactly how long that takes.
\<close>

theorem cooldown_exact:
  assumes "sorted (failure_times evs)" and "\<forall>u \<in> set (failure_times evs). u \<le> t" and "t \<le> t'"
  shows "is_available t key (run_cooldown evs) = (\<not> blocked (failures_of key evs) t) \<and>
    is_available t' key (run_cooldown evs) = (t + cooldown_remaining t key (run_cooldown evs) \<le> t')"
  using run_cooldown_inv [OF assms(1,2), of key] available_after_remaining [OF assms(3)]
  by (auto simp: entry_inv_def entry_blocks_def is_available_entry)

theorem cooldown_exact_witness:
  "let h = run_cooldown [Failure 0 ''a'' FailoverTimeout, Failure (2 * minute) ''a'' FailoverTimeout]
   in \<not> is_available (6 * minute) ''a'' h \<and> is_available (7 * minute) ''a'' h \<and> is_available (6 * minute) ''b'' h"
proof -
  let ?e = "[Failure 0 ''a'' FailoverTimeout, Failure (2 * minute) ''a'' FailoverTimeout]"
  have s: "sorted (failure_times ?e)" "\<forall>u \<in> set (failure_times ?e). u \<le> 6 * minute"
    "\<forall>u \<in> set (failure_times ?e). u \<le> 7 * minute" by simp_all
  have "blocked (failures_of ''a'' ?e) (6 * minute)" "\<not> blocked (failures_of ''a'' ?e) (7 * minute)"
    "\<not> blocked (failures_of ''b'' ?e) (6 * minute)"
    by (simp_all add: failures_of_def penalty_def standard_cooldown_cases default_failure_window_def)
  with cooldown_exact [OF s(1,2) order_refl] cooldown_exact [OF s(1,3) order_refl] show ?thesis
    by (simp add: Let_def)
qed

section \<open>The contract the fallback chain relies on\<close>

text \<open>
  A gate that closes for a key when a failure is marked, for at least \<open>pause\<close>, opens when a success
  is marked, and keeps the keys apart.
\<close>

locale failure_gate =
  fixes avail :: "time \<Rightarrow> string \<Rightarrow> 's \<Rightarrow> bool"
    and failed :: "time \<Rightarrow> string \<Rightarrow> failover_reason \<Rightarrow> 's \<Rightarrow> 's"
    and succeeded :: "string \<Rightarrow> 's \<Rightarrow> 's"
    and pause :: duration
  assumes pause_pos: "0 < pause"
    and failed_same: "t < now + pause \<Longrightarrow> \<not> avail t k (failed now k r s)"
    and failed_other: "k' \<noteq> k \<Longrightarrow> avail t k' (failed now k r s) = avail t k' s"
    and succeeded_same: "avail t k (succeeded k s)"
    and succeeded_other: "k' \<noteq> k \<Longrightarrow> avail t k' (succeeded k s) = avail t k' s"
    and reopens: "avail t k s \<Longrightarrow> t \<le> t' \<Longrightarrow> avail t' k s"
begin

text \<open>Marks of several failures: each key marked is closed, every other key is as before.\<close>

fun mark_all :: "(time \<times> string \<times> failover_reason) list \<Rightarrow> 's \<Rightarrow> 's" where
  "mark_all [] s = s"
| "mark_all ((now, k, r) # ms) s = mark_all ms (failed now k r s)"

lemma mark_all_other: "k \<notin> fst ` snd ` set ms \<Longrightarrow> avail t k (mark_all ms s) = avail t k s"
  by (induction ms s rule: mark_all.induct) (auto simp: failed_other)

lemma mark_all_closed:
  "(now, k, r) \<in> set ms \<Longrightarrow> distinct (map (fst \<circ> snd) ms) \<Longrightarrow> t < now + pause \<Longrightarrow> \<not> avail t k (mark_all ms s)"
proof (induction ms s rule: mark_all.induct)
  case (2 now' k' r' ms s)
  then show ?case
    using mark_all_other [of k ms t "failed now k r s"] failed_same [of t now k r s] by force
qed simp

lemma closed_stays: "\<not> avail t' k s \<Longrightarrow> t \<le> t' \<Longrightarrow> \<not> avail t k s"
  using reopens by blast

end

lemma mark_failure_blocks:
  "t < now + minute \<Longrightarrow> \<not> is_available t k (mark_failure now k r ct)"
proof -
  assume t: "t < now + minute"
  let ?e = "get_or_create_entry k (mark_failure now k r ct)"
  have "before t (ce_DisabledUntil ?e) \<or> before t (ce_CooldownEnd ?e)"
    using t standard_cooldown_bounds billing_cooldown_bounds
    by (auto simp: get_or_create_entry_def mark_failure_def Let_def intro!: less_le_trans [OF t])
      (smt (verit) standard_cooldown_bounds billing_cooldown_bounds)+
  then show ?thesis unfolding is_available_entry by blast
qed

interpretation gate: failure_gate is_available mark_failure mark_success minute
proof (unfold_locales, goal_cases)
  case (2 t now k r s)
  then show ?case by (rule mark_failure_blocks)
next
  case (4 t k s)
  show ?case by (auto simp: is_available_def mark_success_def split: option.split)
next
  case (6 t k s t')
  then show ?case by (auto simp: is_available_def before_def split: option.splits if_splits)
qed (simp_all add: is_available_def)

end
