(* ===== verification/Fallback.thy ===== *)
theory Fallback
  imports Cooldown
begin

text \<open>
  Model references and the provider fallback chain (pkg/providers/model_ref.go and fallback.go).
  The request function, the context and the clock are the environment: \<open>w_run\<close> answers a call and
  moves the environment on, \<open>w_tick\<close> is whatever happens between two observations of the context.
  A context for an attempt is inherited, attached to the parent with a budget, or detached from
  the parent's deadline (the user's cancellation still reaches it).
\<close>

section \<open>Model references\<close>

record model_ref =
  mr_Provider :: string
  mr_Model :: string

definition normalize_provider :: "string \<Rightarrow> string" where
  "normalize_provider provider =
     (let p = to_lower (trim_space provider) in
      if p = ''z.ai'' \<or> p = ''z-ai'' then ''zai''
      else if p = ''opencode-zen'' then ''opencode''
      else if p = ''qwen'' then ''qwen-portal''
      else if p = ''kimi-code'' then ''kimi-coding''
      else if p = ''gpt'' then ''openai''
      else if p = ''claude'' then ''anthropic''
      else if p = ''glm'' then ''zhipu''
      else if p = ''google'' then ''gemini''
      else if p = ''alibaba-coding'' \<or> p = ''qwen-coding'' then ''coding-plan''
      else if p = ''alibaba-coding-anthropic'' then ''coding-plan-anthropic''
      else if p = ''qwen-international'' \<or> p = ''dashscope-intl'' then ''qwen-intl''
      else if p = ''dashscope-us'' then ''qwen-us''
      else p)"

definition parse_model_ref :: "string \<Rightarrow> string \<Rightarrow> model_ref option" where
  "parse_model_ref raw default_provider =
     (let raw = trim_space raw in
      if raw = '''' then None
      else case index_byte raw (CHR ''/'') of
        Some idx \<Rightarrow>
          if idx > 0 then
            (let provider = normalize_provider (take idx raw); model = trim_space (drop (idx + 1) raw) in
             if model = '''' then None else Some \<lparr>mr_Provider = provider, mr_Model = model\<rparr>)
          else Some \<lparr>mr_Provider = normalize_provider default_provider, mr_Model = raw\<rparr>
      | None \<Rightarrow> Some \<lparr>mr_Provider = normalize_provider default_provider, mr_Model = raw\<rparr>)"

definition model_key :: "string \<Rightarrow> string \<Rightarrow> string" where
  "model_key provider model = normalize_provider provider @ ''/'' @ to_lower (trim_space model)"

section \<open>Candidates\<close>

type_synonym candidate = model_ref

definition candidate_key :: "candidate \<Rightarrow> string" where
  "candidate_key c = model_key (mr_Provider c) (mr_Model c)"

record model_config =
  mc_Primary :: string
  mc_Fallbacks :: "string list"

text \<open>\<open>addCandidate\<close>: the state is the keys seen and the candidates so far.\<close>

definition add_candidate ::
  "(string \<Rightarrow> string option) option \<Rightarrow> string \<Rightarrow> string \<Rightarrow> string list \<times> candidate list \<Rightarrow> string list \<times> candidate list" where
  "add_candidate lookup default_provider raw st =
     (let candidate_raw = trim_space raw;
          candidate_raw = (case lookup of
              Some f \<Rightarrow> (case f candidate_raw of Some resolved \<Rightarrow> resolved | None \<Rightarrow> candidate_raw)
            | None \<Rightarrow> candidate_raw) in
      case parse_model_ref candidate_raw default_provider of
        None \<Rightarrow> st
      | Some r \<Rightarrow>
          (let key = model_key (mr_Provider r) (mr_Model r) in
           if key \<in> set (fst st) then st else (key # fst st, snd st @ [r])))"

definition resolve_candidates_with_lookup ::
  "model_config \<Rightarrow> string \<Rightarrow> (string \<Rightarrow> string option) option \<Rightarrow> candidate list" where
  "resolve_candidates_with_lookup cfg default_provider lookup =
     snd (fold (add_candidate lookup default_provider) (mc_Primary cfg # mc_Fallbacks cfg) ([], []))"

definition resolve_candidates :: "model_config \<Rightarrow> string \<Rightarrow> candidate list" where
  "resolve_candidates cfg default_provider = resolve_candidates_with_lookup cfg default_provider None"

section \<open>The chain\<close>

definition default_per_candidate_timeout :: duration where
  "default_per_candidate_timeout = 120 * second"

definition min_candidate_budget :: duration where
  "min_candidate_budget = 5 * second"

text \<open>\<open>NewFallbackChain\<close> and \<open>NewFallbackChainWithTimeout\<close>; \<^const>\<open>None\<close> is the panic on a nil tracker.\<close>

record fallback_chain =
  fc_cooldown :: cooldown_tracker
  fc_perCandidateTimeout :: duration

definition new_fallback_chain :: "cooldown_tracker option \<Rightarrow> fallback_chain option" where
  "new_fallback_chain cooldown =
     map_option (\<lambda>c. \<lparr>fc_cooldown = c, fc_perCandidateTimeout = 0\<rparr>) cooldown"

definition new_fallback_chain_with_timeout :: "cooldown_tracker option \<Rightarrow> duration \<Rightarrow> fallback_chain option" where
  "new_fallback_chain_with_timeout cooldown timeout =
     map_option (\<lambda>c. \<lparr>fc_cooldown = c,
       fc_perCandidateTimeout = (if timeout \<le> 0 then default_per_candidate_timeout else timeout)\<rparr>) cooldown"

datatype attempt_ctx = Inherit | Attached duration | Detached duration

text \<open>\<open>candidateBudget\<close>; \<open>remaining\<close> is \<^const>\<open>None\<close> when the parent has no deadline.\<close>

definition candidate_budget :: "duration \<Rightarrow> duration option \<Rightarrow> int \<Rightarrow> attempt_ctx" where
  "candidate_budget pct remaining candidates_left =
     (if pct \<le> 0 then Inherit
      else case remaining of
        Some rem \<Rightarrow>
          if rem > 0 then
            (let budget = rem div candidates_left;
                 budget = (if budget < min_candidate_budget \<and> pct \<ge> min_candidate_budget
                           then min_candidate_budget else budget);
                 budget = (if budget > pct then pct else budget) in
             if budget \<le> rem then Attached budget else Detached budget)
          else Detached pct
      | None \<Rightarrow> Detached pct)"

record ('e, 'r) world =
  w_tick :: "'e \<Rightarrow> 'e"
  w_now :: "'e \<Rightarrow> time"
  w_canceled :: "'e \<Rightarrow> bool"
  w_deadline :: "'e \<Rightarrow> time option"
  w_run :: "attempt_ctx \<Rightarrow> string \<Rightarrow> string \<Rightarrow> 'e \<Rightarrow> (run_error + 'r) \<times> 'e"

datatype attempt_error =
    InCooldown string duration
  | Raised run_error
  | Failed failover_error

record fallback_attempt =
  fa_Provider :: string
  fa_Model :: string
  fa_Error :: attempt_error
  fa_Reason :: "failover_reason option"
  fa_Duration :: duration
  fa_Skipped :: bool

record 'r fallback_result =
  fr_Response :: 'r
  fr_Provider :: string
  fr_Model :: string
  fr_Attempts :: "fallback_attempt list"

datatype fallback_error =
    NoCandidates
  | ContextCanceled
  | Unclassified string string run_error
  | NonRetriable failover_error
  | Exhausted "fallback_attempt list"

text \<open>\<open>Duration.Round\<close> of a non-negative duration to seconds, halves up.\<close>

definition round_second :: "duration \<Rightarrow> duration" where
  "round_second d = (d + 500 * millisecond) div second * second"

definition parent_remaining :: "('e, 'r) world \<Rightarrow> 'e \<Rightarrow> duration option" where
  "parent_remaining w e = map_option (\<lambda>d. d - w_now w e) (w_deadline w e)"

fun execute_loop ::
  "('e, 'r) world \<Rightarrow> duration \<Rightarrow> candidate list \<Rightarrow> int \<Rightarrow> fallback_attempt list \<Rightarrow> cooldown_tracker \<Rightarrow> 'e \<Rightarrow>
     (fallback_error + 'r fallback_result) \<times> cooldown_tracker \<times> 'e" where
  "execute_loop w pct [] uncooled attempts ct e = (Inl (Exhausted attempts), ct, e)"
| "execute_loop w pct (c # cs) uncooled attempts ct e0 =
     (let e = w_tick w e0 in
      if w_canceled w e then (Inl ContextCanceled, ct, e)
      else let key = model_key (mr_Provider c) (mr_Model c) in
      if \<not> is_available (w_now w e) key ct then
        (let remaining = cooldown_remaining (w_now w e) key ct;
             a = \<lparr>fa_Provider = mr_Provider c, fa_Model = mr_Model c,
                  fa_Error = InCooldown key (round_second remaining), fa_Reason = Some FailoverRateLimit,
                  fa_Duration = 0, fa_Skipped = True\<rparr> in
         execute_loop w pct cs (uncooled - 1) (attempts @ [a]) ct e)
      else
        (let ctx = candidate_budget pct (parent_remaining w e) (max uncooled 1);
             (answer, e1) = w_run w ctx (mr_Provider c) (mr_Model c) e;
             elapsed = w_now w e1 - w_now w e in
         case answer of
           Inr resp \<Rightarrow>
             (Inr \<lparr>fr_Response = resp, fr_Provider = mr_Provider c, fr_Model = mr_Model c, fr_Attempts = attempts\<rparr>,
              mark_success key ct, e1)
         | Inl err \<Rightarrow>
             if w_canceled w e1 then (Inl ContextCanceled, ct, e1)
             else case classify_error err (mr_Provider c) (mr_Model c) of
               None \<Rightarrow> (Inl (Unclassified (mr_Provider c) (mr_Model c) err), ct, e1)
             | Some fe \<Rightarrow>
                 if \<not> is_retriable fe then (Inl (NonRetriable fe), ct, e1)
                 else
                   (let ct' = mark_failure (w_now w e1) key (fo_Reason fe) ct;
                        attempts' = attempts @ [\<lparr>fa_Provider = mr_Provider c, fa_Model = mr_Model c,
                          fa_Error = Failed fe, fa_Reason = Some (fo_Reason fe), fa_Duration = elapsed,
                          fa_Skipped = False\<rparr>] in
                    if cs = [] then (Inl (Exhausted attempts'), ct', e1)
                    else execute_loop w pct cs (uncooled - 1) attempts' ct' e1)))"

definition execute ::
  "('e, 'r) world \<Rightarrow> fallback_chain \<Rightarrow> candidate list \<Rightarrow> 'e \<Rightarrow>
     (fallback_error + 'r fallback_result) \<times> fallback_chain \<times> 'e" where
  "execute w fc candidates e =
     (if length candidates = 0 then (Inl NoCandidates, fc, e)
      else case execute_loop w (fc_perCandidateTimeout fc) candidates (int (length candidates)) [] (fc_cooldown fc) e of
        (r, ct, e') \<Rightarrow> (r, fc\<lparr>fc_cooldown := ct\<rparr>, e'))"

text \<open>\<open>ExecuteImage\<close>: no cooldown; image dimension and size errors end the chain.\<close>

fun execute_image_loop ::
  "('e, 'r) world \<Rightarrow> duration \<Rightarrow> candidate list \<Rightarrow> int \<Rightarrow> fallback_attempt list \<Rightarrow> 'e \<Rightarrow>
     (fallback_error + 'r fallback_result) \<times> 'e" where
  "execute_image_loop w pct [] remaining attempts e = (Inl (Exhausted attempts), e)"
| "execute_image_loop w pct (c # cs) remaining attempts e0 =
     (let e = w_tick w e0 in
      if w_canceled w e then (Inl ContextCanceled, e)
      else
        (let ctx = candidate_budget pct (parent_remaining w e) (max remaining 1);
             (answer, e1) = w_run w ctx (mr_Provider c) (mr_Model c) e;
             elapsed = w_now w e1 - w_now w e in
         case answer of
           Inr resp \<Rightarrow>
             (Inr \<lparr>fr_Response = resp, fr_Provider = mr_Provider c, fr_Model = mr_Model c, fr_Attempts = attempts\<rparr>, e1)
         | Inl err \<Rightarrow>
             if w_canceled w e1 then (Inl ContextCanceled, e1)
             else let msg = to_lower (re_text err) in
             if is_image_dimension_error msg \<or> is_image_size_error msg then
               (Inl (NonRetriable \<lparr>fo_Reason = FailoverFormat, fo_Provider = mr_Provider c,
                  fo_Model = mr_Model c, fo_Status = 0, fo_Wrapped = err\<rparr>), e1)
             else
               (let attempts' = attempts @ [\<lparr>fa_Provider = mr_Provider c, fa_Model = mr_Model c,
                      fa_Error = Raised err, fa_Reason = None, fa_Duration = elapsed, fa_Skipped = False\<rparr>] in
                if cs = [] then (Inl (Exhausted attempts'), e1)
                else execute_image_loop w pct cs (remaining - 1) attempts' e1)))"

definition execute_image ::
  "('e, 'r) world \<Rightarrow> fallback_chain \<Rightarrow> candidate list \<Rightarrow> 'e \<Rightarrow> (fallback_error + 'r fallback_result) \<times> 'e" where
  "execute_image w fc candidates e =
     (if length candidates = 0 then (Inl NoCandidates, e)
      else execute_image_loop w (fc_perCandidateTimeout fc) candidates (int (length candidates)) [] e)"

section \<open>Candidates are resolved without repetition\<close>

definition parsed_candidates ::
  "(string \<Rightarrow> string option) option \<Rightarrow> string \<Rightarrow> string list \<Rightarrow> candidate list" where
  "parsed_candidates lookup default_provider raws =
     List.map_filter (\<lambda>raw. let r = trim_space raw in
       parse_model_ref (case lookup of None \<Rightarrow> r | Some f \<Rightarrow> (case f r of None \<Rightarrow> r | Some s \<Rightarrow> s)) default_provider) raws"

lemma map_filter_snoc: "List.map_filter f (xs @ [x]) = List.map_filter f xs @ (case f x of None \<Rightarrow> [] | Some y \<Rightarrow> [y])"
  by (auto simp: List.map_filter_def split: option.split)

definition resolves_to :: "string list \<times> candidate list \<Rightarrow> candidate list \<Rightarrow> bool" where
  "resolves_to st parsed \<longleftrightarrow>
     set (fst st) = candidate_key ` set parsed \<and> distinct (map candidate_key (snd st)) \<and>
     candidate_key ` set (snd st) = candidate_key ` set parsed \<and> subseq (snd st) parsed \<and>
     take 1 (snd st) = take 1 parsed"

lemma resolves_to_step:
  "resolves_to st (parsed_candidates lookup dp raws) \<Longrightarrow>
     resolves_to (add_candidate lookup dp raw st) (parsed_candidates lookup dp (raws @ [raw]))"
proof -
  assume r: "resolves_to st (parsed_candidates lookup dp raws)"
  let ?raw = "let r = trim_space raw in case lookup of None \<Rightarrow> r | Some f \<Rightarrow> (case f r of None \<Rightarrow> r | Some s \<Rightarrow> s)"
  have p: "parsed_candidates lookup dp (raws @ [raw]) = parsed_candidates lookup dp raws @
      (case parse_model_ref ?raw dp of None \<Rightarrow> [] | Some y \<Rightarrow> [y])"
    by (simp add: parsed_candidates_def map_filter_snoc Let_def)
  have a: "add_candidate lookup dp raw st =
      (case parse_model_ref ?raw dp of None \<Rightarrow> st
       | Some r \<Rightarrow> if candidate_key r \<in> set (fst st) then st else (candidate_key r # fst st, snd st @ [r]))"
    by (auto simp: add_candidate_def candidate_key_def Let_def split: option.split)
  show ?thesis
  proof (cases "parse_model_ref ?raw dp")
    case None
    then show ?thesis using r p a by simp
  next
    case (Some y)
    have "subseq (snd st) (parsed_candidates lookup dp raws @ [y])"
      "subseq (snd st @ [y]) (parsed_candidates lookup dp raws @ [y])"
      using r list_emb_append_mono [of "(=)" "snd st" _ "[]" "[y]"]
        list_emb_append_mono [of "(=)" "snd st" _ "[y]" "[y]"] by (simp_all add: resolves_to_def)
    moreover have "parsed_candidates lookup dp raws = [] \<longleftrightarrow> snd st = []" "snd st = [] \<Longrightarrow> fst st = []"
      using r by (auto simp: resolves_to_def)
    ultimately show ?thesis using r p a Some
      by (cases "snd st"; cases "parsed_candidates lookup dp raws") (auto simp: resolves_to_def)
  qed
qed

text \<open>
  Candidate resolution: of the references that parse, in order, it keeps one per normalised
  provider/model key and drops none without keeping another of its key; the first reference that
  parses stays first, with aliases, letter case and surrounding blanks taken into account.
\<close>

theorem resolve_candidates_spec:
  "let parsed = parsed_candidates lookup dp (mc_Primary cfg # mc_Fallbacks cfg);
       cs = resolve_candidates_with_lookup cfg dp lookup
   in subseq cs parsed \<and> distinct (map candidate_key cs) \<and>
      candidate_key ` set cs = candidate_key ` set parsed \<and> take 1 cs = take 1 parsed"
proof -
  have "resolves_to (fold (add_candidate lookup dp) raws ([], [])) (parsed_candidates lookup dp raws)" for raws
  proof (induction raws rule: rev_induct)
    case (snoc raw raws)
    then show ?case using resolves_to_step by simp
  qed (simp add: resolves_to_def parsed_candidates_def List.map_filter_def)
  then show ?thesis unfolding resolve_candidates_with_lookup_def resolves_to_def Let_def by blast
qed

text \<open>
  The budget of an attempt: never above the chain's own limit, and not beyond the parent's
  remaining time while it hangs on the parent. When the limit is under five seconds or the fair
  share is not, it is the smaller of limit and fair share, which every candidate left can have;
  otherwise it is five seconds, detached from a parent that has less than that.
\<close>

theorem candidate_budget_bounds:
  assumes "1 \<le> left"
  shows "case candidate_budget pct remaining left of
      Inherit \<Rightarrow> pct \<le> 0
    | Attached b \<Rightarrow> 0 < pct \<and> (\<exists>rem. remaining = Some rem \<and> 0 \<le> b \<and> b \<le> min rem pct \<and>
        (if pct < min_candidate_budget \<or> min_candidate_budget \<le> rem div left
         then b = min pct (rem div left) \<and> left * b \<le> rem else b = min_candidate_budget))
    | Detached b \<Rightarrow> 0 < pct \<and> b \<le> pct \<and> (case remaining of
        None \<Rightarrow> b = pct | Some rem \<Rightarrow> rem < b \<and> b = (if rem > 0 then min_candidate_budget else pct))"
proof (cases "pct \<le> 0 \<or> remaining = None \<or> (\<exists>rem \<le> 0. remaining = Some rem)")
  case True
  then show ?thesis by (auto simp: candidate_budget_def)
next
  case False
  then obtain rem where rem: "remaining = Some rem" "rem > 0" and pct: "pct > 0"
    by (cases remaining) (auto simp: not_le)
  let ?q = "rem div left"
  have q0: "0 \<le> ?q" using rem assms by (simp add: pos_imp_zdiv_nonneg_iff)
  have q1: "left * ?q \<le> rem"
    using assms pos_mod_sign [of left rem] by (simp add: minus_mod_eq_mult_div [symmetric])
  have "?q \<le> left * ?q" using mult_right_mono [OF assms q0] by simp
  with q0 q1 have q: "0 \<le> ?q" "?q \<le> rem" "left * ?q \<le> rem" by linarith+
  have l: "left * min pct ?q \<le> rem"
    using q(3) assms by (smt (verit) mult_left_mono)
  show ?thesis
    using pct rem q l unfolding candidate_budget_def Let_def
    by (auto simp: min_def min_candidate_budget_def split: if_splits)
qed

theorem candidate_budget_bounds_witness:
  "case candidate_budget (30 * second) (Some (40 * second)) 2 of Attached b \<Rightarrow> b = 20 * second | _ \<Rightarrow> False"
  using candidate_budget_bounds [of 2 "30 * second" "Some (40 * second)"]
  by (simp add: min_candidate_budget_def candidate_budget_def)

section \<open>What the chain calls\<close>

text \<open>The same world with a log of the calls of the request function.\<close>

definition logged :: "('e, 'r) world \<Rightarrow> ('e \<times> candidate list, 'r) world" where
  "logged w =
     \<lparr>w_tick = (\<lambda>(e, l). (w_tick w e, l)), w_now = (\<lambda>(e, l). w_now w e), w_canceled = (\<lambda>(e, l). w_canceled w e),
      w_deadline = (\<lambda>(e, l). w_deadline w e),
      w_run = (\<lambda>ctx p m (e, l). case w_run w ctx p m e of
        (a, e') \<Rightarrow> (a, (e', l @ [\<lparr>mr_Provider = p, mr_Model = m\<rparr>])))\<rparr>"

lemma logged_simps [simp]:
  "w_tick (logged w) (e, l) = (w_tick w e, l)" "w_now (logged w) (e, l) = w_now w e"
  "w_canceled (logged w) (e, l) = w_canceled w e" "w_deadline (logged w) (e, l) = w_deadline w e"
  "w_run (logged w) ctx p m (e, l) =
     (fst (w_run w ctx p m e), (snd (w_run w ctx p m e), l @ [\<lparr>mr_Provider = p, mr_Model = m\<rparr>]))"
  by (simp_all add: logged_def split_beta)

definition forward :: "('e, 'r) world \<Rightarrow> bool" where
  "forward w \<longleftrightarrow> (\<forall>e. w_now w e \<le> w_now w (w_tick w e)) \<and>
     (\<forall>ctx p m e. w_now w e \<le> w_now w (snd (w_run w ctx p m e)))"

definition closed_for_a_minute :: "time \<Rightarrow> cooldown_tracker \<Rightarrow> candidate \<Rightarrow> bool" where
  "closed_for_a_minute now ct c \<longleftrightarrow> (\<forall>t < now + minute. \<not> is_available t (candidate_key c) ct)"

text \<open>
  What a run of the chain that started at \<open>now0\<close> and ended at \<open>now1\<close> did: \<open>calls\<close> is the sequence
  of the candidates it called.
\<close>

definition chain_outcome ::
  "time \<Rightarrow> time \<Rightarrow> candidate list \<Rightarrow> cooldown_tracker \<Rightarrow> nat \<Rightarrow> fallback_error + 'r fallback_result \<Rightarrow>
     cooldown_tracker \<Rightarrow> candidate list \<Rightarrow> bool" where
  "chain_outcome now0 now1 cs ct n r ct' calls \<longleftrightarrow>
     subseq calls cs \<and> now0 \<le> now1 \<and>
     (\<forall>c \<in> set calls. is_available now1 (candidate_key c) ct) \<and>
     (\<forall>k t. k \<notin> candidate_key ` set calls \<longrightarrow> is_available t k ct' = is_available t k ct) \<and>
     (case r of
        Inr res \<Rightarrow> calls \<noteq> [] \<and> last calls = \<lparr>mr_Provider = fr_Provider res, mr_Model = fr_Model res\<rparr> \<and>
          (\<forall>t. is_available t (candidate_key (last calls)) ct') \<and>
          (\<forall>c \<in> set (butlast calls). closed_for_a_minute now0 ct' c)
      | Inl (Exhausted attempts) \<Rightarrow> length attempts = n + length cs \<and>
          (\<forall>c \<in> set cs. is_available now0 (candidate_key c) ct \<longrightarrow> c \<in> set calls) \<and>
          (\<forall>c \<in> set calls. closed_for_a_minute now0 ct' c)
      | _ \<Rightarrow> True)"

lemma closed_earlier: "closed_for_a_minute now ct c \<Longrightarrow> now0 \<le> now \<Longrightarrow> closed_for_a_minute now0 ct c"
  by (auto simp: closed_for_a_minute_def)

lemma candidate_key_record [simp]:
  "model_key (mr_Provider c) (mr_Model c) = candidate_key c" "\<lparr>mr_Provider = mr_Provider c, mr_Model = mr_Model c\<rparr> = c"
  by (simp_all add: candidate_key_def)

text \<open>A candidate that is skipped: nothing happens.\<close>

lemma chain_outcome_skip:
  assumes "chain_outcome now now1 cs ct (Suc n) r ct' calls" and "now0 \<le> now"
    and "\<not> is_available now (candidate_key c) ct"
  shows "chain_outcome now0 now1 (c # cs) ct n r ct' calls"
proof -
  have "\<not> is_available now0 (candidate_key c) ct" using gate.closed_stays [OF assms(3,2)] .
  moreover have "is_available now0 k ct \<Longrightarrow> is_available now k ct" for k using gate.reopens assms(2) by blast
  ultimately show ?thesis
    using assms(1,2) closed_earlier [OF _ assms(2)]
    by (auto simp: chain_outcome_def subseq_Cons' split: sum.splits fallback_error.splits)
qed

text \<open>A candidate that fails and is marked.\<close>

lemma chain_outcome_failed:
  assumes "chain_outcome now now1 cs (mark_failure now (candidate_key c) reason ct) (Suc n) r ct' calls"
    and "now0 \<le> now" and "is_available now0 (candidate_key c) ct \<or> is_available now (candidate_key c) ct"
    and "candidate_key c \<notin> candidate_key ` set cs"
  shows "chain_outcome now0 now1 (c # cs) ct n r ct' (c # calls)"
proof -
  let ?ct = "mark_failure now (candidate_key c) reason ct"
  have sub: "subseq calls cs" and le: "now \<le> now1" using assms(1) by (auto simp: chain_outcome_def)
  from sub have "set calls \<subseteq> set cs" by (blast elim: list_emb_set)
  with assms(4) have k: "candidate_key c \<notin> candidate_key ` set calls" by blast
  then have other: "is_available t (candidate_key d) ?ct = is_available t (candidate_key d) ct" if "d \<in> set calls" for t d
    using that gate.failed_other by (metis image_eqI)
  have other': "is_available t (candidate_key d) ?ct = is_available t (candidate_key d) ct" if "d \<in> set cs" for t d
    using that gate.failed_other assms(4) by (metis image_eqI)
  have c1: "is_available now1 (candidate_key c) ct" using assms(2,3) le gate.reopens by (meson order.trans)
  have cc: "closed_for_a_minute now0 ct' c"
    using assms(1,2) k gate.failed_same unfolding closed_for_a_minute_def chain_outcome_def by fastforce
  have frame: "\<forall>k t. k \<notin> candidate_key ` set (c # calls) \<longrightarrow> is_available t k ct' = is_available t k ct"
    using assms(1) gate.failed_other [of _ "candidate_key c"] by (simp add: chain_outcome_def)
  have earlier: "is_available now0 k ct \<Longrightarrow> is_available now k ct" for k using gate.reopens assms(2) by blast
  have later: "closed_for_a_minute now ct' d \<Longrightarrow> closed_for_a_minute now0 ct' d" for d
    by (rule closed_earlier [OF _ assms(2)])
  have open1: "\<forall>d \<in> set (c # calls). is_available now1 (candidate_key d) ct"
    using assms(1) c1 other by (simp add: chain_outcome_def)
  have "case r of
        Inr res \<Rightarrow> c # calls \<noteq> [] \<and> last (c # calls) = \<lparr>mr_Provider = fr_Provider res, mr_Model = fr_Model res\<rparr> \<and>
          (\<forall>t. is_available t (candidate_key (last (c # calls))) ct') \<and>
          (\<forall>d \<in> set (butlast (c # calls)). closed_for_a_minute now0 ct' d)
      | Inl (Exhausted attempts) \<Rightarrow> length attempts = n + length (c # cs) \<and>
          (\<forall>d \<in> set (c # cs). is_available now0 (candidate_key d) ct \<longrightarrow> d \<in> set (c # calls)) \<and>
          (\<forall>d \<in> set (c # calls). closed_for_a_minute now0 ct' d)
      | _ \<Rightarrow> True"
  proof (cases r)
    case (Inl err)
    show ?thesis
    proof (cases err)
      case (Exhausted attempts)
      have "length attempts = Suc n + length cs"
        "\<forall>d \<in> set cs. is_available now (candidate_key d) ?ct \<longrightarrow> d \<in> set calls"
        "\<forall>d \<in> set calls. closed_for_a_minute now ct' d"
        using assms(1) by (auto simp: chain_outcome_def Inl Exhausted)
      with cc other' earlier later show ?thesis by (simp add: Inl Exhausted)
    qed (simp_all add: Inl)
  next
    case (Inr res)
    with assms(1) have "calls \<noteq> []" "last calls = \<lparr>mr_Provider = fr_Provider res, mr_Model = fr_Model res\<rparr>"
      "\<forall>t. is_available t (candidate_key (last calls)) ct'"
      "\<forall>d \<in> set (butlast calls). closed_for_a_minute now ct' d"
      unfolding chain_outcome_def Inr sum.case by blast+
    with cc later show ?thesis by (simp add: Inr)
  qed
  with sub le assms(2) open1 frame show ?thesis unfolding chain_outcome_def by simp
qed

text \<open>A candidate that is called last.\<close>

lemma chain_outcome_called:
  assumes "now0 \<le> now" and "now \<le> now1" and "is_available now (candidate_key c) ct"
    and "r = Inr \<lparr>fr_Response = x, fr_Provider = mr_Provider c, fr_Model = mr_Model c, fr_Attempts = a\<rparr> \<and>
        ct' = mark_success (candidate_key c) ct
      \<or> (\<exists>err. r = Inl err \<and> (\<forall>atts. err \<noteq> Exhausted atts)) \<and> ct' = ct"
  shows "chain_outcome now0 now1 (c # cs) ct n r ct' [c]"
proof -
  have "is_available now1 (candidate_key c) ct" using assms(2,3) gate.reopens by blast
  then show ?thesis
    using assms(1,2,4) gate.succeeded_same gate.succeeded_other
    by (auto simp: chain_outcome_def split: fallback_error.splits)
qed

lemma chain_outcome_none:
  "now0 \<le> now1 \<Longrightarrow> chain_outcome now0 now1 (c # cs) ct n (Inl ContextCanceled) ct []"
  by (simp add: chain_outcome_def)

lemma chain_outcome_end: "chain_outcome now now [] ct (length atts) (Inl (Exhausted atts)) ct []"
  by (simp add: chain_outcome_def)

lemma execute_loop_outcome:
  assumes "forward w" and "distinct (map candidate_key cs)"
    and "execute_loop (logged w) pct cs uncooled atts ct (e, l) = (r, ct', (e', l'))"
  shows "\<exists>calls. l' = l @ calls \<and> chain_outcome (w_now w e) (w_now w e') cs ct (length atts) r ct' calls"
  using assms(2,3)
proof (induction cs arbitrary: uncooled atts ct e l)
  case Nil
  then show ?case using chain_outcome_end by auto
next
  case (Cons c cs)
  let ?e = "w_tick w e" and ?k = "candidate_key c"
  have t: "w_now w e \<le> w_now w ?e" using assms(1) by (simp add: forward_def)
  have d: "distinct (map candidate_key cs)" "?k \<notin> candidate_key ` set cs" using Cons.prems(1) by auto
  show ?case
  proof (cases "w_canceled w ?e")
    case True
    then have "r = Inl ContextCanceled" "ct' = ct" "e' = ?e" "l' = l" using Cons.prems(2) by auto
    with chain_outcome_none [OF t] show ?thesis by (intro exI [of _ "[]"]) simp
  next
    case go: False
    show ?thesis
    proof (cases "is_available (w_now w ?e) ?k ct")
      case False
      with go Cons.prems(2) obtain a where
        "execute_loop (logged w) pct cs (uncooled - 1) (atts @ [a]) ct (?e, l) = (r, ct', (e', l'))"
        by (auto simp: Let_def)
      from Cons.IH [OF d(1) this] obtain calls where
        "l' = l @ calls" "chain_outcome (w_now w ?e) (w_now w e') cs ct (Suc (length atts)) r ct' calls" by auto
      with chain_outcome_skip [OF this(2) t False] show ?thesis by blast
    next
      case True
      define ctx where "ctx = candidate_budget pct (parent_remaining (logged w) (?e, l)) (max uncooled 1)"
      obtain answer e1 where run: "w_run w ctx (mr_Provider c) (mr_Model c) ?e = (answer, e1)" by (metis surj_pair)
      have t1: "w_now w ?e \<le> w_now w e1" using assms(1) run unfolding forward_def by (metis snd_conv)
      note step = Cons.prems(2) [unfolded execute_loop.simps Let_def logged_simps if_not_P [OF go]
          candidate_key_record not_not if_not_P [OF iffD2 [OF not_not True]] ctx_def [symmetric] run
          fst_conv snd_conv prod.case]
      have called: "chain_outcome (w_now w e) (w_now w e1) (c # cs) ct (length atts) r ct' [c]"
        if "r = Inr \<lparr>fr_Response = x, fr_Provider = mr_Provider c, fr_Model = mr_Model c, fr_Attempts = a\<rparr> \<and>
            ct' = mark_success ?k ct \<or> (\<exists>err. r = Inl err \<and> (\<forall>atts. err \<noteq> Exhausted atts)) \<and> ct' = ct" for x a
        by (rule chain_outcome_called [OF t t1 True that])
      show ?thesis
      proof (cases answer)
        case (Inr x)
        with step called show ?thesis by auto
      next
        case (Inl err)
        show ?thesis
        proof (cases "w_canceled w e1 \<or> classify_error err (mr_Provider c) (mr_Model c) = None \<or>
            (\<exists>fe. classify_error err (mr_Provider c) (mr_Model c) = Some fe \<and> \<not> is_retriable fe)")
          case True
          with Inl step have "(\<exists>err. r = Inl err \<and> (\<forall>atts. err \<noteq> Exhausted atts)) \<and> ct' = ct" "e' = e1" "l' = l @ [c]"
            by (auto split: option.splits if_splits)
          with called show ?thesis by blast
        next
          case False
          then obtain fe where fe: "classify_error err (mr_Provider c) (mr_Model c) = Some fe" "is_retriable fe"
            "\<not> w_canceled w e1" by (cases "classify_error err (mr_Provider c) (mr_Model c)") auto
          let ?ct = "mark_failure (w_now w e1) ?k (fo_Reason fe) ct"
          have "\<exists>a. execute_loop (logged w) pct cs (uncooled - 1) (atts @ [a]) ?ct (e1, l @ [c]) = (r, ct', (e', l'))"
            using step Inl fe by (cases cs) auto
          then obtain a where
            "execute_loop (logged w) pct cs (uncooled - 1) (atts @ [a]) ?ct (e1, l @ [c]) = (r, ct', (e', l'))" ..
          from Cons.IH [OF d(1) this] obtain calls where
            "l' = (l @ [c]) @ calls" "chain_outcome (w_now w e1) (w_now w e') cs ?ct (Suc (length atts)) r ct' calls"
            by auto
          with chain_outcome_failed [OF this(2) order.trans [OF t t1] _ d(2)] True t t1 gate.reopens
          show ?thesis by (metis append_Cons append_Nil append_assoc)
        qed
      qed
    qed
  qed
qed

text \<open>
  What the chain does, when the candidates have different keys (as resolution makes them) and
  the clock does not go back. It calls a subsequence of the candidates, each at most once and never
  one in cooldown. A result comes from the last one called, whose cooldown is cleared; all called
  before it, and all called when the chain is exhausted, are closed for at least a minute; an
  exhausted chain has one attempt per candidate and has called every one that was available from
  the start; no other key is touched.
\<close>

theorem execute_calls:
  assumes "forward w" and "distinct (map candidate_key cs)" and "cs \<noteq> []"
    and "execute (logged w) fc cs (e, []) = (r, fc', (e', calls))"
  shows "chain_outcome (w_now w e) (w_now w e') cs (fc_cooldown fc) 0 r (fc_cooldown fc') calls \<and>
    fc_perCandidateTimeout fc' = fc_perCandidateTimeout fc"
proof -
  obtain ct' where "execute_loop (logged w) (fc_perCandidateTimeout fc) cs (int (length cs)) [] (fc_cooldown fc) (e, [])
      = (r, ct', (e', calls))" and "fc' = fc\<lparr>fc_cooldown := ct'\<rparr>"
    using assms(3,4) by (auto simp: execute_def split: prod.splits)
  with execute_loop_outcome [OF assms(1,2) this(1)] show ?thesis by auto
qed

text \<open>A world for the witness: the clock stands still, provider \<open>b\<close> answers and the others time out.\<close>

definition demo_world :: "(unit, string) world" where
  "demo_world =
     \<lparr>w_tick = (\<lambda>e. e), w_now = (\<lambda>_. 0), w_canceled = (\<lambda>_. False), w_deadline = (\<lambda>_. None),
      w_run = (\<lambda>ctx p m e. (if p = ''b'' then Inr ''hello''
        else Inl \<lparr>re_canceled = False, re_deadline = True, re_text = ''''\<rparr>, e))\<rparr>"

theorem execute_calls_witness:
  "let fc = \<lparr>fc_cooldown = new_cooldown_tracker, fc_perCandidateTimeout = 0\<rparr>;
       a = \<lparr>mr_Provider = ''a'', mr_Model = ''m''\<rparr>; b = \<lparr>mr_Provider = ''b'', mr_Model = ''m''\<rparr>;
       (r, fc', (e', calls)) = execute (logged demo_world) fc [a, b] ((), [])
   in calls = [a, b] \<and> closed_for_a_minute 0 (fc_cooldown fc') a \<and> is_available 0 ''b/m'' (fc_cooldown fc')"
proof -
  let ?fc = "\<lparr>fc_cooldown = new_cooldown_tracker, fc_perCandidateTimeout = 0\<rparr>"
  let ?a = "\<lparr>mr_Provider = ''a'', mr_Model = ''m''\<rparr>" and ?b = "\<lparr>mr_Provider = ''b'', mr_Model = ''m''\<rparr>"
  have k: "candidate_key ?a = ''a/m''" "candidate_key ?b = ''b/m''" by code_simp+
  have f: "forward demo_world" by (simp add: forward_def demo_world_def)
  have d: "distinct (map candidate_key [?a, ?b])" by (simp add: k)
  obtain r fc' e' calls where x: "execute (logged demo_world) ?fc [?a, ?b] ((), []) = (r, fc', (e', calls))"
    by (metis surj_pair)
  have mk: "model_key ''a'' ''m'' = ''a/m''" "model_key ''b'' ''m'' = ''b/m''" by code_simp+
  have cl: "classify_error \<lparr>re_canceled = False, re_deadline = True, re_text = ''''\<rparr> p m =
      Some \<lparr>fo_Reason = FailoverTimeout, fo_Provider = p, fo_Model = m, fo_Status = 0,
        fo_Wrapped = \<lparr>re_canceled = False, re_deadline = True, re_text = ''''\<rparr>\<rparr>" for p m
    unfolding classify_error_def Let_def by simp
  have av: "is_available 0 q new_cooldown_tracker" for q by (simp add: is_available_def new_cooldown_tracker_def)
  have av1: "is_available 0 ''b/m'' (mark_failure 0 ''a/m'' FailoverTimeout new_cooldown_tracker)"
    using gate.failed_other [of "''b/m''" "''a/m''"] av by simp
  have dw: "w_tick demo_world = (\<lambda>e. e)" "w_now demo_world = (\<lambda>_. 0)" "w_canceled demo_world = (\<lambda>_. False)"
    "w_run demo_world = (\<lambda>ctx p m e. (if p = ''b'' then Inr ''hello''
        else Inl \<lparr>re_canceled = False, re_deadline = True, re_text = ''''\<rparr>, e))"
    by (simp_all add: demo_world_def)
  have c: "calls = [?a, ?b] \<and> (\<exists>res. r = Inr res)"
    using x by (simp add: execute_def mk cl av av1 dw is_retriable_def) auto
  from execute_calls [OF f d _ x] c have o: "chain_outcome 0 0 [?a, ?b] new_cooldown_tracker 0 r (fc_cooldown fc') [?a, ?b]"
    by (simp add: dw)
  obtain res where res: "r = Inr res" using c by blast
  note q = o [unfolded chain_outcome_def res sum.case, THEN conjunct2, THEN conjunct2, THEN conjunct2, THEN conjunct2,
      THEN conjunct2, THEN conjunct2]
  have "closed_for_a_minute 0 (fc_cooldown fc') ?a" using q by simp
  moreover have "is_available 0 ''b/m'' (fc_cooldown fc')" using q [THEN conjunct1] by (simp add: k)
  ultimately show ?thesis using x c by (simp add: Let_def)
qed

end
