(* ===== verification/Json_Canonical.thy ===== *)
theory Json_Canonical
  imports Go_Prelude "HOL-Library.List_Lexorder"
begin

text \<open>
  JSON values and the canonical text the audit chain signs (\<open>canonicalMarshal\<close> of
  pkg/audit/hmac.go). A number is the text \<open>UseNumber\<close> keeps; an object is a finite map. Strings
  are bytes: \<open>json.Marshal\<close> of a string escapes as for ASCII and passes the bytes of other runes on
  (the two line separators U+2028 and U+2029, which it also escapes, are not treated).
  The result is that the canonical text determines the value, and the value the text, whatever the
  order of an object's keys.
\<close>

section \<open>Values and their canonical text\<close>

datatype json =
    JNull
  | JBool bool
  | JNum string
  | JStr string
  | JArr "json list"
  | JObj "(string \<times> json) list"

type_synonym json_object = "(string \<times> json) list"

definition json_char :: "char \<Rightarrow> string" where
  "json_char c =
     (if c = CHR 0x22 then [CHR 0x5C, CHR 0x22]
      else if c = CHR 0x5C then [CHR 0x5C, CHR 0x5C]
      else if c = CHR 0x08 then [CHR 0x5C, CHR ''b'']
      else if c = CHR 0x0C then [CHR 0x5C, CHR ''f'']
      else if c = CHR 0x0A then [CHR 0x5C, CHR ''n'']
      else if c = CHR 0x0D then [CHR 0x5C, CHR ''r'']
      else if c = CHR 0x09 then [CHR 0x5C, CHR ''t'']
      else let n = (of_char c :: int) in
        if n < 32 \<or> c = CHR 0x3C \<or> c = CHR 0x3E \<or> c = CHR 0x26
        then [CHR 0x5C, CHR ''u'', CHR ''0'', CHR ''0'', hex_digit (n div 16), hex_digit (n mod 16)]
        else [c])"

definition json_string :: "string \<Rightarrow> string" where
  "json_string s = [CHR 0x22] @ concat (map json_char s) @ [CHR 0x22]"

fun join_with :: "string \<Rightarrow> string list \<Rightarrow> string" where
  "join_with d [] = []"
| "join_with d [x] = x"
| "join_with d (x # xs) = x @ d @ join_with d xs"

lemma size_snd_member: "kv \<in> set kvs \<Longrightarrow> size (snd kv) < size_list (size_prod (\<lambda>_. 0) size) kvs"
  by (induction kvs) auto

function canonical_marshal :: "json \<Rightarrow> string" where
  "canonical_marshal JNull = ''null''"
| "canonical_marshal (JBool b) = (if b then ''true'' else ''false'')"
| "canonical_marshal (JNum n) = n"
| "canonical_marshal (JStr s) = json_string s"
| "canonical_marshal (JArr vs) = ''['' @ join_with '','' (map canonical_marshal vs) @ '']''"
| "canonical_marshal (JObj kvs) =
     [CHR 0x7B] @ join_with '','' (map (\<lambda>kv. json_string (fst kv) @ '':'' @ canonical_marshal (snd kv)) (sort_key fst kvs))
       @ [CHR 0x7D]"
  by pat_completeness auto

termination
  by (relation "measure size") (auto simp: less_Suc_eq_le dest: size_snd_member intro: size_list_estimation' less_imp_le)

section \<open>Reading back\<close>

text \<open>Decoder of one escaped character, and of a string up to its closing quote.\<close>

definition hex_value :: "char \<Rightarrow> int" where
  "hex_value c = (let n = (of_char c :: int) in if n < 58 then n - 48 else n - 87)"

fun unjson_char :: "string \<Rightarrow> char \<times> string" where
  "unjson_char [] = (CHR ''?'', [])"
| "unjson_char (c # s) =
     (if c \<noteq> CHR 0x5C then (c, s)
      else case s of
        [] \<Rightarrow> (c, s)
      | e # s' \<Rightarrow>
          if e = CHR ''b'' then (CHR 0x08, s') else if e = CHR ''f'' then (CHR 0x0C, s')
          else if e = CHR ''n'' then (CHR 0x0A, s') else if e = CHR ''r'' then (CHR 0x0D, s')
          else if e = CHR ''t'' then (CHR 0x09, s')
          else if e = CHR ''u'' then (char_of (16 * hex_value (s' ! 2) + hex_value (s' ! 3)), drop 4 s')
          else (e, s'))"

lemma hex_value_digit: "0 \<le> n \<Longrightarrow> n < 16 \<Longrightarrow> hex_value (hex_digit n) = n"
proof -
  assume "0 \<le> n" "n < 16"
  then have "n \<in> set [0..15]" by simp
  moreover have "\<forall>n \<in> set [0..15]. hex_value (hex_digit n) = n" by code_simp
  ultimately show ?thesis by blast
qed

lemma unjson_json_char: "unjson_char (json_char c @ s) = (c, s)"
proof -
  have b: "0 \<le> (of_char c :: int)" "(of_char c :: int) < 256" by (rule of_char_bounds)+
  have h: "hex_value (hex_digit (of_char c div 16)) = of_char c div 16"
    "hex_value (hex_digit (of_char c mod 16)) = of_char c mod 16"
    using b by (auto intro!: hex_value_digit simp: pos_imp_zdiv_nonneg_iff)
  have "char_of (16 * (of_char c div 16) + of_char c mod (16::int)) = c" by simp
  with h show ?thesis by (simp add: json_char_def Let_def)
qed

lemma json_char_first: "json_char c \<noteq> []" "hd (json_char c) \<noteq> CHR 0x22"
  by (simp_all add: json_char_def Let_def)

lemma json_string_inject: "json_string s @ x = json_string t @ y \<Longrightarrow> s = t \<and> x = y"
proof -
  have first: "concat (map json_char (c # s)) @ CHR 0x22 # x \<noteq> CHR 0x22 # y" for c s x y
    using json_char_first [of c] by (cases "json_char c") auto
  have "concat (map json_char s) @ CHR 0x22 # x = concat (map json_char t) @ CHR 0x22 # y \<Longrightarrow> s = t \<and> x = y"
  proof (induction s arbitrary: t)
    case Nil
    show ?case
    proof (cases t)
      case (Cons d t')
      with Nil first [of d t' y x] show ?thesis by simp
    qed (use Nil in simp)
  next
    case (Cons c s)
    show ?case
    proof (cases t)
      case Nil
      with Cons.prems first [of c s x y] show ?thesis by simp
    next
      case t: (Cons d t')
      with Cons.prems have
        "unjson_char (json_char c @ concat (map json_char s) @ CHR 0x22 # x) =
         unjson_char (json_char d @ concat (map json_char t') @ CHR 0x22 # y)" by simp
      with Cons.IH [of t'] t show ?thesis by (simp add: unjson_json_char)
    qed
  qed
  then show "json_string s @ x = json_string t @ y \<Longrightarrow> s = t \<and> x = y" by (simp add: json_string_def)
qed

section \<open>The canonical text determines the value\<close>

definition number_char :: "char \<Rightarrow> bool" where
  "number_char c \<longleftrightarrow> c \<in> set ''0123456789+-.eE''"

definition number_text :: "string \<Rightarrow> bool" where
  "number_text n \<longleftrightarrow> n \<noteq> [] \<and> list_all number_char n \<and> hd n \<in> set ''-0123456789''"

fun json_wf :: "json \<Rightarrow> bool" where
  "json_wf (JNum n) = number_text n"
| "json_wf (JArr vs) = (\<forall>v \<in> set vs. json_wf v)"
| "json_wf (JObj kvs) = (distinct (map fst kvs) \<and> (\<forall>kv \<in> set kvs. json_wf (snd kv)))"
| "json_wf _ = True"

text \<open>The normal form: every object's keys in order. The text is the normal form's plain printing.\<close>

fun sort_json :: "json \<Rightarrow> json" where
  "sort_json (JArr vs) = JArr (map sort_json vs)"
| "sort_json (JObj kvs) = JObj (sort_key fst (map (\<lambda>(k, v). (k, sort_json v)) kvs))"
| "sort_json v = v"

fun print_json :: "json \<Rightarrow> string" where
  "print_json JNull = ''null''"
| "print_json (JBool b) = (if b then ''true'' else ''false'')"
| "print_json (JNum n) = n"
| "print_json (JStr s) = json_string s"
| "print_json (JArr vs) = ''['' @ join_with '','' (map print_json vs) @ '']''"
| "print_json (JObj kvs) =
     [CHR 0x7B] @ join_with '','' (map (\<lambda>(k, v). json_string k @ '':'' @ print_json v) kvs) @ [CHR 0x7D]"

lemma sort_key_map_snd: "sort_key fst (map (\<lambda>(k, v). (k, f v)) kvs) = map (\<lambda>(k, v). (k, f v)) (sort_key fst kvs)"
proof (induction kvs)
  case (Cons kv kvs)
  have ins: "insort_key fst (k, f v) (map (\<lambda>(k, v). (k, f v)) xs) = map (\<lambda>(k, v). (k, f v)) (insort_key fst (k, v) xs)"
    for k v xs by (induction xs) auto
  obtain k v where kv: "kv = (k, v)" by (cases kv)
  show ?case using Cons.IH ins [of k v "sort_key fst kvs"] by (simp add: kv)
qed simp

lemma canonical_marshal_print: "canonical_marshal v = print_json (sort_json v)"
proof (induction v rule: canonical_marshal.induct)
  case (6 kvs)
  have "map (\<lambda>kv. json_string (fst kv) @ '':'' @ canonical_marshal (snd kv)) (sort_key fst kvs) =
      map ((\<lambda>(k, v). json_string k @ '':'' @ print_json v) \<circ> (\<lambda>(k, v). (k, sort_json v))) (sort_key fst kvs)"
    using 6 by (intro map_cong) auto
  then show ?case unfolding canonical_marshal.simps sort_json.simps print_json.simps sort_key_map_snd map_map
    by (rule arg_cong)
qed (simp_all cong: map_cong)

definition delimited :: "string \<Rightarrow> bool" where
  "delimited x \<longleftrightarrow> x = [] \<or> hd x \<in> {CHR '','', CHR '']'', CHR 0x7D}"

text \<open>An item can be told from what follows it, and does not start like a delimiter.\<close>

definition readable :: "('a \<Rightarrow> string) \<Rightarrow> 'a \<Rightarrow> 'a \<Rightarrow> bool" where
  "readable f v w \<longleftrightarrow> f v \<noteq> [] \<and> f w \<noteq> [] \<and> \<not> delimited (f v) \<and> \<not> delimited (f w) \<and>
     (\<forall>x y. delimited x \<longrightarrow> delimited y \<longrightarrow> f v @ x = f w @ y \<longrightarrow> v = w \<and> x = y)"

lemma join_with_Cons: "join_with d (x # xs) = x @ concat (map (\<lambda>s. d @ s) xs)"
  by (induction xs arbitrary: x) simp_all

lemma tail_inject:
  assumes "\<forall>v \<in> set vs. \<forall>w \<in> set ws. readable f v w" and "c = CHR '']'' \<or> c = CHR 0x7D"
    and "concat (map (\<lambda>s. '','' @ f s) vs) @ c # x = concat (map (\<lambda>s. '','' @ f s) ws) @ c # y"
  shows "vs = ws \<and> x = y"
  using assms(1,3)
proof (induction vs arbitrary: ws)
  case Nil
  then show ?case using assms(2) by (cases ws) auto
next
  case (Cons v vs)
  show ?case
  proof (cases ws)
    case Nil
    with Cons.prems assms(2) show ?thesis by auto
  next
    case ws: (Cons w ws')
    have d: "delimited (concat (map (\<lambda>s. '','' @ f s) us) @ c # z)" for us z
      using assms(2) by (cases us) (auto simp: delimited_def)
    from Cons.prems(2) ws have
      "f v @ concat (map (\<lambda>s. '','' @ f s) vs) @ c # x = f w @ concat (map (\<lambda>s. '','' @ f s) ws') @ c # y" by simp
    with Cons.prems(1) ws d have "v = w"
      "concat (map (\<lambda>s. '','' @ f s) vs) @ c # x = concat (map (\<lambda>s. '','' @ f s) ws') @ c # y"
      unfolding readable_def by (metis list.set_intros(1))+
    with Cons.IH [of ws'] Cons.prems(1) ws show ?thesis by simp
  qed
qed

lemma join_inject:
  assumes "\<forall>v \<in> set vs. \<forall>w \<in> set ws. readable f v w" and "c = CHR '']'' \<or> c = CHR 0x7D"
    and "join_with '','' (map f vs) @ c # x = join_with '','' (map f ws) @ c # y"
    and "\<forall>v \<in> set vs \<union> set ws. f v \<noteq> [] \<and> \<not> delimited (f v)"
  shows "vs = ws \<and> x = y"
proof (cases vs; cases ws)
  fix v vs' w ws'
  assume v: "vs = v # vs'" "ws = w # ws'"
  with assms(3) have
    "concat (map (\<lambda>s. '','' @ f s) vs) @ c # x = concat (map (\<lambda>s. '','' @ f s) ws) @ c # y"
    by (simp add: join_with_Cons comp_def)
  with tail_inject [OF assms(1,2)] show ?thesis by blast
next
  fix w ws'
  assume v: "vs = []" "ws = w # ws'"
  with assms(4) have "f w \<noteq> []" "hd (f w) \<noteq> c" using assms(2) by (auto simp: delimited_def)
  with assms(3) v show ?thesis by (cases "f w") (auto simp: join_with_Cons)
next
  fix v vs'
  assume v: "vs = v # vs'" "ws = []"
  with assms(4) have "f v \<noteq> []" "hd (f v) \<noteq> c" using assms(2) by (auto simp: delimited_def)
  with assms(3) v show ?thesis by (cases "f v") (auto simp: join_with_Cons)
qed (use assms(3) in simp)

lemma number_delimited:
  assumes "list_all number_char n" and "list_all number_char m" and "delimited x" and "delimited y"
    and "n @ x = m @ y"
  shows "n = m \<and> x = y"
proof -
  have d: "x = [] \<or> \<not> number_char (hd x)" "y = [] \<or> \<not> number_char (hd y)"
    using assms(3,4) by (auto simp: delimited_def number_char_def)
  have "takeWhile number_char (n @ x) = n" "takeWhile number_char (m @ y) = m"
    using assms(1,2) d by (auto simp: list_all_iff takeWhile_append2 takeWhile_eq_Nil_iff)
  with assms(5) show ?thesis by (metis same_append_eq)
qed

lemma print_json_first:
  "json_wf v \<Longrightarrow> print_json v \<noteq> [] \<and> \<not> delimited (print_json v)"
  by (cases v) (auto simp: delimited_def json_string_def number_text_def)

lemma number_first: "number_text n \<Longrightarrow> \<exists>c n'. n = c # n' \<and> c \<in> set ''-0123456789''"
  unfolding number_text_def by (metis list.collapse)

text \<open>Values of different kinds start with different characters.\<close>

fun first_chars :: "json \<Rightarrow> string" where
  "first_chars JNull = ''n''"
| "first_chars (JBool b) = (if b then ''t'' else ''f'')"
| "first_chars (JNum n) = ''-0123456789''"
| "first_chars (JStr s) = [CHR 0x22]"
| "first_chars (JArr vs) = ''[''"
| "first_chars (JObj kvs) = [CHR 0x7B]"

lemma print_json_starts: "json_wf v \<Longrightarrow> \<exists>c s. print_json v = c # s \<and> c \<in> set (first_chars v)"
proof (cases v)
  case (JNum n)
  moreover assume "json_wf v"
  ultimately show ?thesis using number_first [of n] by simp
qed (simp_all add: json_string_def)

lemma different_readable:
  assumes "json_wf v" and "json_wf w" and "set (first_chars v) \<inter> set (first_chars w) = {}"
  shows "readable print_json v w"
  unfolding readable_def
  using print_json_first [OF assms(1)] print_json_first [OF assms(2)] print_json_starts [OF assms(1)]
    print_json_starts [OF assms(2)] assms(3) by fastforce

lemma literal_readable: "json_wf w \<Longrightarrow> readable print_json JNull w" "json_wf w \<Longrightarrow> readable print_json (JBool b) w"
proof -
  show "json_wf w \<Longrightarrow> readable print_json JNull w"
    by (cases w) (simp_all add: different_readable, simp add: readable_def delimited_def)
  show "json_wf w \<Longrightarrow> readable print_json (JBool b) w"
    by (cases w; cases b) (simp_all add: different_readable, auto simp: readable_def delimited_def)
qed

lemma member_readable:
  assumes "readable print_json v u"
  shows "readable (\<lambda>(k, v). json_string k @ '':'' @ print_json v) (k, v) (l, u)"
proof -
  have n: "json_string k @ s \<noteq> []" "\<not> delimited (json_string k @ s)" for k s
    by (simp_all add: json_string_def delimited_def)
  have "(k, v) = (l, u) \<and> x = y"
    if d: "delimited x" "delimited y"
      and e: "(json_string k @ '':'' @ print_json v) @ x = (json_string l @ '':'' @ print_json u) @ y" for x y
  proof -
    from e json_string_inject [of k "'':'' @ print_json v @ x" l "'':'' @ print_json u @ y"]
    have "k = l" "print_json v @ x = print_json u @ y" by simp_all
    with assms d show ?thesis unfolding readable_def by blast
  qed
  with n show ?thesis unfolding readable_def prod.case by blast
qed

lemma print_json_readable: "json_wf v \<Longrightarrow> json_wf w \<Longrightarrow> readable print_json v w"
proof (induction v arbitrary: w)
  case (JNum n)
  show ?case
  proof (cases w)
    case (JNum m)
    with JNum.prems number_delimited [of n m] print_json_first [OF JNum.prems(1)] print_json_first [OF JNum.prems(2)]
    show ?thesis by (auto simp: readable_def number_text_def)
  qed (use JNum in \<open>simp_all add: different_readable\<close>)
next
  case (JStr s)
  show ?case
  proof (cases w)
    case (JStr t)
    have "print_json (JStr u) \<noteq> [] \<and> \<not> delimited (print_json (JStr u))" for u
      by (simp add: delimited_def json_string_def)
    moreover have "print_json (JStr s) @ x = print_json (JStr t) @ y \<Longrightarrow> s = t \<and> x = y" for x y
      unfolding print_json.simps by (rule json_string_inject)
    ultimately show ?thesis unfolding JStr readable_def by blast
  qed (use JStr in \<open>simp_all add: different_readable\<close>)
next
  case (JArr vs)
  have f: "print_json (JArr us) \<noteq> []" "\<not> delimited (print_json (JArr us))" for us by (simp_all add: delimited_def)
  show ?case
  proof (cases w)
    case w: (JArr ws)
    have r: "\<forall>v \<in> set vs. \<forall>w \<in> set ws. readable print_json v w" using JArr w by simp
    have n: "\<forall>v \<in> set vs \<union> set ws. print_json v \<noteq> [] \<and> \<not> delimited (print_json v)"
      using JArr.prems w print_json_first by auto
    have "vs = ws \<and> x = y" if "print_json (JArr vs) @ x = print_json w @ y" for x y
      using that w by (intro join_inject [OF r _ _ n, of "CHR '']''"]) simp_all
    then show ?thesis unfolding readable_def using f [of vs] f [of ws] w by blast
  qed (use JArr in \<open>simp_all add: different_readable\<close>)
next
  case (JObj kvs)
  let ?f = "\<lambda>(k, v). json_string k @ '':'' @ print_json v"
  have f: "print_json (JObj us) \<noteq> []" "\<not> delimited (print_json (JObj us))" for us by (simp_all add: delimited_def)
  show ?case
  proof (cases w)
    case w: (JObj kws)
    have n: "?f kv \<noteq> [] \<and> \<not> delimited (?f kv)" for kv
      by (cases kv) (simp add: json_string_def delimited_def)
    have r: "\<forall>a \<in> set kvs. \<forall>b \<in> set kws. readable ?f a b"
    proof (intro ballI)
      fix a b assume ab: "a \<in> set kvs" "b \<in> set kws"
      obtain k v l u where kv: "a = (k, v)" "b = (l, u)" by (cases a; cases b)
      have "\<forall>kv \<in> set kvs. json_wf (snd kv)" "\<forall>kv \<in> set kws. json_wf (snd kv)"
        using JObj.prems w by simp_all
      then have "json_wf v" "json_wf u" using ab kv by (metis snd_conv)+
      then have "readable print_json v u"
        using JObj.IH [of a v u] ab kv by (auto simp: snds.simps)
      with kv show "readable ?f a b" using member_readable by blast
    qed
    have "kvs = kws \<and> x = y" if "print_json (JObj kvs) @ x = print_json w @ y" for x y
      using that w n by (intro join_inject [OF r, of "CHR 0x7D"]) simp_all
    then show ?thesis unfolding readable_def using f [of kvs] f [of kws] w by blast
  qed (use JObj in \<open>simp_all add: different_readable\<close>)
qed (simp_all add: literal_readable)

lemma fst_sorted_map: "map fst (map (\<lambda>(k, v). (k, f v)) kvs) = map fst kvs"
  by (induction kvs) auto

lemma distinct_map_sort_key: "distinct (map f (sort_key f xs)) \<longleftrightarrow> distinct (map f xs)"
proof -
  have "mset (map f (sort_key f xs)) = mset (map f xs)" by simp
  then show ?thesis by (rule mset_eq_imp_distinct_iff)
qed

lemma json_wf_sort: "json_wf v \<Longrightarrow> json_wf (sort_json v)"
proof (induction v rule: sort_json.induct)
  case (2 kvs)
  have "distinct (map fst (sort_key fst (map (\<lambda>(k, v). (k, sort_json v)) kvs)))"
    unfolding distinct_map_sort_key fst_sorted_map using 2(2) by simp
  moreover have "\<forall>kv \<in> set kvs. json_wf (sort_json (snd kv))" using 2 by (metis json_wf.simps(3) prod.collapse)
  ultimately show ?case by (auto split: prod.splits)
qed simp_all

lemma sort_key_same_map:
  assumes "distinct (map fst a)" and "distinct (map fst b)" and "map_of a = map_of b"
  shows "sort_key fst a = sort_key fst b"
proof -
  have "set a = set b" using assms by (metis map_of_inject_set)
  moreover have "inj_on fst (set a \<union> set a)" using assms(1) by (simp add: distinct_map)
  ultimately show ?thesis
    using assms(1,2) by (intro map_sorted_distinct_set_unique [of fst]) (simp_all add: distinct_map)
qed

text \<open>
  The canonical text is a faithful name of a value: two values have the same canonical text
  exactly when they are the same up to the order of object keys, at every level; in particular the
  text of an object depends only on the map from its keys to its values.
\<close>

theorem canonical_text_faithful:
  assumes "json_wf v" and "json_wf w"
  shows "(canonical_marshal v = canonical_marshal w) = (sort_json v = sort_json w) \<and>
    (\<forall>a b. v = JObj a \<and> w = JObj b \<and> map_of a = map_of b \<longrightarrow> canonical_marshal v = canonical_marshal w)"
proof (intro conjI allI impI iffI)
  assume "canonical_marshal v = canonical_marshal w"
  then have "print_json (sort_json v) @ [] = print_json (sort_json w) @ []" by (simp add: canonical_marshal_print)
  moreover have "delimited []" by (simp add: delimited_def)
  ultimately show "sort_json v = sort_json w"
    using print_json_readable [OF json_wf_sort [OF assms(1)] json_wf_sort [OF assms(2)]]
    unfolding readable_def by blast
next
  fix a b
  assume ab: "v = JObj a \<and> w = JObj b \<and> map_of a = map_of b"
  with assms have "sort_key fst a = sort_key fst b" by (intro sort_key_same_map) simp_all
  with ab show "canonical_marshal v = canonical_marshal w" by simp
qed (simp add: canonical_marshal_print)

theorem canonical_text_faithful_witness:
  "canonical_marshal (JObj [(''b'', JNum ''1''), (''a'', JStr ''x<'')]) =
   canonical_marshal (JObj [(''a'', JStr ''x<''), (''b'', JNum ''1'')])"
proof -
  have w: "json_wf (JObj [(''b'', JNum ''1''), (''a'', JStr ''x<'')])"
    "json_wf (JObj [(''a'', JStr ''x<''), (''b'', JNum ''1'')])"
    by (simp_all add: number_text_def number_char_def)
  have "map_of [(''b'', JNum ''1''), (''a'', JStr ''x<'')] = map_of [(''a'', JStr ''x<''), (''b'', JNum ''1'')]"
    by (auto simp: fun_eq_iff)
  then show ?thesis using canonical_text_faithful [OF w] by blast
qed

end
