(* ===== verification/Hex.thy ===== *)
theory Hex
  imports Go_Prelude
begin

text \<open>
  The package \<open>encoding/hex\<close> on bytes: the encoding and its decoding are inverse.
\<close>

definition hex_encode :: "string \<Rightarrow> string" where
  "hex_encode s = concat (map (\<lambda>c. [hex_digit (of_char c div 16), hex_digit (of_char c mod 16)]) s)"

definition from_hex_digit :: "char \<Rightarrow> int option" where
  "from_hex_digit c =
     (let n = (of_char c :: int) in
      if 48 \<le> n \<and> n \<le> 57 then Some (n - 48)
      else if 97 \<le> n \<and> n \<le> 102 then Some (n - 87)
      else if 65 \<le> n \<and> n \<le> 70 then Some (n - 55)
      else None)"

fun hex_decode :: "string \<Rightarrow> string option" where
  "hex_decode [] = Some []"
| "hex_decode [_] = None"
| "hex_decode (a # b # s) =
     (case (from_hex_digit a, from_hex_digit b) of
        (Some x, Some y) \<Rightarrow> map_option (\<lambda>r. char_of (16 * x + y) # r) (hex_decode s)
      | _ \<Rightarrow> None)"

lemma from_hex_digit: "0 \<le> n \<Longrightarrow> n < 16 \<Longrightarrow> from_hex_digit (hex_digit n) = Some n"
proof -
  assume "0 \<le> n" "n < 16"
  then have "n \<in> set [0..15]" by simp
  moreover have "\<forall>n \<in> set [0..15]. from_hex_digit (hex_digit n) = Some n" by code_simp
  ultimately show ?thesis by blast
qed

lemma hex_decode_encode: "hex_decode (hex_encode s) = Some s"
proof (induction s)
  case (Cons c s)
  have b: "0 \<le> (of_char c :: int)" "(of_char c :: int) < 256" by (rule of_char_bounds)+
  have h: "from_hex_digit (hex_digit (of_char c div 16)) = Some (of_char c div 16)"
    "from_hex_digit (hex_digit (of_char c mod 16)) = Some (of_char c mod 16)"
    using b by (auto intro!: from_hex_digit simp: pos_imp_zdiv_nonneg_iff)
  have "char_of (16 * (of_char c div 16) + of_char c mod (16::int)) = c" by simp
  with h Cons.IH show ?case by (simp add: hex_encode_def)
qed (simp add: hex_encode_def)

lemma hex_encode_inject: "hex_encode s = hex_encode t \<Longrightarrow> s = t"
  by (metis hex_decode_encode option.inject)

end
