(* ===== verification/Audit_Chain.thy ===== *)
theory Audit_Chain
  imports Json_Canonical Hex
begin

text \<open>
  The tamper-evident audit log (pkg/audit: hmac.go, verify.go and the write, rotation and recovery
  paths of audit.go). A file is its complete lines and an unterminated tail; a directory is a map
  from names to files, newest last. Hashes and the JSON codec are the library record: SHA-256,
  HMAC-SHA256 (key, message), \<open>Decoder.Decode\<close> of an object (which ignores what follows it),
  \<open>json.Unmarshal\<close> of an object, validity of a JSON text, and \<open>json.Marshal\<close> of an object. Keys and
  hashes are byte strings. Mutexes make each method one step; log lines, redaction and the
  cancellation of a verification are not modelled.
\<close>

section \<open>The chain\<close>


record audit_lib =
  al_sha256 :: "string \<Rightarrow> string"
  al_hmac :: "string \<Rightarrow> string \<Rightarrow> string"
  al_decode :: "string \<Rightarrow> json_object option"
  al_unmarshal :: "string \<Rightarrow> json_object option"
  al_valid :: "string \<Rightarrow> bool"
  al_marshal :: "json_object \<Rightarrow> string"

definition genesis_seed :: "audit_lib \<Rightarrow> string" where
  "genesis_seed L = al_sha256 L ''omnipus-audit-genesis-v1''"

text \<open>\<open>resolveChainKey\<close>: the configured key, the process key, or the development key.\<close>

definition resolve_chain_key :: "audit_lib \<Rightarrow> string option \<Rightarrow> string \<Rightarrow> string" where
  "resolve_chain_key L process_key cfg_key =
     (if length cfg_key > 0 then cfg_key
      else case process_key of Some k \<Rightarrow> k | None \<Rightarrow> al_sha256 L ''omnipus-audit-dev-only-key'')"

definition compute_entry_hmac :: "audit_lib \<Rightarrow> string \<Rightarrow> string \<Rightarrow> string \<Rightarrow> string" where
  "compute_entry_hmac L prev canonical key = al_hmac L key (prev @ canonical)"

definition canonical_object :: "json_object \<Rightarrow> string" where
  "canonical_object m = canonical_marshal (JObj (AList.delete ''hmac'' m))"

definition canonical_json_without_hmac :: "audit_lib \<Rightarrow> string \<Rightarrow> string option" where
  "canonical_json_without_hmac L raw = map_option canonical_object (al_decode L raw)"

definition embed_hmac :: "audit_lib \<Rightarrow> string \<Rightarrow> string \<Rightarrow> string \<Rightarrow> (string \<times> string) option" where
  "embed_hmac L raw prev key =
     (case canonical_json_without_hmac L raw of
        None \<Rightarrow> None
      | Some canonical \<Rightarrow>
          (let mac = compute_entry_hmac L prev canonical key in
           case al_decode L raw of
             None \<Rightarrow> None
           | Some m \<Rightarrow> Some (al_marshal L (AList.update ''hmac'' (JStr (hex_encode mac)) m), mac)))"

section \<open>Verification\<close>

record audit_file =
  af_lines :: "string list"
  af_tail :: string

type_synonym audit_dir = "(string, audit_file) gomap"

definition scanned_lines :: "audit_file \<Rightarrow> string list" where
  "scanned_lines f = af_lines f @ (if af_tail f = [] then [] else [af_tail f])"

datatype chain_break = MalformedJson | MissingHmac | NotHex | Uncanonical | Mismatch

record chain_result =
  cr_Valid :: bool
  cr_BrokenAt :: int
  cr_Reason :: "chain_break option"
  cr_FailedFile :: string
  cr_EntriesScanned :: int
  cr_FilesScanned :: int
  cr_FinalHMAC :: "string option"
  cr_PreChainEntries :: int

datatype verify_error = NoKey | CannotOpen string | TooLong string

definition max_line :: int where "max_line = 1048576"

definition broken :: "string \<Rightarrow> int \<Rightarrow> chain_break \<Rightarrow> chain_result \<Rightarrow> chain_result" where
  "broken path line_no reason res =
     res\<lparr>cr_Valid := False, cr_BrokenAt := line_no, cr_Reason := Some reason, cr_FailedFile := path,
         cr_EntriesScanned := line_no\<rparr>"

definition hmac_field :: "json_object \<Rightarrow> string option" where
  "hmac_field m = (case map_of m ''hmac'' of Some (JStr h) \<Rightarrow> Some h | _ \<Rightarrow> None)"

fun verify_lines ::
  "audit_lib \<Rightarrow> string \<Rightarrow> string \<Rightarrow> string list \<Rightarrow> int \<Rightarrow> bool \<Rightarrow> string \<Rightarrow> chain_result \<Rightarrow> verify_error + chain_result" where
  "verify_lines L path key [] line_no saw prev res = Inr (res\<lparr>cr_FinalHMAC := Some prev\<rparr>)"
| "verify_lines L path key (line # rest) line_no0 saw prev res =
     (let line_no = line_no0 + 1; raw = drop_cr line in
      if int (length line) \<ge> max_line then Inl (TooLong path)
      else if trim_space raw = [] then verify_lines L path key rest line_no saw prev res
      else case al_decode L raw of
        None \<Rightarrow> Inr (broken path line_no MalformedJson res)
      | Some m \<Rightarrow>
          (case hmac_field m of
             None \<Rightarrow>
               if \<not> saw then
                 verify_lines L path key rest line_no saw prev
                   (res\<lparr>cr_PreChainEntries := cr_PreChainEntries res + 1\<rparr>)
               else Inr (broken path line_no MissingHmac res)
           | Some h \<Rightarrow>
               (case hex_decode h of
                  None \<Rightarrow> Inr (broken path line_no NotHex res)
                | Some expected \<Rightarrow>
                    if length expected \<noteq> 32 then Inr (broken path line_no NotHex res)
                    else case canonical_json_without_hmac L raw of
                      None \<Rightarrow> Inr (broken path line_no Uncanonical res)
                    | Some canonical \<Rightarrow>
                        (let got = compute_entry_hmac L prev canonical key in
                         if got \<noteq> expected then Inr (broken path line_no Mismatch res)
                         else verify_lines L path key rest line_no True got
                           (res\<lparr>cr_EntriesScanned := line_no\<rparr>)))))"

definition initial_result :: chain_result where
  "initial_result =
     \<lparr>cr_Valid = True, cr_BrokenAt = -1, cr_Reason = None, cr_FailedFile = '''', cr_EntriesScanned = 0,
      cr_FilesScanned = 1, cr_FinalHMAC = None, cr_PreChainEntries = 0\<rparr>"

definition verify_file ::
  "audit_lib \<Rightarrow> audit_dir \<Rightarrow> string \<Rightarrow> string \<Rightarrow> string \<Rightarrow> verify_error + chain_result" where
  "verify_file L dir path key seed =
     (if length key = 0 then Inl NoKey
      else let seed = (if length seed = 0 then genesis_seed L else seed) in
      case map_of dir path of
        None \<Rightarrow> Inl (CannotOpen path)
      | Some f \<Rightarrow> verify_lines L path key (scanned_lines f) 0 False seed initial_result)"

definition current_name :: string where "current_name = ''audit.jsonl''"

text \<open>\<open>audit-*.jsonl\<close>.\<close>

definition is_rotated_name :: "string \<Rightarrow> bool" where
  "is_rotated_name n \<longleftrightarrow> length n \<ge> 12 \<and> prefix ''audit-'' n \<and> suffix ''.jsonl'' n"

fun verify_files ::
  "audit_lib \<Rightarrow> audit_dir \<Rightarrow> string \<Rightarrow> int \<Rightarrow> string list \<Rightarrow> string \<Rightarrow> int \<Rightarrow> int \<Rightarrow> verify_error + chain_result" where
  "verify_files L dir key n_files [] seed entries pre_chain =
     Inr (initial_result\<lparr>cr_FilesScanned := n_files, cr_EntriesScanned := entries,
       cr_PreChainEntries := pre_chain, cr_FinalHMAC := Some seed\<rparr>)"
| "verify_files L dir key n_files (f # fs) seed entries pre_chain =
     (case verify_file L dir f key seed of
        Inl e \<Rightarrow> Inl e
      | Inr res \<Rightarrow>
          (let entries = entries + cr_EntriesScanned res; pre_chain = pre_chain + cr_PreChainEntries res in
           if \<not> cr_Valid res then
             Inr (res\<lparr>cr_FilesScanned := n_files, cr_EntriesScanned := entries, cr_PreChainEntries := pre_chain\<rparr>)
           else verify_files L dir key n_files fs (case cr_FinalHMAC res of Some h \<Rightarrow> h | None \<Rightarrow> []) entries pre_chain))"

definition verify_dir :: "audit_lib \<Rightarrow> audit_dir \<Rightarrow> string \<Rightarrow> verify_error + chain_result" where
  "verify_dir L dir key =
     (if length key = 0 then Inl NoKey
      else let rotated = sort (filter is_rotated_name (map fst dir));
               files = rotated @ (if map_of dir current_name \<noteq> None then [current_name] else []) in
      if files = [] then Inr (initial_result\<lparr>cr_FilesScanned := 0\<rparr>)
      else verify_files L dir key (int (length files)) files (genesis_seed L) 0 0)"

section \<open>Resuming a chain\<close>

fun seed_from_lines :: "audit_lib \<Rightarrow> string list \<Rightarrow> string option" where
  "seed_from_lines L [] = None"
| "seed_from_lines L (line # earlier) =
     (let s = trim_space line in
      if s = [] then seed_from_lines L earlier
      else case al_unmarshal L s of
        None \<Rightarrow> seed_from_lines L earlier
      | Some m \<Rightarrow>
          (case hmac_field m of
             None \<Rightarrow> None
           | Some h \<Rightarrow> (case hex_decode h of
                 None \<Rightarrow> None
               | Some mac \<Rightarrow> if length mac \<noteq> 32 then None else Some mac)))"

definition read_chain_seed_from_file :: "audit_lib \<Rightarrow> audit_file \<Rightarrow> string option" where
  "read_chain_seed_from_file L f = seed_from_lines L (rev (scanned_lines f))"

section \<open>The logger\<close>

record audit_logger =
  lg_open :: bool
  lg_currentSize :: int
  lg_currentDate :: string
  lg_maxSize :: int
  lg_degraded :: bool
  lg_chainKey :: string
  lg_prevHMAC :: string

datatype audit_io = IoOpen | IoStat | IoTruncate | IoRename | IoWrite | IoFlush | IoSync

datatype audit_error = DegradedMode | RotationFailed | WriteFailed | FlushFailed | SyncFailed | OpenFailed | StatFailed

definition file_size :: "audit_file \<Rightarrow> int" where
  "file_size f = int (sum_list (map (\<lambda>l. length l + 1) (af_lines f)) + length (af_tail f))"

definition empty_file :: audit_file where "empty_file = \<lparr>af_lines = [], af_tail = []\<rparr>"

definition file_at :: "audit_dir \<Rightarrow> string \<Rightarrow> audit_file" where
  "file_at dir name = (case map_of dir name of Some f \<Rightarrow> f | None \<Rightarrow> empty_file)"

text \<open>Appending a line: it continues the unterminated tail.\<close>

definition append_line :: "string \<Rightarrow> audit_file \<Rightarrow> audit_file" where
  "append_line out f = f\<lparr>af_lines := af_lines f @ [af_tail f @ out], af_tail := []\<rparr>"

text \<open>\<open>openCurrentFile\<close>.\<close>

definition open_current_file ::
  "audit_lib \<Rightarrow> (audit_io \<Rightarrow> bool) \<Rightarrow> string \<Rightarrow> audit_logger \<Rightarrow> audit_dir \<Rightarrow>
     audit_error option \<times> audit_logger \<times> audit_dir" where
  "open_current_file L fails today lg dir =
     (if fails IoOpen then (Some OpenFailed, lg, dir)
      else let f = file_at dir current_name; dir' = AList.update current_name f dir in
      if fails IoStat then (Some StatFailed, lg\<lparr>lg_degraded := True\<rparr>, dir')
      else let lg1 = lg\<lparr>lg_open := True, lg_currentSize := file_size f, lg_currentDate := today, lg_degraded := False\<rparr> in
        (None,
         (if file_size f > 0
          then (case read_chain_seed_from_file L f of Some seed \<Rightarrow> lg1\<lparr>lg_prevHMAC := seed\<rparr> | None \<Rightarrow> lg1)
          else lg1), dir'))"

definition rotated_name :: "string \<Rightarrow> int \<Rightarrow> audit_dir \<Rightarrow> string" where
  "rotated_name date millis dir =
     (let dst = ''audit-'' @ date @ ''.jsonl'' in
      if map_of dir dst \<noteq> None then ''audit-'' @ date @ ''-'' @ itoa millis @ ''.jsonl'' else dst)"

definition rotate_log ::
  "audit_lib \<Rightarrow> (audit_io \<Rightarrow> bool) \<Rightarrow> string \<Rightarrow> int \<Rightarrow> audit_logger \<Rightarrow> audit_dir \<Rightarrow>
     audit_error option \<times> audit_logger \<times> audit_dir" where
  "rotate_log L fails today millis lg dir =
     (let chain_seed = lg_prevHMAC lg; dst = rotated_name (lg_currentDate lg) millis dir in
      case (if fails IoRename then None else map_of dir current_name) of
        None \<Rightarrow> (Some RotationFailed, lg\<lparr>lg_degraded := True, lg_open := False\<rparr>, dir)
      | Some f \<Rightarrow>
          (case open_current_file L fails today lg (AList.update dst f (AList.delete current_name dir)) of
             (Some e, lg', dir') \<Rightarrow> (Some e, lg', dir')
           | (None, lg', dir') \<Rightarrow> (None, lg'\<lparr>lg_prevHMAC := chain_seed\<rparr>, dir')))"

text \<open>\<open>writeLine\<close>; a write or flush that fails leaves nothing on disk.\<close>

definition append_entry ::
  "audit_lib \<Rightarrow> (audit_io \<Rightarrow> bool) \<Rightarrow> string \<Rightarrow> bool \<Rightarrow> audit_logger \<Rightarrow> audit_dir \<Rightarrow>
     audit_error option \<times> audit_logger \<times> audit_dir" where
  "append_entry L fails data sync lg dir =
     (let (out, mac) = (case embed_hmac L data (lg_prevHMAC lg) (lg_chainKey lg) of
            Some (out, mac) \<Rightarrow> (out, Some mac) | None \<Rightarrow> (data, None)) in
      if fails IoWrite then (Some WriteFailed, lg\<lparr>lg_degraded := True\<rparr>, dir)
      else if fails IoFlush then (Some FlushFailed, lg, dir)
      else let dir' = AList.update current_name (append_line out (file_at dir current_name)) dir in
      if sync \<and> fails IoSync then (Some SyncFailed, lg, dir')
      else let lg1 = lg\<lparr>lg_currentSize := lg_currentSize lg + int (length out) + 1\<rparr> in
        (None, (case mac of Some m \<Rightarrow> lg1\<lparr>lg_prevHMAC := m\<rparr> | None \<Rightarrow> lg1), dir'))"

definition write_line ::
  "audit_lib \<Rightarrow> (audit_io \<Rightarrow> bool) \<Rightarrow> string \<Rightarrow> int \<Rightarrow> string \<Rightarrow> bool \<Rightarrow> audit_logger \<Rightarrow> audit_dir \<Rightarrow>
     audit_error option \<times> audit_logger \<times> audit_dir" where
  "write_line L fails today millis data sync lg dir =
     (if lg_degraded lg \<or> \<not> lg_open lg then (Some DegradedMode, lg, dir)
      else if today \<noteq> lg_currentDate lg \<or> lg_currentSize lg \<ge> lg_maxSize lg then
        (case rotate_log L fails today millis lg dir of
           (Some e, lg', dir') \<Rightarrow> (Some RotationFailed, lg'\<lparr>lg_degraded := True\<rparr>, dir')
         | (None, lg', dir') \<Rightarrow> append_entry L fails data sync lg' dir')
      else append_entry L fails data sync lg dir)"

definition critical_event_needs_sync :: "string \<Rightarrow> string \<Rightarrow> bool" where
  "critical_event_needs_sync event decision =
     (decision = ''deny'' \<or> decision = ''error'' \<or> event = ''boot.abort'' \<or>
      event = ''tool.policy.deny.attempted'' \<or> event = ''tool.policy.ask.denied'')"

text \<open>\<open>Log\<close>, from the entry's event, decision and marshalled form (\<^const>\<open>None\<close> when marshalling fails).\<close>

definition log_entry ::
  "audit_lib \<Rightarrow> (audit_io \<Rightarrow> bool) \<Rightarrow> string \<Rightarrow> int \<Rightarrow> string \<Rightarrow> string \<Rightarrow> string option \<Rightarrow>
     audit_logger \<Rightarrow> audit_dir \<Rightarrow> (audit_error option + unit) \<times> audit_logger \<times> audit_dir" where
  "log_entry L fails today millis event decision data lg dir =
     (if event = '''' then (Inl None, lg, dir)
      else case data of
        None \<Rightarrow> (Inr (), lg, dir)
      | Some d \<Rightarrow>
          (case write_line L fails today millis d (critical_event_needs_sync event decision) lg dir of
             (e, lg', dir') \<Rightarrow> (Inl e, lg', dir')))"

definition close_log :: "audit_logger \<Rightarrow> audit_logger" where
  "close_log lg = lg\<lparr>lg_degraded := True, lg_open := False\<rparr>"

text \<open>
  \<open>recoverCorruption\<close>: an unterminated last record is cut off when it is not JSON, unless it is the
  whole file.
\<close>

definition trim_crlf :: "string \<Rightarrow> string" where
  "trim_crlf s = rev (dropWhile (\<lambda>c. c = CHR 0x0D \<or> c = CHR 0x0A) (rev s))"

definition read_last_line :: "audit_file \<Rightarrow> string option" where
  "read_last_line f = (if af_lines f = [] then None else Some (trim_crlf (af_tail f)))"

definition recover_corruption :: "audit_lib \<Rightarrow> (audit_io \<Rightarrow> bool) \<Rightarrow> audit_dir \<Rightarrow> audit_dir" where
  "recover_corruption L fails dir =
     (case map_of dir current_name of
        None \<Rightarrow> dir
      | Some f \<Rightarrow>
          (case read_last_line f of
             None \<Rightarrow> dir
           | Some last_line \<Rightarrow>
               if last_line = [] then dir
               else if al_valid L last_line then dir
               else if fails IoTruncate then dir
               else AList.update current_name (f\<lparr>af_tail := []\<rparr>) dir))"

text \<open>
  \<open>cleanupExpired\<close>: \<open>removable\<close> says of a rotated file that it is past the retention and that its
  removal succeeds.
\<close>

definition cleanup_expired :: "(string \<Rightarrow> bool) \<Rightarrow> audit_dir \<Rightarrow> audit_dir" where
  "cleanup_expired removable dir = filter (\<lambda>nf. \<not> (is_rotated_name (fst nf) \<and> removable (fst nf))) dir"

definition default_max_size :: int where "default_max_size = 50 * 1024 * 1024"

definition new_logger ::
  "audit_lib \<Rightarrow> (audit_io \<Rightarrow> bool) \<Rightarrow> (string \<Rightarrow> bool) \<Rightarrow> string \<Rightarrow> int \<Rightarrow> bool \<Rightarrow> string option \<Rightarrow>
     string \<Rightarrow> audit_dir \<Rightarrow> (audit_error + audit_logger) \<times> audit_dir" where
  "new_logger L fails removable today max_size requested process_key cfg_key dir =
     (let lg = \<lparr>lg_open = False, lg_currentSize = 0, lg_currentDate = '''',
            lg_maxSize = (if max_size \<le> 0 then default_max_size else max_size), lg_degraded = False,
            lg_chainKey = resolve_chain_key L process_key cfg_key, lg_prevHMAC = genesis_seed L\<rparr>;
          dir1 = recover_corruption L fails dir in
      case open_current_file L fails today lg dir1 of
        (Some e, lg', dir') \<Rightarrow> 
          if requested then (Inl e, dir')
          else (Inr (lg'\<lparr>lg_degraded := True\<rparr>), cleanup_expired removable dir')
      | (None, lg', dir') \<Rightarrow> (Inr lg', cleanup_expired removable dir'))"

definition verify_current :: "audit_lib \<Rightarrow> audit_logger \<Rightarrow> audit_dir \<Rightarrow> verify_error + chain_result" where
  "verify_current L lg dir = verify_file L dir current_name (lg_chainKey lg) (genesis_seed L)"

lemma cleanup_nothing [simp]: "cleanup_expired (\<lambda>_. False) dir = dir"
  by (simp add: cleanup_expired_def)

section \<open>What a verified file says\<close>

text \<open>The links of a file: the canonical text and the hash of every row that carries one.\<close>

definition link_of :: "audit_lib \<Rightarrow> string \<Rightarrow> (string \<times> string) option" where
  "link_of L line =
     (let raw = drop_cr line in
      if trim_space raw = [] then None
      else case al_decode L raw of
        None \<Rightarrow> None
      | Some m \<Rightarrow> (case hmac_field m of None \<Rightarrow> None | Some h \<Rightarrow> map_option (\<lambda>e. (canonical_object m, e)) (hex_decode h)))"

definition links :: "audit_lib \<Rightarrow> string list \<Rightarrow> (string \<times> string) list" where
  "links L lines = List.map_filter (link_of L) lines"

lemma links_Nil [simp]: "links L [] = []"
  by (simp add: links_def List.map_filter_def)

lemma links_Cons [simp]: "links L (x # xs) = (case link_of L x of None \<Rightarrow> links L xs | Some l \<Rightarrow> l # links L xs)"
  by (simp add: links_def List.map_filter_def split: option.split)

lemma links_append [simp]: "links L (xs @ ys) = links L xs @ links L ys"
  by (simp add: links_def List.map_filter_def)

fun chained :: "audit_lib \<Rightarrow> string \<Rightarrow> string \<Rightarrow> (string \<times> string) list \<Rightarrow> bool" where
  "chained L key prev [] = True"
| "chained L key prev ((c, e) # xs) = (al_hmac L key (prev @ c) = e \<and> length e = 32 \<and> chained L key e xs)"

definition final_hash :: "string \<Rightarrow> (string \<times> string) list \<Rightarrow> string" where
  "final_hash prev xs = last (prev # map snd xs)"

lemma final_hash_simps [simp]: "final_hash prev [] = prev" "final_hash prev (x # xs) = final_hash (snd x) xs"
  by (simp_all add: final_hash_def)

lemma final_hash_append: "final_hash prev (xs @ ys) = final_hash (final_hash prev xs) ys"
  by (induction xs arbitrary: prev) simp_all

lemma chained_append: "chained L key prev (xs @ ys) \<longleftrightarrow> chained L key prev xs \<and> chained L key (final_hash prev xs) ys"
proof (induction xs arbitrary: prev)
  case (Cons x xs)
  obtain c e where "x = (c, e)" by (cases x)
  then show ?case unfolding append_Cons by (simp only: chained.simps Cons.IH final_hash_simps snd_conv conj_assoc)
qed simp

lemma broken_invalid [simp]: "\<not> cr_Valid (broken path n why res)"
  by (simp add: broken_def)

lemma verify_lines_signed:
  assumes "int (length line) < max_line" and "trim_space (drop_cr line) \<noteq> []"
    and "al_decode L (drop_cr line) = Some m" and "hmac_field m = Some h"
  shows "verify_lines L path key (line # rest) n saw prev res =
    (case hex_decode h of
       None \<Rightarrow> Inr (broken path (n + 1) NotHex res)
     | Some e \<Rightarrow>
         if length e \<noteq> 32 then Inr (broken path (n + 1) NotHex res)
         else if al_hmac L key (prev @ canonical_object m) \<noteq> e then Inr (broken path (n + 1) Mismatch res)
         else verify_lines L path key rest (n + 1) True e (res\<lparr>cr_EntriesScanned := n + 1\<rparr>))"
proof -
  have len: "\<not> max_line \<le> int (length line)" using assms(1) by simp
  show ?thesis
  proof (cases "hex_decode h")
    case None
    then show ?thesis unfolding verify_lines.simps(2) Let_def using len assms(2-) by simp
  next
    case (Some e)
    show ?thesis
    proof (cases "length e = 32")
      case False
      with Some show ?thesis unfolding verify_lines.simps(2) Let_def using len assms(2-) by simp
    next
      case True
      show ?thesis
        unfolding verify_lines.simps(2) Let_def compute_entry_hmac_def canonical_json_without_hmac_def
          if_not_P [OF len] if_not_P [OF assms(2)] assms(3,4) option.map option.case Some
        using True by (cases "al_hmac L key (prev @ canonical_object m) = e") simp_all
    qed
  qed
qed

lemma verify_lines_length: "verify_lines L path key (line # rest) n saw prev res = Inr r \<Longrightarrow> int (length line) < max_line"
  by (simp add: Let_def split: if_splits)

lemma verify_lines_blank:
  assumes "int (length line) < max_line" and "trim_space (drop_cr line) = []"
  shows "verify_lines L path key (line # rest) n saw prev res = verify_lines L path key rest (n + 1) saw prev res"
  using assms by (simp add: Let_def)

lemma verify_lines_malformed:
  assumes "int (length line) < max_line" and "trim_space (drop_cr line) \<noteq> []" and "al_decode L (drop_cr line) = None"
  shows "verify_lines L path key (line # rest) n saw prev res = Inr (broken path (n + 1) MalformedJson res)"
  using assms by (simp add: Let_def)

lemma verify_lines_unsigned:
  assumes "int (length line) < max_line" and "trim_space (drop_cr line) \<noteq> []"
    and "al_decode L (drop_cr line) = Some m" and "hmac_field m = None"
  shows "verify_lines L path key (line # rest) n saw prev res =
    (if saw then Inr (broken path (n + 1) MissingHmac res)
     else verify_lines L path key rest (n + 1) saw prev (res\<lparr>cr_PreChainEntries := cr_PreChainEntries res + 1\<rparr>))"
  using assms by (simp add: Let_def)

lemma verify_lines_valid:
  "verify_lines L path key lines n saw prev res = Inr r \<Longrightarrow> cr_Valid r \<Longrightarrow>
     chained L key prev (links L lines) \<and> cr_FinalHMAC r = Some (final_hash prev (links L lines))"
proof (induction lines arbitrary: n saw prev res)
  case (Cons line lines)
  let ?raw = "drop_cr line"
  note [simp del] = verify_lines.simps(2)
  have len: "int (length line) < max_line" using Cons.prems(1) by (rule verify_lines_length)
  show ?case
  proof (cases "trim_space ?raw = []")
    case True
    then have "link_of L line = None" by (simp add: link_of_def)
    then show ?thesis using Cons.IH Cons.prems verify_lines_blank [OF len True] by simp
  next
    case False
    show ?thesis
    proof (cases "al_decode L ?raw")
      case None
      then show ?thesis using Cons.prems verify_lines_malformed [OF len False None] by auto
    next
      case m: (Some m)
      show ?thesis
      proof (cases "hmac_field m")
        case None
        then have "link_of L line = None" using False m by (simp add: link_of_def)
        then show ?thesis
          using Cons.IH Cons.prems verify_lines_unsigned [OF len False m None] by (auto split: if_splits)
      next
        case (Some h)
        obtain e where e: "hex_decode h = Some e" "length e = 32" "al_hmac L key (prev @ canonical_object m) = e"
          and r: "verify_lines L path key lines (n + 1) True e (res\<lparr>cr_EntriesScanned := n + 1\<rparr>) = Inr r"
          using Cons.prems verify_lines_signed [OF len False m Some, of path key lines n saw prev res]
          by (auto split: option.splits if_splits)
        then have "link_of L line = Some (canonical_object m, e)" using False m Some by (simp add: link_of_def)
        then show ?thesis using Cons.IH [OF r Cons.prems(2)] e by simp
      qed
    qed
  qed
qed auto

section \<open>Tampering\<close>

definition messages :: "string \<Rightarrow> (string \<times> string) list \<Rightarrow> string set" where
  "messages seed xs = set (map (\<lambda>(prev, c, e). prev @ c) (zip (seed # map snd xs) xs))"

lemma in_messages: "i < length xs \<Longrightarrow> (seed # map snd xs) ! i @ fst (xs ! i) \<in> messages seed xs"
  unfolding messages_def set_map image_iff
  by (rule bexI [of _ "((seed # map snd xs) ! i, xs ! i)"]) (auto simp: in_set_zip split: prod.splits)

lemma chained_nth:
  "chained L key seed xs \<Longrightarrow> i < length xs \<Longrightarrow>
     snd (xs ! i) = al_hmac L key ((seed # map snd xs) ! i @ fst (xs ! i)) \<and> length (snd (xs ! i)) = 32"
proof (induction xs arbitrary: seed i)
  case (Cons x xs)
  obtain c e where x: "x = (c, e)" by (cases x)
  show ?case
  proof (cases i)
    case (Suc j)
    have "chained L key e xs" "j < length xs" using Cons.prems unfolding x Suc chained.simps by (metis, simp)
    from Cons.IH [OF this] show ?thesis unfolding Suc x list.map snd_conv nth_Cons_Suc .
  next
    case 0
    show ?thesis using Cons.prems(1) unfolding 0 x chained.simps nth_Cons_0 snd_conv fst_conv by (metis)
  qed
qed simp

lemma prev_length:
  assumes "chained L key seed xs" and "length seed = 32" and "i \<le> length xs"
  shows "length ((seed # map snd xs) ! i) = 32"
  using chained_nth [OF assms(1), of "i - 1"] assms(2,3) by (cases i) auto

text \<open>Hashes of a chain without collisions are all different.\<close>

lemma hashes_distinct:
  assumes "chained L key seed xs" and "length seed = 32" and "seed \<notin> snd ` set xs"
    and "inj_on (al_hmac L key) (messages seed xs)"
    and "i < j" and "j \<le> length xs"
  shows "(seed # map snd xs) ! i \<noteq> (seed # map snd xs) ! j"
  using assms(5,6)
proof (induction i arbitrary: j)
  case 0
  then show ?case using assms(3) by (cases j) (auto simp: image_iff dest!: nth_mem)
next
  case (Suc i)
  then obtain j' where j: "j = Suc j'" "i < j'" "j' < length xs" by (cases j) auto
  let ?P = "\<lambda>i. (seed # map snd xs) ! i" and ?m = "\<lambda>i. (seed # map snd xs) ! i @ fst (xs ! i)"
  show ?case
  proof
    assume "?P (Suc i) = ?P j"
    then have "al_hmac L key (?m i) = al_hmac L key (?m j')"
      using chained_nth [OF assms(1), of i] chained_nth [OF assms(1), of j'] j by simp
    moreover have "?m i \<in> messages seed xs" "?m j' \<in> messages seed xs"
      using j by (simp_all only: in_messages)
    ultimately have "?m i = ?m j'" using assms(4) by (auto dest: inj_onD)
    then have "?P i = ?P j'"
      using prev_length [OF assms(1,2), of i] prev_length [OF assms(1,2), of j'] j by simp
    with Suc.IH [of j'] j show False by simp
  qed
qed

lemma chain_prefix:
  assumes "chained L key seed xs" and "chained L key seed ys" and "length seed = 32" and "seed \<notin> snd ` set xs"
    and "snd ` set ys \<subseteq> snd ` set xs" and "inj_on (al_hmac L key) (messages seed xs \<union> messages seed ys)"
  shows "prefix ys xs"
proof -
  have inj: "inj_on (al_hmac L key) (messages seed xs)" using assms(6) by (rule inj_on_subset) simp
  let ?P = "\<lambda>zs i. (seed # map snd zs) ! i"
  have "n \<le> length ys \<Longrightarrow> n \<le> length xs \<and> take n ys = take n xs" for n
  proof (induction n)
    case (Suc n)
    then have IH: "n \<le> length xs" "take n ys = take n xs" and n: "n < length ys" by simp_all
    have P: "?P ys n = ?P xs n"
    proof (cases n)
      case (Suc k)
      with IH n have "ys ! k = xs ! k" by (metis lessI nth_take)
      with Suc IH n show ?thesis by simp
    qed simp
    have "snd (ys ! n) \<in> snd ` set xs" using assms(5) n nth_mem by blast
    then obtain i where i: "i < length xs" "snd (ys ! n) = snd (xs ! i)" by (auto simp: in_set_conv_nth)
    then have "al_hmac L key (?P ys n @ fst (ys ! n)) = al_hmac L key (?P xs i @ fst (xs ! i))"
      using chained_nth [OF assms(1) i(1)] chained_nth [OF assms(2) n] by simp
    moreover have "?P ys n @ fst (ys ! n) \<in> messages seed ys" "?P xs i @ fst (xs ! i) \<in> messages seed xs"
      using n i by (simp_all only: in_messages)
    ultimately have e: "?P xs n @ fst (ys ! n) = ?P xs i @ fst (xs ! i)"
      using assms(6) P by (metis UnI1 UnI2 inj_onD)
    moreover have "length (?P xs n) = 32" "length (?P xs i) = 32"
      using prev_length [OF assms(1,3)] IH i by simp_all
    ultimately have "?P xs n = ?P xs i" "fst (ys ! n) = fst (xs ! i)" by simp_all
    then have "n = i"
      using hashes_distinct [OF assms(1,3,4) inj] IH(1) i(1) by (metis less_imp_le_nat nat_neq_iff)
    with i n IH \<open>fst (ys ! n) = fst (xs ! i)\<close> show ?case
      by (simp add: take_Suc_conv_app_nth prod_eq_iff)
  qed simp
  from this [of "length ys"] show ?thesis by (metis order_refl take_all take_is_prefix)
qed

text \<open>
  C9. Tamper evidence. Let a file be changed in any way by someone who cannot make new hashes (every
  hash in it occurs in the original) and let no two of the signed messages collide. If both
  versions verify, the signed rows of the changed file are an initial segment of the original's, in
  order and content: the only undetected changes to signed rows are dropping them from the end.
\<close>

theorem tampering_is_detected:
  assumes "verify_file L dir path key seed = Inr r" and "cr_Valid r" and "map_of dir path = Some f"
    and "verify_file L dir' path key seed = Inr r'" and "cr_Valid r'" and "map_of dir' path = Some f'"
    and "length seed = 32" and "seed \<notin> snd ` set (links L (scanned_lines f))"
    and "snd ` set (links L (scanned_lines f')) \<subseteq> snd ` set (links L (scanned_lines f))"
    and "inj_on (al_hmac L key) (messages seed (links L (scanned_lines f)) \<union> messages seed (links L (scanned_lines f')))"
  shows "prefix (links L (scanned_lines f')) (links L (scanned_lines f))"
proof (rule chain_prefix [OF _ _ assms(7-10)])
  have s: "seed \<noteq> []" using assms(7) by auto
  show "chained L key seed (links L (scanned_lines f))"
    using assms(1-3) s verify_lines_valid by (auto simp: verify_file_def Let_def split: if_splits)
  show "chained L key seed (links L (scanned_lines f'))"
    using assms(4-6) s verify_lines_valid by (auto simp: verify_file_def Let_def split: if_splits)
qed

section \<open>A small library to run the log with\<close>

text \<open>
  A small library to run the log with: a row is its hash in hexadecimal (when there is one) and its
  event, and the "hash" is the reversed end of what is signed.
\<close>

definition row_object :: "string \<Rightarrow> json_object option" where
  "row_object s =
     Some (if int (length s) \<ge> 64 then [(''hmac'', JStr (take 64 s)), (''event'', JStr (drop 64 s))]
       else [(''event'', JStr s)])"

definition text_of :: "json option \<Rightarrow> string" where
  "text_of v = (case v of Some (JStr s) \<Rightarrow> s | _ \<Rightarrow> [])"

definition small_lib :: audit_lib where
  "small_lib =
     \<lparr>al_sha256 = (\<lambda>s. take 32 (rev s @ replicate 32 CHR ''x'')),
      al_hmac = (\<lambda>k s. take 32 (rev s @ replicate 32 CHR ''x'')),
      al_decode = row_object, al_unmarshal = row_object, al_valid = (\<lambda>_. True),
      al_marshal = (\<lambda>m. text_of (map_of m ''hmac'') @ text_of (map_of m ''event''))\<rparr>"

definition no_failure :: "audit_io \<Rightarrow> bool" where "no_failure op = False"

text \<open>Rows written one after another, each with its date and clock.\<close>

fun write_rows ::
  "audit_lib \<Rightarrow> (string \<times> int \<times> string) list \<Rightarrow> audit_logger \<Rightarrow> audit_dir \<Rightarrow> audit_logger \<times> audit_dir" where
  "write_rows L [] lg dir = (lg, dir)"
| "write_rows L ((today, millis, d) # rows) lg dir =
     (case write_line L no_failure today millis d False lg dir of
        (e, lg', dir') \<Rightarrow> write_rows L rows lg' dir')"

definition small_log :: "int \<Rightarrow> (string \<times> int \<times> string) list \<Rightarrow> audit_logger \<times> audit_dir" where
  "small_log max_size rows =
     (case new_logger small_lib no_failure (\<lambda>_. False) ''d1'' max_size True None ''k'' [] of
        (Inr lg, dir) \<Rightarrow> write_rows small_lib rows lg dir
      | (Inl e, dir) \<Rightarrow> (\<lparr>lg_open = False, lg_currentSize = 0, lg_currentDate = [], lg_maxSize = 0,
          lg_degraded = True, lg_chainKey = [], lg_prevHMAC = []\<rparr>, dir))"

definition valid_result :: "verify_error + chain_result \<Rightarrow> bool" where
  "valid_result r = (case r of Inr res \<Rightarrow> cr_Valid res | Inl _ \<Rightarrow> False)"


section \<open>Rows without a hash\<close>

definition unsigned_row :: "audit_lib \<Rightarrow> string \<Rightarrow> bool" where
  "unsigned_row L line \<longleftrightarrow> int (length line) < max_line \<and> trim_space (drop_cr line) \<noteq> [] \<and>
     (case al_decode L (drop_cr line) of None \<Rightarrow> False | Some m \<Rightarrow> hmac_field m = None)"

definition same_verdict :: "int \<Rightarrow> chain_result \<Rightarrow> chain_result \<Rightarrow> bool" where
  "same_verdict k r r' \<longleftrightarrow> cr_Valid r' = cr_Valid r \<and> cr_FinalHMAC r' = cr_FinalHMAC r \<and> cr_Reason r' = cr_Reason r \<and>
     cr_PreChainEntries r' = cr_PreChainEntries r + k \<and> (\<not> cr_Valid r \<longrightarrow> cr_BrokenAt r' = cr_BrokenAt r + k)"

lemma verify_unsigned_prefix:
  "list_all (unsigned_row L) us \<Longrightarrow>
   verify_lines L path key (us @ lines) n False prev res =
   verify_lines L path key lines (n + int (length us)) False prev
     (res\<lparr>cr_PreChainEntries := cr_PreChainEntries res + int (length us)\<rparr>)"
proof (induction us arbitrary: n res)
  case (Cons u us)
  note [simp del] = verify_lines.simps(2)
  have u: "int (length u) < max_line" "trim_space (drop_cr u) \<noteq> []"
    "\<exists>m. al_decode L (drop_cr u) = Some m \<and> hmac_field m = None"
    using Cons.prems by (auto simp: unsigned_row_def split: option.splits)
  then obtain m where "al_decode L (drop_cr u) = Some m" "hmac_field m = None" by blast
  from verify_lines_unsigned [OF u(1,2) this] Cons.IH Cons.prems show ?case by (simp add: algebra_simps)
qed simp

lemma verify_lines_shift:
  assumes "cr_Valid res = cr_Valid res'" and "cr_PreChainEntries res' = cr_PreChainEntries res + k"
    and "cr_Reason res' = cr_Reason res \<and> cr_FinalHMAC res' = cr_FinalHMAC res" and "cr_Valid res"
    and "verify_lines L path key lines n saw prev res = Inr r"
  shows "\<exists>r'. verify_lines L path key lines (n + k) saw prev res' = Inr r' \<and> same_verdict k r r'"
  using assms
proof (induction lines arbitrary: n saw prev res res')
  case Nil
  then show ?case by (auto simp: same_verdict_def)
next
  case (Cons line lines)
  note [simp del] = verify_lines.simps(2)
  have len: "int (length line) < max_line" using Cons.prems(5) by (rule verify_lines_length)
  have shift: "n + k + 1 = n + 1 + k" by simp
  have bad: "same_verdict k (broken path (n + 1) why res) (broken path (n + k + 1) why res')" for why
    using Cons.prems(2,3) by (simp add: same_verdict_def broken_def)
  show ?case
  proof (cases "trim_space (drop_cr line) = []")
    case True
    then show ?thesis using Cons.IH [OF Cons.prems(1-4), of "n + 1" saw prev] Cons.prems(5)
      by (simp add: verify_lines_blank [OF len True] shift)
  next
    case False
    show ?thesis
    proof (cases "al_decode L (drop_cr line)")
      case None
      then show ?thesis using Cons.prems(5) bad by (auto simp: verify_lines_malformed [OF len False None])
    next
      case m: (Some m)
      show ?thesis
      proof (cases "hmac_field m")
        case None
        note step = verify_lines_unsigned [OF len False m None]
        show ?thesis
        proof (cases saw)
          case True
          then show ?thesis using Cons.prems(5) bad by (auto simp: step)
        next
          case False
          have "\<exists>r'. verify_lines L path key lines (n + 1 + k) False prev
              (res'\<lparr>cr_PreChainEntries := cr_PreChainEntries res' + 1\<rparr>) = Inr r' \<and> same_verdict k r r'"
            using Cons.prems False
            by (intro Cons.IH [of "res\<lparr>cr_PreChainEntries := cr_PreChainEntries res + 1\<rparr>"]) (simp_all add: step)
          then show ?thesis using False by (simp add: step shift)
        qed
      next
        case (Some h)
        note step = verify_lines_signed [OF len False m Some]
        show ?thesis
        proof (cases "hex_decode h")
          case None
          then show ?thesis using Cons.prems(5) bad by (auto simp: step)
        next
          case e: (Some e)
          show ?thesis
          proof (cases "length e = 32 \<and> al_hmac L key (prev @ canonical_object m) = e")
            case True
            have "\<exists>r'. verify_lines L path key lines (n + 1 + k) True e
                (res'\<lparr>cr_EntriesScanned := n + k + 1\<rparr>) = Inr r' \<and> same_verdict k r r'"
              using Cons.prems e True
              by (intro Cons.IH [of "res\<lparr>cr_EntriesScanned := n + 1\<rparr>"]) (simp_all add: step)
            then show ?thesis using True e by (simp add: step shift)
          next
            case False
            then show ?thesis using Cons.prems(5) bad e by (auto simp: step split: if_splits)
          qed
        qed
      qed
    qed
  qed
qed

text \<open>
  Unsigned rows prove nothing. Any rows without a hash can be put in front of a file, and the
  verdict, its reason and the final hash stay what they were: the rows only show in the count of
  pre-chain entries. (For an empty file this is the log from which every hash was removed.)
\<close>

theorem unsigned_rows_accepted:
  assumes "list_all (unsigned_row L) us" and "map_of dir path = Some f" and "map_of dir' path = Some f'"
    and "af_lines f' = us @ af_lines f" and "af_tail f' = af_tail f"
    and "verify_file L dir path key seed = Inr r"
  shows "\<exists>r'. verify_file L dir' path key seed = Inr r' \<and> same_verdict (int (length us)) r r'"
proof -
  define s where "s = (if length seed = 0 then genesis_seed L else seed)"
  have key: "key \<noteq> []" using assms(6) by (auto simp: verify_file_def)
  have r: "verify_lines L path key (scanned_lines f) 0 False s initial_result = Inr r"
    using assms(2,6) by (simp add: verify_file_def s_def Let_def key)
  have "scanned_lines f' = us @ scanned_lines f" using assms(4,5) by (simp add: scanned_lines_def)
  then have "verify_file L dir' path key seed = verify_lines L path key (scanned_lines f) (0 + int (length us)) False s
      (initial_result\<lparr>cr_PreChainEntries := cr_PreChainEntries initial_result + int (length us)\<rparr>)"
    using assms(3) key verify_unsigned_prefix [OF assms(1)] by (simp add: verify_file_def s_def Let_def)
  moreover have "\<exists>r'. verify_lines L path key (scanned_lines f) (0 + int (length us)) False s
      (initial_result\<lparr>cr_PreChainEntries := cr_PreChainEntries initial_result + int (length us)\<rparr>) = Inr r' \<and>
      same_verdict (int (length us)) r r'"
    using r by (intro verify_lines_shift) (simp_all add: initial_result_def)
  ultimately show ?thesis by simp
qed

theorem unsigned_rows_accepted_witness:
  "\<exists>r'. verify_file small_lib [(''f'', \<lparr>af_lines = [''forged''], af_tail = []\<rparr>)] ''f'' ''k'' [] = Inr r' \<and>
     same_verdict 1 (initial_result\<lparr>cr_FinalHMAC := Some (genesis_seed small_lib)\<rparr>) r'"
proof -
  have "list_all (unsigned_row small_lib) [''forged'']" by code_simp
  moreover have "verify_file small_lib [(''f'', empty_file)] ''f'' ''k'' [] =
      Inr (initial_result\<lparr>cr_FinalHMAC := Some (genesis_seed small_lib)\<rparr>)" by code_simp
  ultimately show ?thesis
    using unsigned_rows_accepted [of small_lib "[''forged'']" "[(''f'', empty_file)]" "''f''" empty_file
        "[(''f'', \<lparr>af_lines = [''forged''], af_tail = []\<rparr>)]" "\<lparr>af_lines = [''forged''], af_tail = []\<rparr>" "''k''" "[]"]
    by (simp add: empty_file_def)
qed

definition small_rows :: "string list" where
  "small_rows = scanned_lines (file_at (snd (small_log 0 [(''d1'', 1, ''a''), (''d1'', 2, ''b'')])) current_name)"

definition result_of :: "verify_error + chain_result \<Rightarrow> chain_result" where
  "result_of r = (case r of Inr res \<Rightarrow> res | Inl _ \<Rightarrow> initial_result)"

theorem tampering_is_detected_witness:
  "prefix (links small_lib (take 1 small_rows)) (links small_lib small_rows) \<and>
   fst (hd (links small_lib small_rows)) \<noteq> fst (last (links small_lib small_rows))"
proof -
  let ?f = "\<lparr>af_lines = small_rows, af_tail = []\<rparr>" and ?f' = "\<lparr>af_lines = take 1 small_rows, af_tail = []\<rparr>"
  let ?d = "[(''f'', ?f)]" and ?d' = "[(''f'', ?f')]"
  let ?seed = "genesis_seed small_lib" and ?v = "\<lambda>d. result_of (verify_file small_lib d ''f'' ''k'' (genesis_seed small_lib))"
  have v: "verify_file small_lib ?d ''f'' ''k'' ?seed = Inr (?v ?d)" "cr_Valid (?v ?d)"
    "verify_file small_lib ?d' ''f'' ''k'' ?seed = Inr (?v ?d')" "cr_Valid (?v ?d')" by code_simp+
  have s: "int (length ?seed) = 32" "?seed \<notin> snd ` set (links small_lib (scanned_lines ?f))"
    "snd ` set (links small_lib (scanned_lines ?f')) \<subseteq> snd ` set (links small_lib (scanned_lines ?f))" by code_simp+
  have "inj_on (al_hmac small_lib ''k'') (messages ?seed (links small_lib (scanned_lines ?f)) \<union>
      messages ?seed (links small_lib (scanned_lines ?f')))" by code_simp
  from tampering_is_detected [OF v(1,2) _ v(3,4) _ _ s(2,3) this] s(1)
  have "prefix (links small_lib (scanned_lines ?f')) (links small_lib (scanned_lines ?f))" by simp
  moreover have "fst (hd (links small_lib small_rows)) \<noteq> fst (last (links small_lib small_rows))" by code_simp
  ultimately show ?thesis by (simp add: scanned_lines_def)
qed

text \<open>
  C36. Healthy logs that are reported broken: in each case rows were only ever appended by the logger.
  (1) After one rotation \<open>Logger.Verify\<close> fails, though \<open>VerifyDir\<close> accepts the log. (2) Two rotations
  on one date: the file with the time stamp sorts before the one without. (3) After a row whose
  \<open>fsync\<close> failed, the next row repeats its link. (4) Once the retention removed the oldest file, the
  rest does not start at the genesis seed. (5) A process that stops between the rotation and the next
  row is restarted on an empty file and begins a new chain.
\<close>

theorem healthy_logs_reported_broken:
  "(case small_log 0 [(''d1'', 1, ''a''), (''d2'', 2, ''b'')] of (lg, dir) \<Rightarrow>
      valid_result (verify_dir small_lib dir ''k'') \<and> \<not> valid_result (verify_current small_lib lg dir) \<and>
      \<not> valid_result (verify_dir small_lib (cleanup_expired (\<lambda>n. n = ''audit-d1.jsonl'') dir) ''k'')) \<and>
   \<not> valid_result (verify_dir small_lib (snd (small_log 1 [(''d1'', 1, ''a''), (''d1'', 2, ''b''), (''d1'', 3, ''c'')])) ''k'') \<and>
   (case small_log 0 [(''d1'', 1, ''a'')] of (lg, dir) \<Rightarrow>
      (case write_line small_lib (\<lambda>op. op = IoSync) ''d1'' 2 ''b'' True lg dir of (e, lg', dir') \<Rightarrow>
         e = Some SyncFailed \<and> \<not> lg_degraded lg' \<and> valid_result (verify_dir small_lib dir' ''k'') \<and>
         \<not> valid_result (verify_dir small_lib (snd (write_rows small_lib [(''d1'', 3, ''c'')] lg' dir')) ''k''))) \<and>
   (case small_log 0 [(''d1'', 1, ''a'')] of (lg, dir) \<Rightarrow>
      (case rotate_log small_lib no_failure ''d2'' 2 lg dir of (_, _, dir1) \<Rightarrow>
      (case new_logger small_lib no_failure (\<lambda>_. False) ''d2'' 0 True None ''k'' dir1 of
         (Inr lg2, dir2) \<Rightarrow> \<not> valid_result (verify_dir small_lib (snd (write_rows small_lib [(''d2'', 3, ''b'')] lg2 dir2)) ''k'')
       | (Inl _, _) \<Rightarrow> False)))"
proof (intro conjI)
  show "case small_log 0 [(''d1'', 1, ''a''), (''d2'', 2, ''b'')] of (lg, dir) \<Rightarrow>
      valid_result (verify_dir small_lib dir ''k'') \<and> \<not> valid_result (verify_current small_lib lg dir) \<and>
      \<not> valid_result (verify_dir small_lib (cleanup_expired (\<lambda>n. n = ''audit-d1.jsonl'') dir) ''k'')" by code_simp
  show "\<not> valid_result (verify_dir small_lib (snd (small_log 1 [(''d1'', 1, ''a''), (''d1'', 2, ''b''), (''d1'', 3, ''c'')])) ''k'')"
    by code_simp
  show "case small_log 0 [(''d1'', 1, ''a'')] of (lg, dir) \<Rightarrow>
      (case write_line small_lib (\<lambda>op. op = IoSync) ''d1'' 2 ''b'' True lg dir of (e, lg', dir') \<Rightarrow>
         e = Some SyncFailed \<and> \<not> lg_degraded lg' \<and> valid_result (verify_dir small_lib dir' ''k'') \<and>
         \<not> valid_result (verify_dir small_lib (snd (write_rows small_lib [(''d1'', 3, ''c'')] lg' dir')) ''k''))" by code_simp
  show "case small_log 0 [(''d1'', 1, ''a'')] of (lg, dir) \<Rightarrow>
      (case rotate_log small_lib no_failure ''d2'' 2 lg dir of (_, _, dir1) \<Rightarrow>
      (case new_logger small_lib no_failure (\<lambda>_. False) ''d2'' 0 True None ''k'' dir1 of
         (Inr lg2, dir2) \<Rightarrow> \<not> valid_result (verify_dir small_lib (snd (write_rows small_lib [(''d2'', 3, ''b'')] lg2 dir2)) ''k'')
       | (Inl _, _) \<Rightarrow> False))" by code_simp
qed

end
