(* ===== verification/Audit_Runs.thy ===== *)
theory Audit_Runs
  imports Audit_Chain
begin

text \<open>
  Runs of the audit logger of \<open>Audit_Chain\<close>: what is promised of the library, the rows the logger
  links, the invariant of the directory and the logger under rows, rotations and restarts, and the
  verdict of \<open>VerifyDir\<close> on every reachable directory.
\<close>

section \<open>A log written without failures verifies\<close>

text \<open>What the library promises of hashes, and of the rows that are written.\<close>

definition hash_lengths :: "audit_lib \<Rightarrow> bool" where
  "hash_lengths L \<longleftrightarrow> (\<forall>k m. length (al_hmac L k m) = 32) \<and> (\<forall>m. length (al_sha256 L m) = 32)"

definition same_object :: "json_object \<Rightarrow> json_object \<Rightarrow> bool" where
  "same_object a b \<longleftrightarrow> distinct (map fst a) \<and> distinct (map fst b) \<and> map_of a = map_of b"

definition loggable :: "audit_lib \<Rightarrow> string \<Rightarrow> bool" where
  "loggable L d \<longleftrightarrow>
     (\<exists>m. al_decode L d = Some m \<and> distinct (map fst m) \<and> ''hmac'' \<notin> fst ` set m \<and>
       (\<forall>h. length h = 32 \<longrightarrow>
         (let row = AList.update ''hmac'' (JStr (hex_encode h)) m; out = al_marshal L row in
          int (length out) < max_line \<and> trim_space (drop_cr out) \<noteq> [] \<and> trim_space out \<noteq> [] \<and>
          (\<exists>m'. al_decode L (drop_cr out) = Some m' \<and> same_object m' row) \<and>
          (\<exists>m'. al_unmarshal L (trim_space out) = Some m' \<and> same_object m' row))))"

text \<open>A row that carries a hash of the right length.\<close>

definition signed_row :: "audit_lib \<Rightarrow> string \<Rightarrow> bool" where
  "signed_row L line \<longleftrightarrow>
     int (length line) < max_line \<and> trim_space (drop_cr line) \<noteq> [] \<and> trim_space line \<noteq> [] \<and>
     (\<exists>m h e m'. al_decode L (drop_cr line) = Some m \<and> hmac_field m = Some h \<and> hex_decode h = Some e \<and>
        length e = 32 \<and> al_unmarshal L (trim_space line) = Some m' \<and> hmac_field m' = Some h)"

lemma same_object_canonical:
  assumes "same_object m' (AList.update ''hmac'' v m)" and "distinct (map fst m)" and "''hmac'' \<notin> fst ` set m"
  shows "canonical_object m' = canonical_object m"
proof -
  have "map_of (AList.delete ''hmac'' m') = map_of (AList.delete ''hmac'' m)"
    using assms(1) by (auto simp: same_object_def delete_conv update_conv fun_eq_iff)
  moreover have "distinct (map fst (AList.delete ''hmac'' m'))" "distinct (map fst (AList.delete ''hmac'' m))"
    using assms(1,2) by (simp_all add: same_object_def distinct_delete)
  ultimately have "sort_key fst (AList.delete ''hmac'' m') = sort_key fst (AList.delete ''hmac'' m)"
    by (intro sort_key_same_map) simp_all
  then show ?thesis by (simp add: canonical_object_def)
qed

lemma same_object_hmac: "same_object m' (AList.update ''hmac'' (JStr h) m) \<Longrightarrow> hmac_field m' = Some h"
  by (simp add: same_object_def hmac_field_def update_conv)

text \<open>The row \<open>embed_hmac\<close> makes: it links its data to the previous hash.\<close>

lemma embed_loggable:
  assumes "loggable L d" and "hash_lengths L"
  shows "\<exists>out mac c. embed_hmac L d prev key = Some (out, mac) \<and> signed_row L out \<and> link_of L out = Some (c, mac) \<and>
    canonical_json_without_hmac L d = Some c \<and> mac = al_hmac L key (prev @ c) \<and>
    read_chain_seed_from_file L \<lparr>af_lines = ls @ [out], af_tail = []\<rparr> = Some mac"
proof -
  obtain m where m: "al_decode L d = Some m" "distinct (map fst m)" "''hmac'' \<notin> fst ` set m"
    and all: "\<And>h. length h = 32 \<Longrightarrow>
         (let row = AList.update ''hmac'' (JStr (hex_encode h)) m; out = al_marshal L row in
          int (length out) < max_line \<and> trim_space (drop_cr out) \<noteq> [] \<and> trim_space out \<noteq> [] \<and>
          (\<exists>m'. al_decode L (drop_cr out) = Some m' \<and> same_object m' row) \<and>
          (\<exists>m'. al_unmarshal L (trim_space out) = Some m' \<and> same_object m' row))"
    using assms(1) unfolding loggable_def by blast
  define mac where "mac = al_hmac L key (prev @ canonical_object m)"
  define row where "row = AList.update ''hmac'' (JStr (hex_encode mac)) m"
  define out where "out = al_marshal L row"
  have len: "length mac = 32" using assms(2) by (simp add: hash_lengths_def mac_def)
  from all [OF len] obtain m1 m2 where out: "int (length out) < max_line" "trim_space (drop_cr out) \<noteq> []" "trim_space out \<noteq> []"
    "al_decode L (drop_cr out) = Some m1" "same_object m1 row" "al_unmarshal L (trim_space out) = Some m2" "same_object m2 row"
    unfolding Let_def row_def out_def by blast
  have h: "hmac_field m1 = Some (hex_encode mac)" "hmac_field m2 = Some (hex_encode mac)"
    using out(5,7) by (simp_all add: row_def same_object_hmac)
  have c: "canonical_object m1 = canonical_object m"
    using out(5) m(2,3) unfolding row_def by (rule same_object_canonical)
  have "embed_hmac L d prev key = Some (out, mac)"
    using m by (simp add: embed_hmac_def canonical_json_without_hmac_def compute_entry_hmac_def mac_def row_def out_def Let_def)
  moreover have "signed_row L out"
    using out h len hex_decode_encode [of mac] unfolding signed_row_def by blast
  moreover have "link_of L out = Some (canonical_object m, mac)"
    using out(2,4) h(1) c by (simp add: link_of_def hex_decode_encode)
  moreover have "read_chain_seed_from_file L \<lparr>af_lines = ls @ [out], af_tail = []\<rparr> = Some mac"
    using out(3,6) h(2) len by (simp add: read_chain_seed_from_file_def scanned_lines_def hex_decode_encode)
  ultimately show ?thesis using m mac_def by (auto simp: canonical_json_without_hmac_def)
qed

lemma verify_signed:
  assumes "list_all (signed_row L) lines" and "chained L key prev (links L lines)" and "cr_EntriesScanned res = n"
  shows "verify_lines L path key lines n saw prev res =
    Inr (res\<lparr>cr_EntriesScanned := n + int (length lines), cr_FinalHMAC := Some (final_hash prev (links L lines))\<rparr>)"
  using assms
proof (induction lines arbitrary: n saw prev res)
  case (Cons line lines)
  note [simp del] = verify_lines.simps(2)
  obtain m h e where len: "int (length line) < max_line" and row: "trim_space (drop_cr line) \<noteq> []"
    "al_decode L (drop_cr line) = Some m" "hmac_field m = Some h" "hex_decode h = Some e" "length e = 32"
    using Cons.prems(1) by (auto simp: signed_row_def)
  have link: "link_of L line = Some (canonical_object m, e)" using row by (simp add: link_of_def)
  then have mac: "al_hmac L key (prev @ canonical_object m) = e" and tail: "chained L key e (links L lines)"
    using Cons.prems(2) by (simp_all only: links_Cons option.case chained.simps)
  show ?case
    using Cons.IH [OF _ tail, of "res\<lparr>cr_EntriesScanned := n + 1\<rparr>" "n + 1" True] Cons.prems(1) link
    by (simp add: verify_lines_signed [OF len row(1-3)] row(4,5) mac)
qed simp

text \<open>A file, or a list of files, whose rows are all signed and chained.\<close>

definition clean_file :: "audit_lib \<Rightarrow> audit_file \<Rightarrow> bool" where
  "clean_file L f \<longleftrightarrow> af_tail f = [] \<and> list_all (signed_row L) (af_lines f)"

definition rows_of :: "audit_file list \<Rightarrow> string list" where
  "rows_of fs = concat (map af_lines fs)"

lemma verify_file_clean:
  assumes "clean_file L f" and "map_of dir path = Some f" and "key \<noteq> []" and "seed \<noteq> []"
    and "chained L key seed (links L (af_lines f))"
  shows "verify_file L dir path key seed =
    Inr (initial_result\<lparr>cr_EntriesScanned := int (length (af_lines f)),
      cr_FinalHMAC := Some (final_hash seed (links L (af_lines f)))\<rparr>)"
  using assms verify_signed [of L "af_lines f" key seed initial_result 0]
  by (simp add: verify_file_def clean_file_def scanned_lines_def initial_result_def)

lemma final_hash_not_empty: "chained L key seed xs \<Longrightarrow> seed \<noteq> [] \<Longrightarrow> final_hash seed xs \<noteq> []"
proof (induction xs arbitrary: seed)
  case (Cons x xs)
  obtain c e where x: "x = (c, e)" by (cases x)
  have "chained L key e xs" "e \<noteq> []" using Cons.prems(1) by (auto simp: x)
  with Cons.IH show ?case by (simp add: x)
qed simp

lemma verify_files_clean:
  assumes "list_all (clean_file L) (map snd fs)" and "\<forall>(name, f) \<in> set fs. map_of dir name = Some f"
    and "key \<noteq> []" and "seed \<noteq> []" and "chained L key seed (links L (rows_of (map snd fs)))"
  shows "verify_files L dir key n (map fst fs) seed entries pre_chain =
    Inr (initial_result\<lparr>cr_FilesScanned := n, cr_EntriesScanned := entries + int (length (rows_of (map snd fs))),
      cr_PreChainEntries := pre_chain, cr_FinalHMAC := Some (final_hash seed (links L (rows_of (map snd fs))))\<rparr>)"
  using assms(1,2,4,5)
proof (induction fs arbitrary: seed entries)
  case (Cons nf fs)
  obtain name f where nf: "nf = (name, f)" by (cases nf)
  let ?xs = "links L (af_lines f)"
  have c: "chained L key seed ?xs" "chained L key (final_hash seed ?xs) (links L (rows_of (map snd fs)))"
    using Cons.prems(4) by (simp_all add: nf rows_of_def chained_append)
  have f: "verify_file L dir name key seed =
    Inr (initial_result\<lparr>cr_EntriesScanned := int (length (af_lines f)), cr_FinalHMAC := Some (final_hash seed ?xs)\<rparr>)"
    using Cons.prems c assms(3) by (intro verify_file_clean) (simp_all add: nf)
  show ?case
    using Cons.IH [OF _ _ final_hash_not_empty [OF c(1) Cons.prems(3)] c(2)] Cons.prems
    by (simp add: nf f initial_result_def rows_of_def final_hash_append)
qed (simp add: rows_of_def)

text \<open>
  A run of the logger: the start in an empty directory, rows logged, and restarts of the process, all
  without I/O failures and before the retention removes a file. A rotated file must sort after the earlier ones (one rotation a day does).
\<close>

definition needs_rotation :: "string \<Rightarrow> audit_logger \<Rightarrow> bool" where
  "needs_rotation today lg \<longleftrightarrow> today \<noteq> lg_currentDate lg \<or> lg_currentSize lg \<ge> lg_maxSize lg"

definition in_order :: "string \<Rightarrow> int \<Rightarrow> audit_logger \<Rightarrow> audit_dir \<Rightarrow> bool" where
  "in_order today millis lg dir =
     (if needs_rotation today lg
      then list_all (\<lambda>n. if is_rotated_name n then n < rotated_name (lg_currentDate lg) millis dir else True) (map fst dir)
      else True)"

inductive log_run :: "audit_lib \<Rightarrow> string \<Rightarrow> string list \<Rightarrow> audit_logger \<Rightarrow> audit_dir \<Rightarrow> bool" for L key where
  start: "new_logger L no_failure (\<lambda>_. False) today max_size requested process_key cfg_key [] = (Inr lg, dir) \<Longrightarrow>
     resolve_chain_key L process_key cfg_key = key \<Longrightarrow> log_run L key [] lg dir"
| row: "log_run L key ds lg dir \<Longrightarrow> loggable L d \<Longrightarrow> in_order today millis lg dir \<Longrightarrow>
     write_line L no_failure today millis d sync lg dir = (err, lg', dir') \<Longrightarrow> log_run L key (ds @ [d]) lg' dir'"
| restart: "log_run L key ds lg dir \<Longrightarrow>
     new_logger L no_failure (\<lambda>_. False) today max_size requested process_key cfg_key dir = (Inr lg', dir') \<Longrightarrow>
     resolve_chain_key L process_key cfg_key = key \<Longrightarrow> log_run L key ds lg' dir'"

definition dir_inv :: "audit_lib \<Rightarrow> string \<Rightarrow> string list \<Rightarrow> string \<Rightarrow> audit_dir \<Rightarrow> audit_file \<Rightarrow> bool" where
  "dir_inv L key ds prev rots f \<longleftrightarrow>
     sorted_wrt (<) (map fst rots) \<and> list_all is_rotated_name (map fst rots) \<and>
     list_all (clean_file L) (map snd rots @ [f]) \<and>
     chained L key (genesis_seed L) (links L (rows_of (map snd rots @ [f]))) \<and>
     prev = final_hash (genesis_seed L) (links L (rows_of (map snd rots @ [f]))) \<and>
     length (rows_of (map snd rots @ [f])) = length ds \<and>
     map (\<lambda>l. Some (fst l)) (links L (rows_of (map snd rots @ [f]))) = map (canonical_json_without_hmac L) ds"

definition logger_ok :: "string \<Rightarrow> audit_logger \<Rightarrow> bool" where
  "logger_ok key lg \<longleftrightarrow> lg_open lg \<and> \<not> lg_degraded lg \<and> lg_chainKey lg = key"

lemma current_not_rotated [simp]: "\<not> is_rotated_name current_name"
  by (simp add: is_rotated_name_def current_name_def)

lemma audit_name_rotated: "is_rotated_name (''audit-'' @ x @ ''.jsonl'')"
proof -
  have "suffix ''.jsonl'' (''audit-'' @ x @ ''.jsonl'')" by (intro suffixI [of _ "''audit-'' @ x"]) simp
  then show ?thesis by (simp add: is_rotated_name_def)
qed

lemma rotated_name_rotated: "is_rotated_name (rotated_name date millis dir)"
proof (cases "map_of dir (''audit-'' @ date @ ''.jsonl'') = None")
  case True
  then show ?thesis unfolding rotated_name_def Let_def using audit_name_rotated by simp
next
  case False
  then show ?thesis
    using audit_name_rotated [of "date @ ''-'' @ itoa millis"] unfolding rotated_name_def Let_def by simp
qed

lemma rotated_not_current: "list_all is_rotated_name (map fst rots) \<Longrightarrow> current_name \<notin> fst ` set rots"
  using current_not_rotated by (force simp: list_all_iff)

lemma update_last: "k \<notin> fst ` set xs \<Longrightarrow> AList.update k v (xs @ [(k, w)]) = xs @ [(k, v)]"
  by (induction xs) auto

lemma update_fresh: "k \<notin> fst ` set xs \<Longrightarrow> AList.update k v xs = xs @ [(k, v)]"
  by (induction xs) auto

lemma file_at_last: "k \<notin> fst ` set xs \<Longrightarrow> file_at (xs @ [(k, v)]) k = v"
  by (induction xs) (auto simp: file_at_def)

lemma delete_last: "k \<notin> fst ` set xs \<Longrightarrow> AList.delete k (xs @ [(k, v)]) = xs"
  by (induction xs) (auto simp: AList.delete_eq)

lemma append_entry_inv:
  assumes inv: "dir_inv L key ds (lg_prevHMAC lg) rots f" and ok: "logger_ok key lg"
    and "loggable L d" and "hash_lengths L"
    and step: "append_entry L no_failure d sync lg (rots @ [(current_name, f)]) = (e, lg', dir')"
  shows "\<exists>out. e = None \<and> logger_ok key lg' \<and> dir' = rots @ [(current_name, f\<lparr>af_lines := af_lines f @ [out]\<rparr>)] \<and>
    dir_inv L key (ds @ [d]) (lg_prevHMAC lg') rots (f\<lparr>af_lines := af_lines f @ [out]\<rparr>) \<and>
    read_chain_seed_from_file L (f\<lparr>af_lines := af_lines f @ [out]\<rparr>) = Some (lg_prevHMAC lg')"
proof -
  have cur: "current_name \<notin> fst ` set rots" using inv unfolding dir_inv_def by (intro rotated_not_current) blast
  have tail: "af_tail f = []" using inv by (simp add: dir_inv_def clean_file_def)
  obtain out mac c where out: "embed_hmac L d (lg_prevHMAC lg) key = Some (out, mac)" "signed_row L out"
    "link_of L out = Some (c, mac)" "canonical_json_without_hmac L d = Some c" "mac = al_hmac L key (lg_prevHMAC lg @ c)"
    "read_chain_seed_from_file L \<lparr>af_lines = af_lines f @ [out], af_tail = []\<rparr> = Some mac"
    using embed_loggable [OF assms(3,4)] by blast
  have len: "length mac = 32" using out(5) assms(4) by (simp add: hash_lengths_def)
  let ?f = "f\<lparr>af_lines := af_lines f @ [out]\<rparr>"
  have f: "?f = \<lparr>af_lines = af_lines f @ [out], af_tail = []\<rparr>" using tail by (cases f) simp
  have e: "e = None" "lg' = lg\<lparr>lg_currentSize := lg_currentSize lg + int (length out) + 1, lg_prevHMAC := mac\<rparr>"
    "dir' = rots @ [(current_name, ?f)]"
    using step ok out(1) cur tail
    by (auto simp: append_entry_def no_failure_def logger_ok_def file_at_last update_last append_line_def)
  have rows: "rows_of (map snd rots @ [?f]) = rows_of (map snd rots @ [f]) @ [out]" by (simp add: rows_of_def)
  have "dir_inv L key (ds @ [d]) mac rots ?f"
    using inv out len unfolding dir_inv_def rows
    by (simp add: chained_append final_hash_append clean_file_def)
  then show ?thesis using e ok out(6) by (intro exI [of _ out]) (simp add: f logger_ok_def)
qed

lemma rotate_inv:
  assumes inv: "dir_inv L key ds (lg_prevHMAC lg) rots f" and ok: "logger_ok key lg"
    and order: "list_all (\<lambda>n. if is_rotated_name n then n < rotated_name (lg_currentDate lg) millis (rots @ [(current_name, f)]) else True)
      (map fst (rots @ [(current_name, f)]))"
    and step: "rotate_log L no_failure today millis lg (rots @ [(current_name, f)]) = (e, lg', dir')"
  shows "\<exists>rots'. e = None \<and> logger_ok key lg' \<and> dir' = rots' @ [(current_name, empty_file)] \<and>
    dir_inv L key ds (lg_prevHMAC lg') rots' empty_file"
proof -
  let ?dst = "rotated_name (lg_currentDate lg) millis (rots @ [(current_name, f)])"
  let ?rots = "rots @ [(?dst, f)]"
  have cur: "current_name \<notin> fst ` set rots" using inv unfolding dir_inv_def by (intro rotated_not_current) blast
  have less: "\<forall>n \<in> fst ` set rots. n < ?dst"
    using order inv by (auto simp: list_all_iff dir_inv_def)
  then have fresh: "?dst \<notin> fst ` set rots" by blast
  have "current_name \<noteq> ?dst" using rotated_name_rotated current_not_rotated by metis
  then have cur': "current_name \<notin> fst ` set ?rots" using cur by auto
  have moved: "AList.update ?dst f (AList.delete current_name (rots @ [(current_name, f)])) = ?rots"
    unfolding delete_last [OF cur] by (rule update_fresh [OF fresh])
  have "map_of ?rots current_name = None" using cur' by (simp only: map_of_eq_None_iff not_False_eq_True)
  then have new: "file_at ?rots current_name = empty_file" by (simp only: file_at_def option.case)
  have upd: "AList.update current_name empty_file ?rots = ?rots @ [(current_name, empty_file)]"
    by (rule update_fresh [OF cur'])
  have size: "file_size empty_file = 0" by (simp add: file_size_def empty_file_def)
  have found: "map_of (rots @ [(current_name, f)]) current_name = Some f"
    using cur by (induction rots) auto
  have e: "e = None" "dir' = ?rots @ [(current_name, empty_file)]" "logger_ok key lg'"
    "lg_prevHMAC lg' = lg_prevHMAC lg"
    using step ok unfolding rotate_log_def Let_def no_failure_def if_False found option.case moved
    by (auto simp: open_current_file_def Let_def new upd size logger_ok_def)
  have rows: "rows_of (map snd ?rots @ [empty_file]) = rows_of (map snd rots @ [f])"
    by (simp add: rows_of_def empty_file_def)
  have "sorted_wrt (<) (map fst ?rots)" "list_all is_rotated_name (map fst ?rots)"
    using inv less rotated_name_rotated by (simp_all add: dir_inv_def sorted_wrt_append)
  moreover have "list_all (clean_file L) (map snd ?rots @ [empty_file])"
    using inv by (simp add: dir_inv_def) (simp add: clean_file_def empty_file_def)
  ultimately have "dir_inv L key ds (lg_prevHMAC lg') ?rots empty_file"
    using inv unfolding dir_inv_def rows e(4) by blast
  with e show ?thesis by blast
qed

definition log_inv :: "audit_lib \<Rightarrow> string \<Rightarrow> string list \<Rightarrow> audit_logger \<Rightarrow> audit_dir \<Rightarrow> bool" where
  "log_inv L key ds lg dir \<longleftrightarrow> logger_ok key lg \<and>
     (\<exists>rots f. dir = rots @ [(current_name, f)] \<and> dir_inv L key ds (lg_prevHMAC lg) rots f \<and>
       (if af_lines f = [] then rots = [] \<and> lg_prevHMAC lg = genesis_seed L
        else read_chain_seed_from_file L f = Some (lg_prevHMAC lg)))"

lemma write_inv:
  assumes "log_inv L key ds lg dir" and "loggable L d" and "hash_lengths L" and "in_order today millis lg dir"
    and step: "write_line L no_failure today millis d sync lg dir = (e, lg', dir')"
  shows "e = None \<and> log_inv L key (ds @ [d]) lg' dir'"
proof -
  obtain rots f where dir: "dir = rots @ [(current_name, f)]" and inv: "dir_inv L key ds (lg_prevHMAC lg) rots f"
    and ok: "logger_ok key lg" using assms(1) by (auto simp: log_inv_def)
  have "\<exists>lg1 rots1 f1. logger_ok key lg1 \<and> dir_inv L key ds (lg_prevHMAC lg1) rots1 f1 \<and>
    append_entry L no_failure d sync lg1 (rots1 @ [(current_name, f1)]) = (e, lg', dir')"
  proof (cases "needs_rotation today lg")
    case True
    obtain e1 lg1 dir1 where r: "rotate_log L no_failure today millis lg dir = (e1, lg1, dir1)"
      by (cases "rotate_log L no_failure today millis lg dir")
    from rotate_inv [OF inv ok _ r [unfolded dir]] assms(4) True obtain rots1 where r1: "e1 = None" "logger_ok key lg1"
      "dir1 = rots1 @ [(current_name, empty_file)]" "dir_inv L key ds (lg_prevHMAC lg1) rots1 empty_file"
      by (auto simp: in_order_def dir)
    have "append_entry L no_failure d sync lg1 dir1 = (e, lg', dir')"
      using step True ok by (simp add: write_line_def needs_rotation_def logger_ok_def r r1(1))
    with r1 show ?thesis by blast
  next
    case False
    then have "append_entry L no_failure d sync lg dir = (e, lg', dir')"
      using step ok by (auto simp: write_line_def needs_rotation_def logger_ok_def split: if_splits)
    with ok inv dir show ?thesis by blast
  qed
  then obtain lg1 rots1 f1 where l: "logger_ok key lg1" "dir_inv L key ds (lg_prevHMAC lg1) rots1 f1"
    "append_entry L no_failure d sync lg1 (rots1 @ [(current_name, f1)]) = (e, lg', dir')" by blast
  from append_entry_inv [OF l(2,1) assms(2,3) l(3)] show ?thesis unfolding log_inv_def by fastforce
qed

lemma new_logger_inv:
  assumes "log_inv L key ds lg dir"
    and "new_logger L no_failure (\<lambda>_. False) today max_size requested process_key cfg_key dir = (Inr lg', dir')"
    and "resolve_chain_key L process_key cfg_key = key"
  shows "log_inv L key ds lg' dir'"
proof -
  obtain rots f where dir: "dir = rots @ [(current_name, f)]" and inv: "dir_inv L key ds (lg_prevHMAC lg) rots f"
    and seed: "if af_lines f = [] then rots = [] \<and> lg_prevHMAC lg = genesis_seed L
        else read_chain_seed_from_file L f = Some (lg_prevHMAC lg)" using assms(1) by (auto simp: log_inv_def)
  have cur: "current_name \<notin> fst ` set rots" using inv unfolding dir_inv_def by (intro rotated_not_current) blast
  have tail: "af_tail f = []" using inv by (simp add: dir_inv_def clean_file_def)
  have found: "map_of dir current_name = Some f" unfolding dir using cur by (induction rots) auto
  have rec: "recover_corruption L no_failure dir = dir"
    using tail by (simp add: recover_corruption_def read_last_line_def found trim_crlf_def)
  have upd: "AList.update current_name f dir = dir" unfolding dir by (rule update_last [OF cur])
  have size: "file_size f > 0 \<longleftrightarrow> af_lines f \<noteq> []"
    using tail by (cases "af_lines f") (auto simp: file_size_def)
  have "logger_ok key lg' \<and> dir' = dir \<and> lg_prevHMAC lg' = lg_prevHMAC lg"
    using assms(2,3) seed unfolding new_logger_def Let_def rec
    by (auto simp: open_current_file_def Let_def no_failure_def file_at_def found upd size logger_ok_def split: if_splits)
  with dir inv seed show ?thesis unfolding log_inv_def by auto
qed

lemma log_run_inv:
  assumes "log_run L key ds lg dir" and "hash_lengths L"
  shows "log_inv L key ds lg dir"
  using assms(1)
proof induction
  case (start today max_size requested process_key cfg_key lg dir)
  have "logger_ok key lg \<and> dir = [(current_name, empty_file)] \<and> lg_prevHMAC lg = genesis_seed L"
    using start unfolding new_logger_def Let_def recover_corruption_def
    by (auto simp: open_current_file_def Let_def no_failure_def file_at_def empty_file_def file_size_def logger_ok_def)
  then show ?case
    by (auto simp: log_inv_def dir_inv_def rows_of_def clean_file_def empty_file_def intro: exI [of _ "[]"])
next
  case (row ds lg dir d today millis sync err lg' dir')
  then show ?case using write_inv assms(2) by blast
next
  case (restart ds lg dir today max_size requested process_key cfg_key lg' dir')
  then show ?case using new_logger_inv by blast
qed

lemma sort_rotated:
  assumes "sorted_wrt (<) (map fst rots)" and "list_all is_rotated_name (map fst rots)"
  shows "sort (filter is_rotated_name (map fst (rots @ [(current_name, f)]))) = map fst rots"
proof -
  have "filter is_rotated_name (map fst (rots @ [(current_name, f)])) = map fst rots"
    using assms(2) by (simp add: list_all_iff filter_id_conv)
  then show ?thesis using assms(1) by (simp add: strict_sorted_imp_sorted sorted_sort_id)
qed

text \<open>
  C10. Completeness of the audit chain. Whatever rows a logger has written, over any number of rotated
  files and restarts, with no failing file operation and no file removed, as long as a rotated file sorts after the
  earlier ones: \<open>VerifyDir\<close> finds the directory valid, it counts exactly the rows logged, none of them
  unsigned, and the hash it ends with is the one the logger continues from.
\<close>

theorem log_verifies:
  assumes "log_run L key ds lg dir" and "hash_lengths L" and "key \<noteq> []"
  shows "lg_degraded lg = False \<and>
    (\<exists>res. verify_dir L dir key = Inr res \<and> cr_Valid res \<and> cr_EntriesScanned res = int (length ds) \<and>
      cr_PreChainEntries res = 0 \<and> cr_FinalHMAC res = Some (lg_prevHMAC lg))"
proof -
  obtain rots f where ok: "logger_ok key lg" and dir: "dir = rots @ [(current_name, f)]"
    and inv: "dir_inv L key ds (lg_prevHMAC lg) rots f"
    using log_run_inv [OF assms(1,2)] unfolding log_inv_def by blast
  have sorted: "sorted_wrt (<) (map fst rots)" "list_all is_rotated_name (map fst rots)"
    using inv by (simp_all add: dir_inv_def)
  have cur: "current_name \<notin> fst ` set rots" using rotated_not_current [OF sorted(2)] .
  have "distinct (map fst dir)" using sorted(1) cur by (simp add: dir strict_sorted_iff)
  then have maps: "\<forall>(name, f) \<in> set dir. map_of dir name = Some f" by (auto simp: map_of_is_SomeI)
  have seed: "genesis_seed L \<noteq> []" using assms(2) 
    by (metis genesis_seed_def hash_lengths_def list.size(3) zero_neq_numeral)
  have found: "map_of dir current_name \<noteq> None" unfolding dir using cur by (induction rots) auto
  have snds: "map snd dir = map snd rots @ [f]" by (simp add: dir)
  have clean: "list_all (clean_file L) (map snd dir)" "chained L key (genesis_seed L) (links L (rows_of (map snd dir)))"
    "length (rows_of (map snd dir)) = length ds"
    "lg_prevHMAC lg = final_hash (genesis_seed L) (links L (rows_of (map snd dir)))"
    using inv unfolding dir_inv_def snds by blast+
  have "verify_dir L dir key = verify_files L dir key (int (length dir)) (map fst dir) (genesis_seed L) 0 0"
    using assms(3) found sort_rotated [OF sorted, of f] unfolding verify_dir_def Let_def dir by simp
  then show ?thesis
    using verify_files_clean [OF clean(1) maps assms(3) seed clean(2), of "int (length dir)" 0 0] clean(3,4) ok
    by (simp add: initial_result_def logger_ok_def)
qed

text \<open>The small library satisfies the promises.\<close>

lemma small_lengths: "hash_lengths small_lib"
  by (auto simp: hash_lengths_def small_lib_def)

lemma hex_digit_not_space: "0 \<le> n \<Longrightarrow> n < 16 \<Longrightarrow> \<not> is_space (hex_digit n)"
proof -
  assume "0 \<le> n" "n < 16"
  then have "n \<in> set [0..15]" by simp
  moreover have "\<forall>n \<in> set [0..15]. \<not> is_space (hex_digit n)" by code_simp
  ultimately show ?thesis by blast
qed

lemma length_hex_encode: "length (hex_encode s) = 2 * length s"
  by (induction s) (simp_all add: hex_encode_def)

lemma small_loggable:
  assumes "d \<noteq> []" and "length d < 64" and "\<not> is_space (last d)"
  shows "loggable small_lib d"
proof -
  have "let row = AList.update ''hmac'' (JStr (hex_encode h)) [(''event'', JStr d)]; out = al_marshal small_lib row in
      int (length out) < max_line \<and> trim_space (drop_cr out) \<noteq> [] \<and> trim_space out \<noteq> [] \<and>
      (\<exists>m'. al_decode small_lib (drop_cr out) = Some m' \<and> same_object m' row) \<and>
      (\<exists>m'. al_unmarshal small_lib (trim_space out) = Some m' \<and> same_object m' row)"
    if h: "length h = 32" for h
  proof -
    let ?out = "hex_encode h @ d"
    obtain c h' where c: "h = c # h'" using h by (cases h) auto
    have b: "0 \<le> (of_char c :: int) div 16" "(of_char c :: int) div 16 < 16"
      using of_char_bounds [of c] by (simp_all add: pos_imp_zdiv_nonneg_iff)
    have first: "\<not> is_space (hd ?out)"
      using hex_digit_not_space [OF b] by (simp add: c hex_encode_def)
    have "drop_cr ?out = ?out" using assms(1,3) by (auto simp: drop_cr_def is_space_def)
    moreover have "trim_space ?out = ?out"
      using first assms(1,3) by (simp add: trim_space_def trim_left_id trim_right_id)
    moreover have "row_object ?out = Some [(''hmac'', JStr (hex_encode h)), (''event'', JStr d)]"
      using h by (simp add: row_object_def length_hex_encode)
    moreover have "same_object [(''hmac'', JStr (hex_encode h)), (''event'', JStr d)]
        (AList.update ''hmac'' (JStr (hex_encode h)) [(''event'', JStr d)])"
      by (auto simp: same_object_def fun_eq_iff)
    ultimately show ?thesis
      using assms(1,2) h by (simp add: small_lib_def text_of_def max_line_def length_hex_encode Let_def)
  qed
  moreover have "al_decode small_lib d = Some [(''event'', JStr d)]"
    using assms(2) by (simp add: small_lib_def row_object_def)
  ultimately show ?thesis unfolding loggable_def by (intro exI [of _ "[(''event'', JStr d)]"]) simp
qed

theorem log_verifies_witness:
  "\<exists>lg dir res. log_run small_lib ''k'' [''a'', ''b''] lg dir \<and> map fst dir = [''audit-d1.jsonl'', ''audit.jsonl''] \<and>
     verify_dir small_lib dir ''k'' = Inr res \<and> cr_Valid res \<and> cr_EntriesScanned res = 2"
proof -
  let ?s0 = "small_log 0 []"
  let ?s1 = "small_log 0 [(''d1'', 1, ''a'')]" and ?s2 = "small_log 0 [(''d1'', 1, ''a''), (''d2'', 2, ''b'')]"
  have "new_logger small_lib no_failure (\<lambda>_. False) ''d1'' 0 True None ''k'' [] = (Inr (fst ?s0), snd ?s0)"
    "resolve_chain_key small_lib None ''k'' = ''k''" by code_simp+
  then have r0: "log_run small_lib ''k'' [] (fst ?s0) (snd ?s0)" by (rule log_run.start)
  have l: "loggable small_lib ''a''" "loggable small_lib ''b''"
    by (simp_all add: small_loggable is_space_def)
  have "in_order ''d1'' 1 (fst ?s0) (snd ?s0)"
    "write_line small_lib no_failure ''d1'' 1 ''a'' False (fst ?s0) (snd ?s0) = (None, fst ?s1, snd ?s1)"
    by code_simp+
  from log_run.row [OF r0 l(1) this] have r1: "log_run small_lib ''k'' [''a''] (fst ?s1) (snd ?s1)" by simp
  have "in_order ''d2'' 2 (fst ?s1) (snd ?s1)"
    "write_line small_lib no_failure ''d2'' 2 ''b'' False (fst ?s1) (snd ?s1) = (None, fst ?s2, snd ?s2)"
    by code_simp+
  from log_run.row [OF r1 l(2) this] have r2: "log_run small_lib ''k'' [''a'', ''b''] (fst ?s2) (snd ?s2)" by simp
  moreover have "map fst (snd ?s2) = [''audit-d1.jsonl'', ''audit.jsonl'']" by code_simp
  ultimately show ?thesis using log_verifies [OF r2 small_lengths] by fastforce
qed

end
