(* ===== verification/Session_Keys.thy ===== *)
theory Session_Keys
  imports Go_Prelude
begin

text \<open>
  Agent and account ids and session keys (pkg/routing: agent_id.go, session_key.go). Strings are
  bytes with the ASCII rules of the prelude; the regular expressions of agent_id.go are written out.
  The lemmas show the shape of a sanitised id, that a session key gives its agent back, when two
  conversations share a key, and what the iteration order of the identity links decides.
\<close>

section \<open>Ids\<close>

definition default_agent_id :: string where "default_agent_id = ''main''"
definition default_main_key :: string where "default_main_key = ''main''"
definition default_account_id :: string where "default_account_id = ''default''"
definition max_agent_id_length :: nat where "max_agent_id_length = 64"

definition id_first :: "char \<Rightarrow> bool" where
  "id_first c \<longleftrightarrow> c \<in> set ''0123456789abcdefghijklmnopqrstuvwxyz''"

definition id_char :: "char \<Rightarrow> bool" where
  "id_char c \<longleftrightarrow> id_first c \<or> c = CHR ''_'' \<or> c = CHR ''-''"

text \<open>\<open>validIDRe\<close>, \<open>invalidCharsRe.ReplaceAllString\<close>, \<open>leadingDashRe\<close> and \<open>trailingDashRe\<close>.\<close>

definition valid_id :: "string \<Rightarrow> bool" where
  "valid_id s = (case s of [] \<Rightarrow> False | c # cs \<Rightarrow> id_first c \<and> list_all id_char cs \<and> length cs \<le> 63)"

fun replace_invalid :: "bool \<Rightarrow> string \<Rightarrow> string" where
  "replace_invalid inside [] = []"
| "replace_invalid inside (c # cs) =
     (if id_char c then c # replace_invalid False cs
      else if inside then replace_invalid True cs
      else CHR ''-'' # replace_invalid True cs)"

definition drop_leading_dashes :: "string \<Rightarrow> string" where
  "drop_leading_dashes s = dropWhile (\<lambda>c. c = CHR ''-'') s"

definition drop_trailing_dashes :: "string \<Rightarrow> string" where
  "drop_trailing_dashes s = rev (dropWhile (\<lambda>c. c = CHR ''-'') (rev s))"

definition sanitize_id :: "string \<Rightarrow> string \<Rightarrow> string" where
  "sanitize_id default_id s =
     (let trimmed = trim_space s in
      if trimmed = [] then default_id
      else let lower = to_lower trimmed in
      if valid_id lower then lower
      else let result = take max_agent_id_length
          (drop_trailing_dashes (drop_leading_dashes (replace_invalid False lower))) in
      if result = [] then default_id else result)"

definition normalize_agent_id :: "string \<Rightarrow> string" where
  "normalize_agent_id s = sanitize_id default_agent_id s"

definition normalize_account_id :: "string \<Rightarrow> string" where
  "normalize_account_id s = sanitize_id default_account_id s"

section \<open>Session keys\<close>

definition dm_scope_main :: string where "dm_scope_main = ''main''"
definition dm_scope_per_peer :: string where "dm_scope_per_peer = ''per-peer''"
definition dm_scope_per_channel_peer :: string where "dm_scope_per_channel_peer = ''per-channel-peer''"
definition dm_scope_per_account_channel_peer :: string where
  "dm_scope_per_account_channel_peer = ''per-account-channel-peer''"

text \<open>\<open>DMScope.UnmarshalJSON\<close>; the argument decodes a JSON string.\<close>

definition unmarshal_dm_scope :: "(string \<Rightarrow> string option) \<Rightarrow> string \<Rightarrow> string option" where
  "unmarshal_dm_scope decode data =
     (case decode data of
        None \<Rightarrow> None
      | Some raw \<Rightarrow>
          if raw \<in> {dm_scope_main, dm_scope_per_peer, dm_scope_per_channel_peer, dm_scope_per_account_channel_peer}
          then Some raw
          else if raw = [] then Some []
          else None)"

record route_peer =
  rp_Kind :: string
  rp_ID :: string

record session_key_params =
  kp_AgentID :: string
  kp_Channel :: string
  kp_AccountID :: string
  kp_Peer :: "route_peer option"
  kp_DMScope :: string
  kp_IdentityLinks :: "(string, string list) gomap"

record parsed_session_key =
  pk_AgentID :: string
  pk_Rest :: string

definition build_agent_main_session_key :: "string \<Rightarrow> string" where
  "build_agent_main_session_key agent_id = ''agent:'' @ normalize_agent_id agent_id @ '':'' @ default_main_key"

definition normalize_channel :: "string \<Rightarrow> string" where
  "normalize_channel channel = (let c = trim_space (to_lower channel) in if c = [] then ''unknown'' else c)"

text \<open>The candidates of a peer: its id, the id scoped by the channel, and the id after a colon.\<close>

definition bare_id :: "string \<Rightarrow> string option" where
  "bare_id s =
     (case index_byte s (CHR '':'') of
        None \<Rightarrow> None
      | Some i \<Rightarrow> if 0 < i \<and> i < length s - 1 then Some (drop (i + 1) s) else None)"

definition link_candidates :: "string \<Rightarrow> string \<Rightarrow> string list" where
  "link_candidates channel peer_id =
     (let raw = to_lower peer_id; channel = to_lower (trim_space channel) in
      [raw] @ (if channel \<noteq> [] then [channel @ '':'' @ to_lower peer_id] else [])
        @ (case bare_id raw of Some b \<Rightarrow> [b] | None \<Rightarrow> []))"

definition links_peer :: "string list \<Rightarrow> string \<times> string list \<Rightarrow> bool" where
  "links_peer candidates link =
     (trim_space (fst link) \<noteq> [] \<and>
      (\<exists>i \<in> set (snd link). to_lower (trim_space i) \<noteq> [] \<and> to_lower (trim_space i) \<in> set candidates))"

definition resolve_linked_peer_id :: "(string, string list) gomap \<Rightarrow> string \<Rightarrow> string \<Rightarrow> string" where
  "resolve_linked_peer_id identity_links channel peer_id =
     (if identity_links = [] then []
      else let peer_id = trim_space peer_id in
      if peer_id = [] then []
      else case find (links_peer (link_candidates channel peer_id)) identity_links of
        Some (canonical, ids) \<Rightarrow> trim_space canonical
      | None \<Rightarrow> [])"

definition direct_peer_id :: "session_key_params \<Rightarrow> string \<Rightarrow> string \<Rightarrow> string" where
  "direct_peer_id p dm_scope peer_id =
     to_lower
       (if dm_scope \<noteq> dm_scope_main \<and> peer_id \<noteq> []
        then (let linked = resolve_linked_peer_id (kp_IdentityLinks p) (kp_Channel p) peer_id in
              if linked \<noteq> [] then linked else peer_id)
        else peer_id)"

definition build_agent_peer_session_key :: "session_key_params \<Rightarrow> string" where
  "build_agent_peer_session_key p =
     (let agent_id = normalize_agent_id (kp_AgentID p);
          peer = (case kp_Peer p of None \<Rightarrow> \<lparr>rp_Kind = ''direct'', rp_ID = []\<rparr> | Some peer \<Rightarrow> peer);
          peer_kind = (let k = trim_space (rp_Kind peer) in if k = [] then ''direct'' else k) in
      if peer_kind = ''direct'' then
        (let dm_scope = (if kp_DMScope p = [] then dm_scope_main else kp_DMScope p);
             peer_id = direct_peer_id p dm_scope (trim_space (rp_ID peer)) in
         if dm_scope = dm_scope_per_account_channel_peer \<and> peer_id \<noteq> [] then
           ''agent:'' @ agent_id @ '':'' @ normalize_channel (kp_Channel p) @ '':'' @
             normalize_account_id (kp_AccountID p) @ '':direct:'' @ peer_id
         else if dm_scope = dm_scope_per_channel_peer \<and> peer_id \<noteq> [] then
           ''agent:'' @ agent_id @ '':'' @ normalize_channel (kp_Channel p) @ '':direct:'' @ peer_id
         else if dm_scope = dm_scope_per_peer \<and> peer_id \<noteq> [] then
           ''agent:'' @ agent_id @ '':direct:'' @ peer_id
         else build_agent_main_session_key agent_id)
      else
        (let peer_id = to_lower (trim_space (rp_ID peer)) in
         ''agent:'' @ agent_id @ '':'' @ normalize_channel (kp_Channel p) @ '':'' @ peer_kind @ '':'' @
           (if peer_id = [] then ''unknown'' else peer_id)))"

definition cut_colon :: "string \<Rightarrow> (string \<times> string) option" where
  "cut_colon s = map_option (\<lambda>i. (take i s, drop (i + 1) s)) (index_byte s (CHR '':''))"

definition parse_agent_session_key :: "string \<Rightarrow> parsed_session_key option" where
  "parse_agent_session_key session_key =
     (let raw = trim_space session_key in
      if raw = [] then None
      else case cut_colon raw of
        None \<Rightarrow> None
      | Some (part0, tail0) \<Rightarrow>
          (case cut_colon tail0 of
             None \<Rightarrow> None
           | Some (part1, rest) \<Rightarrow>
               if part0 \<noteq> ''agent'' then None
               else let agent_id = trim_space part1 in
               if agent_id = [] \<or> rest = [] then None
               else Some \<lparr>pk_AgentID = agent_id, pk_Rest = rest\<rparr>))"

definition is_subagent_session_key :: "string \<Rightarrow> bool" where
  "is_subagent_session_key session_key =
     (let raw = trim_space session_key in
      if raw = [] then False
      else if prefix ''subagent:'' (to_lower raw) then True
      else case parse_agent_session_key raw of
        None \<Rightarrow> False
      | Some parsed \<Rightarrow> prefix ''subagent:'' (to_lower (pk_Rest parsed)))"

section \<open>What a sanitised id is\<close>

definition id_shape :: "string \<Rightarrow> bool" where
  "id_shape s \<longleftrightarrow> s \<noteq> [] \<and> length s \<le> 64 \<and> list_all id_char s \<and> hd s \<noteq> CHR ''-''"

lemma replace_invalid_chars: "list_all id_char (replace_invalid inside s)"
  by (induction inside s rule: replace_invalid.induct) (auto simp: id_char_def)

lemma list_all_dropWhile: "list_all P s \<Longrightarrow> list_all P (dropWhile Q s)"
  by (auto simp: list_all_iff dest: set_dropWhileD)

lemma drop_trailing_prefix: "prefix (drop_trailing_dashes s) s"
  unfolding drop_trailing_dashes_def prefix_def by (metis rev_append rev_rev_ident takeWhile_dropWhile_id)

lemma hd_prefix: "prefix s t \<Longrightarrow> s \<noteq> [] \<Longrightarrow> hd s = hd t"
  by (auto simp: prefix_def)

lemma sanitized_shape:
  assumes "r = take 64 (drop_trailing_dashes (drop_leading_dashes (replace_invalid False s)))" and "r \<noteq> []"
  shows "id_shape r"
proof -
  let ?l = "drop_leading_dashes (replace_invalid False s)"
  have p: "prefix r ?l"
    unfolding assms(1) using drop_trailing_prefix take_is_prefix prefix_order.trans by blast
  have "list_all id_char ?l"
    unfolding drop_leading_dashes_def by (rule list_all_dropWhile [OF replace_invalid_chars])
  then have "list_all id_char r" using p by (metis list_all_append prefix_def)
  moreover have "hd r = hd ?l" using p assms(2) by (rule hd_prefix)
  moreover have "?l \<noteq> []" using p assms(2) by auto
  ultimately show ?thesis
    using assms hd_dropWhile [of "\<lambda>c. c = CHR ''-''" "replace_invalid False s"]
    by (auto simp: id_shape_def drop_leading_dashes_def)
qed

lemma valid_id_shape: "valid_id s \<Longrightarrow> id_shape s"
  by (cases s) (auto simp: valid_id_def id_shape_def id_char_def id_first_def)

lemma id_shape_valid: "id_shape s \<Longrightarrow> valid_id s = (hd s \<noteq> CHR ''_'')"
  by (cases s) (auto simp: valid_id_def id_shape_def id_char_def id_first_def)

lemma sanitize_id_shape: "id_shape d \<Longrightarrow> id_shape (sanitize_id d s)"
  using sanitized_shape [OF refl] valid_id_shape by (auto simp: sanitize_id_def max_agent_id_length_def Let_def)

lemma id_char_plain: "id_char c \<Longrightarrow> c \<noteq> CHR '':'' \<and> \<not> is_space c \<and> lower_char c = c"
  by (auto simp: id_char_def id_first_def is_space_def lower_char_def Let_def)

lemma id_shape_plain:
  assumes "id_shape s"
  shows "CHR '':'' \<notin> set s" and "trim_space s = s" and "to_lower s = s"
proof -
  have c: "\<forall>c \<in> set s. id_char c" using assms by (simp add: id_shape_def list_all_iff)
  then show "CHR '':'' \<notin> set s" using id_char_plain by blast
  have "\<not> is_space (hd s)" "\<not> is_space (last s)"
    using assms c id_char_plain by (auto simp: id_shape_def)
  then show "trim_space s = s" by (intro trim_space_id) simp
  show "to_lower s = s" unfolding to_lower_def using c id_char_plain by (intro map_idI) blast
qed

lemma sanitize_valid: "valid_id s \<Longrightarrow> sanitize_id d s = s"
  using id_shape_plain [OF valid_id_shape] by (auto simp: sanitize_id_def valid_id_def Let_def)

lemma agent_id_shape: "id_shape (normalize_agent_id s)"
  unfolding normalize_agent_id_def by (rule sanitize_id_shape) code_simp

lemma account_id_shape: "id_shape (normalize_account_id s)"
  unfolding normalize_account_id_def by (rule sanitize_id_shape) code_simp

text \<open>
  C33. The type of a normalised id, whatever the input: one to 64 bytes out of lower-case letters,
  digits, underscore and hyphen, not starting with a hyphen. It matches the documented pattern
  exactly when it does not start with an underscore, and then normalising it again changes nothing;
  an id that starts with an underscore is kept as it is.
\<close>

theorem normalized_id_type:
  "id_shape (normalize_agent_id s) \<and> id_shape (normalize_account_id s) \<and>
   valid_id (normalize_agent_id s) = (hd (normalize_agent_id s) \<noteq> CHR ''_'') \<and>
   (hd (normalize_agent_id s) = CHR ''_'' \<or> normalize_agent_id (normalize_agent_id s) = normalize_agent_id s) \<and>
   normalize_agent_id ''_Root!'' = ''_root'' \<and> \<not> valid_id ''_root''"
proof -
  have "normalize_agent_id ''_Root!'' = ''_root'' \<and> \<not> valid_id ''_root''" by code_simp
  moreover have "hd (normalize_agent_id s) = CHR ''_'' \<or> normalize_agent_id (normalize_agent_id s) = normalize_agent_id s"
    using id_shape_valid [OF agent_id_shape, of s] sanitize_valid by (auto simp: normalize_agent_id_def)
  ultimately show ?thesis using agent_id_shape account_id_shape id_shape_valid [OF agent_id_shape] by blast
qed

section \<open>Conversations and their keys\<close>

text \<open>The conversation a message belongs to, from its peer and the direct-message scope.\<close>

datatype conversation =
    MainTalk
  | PeerTalk string
  | ChannelTalk string string
  | AccountTalk string string string
  | GroupTalk string string string

definition peer_kind_of :: "session_key_params \<Rightarrow> string" where
  "peer_kind_of p =
     (case kp_Peer p of None \<Rightarrow> ''direct'' | Some peer \<Rightarrow> (let k = trim_space (rp_Kind peer) in if k = [] then ''direct'' else k))"

definition peer_id_of :: "session_key_params \<Rightarrow> string" where
  "peer_id_of p = (case kp_Peer p of None \<Rightarrow> [] | Some peer \<Rightarrow> trim_space (rp_ID peer))"

definition conversation_of :: "session_key_params \<Rightarrow> conversation" where
  "conversation_of p =
     (if peer_kind_of p = ''direct'' then
        (let dm_scope = (if kp_DMScope p = [] then dm_scope_main else kp_DMScope p);
             x = direct_peer_id p dm_scope (peer_id_of p) in
         if x = [] then MainTalk
         else if dm_scope = dm_scope_per_account_channel_peer
         then AccountTalk (normalize_channel (kp_Channel p)) (normalize_account_id (kp_AccountID p)) x
         else if dm_scope = dm_scope_per_channel_peer then ChannelTalk (normalize_channel (kp_Channel p)) x
         else if dm_scope = dm_scope_per_peer then PeerTalk x
         else MainTalk)
      else GroupTalk (normalize_channel (kp_Channel p)) (peer_kind_of p)
        (if peer_id_of p = [] then ''unknown'' else to_lower (peer_id_of p)))"

fun conversation_text :: "conversation \<Rightarrow> string" where
  "conversation_text MainTalk = ''main''"
| "conversation_text (PeerTalk x) = ''direct:'' @ x"
| "conversation_text (ChannelTalk ch x) = ch @ '':direct:'' @ x"
| "conversation_text (AccountTalk ch acct x) = ch @ '':'' @ acct @ '':direct:'' @ x"
| "conversation_text (GroupTalk ch kind x) = ch @ '':'' @ kind @ '':'' @ x"

text \<open>The key of the main conversation normalises its agent twice.\<close>

definition key_agent :: "session_key_params \<Rightarrow> string" where
  "key_agent p =
     (if conversation_of p = MainTalk then normalize_agent_id (normalize_agent_id (kp_AgentID p))
      else normalize_agent_id (kp_AgentID p))"

lemma trim_direct: "trim_space ''direct'' = ''direct''"
  by code_simp

lemma build_unfold:
  "build_agent_peer_session_key p =
     (let agent_id = normalize_agent_id (kp_AgentID p) in
      if peer_kind_of p = ''direct'' then
        (let dm_scope = (if kp_DMScope p = [] then dm_scope_main else kp_DMScope p);
             peer_id = direct_peer_id p dm_scope (peer_id_of p) in
         if dm_scope = dm_scope_per_account_channel_peer \<and> peer_id \<noteq> [] then
           ''agent:'' @ agent_id @ '':'' @ normalize_channel (kp_Channel p) @ '':'' @
             normalize_account_id (kp_AccountID p) @ '':direct:'' @ peer_id
         else if dm_scope = dm_scope_per_channel_peer \<and> peer_id \<noteq> [] then
           ''agent:'' @ agent_id @ '':'' @ normalize_channel (kp_Channel p) @ '':direct:'' @ peer_id
         else if dm_scope = dm_scope_per_peer \<and> peer_id \<noteq> [] then
           ''agent:'' @ agent_id @ '':direct:'' @ peer_id
         else build_agent_main_session_key agent_id)
      else
        (let peer_id = to_lower (peer_id_of p) in
         ''agent:'' @ agent_id @ '':'' @ normalize_channel (kp_Channel p) @ '':'' @ peer_kind_of p @ '':'' @
           (if peer_id = [] then ''unknown'' else peer_id)))"
proof (cases "kp_Peer p")
  case None
  then show ?thesis
    unfolding build_agent_peer_session_key_def peer_kind_of_def peer_id_of_def Let_def None option.case
      route_peer.select_convs trim_direct trim_space_Nil by (simp only: list.distinct if_False refl)
next
  case (Some peer)
  show ?thesis
    unfolding build_agent_peer_session_key_def peer_kind_of_def peer_id_of_def Let_def Some option.case by (rule refl)
qed

lemma main_text: "build_agent_main_session_key a = ''agent:'' @ normalize_agent_id a @ '':'' @ conversation_text MainTalk"
  by (simp add: build_agent_main_session_key_def default_main_key_def)

lemma build_key_text:
  "build_agent_peer_session_key p = ''agent:'' @ key_agent p @ '':'' @ conversation_text (conversation_of p)"
proof (cases "peer_kind_of p = ''direct''")
  case True
  define sc where "sc = (if kp_DMScope p = [] then dm_scope_main else kp_DMScope p)"
  define x where "x = direct_peer_id p sc (peer_id_of p)"
  note u = build_unfold [of p, unfolded Let_def, folded sc_def, folded x_def]
  note c = conversation_of_def [of p, unfolded Let_def, folded sc_def, folded x_def]
  show ?thesis
  proof (cases "x = []")
    case True
    with c \<open>peer_kind_of p = _\<close> have m: "conversation_of p = MainTalk" by simp
    show ?thesis using u True \<open>peer_kind_of p = _\<close> by (simp add: m key_agent_def main_text)
  next
    case False
    consider "sc = dm_scope_per_account_channel_peer" | "sc \<noteq> dm_scope_per_account_channel_peer" "sc = dm_scope_per_channel_peer"
      | "sc \<noteq> dm_scope_per_account_channel_peer" "sc \<noteq> dm_scope_per_channel_peer" "sc = dm_scope_per_peer"
      | "sc \<noteq> dm_scope_per_account_channel_peer" "sc \<noteq> dm_scope_per_channel_peer" "sc \<noteq> dm_scope_per_peer" by blast
    then show ?thesis
      using u c False \<open>peer_kind_of p = _\<close> by cases (simp_all add: key_agent_def main_text)
  qed
next
  case False
  then have "conversation_of p = GroupTalk (normalize_channel (kp_Channel p)) (peer_kind_of p)
        (if peer_id_of p = [] then ''unknown'' else to_lower (peer_id_of p))" by (simp add: conversation_of_def)
  with False show ?thesis by (simp add: build_unfold key_agent_def Let_def)
qed

lemma is_space_lower [simp]: "is_space (lower_char c) = is_space c"
proof (cases "65 \<le> (of_char c :: nat) \<and> (of_char c :: nat) \<le> 90")
  case True
  then have "of_char (lower_char c) = (of_char c + 32 :: nat)" by (simp add: of_char_lower_char)
  then show ?thesis using True by (auto simp: is_space_def)
qed (auto simp: lower_char_def Let_def)

lemma last_to_lower: "s \<noteq> [] \<Longrightarrow> last (to_lower s) = lower_char (last s)"
  by (simp add: to_lower_def last_map)

lemma linked_end: "resolve_linked_peer_id links ch x = [] \<or> \<not> is_space (last (resolve_linked_peer_id links ch x))"
  using trim_space_last by (auto simp: resolve_linked_peer_id_def Let_def split: option.splits)

lemma direct_peer_end:
  "trim_space x = x \<Longrightarrow> direct_peer_id p sc x = [] \<or> \<not> is_space (last (direct_peer_id p sc x))"
  using trim_space_last [of x] linked_end by (auto simp: direct_peer_id_def Let_def last_to_lower)

lemma peer_id_trimmed [simp]: "trim_space (peer_id_of p) = peer_id_of p"
  by (simp add: peer_id_of_def split: option.split)

fun talk_peer :: "conversation \<Rightarrow> string option" where
  "talk_peer MainTalk = None"
| "talk_peer (PeerTalk x) = Some x"
| "talk_peer (ChannelTalk ch x) = Some x"
| "talk_peer (AccountTalk ch acct x) = Some x"
| "talk_peer (GroupTalk ch kind x) = Some x"

lemma talk_peer_end:
  assumes "talk_peer (conversation_of p) = Some x"
  shows "x \<noteq> [] \<and> \<not> is_space (last x)"
proof (cases "peer_kind_of p = ''direct''")
  case True
  define sc where "sc = (if kp_DMScope p = [] then dm_scope_main else kp_DMScope p)"
  have "x = direct_peer_id p sc (peer_id_of p)" "x \<noteq> []"
    using assms True unfolding conversation_of_def sc_def [symmetric] Let_def by (auto split: if_splits)
  then show ?thesis using direct_peer_end [OF peer_id_trimmed] by metis
next
  case False
  then have "x = (if peer_id_of p = [] then ''unknown'' else to_lower (peer_id_of p))"
    using assms by (simp add: conversation_of_def)
  then show ?thesis
    using trim_space_last [of "peer_id_of p"] by (auto simp: last_to_lower is_space_def [of "CHR ''n''"])
qed

lemma text_end: "talk_peer c = Some x \<Longrightarrow> x \<noteq> [] \<Longrightarrow> last (conversation_text c) = last x"
  by (cases c) auto

lemma text_not_empty: "conversation_text c \<noteq> []"
  by (cases c) auto

lemma conversation_text_end:
  "conversation_text (conversation_of p) \<noteq> [] \<and> \<not> is_space (last (conversation_text (conversation_of p)))"
proof (cases "talk_peer (conversation_of p)")
  case None
  then have "conversation_of p = MainTalk" by (cases "conversation_of p") auto
  then show ?thesis by (simp add: is_space_def)
next
  case (Some x)
  then show ?thesis using talk_peer_end [OF Some] text_end [OF Some] text_not_empty by simp
qed

lemma index_byte_append: "c \<notin> set s \<Longrightarrow> index_byte (s @ c # t) c = Some (length s)"
  by (induction s) auto

lemma cut_colon_append: "CHR '':'' \<notin> set s \<Longrightarrow> cut_colon (s @ CHR '':'' # t) = Some (s, t)"
  by (simp add: cut_colon_def index_byte_append)

lemma key_agent_shape: "id_shape (key_agent p)"
  using agent_id_shape by (simp add: key_agent_def)

lemma parse_key:
  assumes "id_shape a" and "rest \<noteq> []" and "\<not> is_space (last rest)"
  shows "parse_agent_session_key (''agent:'' @ a @ '':'' @ rest) = Some \<lparr>pk_AgentID = a, pk_Rest = rest\<rparr>"
proof -
  have "trim_space (''agent:'' @ a @ '':'' @ rest) = ''agent:'' @ a @ '':'' @ rest"
    using assms(2,3) by (intro trim_space_id) (auto simp: is_space_def)
  moreover have "cut_colon (''agent:'' @ a @ '':'' @ rest) = Some (''agent'', a @ CHR '':'' # rest)"
    using cut_colon_append [of "''agent''" "a @ CHR '':'' # rest"] by simp
  ultimately show ?thesis
    using assms id_shape_plain [OF assms(1)]
    by (simp add: parse_agent_session_key_def cut_colon_append Let_def) (auto simp: id_shape_def)
qed

lemma lower_key: "id_shape a \<Longrightarrow> to_lower (''agent:'' @ a @ '':'' @ rest) = ''agent:'' @ a @ '':'' @ to_lower rest"
  using id_shape_plain(3) [of a] by (simp add: to_lower_def lower_char_def)

text \<open>
  Session keys read back: parsing a built key, as it is or lower-cased as the resolver stores
  it, gives the normalised agent and the conversation's text; in particular the key never belongs to
  another agent, whatever colons or blanks the ids of the message contain.
\<close>

theorem session_key_round_trip:
  "parse_agent_session_key (build_agent_peer_session_key p) =
     Some \<lparr>pk_AgentID = key_agent p, pk_Rest = conversation_text (conversation_of p)\<rparr> \<and>
   parse_agent_session_key (to_lower (build_agent_peer_session_key p)) =
     Some \<lparr>pk_AgentID = key_agent p, pk_Rest = to_lower (conversation_text (conversation_of p))\<rparr> \<and>
   key_agent p \<in> {normalize_agent_id (kp_AgentID p), normalize_agent_id (normalize_agent_id (kp_AgentID p))}"
proof -
  let ?t = "conversation_text (conversation_of p)"
  have t: "?t \<noteq> []" "\<not> is_space (last ?t)" using conversation_text_end [of p] by blast+
  have l: "to_lower ?t \<noteq> []" "\<not> is_space (last (to_lower ?t))" using t by (simp_all add: last_to_lower)
  have "key_agent p \<in> {normalize_agent_id (kp_AgentID p), normalize_agent_id (normalize_agent_id (kp_AgentID p))}"
    by (simp add: key_agent_def)
  then show ?thesis
    unfolding build_key_text lower_key [OF key_agent_shape]
    using parse_key [OF key_agent_shape t] parse_key [OF key_agent_shape l] by blast
qed

section \<open>Isolation of conversations\<close>

text \<open>What the parts of a message must not contain for keys to tell conversations apart.\<close>

definition plain_parts :: "session_key_params \<Rightarrow> bool" where
  "plain_parts p \<longleftrightarrow> CHR '':'' \<notin> set (normalize_channel (kp_Channel p)) \<and> CHR '':'' \<notin> set (peer_kind_of p) \<and>
     normalize_channel (kp_Channel p) \<noteq> ''direct''"

lemma split_colon:
  assumes "CHR '':'' \<notin> set a" and "CHR '':'' \<notin> set b" and "a @ CHR '':'' # x = b @ CHR '':'' # y"
  shows "a = b \<and> x = y"
proof -
  have "cut_colon (a @ CHR '':'' # x) = cut_colon (b @ CHR '':'' # y)" using assms(3) by (rule arg_cong)
  then show ?thesis unfolding cut_colon_append [OF assms(1)] cut_colon_append [OF assms(2)] by simp
qed

text \<open>Conversations of one scope, with plain parts.\<close>

fun talk_plain :: "conversation \<Rightarrow> bool" where
  "talk_plain (ChannelTalk ch x) = (CHR '':'' \<notin> set ch \<and> ch \<noteq> ''direct'')"
| "talk_plain (AccountTalk ch acct x) = (CHR '':'' \<notin> set ch \<and> CHR '':'' \<notin> set acct)"
| "talk_plain (GroupTalk ch kind x) = (CHR '':'' \<notin> set ch \<and> CHR '':'' \<notin> set kind \<and> kind \<noteq> ''direct'' \<and> ch \<noteq> ''direct'')"
| "talk_plain _ = True"

fun one_scope :: "conversation \<Rightarrow> conversation \<Rightarrow> bool" where
  "one_scope (PeerTalk _) (ChannelTalk _ _) = False"
| "one_scope (PeerTalk _) (AccountTalk _ _ _) = False"
| "one_scope (ChannelTalk _ _) (PeerTalk _) = False"
| "one_scope (ChannelTalk _ _) (AccountTalk _ _ _) = False"
| "one_scope (AccountTalk _ _ _) (PeerTalk _) = False"
| "one_scope (AccountTalk _ _ _) (ChannelTalk _ _) = False"
| "one_scope (AccountTalk _ acct _) (GroupTalk _ kind _) = (acct \<noteq> kind)"
| "one_scope (GroupTalk _ kind _) (AccountTalk _ acct _) = (acct \<noteq> kind)"
| "one_scope _ _ = True"

lemma text_has_colon: "CHR '':'' \<in> set (conversation_text c) \<longleftrightarrow> c \<noteq> MainTalk"
  by (cases c) auto

lemma direct_cut: "cut_colon (CHR ''d'' # CHR ''i'' # CHR ''r'' # CHR ''e'' # CHR ''c'' # CHR ''t'' # CHR '':'' # x) = Some (''direct'', x)"
  using cut_colon_append [of "''direct''" x] by simp

lemma colon_split:
  "a @ CHR '':'' # x = b @ CHR '':'' # y \<Longrightarrow> CHR '':'' \<notin> set a \<Longrightarrow> CHR '':'' \<notin> set b \<Longrightarrow> a = b \<and> x = y"
  by (rule split_colon)

lemma colon_split_direct:
  "a @ CHR '':'' # x = CHR ''d'' # CHR ''i'' # CHR ''r'' # CHR ''e'' # CHR ''c'' # CHR ''t'' # CHR '':'' # y \<Longrightarrow>
     CHR '':'' \<notin> set a \<Longrightarrow> a = ''direct'' \<and> x = y"
  using split_colon [of a "''direct''" x y] by simp

lemmas colon_splits = colon_split colon_split_direct colon_split_direct [OF sym]

lemma conversation_text_inject:
  assumes "talk_plain c" and "talk_plain d" and "one_scope c d" and "conversation_text c = conversation_text d"
  shows "c = d"
proof (cases c)
  case MainTalk
  then show ?thesis using assms(4) text_has_colon by metis
next
  case (PeerTalk x)
  then show ?thesis using assms by (cases d) (auto dest: colon_splits)
next
  case (ChannelTalk ch x)
  then show ?thesis using assms by (cases d) (auto dest: colon_splits dest!: colon_split)
next
  case (AccountTalk ch acct x)
  then show ?thesis using assms by (cases d) (auto dest: colon_splits dest!: colon_split)
next
  case (GroupTalk ch kind x)
  moreover have "d \<noteq> MainTalk" using assms(4) text_has_colon [of c] text_has_colon [of d] by (auto simp: GroupTalk)
  ultimately show ?thesis using assms by (cases d) (auto dest: colon_splits dest!: colon_split)
qed

lemma conversation_plain: "plain_parts p \<Longrightarrow> talk_plain (conversation_of p)"
  using id_shape_plain(1) [OF account_id_shape] by (auto simp: conversation_of_def plain_parts_def Let_def)

lemma conversations_one_scope:
  assumes "kp_DMScope p = kp_DMScope q" and "peer_kind_of q \<noteq> normalize_account_id (kp_AccountID p)"
    and "peer_kind_of p \<noteq> normalize_account_id (kp_AccountID q)"
  shows "one_scope (conversation_of p) (conversation_of q)"
  using assms by (auto simp: conversation_of_def Let_def)

text \<open>
  Isolation of sessions: under one direct-message scope, when channel names and peer kinds have
  no colon, no channel is called direct and no peer kind is an account's name, two messages have the
  same session key exactly when they are for the same agent and belong to the same conversation.
\<close>

theorem session_keys_isolate:
  assumes "kp_DMScope p = kp_DMScope q" and "plain_parts p" and "plain_parts q"
    and "peer_kind_of q \<noteq> normalize_account_id (kp_AccountID p)"
    and "peer_kind_of p \<noteq> normalize_account_id (kp_AccountID q)"
  shows "(build_agent_peer_session_key p = build_agent_peer_session_key q) =
    (key_agent p = key_agent q \<and> conversation_of p = conversation_of q)"
proof
  assume "build_agent_peer_session_key p = build_agent_peer_session_key q"
  then have e: "key_agent p @ CHR '':'' # conversation_text (conversation_of p) =
      key_agent q @ CHR '':'' # conversation_text (conversation_of q)" by (simp add: build_key_text)
  have "key_agent p = key_agent q \<and> conversation_text (conversation_of p) = conversation_text (conversation_of q)"
    by (rule split_colon [OF id_shape_plain(1) [OF key_agent_shape] id_shape_plain(1) [OF key_agent_shape] e])
  then show "key_agent p = key_agent q \<and> conversation_of p = conversation_of q"
    using conversation_text_inject conversation_plain assms conversations_one_scope [OF assms(1,4,5)] by blast
qed (simp add: build_key_text)

definition telegram_direct :: "string \<Rightarrow> string \<Rightarrow> session_key_params" where
  "telegram_direct account peer =
     \<lparr>kp_AgentID = ''main'', kp_Channel = ''telegram'', kp_AccountID = account,
      kp_Peer = Some \<lparr>rp_Kind = ''direct'', rp_ID = peer\<rparr>, kp_DMScope = dm_scope_per_account_channel_peer,
      kp_IdentityLinks = []\<rparr>"

definition telegram_group :: "string \<Rightarrow> session_key_params" where
  "telegram_group peer = (telegram_direct [] [])\<lparr>kp_Peer := Some \<lparr>rp_Kind = ''group'', rp_ID = peer\<rparr>\<rparr>"

theorem session_keys_isolate_witness:
  "build_agent_peer_session_key (telegram_direct ''a1'' ''bob'') \<noteq> build_agent_peer_session_key (telegram_group ''bob'') \<and>
   build_agent_peer_session_key (telegram_direct ''group'' ''bob'') = build_agent_peer_session_key (telegram_group ''direct:bob'')"
proof -
  have "plain_parts (telegram_direct ''a1'' ''bob'')" "plain_parts (telegram_group ''bob'')"
    "kp_DMScope (telegram_direct ''a1'' ''bob'') = kp_DMScope (telegram_group ''bob'')"
    "peer_kind_of (telegram_group ''bob'') \<noteq> normalize_account_id (kp_AccountID (telegram_direct ''a1'' ''bob''))"
    "peer_kind_of (telegram_direct ''a1'' ''bob'') \<noteq> normalize_account_id (kp_AccountID (telegram_group ''bob''))"
    "conversation_of (telegram_direct ''a1'' ''bob'') \<noteq> conversation_of (telegram_group ''bob'')" by code_simp+
  moreover have "build_agent_peer_session_key (telegram_direct ''group'' ''bob'') =
    build_agent_peer_session_key (telegram_group ''direct:bob'')" by code_simp
  ultimately show ?thesis using session_keys_isolate by blast
qed

section \<open>Identity links\<close>

definition linked_names :: "(string, string list) gomap \<Rightarrow> string \<Rightarrow> string \<Rightarrow> string set" where
  "linked_names links channel peer_id =
     trim_space ` fst ` {l \<in> set links. links_peer (link_candidates channel (trim_space peer_id)) l}"

lemma find_in_some_order:
  assumes "x \<in> set xs" and "P x"
  shows "\<exists>ys. mset ys = mset xs \<and> find P ys = Some x"
proof -
  have "mset (x # remove1 x xs) = mset xs" using assms(1) by simp
  moreover have "find P (x # remove1 x xs) = Some x" using assms(2) by simp
  ultimately show ?thesis by blast
qed

text \<open>
  Identity links depend on the order in which the map is visited: the names that some order
  gives are exactly the canonical names that list the peer, so a peer two names list has no fixed
  session; a peer that none lists keeps its own id in every order.
\<close>

theorem linked_name_any_order:
  assumes "trim_space peer_id \<noteq> []"
  shows "{resolve_linked_peer_id links' channel peer_id | links'. mset links' = mset links} =
    (if linked_names links channel peer_id = {} then {[]} else linked_names links channel peer_id)"
proof -
  let ?P = "links_peer (link_candidates channel (trim_space peer_id))"
  have r: "resolve_linked_peer_id ls channel peer_id = (case find ?P ls of Some l \<Rightarrow> trim_space (fst l) | None \<Rightarrow> [])" for ls
    using assms by (cases ls) (auto simp: resolve_linked_peer_id_def Let_def split: option.split)
  show ?thesis
  proof (cases "linked_names links channel peer_id = {}")
    case True
    then have "\<forall>l \<in> set links. \<not> ?P l" by (auto simp: linked_names_def)
    then have "find ?P ls = None" if "mset ls = mset links" for ls
      using that mset_eq_setD by (fastforce simp: find_None_iff)
    then have "resolve_linked_peer_id ls channel peer_id = []" if "mset ls = mset links" for ls
      using that by (simp add: r)
    then have "{resolve_linked_peer_id links' channel peer_id | links'. mset links' = mset links} = {[]}"
      by (intro equalityI subsetI) (auto intro: exI [of _ links])
    then show ?thesis using True by simp
  next
    case False
    then obtain l0 where l0: "l0 \<in> set links" "?P l0" by (auto simp: linked_names_def)
    have "resolve_linked_peer_id ls channel peer_id \<in> linked_names links channel peer_id" if "mset ls = mset links" for ls
    proof -
      have s: "set ls = set links" using that by (rule mset_eq_setD)
      have "find ?P ls \<noteq> None" using s l0 by (metis find_None_iff)
      then obtain l where "find ?P ls = Some l" by blast
      moreover from this have "l \<in> set ls" "?P l" by (auto simp: find_Some_iff)
      ultimately show ?thesis using s by (auto simp: r linked_names_def)
    qed
    moreover have "\<exists>ls. mset ls = mset links \<and> n = resolve_linked_peer_id ls channel peer_id"
      if "n \<in> linked_names links channel peer_id" for n
    proof -
      obtain l where l: "l \<in> set links" "?P l" "n = trim_space (fst l)" using \<open>n \<in> _\<close> by (auto simp: linked_names_def)
      from find_in_some_order [OF l(1), of ?P, OF l(2)] l(3) show ?thesis by (auto simp: r)
    qed
    ultimately show ?thesis using False by auto
  qed
qed

theorem linked_name_any_order_witness:
  "{resolve_linked_peer_id links' ''telegram'' ''7'' | links'. mset links' = mset [(''ann'', [''telegram:7'']), (''bob'', [''7''])]} =
   {''ann'', ''bob''}"
proof -
  have "linked_names [(''ann'', [''telegram:7'']), (''bob'', [''7''])] ''telegram'' ''7'' = {''ann'', ''bob''}"
    unfolding linked_names_def by code_simp
  moreover have "trim_space ''7'' \<noteq> []" by code_simp
  ultimately show ?thesis 
    using linked_name_any_order [of "''7''" "''telegram''" "[(''ann'', [''telegram:7'']), (''bob'', [''7''])]"]
    by (metis insert_not_empty)
qed

end
