(* ===== verification/Agent_Routing.thy ===== *)
theory Agent_Routing
  imports Session_Keys
begin

text \<open>
  Agent routing (pkg/routing/route.go): which agent answers an inbound message, by the bindings of
  the configuration, and the session keys it gets. Log lines are not modelled. The lemmas relate the
  cascade of the code to a description by tiers over the configured list of bindings.
\<close>

section \<open>The resolver\<close>

text \<open>The fields of \<open>config.Config\<close> that routing reads.\<close>

record peer_match =
  pm_Kind :: string
  pm_ID :: string

record binding_match =
  bm_Channel :: string
  bm_AccountID :: string
  bm_Peer :: "peer_match option"
  bm_GuildID :: string
  bm_TeamID :: string

record agent_binding =
  ab_AgentID :: string
  ab_Match :: binding_match

record routed_agent =
  ra_ID :: string
  ra_Default :: bool
  ra_Enabled :: "bool option"

record route_config =
  rc_Bindings :: "agent_binding list"
  rc_Agents :: "routed_agent list"
  rc_DMScope :: string
  rc_IdentityLinks :: "(string, string list) gomap"

record route_input =
  ri_Channel :: string
  ri_AccountID :: string
  ri_Peer :: "route_peer option"
  ri_ParentPeer :: "route_peer option"
  ri_GuildID :: string
  ri_TeamID :: string

record resolved_route =
  rr_AgentID :: string
  rr_Channel :: string
  rr_AccountID :: string
  rr_SessionKey :: string
  rr_MainSessionKey :: string
  rr_MatchedBy :: string

definition is_active :: "routed_agent \<Rightarrow> bool" where
  "is_active a = (case ra_Enabled a of None \<Rightarrow> True | Some b \<Rightarrow> b)"

definition matches_account_id :: "string \<Rightarrow> string \<Rightarrow> bool" where
  "matches_account_id match_account actual =
     (let trimmed = trim_space match_account in
      if trimmed = [] then actual = default_account_id
      else if trimmed = ''*'' then True
      else to_lower trimmed = to_lower actual)"

fun filter_bindings :: "string \<Rightarrow> string \<Rightarrow> agent_binding list \<Rightarrow> agent_binding list" where
  "filter_bindings channel account [] = []"
| "filter_bindings channel account (b # bs) =
     (let match_channel = to_lower (trim_space (bm_Channel (ab_Match b))) in
      if match_channel = [] then filter_bindings channel account bs
      else if match_channel \<noteq> channel then filter_bindings channel account bs
      else if \<not> matches_account_id (bm_AccountID (ab_Match b)) account then filter_bindings channel account bs
      else b # filter_bindings channel account bs)"

fun find_peer_match :: "agent_binding list \<Rightarrow> route_peer \<Rightarrow> agent_binding option" where
  "find_peer_match [] peer = None"
| "find_peer_match (b # bs) peer =
     (case bm_Peer (ab_Match b) of
        None \<Rightarrow> find_peer_match bs peer
      | Some pm \<Rightarrow>
          (let peer_kind = to_lower (trim_space (pm_Kind pm)); peer_id = trim_space (pm_ID pm) in
           if peer_kind = [] \<or> peer_id = [] then find_peer_match bs peer
           else if peer_kind = to_lower (rp_Kind peer) \<and> peer_id = rp_ID peer then Some b
           else find_peer_match bs peer))"

fun find_guild_match :: "agent_binding list \<Rightarrow> string \<Rightarrow> agent_binding option" where
  "find_guild_match [] guild = None"
| "find_guild_match (b # bs) guild =
     (let match_guild = trim_space (bm_GuildID (ab_Match b)) in
      if match_guild \<noteq> [] \<and> match_guild = guild then Some b else find_guild_match bs guild)"

fun find_team_match :: "agent_binding list \<Rightarrow> string \<Rightarrow> agent_binding option" where
  "find_team_match [] team = None"
| "find_team_match (b # bs) team =
     (let match_team = trim_space (bm_TeamID (ab_Match b)) in
      if match_team \<noteq> [] \<and> match_team = team then Some b else find_team_match bs team)"

fun find_account_match :: "agent_binding list \<Rightarrow> agent_binding option" where
  "find_account_match [] = None"
| "find_account_match (b # bs) =
     (if trim_space (bm_AccountID (ab_Match b)) = ''*'' then find_account_match bs
      else if bm_Peer (ab_Match b) \<noteq> None \<or> bm_GuildID (ab_Match b) \<noteq> [] \<or> bm_TeamID (ab_Match b) \<noteq> []
      then find_account_match bs
      else Some b)"

fun find_channel_wildcard_match :: "agent_binding list \<Rightarrow> agent_binding option" where
  "find_channel_wildcard_match [] = None"
| "find_channel_wildcard_match (b # bs) =
     (if trim_space (bm_AccountID (ab_Match b)) \<noteq> ''*'' then find_channel_wildcard_match bs
      else if bm_Peer (ab_Match b) \<noteq> None \<or> bm_GuildID (ab_Match b) \<noteq> [] \<or> bm_TeamID (ab_Match b) \<noteq> []
      then find_channel_wildcard_match bs
      else Some b)"

fun first_default_agent :: "routed_agent list \<Rightarrow> string option" where
  "first_default_agent [] = None"
| "first_default_agent (a # agents) =
     (if ra_Default a \<and> is_active a \<and> trim_space (ra_ID a) \<noteq> [] then Some (normalize_agent_id (trim_space (ra_ID a)))
      else first_default_agent agents)"

fun first_enabled_agent :: "routed_agent list \<Rightarrow> string option" where
  "first_enabled_agent [] = None"
| "first_enabled_agent (a # agents) =
     (if is_active a \<and> trim_space (ra_ID a) \<noteq> [] then Some (normalize_agent_id (trim_space (ra_ID a)))
      else first_enabled_agent agents)"

definition resolve_default_agent_id :: "route_config \<Rightarrow> string" where
  "resolve_default_agent_id cfg =
     (case first_default_agent (rc_Agents cfg) of
        Some d \<Rightarrow> d
      | None \<Rightarrow> (case first_enabled_agent (rc_Agents cfg) of Some d \<Rightarrow> d | None \<Rightarrow> default_agent_id))"

definition pick_agent_id :: "route_config \<Rightarrow> string \<Rightarrow> string" where
  "pick_agent_id cfg agent_id =
     (let trimmed = trim_space agent_id in
      if trimmed = [] then normalize_agent_id (resolve_default_agent_id cfg)
      else let normalized = normalize_agent_id trimmed in
      if rc_Agents cfg = [] then normalized
      else if \<exists>a \<in> set (rc_Agents cfg). normalize_agent_id (ra_ID a) = normalized then normalized
      else normalize_agent_id (resolve_default_agent_id cfg))"

definition choose_route :: "route_config \<Rightarrow> route_input \<Rightarrow> string \<Rightarrow> string \<Rightarrow> resolved_route" where
  "choose_route cfg input agent_id matched_by =
     (let channel = to_lower (trim_space (ri_Channel input));
          account = normalize_account_id (ri_AccountID input);
          agent = pick_agent_id cfg agent_id in
      \<lparr>rr_AgentID = agent, rr_Channel = channel, rr_AccountID = account,
       rr_SessionKey = to_lower (build_agent_peer_session_key
         \<lparr>kp_AgentID = agent, kp_Channel = channel, kp_AccountID = account, kp_Peer = ri_Peer input,
          kp_DMScope = (if rc_DMScope cfg = [] then dm_scope_main else rc_DMScope cfg),
          kp_IdentityLinks = rc_IdentityLinks cfg\<rparr>),
       rr_MainSessionKey = to_lower (build_agent_main_session_key agent),
       rr_MatchedBy = matched_by\<rparr>)"

definition peer_given :: "route_peer option \<Rightarrow> bool" where
  "peer_given peer = (case peer of None \<Rightarrow> False | Some p \<Rightarrow> trim_space (rp_ID p) \<noteq> [])"

definition resolve_route :: "route_config \<Rightarrow> route_input \<Rightarrow> resolved_route" where
  "resolve_route cfg input =
     (let channel = to_lower (trim_space (ri_Channel input));
          account = normalize_account_id (ri_AccountID input);
          bindings = filter_bindings channel account (rc_Bindings cfg);
          chosen = choose_route cfg input;
          by_peer = (\<lambda>peer. if peer_given peer then find_peer_match bindings (the peer) else None);
          guild = trim_space (ri_GuildID input);
          team = trim_space (ri_TeamID input) in
      case by_peer (ri_Peer input) of
        Some b \<Rightarrow> chosen (ab_AgentID b) ''binding.peer''
      | None \<Rightarrow>
      (case by_peer (ri_ParentPeer input) of
        Some b \<Rightarrow> chosen (ab_AgentID b) ''binding.peer.parent''
      | None \<Rightarrow>
      (case (if guild \<noteq> [] then find_guild_match bindings guild else None) of
        Some b \<Rightarrow> chosen (ab_AgentID b) ''binding.guild''
      | None \<Rightarrow>
      (case (if team \<noteq> [] then find_team_match bindings team else None) of
        Some b \<Rightarrow> chosen (ab_AgentID b) ''binding.team''
      | None \<Rightarrow>
      (case find_account_match bindings of
        Some b \<Rightarrow> chosen (ab_AgentID b) ''binding.account''
      | None \<Rightarrow>
      (case find_channel_wildcard_match bindings of
        Some b \<Rightarrow> chosen (ab_AgentID b) ''binding.channel''
      | None \<Rightarrow> chosen (resolve_default_agent_id cfg) ''default''))))))"

section \<open>The cascade by tiers\<close>

text \<open>What a binding must say to be used for a message, tier by tier, most specific first.\<close>

definition eligible :: "route_input \<Rightarrow> agent_binding \<Rightarrow> bool" where
  "eligible input b \<longleftrightarrow> to_lower (trim_space (bm_Channel (ab_Match b))) \<noteq> [] \<and>
     to_lower (trim_space (bm_Channel (ab_Match b))) = to_lower (trim_space (ri_Channel input)) \<and>
     matches_account_id (bm_AccountID (ab_Match b)) (normalize_account_id (ri_AccountID input))"

definition names_peer :: "route_peer option \<Rightarrow> agent_binding \<Rightarrow> bool" where
  "names_peer peer b =
     (case (peer, bm_Peer (ab_Match b)) of
        (Some p, Some m) \<Rightarrow> trim_space (rp_ID p) \<noteq> [] \<and> trim_space (pm_Kind m) \<noteq> [] \<and>
          to_lower (trim_space (pm_Kind m)) = to_lower (rp_Kind p) \<and> trim_space (pm_ID m) = rp_ID p
      | _ \<Rightarrow> False)"

definition only_account :: "agent_binding \<Rightarrow> bool" where
  "only_account b \<longleftrightarrow> bm_Peer (ab_Match b) = None \<and> bm_GuildID (ab_Match b) = [] \<and> bm_TeamID (ab_Match b) = []"

definition tiers :: "route_input \<Rightarrow> (string \<times> (agent_binding \<Rightarrow> bool)) list" where
  "tiers input =
     [(''binding.peer'', names_peer (ri_Peer input)),
      (''binding.peer.parent'', names_peer (ri_ParentPeer input)),
      (''binding.guild'', \<lambda>b. trim_space (ri_GuildID input) \<noteq> [] \<and> trim_space (bm_GuildID (ab_Match b)) = trim_space (ri_GuildID input)),
      (''binding.team'', \<lambda>b. trim_space (ri_TeamID input) \<noteq> [] \<and> trim_space (bm_TeamID (ab_Match b)) = trim_space (ri_TeamID input)),
      (''binding.account'', \<lambda>b. only_account b \<and> trim_space (bm_AccountID (ab_Match b)) \<noteq> ''*''),
      (''binding.channel'', \<lambda>b. only_account b \<and> trim_space (bm_AccountID (ab_Match b)) = ''*'')]"

fun first_tier :: "(string \<times> (agent_binding \<Rightarrow> bool)) list \<Rightarrow> agent_binding list \<Rightarrow> (string \<times> agent_binding) option" where
  "first_tier [] bs = None"
| "first_tier ((n, P) # ts) bs = (case find P bs of Some b \<Rightarrow> Some (n, b) | None \<Rightarrow> first_tier ts bs)"

lemma filter_bindings_eligible:
  "filter_bindings (to_lower (trim_space (ri_Channel input))) (normalize_account_id (ri_AccountID input)) bs =
   filter (eligible input) bs"
  by (induction bs) (auto simp: eligible_def Let_def)

lemma find_peer_match_tier:
  "(if peer_given peer then find_peer_match bs (the peer) else None) = find (names_peer peer) bs"
proof (cases "peer_given peer")
  case True
  then obtain p where p: "peer = Some p" "trim_space (rp_ID p) \<noteq> []" by (auto simp: peer_given_def split: option.splits)
  then have "rp_ID p \<noteq> []" by auto
  then have "find_peer_match bs p = find (names_peer peer) bs"
    by (induction bs) (auto simp: names_peer_def p Let_def split: option.split)
  with True p show ?thesis by simp
next
  case False
  then have "\<not> names_peer peer b" for b by (auto simp: peer_given_def names_peer_def split: option.splits)
  then show ?thesis using False by (induction bs) simp_all
qed

lemma find_guild_tier:
  "(if g \<noteq> [] then find_guild_match bs g else None) = find (\<lambda>b. g \<noteq> [] \<and> trim_space (bm_GuildID (ab_Match b)) = g) bs"
  by (induction bs) (auto simp: Let_def split: if_splits)

lemma find_team_tier:
  "(if g \<noteq> [] then find_team_match bs g else None) = find (\<lambda>b. g \<noteq> [] \<and> trim_space (bm_TeamID (ab_Match b)) = g) bs"
  by (induction bs) (auto simp: Let_def split: if_splits)

lemma find_account_tier:
  "find_account_match bs = find (\<lambda>b. only_account b \<and> trim_space (bm_AccountID (ab_Match b)) \<noteq> ''*'') bs"
  by (induction bs) (auto simp: only_account_def)

lemma find_channel_tier:
  "find_channel_wildcard_match bs = find (\<lambda>b. only_account b \<and> trim_space (bm_AccountID (ab_Match b)) = ''*'') bs"
  by (induction bs) (auto simp: only_account_def)

lemma resolve_route_tiers:
  "resolve_route cfg input =
     (case first_tier (tiers input) (filter (eligible input) (rc_Bindings cfg)) of
        Some (n, b) \<Rightarrow> choose_route cfg input (ab_AgentID b) n
      | None \<Rightarrow> choose_route cfg input (resolve_default_agent_id cfg) ''default'')"
  unfolding resolve_route_def Let_def filter_bindings_eligible find_peer_match_tier find_guild_tier find_team_tier
    find_account_tier find_channel_tier tiers_def
  by (simp split: option.split)

lemma first_tier_Some:
  "first_tier ts (filter E bs) = Some (n, b) \<Longrightarrow>
     \<exists>k i. k < length ts \<and> i < length bs \<and> bs ! i = b \<and> fst (ts ! k) = n \<and> E b \<and> snd (ts ! k) b \<and>
       (\<forall>j<i. \<not> (E (bs ! j) \<and> snd (ts ! k) (bs ! j))) \<and>
       (\<forall>k'<k. \<forall>c \<in> set bs. \<not> (E c \<and> snd (ts ! k') c))"
proof (induction ts)
  case (Cons t ts)
  obtain m P where t: "t = (m, P)" by (cases t)
  have ff: "find P (filter E bs) = find (\<lambda>b. E b \<and> P b) bs" by (induction bs) auto
  show ?case
  proof (cases "find P (filter E bs)")
    case None
    then have "\<forall>c \<in> set bs. \<not> (E c \<and> P c)" unfolding ff find_None_iff by blast
    moreover from Cons.prems None have "first_tier ts (filter E bs) = Some (n, b)" by (simp add: t)
    from Cons.IH [OF this] obtain k i where "k < length ts" "i < length bs" "bs ! i = b" "fst (ts ! k) = n" "E b"
      "snd (ts ! k) b" "\<forall>j<i. \<not> (E (bs ! j) \<and> snd (ts ! k) (bs ! j))"
      "\<forall>k'<k. \<forall>c \<in> set bs. \<not> (E c \<and> snd (ts ! k') c)" by blast
    ultimately show ?thesis
      by (intro exI [of _ "Suc k"] exI [of _ i]) (auto simp: t less_Suc_eq_0_disj)
  next
    case (Some c)
    with Cons.prems have "c = b" "m = n" by (simp_all add: t)
    from Some [unfolded ff find_Some_iff] obtain i where
      i: "i < length bs" "E (bs ! i)" "P (bs ! i)" "c = bs ! i" "\<forall>j<i. \<not> (E (bs ! j) \<and> P (bs ! j))" by blast
    with \<open>c = b\<close> \<open>m = n\<close> show ?thesis by (intro exI [of _ 0] exI [of _ i]) (simp add: t)
  qed
qed simp

lemma first_tier_None:
  "first_tier ts (filter E bs) = None \<Longrightarrow> (n, P) \<in> set ts \<Longrightarrow> c \<in> set bs \<Longrightarrow> \<not> (E c \<and> P c)"
  by (induction ts) (auto split: option.splits simp: find_None_iff)

text \<open>
  C17. The routing cascade. Either some binding of the configuration serves a message: then it is
  the first one, in configured order, of the first tier (peer, parent peer, guild, team, account,
  channel) in which any binding for this channel and account matches, and it names the agent; or no
  binding matches in any tier, and the default agent answers.
\<close>

theorem route_cascade:
  "(\<exists>k i. let ts = tiers input; bs = rc_Bindings cfg; serves = (\<lambda>k b. eligible input b \<and> snd (ts ! k) b) in
      k < length ts \<and> i < length bs \<and> serves k (bs ! i) \<and>
      list_all (\<lambda>b. \<not> serves k b) (take i bs) \<and>
      list_all (\<lambda>k'. list_all (\<lambda>b. \<not> serves k' b) bs) [0..<k] \<and>
      resolve_route cfg input = choose_route cfg input (ab_AgentID (bs ! i)) (fst (ts ! k))) \<or>
   (list_all (\<lambda>t. list_all (\<lambda>b. \<not> (eligible input b \<and> snd t b)) (rc_Bindings cfg)) (tiers input) \<and>
    resolve_route cfg input = choose_route cfg input (resolve_default_agent_id cfg) ''default'')"
proof (cases "first_tier (tiers input) (filter (eligible input) (rc_Bindings cfg))")
  case None
  have "\<not> (eligible input b \<and> snd t b)" if "t \<in> set (tiers input)" "b \<in> set (rc_Bindings cfg)" for t b
    using first_tier_None [OF None, of "fst t" "snd t" b] that by simp
  then show ?thesis by (intro disjI2) (simp add: resolve_route_tiers list_all_iff None)
next
  case (Some nb)
  obtain n b where nb: "nb = (n, b)" by (cases nb)
  from first_tier_Some [OF Some [unfolded nb]] obtain k i where
    ki: "k < length (tiers input)" "i < length (rc_Bindings cfg)" "rc_Bindings cfg ! i = b" "fst (tiers input ! k) = n"
      "eligible input b" "snd (tiers input ! k) b"
      "\<forall>j<i. \<not> (eligible input (rc_Bindings cfg ! j) \<and> snd (tiers input ! k) (rc_Bindings cfg ! j))"
      "\<forall>k'<k. \<forall>c \<in> set (rc_Bindings cfg). \<not> (eligible input c \<and> snd (tiers input ! k') c)" by blast
  have "list_all (\<lambda>b. \<not> (eligible input b \<and> snd (tiers input ! k) b)) (take i (rc_Bindings cfg))"
    using ki(2,7) by (auto simp: list_all_length)
  moreover have "resolve_route cfg input = choose_route cfg input (ab_AgentID b) n"
    by (simp add: resolve_route_tiers Some nb)
  ultimately show ?thesis
    using ki by (intro disjI1 exI [of _ k] exI [of _ i]) (auto simp: Let_def list_all_iff)
qed


text \<open>The agent a route names.\<close>

lemma default_agent_known:
  "first_default_agent agents = Some d \<Longrightarrow> \<exists>a \<in> set agents. is_active a \<and> d = normalize_agent_id (trim_space (ra_ID a))"
  "first_enabled_agent agents = Some d \<Longrightarrow> \<exists>a \<in> set agents. is_active a \<and> d = normalize_agent_id (trim_space (ra_ID a))"
  by (induction agents) (auto split: if_splits)

lemma no_enabled_agent:
  "first_enabled_agent agents = None \<Longrightarrow> a \<in> set agents \<Longrightarrow> is_active a \<Longrightarrow> trim_space (ra_ID a) = []"
  by (induction agents) (auto split: if_splits)

lemma normalize_trimmed: "normalize_agent_id (trim_space s) = normalize_agent_id s"
  by (simp add: normalize_agent_id_def sanitize_id_def)

definition agent_ids :: "route_config \<Rightarrow> string list" where
  "agent_ids cfg = map (\<lambda>a. normalize_agent_id (ra_ID a)) (rc_Agents cfg)"

text \<open>
  Who can answer. With agents configured, a route names the normalised id of one of them, or the
  normalisation of such an id, or the built-in agent, the last only when every active agent has a
  blank id. A binding to an agent that is switched off is obeyed; only the default is checked.
\<close>

theorem routed_agent_known:
  "(rc_Agents cfg = [] \<or>
    rr_AgentID (resolve_route cfg input) \<in> set (agent_ids cfg) \<union> normalize_agent_id ` set (agent_ids cfg) \<or>
    (rr_AgentID (resolve_route cfg input) = default_agent_id \<and>
      list_all (\<lambda>a. if is_active a then trim_space (ra_ID a) = [] else True) (rc_Agents cfg))) \<and>
   rr_AgentID (resolve_route
     \<lparr>rc_Bindings = [\<lparr>ab_AgentID = ''off'', ab_Match =
          \<lparr>bm_Channel = ''telegram'', bm_AccountID = ''*'', bm_Peer = None, bm_GuildID = [], bm_TeamID = []\<rparr>\<rparr>],
      rc_Agents = [\<lparr>ra_ID = ''off'', ra_Default = False, ra_Enabled = Some False\<rparr>,
        \<lparr>ra_ID = ''on'', ra_Default = True, ra_Enabled = None\<rparr>], rc_DMScope = [], rc_IdentityLinks = []\<rparr>
     \<lparr>ri_Channel = ''telegram'', ri_AccountID = [], ri_Peer = None, ri_ParentPeer = None, ri_GuildID = [], ri_TeamID = []\<rparr>) =
     ''off''"
proof (intro conjI)
  let ?d = "resolve_default_agent_id cfg"
  have d: "?d \<in> set (agent_ids cfg) \<or>
      (?d = default_agent_id \<and> list_all (\<lambda>a. if is_active a then trim_space (ra_ID a) = [] else True) (rc_Agents cfg))"
    using default_agent_known [of "rc_Agents cfg"] no_enabled_agent [of "rc_Agents cfg"]
    by (auto simp: resolve_default_agent_id_def agent_ids_def normalize_trimmed list_all_iff split: option.splits)
  have n: "normalize_agent_id default_agent_id = default_agent_id" by code_simp
  have c: "(\<lambda>a. if is_active a then trim_space (ra_ID a) = [] else True) = (\<lambda>a. is_active a \<longrightarrow> trim_space (ra_ID a) = [])"
    by auto
  have p: "pick_agent_id cfg x \<in> set (agent_ids cfg) \<or> pick_agent_id cfg x = normalize_agent_id ?d \<or> rc_Agents cfg = []" for x
    by (auto simp: pick_agent_id_def Let_def agent_ids_def intro: rev_image_eqI sym)
  have "\<exists>x. rr_AgentID (resolve_route cfg input) = pick_agent_id cfg x"
    by (auto simp: resolve_route_tiers choose_route_def Let_def split: option.split)
  then obtain x where "rr_AgentID (resolve_route cfg input) = pick_agent_id cfg x" by blast
  then show "rc_Agents cfg = [] \<or>
    rr_AgentID (resolve_route cfg input) \<in> set (agent_ids cfg) \<union> normalize_agent_id ` set (agent_ids cfg) \<or>
    (rr_AgentID (resolve_route cfg input) = default_agent_id \<and>
      list_all (\<lambda>a. if is_active a then trim_space (ra_ID a) = [] else True) (rc_Agents cfg))"
    using p [of x] d n unfolding c by auto
qed code_simp

end
