(* ===== verification/Model_Router.thy ===== *)
theory Model_Router
  imports Runes
begin

text \<open>
  Model routing by complexity (pkg/routing: features.go, classifier.go, router.go): the features of
  a message, the rule classifier and the choice of the light or the primary model. A message is its
  runes; a history entry is represented by the number of its tool calls, the only thing the features
  read. Scores are whole hundredths (the weights are), so the rounding of float64 sums is not
  modelled; the threshold is a real number. \<open>Classifier\<close> is the function argument of the router.
\<close>

section \<open>Features\<close>

definition lookback_window :: int where "lookback_window = 6"

record features =
  ft_TokenEstimate :: int
  ft_CodeBlockCount :: int
  ft_RecentToolCalls :: int
  ft_ConversationDepth :: int
  ft_HasAttachments :: bool

definition between :: "int \<Rightarrow> int \<Rightarrow> int \<Rightarrow> bool" where
  "between low high r \<longleftrightarrow> low \<le> r \<and> r \<le> high"

definition is_cjk :: "rune \<Rightarrow> bool" where
  "is_cjk r \<longleftrightarrow> between 0x2E80 0x9FFF r \<or> between 0xF900 0xFAFF r \<or> between 0xAC00 0xD7AF r"

definition estimate_tokens :: "rune list \<Rightarrow> int" where
  "estimate_tokens msg =
     (let total = int (length msg) in
      if total = 0 then 0
      else let cjk = int (length (filter is_cjk msg)) in cjk + (total - cjk) div 4)"

fun count_fences :: "rune list \<Rightarrow> int" where
  "count_fences (x # y # z # msg) =
     (if x = 96 \<and> y = 96 \<and> z = 96 then 1 + count_fences msg else count_fences (y # z # msg))"
| "count_fences _ = 0"

definition count_code_blocks :: "rune list \<Rightarrow> int" where
  "count_code_blocks msg = count_fences msg div 2"

definition count_recent_tool_calls :: "nat list \<Rightarrow> int" where
  "count_recent_tool_calls history =
     (let start = int (length history) - lookback_window; start = (if start < 0 then 0 else start) in
      int (sum_list (drop (nat start) history)))"

definition media_exts :: "string list" where
  "media_exts =
     [''.jpg'', ''.jpeg'', ''.png'', ''.gif'', ''.webp'', ''.bmp'', ''.mp3'', ''.wav'', ''.ogg'', ''.m4a'', ''.flac'',
      ''.mp4'', ''.avi'', ''.mov'', ''.webm'']"

definition contains_text :: "rune list \<Rightarrow> string \<Rightarrow> bool" where
  "contains_text msg s \<longleftrightarrow> index_of msg (runes s) \<noteq> None"

definition has_attachments :: "(rune \<Rightarrow> rune) \<Rightarrow> rune list \<Rightarrow> bool" where
  "has_attachments tbl msg =
     (let lower = map (lower_rune tbl) msg in
      if contains_text lower ''data:image/'' \<or> contains_text lower ''data:audio/'' \<or> contains_text lower ''data:video/''
      then True
      else list_ex (contains_text lower) media_exts)"

definition extract_features :: "(rune \<Rightarrow> rune) \<Rightarrow> rune list \<Rightarrow> nat list \<Rightarrow> features" where
  "extract_features tbl msg history =
     \<lparr>ft_TokenEstimate = estimate_tokens msg, ft_CodeBlockCount = count_code_blocks msg,
      ft_RecentToolCalls = count_recent_tool_calls history, ft_ConversationDepth = int (length history),
      ft_HasAttachments = has_attachments tbl msg\<rparr>"

section \<open>Classifier and router\<close>

definition rule_score :: "features \<Rightarrow> int" where
  "rule_score f =
     (if ft_HasAttachments f then 100
      else let score = 0;
        score = score + (if ft_TokenEstimate f > 200 then 35 else if ft_TokenEstimate f > 50 then 15 else 0);
        score = score + (if ft_CodeBlockCount f > 0 then 40 else 0);
        score = score + (if ft_RecentToolCalls f > 3 then 25 else if ft_RecentToolCalls f > 0 then 10 else 0);
        score = score + (if ft_ConversationDepth f > 10 then 10 else 0)
      in if score > 100 then 100 else score)"

definition default_threshold :: real where "default_threshold = 35 / 100"

record router =
  ro_LightModel :: string
  ro_Threshold :: real
  ro_classifier :: "features \<Rightarrow> int"

definition new_with_classifier :: "string \<Rightarrow> real \<Rightarrow> (features \<Rightarrow> int) \<Rightarrow> router" where
  "new_with_classifier light threshold c =
     \<lparr>ro_LightModel = light, ro_Threshold = (if threshold \<le> 0 then default_threshold else threshold), ro_classifier = c\<rparr>"

definition new_router :: "string \<Rightarrow> real \<Rightarrow> router" where
  "new_router light threshold =
     \<lparr>ro_LightModel = light, ro_Threshold = (if threshold \<le> 0 then default_threshold else threshold),
      ro_classifier = rule_score\<rparr>"

definition select_model :: "(rune \<Rightarrow> rune) \<Rightarrow> router \<Rightarrow> rune list \<Rightarrow> nat list \<Rightarrow> string \<Rightarrow> string \<times> bool \<times> int" where
  "select_model tbl r msg history primary =
     (let features = extract_features tbl msg history; score = ro_classifier r features in
      if real_of_int score / 100 < ro_Threshold r then (ro_LightModel r, True, score) else (primary, False, score))"

section \<open>Properties\<close>

definition at_most_as_complex :: "features \<Rightarrow> features \<Rightarrow> bool" where
  "at_most_as_complex f g \<longleftrightarrow> ft_TokenEstimate f \<le> ft_TokenEstimate g \<and> ft_CodeBlockCount f \<le> ft_CodeBlockCount g \<and>
     ft_RecentToolCalls f \<le> ft_RecentToolCalls g \<and> ft_ConversationDepth f \<le> ft_ConversationDepth g \<and>
     (if ft_HasAttachments f then ft_HasAttachments g else True)"

lemma rule_score_bounds: "0 \<le> rule_score f \<and> rule_score f \<le> 100"
  by (simp add: rule_score_def)

lemma rule_score_mono: "at_most_as_complex f g \<Longrightarrow> rule_score f \<le> rule_score g"
  by (simp add: rule_score_def at_most_as_complex_def)

lemma share_bounds: "0 \<le> c \<Longrightarrow> c \<le> t \<Longrightarrow> 0 \<le> c + (t - c) div 4 \<and> c + (t - c) div 4 \<le> (t::int)"
  by presburger

lemma estimate_bounds: "0 \<le> estimate_tokens msg \<and> estimate_tokens msg \<le> int (length msg)"
proof (cases "msg = []")
  case False
  have "0 \<le> int (length (filter is_cjk msg))" "int (length (filter is_cjk msg)) \<le> int (length msg)"
    by simp_all
  from share_bounds [OF this] show ?thesis
    unfolding estimate_tokens_def Let_def of_nat_eq_0_iff length_0_conv if_not_P [OF False] .
qed (simp add: estimate_tokens_def)

lemma fences_bound: "0 \<le> count_fences msg \<and> 3 * count_fences msg \<le> int (length msg)"
  by (induction msg rule: count_fences.induct) auto

text \<open>
  The model choice is monotone: when a router with the rule classifier takes the light model for
  a message, it takes it for every message with at most the same features, and the scores stay in
  [0, 1]; attachments always get the primary model unless the threshold is above one. With the
  default threshold a medium message after four recent tool calls scores 0.40 and gets the primary
  model.
\<close>

theorem model_choice_monotone:
  assumes "at_most_as_complex (extract_features tbl msg history) (extract_features tbl msg' history')"
    and "fst (snd (select_model tbl (new_router light threshold) msg' history' primary))"
  shows "select_model tbl (new_router light threshold) msg history primary =
      (light, True, rule_score (extract_features tbl msg history)) \<and>
    0 \<le> rule_score (extract_features tbl msg history) \<and>
    rule_score (extract_features tbl msg history) \<le> rule_score (extract_features tbl msg' history') \<and>
    rule_score (extract_features tbl msg' history') \<le> 100 \<and>
    (\<not> has_attachments tbl msg' \<or> threshold > 1) \<and>
    rule_score \<lparr>ft_TokenEstimate = 60, ft_CodeBlockCount = 0, ft_RecentToolCalls = 4, ft_ConversationDepth = 5,
      ft_HasAttachments = False\<rparr> = 40"
proof -
  let ?f = "extract_features tbl msg history" and ?g = "extract_features tbl msg' history'"
  let ?t = "if threshold \<le> 0 then default_threshold else threshold"
  have m: "rule_score ?f \<le> rule_score ?g" using assms(1) by (rule rule_score_mono)
  have g: "real_of_int (rule_score ?g) / 100 < ?t"
    using assms(2) by (simp add: select_model_def new_router_def Let_def split: if_splits)
  have "real_of_int (rule_score ?f) / 100 \<le> real_of_int (rule_score ?g) / 100" using m by simp
  with g have f: "real_of_int (rule_score ?f) / 100 < ?t" by linarith
  have a: "\<not> has_attachments tbl msg' \<or> threshold > 1"
    using g by (auto simp: rule_score_def extract_features_def default_threshold_def split: if_splits)
  have "rule_score \<lparr>ft_TokenEstimate = 60, ft_CodeBlockCount = 0, ft_RecentToolCalls = 4, ft_ConversationDepth = 5,
      ft_HasAttachments = False\<rparr> = 40" by (simp add: rule_score_def)
  with m f a rule_score_bounds [of ?f] rule_score_bounds [of ?g] show ?thesis
    by (simp add: select_model_def new_router_def Let_def)
qed

theorem model_choice_monotone_witness:
  "select_model (\<lambda>r. r) (new_router ''light'' 0) (runes ''hi'') [0] ''big'' = (''light'', True, 0)"
proof -
  let ?f = "extract_features (\<lambda>r. r) (runes ''hi'') [0]" and ?g = "extract_features (\<lambda>r. r) (runes ''hello'') [1, 0]"
  have "at_most_as_complex ?f ?g" "rule_score ?g = 10" "rule_score ?f = 0" by code_simp+
  moreover have "fst (snd (select_model (\<lambda>r. r) (new_router ''light'' 0) (runes ''hello'') [1, 0] ''big''))"
    using \<open>rule_score ?g = 10\<close> by (simp add: select_model_def new_router_def default_threshold_def Let_def)
  ultimately show ?thesis
    using model_choice_monotone [of "\<lambda>r. r" "runes ''hi''" "[0]" "runes ''hello''" "[1, 0]" "''light''" 0 "''big''"] by simp
qed

end
