(* ===== verification/Tool_Compositor.thy ===== *)
theory Tool_Compositor
  imports Policy "HOL-Library.List_Lexorder" "HOL-Library.Product_Lexorder"
begin

text \<open>
  The runtime tool filter (pkg/tools/compositor.go), the policies its callers give it (the agent
  loop through pkg/agent/instance.go, the REST view of pkg/gateway/rest_tool_registry.go, the
  WebSocket hook of pkg/gateway/websocket.go) and the re-check before a tool runs (pkg/agent/loop.go).
  A tool is its name, scope and admin flag. Metrics, audit rows and the MCP adapter are not modelled.
\<close>

section \<open>Resolution\<close>

type_synonym policy_map = "(string, string) gomap"

record tool =
  tl_Name :: string
  tl_Scope :: string
  tl_RequiresAdminAsk :: bool
  tl_IsMCP :: bool

definition scope_core :: string where "scope_core = ''core''"
definition scope_general :: string where "scope_general = ''general''"

definition passes_scope_gate :: "string \<Rightarrow> string \<Rightarrow> bool" where
  "passes_scope_gate scope agent_type =
     (if scope = scope_core then agent_type = ''core'' else if scope = scope_general then True else False)"

record wildcard_entry =
  we_prefix :: string
  we_segments :: int
  we_policy :: string

definition dots :: "string \<Rightarrow> int" where
  "dots s = int (length (filter (\<lambda>c. c = CHR ''.'') s))"

definition wildcard_entries :: "policy_map \<Rightarrow> wildcard_entry list" where
  "wildcard_entries policies =
     map (\<lambda>(k, v). let p = take (length k - 2) k in \<lparr>we_prefix = p, we_segments = dots p + 1, we_policy = v\<rparr>)
       (filter (\<lambda>(k, v). suffix ''.*'' k) policies)"

text \<open>The order of \<open>sort.Slice\<close>: more segments, then longer, then smaller.\<close>

definition build_wildcard_index :: "policy_map \<Rightarrow> wildcard_entry list" where
  "build_wildcard_index policies =
     sort_key (\<lambda>w. (- we_segments w, - int (length (we_prefix w)), we_prefix w)) (wildcard_entries policies)"

definition wildcard_matches :: "string \<Rightarrow> wildcard_entry \<Rightarrow> bool" where
  "wildcard_matches tool_name w \<longleftrightarrow> prefix (we_prefix w @ ''.'') tool_name \<or> tool_name = we_prefix w"

definition resolve_from_map :: "string \<Rightarrow> policy_map \<Rightarrow> wildcard_entry list \<Rightarrow> string" where
  "resolve_from_map tool_name policies wildcards =
     (case map_of policies tool_name of
        Some p \<Rightarrow> p
      | None \<Rightarrow> (case find (wildcard_matches tool_name) wildcards of Some w \<Rightarrow> we_policy w | None \<Rightarrow> []))"

record tool_policy_cfg =
  tp_DefaultPolicy :: string
  tp_Policies :: policy_map
  tp_GlobalPolicies :: policy_map
  tp_GlobalDefaultPolicy :: string
  tp_IsCoreAgent :: bool

definition or_allow :: "string \<Rightarrow> string" where
  "or_allow p = (if p = [] then ''allow'' else p)"

definition strictest :: "string \<Rightarrow> string \<Rightarrow> string" where
  "strictest g a =
     (if g = ''deny'' \<or> a = ''deny'' then ''deny'' else if g = ''ask'' \<or> a = ''ask'' then ''ask'' else ''allow'')"

definition resolve_or_default :: "string \<Rightarrow> policy_map \<Rightarrow> string \<Rightarrow> string" where
  "resolve_or_default tool_name policies d =
     (let p = resolve_from_map tool_name policies (build_wildcard_index policies) in if p \<noteq> [] then p else or_allow d)"

definition resolve_effective_policy :: "tool_policy_cfg option \<Rightarrow> string \<Rightarrow> string" where
  "resolve_effective_policy cfg tool_name =
     (case cfg of
        None \<Rightarrow> ''allow''
      | Some cfg \<Rightarrow>
          strictest (resolve_or_default tool_name (tp_GlobalPolicies cfg) (tp_GlobalDefaultPolicy cfg))
            (resolve_or_default tool_name (tp_Policies cfg) (tp_DefaultPolicy cfg)))"

definition allow_all_cfg :: tool_policy_cfg where
  "allow_all_cfg = \<lparr>tp_DefaultPolicy = ''allow'', tp_Policies = [], tp_GlobalPolicies = [], tp_GlobalDefaultPolicy = [],
     tp_IsCoreAgent = False\<rparr>"

fun filter_tools :: "tool list \<Rightarrow> string \<Rightarrow> tool_policy_cfg \<Rightarrow> tool list \<times> policy_map \<Rightarrow> tool list \<times> policy_map" where
  "filter_tools [] agent_type cfg acc = acc"
| "filter_tools (t # ts) agent_type cfg (out, pm) =
     (let scope = tl_Scope t; resolve = resolve_effective_policy (Some cfg) in
      if scope = scope_core \<and> \<not> passes_scope_gate scope agent_type \<and> resolve (tl_Name t) = ''deny''
      then filter_tools ts agent_type cfg (out, pm)
      else if scope \<noteq> scope_core \<and> \<not> passes_scope_gate scope agent_type
      then filter_tools ts agent_type cfg (out, pm)
      else let effective = resolve (tl_Name t) in
      if effective = ''deny'' then filter_tools ts agent_type cfg (out, pm)
      else let (effective, applied) = apply_admin_ask_fence effective (tl_Name t) agent_type
          (Some (\<lambda>_. tl_RequiresAdminAsk t)) (Some (\<lambda>_. tp_IsCoreAgent cfg)) in
        filter_tools ts agent_type cfg (out @ [t], AList.update (tl_Name t) effective pm))"

definition filter_tools_by_policy :: "tool list \<Rightarrow> string \<Rightarrow> tool_policy_cfg option \<Rightarrow> tool list \<times> policy_map" where
  "filter_tools_by_policy all_tools agent_type cfg =
     filter_tools all_tools agent_type (case cfg of None \<Rightarrow> allow_all_cfg | Some c \<Rightarrow> c) ([], [])"

section \<open>The policies of the callers\<close>

text \<open>\<open>config.AgentToolsCfg\<close>: its builtin part.\<close>

record agent_tools_cfg =
  at_DefaultPolicy :: string
  at_Policies :: policy_map

definition agent_tools_cfg_to_policy :: "agent_tools_cfg option \<Rightarrow> tool_policy_cfg" where
  "agent_tools_cfg_to_policy cfg =
     (case cfg of
        None \<Rightarrow> allow_all_cfg
      | Some c \<Rightarrow> allow_all_cfg\<lparr>tp_DefaultPolicy := or_allow (at_DefaultPolicy c), tp_Policies := at_Policies c\<rparr>)"

definition tools_cfg_to_policy :: "agent_tools_cfg option \<Rightarrow> tool_policy_cfg" where
  "tools_cfg_to_policy cfg =
     (case cfg of
        None \<Rightarrow> allow_all_cfg
      | Some c \<Rightarrow> allow_all_cfg\<lparr>tp_DefaultPolicy := or_allow (at_DefaultPolicy c), tp_Policies := at_Policies c\<rparr>)"

record sandbox_policies =
  sp_ToolPolicies :: policy_map
  sp_DefaultToolPolicy :: string

text \<open>What the REST view of an agent's tools filters with.\<close>

definition view_policy :: "sandbox_policies \<Rightarrow> agent_tools_cfg option \<Rightarrow> tool_policy_cfg" where
  "view_policy sb cfg =
     (let p = tools_cfg_to_policy cfg in
      if sp_ToolPolicies sb \<noteq> [] \<or> sp_DefaultToolPolicy sb \<noteq> []
      then p\<lparr>tp_GlobalPolicies := sp_ToolPolicies sb, tp_GlobalDefaultPolicy := sp_DefaultToolPolicy sb\<rparr>
      else p)"

definition view_tools :: "tool list \<Rightarrow> string \<Rightarrow> sandbox_policies \<Rightarrow> agent_tools_cfg option \<Rightarrow> tool list \<times> policy_map" where
  "view_tools all_tools agent_type sb cfg = filter_tools_by_policy all_tools agent_type (Some (view_policy sb cfg))"

text \<open>
  What the agent loop filters with: an agent without a tools section has no policy stored, and the
  sandbox section of the configuration is not consulted.
\<close>

definition loop_tools :: "tool list \<Rightarrow> string \<Rightarrow> sandbox_policies \<Rightarrow> agent_tools_cfg option \<Rightarrow> tool list \<times> policy_map" where
  "loop_tools all_tools agent_type sb cfg =
     filter_tools_by_policy all_tools agent_type (map_option (\<lambda>c. agent_tools_cfg_to_policy (Some c)) cfg)"

text \<open>The policy the WebSocket approval hook resolves.\<close>

definition resolve_policy :: "agent_tools_cfg option \<Rightarrow> string \<Rightarrow> string" where
  "resolve_policy cfg tool_name =
     (case cfg of
        None \<Rightarrow> ''allow''
      | Some c \<Rightarrow> (case map_of (at_Policies c) tool_name of
            Some p \<Rightarrow> p
          | None \<Rightarrow> if at_DefaultPolicy c \<noteq> [] then at_DefaultPolicy c else ''allow''))"

definition hook_policy :: "sandbox_policies \<Rightarrow> agent_tools_cfg option \<Rightarrow> string \<Rightarrow> string" where
  "hook_policy sb cfg tool_name =
     (let global = (case map_of (sp_ToolPolicies sb) tool_name of
          Some p \<Rightarrow> p
        | None \<Rightarrow> if sp_DefaultToolPolicy sb \<noteq> [] then sp_DefaultToolPolicy sb else ''allow'')
      in strictest global (resolve_policy cfg tool_name))"

section \<open>Before a tool runs\<close>

definition resolve_single_tool_policy :: "tool list \<Rightarrow> string \<Rightarrow> tool_policy_cfg option \<Rightarrow> string \<Rightarrow> string" where
  "resolve_single_tool_policy all_tools agent_type live tool_name =
     (case map_of (snd (filter_tools_by_policy all_tools agent_type live)) tool_name of
        None \<Rightarrow> ''deny''
      | Some p \<Rightarrow> p)"

definition resolve_tool_policy_at_exec ::
  "tool list \<Rightarrow> string \<Rightarrow> tool_policy_cfg option \<Rightarrow> string \<Rightarrow> policy_map \<Rightarrow> string" where
  "resolve_tool_policy_at_exec all_tools agent_type live tool_name filter_time =
     (case map_of filter_time tool_name of
        None \<Rightarrow> ''deny''
      | Some ftp \<Rightarrow>
          (let lp = resolve_single_tool_policy all_tools agent_type live tool_name in
           if lp = ''deny'' \<and> ftp \<noteq> ''deny'' then ''deny''
           else if lp = ''ask'' then ''ask''
           else if ftp = ''ask'' then ''ask''
           else ftp))"

fun check_tool_dedup :: "tool list \<Rightarrow> (string \<times> string) list \<Rightarrow> (string \<times> string \<times> string) option" where
  "check_tool_dedup [] seen = None"
| "check_tool_dedup (t # ts) seen =
     (let tag = (if tl_IsMCP t then ''mcp:unknown'' else ''builtin'') in
      case map_of seen (tl_Name t) of
        Some first \<Rightarrow> Some (tl_Name t, first, tag)
      | None \<Rightarrow> check_tool_dedup ts (AList.update (tl_Name t) tag seen))"

section \<open>The most specific wildcard\<close>

lemma wildcard_prefix_of: "wildcard_matches n w \<Longrightarrow> prefix (we_prefix w) n"
  by (auto simp: wildcard_matches_def prefix_def)

lemma dots_append [simp]: "dots (s @ t) = dots s + dots t"
  by (simp add: dots_def)

lemma dots_nonneg: "0 \<le> dots s"
  by (simp add: dots_def)

text \<open>Of two matching wildcards the longer one has more segments.\<close>

lemma longer_more_segments:
  assumes "wildcard_matches n v" and "wildcard_matches n w"
    and "length (we_prefix v) < length (we_prefix w)"
  shows "dots (we_prefix v) < dots (we_prefix w)"
proof -
  have "prefix (we_prefix v @ ''.'') n"
    using assms wildcard_prefix_of [OF assms(2)] prefix_length_le [of "we_prefix w" n]
    by (auto simp: wildcard_matches_def)
  then have "prefix (we_prefix v @ ''.'') (we_prefix w)"
    using wildcard_prefix_of [OF assms(2)] assms(3) by (auto intro: prefix_length_prefix)
  then obtain r where "we_prefix w = (we_prefix v @ ''.'') @ r" by (auto simp: prefix_def)
  then show ?thesis using dots_nonneg [of r] by (simp add: dots_def)
qed

lemma entries_segments: "w \<in> set (wildcard_entries policies) \<Longrightarrow> we_segments w = dots (we_prefix w) + 1"
  by (auto simp: wildcard_entries_def Let_def)

lemma entries_origin:
  "w \<in> set (wildcard_entries policies) \<longleftrightarrow>
     (we_prefix w @ ''.*'', we_policy w) \<in> set policies \<and> we_segments w = dots (we_prefix w) + 1"
proof
  assume "w \<in> set (wildcard_entries policies)"
  then obtain k v where kv: "(k, v) \<in> set policies" "suffix ''.*'' k"
    "w = \<lparr>we_prefix = take (length k - 2) k, we_segments = dots (take (length k - 2) k) + 1, we_policy = v\<rparr>"
    by (auto simp: wildcard_entries_def Let_def)
  moreover have "take (length k - 2) k @ ''.*'' = k" using kv(2) by (auto simp: suffix_def)
  ultimately show "(we_prefix w @ ''.*'', we_policy w) \<in> set policies \<and> we_segments w = dots (we_prefix w) + 1" by simp
next
  assume a: "(we_prefix w @ ''.*'', we_policy w) \<in> set policies \<and> we_segments w = dots (we_prefix w) + 1"
  have "suffix ''.*'' (we_prefix w @ ''.*'')" by (rule suffixI) (rule refl)
  with a show "w \<in> set (wildcard_entries policies)"
    unfolding wildcard_entries_def set_map set_filter
    by (intro image_eqI [of _ _ "(we_prefix w @ ''.*'', we_policy w)"]) (auto simp: Let_def)
qed

lemma find_sorted_min:
  assumes "find P (sort_key f xs) = Some x"
  shows "x \<in> set xs \<and> P x \<and> (\<forall>y \<in> set xs. P y \<longrightarrow> f x \<le> f y)"
proof -
  obtain i where i: "i < length (sort_key f xs)" "P (sort_key f xs ! i)" "x = sort_key f xs ! i"
    "\<forall>j<i. \<not> P (sort_key f xs ! j)" using assms by (auto simp: find_Some_iff)
  have "f x \<le> f y" if "y \<in> set xs" "P y" for y
  proof -
    obtain j where j: "j < length (sort_key f xs)" "y = sort_key f xs ! j"
      using \<open>y \<in> set xs\<close> by (metis in_set_conv_nth set_sort)
    with i that have "i \<le> j" by (metis not_less)
    moreover have "sorted (map f (sort_key f xs))" by (rule sorted_sort_key)
    ultimately show ?thesis using i(1,3) j by (simp add: sorted_iff_nth_mono)
  qed
  moreover have "x \<in> set xs" using i(1,3) by (metis nth_mem set_sort)
  ultimately show ?thesis using i(2,3) by blast
qed

lemma best_wildcard:
  assumes "find (wildcard_matches n) (build_wildcard_index policies) = Some w"
  shows "w \<in> set (wildcard_entries policies) \<and> wildcard_matches n w \<and>
    (\<forall>v \<in> set (wildcard_entries policies). wildcard_matches n v \<longrightarrow> length (we_prefix v) \<le> length (we_prefix w))"
proof -
  note m = find_sorted_min [OF assms [unfolded build_wildcard_index_def]]
  have "length (we_prefix v) \<le> length (we_prefix w)"
    if v: "v \<in> set (wildcard_entries policies)" "wildcard_matches n v" for v
  proof (rule ccontr)
    assume "\<not> length (we_prefix v) \<le> length (we_prefix w)"
    then have "length (we_prefix w) < length (we_prefix v)" by simp
    then have "dots (we_prefix w) < dots (we_prefix v)" using longer_more_segments m v(2) by blast
    then have "we_segments w < we_segments v"
      using entries_segments [OF v(1)] entries_segments [of w policies] m by simp
    with m v show False by (auto simp: less_eq_prod_def)
  qed
  with m show ?thesis by blast
qed

lemma no_wildcard:
  "find (wildcard_matches n) (build_wildcard_index policies) = None \<longleftrightarrow>
     (\<forall>w \<in> set (wildcard_entries policies). \<not> wildcard_matches n w)"
  by (auto simp: find_None_iff build_wildcard_index_def)

text \<open>The wildcard keys that cover a tool, and what the map says of it.\<close>

definition covers :: "string \<Rightarrow> string \<Rightarrow> bool" where
  "covers key tool_name \<longleftrightarrow> (\<exists>p. key = p @ ''.*'' \<and> (prefix (p @ ''.'') tool_name \<or> tool_name = p))"

definition map_says :: "policy_map \<Rightarrow> string \<Rightarrow> string \<Rightarrow> bool" where
  "map_says policies tool_name p \<longleftrightarrow>
     (case map_of policies tool_name of
        Some q \<Rightarrow> p = q
      | None \<Rightarrow>
          (\<exists>key. (key, p) \<in> set policies \<and> covers key tool_name \<and>
             (\<forall>key' \<in> fst ` set policies. covers key' tool_name \<longrightarrow> length key' \<le> length key)) \<or>
          (p = [] \<and> (\<forall>key \<in> fst ` set policies. \<not> covers key tool_name)))"

lemma entry_covers: "covers (we_prefix w @ ''.*'') n \<longleftrightarrow> wildcard_matches n w"
  by (auto simp: covers_def wildcard_matches_def)

lemma covers_entry:
  assumes "covers key n" and "(key, v) \<in> set policies"
  shows "\<exists>w \<in> set (wildcard_entries policies). key = we_prefix w @ ''.*'' \<and> we_policy w = v \<and> wildcard_matches n w"
proof -
  obtain p where p: "key = p @ ''.*''" "prefix (p @ ''.'') n \<or> n = p" using assms(1) by (auto simp: covers_def)
  let ?w = "\<lparr>we_prefix = p, we_segments = dots p + 1, we_policy = v\<rparr>"
  have "?w \<in> set (wildcard_entries policies)" using assms(2) p(1) by (simp add: entries_origin)
  moreover have "wildcard_matches n ?w" using p(2) by (simp add: wildcard_matches_def)
  ultimately show ?thesis using p(1) by force
qed

lemma resolve_map_says: "map_says policies n (resolve_from_map n policies (build_wildcard_index policies))"
proof (cases "map_of policies n")
  case None
  show ?thesis
  proof (cases "find (wildcard_matches n) (build_wildcard_index policies)")
    case no: None
    then have "\<forall>key \<in> fst ` set policies. \<not> covers key n"
      unfolding no_wildcard using covers_entry by fastforce
    then show ?thesis using None no by (simp add: map_says_def resolve_from_map_def)
  next
    case (Some w)
    note b = best_wildcard [OF Some]
    have "(we_prefix w @ ''.*'', we_policy w) \<in> set policies" using b entries_origin by blast
    moreover have "covers (we_prefix w @ ''.*'') n" using b entry_covers by blast
    moreover have "length key \<le> length (we_prefix w @ ''.*'')"
      if key: "key \<in> fst ` set policies" "covers key n" for key
    proof -
      obtain v where "(key, v) \<in> set policies" using key(1) by auto
      from covers_entry [OF key(2) this] b show ?thesis by auto
    qed
    ultimately have "\<exists>key. (key, we_policy w) \<in> set policies \<and> covers key n \<and>
        (\<forall>key' \<in> fst ` set policies. covers key' n \<longrightarrow> length key' \<le> length key)" by blast
    then show ?thesis using None Some by (simp add: map_says_def resolve_from_map_def)
  qed
qed (simp add: map_says_def resolve_from_map_def)

lemma covers_same_length: "covers k n \<Longrightarrow> covers k' n \<Longrightarrow> length k = length k' \<Longrightarrow> k = k'"
  by (auto simp: covers_def prefix_def append_eq_append_conv_if)

lemma map_says_unique:
  assumes "gomap_wf policies" and "map_says policies n p" and "map_says policies n q"
  shows "p = q"
proof (cases "map_of policies n")
  case None
  note says = assms(2,3) [unfolded map_says_def None option.case]
  show ?thesis
  proof (cases "\<forall>key \<in> fst ` set policies. \<not> covers key n")
    case True
    with says show ?thesis by force
  next
    case False
    with says obtain k k' where "(k, p) \<in> set policies" "(k', q) \<in> set policies" "covers k n" "covers k' n"
      "length k' \<le> length k" "length k \<le> length k'" by (metis fst_conv image_eqI)
    then have "k = k'" using covers_same_length by simp
    then show ?thesis
      using \<open>(k, p) \<in> _\<close> \<open>(k', q) \<in> _\<close> assms(1) by (metis gomap_wf_def map_of_is_SomeI option.inject)
  qed
qed (use assms in \<open>simp add: map_says_def\<close>)


text \<open>
  C5. What a policy map says of a tool, in whatever order the map is visited: the entry of the tool
  itself if there is one, else the entry of the longest of the keys ending in \<open>.*\<close> whose stem is the
  tool's name or a prefix of it up to a dot, and nothing when no key covers the tool. A bare star is
  no such key.
\<close>

theorem policy_most_specific:
  assumes "gomap_wf policies"
  shows "(resolve_from_map n policies (build_wildcard_index policies) = p) = map_says policies n p"
  using resolve_map_says [of policies n] map_says_unique [OF assms, of n] by blast

theorem policy_most_specific_witness:
  "map_says [(''*'', ''deny''), (''system.*'', ''ask''), (''system.agent.*'', ''allow'')] ''system.agent.create'' ''allow'' \<and>
   map_says [(''*'', ''deny'')] ''exec'' []"
proof -
  have wf: "gomap_wf [(''*'', ''deny''), (''system.*'', ''ask''), (''system.agent.*'', ''allow'')]"
    "gomap_wf [(''*'', ''deny'')]" by (simp_all add: gomap_wf_def)
  have "resolve_from_map ''system.agent.create'' [(''*'', ''deny''), (''system.*'', ''ask''), (''system.agent.*'', ''allow'')]
      (build_wildcard_index [(''*'', ''deny''), (''system.*'', ''ask''), (''system.agent.*'', ''allow'')]) = ''allow''"
    "resolve_from_map ''exec'' [(''*'', ''deny'')] (build_wildcard_index [(''*'', ''deny'')]) = []" by code_simp+
  then show ?thesis using policy_most_specific [OF wf(1)] policy_most_specific [OF wf(2)] by blast
qed

section \<open>The filter\<close>

definition known_scope :: "tool \<Rightarrow> bool" where
  "known_scope t \<longleftrightarrow> tl_Scope t = scope_core \<or> tl_Scope t = scope_general"

definition kept :: "tool_policy_cfg \<Rightarrow> tool \<Rightarrow> bool" where
  "kept cfg t \<longleftrightarrow> known_scope t \<and> resolve_effective_policy (Some cfg) (tl_Name t) \<noteq> ''deny''"

definition fenced_policy :: "tool_policy_cfg \<Rightarrow> tool \<Rightarrow> string" where
  "fenced_policy cfg t =
     (let p = resolve_effective_policy (Some cfg) (tl_Name t) in
      if p = ''allow'' \<and> tl_RequiresAdminAsk t \<and> \<not> tp_IsCoreAgent cfg then ''ask'' else p)"

definition effective_cfg :: "tool_policy_cfg option \<Rightarrow> tool_policy_cfg" where
  "effective_cfg cfg = (case cfg of None \<Rightarrow> allow_all_cfg | Some c \<Rightarrow> c)"

lemma resolve_values: "resolve_effective_policy cfg n \<in> {''allow'', ''ask'', ''deny''}"
  by (auto simp: resolve_effective_policy_def strictest_def split: option.split)

lemma filter_tools_step:
  "filter_tools (t # ts) agent_type cfg (out, pm) =
     (if kept cfg t then filter_tools ts agent_type cfg (out @ [t], AList.update (tl_Name t) (fenced_policy cfg t) pm)
      else filter_tools ts agent_type cfg (out, pm))"
proof -
  have "fst (apply_admin_ask_fence (resolve_effective_policy (Some cfg) (tl_Name t)) (tl_Name t) agent_type
      (Some (\<lambda>_. tl_RequiresAdminAsk t)) (Some (\<lambda>_. tp_IsCoreAgent cfg))) = fenced_policy cfg t"
    by (simp add: apply_admin_ask_fence_def fenced_policy_def Let_def)
  then show ?thesis
    by (auto simp: Let_def kept_def known_scope_def passes_scope_gate_def scope_core_def scope_general_def split: prod.splits)
qed

declare filter_tools.simps(2) [simp del]

lemma filter_tools_acc:
  "filter_tools ts agent_type cfg (out, pm) =
     (out @ filter (kept cfg) ts, fold (\<lambda>t. AList.update (tl_Name t) (fenced_policy cfg t)) (filter (kept cfg) ts) pm)"
  by (induction ts arbitrary: out pm) (simp_all add: filter_tools_step)

lemma filter_tools_result:
  "filter_tools_by_policy ts agent_type cfg =
     (filter (kept (effective_cfg cfg)) ts,
      fold (\<lambda>t. AList.update (tl_Name t) (fenced_policy (effective_cfg cfg) t)) (filter (kept (effective_cfg cfg)) ts) [])"
  by (simp add: filter_tools_by_policy_def filter_tools_acc effective_cfg_def)

lemma fold_update_absent: "n \<notin> tl_Name ` set ts \<Longrightarrow> map_of (fold (\<lambda>t. AList.update (tl_Name t) (f t)) ts pm) n = map_of pm n"
  by (induction ts arbitrary: pm) auto

lemma fold_update_value:
  "map_of (fold (\<lambda>t. AList.update (tl_Name t) (f t)) ts pm) n = Some p \<Longrightarrow> map_of pm n = Some p \<or> p \<in> f ` set ts"
  by (induction ts arbitrary: pm) (force split: if_splits)+

lemma fold_update_distinct:
  "distinct (map tl_Name ts) \<Longrightarrow> t \<in> set ts \<Longrightarrow>
     map_of (fold (\<lambda>t. AList.update (tl_Name t) (f t)) ts pm) (tl_Name t) = Some (f t)"
  by (induction ts arbitrary: pm) (auto simp: fold_update_absent)

lemma fold_update_dom: "dom (map_of (fold (\<lambda>t. AList.update (tl_Name t) (f t)) ts pm)) = dom (map_of pm) \<union> tl_Name ` set ts"
  by (induction ts arbitrary: pm) (auto simp: dom_def)

lemma no_map_default: "resolve_or_default n [] d = or_allow d"
  by (simp add: resolve_or_default_def resolve_from_map_def build_wildcard_index_def wildcard_entries_def)

lemma or_allow_simps [simp]: "or_allow [] = ''allow''" "or_allow ''allow'' = ''allow''"
  by (simp_all add: or_allow_def)

lemma strictest_absorb: "strictest (strictest g a) (strictest ''allow'' a) = strictest g a"
  by (simp add: strictest_def)

lemma resolve_effective_cfg: "resolve_effective_policy (Some (effective_cfg cfg)) n = resolve_effective_policy cfg n"
  by (cases cfg) (simp_all add: effective_cfg_def resolve_effective_policy_def allow_all_cfg_def no_map_default or_allow_def
      strictest_def)

lemma dedup_distinct:
  "gomap_wf seen \<Longrightarrow> (check_tool_dedup ts seen = None) = (distinct (map tl_Name ts) \<and> tl_Name ` set ts \<inter> fst ` set seen = {})"
proof (induction ts arbitrary: seen)
  case (Cons t ts)
  show ?case
  proof (cases "map_of seen (tl_Name t)")
    case None
    then have "tl_Name t \<notin> fst ` set seen" by (simp add: map_of_eq_None_iff)
    then show ?thesis using Cons None by (auto simp: Let_def dom_update)
  next
    case (Some v)
    then have "tl_Name t \<in> fst ` set seen" by (metis map_of_eq_None_iff option.distinct(1))
    then show ?thesis using Some by (auto simp: Let_def)
  qed
qed simp

text \<open>
  C3. The filter, exactly. It keeps, in order, the tools of a known scope that are not denied, for
  core and custom agents alike: the agent type never matters. When the name check passes, a kept
  tool's policy is the resolved one, with allow turned into ask for a tool that requires an admin
  unless the agent is core; a name that is not kept has no policy.
\<close>

theorem filter_tools_exact:
  assumes "check_tool_dedup (fst (filter_tools_by_policy ts agent_type cfg)) [] = None"
  shows "fst (filter_tools_by_policy ts agent_type cfg) =
      filter (\<lambda>t. known_scope t \<and> resolve_effective_policy cfg (tl_Name t) \<noteq> ''deny'') ts \<and>
    filter_tools_by_policy ts agent_type cfg = filter_tools_by_policy ts agent_type' cfg \<and>
    list_all (\<lambda>t. map_of (snd (filter_tools_by_policy ts agent_type cfg)) (tl_Name t) = Some (fenced_policy (effective_cfg cfg) t))
      (fst (filter_tools_by_policy ts agent_type cfg)) \<and>
    dom (map_of (snd (filter_tools_by_policy ts agent_type cfg))) = tl_Name ` set (fst (filter_tools_by_policy ts agent_type cfg))"
proof -
  let ?c = "effective_cfg cfg" and ?k = "filter (kept (effective_cfg cfg)) ts"
  have d: "distinct (map tl_Name ?k)"
    using assms dedup_distinct [OF gomap_wf_Nil, of ?k] by (simp add: filter_tools_result)
  have "list_all (\<lambda>t. map_of (snd (filter_tools_by_policy ts agent_type cfg)) (tl_Name t) = Some (fenced_policy ?c t)) ?k"
    using fold_update_distinct [OF d] by (auto simp: filter_tools_result list_all_iff)
  moreover have "filter (kept ?c) ts = filter (\<lambda>t. known_scope t \<and> resolve_effective_policy cfg (tl_Name t) \<noteq> ''deny'') ts"
    by (simp add: kept_def [abs_def] resolve_effective_cfg)
  ultimately show ?thesis by (simp add: filter_tools_result fold_update_dom)
qed

definition demo_tool :: "string \<Rightarrow> string \<Rightarrow> bool \<Rightarrow> tool" where
  "demo_tool n scope admin = \<lparr>tl_Name = n, tl_Scope = scope, tl_RequiresAdminAsk = admin, tl_IsMCP = False\<rparr>"

definition demo_tools :: "tool list" where
  "demo_tools = [demo_tool ''exec'' ''core'' False, demo_tool ''system.config.set'' ''core'' True, demo_tool ''odd'' ''new'' False]"

theorem filter_tools_exact_witness:
  "fst (filter_tools_by_policy demo_tools ''custom'' None) = take 2 demo_tools \<and>
   list_all (\<lambda>t. map_of (snd (filter_tools_by_policy demo_tools ''custom'' None)) (tl_Name t) =
      Some (if tl_RequiresAdminAsk t then ''ask'' else ''allow'')) (take 2 demo_tools)"
proof -
  have "check_tool_dedup (fst (filter_tools_by_policy demo_tools ''custom'' None)) [] = None" by code_simp
  from filter_tools_exact [OF this] have
    f: "fst (filter_tools_by_policy demo_tools ''custom'' None) =
      filter (\<lambda>t. known_scope t \<and> resolve_effective_policy None (tl_Name t) \<noteq> ''deny'') demo_tools"
    and l: "list_all (\<lambda>t. map_of (snd (filter_tools_by_policy demo_tools ''custom'' None)) (tl_Name t) =
      Some (fenced_policy (effective_cfg None) t)) (fst (filter_tools_by_policy demo_tools ''custom'' None))" by blast+
  have k: "filter (\<lambda>t. known_scope t \<and> resolve_effective_policy None (tl_Name t) \<noteq> ''deny'') demo_tools = take 2 demo_tools"
    "list_all (\<lambda>t. fenced_policy (effective_cfg None) t = (if tl_RequiresAdminAsk t then ''ask'' else ''allow'')) (take 2 demo_tools)"
    by code_simp+
  show ?thesis using l k(2) unfolding f k(1) by (simp add: list_all_iff)
qed

text \<open>
  The check before a tool runs: with the policies of the turn's filter and of the moment, the
  verdict is the stricter of the two, and deny for a tool that either of them leaves out.
\<close>

theorem exec_policy_strictest:
  "resolve_tool_policy_at_exec ts agent_type live n (snd (filter_tools_by_policy ts agent_type at_filter)) =
     (case (map_of (snd (filter_tools_by_policy ts agent_type at_filter)) n,
            map_of (snd (filter_tools_by_policy ts agent_type live)) n) of
        (Some p, Some q) \<Rightarrow> strictest p q
      | _ \<Rightarrow> ''deny'')"
proof -
  have v: "p \<in> {''allow'', ''ask''}" if "map_of (snd (filter_tools_by_policy ts agent_type c)) n = Some p" for c p
  proof -
    from that have "p \<in> fenced_policy (effective_cfg c) ` {t \<in> set ts. kept (effective_cfg c) t}"
      unfolding filter_tools_result snd_conv by (auto dest: fold_update_value)
    then show ?thesis using resolve_values by (fastforce simp: fenced_policy_def kept_def Let_def)
  qed
  show ?thesis
    using v [of at_filter] v [of live]
    by (auto simp: resolve_tool_policy_at_exec_def resolve_single_tool_policy_def Let_def strictest_def split: option.split)
qed

text \<open>
  The loop and the view. What the operator's view of an agent's tools lists, the loop offers
  too, with a policy that is no stricter; but the loop never reads the operator's policies: with
  every browser tool denied globally the view lists none, while the loop offers it, runs it, and the
  approval hook, which compares names only, asks for nothing.
\<close>

theorem loop_ignores_operator_policies:
  "set (fst (view_tools ts agent_type sb cfg)) \<subseteq> set (fst (loop_tools ts agent_type sb cfg)) \<and>
   list_all (\<lambda>t. strictest (fenced_policy (view_policy sb cfg) t) (fenced_policy (agent_tools_cfg_to_policy cfg) t) =
      fenced_policy (view_policy sb cfg) t) (fst (view_tools ts agent_type sb cfg)) \<and>
   (let sb0 = \<lparr>sp_ToolPolicies = [(''browser.*'', ''deny'')], sp_DefaultToolPolicy = ''allow''\<rparr>;
        b = [demo_tool ''browser.click'' ''core'' False]; pm = snd (loop_tools b ''custom'' sb0 None) in
    fst (view_tools b ''custom'' sb0 None) = [] \<and> fst (loop_tools b ''custom'' sb0 None) = b \<and>
    resolve_tool_policy_at_exec b ''custom'' None ''browser.click'' pm = ''allow'' \<and>
    hook_policy sb0 None ''browser.click'' = ''allow'')"
proof -
  let ?v = "view_policy sb cfg" and ?l = "agent_tools_cfg_to_policy cfg"
  have l: "loop_tools ts agent_type sb cfg = filter_tools_by_policy ts agent_type (Some ?l)"
    by (cases cfg) (simp_all add: loop_tools_def filter_tools_result effective_cfg_def agent_tools_cfg_to_policy_def)
  have stricter: "strictest (resolve_effective_policy (Some ?v) n) (resolve_effective_policy (Some ?l) n) =
      resolve_effective_policy (Some ?v) n" for n
    by (cases cfg) (simp_all add: view_policy_def tools_cfg_to_policy_def agent_tools_cfg_to_policy_def allow_all_cfg_def
        resolve_effective_policy_def Let_def no_map_default strictest_absorb)
  have core: "tp_IsCoreAgent ?v = False" "tp_IsCoreAgent ?l = False"
    by (cases cfg; simp add: view_policy_def tools_cfg_to_policy_def agent_tools_cfg_to_policy_def allow_all_cfg_def Let_def)+
  have k: "kept ?l t" if "kept ?v t" for t
    using stricter [of "tl_Name t"] that by (auto simp: kept_def strictest_def split: if_splits)
  have p: "strictest (fenced_policy ?v t) (fenced_policy ?l t) = fenced_policy ?v t" for t
    using stricter [of "tl_Name t"] resolve_values [of "Some ?v" "tl_Name t"] resolve_values [of "Some ?l" "tl_Name t"]
    by (auto simp: fenced_policy_def Let_def core strictest_def split: if_splits)
  have "let sb0 = \<lparr>sp_ToolPolicies = [(''browser.*'', ''deny'')], sp_DefaultToolPolicy = ''allow''\<rparr>;
        b = [demo_tool ''browser.click'' ''core'' False]; pm = snd (loop_tools b ''custom'' sb0 None) in
    fst (view_tools b ''custom'' sb0 None) = [] \<and> fst (loop_tools b ''custom'' sb0 None) = b \<and>
    resolve_tool_policy_at_exec b ''custom'' None ''browser.click'' pm = ''allow'' \<and>
    hook_policy sb0 None ''browser.click'' = ''allow''" by code_simp
  then show ?thesis using k p
    by (auto simp: l view_tools_def filter_tools_result effective_cfg_def list_all_iff)
qed

end
