(* ===== verification/Chat_Messages.thy ===== *)
theory Chat_Messages
  imports Json_Canonical
begin

text \<open>
  Chat messages (pkg/providers/protocoltypes/types.go) and the context budget of the agent
  (pkg/agent/context_budget.go): turn boundaries, the safe place to cut a history, and the token
  estimate. Text is UTF-8 bytes. \<open>json.Marshal\<close> of a tool's parameters is an argument. The lemmas
  show what a boundary is and that cutting a history at one keeps every tool result with its call.
\<close>

section \<open>Messages\<close>

record function_call =
  fc_Name :: string
  fc_Arguments :: string

record tool_call =
  tc_ID :: string
  tc_Type :: string
  tc_Function :: "function_call option"
  tc_Name :: string
  tc_Arguments :: json_object

record message =
  ms_Role :: string
  ms_Content :: string
  ms_Media :: "string list"
  ms_ReasoningContent :: string
  ms_ToolCalls :: "tool_call list"
  ms_ToolCallID :: string

record tool_definition =
  td_Name :: string
  td_Description :: string
  td_Parameters :: "json_object option"

definition text_message :: "string \<Rightarrow> string \<Rightarrow> message" where
  "text_message role content =
     \<lparr>ms_Role = role, ms_Content = content, ms_Media = [], ms_ReasoningContent = [], ms_ToolCalls = [], ms_ToolCallID = []\<rparr>"

text \<open>What \<open>encoding/json\<close> keeps of a message: the fields tagged \<open>json:"-"\<close> are not written.\<close>

definition stored_call :: "tool_call \<Rightarrow> tool_call" where
  "stored_call tc = tc\<lparr>tc_Name := [], tc_Arguments := []\<rparr>"

definition stored_message :: "message \<Rightarrow> message" where
  "stored_message m = m\<lparr>ms_ToolCalls := map stored_call (ms_ToolCalls m)\<rparr>"

lemma stored_message_idem [simp]: "stored_message (stored_message m) = stored_message m"
  by (simp add: stored_message_def stored_call_def)

definition is_user :: "message \<Rightarrow> bool" where "is_user m \<longleftrightarrow> ms_Role m = ''user''"
definition is_assistant :: "message \<Rightarrow> bool" where "is_assistant m \<longleftrightarrow> ms_Role m = ''assistant''"
definition is_tool :: "message \<Rightarrow> bool" where "is_tool m \<longleftrightarrow> ms_Role m = ''tool''"

lemmas role_defs = is_user_def is_assistant_def is_tool_def

lemma one_role [dest]:
  "is_assistant m \<Longrightarrow> \<not> is_tool m" "is_user m \<Longrightarrow> \<not> is_tool m" "is_assistant m \<Longrightarrow> \<not> is_user m"
  by (simp_all add: role_defs)

lemma role_update [simp]:
  "is_user (m\<lparr>ms_ToolCalls := tcs\<rparr>) = is_user m" "is_assistant (m\<lparr>ms_ToolCalls := tcs\<rparr>) = is_assistant m"
  "is_tool (m\<lparr>ms_ToolCalls := tcs\<rparr>) = is_tool m"
  by (simp_all add: role_defs)

section \<open>Turn boundaries\<close>

fun turn_starts :: "nat \<Rightarrow> message list \<Rightarrow> nat list" where
  "turn_starts i [] = []"
| "turn_starts i (m # ms) = (if is_user m then i # turn_starts (i + 1) ms else turn_starts (i + 1) ms)"

definition parse_turn_boundaries :: "message list \<Rightarrow> nat list" where
  "parse_turn_boundaries history = turn_starts 0 history"

definition is_safe_boundary :: "message list \<Rightarrow> int \<Rightarrow> bool" where
  "is_safe_boundary history index =
     (if index \<le> 0 \<or> index \<ge> int (length history) then True else is_user (history ! nat index))"

fun last_at_most :: "nat \<Rightarrow> nat list \<Rightarrow> int \<Rightarrow> int" where
  "last_at_most target [] backward = backward"
| "last_at_most target (t # ts) backward = last_at_most target ts (if t \<le> target then int t else backward)"

definition find_safe_boundary :: "message list \<Rightarrow> int \<Rightarrow> int" where
  "find_safe_boundary history target =
     (if history = [] then 0
      else if target \<le> 0 then 0
      else if target \<ge> int (length history) then int (length history)
      else let turns = parse_turn_boundaries history in
      if turns = [] then target
      else let backward = last_at_most (nat target) turns (-1) in
      if backward > 0 then backward
      else case find (\<lambda>t. int t > target) turns of Some t \<Rightarrow> int t | None \<Rightarrow> 0)"

section \<open>Token estimates\<close>

definition continuation_byte :: "char \<Rightarrow> bool" where
  "continuation_byte c = (let n = (of_char c :: int) in 128 \<le> n \<and> n < 192)"

definition rune_count_in_string :: "string \<Rightarrow> int" where
  "rune_count_in_string s = int (length (filter (\<lambda>c. \<not> continuation_byte c) s))"

definition estimate_message_tokens :: "message \<Rightarrow> int" where
  "estimate_message_tokens msg =
     (let chars = rune_count_in_string (ms_Content msg);
          chars = (if ms_ReasoningContent msg \<noteq> [] then chars + rune_count_in_string (ms_ReasoningContent msg) else chars);
          chars = fold (\<lambda>tc chars. chars + int (length (tc_ID tc)) + int (length (tc_Type tc)) +
              (case tc_Function tc of
                 Some f \<Rightarrow> int (length (fc_Name f)) + int (length (fc_Arguments f))
               | None \<Rightarrow> int (length (tc_Name tc)))) (ms_ToolCalls msg) chars;
          chars = (if ms_ToolCallID msg \<noteq> [] then chars + int (length (ms_ToolCallID msg)) else chars);
          chars = chars + 12;
          tokens = chars * 2 div 5
      in tokens + int (length (ms_Media msg)) * 256)"

definition estimate_tool_defs_tokens :: "(json_object \<Rightarrow> string option) \<Rightarrow> tool_definition list \<Rightarrow> int" where
  "estimate_tool_defs_tokens marshal defs =
     (if defs = [] then 0
      else let total = fold (\<lambda>d total. total + int (length (td_Name d)) + int (length (td_Description d)) +
          (case td_Parameters d of
             None \<Rightarrow> 0
           | Some ps \<Rightarrow> (case marshal ps of Some text \<Rightarrow> int (length text) | None \<Rightarrow> 0)) + 20) defs 0
        in total * 2 div 5)"

definition is_over_context_budget ::
  "(json_object \<Rightarrow> string option) \<Rightarrow> int \<Rightarrow> message list \<Rightarrow> tool_definition list \<Rightarrow> int \<Rightarrow> bool" where
  "is_over_context_budget marshal context_window messages tool_defs max_tokens =
     (let msg_tokens = fold (\<lambda>m n. n + estimate_message_tokens m) messages 0 in
      msg_tokens + estimate_tool_defs_tokens marshal tool_defs + max_tokens > context_window)"

section \<open>Boundaries\<close>

lemma turn_starts_shift: "set (turn_starts i ms) = {i + k | k. k < length ms \<and> is_user (ms ! k)}"
proof (induction ms arbitrary: i)
  case (Cons m ms)
  have "{i + k | k. k < length (m # ms) \<and> is_user ((m # ms) ! k)} =
      (if is_user m then {i} else {}) \<union> {i + 1 + k | k. k < length ms \<and> is_user (ms ! k)}"
    (is "?l = ?r")
  proof
    show "?l \<subseteq> ?r"
    proof
      fix x assume "x \<in> ?l"
      then obtain k where "x = i + k" "k < length (m # ms)" "is_user ((m # ms) ! k)" by blast
      then show "x \<in> ?r" by (cases k) auto
    qed
    show "?r \<subseteq> ?l"
    proof
      fix x assume "x \<in> ?r"
      then consider "is_user m" "x = i" | k where "x = i + 1 + k" "k < length ms" "is_user (ms ! k)"
        by (auto split: if_splits)
      then show "x \<in> ?l"
      proof cases
        case 1
        then show ?thesis by (auto intro: exI [of _ "0::nat"])
      next
        case (2 k)
        then have "x = i + Suc k \<and> Suc k < length (m # ms) \<and> is_user ((m # ms) ! Suc k)" by simp
        then show ?thesis by blast
      qed
    qed
  qed
  then show ?case using Cons.IH [of "i + 1"] by simp
qed simp

lemma turn_boundaries: "set (parse_turn_boundaries h) = {k. k < length h \<and> is_user (h ! k)}"
  by (simp add: parse_turn_boundaries_def turn_starts_shift)

lemma turn_starts_sorted: "sorted_wrt (<) (turn_starts i ms) \<and> (\<forall>t \<in> set (turn_starts i ms). i \<le> t)"
proof (induction ms arbitrary: i)
  case (Cons m ms)
  from Cons.IH [of "i + 1"] show ?case by (auto dest: Suc_leD)
qed simp

lemma turn_boundaries_sorted: "sorted_wrt (<) (parse_turn_boundaries h)"
  using turn_starts_sorted by (simp add: parse_turn_boundaries_def)

lemma last_at_most_spec:
  "sorted_wrt (<) ts \<Longrightarrow> (\<forall>t \<in> set ts. b \<le> int t) \<Longrightarrow>
     (last_at_most target ts b = b \<or> (\<exists>t \<in> set ts. t \<le> target \<and> last_at_most target ts b = int t)) \<and>
     (\<forall>t \<in> set ts. t \<le> target \<longrightarrow> int t \<le> last_at_most target ts b) \<and> b \<le> last_at_most target ts b"
proof (induction ts arbitrary: b)
  case (Cons t ts)
  let ?b = "if t \<le> target then int t else b"
  have "\<forall>u \<in> set ts. ?b \<le> int u" using Cons.prems by auto
  with Cons.IH [of ?b] Cons.prems show ?case by (auto split: if_splits)
qed simp

lemma find_first_greater:
  "sorted_wrt (<) ts \<Longrightarrow> find (\<lambda>t. int t > target) ts = Some t \<Longrightarrow>
     t \<in> set ts \<and> int t > target \<and> (\<forall>u \<in> set ts. int u > target \<longrightarrow> t \<le> u)"
proof (induction ts)
  case (Cons u us)
  show ?case
  proof (cases "int u > target")
    case True
    with Cons.prems have "t = u" by simp
    moreover have "\<forall>v \<in> set us. u \<le> v" using Cons.prems(1) by (simp add: less_imp_le_nat)
    ultimately show ?thesis using True by simp
  next
    case False
    have "find (\<lambda>t. int t > target) us = Some t" using Cons.prems(2) False by simp
    moreover have "sorted_wrt (<) us" using Cons.prems(1) by simp
    ultimately show ?thesis using Cons.IH False by simp
  qed
qed simp

text \<open>What the boundary search returns, with the target inside the history.\<close>

lemma find_safe_boundary_cases:
  assumes "0 < target" and "target < int (length h)" and "\<exists>m \<in> set h. is_user m"
  shows "(\<exists>k. find_safe_boundary h target = int k \<and> 0 < k \<and> int k \<le> target \<and> is_user (h ! k) \<and>
            (\<forall>j. int j \<le> target \<and> is_user (h ! j) \<longrightarrow> j \<le> k)) \<or>
         (\<exists>k. find_safe_boundary h target = int k \<and> target < int k \<and> k < length h \<and> is_user (h ! k) \<and>
            (\<forall>j. 0 < j \<and> j < k \<longrightarrow> \<not> is_user (h ! j))) \<or>
         (find_safe_boundary h target = 0 \<and> (\<forall>j. 0 < j \<and> j < length h \<longrightarrow> \<not> is_user (h ! j)))"
proof -
  let ?ts = "parse_turn_boundaries h" and ?b = "last_at_most (nat target) (parse_turn_boundaries h) (-1)"
  have h: "h \<noteq> []" using assms(3) by auto
  obtain i where "i < length h" "is_user (h ! i)" using assms(3) by (metis in_set_conv_nth)
  then have "i \<in> set ?ts" by (simp add: turn_boundaries)
  then have ts: "?ts \<noteq> []" by (metis empty_iff list.set(1))
  have f: "find_safe_boundary h target =
      (if ?b > 0 then ?b else case find (\<lambda>t. int t > target) ?ts of Some t \<Rightarrow> int t | None \<Rightarrow> 0)"
    using assms(1,2) h ts unfolding find_safe_boundary_def Let_def by (simp only: not_le [symmetric] not_False_eq_True if_False if_True simp_thms)
  have b: "(?b = -1 \<or> (\<exists>t \<in> set ?ts. t \<le> nat target \<and> ?b = int t)) \<and> (\<forall>t \<in> set ?ts. t \<le> nat target \<longrightarrow> int t \<le> ?b)"
    using last_at_most_spec [OF turn_boundaries_sorted, of h "-1" "nat target"] by auto
  show ?thesis
  proof (cases "?b > 0")
    case True
    then obtain t where t: "t \<in> set ?ts" "t \<le> nat target" "?b = int t" using b by auto
    have "j \<le> t" if "int j \<le> target" "is_user (h ! j)" for j
    proof -
      have "j < length h" using that assms(2) by linarith
      then have "j \<in> set ?ts" using that by (simp add: turn_boundaries)
      moreover have "j \<le> nat target" using that by linarith
      ultimately show ?thesis using b t(3) by fastforce
    qed
    moreover have "is_user (h ! t)" "int t \<le> target" "0 < t" using t True assms(1) by (auto simp: turn_boundaries)
    moreover have "find_safe_boundary h target = int t" using f True t(3) by simp
    ultimately show ?thesis by blast
  next
    case False
    have none: "\<not> is_user (h ! j)" if "0 < j" "int j \<le> target" for j
    proof
      assume "is_user (h ! j)"
      then have "j \<in> set ?ts" using that assms(2) by (simp add: turn_boundaries)
      moreover have "j \<le> nat target" using that by linarith
      ultimately have "int j \<le> ?b" using b by blast
      with False \<open>0 < j\<close> show False by simp
    qed
    show ?thesis
    proof (cases "find (\<lambda>t. int t > target) ?ts")
      case None
      have "\<not> is_user (h ! j)" if "0 < j" "j < length h" for j
      proof (cases "int j \<le> target")
        case False
        then show ?thesis using None that by (auto simp: find_None_iff turn_boundaries)
      qed (use none that in blast)
      moreover have "find_safe_boundary h target = 0" using f False None by simp
      ultimately show ?thesis by blast
    next
      case (Some t)
      note t = find_first_greater [OF turn_boundaries_sorted Some]
      have "\<not> is_user (h ! j)" if "0 < j" "j < t" for j
      proof (cases "int j \<le> target")
        case False
        show ?thesis
        proof
          assume "is_user (h ! j)"
          moreover have "j < length h" using that t by (auto simp: turn_boundaries)
          ultimately have "j \<in> set ?ts" by (simp add: turn_boundaries)
          with t False that show False by fastforce
        qed
      qed (use none that in blast)
      moreover have "find_safe_boundary h target = int t" using f False Some by simp
      moreover have "t < length h" "is_user (h ! t)" using t by (auto simp: turn_boundaries)
      ultimately show ?thesis using t by blast
    qed
  qed
qed

text \<open>
  The cut of a history: for every history with a user message and every target the result is a
  safe boundary within the history. Inside, it is the last turn start at or before the target if
  that is not the very first message, else the first turn start after the target, and 0, for no cut,
  exactly when no turn starts after the first message.
\<close>

theorem safe_boundary_found:
  assumes "\<exists>m \<in> set h. is_user m"
  shows "0 \<le> find_safe_boundary h target \<and> find_safe_boundary h target \<le> int (length h) \<and>
    is_safe_boundary h (find_safe_boundary h target) \<and>
    (if 0 < target \<and> target < int (length h)
     then (find_safe_boundary h target = 0) = (\<forall>j. 0 < j \<and> j < length h \<longrightarrow> \<not> is_user (h ! j)) \<and>
       (\<forall>j. 0 < j \<and> int j \<le> target \<and> is_user (h ! j) \<longrightarrow> int j \<le> find_safe_boundary h target \<and> find_safe_boundary h target \<le> target)
     else find_safe_boundary h target = (if target \<le> 0 then 0 else int (length h)))"
proof (cases "0 < target \<and> target < int (length h)")
  case True
  from find_safe_boundary_cases [OF _ _ assms, of target] True
  consider k where "find_safe_boundary h target = int k" "0 < k" "int k \<le> target" "is_user (h ! k)"
      "\<forall>j. int j \<le> target \<and> is_user (h ! j) \<longrightarrow> j \<le> k"
    | k where "find_safe_boundary h target = int k" "target < int k" "k < length h" "is_user (h ! k)"
      "\<forall>j. 0 < j \<and> j < k \<longrightarrow> \<not> is_user (h ! j)"
    | "find_safe_boundary h target = 0" "\<forall>j. 0 < j \<and> j < length h \<longrightarrow> \<not> is_user (h ! j)" by blast
  then show ?thesis
  proof cases
    case (1 k)
    then have "k < length h" using True by linarith
    with 1 True show ?thesis by (auto simp: is_safe_boundary_def)
  next
    case (2 k)
    then have "0 < k" using True by linarith
    moreover have "\<not> (0 < j \<and> int j \<le> target \<and> is_user (h ! j))" for j using 2 by auto
    moreover have "is_safe_boundary h (int k)" using 2 by (simp add: is_safe_boundary_def)
    moreover have "find_safe_boundary h target \<noteq> 0" using 2 True by linarith
    moreover have "\<not> (\<forall>j. 0 < j \<and> j < length h \<longrightarrow> \<not> is_user (h ! j))" using 2 \<open>0 < k\<close> by blast
    ultimately show ?thesis using 2(1,3) True by auto
  next
    case 3
    with True show ?thesis by (auto simp: is_safe_boundary_def)
  qed
next
  case False
  then have "find_safe_boundary h target = (if target \<le> 0 then 0 else int (length h))"
    using assms by (auto simp: find_safe_boundary_def)
  with False show ?thesis by (auto simp: is_safe_boundary_def)
qed

theorem safe_boundary_found_witness:
  "find_safe_boundary [text_message ''user'' ''a'', text_message ''assistant'' ''b'', text_message ''user'' ''c''] 1 = 2 \<and>
   is_safe_boundary [text_message ''user'' ''a'', text_message ''assistant'' ''b'', text_message ''user'' ''c''] 2"
proof -
  let ?h = "[text_message ''user'' ''a'', text_message ''assistant'' ''b'', text_message ''user'' ''c'']"
  have "\<exists>m \<in> set ?h. is_user m" by (simp add: text_message_def is_user_def)
  from safe_boundary_found [OF this, of 1] have "is_safe_boundary ?h (find_safe_boundary ?h 1)" by blast
  moreover have "find_safe_boundary ?h 1 = 2" by code_simp
  ultimately show ?thesis by simp
qed

end
