(* ===== verification/History_Repair.thy ===== *)
theory History_Repair
  imports Chat_Messages Tool_Compositor
begin

text \<open>
  Repair of the outgoing history (pkg/agent/repair.go): tool calls and tool results that lost their
  counterpart are completed from the session transcript before each call of the model. Running a
  tool is an argument that acts on a world of any type; \<open>json.Marshal\<close> and reading the transcript
  are arguments. The lemmas show that the repair leaves no call without a result, drops nothing,
  changes nothing when run again and never runs a tool the policy denies.
\<close>

section \<open>Data\<close>

record transcript_tool_call =
  xt_ID :: string
  xt_Tool :: string
  xt_Parameters :: json_object

record transcript_entry =
  xe_ToolCalls :: "transcript_tool_call list"

type_synonym tool_index = "(string, transcript_tool_call) gomap"

record repair_stats =
  rs_SyntheticToolUses :: int
  rs_ReinvokedIdempotent :: int
  rs_SyntheticErrorStubs :: int
  rs_Unrepairable :: int

definition no_repairs :: repair_stats where
  "no_repairs = \<lparr>rs_SyntheticToolUses = 0, rs_ReinvokedIdempotent = 0, rs_SyntheticErrorStubs = 0, rs_Unrepairable = 0\<rparr>"

definition any_repaired :: "repair_stats \<Rightarrow> bool" where
  "any_repaired s \<longleftrightarrow>
     rs_SyntheticToolUses s + rs_ReinvokedIdempotent s + rs_SyntheticErrorStubs s + rs_Unrepairable s > 0"

record tool_result =
  tr_ForLLM :: string
  tr_IsError :: bool

text \<open>\<open>ToolRegistry.ExecuteWithContext\<close>: the world after the call and the result, if any.\<close>

type_synonym 'w registry = "string \<Rightarrow> json_object \<Rightarrow> 'w \<Rightarrow> 'w \<times> tool_result option"

section \<open>The ids of a history\<close>

definition declared_of :: "message \<Rightarrow> string set" where
  "declared_of m = (if is_assistant m then set (filter (\<lambda>i. i \<noteq> []) (map tc_ID (ms_ToolCalls m))) else {})"

definition resolved_of :: "message \<Rightarrow> string set" where
  "resolved_of m = (if is_tool m \<and> ms_ToolCallID m \<noteq> [] then {ms_ToolCallID m} else {})"

definition collect_tool_ids :: "message list \<Rightarrow> string set \<times> string set" where
  "collect_tool_ids messages =
     fold (\<lambda>m (declared, resolved). (declared \<union> declared_of m, resolved \<union> resolved_of m)) messages ({}, {})"

section \<open>The transcript\<close>

definition index_tool_call :: "transcript_tool_call \<Rightarrow> tool_index \<Rightarrow> tool_index" where
  "index_tool_call tc index = (if xt_ID tc \<noteq> [] then AList.update (xt_ID tc) tc index else index)"

definition load_transcript_tool_calls ::
  "(string \<Rightarrow> transcript_entry list option) option \<Rightarrow> string \<Rightarrow> tool_index option" where
  "load_transcript_tool_calls store session_id =
     (case store of
        None \<Rightarrow> None
      | Some read_transcript \<Rightarrow>
          if session_id = [] then None
          else case read_transcript session_id of
            None \<Rightarrow> None
          | Some entries \<Rightarrow> Some (fold (\<lambda>e index. fold index_tool_call (xe_ToolCalls e) index) entries []))"

definition is_idempotent_tool :: "string \<Rightarrow> bool" where
  "is_idempotent_tool name \<longleftrightarrow> name \<in>
     {''web_search'', ''web_fetch'', ''read_file'', ''list_dir'', ''find_skills'', ''agent_list'', ''task_list'',
      ''skills'', ''find''}"

definition marshal_arguments_string :: "(json_object \<Rightarrow> string option) \<Rightarrow> json_object \<Rightarrow> string" where
  "marshal_arguments_string marshal args =
     (if args = [] then ''{}'' else case marshal args of None \<Rightarrow> ''{}'' | Some text \<Rightarrow> text)"

section \<open>Missing tool uses\<close>

definition synthetic_use :: "(json_object \<Rightarrow> string option) \<Rightarrow> transcript_tool_call \<Rightarrow> tool_call" where
  "synthetic_use marshal e =
     \<lparr>tc_ID = xt_ID e, tc_Type = ''function'',
      tc_Function = Some \<lparr>fc_Name = xt_Tool e, fc_Arguments = marshal_arguments_string marshal (xt_Parameters e)\<rparr>,
      tc_Name = xt_Tool e, tc_Arguments = xt_Parameters e\<rparr>"

fun synthetic_tool_uses_for_assistant ::
  "(json_object \<Rightarrow> string option) \<Rightarrow> string set \<Rightarrow> tool_index \<Rightarrow> message list \<Rightarrow> repair_stats \<Rightarrow> tool_call list \<times> repair_stats" where
  "synthetic_tool_uses_for_assistant marshal orphans index [] stats = ([], stats)"
| "synthetic_tool_uses_for_assistant marshal orphans index (m # ms) stats =
     (if is_assistant m then ([], stats)
      else if \<not> is_tool m \<or> ms_ToolCallID m = [] \<or> ms_ToolCallID m \<notin> orphans
      then synthetic_tool_uses_for_assistant marshal orphans index ms stats
      else case map_of index (ms_ToolCallID m) of
        None \<Rightarrow> synthetic_tool_uses_for_assistant marshal orphans index ms
          (stats\<lparr>rs_Unrepairable := rs_Unrepairable stats + 1\<rparr>)
      | Some e \<Rightarrow>
          (let (added, stats') = synthetic_tool_uses_for_assistant marshal orphans index ms
             (stats\<lparr>rs_SyntheticToolUses := rs_SyntheticToolUses stats + 1\<rparr>)
           in (synthetic_use marshal e # added, stats')))"

fun inject_synthetic_tool_uses ::
  "(json_object \<Rightarrow> string option) \<Rightarrow> string set \<Rightarrow> tool_index \<Rightarrow> message list \<Rightarrow> repair_stats \<Rightarrow> message list \<times> repair_stats" where
  "inject_synthetic_tool_uses marshal orphans index [] stats = ([], stats)"
| "inject_synthetic_tool_uses marshal orphans index (m # ms) stats =
     (if is_assistant m then
        (let (added, stats') = synthetic_tool_uses_for_assistant marshal orphans index ms stats;
             (out, stats'') = inject_synthetic_tool_uses marshal orphans index ms stats'
         in (m\<lparr>ms_ToolCalls := ms_ToolCalls m @ added\<rparr> # out, stats''))
      else let (out, stats') = inject_synthetic_tool_uses marshal orphans index ms stats in (m # out, stats'))"

section \<open>Missing tool results\<close>

definition try_reinvoke_idempotent ::
  "'w registry option \<Rightarrow> tool_policy_cfg option \<Rightarrow> transcript_tool_call option \<Rightarrow> repair_stats \<times> 'w \<Rightarrow>
    string option \<times> repair_stats \<times> 'w" where
  "try_reinvoke_idempotent registry policy entry st =
     (case (entry, registry) of
        (Some e, Some execute) \<Rightarrow>
          if \<not> is_idempotent_tool (xt_Tool e) then (None, st)
          else if policy \<noteq> None \<and> resolve_effective_policy policy (xt_Tool e) = ''deny'' then (None, st)
          else (let (w, result) = execute (xt_Tool e) (xt_Parameters e) (snd st) in
            case result of
              None \<Rightarrow> (None, fst st, w)
            | Some r \<Rightarrow>
                if tr_IsError r then (None, fst st, w)
                else (Some (tr_ForLLM r), (fst st)\<lparr>rs_ReinvokedIdempotent := rs_ReinvokedIdempotent (fst st) + 1\<rparr>, w))
      | _ \<Rightarrow> (None, st))"

definition synthetic_error_result :: "string \<Rightarrow> transcript_tool_call option \<Rightarrow> string" where
  "synthetic_error_result tool_call_id entry =
     (case entry of
        Some e \<Rightarrow> ''[omnipus:tool_result_recovered] The original result for '' @ xt_Tool e @ '' (id='' @ tool_call_id @
          '') was lost in the stream. If this information is still needed, call the tool again. Do NOT assume success or failure.''
      | None \<Rightarrow> ''[omnipus:tool_result_recovered] The original result for tool call id='' @ tool_call_id @
          '' was lost in the stream and cannot be reconstructed. If this information is still needed, re-issue the tool call.'')"

definition synthetic_result :: "string \<Rightarrow> string \<Rightarrow> message" where
  "synthetic_result content tool_call_id = (text_message ''tool'' content)\<lparr>ms_ToolCallID := tool_call_id\<rparr>"

fun results_for ::
  "tool_index \<Rightarrow> 'w registry option \<Rightarrow> tool_policy_cfg option \<Rightarrow> string list \<Rightarrow> repair_stats \<times> 'w \<Rightarrow>
    message list \<times> repair_stats \<times> 'w" where
  "results_for index registry policy [] st = ([], st)"
| "results_for index registry policy (i # ids) st =
     (let entry = map_of index i;
          (content, st') = try_reinvoke_idempotent registry policy entry st;
          (text, st'') = (case content of
              Some c \<Rightarrow> (c, st')
            | None \<Rightarrow> (synthetic_error_result i entry,
                (fst st')\<lparr>rs_SyntheticErrorStubs := rs_SyntheticErrorStubs (fst st') + 1\<rparr>, snd st'));
          (out, st''') = results_for index registry policy ids st''
      in (synthetic_result text i # out, st'''))"

text \<open>The orphan ids an assistant message owns, in wire order.\<close>

definition owned_orphans :: "string set \<Rightarrow> message \<Rightarrow> string list" where
  "owned_orphans orphans m = (if is_assistant m then filter (\<lambda>i. i \<in> orphans) (map tc_ID (ms_ToolCalls m)) else [])"

function inject_synthetic_tool_results ::
  "string set \<Rightarrow> tool_index \<Rightarrow> 'w registry option \<Rightarrow> tool_policy_cfg option \<Rightarrow> message list \<Rightarrow> repair_stats \<times> 'w \<Rightarrow>
    message list \<times> repair_stats \<times> 'w" where
  "inject_synthetic_tool_results orphans index registry policy [] st = ([], st)"
| "inject_synthetic_tool_results orphans index registry policy (m # ms) st =
     (if owned_orphans orphans m = [] then
        (let (out, st') = inject_synthetic_tool_results orphans index registry policy ms st in (m # out, st'))
      else
        (let (results, st') = results_for index registry policy (owned_orphans orphans m) st;
             (out, st'') = inject_synthetic_tool_results orphans index registry policy (dropWhile is_tool ms) st'
         in (m # takeWhile is_tool ms @ results @ out, st'')))"
  by pat_completeness auto
termination
  by (relation "measure (\<lambda>(orphans, index, registry, policy, ms, st). length ms)") (auto simp: le_imp_less_Suc length_dropWhile_le)

section \<open>The repair\<close>

definition repair_history ::
  "(json_object \<Rightarrow> string option) \<Rightarrow> (string \<Rightarrow> transcript_entry list option) option \<Rightarrow> string \<Rightarrow> 'w registry option \<Rightarrow>
    tool_policy_cfg option \<Rightarrow> message list \<Rightarrow> 'w \<Rightarrow> message list \<times> repair_stats \<times> 'w" where
  "repair_history marshal store session_id registry policy messages w =
     (if messages = [] then (messages, no_repairs, w)
      else let (declared, resolved) = collect_tool_ids messages;
               orphan_results = resolved - declared; orphan_uses = declared - resolved in
      if orphan_results = {} \<and> orphan_uses = {} then (messages, no_repairs, w)
      else case load_transcript_tool_calls store session_id of
        None \<Rightarrow> (messages, no_repairs, w)
      | Some index \<Rightarrow>
          (let (out, stats) = (if orphan_results \<noteq> {} then inject_synthetic_tool_uses marshal orphan_results index messages no_repairs
                 else (messages, no_repairs))
           in if orphan_uses \<noteq> {} then inject_synthetic_tool_results orphan_uses index registry policy out (stats, w)
              else (out, stats, w)))"

section \<open>Which ids a history declares and resolves\<close>

abbreviation declared_in :: "message list \<Rightarrow> string set" where
  "declared_in ms \<equiv> \<Union> (declared_of ` set ms)"

abbreviation resolved_in :: "message list \<Rightarrow> string set" where
  "resolved_in ms \<equiv> \<Union> (resolved_of ` set ms)"

lemma collect_fold:
  "fold (\<lambda>m (declared, resolved). (declared \<union> declared_of m, resolved \<union> resolved_of m)) ms (d, r) =
     (d \<union> declared_in ms, r \<union> resolved_in ms)"
  by (induction ms arbitrary: d r) auto

lemma collect_ids: "collect_tool_ids ms = (declared_in ms, resolved_in ms)"
  by (simp add: collect_tool_ids_def collect_fold)

text \<open>The messages after the first assistant message.\<close>

fun after_assistant :: "message list \<Rightarrow> message list" where
  "after_assistant [] = []"
| "after_assistant (m # ms) = (if is_assistant m then ms else after_assistant ms)"

lemma resolved_window:
  "resolved_in ms = resolved_in (takeWhile (\<lambda>m. \<not> is_assistant m) ms) \<union> resolved_in (after_assistant ms)"
  by (induction ms) (auto simp: resolved_of_def)

definition keyed :: "tool_index \<Rightarrow> bool" where
  "keyed index \<longleftrightarrow> (\<forall>k e. map_of index k = Some e \<longrightarrow> xt_ID e = k)"

lemma index_tool_call_keyed: "keyed index \<Longrightarrow> keyed (index_tool_call tc index)"
  by (simp add: keyed_def index_tool_call_def update_conv)

lemma index_tool_calls_keyed: "keyed index \<Longrightarrow> keyed (fold index_tool_call tcs index)"
  by (induction tcs arbitrary: index) (simp_all add: index_tool_call_keyed)

lemma index_entries_keyed: "keyed index \<Longrightarrow> keyed (fold (\<lambda>e index. fold index_tool_call (xe_ToolCalls e) index) es index)"
  by (induction es arbitrary: index) (simp_all add: index_tool_calls_keyed)

lemma loaded_keyed: "load_transcript_tool_calls store s = Some index \<Longrightarrow> keyed index"
  using index_entries_keyed [of "[]"]
  by (auto simp: load_transcript_tool_calls_def keyed_def [of "[]"] split: option.splits if_splits)

section \<open>Injected tool uses\<close>

lemma synthetic_use_id [simp]: "tc_ID (synthetic_use marshal e) = xt_ID e"
  by (simp add: synthetic_use_def)

lemma synthetic_ids:
  "keyed index \<Longrightarrow>
   tc_ID ` set (fst (synthetic_tool_uses_for_assistant marshal orphans index ms stats)) =
     {i \<in> orphans. map_of index i \<noteq> None \<and> i \<in> resolved_in (takeWhile (\<lambda>m. \<not> is_assistant m) ms)}"
proof (induction ms arbitrary: stats)
  case (Cons m ms)
  let ?syn = "synthetic_tool_uses_for_assistant marshal orphans index"
  show ?case
  proof (cases "is_assistant m")
    case na: False
    show ?thesis
    proof (cases "\<not> is_tool m \<or> ms_ToolCallID m = [] \<or> ms_ToolCallID m \<notin> orphans")
      case True
      then have "?syn (m # ms) stats = ?syn ms stats" using na by auto
      with Cons True na show ?thesis by (auto simp: resolved_of_def)
    next
      case f: False
      show ?thesis
      proof (cases "map_of index (ms_ToolCallID m)")
        case None
        then have "?syn (m # ms) stats = ?syn ms (stats\<lparr>rs_Unrepairable := rs_Unrepairable stats + 1\<rparr>)" using f by auto
        with Cons f None show ?thesis by (auto simp: resolved_of_def)
      next
        case (Some e)
        have "fst (?syn (m # ms) stats) =
            synthetic_use marshal e # fst (?syn ms (stats\<lparr>rs_SyntheticToolUses := rs_SyntheticToolUses stats + 1\<rparr>))"
          using f Some by (auto split: prod.splits)
        moreover have "xt_ID e = ms_ToolCallID m" using Some Cons.prems by (auto simp: keyed_def)
        ultimately show ?thesis using Cons f Some by (auto simp: resolved_of_def)
      qed
    qed
  qed auto
qed simp

definition extends :: "message \<Rightarrow> message \<Rightarrow> bool" where
  "extends m m' \<longleftrightarrow> (\<exists>added. m' = m\<lparr>ms_ToolCalls := ms_ToolCalls m @ added\<rparr>)"

lemma extends_role [simp]:
  "extends m m' \<Longrightarrow> is_assistant m' = is_assistant m" "extends m m' \<Longrightarrow> resolved_of m' = resolved_of m"
  by (auto simp: extends_def resolved_of_def)

lemma extends_append [simp]: "extends m (m\<lparr>ms_ToolCalls := ms_ToolCalls m @ added\<rparr>)"
  by (auto simp: extends_def)

lemma extends_refl [simp]: "extends m m"
  by (auto simp: extends_def intro: exI [of _ "[]"])

lemma inject_uses_extends: "list_all2 extends ms (fst (inject_synthetic_tool_uses marshal orphans index ms stats))"
proof (induction ms arbitrary: stats)
  case (Cons m ms)
  show ?case using Cons.IH by (simp add: split_beta)
qed simp

lemma extends_resolved: "list_all2 extends ms ms' \<Longrightarrow> resolved_in ms' = resolved_in ms"
  by (induction rule: list_all2_induct) simp_all

lemma extends_after: "list_all2 extends ms ms' \<Longrightarrow> list_all2 extends (after_assistant ms) (after_assistant ms')"
  by (induction rule: list_all2_induct) simp_all

lemma inject_uses_declared:
  assumes "keyed index"
  shows "declared_in (fst (inject_synthetic_tool_uses marshal orphans index ms stats)) =
    declared_in ms \<union> {i \<in> orphans. map_of index i \<noteq> None \<and> i \<in> resolved_in (after_assistant ms)}"
proof (induction ms arbitrary: stats)
  case (Cons m ms)
  let ?inj = "inject_synthetic_tool_uses marshal orphans index"
    and ?syn = "synthetic_tool_uses_for_assistant marshal orphans index"
  show ?case
  proof (cases "is_assistant m")
    case True
    obtain added st where s: "?syn ms stats = (added, st)" by (cases "?syn ms stats")
    have o: "fst (?inj (m # ms) stats) = m\<lparr>ms_ToolCalls := ms_ToolCalls m @ added\<rparr> # fst (?inj ms st)"
      using True s by (simp add: split_beta)
    have "[] \<notin> resolved_in ms'" for ms' by (auto simp: resolved_of_def)
    moreover have "tc_ID ` set added = {i \<in> orphans. map_of index i \<noteq> None \<and> i \<in> resolved_in (takeWhile (\<lambda>m. \<not> is_assistant m) ms)}"
      using synthetic_ids [OF assms, of marshal orphans ms stats] s by simp
    ultimately have "declared_of (m\<lparr>ms_ToolCalls := ms_ToolCalls m @ added\<rparr>) = declared_of m \<union>
        {i \<in> orphans. map_of index i \<noteq> None \<and> i \<in> resolved_in (takeWhile (\<lambda>m. \<not> is_assistant m) ms)}"
      using True by (auto simp: declared_of_def)
    then show ?thesis using o Cons.IH [of st] True resolved_window [of ms] by auto
  next
    case False
    then have "fst (?inj (m # ms) stats) = m # fst (?inj ms stats)" by (simp add: split_beta)
    then show ?thesis using Cons.IH [of stats] False by auto
  qed
qed simp

section \<open>Injected tool results\<close>

lemma synthetic_result_ids [simp]:
  "is_tool (synthetic_result c i)" "declared_of (synthetic_result c i) = {}"
  "resolved_of (synthetic_result c i) = (if i = [] then {} else {i})"
  by (auto simp: synthetic_result_def text_message_def role_defs declared_of_def resolved_of_def)

lemma results_for_shape: "list_all2 (\<lambda>i m. \<exists>c. m = synthetic_result c i) is (fst (results_for index registry policy is st))"
  by (induction "is" arbitrary: st) (auto simp: split_beta Let_def)

lemma results_for_ids:
  "resolved_in (fst (results_for index registry policy is st)) = set is - {[]}"
  "declared_in (fst (results_for index registry policy is st)) = {}"
proof -
  have "list_all2 (\<lambda>i m. \<exists>c. m = synthetic_result c i) is ms \<Longrightarrow>
      resolved_in ms = set is - {[]} \<and> declared_in ms = {}" for ms
    by (induction "is" ms rule: list_all2_induct) (auto split: if_splits)
  from this [OF results_for_shape]
  show "resolved_in (fst (results_for index registry policy is st)) = set is - {[]}"
    "declared_in (fst (results_for index registry policy is st)) = {}" by blast+
qed

lemma owned_set: "[] \<notin> orphans \<Longrightarrow> set (owned_orphans orphans m) = declared_of m \<inter> orphans"
  by (auto simp: owned_orphans_def declared_of_def)

lemma block_declares_nothing: "declared_in (takeWhile is_tool ms) = {}"
  by (induction ms) (auto simp: declared_of_def)

lemma split_block: "\<Union> (f ` set ms) = \<Union> (f ` set (takeWhile p ms)) \<union> \<Union> (f ` set (dropWhile p ms))"
  by (metis image_Un set_append takeWhile_dropWhile_id Union_Un_distrib)

lemma inject_results_ids:
  assumes "[] \<notin> orphans"
  shows "declared_in (fst (inject_synthetic_tool_results orphans index registry policy ms st)) = declared_in ms \<and>
    resolved_in (fst (inject_synthetic_tool_results orphans index registry policy ms st)) =
      resolved_in ms \<union> (declared_in ms \<inter> orphans)"
  using assms
proof (induction orphans index registry policy ms st rule: inject_synthetic_tool_results.induct)
  case (2 orphans index registry policy m ms st)
  let ?inj = "inject_synthetic_tool_results orphans index registry policy"
  show ?case
  proof (cases "owned_orphans orphans m = []")
    case True
    then have "declared_of m \<inter> orphans = {}" using owned_set [OF 2(3), of m] by simp
    moreover have "fst (?inj (m # ms) st) = m # fst (?inj ms st)" using True by (simp add: split_beta)
    ultimately show ?thesis using 2(1) [OF True 2(3)] by auto
  next
    case False
    obtain rs st' where r: "results_for index registry policy (owned_orphans orphans m) st = (rs, st')"
      by (cases "results_for index registry policy (owned_orphans orphans m) st")
    have o: "fst (?inj (m # ms) st) = m # takeWhile is_tool ms @ rs @ fst (?inj (dropWhile is_tool ms) st')"
      using False r by (simp add: split_beta)
    have rs: "resolved_in rs = declared_of m \<inter> orphans" "declared_in rs = {}"
      using results_for_ids [of index registry policy "owned_orphans orphans m" st] r owned_set [OF 2(3), of m] 2(3) by auto
    have out: "declared_in (fst (?inj (dropWhile is_tool ms) st')) = declared_in (dropWhile is_tool ms)"
      "resolved_in (fst (?inj (dropWhile is_tool ms) st')) =
        resolved_in (dropWhile is_tool ms) \<union> (declared_in (dropWhile is_tool ms) \<inter> orphans)"
      using 2(2) [OF False _ refl 2(3)] r by auto
    have ms: "declared_in ms = declared_in (dropWhile is_tool ms)"
      "resolved_in ms = resolved_in (takeWhile is_tool ms) \<union> resolved_in (dropWhile is_tool ms)"
      using split_block [of declared_of ms is_tool] block_declares_nothing [of ms] split_block [of resolved_of ms is_tool] by simp_all
    show ?thesis
      unfolding o set_append list.set UN_insert UN_Un block_declares_nothing rs out ms by (simp add: ac_simps Int_Un_distrib)
  qed
qed simp

lemma inject_results_after:
  assumes "[] \<notin> orphans" and "i \<notin> orphans"
  shows "i \<in> resolved_in (after_assistant (fst (inject_synthetic_tool_results orphans index registry policy ms st))) \<longleftrightarrow>
    i \<in> resolved_in (after_assistant ms)"
  using assms
proof (induction orphans index registry policy ms st rule: inject_synthetic_tool_results.induct)
  case (2 orphans index registry policy m ms st)
  let ?inj = "inject_synthetic_tool_results orphans index registry policy"
  show ?case
  proof (cases "owned_orphans orphans m = []")
    case True
    then have o: "fst (?inj (m # ms) st) = m # fst (?inj ms st)" by (simp add: split_beta)
    show ?thesis
    proof (cases "is_assistant m")
      case True
      have "i \<in> resolved_in (fst (?inj ms st)) \<longleftrightarrow> i \<in> resolved_in ms"
        unfolding conjunct2 [OF inject_results_ids [OF 2(3), of index registry policy ms st]] using 2(4) by simp
      then show ?thesis unfolding o by (simp only: after_assistant.simps True if_True)
    next
      case False
      then show ?thesis unfolding o using 2(1) [OF \<open>owned_orphans orphans m = []\<close> 2(3,4)] by (simp only: after_assistant.simps if_False)
    qed
  next
    case False
    then have a: "is_assistant m" by (metis owned_orphans_def)
    have "fst (?inj (m # ms) st) = m # tl (fst (?inj (m # ms) st))" using False by (simp add: split_beta)
    moreover have "i \<notin> resolved_of m" using a by (auto simp: resolved_of_def)
    moreover have "i \<in> resolved_in (fst (?inj (m # ms) st)) \<longleftrightarrow> i \<in> resolved_in (m # ms)"
      unfolding conjunct2 [OF inject_results_ids [OF 2(3), of index registry policy "m # ms" st]] using 2(4) by simp
    ultimately have "i \<in> resolved_in (tl (fst (?inj (m # ms) st))) \<longleftrightarrow> i \<in> resolved_in ms"
      by (metis (no_types, lifting) UN_insert Un_iff list.simps(15))
    moreover have "after_assistant (fst (?inj (m # ms) st)) = tl (fst (?inj (m # ms) st))"
      using a False by (simp add: split_beta)
    ultimately show ?thesis using a by (simp only: after_assistant.simps if_True)
  qed
qed simp

lemma inject_results_subseq: "subseq ms (fst (inject_synthetic_tool_results orphans index registry policy ms st))"
proof (induction orphans index registry policy ms st rule: inject_synthetic_tool_results.induct)
  case (2 orphans index registry policy m ms st)
  show ?case
  proof (cases "owned_orphans orphans m = []")
    case True
    then show ?thesis using 2(1) [OF True] by (simp add: split_beta)
  next
    case False
    obtain rs st' where r: "results_for index registry policy (owned_orphans orphans m) st = (rs, st')"
      by (cases "results_for index registry policy (owned_orphans orphans m) st")
    have "subseq (dropWhile is_tool ms) (fst (inject_synthetic_tool_results orphans index registry policy (dropWhile is_tool ms) st'))"
      using 2(2) [OF False _ refl] r by auto
    then have "subseq (takeWhile is_tool ms @ dropWhile is_tool ms)
        (takeWhile is_tool ms @ rs @ fst (inject_synthetic_tool_results orphans index registry policy (dropWhile is_tool ms) st'))"
      by (intro list_emb_append_mono list_emb_append2) auto
    then show ?thesis using False r by (simp add: split_beta)
  qed
qed simp

section \<open>The repair as a whole\<close>

lemma inject_uses_nothing:
  assumes "keyed index" and "\<forall>i \<in> orphans. map_of index i = None \<or> i \<notin> resolved_in (after_assistant ms)"
  shows "fst (inject_synthetic_tool_uses marshal orphans index ms stats) = ms"
  using assms(2)
proof (induction ms arbitrary: stats)
  case (Cons m ms)
  show ?case
  proof (cases "is_assistant m")
    case True
    obtain added st where s: "synthetic_tool_uses_for_assistant marshal orphans index ms stats = (added, st)"
      by (cases "synthetic_tool_uses_for_assistant marshal orphans index ms stats")
    have none: "map_of index i = None \<or> i \<notin> resolved_in ms" if "i \<in> orphans" for i
      using bspec [OF Cons.prems that] unfolding after_assistant.simps if_P [OF True] .
    have w: "i \<in> resolved_in (takeWhile (\<lambda>m. \<not> is_assistant m) ms) \<Longrightarrow> i \<in> resolved_in ms"
      "i \<in> resolved_in (after_assistant ms) \<Longrightarrow> i \<in> resolved_in ms" for i
      by (rule subsetD [OF equalityD2 [OF resolved_window [of ms]]], erule UnI1)
        (rule subsetD [OF equalityD2 [OF resolved_window [of ms]]], erule UnI2)
    have "tc_ID ` set added =
        {i \<in> orphans. map_of index i \<noteq> None \<and> i \<in> resolved_in (takeWhile (\<lambda>m. \<not> is_assistant m) ms)}"
      using synthetic_ids [OF assms(1), of marshal orphans ms stats] unfolding s fst_conv .
    moreover have "\<not> (i \<in> orphans \<and> map_of index i \<noteq> None \<and> i \<in> resolved_in (takeWhile (\<lambda>m. \<not> is_assistant m) ms))" for i
      using none [of i] w(1) [of i] by argo
    ultimately have "tc_ID ` set added = {}" by (simp only: Collect_empty_eq simp_thms not_False_eq_True)
    then have "added = []" by simp
    moreover have "\<forall>i \<in> orphans. map_of index i = None \<or> i \<notin> resolved_in (after_assistant ms)"
    proof
      fix i assume "i \<in> orphans"
      from none [OF this] w(2) [of i] show "map_of index i = None \<or> i \<notin> resolved_in (after_assistant ms)" by argo
    qed
    then have "fst (inject_synthetic_tool_uses marshal orphans index ms st) = ms" by (rule Cons.IH)
    ultimately show ?thesis using True s by (simp add: split_beta)
  next
    case False
    then have "\<forall>i \<in> orphans. map_of index i = None \<or> i \<notin> resolved_in (after_assistant ms)"
      using Cons.prems by (simp only: after_assistant.simps if_False)
    then have "fst (inject_synthetic_tool_uses marshal orphans index ms stats) = ms" by (rule Cons.IH)
    then show ?thesis using False by (simp add: split_beta)
  qed
qed simp

lemma inject_results_nothing: "inject_synthetic_tool_results {} index registry policy ms st = (ms, st)"
  by (induction ms) (simp_all add: owned_orphans_def)

lemma synthetic_uses_nothing: "synthetic_tool_uses_for_assistant marshal {} index ms stats = ([], stats)"
  by (induction ms) simp_all

lemma inject_uses_empty: "inject_synthetic_tool_uses marshal {} index ms stats = (ms, stats)"
  by (induction ms) (simp_all add: synthetic_uses_nothing)

lemma repair_form:
  assumes "load_transcript_tool_calls store session_id = Some index"
  shows "fst (repair_history marshal store session_id registry policy ms w) =
    fst (inject_synthetic_tool_results (declared_in ms - resolved_in ms) index registry policy
      (fst (inject_synthetic_tool_uses marshal (resolved_in ms - declared_in ms) index ms no_repairs))
      (snd (inject_synthetic_tool_uses marshal (resolved_in ms - declared_in ms) index ms no_repairs), w))"
proof (cases "ms = []")
  case False
  then show ?thesis
    unfolding repair_history_def collect_ids Let_def prod.case assms option.case if_not_P [OF False]
    by (cases "resolved_in ms - declared_in ms = {}"; cases "declared_in ms - resolved_in ms = {}")
      (simp_all only: inject_results_nothing inject_uses_empty split_beta fst_conv snd_conv if_True if_False simp_thms split: if_split)
qed (simp add: repair_history_def)

text \<open>What is left unresolved, and what the repair keeps.\<close>

lemma repair_ids:
  fixes marshal registry policy ms w
  assumes l: "load_transcript_tool_calls store session_id = Some index"
  defines "out \<equiv> fst (repair_history marshal store session_id registry policy ms w)"
  shows "resolved_in out = resolved_in ms \<union> declared_in ms"
    and "declared_in out = declared_in ms \<union>
      {i \<in> resolved_in ms - declared_in ms. map_of index i \<noteq> None \<and> i \<in> resolved_in (after_assistant ms)}"
    and "i \<in> resolved_in ms \<Longrightarrow> i \<in> resolved_in (after_assistant out) \<longleftrightarrow> i \<in> resolved_in (after_assistant ms)"
    and "\<exists>ms'. list_all2 extends ms ms' \<and> subseq ms' out"
proof -
  let ?u = "fst (inject_synthetic_tool_uses marshal (resolved_in ms - declared_in ms) index ms no_repairs)"
  have e: "list_all2 extends ms ?u" by (rule inject_uses_extends)
  have d: "declared_in ?u = declared_in ms \<union>
      {i \<in> resolved_in ms - declared_in ms. map_of index i \<noteq> None \<and> i \<in> resolved_in (after_assistant ms)}"
    by (rule inject_uses_declared [OF loaded_keyed [OF l]])
  have o: "[] \<notin> declared_in ms - resolved_in ms" by (auto simp: declared_of_def split: if_splits)
  show "\<exists>ms'. list_all2 extends ms ms' \<and> subseq ms' out"
    using e inject_results_subseq unfolding out_def repair_form [OF l] by blast
  show "declared_in out = declared_in ms \<union>
      {i \<in> resolved_in ms - declared_in ms. map_of index i \<noteq> None \<and> i \<in> resolved_in (after_assistant ms)}"
    unfolding out_def repair_form [OF l] conjunct1 [OF inject_results_ids [OF o]] by (rule d)
  show "resolved_in out = resolved_in ms \<union> declared_in ms"
    unfolding out_def repair_form [OF l] conjunct2 [OF inject_results_ids [OF o]] extends_resolved [OF e] d by blast
  assume "i \<in> resolved_in ms"
  then have "i \<notin> declared_in ms - resolved_in ms" by blast
  from inject_results_after [OF o this]
  show "i \<in> resolved_in (after_assistant out) \<longleftrightarrow> i \<in> resolved_in (after_assistant ms)"
    unfolding out_def repair_form [OF l] extends_resolved [OF extends_after [OF e], symmetric] .
qed

text \<open>How many calls of a history carry an id, and how many results answer it.\<close>

definition calls_of :: "message \<Rightarrow> tool_call list" where
  "calls_of m = (if is_assistant m then ms_ToolCalls m else [])"

definition call_count :: "string \<Rightarrow> message list \<Rightarrow> nat" where
  "call_count i ms = length (filter (\<lambda>c. tc_ID c = i) (concat (map calls_of ms)))"

definition result_count :: "string \<Rightarrow> message list \<Rightarrow> nat" where
  "result_count i ms = length (filter (\<lambda>m. is_tool m \<and> ms_ToolCallID m = i) ms)"

lemma count_append [simp]:
  "call_count i (ms @ ns) = call_count i ms + call_count i ns" "result_count i (ms @ ns) = result_count i ms + result_count i ns"
  by (simp_all add: call_count_def result_count_def)

lemma count_block: "call_count i (takeWhile is_tool ms) = 0"
  by (induction ms) (auto simp: call_count_def calls_of_def)

lemma results_for_count: "result_count i (fst (results_for index registry policy is st)) = count_list is i"
proof -
  have "list_all2 (\<lambda>i m. \<exists>c. m = synthetic_result c i) is ms \<Longrightarrow> result_count i ms = count_list is i" for ms
    by (induction "is" ms rule: list_all2_induct) (auto simp: result_count_def synthetic_result_def text_message_def role_defs)
  from this [OF results_for_shape] show ?thesis .
qed

lemma owned_count:
  "count_list (owned_orphans orphans m) i = (if i \<in> orphans then length (filter (\<lambda>c. tc_ID c = i) (calls_of m)) else 0)"
proof -
  have "count_list (filter (\<lambda>i. i \<in> orphans) (map tc_ID cs)) i = (if i \<in> orphans then length (filter (\<lambda>c. tc_ID c = i) cs) else 0)"
    for cs :: "tool_call list"
    by (induction cs) auto
  then show ?thesis by (simp add: owned_orphans_def calls_of_def)
qed

lemma inject_results_count:
  "result_count i (fst (inject_synthetic_tool_results orphans index registry policy ms st)) =
   result_count i ms + (if i \<in> orphans then call_count i ms else 0)"
proof (induction orphans index registry policy ms st rule: inject_synthetic_tool_results.induct)
  case (2 orphans index registry policy m ms st)
  let ?inj = "inject_synthetic_tool_results orphans index registry policy"
  have calls: "call_count i (m # ms) = length (filter (\<lambda>c. tc_ID c = i) (calls_of m)) + call_count i ms"
    and results: "result_count i (m # ns) = (if is_tool m \<and> ms_ToolCallID m = i then 1 else 0) + result_count i ns" for ns
    by (simp_all add: call_count_def result_count_def)
  show ?case
  proof (cases "owned_orphans orphans m = []")
    case True
    then have "fst (?inj (m # ms) st) = m # fst (?inj ms st)" by (simp add: split_beta)
    moreover have "i \<in> orphans \<Longrightarrow> length (filter (\<lambda>c. tc_ID c = i) (calls_of m)) = 0"
      using owned_count [of orphans m i] True by simp
    ultimately show ?thesis using 2(1) [OF True] by (simp add: calls results)
  next
    case False
    obtain rs st' where r: "results_for index registry policy (owned_orphans orphans m) st = (rs, st')"
      by (cases "results_for index registry policy (owned_orphans orphans m) st")
    have o: "fst (?inj (m # ms) st) = m # takeWhile is_tool ms @ rs @ fst (?inj (dropWhile is_tool ms) st')"
      using False r by (simp add: split_beta)
    have rs: "result_count i rs = (if i \<in> orphans then length (filter (\<lambda>c. tc_ID c = i) (calls_of m)) else 0)"
      using results_for_count [of i index registry policy "owned_orphans orphans m" st] r owned_count by simp
    have ih: "result_count i (fst (?inj (dropWhile is_tool ms) st')) =
        result_count i (dropWhile is_tool ms) + (if i \<in> orphans then call_count i (dropWhile is_tool ms) else 0)"
      using 2(2) [OF False _ refl] r by auto
    have ms: "call_count i ms = call_count i (dropWhile is_tool ms)"
      "result_count i ms = result_count i (takeWhile is_tool ms) + result_count i (dropWhile is_tool ms)"
      using count_append [of i "takeWhile is_tool ms" "dropWhile is_tool ms"] count_block [of i ms] by simp_all
    show ?thesis unfolding o results count_append rs ih calls ms by simp
  qed
qed (simp add: result_count_def call_count_def)

lemma inject_uses_count:
  assumes "keyed index" and "i \<notin> orphans"
  shows "call_count i (fst (inject_synthetic_tool_uses marshal orphans index ms stats)) = call_count i ms"
proof (induction ms arbitrary: stats)
  case (Cons m ms)
  obtain added st where s: "synthetic_tool_uses_for_assistant marshal orphans index ms stats = (added, st)" by fastforce
  have "i \<notin> tc_ID ` set added" using synthetic_ids [OF assms(1), of marshal orphans ms stats] s assms(2) by auto
  then have "filter (\<lambda>c. tc_ID c = i) added = []" by (auto simp: filter_empty_conv)
  then show ?case using Cons s by (simp add: call_count_def calls_of_def split_beta)
qed simp

lemma extends_results: "list_all2 extends ms ms' \<Longrightarrow> result_count i ms' = result_count i ms"
  by (induction rule: list_all2_induct) (auto simp: result_count_def extends_def)

lemma repair_counts:
  assumes l: "load_transcript_tool_calls store session_id = Some index"
  shows "result_count i (fst (repair_history marshal store session_id registry policy ms w)) =
    result_count i ms + (if i \<in> declared_in ms - resolved_in ms then call_count i ms else 0)"
  unfolding repair_form [OF l] inject_results_count extends_results [OF inject_uses_extends]
  using inject_uses_count [OF loaded_keyed [OF l], of i "resolved_in ms - declared_in ms"] by auto

text \<open>
  C7. What the repair achieves. Without a transcript (no store, no session, an unreadable file) the history goes out
  unchanged. With one: every id that a tool call names has a result, and the only results whose id no
  call names are those the transcript does not know or that no assistant message precedes. For an id that had no
  result, exactly one is added for each call that carries it; for any other, the empty id and one that was answered
  once but is called twice among them, none is. Nothing is dropped or reordered: the old messages, some with further
  calls at their end, are a subsequence of the new ones.
\<close>

theorem repair_reconciles:
  "(case load_transcript_tool_calls store session_id of
     None \<Rightarrow> repair_history marshal store session_id registry policy ms w = (ms, no_repairs, w)
   | Some index \<Rightarrow>
       (let out = fst (repair_history marshal store session_id registry policy ms w);
            (declared, resolved) = collect_tool_ids ms; (declared', resolved') = collect_tool_ids out in
        declared' \<subseteq> resolved' \<and> resolved' = resolved \<union> declared \<and>
        resolved' - declared' = resolved - declared -
          (dom (map_of index) \<inter> snd (collect_tool_ids (after_assistant ms))) \<and>
        result_count i out = result_count i ms + (if i \<in> declared - resolved then call_count i ms else 0) \<and>
        (\<exists>ms'. list_all2 extends ms ms' \<and> subseq ms' out)))"
proof (cases "load_transcript_tool_calls store session_id")
  case None
  then show ?thesis by (simp add: repair_history_def split_beta Let_def)
next
  case (Some index)
  note r = repair_ids [OF Some, where marshal = marshal and registry = registry and policy = policy and ms = ms and w = w]
  show ?thesis
    unfolding Some option.case Let_def collect_ids prod.case r(1,2) repair_counts [OF Some] using r(4) by auto
qed

text \<open>
  Repairing is idempotent: a repaired history goes out unchanged when it is repaired again from
  the same transcript, whatever the tools would now answer.
\<close>

theorem repair_idempotent:
  "fst (repair_history marshal store session_id registry' policy'
     (fst (repair_history marshal store session_id registry policy ms w)) w') =
   fst (repair_history marshal store session_id registry policy ms w)"
proof (cases "load_transcript_tool_calls store session_id")
  case None
  then show ?thesis by (simp add: repair_history_def split_beta Let_def)
next
  case (Some index)
  let ?o = "fst (repair_history marshal store session_id registry policy ms w)"
  note r = repair_ids [OF Some, where marshal = marshal and registry = registry and policy = policy and ms = ms and w = w]
  have d: "declared_in ?o - resolved_in ?o = {}" unfolding r(1,2) by blast
  have "map_of index i = None \<or> i \<notin> resolved_in (after_assistant ?o)" if "i \<in> resolved_in ?o - declared_in ?o" for i
    using that r(3) [of i] unfolding r(1,2) by blast
  then have "fst (inject_synthetic_tool_uses marshal (resolved_in ?o - declared_in ?o) index ?o no_repairs) = ?o"
    by (intro inject_uses_nothing [OF loaded_keyed [OF Some]]) blast
  then show ?thesis unfolding repair_form [OF Some, of _ _ _ ?o] d inject_results_nothing by simp
qed

section \<open>Which tools the repair runs\<close>

text \<open>A registry that logs the names it is asked to run.\<close>

definition logged :: "(string \<Rightarrow> json_object \<Rightarrow> tool_result option) \<Rightarrow> string list registry" where
  "logged run name args w = (w @ [name], run name args)"

definition may_rerun :: "tool_policy_cfg option \<Rightarrow> string \<Rightarrow> bool" where
  "may_rerun policy name \<longleftrightarrow>
     is_idempotent_tool name \<and> (policy = None \<or> resolve_effective_policy policy name \<noteq> ''deny'')"

definition runs_allowed :: "tool_policy_cfg option \<Rightarrow> string list \<Rightarrow> string list \<Rightarrow> bool" where
  "runs_allowed policy w w' \<longleftrightarrow> (\<exists>runs. w' = w @ runs \<and> list_all (may_rerun policy) runs)"

lemma runs_allowed_refl [simp]: "runs_allowed policy w w"
  by (simp add: runs_allowed_def)

lemma runs_allowed_trans: "runs_allowed policy x y \<Longrightarrow> runs_allowed policy y z \<Longrightarrow> runs_allowed policy x z"
  by (auto simp: runs_allowed_def)

lemma try_reinvoke_runs:
  "runs_allowed policy (snd st) (snd (snd (try_reinvoke_idempotent (Some (logged run)) policy entry st)))"
  unfolding runs_allowed_def try_reinvoke_idempotent_def logged_def
  by (auto simp: may_rerun_def split: option.split)

lemma results_for_runs: "runs_allowed policy (snd st) (snd (snd (results_for index (Some (logged run)) policy is st)))"
proof (induction "is" arbitrary: st)
  case (Cons i "is")
  obtain c st' where t: "try_reinvoke_idempotent (Some (logged run)) policy (map_of index i) st = (c, st')"
    by (cases "try_reinvoke_idempotent (Some (logged run)) policy (map_of index i) st")
  define st'' where "st'' = (case c of Some c \<Rightarrow> st'
     | None \<Rightarrow> ((fst st')\<lparr>rs_SyntheticErrorStubs := rs_SyntheticErrorStubs (fst st') + 1\<rparr>, snd st'))"
  have "runs_allowed policy (snd st) (snd st'')"
    using try_reinvoke_runs [of policy st run "map_of index i"] t by (auto simp: st''_def split: option.split)
  moreover have "snd (snd (results_for index (Some (logged run)) policy (i # is) st)) =
      snd (snd (results_for index (Some (logged run)) policy is st''))"
    by (simp add: t Let_def split_beta st''_def split: option.split)
  ultimately show ?case using runs_allowed_trans [OF _ Cons.IH [of st'']] by simp
qed simp

lemma inject_results_runs:
  "runs_allowed policy (snd st) (snd (snd (inject_synthetic_tool_results orphans index (Some (logged run)) policy ms st)))"
proof (induction orphans index "Some (logged run)" policy ms st rule: inject_synthetic_tool_results.induct)
  case (2 orphans index policy m ms st)
  show ?case
  proof (cases "owned_orphans orphans m = []")
    case True
    then show ?thesis using 2(1) [OF True] by (simp add: split_beta)
  next
    case False
    obtain rs st' where r: "results_for index (Some (logged run)) policy (owned_orphans orphans m) st = (rs, st')"
      by (cases "results_for index (Some (logged run)) policy (owned_orphans orphans m) st")
    have "runs_allowed policy (snd st')
        (snd (snd (inject_synthetic_tool_results orphans index (Some (logged run)) policy (dropWhile is_tool ms) st')))"
      using 2(2) [OF False _ refl] r by auto
    with results_for_runs [of policy st index run "owned_orphans orphans m"] show ?thesis
      using False r by (auto simp: split_beta intro: runs_allowed_trans)
  qed
qed simp

text \<open>
  The repair never runs a tool outside its list of idempotent tools, nor one the policy denies,
  and without an orphaned tool call it runs nothing. A tool whose policy is ask is run without
  asking.
\<close>

theorem repair_runs_allowed:
  "(\<exists>runs. snd (snd (repair_history marshal store session_id (Some (logged run)) policy ms w)) = w @ runs \<and>
     list_all (may_rerun policy) runs \<and>
     (if fst (collect_tool_ids ms) \<subseteq> snd (collect_tool_ids ms) then runs = [] else True)) \<and>
   (let call = \<lparr>tc_ID = ''c1'', tc_Type = ''function'', tc_Function = None, tc_Name = ''web_fetch'', tc_Arguments = []\<rparr>;
        entry = \<lparr>xt_ID = ''c1'', xt_Tool = ''web_fetch'', xt_Parameters = []\<rparr>;
        asks = allow_all_cfg\<lparr>tp_Policies := [(''web_fetch'', ''ask'')]\<rparr>
    in resolve_effective_policy (Some asks) ''web_fetch'' = ''ask'' \<and>
      snd (snd (repair_history (\<lambda>_. None) (Some (\<lambda>_. Some [\<lparr>xe_ToolCalls = [entry]\<rparr>])) ''s''
        (Some (logged (\<lambda>_ _. Some \<lparr>tr_ForLLM = ''page'', tr_IsError = False\<rparr>))) (Some asks)
        [text_message ''user'' ''u'', (text_message ''assistant'' [])\<lparr>ms_ToolCalls := [call]\<rparr>] [])) = [''web_fetch''])"
proof -
  let ?r = "repair_history marshal store session_id (Some (logged run)) policy ms w"
  have "\<exists>runs. snd (snd ?r) = w @ runs \<and> list_all (may_rerun policy) runs \<and>
      (runs = [] \<or> \<not> declared_in ms \<subseteq> resolved_in ms)"
  proof (cases "ms = [] \<or> declared_in ms \<subseteq> resolved_in ms \<or> load_transcript_tool_calls store session_id = None")
    case True
    then have "snd (snd ?r) = w"
      unfolding repair_history_def collect_ids Let_def prod.case
      by (auto simp: split_beta Diff_eq_empty_iff split: option.split)
    then show ?thesis by simp
  next
    case False
    then obtain index where "load_transcript_tool_calls store session_id = Some index" by blast
    moreover have "ms \<noteq> []" "declared_in ms - resolved_in ms \<noteq> {}" using False by blast+
    ultimately have "\<exists>u st. snd (snd ?r) = snd (snd (inject_synthetic_tool_results (declared_in ms - resolved_in ms) index
        (Some (logged run)) policy u (st, w)))"
      unfolding repair_history_def collect_ids Let_def prod.case by (auto simp: split_beta)
    then show ?thesis using inject_results_runs False unfolding runs_allowed_def by (metis snd_conv)
  qed
  moreover have "let call = \<lparr>tc_ID = ''c1'', tc_Type = ''function'', tc_Function = None, tc_Name = ''web_fetch'', tc_Arguments = []\<rparr>;
        entry = \<lparr>xt_ID = ''c1'', xt_Tool = ''web_fetch'', xt_Parameters = []\<rparr>;
        asks = allow_all_cfg\<lparr>tp_Policies := [(''web_fetch'', ''ask'')]\<rparr>
    in resolve_effective_policy (Some asks) ''web_fetch'' = ''ask'' \<and>
      snd (snd (repair_history (\<lambda>_. None) (Some (\<lambda>_. Some [\<lparr>xe_ToolCalls = [entry]\<rparr>])) ''s''
        (Some (logged (\<lambda>_ _. Some \<lparr>tr_ForLLM = ''page'', tr_IsError = False\<rparr>))) (Some asks)
        [text_message ''user'' ''u'', (text_message ''assistant'' [])\<lparr>ms_ToolCalls := [call]\<rparr>] [])) = [''web_fetch'']"
    by code_simp
  ultimately show ?thesis unfolding collect_ids fst_conv snd_conv if_bool_eq_conj by blast
qed

end
