(* ===== verification/History_Sanitize.thy ===== *)
theory History_Sanitize
  imports Chat_Messages
begin

text \<open>
  The sanitizer of the history a provider gets (pkg/agent/context.go): two passes that drop system
  messages, tool results without a call and tool calls without their results. The lemmas show that
  the result satisfies what strict providers require, and that such a history is left alone, as long
  as no tool-call id is used twice.
\<close>

section \<open>The two passes\<close>

definition is_system :: "message \<Rightarrow> bool" where "is_system m \<longleftrightarrow> ms_Role m = ''system''"

text \<open>The walk back to the nearest message that is not a tool result.\<close>

definition found_assistant :: "message list \<Rightarrow> bool" where
  "found_assistant sanitized =
     (case dropWhile is_tool (rev sanitized) of
        [] \<Rightarrow> False
      | a # _ \<Rightarrow> is_assistant a \<and> ms_ToolCalls a \<noteq> [])"

definition keeps :: "message list \<Rightarrow> message \<Rightarrow> bool" where
  "keeps sanitized msg =
     (if is_system msg then False
      else if is_tool msg then (if sanitized = [] then False else found_assistant sanitized)
      else if is_assistant msg then
        (if ms_ToolCalls msg \<noteq> [] then
           (if sanitized = [] then False
            else is_user (last sanitized) \<or> is_tool (last sanitized))
         else True)
      else True)"

definition first_pass :: "message list \<Rightarrow> message list" where
  "first_pass history = fold (\<lambda>msg sanitized. if keeps sanitized msg then sanitized @ [msg] else sanitized) history []"

definition all_found :: "message \<Rightarrow> message list \<Rightarrow> bool" where
  "all_found msg following \<longleftrightarrow> tc_ID ` set (ms_ToolCalls msg) \<subseteq> ms_ToolCallID ` set (takeWhile is_tool following)"

function second_pass :: "string set \<Rightarrow> message list \<Rightarrow> message list" where
  "second_pass seen [] = []"
| "second_pass seen (msg # following) =
     (if is_tool msg \<and> ms_ToolCallID msg \<noteq> [] \<and> ms_ToolCallID msg \<in> seen then second_pass seen following
      else let seen = (if is_tool msg \<and> ms_ToolCallID msg \<noteq> [] then insert (ms_ToolCallID msg) seen else seen) in
      if is_assistant msg \<and> ms_ToolCalls msg \<noteq> [] \<and> \<not> all_found msg following
      then second_pass seen (dropWhile is_tool following)
      else msg # second_pass seen following)"
  by pat_completeness auto
termination
  by (relation "measure (\<lambda>(seen, ms). length ms)") (auto simp: le_imp_less_Suc length_dropWhile_le)

definition sanitize_history_for_provider :: "message list \<Rightarrow> message list" where
  "sanitize_history_for_provider history =
     (if history = [] then history else second_pass {} (first_pass history))"

section \<open>What a provider accepts\<close>

text \<open>
  A scan of a history with two flags: whether the nearest message that is not a tool result is an
  assistant message with calls, and whether the previous message is a user message or a tool result.
\<close>

fun in_order :: "bool \<Rightarrow> bool \<Rightarrow> message list \<Rightarrow> bool" where
  "in_order called turn [] = True"
| "in_order called turn (m # ms) =
     (if is_system m then False
      else if is_tool m then called \<and> in_order called True ms
      else if is_assistant m then (ms_ToolCalls m = [] \<or> turn) \<and> in_order (ms_ToolCalls m \<noteq> []) False ms
      else in_order False (is_user m) ms)"

fun answered :: "message list \<Rightarrow> bool" where
  "answered [] = True"
| "answered (m # ms) = ((is_assistant m \<longrightarrow> all_found m ms) \<and> answered ms)"

definition accepted :: "message list \<Rightarrow> bool" where
  "accepted h \<longleftrightarrow> in_order False False h \<and> answered h"

definition result_ids :: "message list \<Rightarrow> string list" where
  "result_ids h = filter (\<lambda>i. i \<noteq> []) (map ms_ToolCallID (filter is_tool h))"

lemma result_ids_simps [simp]:
  "result_ids [] = []"
  "result_ids (m # ms) = (if is_tool m \<and> ms_ToolCallID m \<noteq> [] then ms_ToolCallID m # result_ids ms else result_ids ms)"
  "result_ids (ms @ ns) = result_ids ms @ result_ids ns"
  by (simp_all add: result_ids_def)

lemma no_calls_found [simp]: "ms_ToolCalls m = [] \<Longrightarrow> all_found m ms"
  by (simp add: all_found_def)

section \<open>The first pass\<close>

fun scan :: "bool \<Rightarrow> bool \<Rightarrow> message list \<Rightarrow> message list" where
  "scan called turn [] = []"
| "scan called turn (m # ms) =
     (if is_system m then scan called turn ms
      else if is_tool m then (if called then m # scan called True ms else scan called turn ms)
      else if is_assistant m then
        (if ms_ToolCalls m = [] \<or> turn then m # scan (ms_ToolCalls m \<noteq> []) False ms else scan called turn ms)
      else m # scan False (is_user m) ms)"

definition ends_turn :: "message list \<Rightarrow> bool" where
  "ends_turn s \<longleftrightarrow> s \<noteq> [] \<and> (is_user (last s) \<or> is_tool (last s))"

lemma ends_turn_append [simp]: "ends_turn (s @ [m]) = (is_user m \<or> is_tool m)" "\<not> ends_turn []"
  by (simp_all add: ends_turn_def)

lemma found_assistant_append [simp]:
  "found_assistant (s @ [m]) = (if is_tool m then found_assistant s else is_assistant m \<and> ms_ToolCalls m \<noteq> [])"
  "\<not> found_assistant []"
  by (simp_all add: found_assistant_def)

lemma keeps_eq:
  "keeps s m = (if is_system m then False else if is_tool m then found_assistant s
     else if is_assistant m then ms_ToolCalls m = [] \<or> ends_turn s else True)"
  by (auto simp: keeps_def ends_turn_def)

lemma first_pass_scan:
  "fold (\<lambda>msg sanitized. if keeps sanitized msg then sanitized @ [msg] else sanitized) h s =
     s @ scan (found_assistant s) (ends_turn s) h"
proof (induction h arbitrary: s)
  case (Cons m h)
  consider "is_system m" | "\<not> is_system m" "is_tool m" | "\<not> is_system m" "\<not> is_tool m" "is_assistant m"
    | "\<not> is_system m" "\<not> is_tool m" "\<not> is_assistant m" by blast
  then show ?case
  proof cases
    case 1
    then show ?thesis using Cons.IH [of s] by (simp add: keeps_eq)
  next
    case 2
    then show ?thesis using Cons.IH [of s] Cons.IH [of "s @ [m]"] by (simp add: keeps_eq)
  next
    case 3
    moreover have "\<not> is_user m" using 3 by blast
    ultimately show ?thesis using Cons.IH [of s] Cons.IH [of "s @ [m]"] by (simp add: keeps_eq)
  next
    case 4
    then show ?thesis using Cons.IH [of "s @ [m]"] by (simp add: keeps_eq)
  qed
qed simp

lemma first_pass_eq: "first_pass h = scan False False h"
  by (simp add: first_pass_def first_pass_scan)

lemma scan_in_order: "in_order called turn (scan called turn h)"
  by (induction called turn h rule: scan.induct) auto

lemma scan_fixed: "in_order called turn h \<Longrightarrow> scan called turn h = h"
  by (induction called turn h rule: scan.induct) (auto split: if_splits)

lemma scan_subseq: "subseq (scan called turn h) h"
  by (induction h arbitrary: called turn) (auto intro: list_emb_Cons)

section \<open>The second pass\<close>

lemma second_pass_subseq: "subseq (second_pass seen ms) ms"
proof (induction seen ms rule: second_pass.induct)
  case (2 seen m ms)
  let ?seen = "if is_tool m \<and> ms_ToolCallID m \<noteq> [] then insert (ms_ToolCallID m) seen else seen"
  show ?case
  proof (cases "is_tool m \<and> ms_ToolCallID m \<noteq> [] \<and> ms_ToolCallID m \<in> seen")
    case True
    with 2(1) show ?thesis by (auto intro: list_emb_Cons)
  next
    case f: False
    show ?thesis
    proof (cases "is_assistant m \<and> ms_ToolCalls m \<noteq> [] \<and> \<not> all_found m ms")
      case True
      have "subseq (dropWhile is_tool ms) ms" by (simp add: suffix_dropWhile suffix_imp_subseq)
      then have "subseq (second_pass ?seen (dropWhile is_tool ms)) (m # ms)"
        using 2(2) [OF f refl True] by (meson list_emb_Cons subseq_order.trans)
      then show ?thesis unfolding second_pass.simps Let_def if_not_P [OF f] if_P [OF True] .
    next
      case False
      show ?thesis unfolding second_pass.simps Let_def if_not_P [OF f] if_not_P [OF False]
        by (rule subseq_Cons2 [OF 2(3) [OF f refl False]])
    qed
  qed
qed simp

lemma no_block_left [simp]: "takeWhile is_tool (dropWhile is_tool ms) = []"
  by (induction ms) auto

lemma no_tool_first: "takeWhile is_tool ms = [] \<Longrightarrow> takeWhile is_tool (second_pass seen ms) = []"
proof (induction seen ms rule: second_pass.induct)
  case (2 seen m ms)
  then have m: "\<not> is_tool m" by (auto split: if_splits)
  then show ?case using 2(2) m by (simp add: Let_def)
qed simp

text \<open>Without a repeated id the second pass keeps the results that follow a kept message.\<close>

lemma second_pass_block:
  assumes "distinct (result_ids ms)" and "set (result_ids ms) \<inter> seen = {}"
  shows "takeWhile is_tool (second_pass seen ms) = takeWhile is_tool ms"
  using assms
proof (induction ms arbitrary: seen)
  case (Cons m ms)
  show ?case
  proof (cases "is_tool m")
    case True
    then show ?thesis
      using Cons.IH [of "if ms_ToolCallID m \<noteq> [] then insert (ms_ToolCallID m) seen else seen"] Cons.prems
      by (auto simp: Let_def split: if_splits)
  next
    case False
    then show ?thesis using no_tool_first [of "m # ms" seen] by simp
  qed
qed simp

lemma in_order_more:
  "in_order called turn ms \<Longrightarrow> (turn \<longrightarrow> turn') \<Longrightarrow> (takeWhile is_tool ms \<noteq> [] \<longrightarrow> called \<longrightarrow> called') \<Longrightarrow> in_order called' turn' ms"
  by (cases ms) (auto split: if_splits)

lemma in_order_drop: "in_order called turn ms \<Longrightarrow> in_order called True (dropWhile is_tool ms)"
  by (induction ms arbitrary: turn) (auto split: if_splits)

lemma dropped_results:
  "set (result_ids (dropWhile is_tool ms)) \<subseteq> set (result_ids ms)"
  "distinct (result_ids ms) \<Longrightarrow> distinct (result_ids (dropWhile is_tool ms))"
  by (induction ms) (auto split: if_splits)

lemma second_pass_accepted:
  assumes "in_order called turn ms" and "distinct (result_ids ms)" and "set (result_ids ms) \<inter> seen = {}"
  shows "in_order called turn (second_pass seen ms) \<and> answered (second_pass seen ms)"
  using assms
proof (induction seen ms arbitrary: called turn rule: second_pass.induct)
  case (2 seen m ms)
  let ?seen = "if is_tool m \<and> ms_ToolCallID m \<noteq> [] then insert (ms_ToolCallID m) seen else seen"
  have f: "\<not> (is_tool m \<and> ms_ToolCallID m \<noteq> [] \<and> ms_ToolCallID m \<in> seen)" using 2(6) by auto
  have d: "distinct (result_ids ms)" "set (result_ids ms) \<inter> ?seen = {}" using 2(5,6) by (auto split: if_splits)
  show ?case
  proof (cases "is_assistant m \<and> ms_ToolCalls m \<noteq> [] \<and> \<not> all_found m ms")
    case True
    then have m: "\<not> is_tool m" "\<not> is_system m" "turn" "in_order True False ms"
      using 2(4) by (auto split: if_splits)
    have "in_order called True (dropWhile is_tool ms)"
      by (rule in_order_more [OF in_order_drop [OF m(4)]]) simp_all
    then have "in_order called True (second_pass ?seen (dropWhile is_tool ms)) \<and> answered (second_pass ?seen (dropWhile is_tool ms))"
      using 2(2) [OF f refl True] dropped_results [of ms] d by blast
    then show ?thesis using f True m by (simp add: Let_def)
  next
    case False
    have s: "second_pass seen (m # ms) = m # second_pass ?seen ms"
      unfolding second_pass.simps Let_def if_not_P [OF f] if_not_P [OF False] ..
    have IH: "in_order c t ms \<Longrightarrow> in_order c t (second_pass ?seen ms) \<and> answered (second_pass ?seen ms)" for c t
      using 2(3) [OF f refl False _ d] .
    have "is_assistant m \<Longrightarrow> all_found m (second_pass ?seen ms)"
      using False second_pass_block [OF d] by (cases "ms_ToolCalls m = []") (auto simp: all_found_def)
    then show ?thesis unfolding s using 2(4) IH by (auto split: if_splits)
  qed
qed simp

lemma second_pass_fixed:
  "answered ms \<Longrightarrow> distinct (result_ids ms) \<Longrightarrow> set (result_ids ms) \<inter> seen = {} \<Longrightarrow> second_pass seen ms = ms"
  by (induction ms arbitrary: seen) (auto simp: Let_def split: if_splits)

section \<open>The sanitizer\<close>

lemma subseq_distinct: "subseq xs ys \<Longrightarrow> distinct ys \<Longrightarrow> distinct xs"
  by (induction rule: list_emb.induct) (auto dest: list_emb_set)

text \<open>
  C6. The sanitizer projects a history in which no tool-call id is used twice onto the histories a
  strict provider accepts: it keeps a subsequence without system messages, in which tool results
  come only after an assistant message with calls, calls come only after a user message or a tool
  result, and every call of a message has its result in the block behind it; an accepted history is
  left as it is, so sanitizing again changes nothing. When the provider repeats an id in a later turn,
  the second result is dropped while the call stays, and the history is not acceptable.
\<close>

theorem sanitized_history_accepted:
  assumes "distinct (result_ids h)"
  shows "accepted (sanitize_history_for_provider h) \<and> subseq (sanitize_history_for_provider h) h \<and>
    (accepted h = (sanitize_history_for_provider h = h)) \<and>
    sanitize_history_for_provider (sanitize_history_for_provider h) = sanitize_history_for_provider h \<and>
    (let call = (text_message ''assistant'' [])\<lparr>ms_ToolCalls :=
           [\<lparr>tc_ID = ''call_0'', tc_Type = ''function'', tc_Function = None, tc_Name = ''f'', tc_Arguments = []\<rparr>]\<rparr>;
         answer = (text_message ''tool'' ''r'')\<lparr>ms_ToolCallID := ''call_0''\<rparr>;
         turns = [text_message ''user'' ''a'', call, answer, text_message ''user'' ''b'', call, answer]
     in accepted turns \<and> sanitize_history_for_provider turns = take 5 turns \<and> \<not> accepted (take 5 turns))"
proof -
  have san: "sanitize_history_for_provider g = second_pass {} (scan False False g)" for g
    by (simp add: sanitize_history_for_provider_def first_pass_eq)
  have d: "distinct (result_ids g')" if "distinct (result_ids g)" "subseq g' g" for g g'
  proof -
    have "subseq (result_ids g') (result_ids g)" unfolding result_ids_def by (intro subseq_filter subseq_map that)
    then show ?thesis using that(1) subseq_distinct by blast
  qed
  have fixed: "sanitize_history_for_provider g = g" if "accepted g" "distinct (result_ids g)" for g
    using that by (simp add: san accepted_def scan_fixed second_pass_fixed)
  let ?s = "sanitize_history_for_provider h"
  have sub: "subseq ?s h"
    unfolding san by (rule subseq_order.trans [OF second_pass_subseq scan_subseq])
  have acc: "accepted ?s"
    unfolding san accepted_def
    by (rule second_pass_accepted [OF scan_in_order d [OF assms scan_subseq]]) simp
  have "accepted h = (?s = h)" using fixed [OF _ assms] acc by metis
  moreover have "let call = (text_message ''assistant'' [])\<lparr>ms_ToolCalls :=
           [\<lparr>tc_ID = ''call_0'', tc_Type = ''function'', tc_Function = None, tc_Name = ''f'', tc_Arguments = []\<rparr>]\<rparr>;
         answer = (text_message ''tool'' ''r'')\<lparr>ms_ToolCallID := ''call_0''\<rparr>;
         turns = [text_message ''user'' ''a'', call, answer, text_message ''user'' ''b'', call, answer]
     in accepted turns \<and> sanitize_history_for_provider turns = take 5 turns \<and> \<not> accepted (take 5 turns)"
    by code_simp
  ultimately show ?thesis using sub acc fixed [OF acc d [OF assms sub]] by blast
qed

theorem sanitized_history_accepted_witness:
  "accepted (sanitize_history_for_provider [text_message ''tool'' ''lost'', text_message ''user'' ''a'', text_message ''system'' ''s''])"
proof -
  have "distinct (result_ids [text_message ''tool'' ''lost'', text_message ''user'' ''a'', text_message ''system'' ''s''])"
    by code_simp
  from sanitized_history_accepted [OF this] show ?thesis by blast
qed

end
