(* ===== verification/Session_Store.thy ===== *)
theory Session_Store
  imports Chat_Messages
begin

text \<open>
  The session store interface (pkg/session/session_store.go) and the agent loop's two clients of it
  (pkg/agent/loop.go): emergency compression and summarization of a history. The interface value is
  a record of its methods over the store's state; the contract every backend keeps is the locale
  session_contract, in which the clients' lemmas are proved once. The provider is a function on a
  world of any type; what other goroutines do to the store during the provider's calls is an argument.
\<close>

section \<open>The interface\<close>

record 's session_ops =
  so_AddFullMessage :: "string \<Rightarrow> message \<Rightarrow> 's \<Rightarrow> 's"
  so_GetHistory :: "string \<Rightarrow> 's \<Rightarrow> message list"
  so_GetSummary :: "string \<Rightarrow> 's \<Rightarrow> string"
  so_SetSummary :: "string \<Rightarrow> string \<Rightarrow> 's \<Rightarrow> 's"
  so_SetHistory :: "string \<Rightarrow> message list \<Rightarrow> 's \<Rightarrow> 's"
  so_TruncateHistory :: "string \<Rightarrow> int \<Rightarrow> 's \<Rightarrow> 's"
  so_Save :: "string \<Rightarrow> 's \<Rightarrow> 's \<times> bool"

definition take_last :: "int \<Rightarrow> 'a list \<Rightarrow> 'a list" where
  "take_last n xs = drop (length xs - nat n) xs"

lemma take_last_int: "take_last (int n) xs = drop (length xs - n) xs"
  by (simp add: take_last_def)

section \<open>Emergency compression\<close>

record compression_result =
  cp_DroppedMessages :: int
  cp_RemainingMessages :: int

definition compression_cut :: "message list \<Rightarrow> int" where
  "compression_cut history =
     (let turns = parse_turn_boundaries history in
      if length turns \<ge> 2 then int (turns ! (length turns div 2))
      else find_safe_boundary history (int (length history div 2)))"

definition kept_history :: "message list \<Rightarrow> message list" where
  "kept_history history =
     (let mid = compression_cut history in
      if mid \<le> 0 then (case find is_user (rev history) of Some m \<Rightarrow> [m] | None \<Rightarrow> [])
      else drop (nat mid) history)"

definition blank_line :: string where "blank_line = [CHR 0x0A, CHR 0x0A]"

definition compression_note :: "string \<Rightarrow> int \<Rightarrow> string" where
  "compression_note existing dropped =
     (let note = ''[Emergency compression dropped '' @ itoa dropped @ '' oldest messages due to context limit]''
      in if existing \<noteq> [] then existing @ blank_line @ note else note)"

definition force_compression :: "'s session_ops \<Rightarrow> string \<Rightarrow> 's \<Rightarrow> compression_result option \<times> 's" where
  "force_compression ops key s =
     (let history = so_GetHistory ops key s in
      if length history \<le> 2 then (None, s)
      else let kept = kept_history history;
               dropped = int (length history) - int (length kept);
               s1 = so_SetSummary ops key (compression_note (so_GetSummary ops key s) dropped) s;
               s2 = so_SetHistory ops key kept s1;
               s3 = fst (so_Save ops key s2)
      in (Some \<lparr>cp_DroppedMessages = dropped, cp_RemainingMessages = int (length kept)\<rparr>, s3))"

section \<open>Calling the model\<close>

text \<open>A response is the text of the answer; \<open>nap\<close> is the wait between attempts, which the deadline may cut short.\<close>

record 'w summarizer =
  sm_chat :: "string \<Rightarrow> 'w \<Rightarrow> 'w \<times> string option"
  sm_nap :: "nat \<Rightarrow> 'w \<Rightarrow> 'w \<times> bool"

text \<open>The text of the last response when there is no error, which may be empty; \<^const>\<open>None\<close> for an error.\<close>

fun retry_from :: "'w summarizer \<Rightarrow> string \<Rightarrow> nat \<Rightarrow> nat \<Rightarrow> 'w \<Rightarrow> 'w \<times> string option" where
  "retry_from S prompt attempt 0 w = (w, None)"
| "retry_from S prompt attempt (Suc left) w =
     (case sm_chat S prompt w of
        (w1, resp) \<Rightarrow>
          if resp \<noteq> None \<and> resp \<noteq> Some [] then (w1, resp)
          else if left > 0 then
            (case sm_nap S (attempt + 1) w1 of
               (w2, rested) \<Rightarrow> if rested then retry_from S prompt (attempt + 1) left w2 else (w2, None))
          else (w1, resp))"

definition retry_llm_call :: "'w summarizer \<Rightarrow> string \<Rightarrow> nat \<Rightarrow> 'w \<Rightarrow> 'w \<times> string option" where
  "retry_llm_call S prompt max_retries w = retry_from S prompt 0 max_retries w"

section \<open>Summarizing a batch\<close>

definition nl :: string where "nl = [CHR 0x0A]"

text \<open>The runes of a text, each as its bytes.\<close>

function rune_texts :: "string \<Rightarrow> string list" where
  "rune_texts [] = []"
| "rune_texts (c # s) = (c # takeWhile continuation_byte s) # rune_texts (dropWhile continuation_byte s)"
  by pat_completeness auto
termination
  by (relation "measure length") (auto simp: le_imp_less_Suc length_dropWhile_le)

definition batch_prompt :: "message list \<Rightarrow> string \<Rightarrow> string" where
  "batch_prompt batch existing =
     ''Provide a concise summary of this conversation segment, preserving core context and key points.'' @ nl @
     (if existing \<noteq> [] then ''Existing context: '' @ existing @ nl else []) @
     nl @ ''CONVERSATION:'' @ nl @ concat (map (\<lambda>m. ms_Role m @ '': '' @ ms_Content m @ nl) batch)"

definition fallback_entry :: "message \<Rightarrow> string" where
  "fallback_entry m =
     (let runes = rune_texts (trim_space (ms_Content m)) in
      if runes = [] then ms_Role m @ '': ''
      else let keep = length runes * 10 div 100;
               keep = (if keep < 200 then 200 else keep);
               keep = (if keep > length runes then length runes else keep)
      in ms_Role m @ '': '' @ concat (take keep runes) @ (if keep < length runes then ''...'' else []))"

fun separated :: "string list \<Rightarrow> string" where
  "separated [] = []"
| "separated [x] = x"
| "separated (x # xs) = x @ '' | '' @ separated xs"

definition summarize_batch :: "'w summarizer \<Rightarrow> message list \<Rightarrow> string \<Rightarrow> 'w \<Rightarrow> 'w \<times> string" where
  "summarize_batch S batch existing w =
     (case retry_llm_call S (batch_prompt batch existing) 3 w of
        (w', resp) \<Rightarrow>
          (case resp of
             None \<Rightarrow> (w', ''Conversation summary: '' @ separated (map fallback_entry batch))
           | Some text \<Rightarrow>
               if text \<noteq> [] then (w', trim_space text)
               else (w', ''Conversation summary: '' @ separated (map fallback_entry batch))))"

section \<open>Summarizing a session\<close>

fun back_to_user :: "message list \<Rightarrow> nat \<Rightarrow> nat" where
  "back_to_user ms 0 = 0"
| "back_to_user ms (Suc n) = (if is_user (ms ! Suc n) then Suc n else back_to_user ms n)"

definition find_nearest_user_message :: "message list \<Rightarrow> nat \<Rightarrow> nat" where
  "find_nearest_user_message ms mid =
     (let back = back_to_user ms mid in
      if is_user (ms ! back) then back
      else let ahead = mid + length (takeWhile (\<lambda>m. \<not> is_user m) (drop mid ms)) in
      if ahead < length ms then ahead else mid)"

definition summarizable :: "int \<Rightarrow> message \<Rightarrow> bool" where
  "summarizable context_window m \<longleftrightarrow>
     (is_user m \<or> is_assistant m) \<and> \<not> int (length (ms_Content m)) div 2 > context_window div 2"

definition merge_prompt :: "string \<Rightarrow> string \<Rightarrow> string" where
  "merge_prompt s1 s2 =
     ''Merge these two conversation summaries into one cohesive summary:'' @ blank_line @ ''1: '' @ s1 @ blank_line @ ''2: '' @ s2"

definition final_summary :: "'w summarizer \<Rightarrow> message list \<Rightarrow> string \<Rightarrow> 'w \<Rightarrow> 'w \<times> string" where
  "final_summary S valid summary w =
     (if length valid > 10 then
        (let mid = find_nearest_user_message valid (length valid div 2);
             (w1, s1) = summarize_batch S (take mid valid) [] w;
             (w2, s2) = summarize_batch S (drop mid valid) [] w1;
             (w3, resp) = retry_llm_call S (merge_prompt s1 s2) 3 w2
         in case resp of
              None \<Rightarrow> (w3, s1 @ '' '' @ s2)
            | Some text \<Rightarrow> if text \<noteq> [] then (w3, text) else (w3, s1 @ '' '' @ s2))
      else summarize_batch S valid summary w)"

definition omitted_note :: string where
  "omitted_note = nl @ ''[Note: Some oversized messages were omitted from this summary for efficiency.]''"

definition summarize_session ::
  "'s session_ops \<Rightarrow> 'w summarizer \<Rightarrow> int \<Rightarrow> ('s \<Rightarrow> 's) \<Rightarrow> string \<Rightarrow> 's \<times> 'w \<Rightarrow> 's \<times> 'w" where
  "summarize_session ops S context_window meanwhile key st =
     (let s = fst st; w = snd st;
          history = so_GetHistory ops key s; summary = so_GetSummary ops key s in
      if length history \<le> 4 then st
      else let safe_cut = find_safe_boundary history (int (length history) - 4) in
      if safe_cut \<le> 0 then st
      else let keep_count = int (length history) - safe_cut;
               to_summarize = take (nat safe_cut) history;
               valid = filter (summarizable context_window) to_summarize;
               omitted = list_ex (\<lambda>m. (is_user m \<or> is_assistant m) \<and> \<not> summarizable context_window m) to_summarize in
      if valid = [] then st
      else let (w', text) = final_summary S valid summary w;
               s1 = meanwhile s;
               text' = (if omitted \<and> text \<noteq> [] then text @ omitted_note else text) in
      if text' \<noteq> [] then
        (let s2 = so_SetSummary ops key text' s1; s3 = so_TruncateHistory ops key keep_count s2
         in (fst (so_Save ops key s3), w'))
      else (s1, w'))"

definition should_summarize :: "'s session_ops \<Rightarrow> int \<Rightarrow> int \<Rightarrow> int \<Rightarrow> string \<Rightarrow> 's \<Rightarrow> bool" where
  "should_summarize ops context_window percent message_threshold key s =
     (let history = so_GetHistory ops key s;
          tokens = fold (\<lambda>m n. n + estimate_message_tokens m) history 0
      in int (length history) > message_threshold \<or> tokens > context_window * percent div 100)"

section \<open>Kept histories\<close>

lemma compression_cut_bounds:
  assumes "2 < length h"
  shows "0 \<le> compression_cut h \<and> compression_cut h < int (length h) \<and>
    (compression_cut h = 0 \<longrightarrow> (\<exists>m \<in> set h. is_user m)) \<and>
    (0 < compression_cut h \<longrightarrow> (\<exists>m \<in> set h. is_user m) \<longrightarrow> is_user (h ! nat (compression_cut h)))"
proof -
  let ?ts = "parse_turn_boundaries h"
  have t: "t < length h \<and> is_user (h ! t)" if "t \<in> set ?ts" for t using that by (simp add: turn_boundaries)
  show ?thesis
  proof (cases "length ?ts \<ge> 2")
    case True
    then have "length ?ts div 2 < length ?ts" "0 < length ?ts div 2" by simp_all
    then have m: "?ts ! (length ?ts div 2) \<in> set ?ts" "0 < ?ts ! (length ?ts div 2)"
      using sorted_wrt_nth_less [OF turn_boundaries_sorted, of 0 "length ?ts div 2" h] by auto
    moreover have "compression_cut h = int (?ts ! (length ?ts div 2))" using True by (simp add: compression_cut_def Let_def)
    ultimately show ?thesis using t [OF m(1)] by auto
  next
    case False
    then have c: "compression_cut h = find_safe_boundary h (int (length h div 2))" by (simp add: compression_cut_def Let_def)
    have b: "0 < int (length h div 2)" "int (length h div 2) < int (length h)" using assms by auto
    show ?thesis
    proof (cases "\<exists>m \<in> set h. is_user m")
      case True
      from find_safe_boundary_cases [OF b True] b(2) True show ?thesis unfolding c by auto
    next
      case none: False
      then have "?ts = []" using t by (metis list.set_sel(1) nth_mem)
      then have "find_safe_boundary h (int (length h div 2)) = int (length h div 2)"
        using b assms by (auto simp: find_safe_boundary_def)
      then show ?thesis unfolding c using b none by simp
    qed
  qed
qed

text \<open>Compression keeps something, drops something, and starts at a user message when there is one.\<close>

lemma kept_history_props:
  assumes "2 < length h"
  shows "kept_history h \<noteq> []" and "length (kept_history h) < length h"
    and "(\<exists>m \<in> set h. is_user m) \<Longrightarrow> is_user (hd (kept_history h))"
    and "set (kept_history h) \<subseteq> set h"
proof -
  have b: "0 \<le> compression_cut h" "compression_cut h < int (length h)"
    "compression_cut h = 0 \<Longrightarrow> \<exists>m \<in> set h. is_user m"
    "0 < compression_cut h \<Longrightarrow> \<exists>m \<in> set h. is_user m \<Longrightarrow> is_user (h ! nat (compression_cut h))"
    using compression_cut_bounds [OF assms] by auto
  have "kept_history h \<noteq> [] \<and> length (kept_history h) < length h \<and>
    ((\<exists>m \<in> set h. is_user m) \<longrightarrow> is_user (hd (kept_history h))) \<and> set (kept_history h) \<subseteq> set h"
  proof (cases "compression_cut h \<le> 0")
    case True
    then have "compression_cut h = 0" using b(1) by simp
    from b(3) [OF this] have "\<exists>m \<in> set (rev h). is_user m" by simp
    then obtain m where m: "find is_user (rev h) = Some m" by (metis find_None_iff option.exhaust)
    then have "m \<in> set h" "is_user m" by (auto simp: find_Some_iff intro: nth_mem)
        (metis length_rev nth_mem set_rev)
    then show ?thesis using True m assms by (simp add: kept_history_def)
  next
    case False
    then have "kept_history h = drop (nat (compression_cut h)) h" by (simp add: kept_history_def)
    moreover have "nat (compression_cut h) < length h" "0 < nat (compression_cut h)" using b(2) False by linarith+
    ultimately show ?thesis using b(4) False set_drop_subset [of "nat (compression_cut h)" h] by (auto simp: hd_drop_conv_nth)
  qed
  then show "kept_history h \<noteq> []" "length (kept_history h) < length h"
    "(\<exists>m \<in> set h. is_user m) \<Longrightarrow> is_user (hd (kept_history h))" "set (kept_history h) \<subseteq> set h" by blast+
qed

section \<open>The contract of a store\<close>

text \<open>
  \<open>stored\<close> is what a message looks like when it is read back, \<open>accepts\<close> says which messages the
  backend can hold, and two sessions that are \<open>apart\<close> do not share their files.
\<close>

locale session_contract =
  fixes ops :: "'s session_ops"
    and inv :: "'s \<Rightarrow> bool"
    and stored :: "message \<Rightarrow> message"
    and accepts :: "message \<Rightarrow> bool"
    and apart :: "string \<Rightarrow> string \<Rightarrow> bool"
  assumes add_message: "inv s \<Longrightarrow> accepts m \<Longrightarrow>
      inv (so_AddFullMessage ops k m s) \<and>
      so_GetHistory ops k (so_AddFullMessage ops k m s) = so_GetHistory ops k s @ [stored m]"
    and set_summary: "inv s \<Longrightarrow> inv (so_SetSummary ops k x s) \<and>
      so_GetHistory ops j (so_SetSummary ops k x s) = so_GetHistory ops j s \<and>
      (so_GetHistory ops k s \<noteq> [] \<longrightarrow> so_GetSummary ops k (so_SetSummary ops k x s) = x)"
    and set_history: "inv s \<Longrightarrow> list_all accepts h \<Longrightarrow> inv (so_SetHistory ops k h s) \<and>
      so_GetSummary ops k (so_SetHistory ops k h s) = so_GetSummary ops k s \<and>
      (so_GetHistory ops k s \<noteq> [] \<longrightarrow> so_GetHistory ops k (so_SetHistory ops k h s) = map stored h)"
    and truncate: "inv s \<Longrightarrow> inv (so_TruncateHistory ops k n s) \<and>
      so_GetSummary ops k (so_TruncateHistory ops k n s) = so_GetSummary ops k s \<and>
      so_GetHistory ops k (so_TruncateHistory ops k n s) = take_last n (so_GetHistory ops k s)"
    and save: "inv s \<Longrightarrow> inv (fst (so_Save ops k s)) \<and>
      so_GetHistory ops j (fst (so_Save ops k s)) = so_GetHistory ops j s \<and>
      so_GetSummary ops j (fst (so_Save ops k s)) = so_GetSummary ops j s"
    and held: "inv s \<Longrightarrow> m \<in> set (so_GetHistory ops k s) \<Longrightarrow> accepts m \<and> stored m = m"
    and frame: "inv s \<Longrightarrow> apart k j \<Longrightarrow>
      so_GetHistory ops j (so_SetHistory ops k h s) = so_GetHistory ops j s \<and>
      so_GetHistory ops j (so_TruncateHistory ops k n s) = so_GetHistory ops j s \<and>
      so_GetHistory ops j (so_AddFullMessage ops k m s) = so_GetHistory ops j s"
begin

lemma truncate_inv: "inv s \<Longrightarrow> inv (so_TruncateHistory ops k n s)"
  using truncate by blast

lemma set_held_history:
  assumes "inv s" and "set h \<subseteq> set (so_GetHistory ops k s)" and "so_GetHistory ops k s \<noteq> []"
  shows "so_GetHistory ops k (so_SetHistory ops k h s) = h" and "inv (so_SetHistory ops k h s)"
proof -
  have a: "list_all accepts h" using held [OF assms(1)] assms(2) by (auto simp: list_all_iff)
  have "map stored h = h" using held [OF assms(1)] assms(2) by (intro map_idI) auto
  then show "so_GetHistory ops k (so_SetHistory ops k h s) = h" "inv (so_SetHistory ops k h s)"
    using set_history [OF assms(1) a, of k] assms(3) by simp_all
qed

lemma compression_effect:
  assumes i: "inv s" and l: "2 < length (so_GetHistory ops k s)"
  defines "h \<equiv> so_GetHistory ops k s"
  shows "inv (snd (force_compression ops k s))"
    and "so_GetHistory ops k (snd (force_compression ops k s)) = kept_history h"
    and "so_GetSummary ops k (snd (force_compression ops k s)) =
      compression_note (so_GetSummary ops k s) (int (length h) - int (length (kept_history h)))"
    and "apart k j \<Longrightarrow> so_GetHistory ops j (snd (force_compression ops k s)) = so_GetHistory ops j s"
proof -
  let ?note = "compression_note (so_GetSummary ops k s) (int (length h) - int (length (kept_history h)))"
  let ?s1 = "so_SetSummary ops k ?note s" and ?s2 = "so_SetHistory ops k (kept_history h) (so_SetSummary ops k ?note s)"
  have e: "snd (force_compression ops k s) = fst (so_Save ops k ?s2)"
    using l by (simp add: force_compression_def Let_def h_def)
  have n: "h \<noteq> []" using l by (auto simp: h_def)
  have 1: "inv ?s1" "so_GetHistory ops k ?s1 = h" "so_GetSummary ops k ?s1 = ?note" "so_GetHistory ops j ?s1 = so_GetHistory ops j s" for j
    using set_summary [OF i, of k ?note] n by (auto simp: h_def)
  have "set (kept_history h) \<subseteq> set (so_GetHistory ops k ?s1)"
    using kept_history_props(4) [of h] l unfolding 1(2) by (simp add: h_def)
  note 2 = set_held_history [OF 1(1) this] n
  have a: "list_all accepts (kept_history h)"
    using held [OF i, of _ k] kept_history_props(4) [of h] l by (auto simp: h_def list_all_iff)
  have 3: "so_GetSummary ops k ?s2 = ?note" using set_history [OF 1(1) a, of k] 1(3) by simp
  show "inv (snd (force_compression ops k s))" unfolding e using save 2(2) n 1(2) by simp
  show "so_GetHistory ops k (snd (force_compression ops k s)) = kept_history h"
    unfolding e using save [of ?s2 k k] 2(1,2) n 1(2) by simp
  show "so_GetSummary ops k (snd (force_compression ops k s)) = ?note"
    unfolding e using save [of ?s2 k k] 2(2) n 1(2) 3 by simp
  show "so_GetHistory ops j (snd (force_compression ops k s)) = so_GetHistory ops j s" if "apart k j"
    unfolding e using save [of ?s2 k j] 2(2) n 1(2) frame [OF 1(1) that, of "kept_history h"] 1(4) [of j] by simp
qed

end

section \<open>What summarization keeps\<close>

text \<open>The messages a summarization covers and the length of the part it leaves.\<close>

definition summarized_part :: "message list \<Rightarrow> message list" where
  "summarized_part h = take (nat (find_safe_boundary h (int (length h) - 4))) h"

definition due :: "int \<Rightarrow> message list \<Rightarrow> bool" where
  "due context_window h \<longleftrightarrow> 4 < length h \<and> 0 < find_safe_boundary h (int (length h) - 4) \<and>
     filter (summarizable context_window) (summarized_part h) \<noteq> []"

lemma safe_cut_bounds: "4 < length h \<Longrightarrow> find_safe_boundary h (int (length h) - 4) < int (length h)"
proof (cases "\<exists>m \<in> set h. is_user m")
  case True
  assume l: "4 < length h"
  then have "0 < int (length h) - 4" "int (length h) - 4 < int (length h)" by simp_all
  from find_safe_boundary_cases [OF this True] l show ?thesis by auto
next
  case False
  assume l: "4 < length h"
  have "parse_turn_boundaries h = []"
    using False turn_boundaries [of h] by (metis (mono_tags, lifting) list.set_sel(1) mem_Collect_eq nth_mem)
  then show ?thesis using l by (auto simp: find_safe_boundary_def)
qed

lemma summarize_not_due: "\<not> due cw (so_GetHistory ops k s) \<Longrightarrow> summarize_session ops S cw mw k (s, w) = (s, w)"
  by (auto simp: summarize_session_def Let_def due_def summarized_part_def)

definition summary_text :: "int \<Rightarrow> 'w summarizer \<Rightarrow> message list \<Rightarrow> string \<Rightarrow> 'w \<Rightarrow> string" where
  "summary_text cw S h summary w =
     (let part = summarized_part h; text = snd (final_summary S (filter (summarizable cw) part) summary w)
      in if list_ex (\<lambda>m. (is_user m \<or> is_assistant m) \<and> \<not> summarizable cw m) part \<and> text \<noteq> [] then text @ omitted_note
         else text)"

lemma summarize_due:
  assumes "due cw (so_GetHistory ops k s)"
  shows "fst (summarize_session ops S cw mw k (s, w)) =
    (let h = so_GetHistory ops k s; text = summary_text cw S h (so_GetSummary ops k s) w in
     if text = [] then mw s
     else fst (so_Save ops k (so_TruncateHistory ops k (int (length h - length (summarized_part h)))
       (so_SetSummary ops k text (mw s)))))"
proof -
  let ?h = "so_GetHistory ops k s"
  have l: "4 < length ?h" "0 < find_safe_boundary ?h (int (length ?h) - 4)" using assms by (simp_all add: due_def)
  have "int (length ?h) - find_safe_boundary ?h (int (length ?h) - 4) = int (length ?h - length (summarized_part ?h))"
    using l safe_cut_bounds [OF l(1)] by (simp add: summarized_part_def)
  then show ?thesis
    using assms l unfolding summarize_session_def due_def summarized_part_def summary_text_def Let_def
    by (auto simp: split_beta)
qed

context session_contract begin

text \<open>With no one else at work the history is cut exactly behind the summarized part.\<close>

lemma summarize_alone:
  assumes i: "inv s" and d: "due cw (so_GetHistory ops k s)"
    and t: "summary_text cw S (so_GetHistory ops k s) (so_GetSummary ops k s) w \<noteq> []"
  shows "summarized_part (so_GetHistory ops k s) @
      so_GetHistory ops k (fst (summarize_session ops S cw (\<lambda>s. s) k (s, w))) = so_GetHistory ops k s"
    and "so_GetSummary ops k (fst (summarize_session ops S cw (\<lambda>s. s) k (s, w))) =
      summary_text cw S (so_GetHistory ops k s) (so_GetSummary ops k s) w"
    and "inv (fst (summarize_session ops S cw (\<lambda>s. s) k (s, w)))"
proof -
  let ?h = "so_GetHistory ops k s" and ?t = "summary_text cw S (so_GetHistory ops k s) (so_GetSummary ops k s) w"
  have n: "?h \<noteq> []" using d by (auto simp: due_def)
  have e: "fst (summarize_session ops S cw (\<lambda>s. s) k (s, w)) =
      fst (so_Save ops k (so_TruncateHistory ops k (int (length ?h - length (summarized_part ?h))) (so_SetSummary ops k ?t s)))"
    unfolding summarize_due [OF d] Let_def using t by simp
  have 1: "inv (so_SetSummary ops k ?t s)" "so_GetHistory ops k (so_SetSummary ops k ?t s) = ?h"
    "so_GetSummary ops k (so_SetSummary ops k ?t s) = ?t"
    using set_summary [OF i, of k ?t] n by auto
  note 2 = truncate [OF 1(1), of k "int (length ?h - length (summarized_part ?h))"]
  have "length (summarized_part ?h) \<le> length ?h" by (simp add: summarized_part_def)
  then have "take_last (int (length ?h - length (summarized_part ?h))) ?h = drop (length (summarized_part ?h)) ?h"
    unfolding take_last_int by simp
  then show "summarized_part ?h @ so_GetHistory ops k (fst (summarize_session ops S cw (\<lambda>s. s) k (s, w))) = ?h"
    unfolding e using save [OF conjunct1 [OF 2], of k k] 2 1(2) by (simp add: summarized_part_def min_def)
  show "so_GetSummary ops k (fst (summarize_session ops S cw (\<lambda>s. s) k (s, w))) = ?t"
    unfolding e using save [OF conjunct1 [OF 2], of k k] 2 1(3) by simp
  show "inv (fst (summarize_session ops S cw (\<lambda>s. s) k (s, w)))"
    unfolding e using save [OF conjunct1 [OF 2]] by simp
qed

text \<open>A message that arrives during the provider's calls pushes one out of the kept part.\<close>

lemma summarize_interleaved:
  assumes i: "inv s" and d: "due cw (so_GetHistory ops k s)" and a: "accepts m"
    and t: "summary_text cw S (so_GetHistory ops k s) (so_GetSummary ops k s) w \<noteq> []"
  shows "so_GetHistory ops k (fst (summarize_session ops S cw (so_AddFullMessage ops k m) k (s, w))) =
    drop (Suc (length (summarized_part (so_GetHistory ops k s)))) (so_GetHistory ops k s @ [stored m])"
proof -
  let ?h = "so_GetHistory ops k s" and ?t = "summary_text cw S (so_GetHistory ops k s) (so_GetSummary ops k s) w"
  let ?s = "so_AddFullMessage ops k m s"
  have e: "fst (summarize_session ops S cw (so_AddFullMessage ops k m) k (s, w)) =
      fst (so_Save ops k (so_TruncateHistory ops k (int (length ?h - length (summarized_part ?h))) (so_SetSummary ops k ?t ?s)))"
    unfolding summarize_due [OF d] Let_def using t by simp
  have 1: "inv (so_SetSummary ops k ?t ?s)" "so_GetHistory ops k (so_SetSummary ops k ?t ?s) = ?h @ [stored m]"
    using set_summary [of ?s k ?t] add_message [OF i a, of k] by auto
  note 2 = truncate [OF 1(1), of k "int (length ?h - length (summarized_part ?h))"]
  have "length (summarized_part ?h) \<le> length ?h" by (simp add: summarized_part_def)
  then have "take_last (int (length ?h - length (summarized_part ?h))) (?h @ [stored m]) =
      drop (Suc (length (summarized_part ?h))) (?h @ [stored m])"
    unfolding take_last_int length_append by simp
  then show ?thesis unfolding e using save [OF conjunct1 [OF 2], of k k] 2 1(2) by simp
qed

end

end
