(* ===== verification/Session_Manager.thy ===== *)
theory Session_Manager
  imports Session_Store Hex
begin

text \<open>
  The in-memory session store with one JSON file per session (pkg/session/manager.go). A file is its
  bytes under its name; the JSON codec is an argument, as are the clock (the field of the state that
  time.Now reads) and the outcome of the atomic write. Locks make each method one step. The lemmas
  show that the manager keeps the store contract and that a saved session is read back after a
  restart.
\<close>

section \<open>State and codec\<close>

record session =
  ss_Key :: string
  ss_Messages :: "message list"
  ss_Summary :: string
  ss_Created :: time
  ss_Updated :: time

record session_manager =
  sg_sessions :: "(string, session) gomap"
  sg_storage :: string
  sg_files :: "(string, string) gomap"
  sg_now :: time

record session_codec =
  sc_marshal :: "session \<Rightarrow> string option"
  sc_unmarshal :: "string \<Rightarrow> session option"
  sc_write_ok :: "string \<Rightarrow> bool"

section \<open>Operations\<close>

definition fresh_session :: "string \<Rightarrow> time \<Rightarrow> session" where
  "fresh_session key now = \<lparr>ss_Key = key, ss_Messages = [], ss_Summary = [], ss_Created = now, ss_Updated = now\<rparr>"

definition get_or_create_session :: "string \<Rightarrow> session_manager \<Rightarrow> session \<times> session_manager" where
  "get_or_create_session key sm =
     (case map_of (sg_sessions sm) key of
        Some s \<Rightarrow> (s, sm)
      | None \<Rightarrow> (let s = fresh_session key (sg_now sm)
          in (s, sm\<lparr>sg_sessions := AList.update key s (sg_sessions sm)\<rparr>)))"

definition manager_add_full_message :: "string \<Rightarrow> message \<Rightarrow> session_manager \<Rightarrow> session_manager" where
  "manager_add_full_message key msg sm =
     (let s = (case map_of (sg_sessions sm) key of Some s \<Rightarrow> s | None \<Rightarrow> fresh_session key (sg_now sm))
      in sm\<lparr>sg_sessions := AList.update key
           (s\<lparr>ss_Messages := ss_Messages s @ [msg], ss_Updated := sg_now sm\<rparr>) (sg_sessions sm)\<rparr>)"

definition manager_add_message :: "string \<Rightarrow> string \<Rightarrow> string \<Rightarrow> session_manager \<Rightarrow> session_manager" where
  "manager_add_message key role content = manager_add_full_message key (text_message role content)"

definition manager_get_history :: "string \<Rightarrow> session_manager \<Rightarrow> message list" where
  "manager_get_history key sm = (case map_of (sg_sessions sm) key of Some s \<Rightarrow> ss_Messages s | None \<Rightarrow> [])"

definition manager_get_summary :: "string \<Rightarrow> session_manager \<Rightarrow> string" where
  "manager_get_summary key sm = (case map_of (sg_sessions sm) key of Some s \<Rightarrow> ss_Summary s | None \<Rightarrow> [])"

definition manager_set_summary :: "string \<Rightarrow> string \<Rightarrow> session_manager \<Rightarrow> session_manager" where
  "manager_set_summary key summary sm =
     (case map_of (sg_sessions sm) key of
        Some s \<Rightarrow> sm\<lparr>sg_sessions := AList.update key (s\<lparr>ss_Summary := summary, ss_Updated := sg_now sm\<rparr>) (sg_sessions sm)\<rparr>
      | None \<Rightarrow> sm)"

definition manager_truncate_history :: "string \<Rightarrow> int \<Rightarrow> session_manager \<Rightarrow> session_manager" where
  "manager_truncate_history key keep_last sm =
     (case map_of (sg_sessions sm) key of
        None \<Rightarrow> sm
      | Some s \<Rightarrow>
          if keep_last \<le> 0 then
            sm\<lparr>sg_sessions := AList.update key (s\<lparr>ss_Messages := [], ss_Updated := sg_now sm\<rparr>) (sg_sessions sm)\<rparr>
          else if int (length (ss_Messages s)) \<le> keep_last then sm
          else sm\<lparr>sg_sessions := AList.update key
            (s\<lparr>ss_Messages := drop (length (ss_Messages s) - nat keep_last) (ss_Messages s), ss_Updated := sg_now sm\<rparr>)
            (sg_sessions sm)\<rparr>)"

definition manager_set_history :: "string \<Rightarrow> message list \<Rightarrow> session_manager \<Rightarrow> session_manager" where
  "manager_set_history key history sm =
     (case map_of (sg_sessions sm) key of
        Some s \<Rightarrow> sm\<lparr>sg_sessions := AList.update key (s\<lparr>ss_Messages := history, ss_Updated := sg_now sm\<rparr>) (sg_sessions sm)\<rparr>
      | None \<Rightarrow> sm)"

definition sanitize_filename :: "string \<Rightarrow> string" where
  "sanitize_filename key = hex_encode key"

definition manager_save :: "session_codec \<Rightarrow> string \<Rightarrow> session_manager \<Rightarrow> session_manager \<times> bool" where
  "manager_save C key sm =
     (if sg_storage sm = [] then (sm, True)
      else if key = [] \<or> key = ''.'' \<or> key = ''..'' then (sm, False)
      else case map_of (sg_sessions sm) key of
        None \<Rightarrow> (sm, True)
      | Some stored \<Rightarrow>
          (case sc_marshal C stored of
             None \<Rightarrow> (sm, False)
           | Some data \<Rightarrow>
               (let session_path = sanitize_filename key @ ''.json'' in
                if sc_write_ok C session_path
                then (sm\<lparr>sg_files := AList.update session_path data (sg_files sm)\<rparr>, True) else (sm, False))))"

definition load_sessions :: "session_codec \<Rightarrow> (string, string) gomap \<Rightarrow> (string, session) gomap" where
  "load_sessions C files =
     fold (\<lambda>(name, data) sessions.
        if \<not> suffix ''.json'' name then sessions
        else case sc_unmarshal C data of
          None \<Rightarrow> sessions
        | Some s \<Rightarrow> AList.update (ss_Key s) s sessions) files []"

definition new_session_manager :: "session_codec \<Rightarrow> string \<Rightarrow> (string, string) gomap \<Rightarrow> time \<Rightarrow> session_manager" where
  "new_session_manager C storage files now =
     \<lparr>sg_sessions = (if storage \<noteq> [] then load_sessions C files else []), sg_storage = storage, sg_files = files, sg_now = now\<rparr>"

definition manager_ops :: "session_codec \<Rightarrow> session_manager session_ops" where
  "manager_ops C =
     \<lparr>so_AddFullMessage = manager_add_full_message, so_GetHistory = manager_get_history,
      so_GetSummary = manager_get_summary, so_SetSummary = manager_set_summary, so_SetHistory = manager_set_history,
      so_TruncateHistory = manager_truncate_history, so_Save = manager_save C\<rparr>"

lemmas manager_defs =
  manager_ops_def manager_add_full_message_def manager_get_history_def manager_get_summary_def manager_set_summary_def
  manager_set_history_def manager_truncate_history_def

section \<open>The contract\<close>

lemma manager_save_sessions [simp]: "sg_sessions (fst (manager_save C k sm)) = sg_sessions sm"
  by (auto simp: manager_save_def Let_def split: option.split)

interpretation manager_store: session_contract "manager_ops C" "\<lambda>_. True" "\<lambda>m. m" "\<lambda>_. True" "\<lambda>k j. k \<noteq> j"
proof (unfold_locales, goal_cases)
  case (1 s m k)
  show ?case by (auto simp: manager_defs fresh_session_def update_conv Let_def split: option.split)
next
  case (2 s k x j)
  show ?case by (auto simp: manager_defs update_conv split: option.split)
next
  case (3 s h k)
  show ?case by (auto simp: manager_defs update_conv split: option.split)
next
  case (4 s k n)
  show ?case by (auto simp: manager_defs take_last_def update_conv split: option.split)
next
  case (5 s k j)
  show ?case by (simp add: manager_ops_def manager_get_history_def manager_get_summary_def)
next
  case (6 s m k)
  show ?case by simp
next
  case (7 s k j h n m)
  then show ?case by (auto simp: manager_defs update_conv Let_def split: option.split)
qed

section \<open>Restart\<close>

definition session_path :: "string \<Rightarrow> string" where
  "session_path key = sanitize_filename key @ ''.json''"

lemma session_path_inject [simp]: "session_path k = session_path j \<longleftrightarrow> k = j"
  by (auto simp: session_path_def sanitize_filename_def dest: hex_encode_inject)

lemma session_path_suffix [simp]: "suffix ''.json'' (session_path k)"
  by (simp add: session_path_def suffix_def)

text \<open>Every session file carries the key its name encodes.\<close>

definition files_ok :: "session_codec \<Rightarrow> (string, string) gomap \<Rightarrow> bool" where
  "files_ok C files \<longleftrightarrow> distinct (map fst files) \<and>
     list_all (\<lambda>(name, data). \<not> suffix ''.json'' name \<or>
       (case sc_unmarshal C data of None \<Rightarrow> True | Some s \<Rightarrow> name = session_path (ss_Key s))) files"

definition file_session :: "session_codec \<Rightarrow> (string, string) gomap \<Rightarrow> string \<Rightarrow> session option" where
  "file_session C files key =
     (case map_of files (session_path key) of
        None \<Rightarrow> None
      | Some data \<Rightarrow> (case sc_unmarshal C data of None \<Rightarrow> None | Some s \<Rightarrow> if ss_Key s = key then Some s else None))"

lemma load_step:
  assumes "files_ok C files"
  shows "map_of (fold (\<lambda>(name, data) sessions.
        if \<not> suffix ''.json'' name then sessions
        else case sc_unmarshal C data of None \<Rightarrow> sessions | Some s \<Rightarrow> AList.update (ss_Key s) s sessions) files acc) k =
    (case file_session C files k of None \<Rightarrow> map_of acc k | Some s \<Rightarrow> Some s)"
  using assms
proof (induction files arbitrary: acc)
  case (Cons f files)
  obtain name data where f: "f = (name, data)" by (cases f)
  have ok: "files_ok C files" using Cons.prems by (simp add: files_ok_def)
  have fresh: "map_of files name = None" using Cons.prems by (simp add: files_ok_def f map_of_eq_None_iff)
  show ?case
  proof (cases "suffix ''.json'' name \<and> sc_unmarshal C data \<noteq> None")
    case False
    then have "file_session C (f # files) k = file_session C files k"
      using fresh by (auto simp: file_session_def f split: option.split)
    then show ?thesis using Cons.IH [OF ok, of acc] False by (auto simp: f split: option.split)
  next
    case True
    then obtain s where s: "sc_unmarshal C data = Some s" by blast
    then have n: "name = session_path (ss_Key s)" using Cons.prems True by (simp add: files_ok_def f)
    have "file_session C files k = None" if "k = ss_Key s"
      using fresh n that by (auto simp: file_session_def split: option.split)
    moreover have "file_session C (f # files) k = (if k = ss_Key s then Some s else file_session C files k)"
      using s n by (auto simp: file_session_def f)
    ultimately show ?thesis using Cons.IH [OF ok, of "AList.update (ss_Key s) s acc"] s True
      by (auto simp: f update_conv split: option.split)
  qed
qed (simp add: file_session_def)

lemma load_sessions_eq: "files_ok C files \<Longrightarrow> map_of (load_sessions C files) k = file_session C files k"
  unfolding load_sessions_def by (subst load_step) (auto split: option.split)

lemma files_ok_update:
  assumes "files_ok C files" and "sc_unmarshal C data = Some s"
  shows "files_ok C (AList.update (session_path (ss_Key s)) data files)"
proof -
  have "set (AList.update (session_path (ss_Key s)) data files) \<subseteq> insert (session_path (ss_Key s), data) (set files)"
    by (induction files) auto
  moreover have "distinct (map fst (AList.update (session_path (ss_Key s)) data files))"
    using assms(1) by (simp add: files_ok_def distinct_update)
  ultimately show ?thesis
    using assms unfolding files_ok_def list_all_iff by (fastforce split: option.splits)
qed

text \<open>
  C32. A saved session survives a restart: after a successful Save the session's history, as JSON
  keeps it, and its summary are what a manager started on the same directory reports, and every other
  session on disk is reported as before.
\<close>

theorem saved_session_survives:
  assumes "files_ok C (sg_files sm)" and "sg_storage sm \<noteq> []"
    and "map_of (sg_sessions sm) k = Some s" and "ss_Key s = k"
    and "\<forall>data. sc_marshal C s = Some data \<longrightarrow>
      sc_unmarshal C data = Some (s\<lparr>ss_Messages := map stored_message (ss_Messages s)\<rparr>)"
    and "snd (manager_save C k sm)"
  shows "let restart = (\<lambda>sm. new_session_manager C (sg_storage sm) (sg_files sm) now);
             sm' = fst (manager_save C k sm) in
    manager_get_history k (restart sm') = map stored_message (manager_get_history k sm) \<and>
    manager_get_summary k (restart sm') = manager_get_summary k sm \<and>
    (\<forall>j. j \<noteq> k \<longrightarrow> manager_get_history j (restart sm') = manager_get_history j (restart sm) \<and>
      manager_get_summary j (restart sm') = manager_get_summary j (restart sm)) \<and>
    files_ok C (sg_files sm')"
proof -
  obtain data where m: "sc_marshal C s = Some data"
    and e: "fst (manager_save C k sm) = sm\<lparr>sg_files := AList.update (session_path k) data (sg_files sm)\<rparr>"
    using assms(2,3,6) by (auto simp: manager_save_def session_path_def Let_def split: if_splits option.splits)
  let ?s = "s\<lparr>ss_Messages := map stored_message (ss_Messages s)\<rparr>"
  let ?files = "AList.update (session_path k) data (sg_files sm)"
  have u: "sc_unmarshal C data = Some ?s" using assms(5) m by blast
  then have ok: "files_ok C ?files" using files_ok_update [OF assms(1) u] assms(4) by simp
  have "file_session C ?files j = (if j = k then Some ?s else file_session C (sg_files sm) j)" for j
    using u assms(4) by (simp add: file_session_def update_conv)
  then show ?thesis
    using ok assms(1-3) unfolding e Let_def
    by (simp add: new_session_manager_def manager_get_history_def manager_get_summary_def load_sessions_eq)
qed

text \<open>A codec that writes sessions with an empty history as their summary, all under one key.\<close>

definition demo_codec :: session_codec where
  "demo_codec =
     \<lparr>sc_marshal = (\<lambda>s. if s = (fresh_session ''k'' 0)\<lparr>ss_Summary := ss_Summary s\<rparr> then Some (ss_Summary s) else None),
      sc_unmarshal = (\<lambda>data. Some ((fresh_session ''k'' 0)\<lparr>ss_Summary := data\<rparr>)), sc_write_ok = (\<lambda>_. True)\<rparr>"

theorem saved_session_survives_witness:
  "manager_get_summary ''k'' (new_session_manager demo_codec ''d''
     (sg_files (fst (manager_save demo_codec ''k'' (manager_set_summary ''k'' ''sum''
        (snd (get_or_create_session ''k'' (new_session_manager demo_codec ''d'' [] 0))))))) 5) = ''sum''"
proof -
  let ?s = "(fresh_session ''k'' 0)\<lparr>ss_Summary := ''sum''\<rparr>"
  let ?sm = "manager_set_summary ''k'' ''sum'' (snd (get_or_create_session ''k'' (new_session_manager demo_codec ''d'' [] 0)))"
  have 1: "sg_storage ?sm = ''d''" "sg_files ?sm = []" "map_of (sg_sessions ?sm) ''k'' = Some ?s" "manager_get_summary ''k'' ?sm = ''sum''"
    "snd (manager_save demo_codec ''k'' ?sm)" by code_simp+
  have "files_ok demo_codec (sg_files ?sm)" unfolding 1(2) by (simp add: files_ok_def)
  moreover have "\<forall>data. sc_marshal demo_codec ?s = Some data \<longrightarrow>
      sc_unmarshal demo_codec data = Some (?s\<lparr>ss_Messages := map stored_message (ss_Messages ?s)\<rparr>)"
    by (auto simp: demo_codec_def fresh_session_def)
  moreover have "ss_Key ?s = ''k''" by (simp add: fresh_session_def)
  moreover have "sg_storage (fst (manager_save demo_codec ''k'' ?sm)) = ''d''" by code_simp
  ultimately show ?thesis
    using saved_session_survives [of demo_codec ?sm "''k''" ?s 5] 1 unfolding Let_def by simp
qed

end
