(* ===== verification/Jsonl_Store.thy ===== *)
theory Jsonl_Store
  imports Session_Store
begin

text \<open>
  The append-only session store (pkg/memory/jsonl.go) and its adapter to the session store interface
  (pkg/session/jsonl_backend.go). A log is the bytes of its file; a metadata file is its decoded
  value, or \<^const>\<open>None\<close> when it does not decode. Every operation is the list of the writes it makes,
  in order: a crash, or a write that fails, leaves a prefix of them. The JSON codec of a message is an
  argument; the clock is a field of the directory. The lemmas show that the store keeps the contract
  of Session_Store and what each crash leaves.
\<close>

section \<open>Files\<close>

definition max_line_size :: int where "max_line_size = 10 * 1024 * 1024"

record session_meta =
  mt_Key :: string
  mt_Summary :: string
  mt_Skip :: int
  mt_Count :: int
  mt_CreatedAt :: "time option"
  mt_UpdatedAt :: "time option"

record jsonl_dir =
  jd_logs :: "(string, string) gomap"
  jd_metas :: "(string, session_meta option) gomap"
  jd_now :: time

record message_codec =
  mc_marshal :: "message \<Rightarrow> string option"
  mc_unmarshal :: "string \<Rightarrow> message option"

datatype disk_write =
    WriteMeta string session_meta
  | AppendLog string string
  | RewriteLog string string

definition log_content :: "jsonl_dir \<Rightarrow> string \<Rightarrow> string" where
  "log_content d path = (case map_of (jd_logs d) path of None \<Rightarrow> [] | Some b \<Rightarrow> b)"

fun apply_write :: "disk_write \<Rightarrow> jsonl_dir \<Rightarrow> jsonl_dir" where
  "apply_write (WriteMeta path m) d = d\<lparr>jd_metas := AList.update path (Some m) (jd_metas d)\<rparr>"
| "apply_write (AppendLog path b) d = d\<lparr>jd_logs := AList.update path (log_content d path @ b) (jd_logs d)\<rparr>"
| "apply_write (RewriteLog path b) d = d\<lparr>jd_logs := AList.update path b (jd_logs d)\<rparr>"

definition run_writes :: "disk_write list \<Rightarrow> jsonl_dir \<Rightarrow> jsonl_dir" where
  "run_writes ws d = fold apply_write ws d"

definition sanitize_key :: "string \<Rightarrow> string" where
  "sanitize_key key = map (\<lambda>c. if c = CHR '':'' \<or> c = CHR 0x2F \<or> c = CHR 0x5C then CHR ''_'' else c) key"

definition jsonl_path :: "string \<Rightarrow> string" where "jsonl_path key = sanitize_key key @ ''.jsonl''"
definition meta_path :: "string \<Rightarrow> string" where "meta_path key = sanitize_key key @ ''.meta.json''"

definition read_meta :: "jsonl_dir \<Rightarrow> string \<Rightarrow> session_meta option" where
  "read_meta d key =
     (case map_of (jd_metas d) (meta_path key) of
        None \<Rightarrow> Some \<lparr>mt_Key = key, mt_Summary = [], mt_Skip = 0, mt_Count = 0, mt_CreatedAt = None, mt_UpdatedAt = None\<rparr>
      | Some m \<Rightarrow> m)"

section \<open>Lines\<close>

fun raw_lines :: "string \<Rightarrow> string list" where
  "raw_lines [] = []"
| "raw_lines (c # s) =
     (if c = CHR 0x0A then [] # raw_lines s
      else case raw_lines s of [] \<Rightarrow> [[c]] | l # ls \<Rightarrow> (c # l) # ls)"

text \<open>The scanner gives up on a line that does not fit into its buffer.\<close>

definition scan_lines :: "string \<Rightarrow> string list option" where
  "scan_lines content =
     (let ls = raw_lines content in
      if list_ex (\<lambda>l. int (length l) \<ge> max_line_size) ls then None
      else Some (filter (\<lambda>l. l \<noteq> []) (map drop_cr ls)))"

definition read_messages :: "message_codec \<Rightarrow> string \<Rightarrow> int \<Rightarrow> message list option" where
  "read_messages C content skip = map_option (\<lambda>ls. List.map_filter (mc_unmarshal C) (drop (nat skip) ls)) (scan_lines content)"

definition count_lines :: "string \<Rightarrow> int option" where
  "count_lines content = map_option (\<lambda>ls. int (length ls)) (scan_lines content)"

fun encode_log :: "message_codec \<Rightarrow> message list \<Rightarrow> string option" where
  "encode_log C [] = Some []"
| "encode_log C (m # ms) =
     (case mc_marshal C m of
        None \<Rightarrow> None
      | Some l \<Rightarrow> map_option (\<lambda>r. l @ nl @ r) (encode_log C ms))"

section \<open>Operations\<close>

definition touch_created :: "time \<Rightarrow> session_meta \<Rightarrow> session_meta" where
  "touch_created now m = (if mt_CreatedAt m = None then m\<lparr>mt_CreatedAt := Some now\<rparr> else m)"

definition add_msg :: "message_codec \<Rightarrow> string \<Rightarrow> message \<Rightarrow> jsonl_dir \<Rightarrow> disk_write list" where
  "add_msg C key msg d =
     (case mc_marshal C msg of
        None \<Rightarrow> []
      | Some line \<Rightarrow> AppendLog (jsonl_path key) (line @ nl) #
          (case read_meta d key of
             None \<Rightarrow> []
           | Some m \<Rightarrow>
               (let m = (if mt_Count m = 0 then touch_created (jd_now d) m else m)
                in [WriteMeta (meta_path key) (m\<lparr>mt_Count := mt_Count m + 1, mt_UpdatedAt := Some (jd_now d)\<rparr>)])))"

definition set_summary_writes :: "string \<Rightarrow> string \<Rightarrow> jsonl_dir \<Rightarrow> disk_write list" where
  "set_summary_writes key summary d =
     (case read_meta d key of
        None \<Rightarrow> []
      | Some m \<Rightarrow> [WriteMeta (meta_path key)
          ((touch_created (jd_now d) m)\<lparr>mt_Summary := summary, mt_UpdatedAt := Some (jd_now d)\<rparr>)])"

definition truncate_writes :: "string \<Rightarrow> int \<Rightarrow> jsonl_dir \<Rightarrow> disk_write list" where
  "truncate_writes key keep_last d =
     (case read_meta d key of
        None \<Rightarrow> []
      | Some m \<Rightarrow>
          (case count_lines (log_content d (jsonl_path key)) of
             None \<Rightarrow> []
           | Some n \<Rightarrow>
               (let skip = (if keep_last \<le> 0 then n
                    else let effective = n - mt_Skip m in if keep_last < effective then n - keep_last else mt_Skip m)
                in [WriteMeta (meta_path key) (m\<lparr>mt_Count := n, mt_Skip := skip, mt_UpdatedAt := Some (jd_now d)\<rparr>)])))"

definition rewrite_jsonl :: "message_codec \<Rightarrow> string \<Rightarrow> message list \<Rightarrow> disk_write list" where
  "rewrite_jsonl C key msgs = (case encode_log C msgs of None \<Rightarrow> [] | Some b \<Rightarrow> [RewriteLog (jsonl_path key) b])"

definition set_history_writes :: "message_codec \<Rightarrow> string \<Rightarrow> message list \<Rightarrow> jsonl_dir \<Rightarrow> disk_write list" where
  "set_history_writes C key history d =
     (case read_meta d key of
        None \<Rightarrow> []
      | Some m \<Rightarrow> WriteMeta (meta_path key) ((touch_created (jd_now d) m)
            \<lparr>mt_Skip := 0, mt_Count := int (length history), mt_UpdatedAt := Some (jd_now d)\<rparr>) #
          rewrite_jsonl C key history)"

definition compact_writes :: "message_codec \<Rightarrow> string \<Rightarrow> jsonl_dir \<Rightarrow> disk_write list" where
  "compact_writes C key d =
     (case read_meta d key of
        None \<Rightarrow> []
      | Some m \<Rightarrow>
          if mt_Skip m = 0 then []
          else case read_messages C (log_content d (jsonl_path key)) (mt_Skip m) of
            None \<Rightarrow> []
          | Some active \<Rightarrow> WriteMeta (meta_path key)
                (m\<lparr>mt_Skip := 0, mt_Count := int (length active), mt_UpdatedAt := Some (jd_now d)\<rparr>) #
              rewrite_jsonl C key active)"

text \<open>Whether Compact returns no error.\<close>

definition compact_ok :: "message_codec \<Rightarrow> string \<Rightarrow> jsonl_dir \<Rightarrow> bool" where
  "compact_ok C key d =
     (case read_meta d key of
        None \<Rightarrow> False
      | Some m \<Rightarrow>
          mt_Skip m = 0 \<or>
          (case read_messages C (log_content d (jsonl_path key)) (mt_Skip m) of
             None \<Rightarrow> False
           | Some active \<Rightarrow> encode_log C active \<noteq> None))"

section \<open>The adapter\<close>

definition jsonl_add_full_message :: "message_codec \<Rightarrow> string \<Rightarrow> message \<Rightarrow> jsonl_dir \<Rightarrow> jsonl_dir" where
  "jsonl_add_full_message C key msg d = run_writes (add_msg C key msg d) d"

definition jsonl_add_message :: "message_codec \<Rightarrow> string \<Rightarrow> string \<Rightarrow> string \<Rightarrow> jsonl_dir \<Rightarrow> jsonl_dir" where
  "jsonl_add_message C key role content d = jsonl_add_full_message C key (text_message role content) d"

definition jsonl_get_history :: "message_codec \<Rightarrow> string \<Rightarrow> jsonl_dir \<Rightarrow> message list" where
  "jsonl_get_history C key d =
     (case read_meta d key of
        None \<Rightarrow> []
      | Some m \<Rightarrow> (case read_messages C (log_content d (jsonl_path key)) (mt_Skip m) of None \<Rightarrow> [] | Some ms \<Rightarrow> ms))"

definition jsonl_get_summary :: "string \<Rightarrow> jsonl_dir \<Rightarrow> string" where
  "jsonl_get_summary key d = (case read_meta d key of None \<Rightarrow> [] | Some m \<Rightarrow> mt_Summary m)"

definition jsonl_set_summary :: "string \<Rightarrow> string \<Rightarrow> jsonl_dir \<Rightarrow> jsonl_dir" where
  "jsonl_set_summary key summary d = run_writes (set_summary_writes key summary d) d"

definition jsonl_set_history :: "message_codec \<Rightarrow> string \<Rightarrow> message list \<Rightarrow> jsonl_dir \<Rightarrow> jsonl_dir" where
  "jsonl_set_history C key history d = run_writes (set_history_writes C key history d) d"

definition jsonl_truncate_history :: "string \<Rightarrow> int \<Rightarrow> jsonl_dir \<Rightarrow> jsonl_dir" where
  "jsonl_truncate_history key keep_last d = run_writes (truncate_writes key keep_last d) d"

definition jsonl_save :: "message_codec \<Rightarrow> string \<Rightarrow> jsonl_dir \<Rightarrow> jsonl_dir \<times> bool" where
  "jsonl_save C key d = (run_writes (compact_writes C key d) d, compact_ok C key d)"

definition jsonl_ops :: "message_codec \<Rightarrow> jsonl_dir session_ops" where
  "jsonl_ops C =
     \<lparr>so_AddFullMessage = jsonl_add_full_message C, so_GetHistory = jsonl_get_history C, so_GetSummary = jsonl_get_summary,
      so_SetSummary = jsonl_set_summary, so_SetHistory = jsonl_set_history C, so_TruncateHistory = jsonl_truncate_history,
      so_Save = jsonl_save C\<rparr>"

section \<open>Clean logs\<close>

definition unlines :: "string list \<Rightarrow> string" where
  "unlines ls = concat (map (\<lambda>l. l @ nl) ls)"

text \<open>What \<open>encoding/json\<close> does with a message: one line without line breaks that reads back as stored.\<close>

definition codec_ok :: "message_codec \<Rightarrow> bool" where
  "codec_ok C \<longleftrightarrow> (\<forall>m l. mc_marshal C m = Some l \<longrightarrow>
     l \<noteq> [] \<and> CHR 0x0A \<notin> set l \<and> last l \<noteq> CHR 0x0D \<and> mc_unmarshal C l = Some (stored_message m) \<and>
     mc_marshal C (stored_message m) = Some l)"

definition clean_line :: "message_codec \<Rightarrow> string \<Rightarrow> bool" where
  "clean_line C l \<longleftrightarrow> (\<exists>m. mc_marshal C m = Some l) \<and> int (length l) < max_line_size"

definition fits :: "message_codec \<Rightarrow> message \<Rightarrow> bool" where
  "fits C m \<longleftrightarrow> (case mc_marshal C m of None \<Rightarrow> False | Some l \<Rightarrow> int (length l) < max_line_size)"

definition reads :: "message_codec \<Rightarrow> string list \<Rightarrow> message list" where
  "reads C ls = map (\<lambda>l. the (mc_unmarshal C l)) ls"

lemma unlines_simps [simp]: "unlines [] = []" "unlines (l # ls) = l @ nl @ unlines ls" "unlines (ls @ ks) = unlines ls @ unlines ks"
  by (simp_all add: unlines_def)

lemma raw_lines_line: "CHR 0x0A \<notin> set l \<Longrightarrow> raw_lines (l @ nl @ r) = l # raw_lines r"
  by (induction l) (auto simp: nl_def)

lemma raw_lines_tail: "CHR 0x0A \<notin> set l \<Longrightarrow> l \<noteq> [] \<Longrightarrow> raw_lines l = [l]"
proof (induction l)
  case (Cons c l)
  then show ?case by (cases "l = []") auto
qed simp

lemma clean_line_props:
  assumes "codec_ok C" and "clean_line C l"
  shows "CHR 0x0A \<notin> set l" "l \<noteq> []" "drop_cr l = l" "int (length l) < max_line_size"
    "\<exists>m. mc_marshal C m = Some l \<and> mc_unmarshal C l = Some (stored_message m)"
  using assms unfolding codec_ok_def clean_line_def drop_cr_def by metis+

lemma raw_lines_clean:
  "codec_ok C \<Longrightarrow> list_all (clean_line C) ls \<Longrightarrow> raw_lines (unlines ls @ r) = ls @ raw_lines r"
  by (induction ls) (simp_all add: raw_lines_line clean_line_props(1))

lemma scan_clean:
  assumes "codec_ok C" and "list_all (clean_line C) ls"
  shows "scan_lines (unlines ls) = Some ls"
proof -
  have "raw_lines (unlines ls) = ls" using raw_lines_clean [OF assms, of "[]"] by simp
  moreover have "\<not> list_ex (\<lambda>l. int (length l) \<ge> max_line_size) ls"
    using assms clean_line_props(4) by (force simp: list_ex_iff list_all_iff)
  moreover have "filter (\<lambda>l. l \<noteq> []) (map drop_cr ls) = ls"
    using assms clean_line_props(2,3) by (induction ls) auto
  ultimately show ?thesis by (simp add: scan_lines_def)
qed

lemma list_all_drop: "list_all P xs \<Longrightarrow> list_all P (drop n xs)"
  by (auto simp: list_all_iff dest: in_set_dropD)

lemma read_clean:
  assumes "codec_ok C" and "list_all (clean_line C) ls"
  shows "read_messages C (unlines ls) skip = Some (reads C (drop (nat skip) ls))"
proof -
  have "list_all (clean_line C) ks \<Longrightarrow> List.map_filter (mc_unmarshal C) ks = reads C ks" for ks
    using assms(1) by (induction ks) (auto simp: List.map_filter_simps reads_def dest!: clean_line_props(5))
  moreover have "list_all (clean_line C) (drop (nat skip) ls)" using assms(2) by (rule list_all_drop)
  ultimately show ?thesis by (simp add: read_messages_def scan_clean [OF assms])
qed

lemma clean_line_reencodes:
  "codec_ok C \<Longrightarrow> clean_line C l \<Longrightarrow> mc_marshal C (the (mc_unmarshal C l)) = Some l \<and>
     stored_message (the (mc_unmarshal C l)) = the (mc_unmarshal C l)"
  unfolding codec_ok_def clean_line_def by (metis option.sel stored_message_idem)

lemma encode_reads:
  "codec_ok C \<Longrightarrow> list_all (clean_line C) ls \<Longrightarrow> encode_log C (reads C ls) = Some (unlines ls)"
  by (induction ls) (simp_all add: reads_def clean_line_reencodes)

lemma encode_fits:
  "codec_ok C \<Longrightarrow> list_all (fits C) h \<Longrightarrow>
     \<exists>ls. encode_log C h = Some (unlines ls) \<and> list_all (clean_line C) ls \<and> reads C ls = map stored_message h"
proof (induction h)
  case Nil
  have "encode_log C [] = Some (unlines [])" "reads C [] = []" by (simp_all add: reads_def)
  then show ?case by (metis list.map(1) list.pred_inject(1))
next
  case (Cons m h)
  then obtain ls where ls: "encode_log C h = Some (unlines ls)" "list_all (clean_line C) ls" "reads C ls = map stored_message h"
    by auto
  obtain l where l: "mc_marshal C m = Some l" "int (length l) < max_line_size"
    using Cons.prems by (auto simp: fits_def split: option.splits)
  then have "clean_line C l" "mc_unmarshal C l = Some (stored_message m)"
    using Cons.prems(1) by (auto simp: clean_line_def codec_ok_def)
  then have "encode_log C (m # h) = Some (unlines (l # ls)) \<and> list_all (clean_line C) (l # ls) \<and>
      reads C (l # ls) = map stored_message (m # h)"
    using ls l by (simp add: reads_def)
  then show ?case by blast
qed

section \<open>Sessions on disk\<close>

text \<open>A session on disk: its log holds the clean lines, and the metadata read skips so many of them.\<close>

definition session_at :: "message_codec \<Rightarrow> jsonl_dir \<Rightarrow> string \<Rightarrow> string list \<Rightarrow> session_meta \<Rightarrow> bool" where
  "session_at C d key ls m \<longleftrightarrow> log_content d (jsonl_path key) = unlines ls \<and> list_all (clean_line C) ls \<and>
     read_meta d key = Some m \<and> 0 \<le> mt_Skip m \<and> mt_Skip m \<le> int (length ls)"

definition jsonl_inv :: "message_codec \<Rightarrow> jsonl_dir \<Rightarrow> bool" where
  "jsonl_inv C d \<longleftrightarrow> codec_ok C \<and> (\<forall>key. \<exists>ls m. session_at C d key ls m)"

lemma session_at_reads:
  assumes "codec_ok C" and "session_at C d key ls m"
  shows "jsonl_get_history C key d = reads C (drop (nat (mt_Skip m)) ls)" and "jsonl_get_summary key d = mt_Summary m"
  using assms(2) read_clean [OF assms(1)] by (simp_all add: session_at_def jsonl_get_history_def jsonl_get_summary_def)

lemma path_iff [simp]:
  "jsonl_path k = jsonl_path j \<longleftrightarrow> sanitize_key k = sanitize_key j" "meta_path k = meta_path j \<longleftrightarrow> sanitize_key k = sanitize_key j"
  by (simp_all add: jsonl_path_def meta_path_def)

lemma apply_write_reads [simp]:
  "read_meta (apply_write (WriteMeta (meta_path j) m) d) k = (if sanitize_key k = sanitize_key j then Some m else read_meta d k)"
  "read_meta (apply_write (AppendLog p b) d) k = read_meta d k"
  "read_meta (apply_write (RewriteLog p b) d) k = read_meta d k"
  "log_content (apply_write (WriteMeta p m) d) q = log_content d q"
  "log_content (apply_write (AppendLog p b) d) q = (if q = p then log_content d p @ b else log_content d q)"
  "log_content (apply_write (RewriteLog p b) d) q = (if q = p then b else log_content d q)"
  by (auto simp: read_meta_def log_content_def update_conv)

declare apply_write.simps [simp del]

lemma run_writes_simps [simp]: "run_writes [] d = d" "run_writes (w # ws) d = run_writes ws (apply_write w d)"
  by (simp_all add: run_writes_def)

text \<open>Two keys with the same file name are one session.\<close>

lemma same_file:
  assumes "sanitize_key j = sanitize_key k" and "session_at C d k ls m"
  shows "\<exists>m'. session_at C d j ls m' \<and> mt_Skip m' = mt_Skip m \<and> mt_Summary m' = mt_Summary m"
proof -
  have p: "jsonl_path j = jsonl_path k" "meta_path j = meta_path k" using assms(1) by simp_all
  show ?thesis
  proof (cases "map_of (jd_metas d) (meta_path k)")
    case None
    then show ?thesis using assms(2) unfolding session_at_def read_meta_def p by auto
  next
    case (Some x)
    then show ?thesis using assms(2) unfolding session_at_def read_meta_def p by auto
  qed
qed

text \<open>The state after an operation that leaves clean lines and metadata for its session.\<close>

lemma inv_intro:
  assumes "jsonl_inv C d" and "session_at C d' k ls m"
    and "\<And>j. sanitize_key j \<noteq> sanitize_key k \<Longrightarrow> read_meta d' j = read_meta d j \<and> log_content d' (jsonl_path j) = log_content d (jsonl_path j)"
  shows "jsonl_inv C d'"
  unfolding jsonl_inv_def
proof (intro conjI allI)
  show "codec_ok C" using assms(1) by (simp add: jsonl_inv_def)
  fix j
  show "\<exists>ls m. session_at C d' j ls m"
  proof (cases "sanitize_key j = sanitize_key k")
    case True
    from same_file [OF True assms(2)] show ?thesis by blast
  next
    case False
    obtain ls' m' where "session_at C d j ls' m'" using assms(1) unfolding jsonl_inv_def by blast
    then show ?thesis using assms(3) [OF False] by (auto simp: session_at_def)
  qed
qed

section \<open>The operations on a session\<close>

definition writes_for :: "string \<Rightarrow> disk_write list \<Rightarrow> bool" where
  "writes_for k ws \<longleftrightarrow> list_all (\<lambda>w. case w of WriteMeta p _ \<Rightarrow> p = meta_path k | AppendLog p _ \<Rightarrow> p = jsonl_path k
     | RewriteLog p _ \<Rightarrow> p = jsonl_path k) ws"

lemma writes_for_simps [simp]:
  "writes_for k []" "writes_for k (WriteMeta p m # ws) = (p = meta_path k \<and> writes_for k ws)"
  "writes_for k (AppendLog p b # ws) = (p = jsonl_path k \<and> writes_for k ws)"
  "writes_for k (RewriteLog p b # ws) = (p = jsonl_path k \<and> writes_for k ws)"
  by (simp_all add: writes_for_def)

lemma ops_write_their_session:
  "writes_for k (add_msg C k msg d)" "writes_for k (set_summary_writes k x d)" "writes_for k (truncate_writes k n d)"
  "writes_for k (set_history_writes C k h d)" "writes_for k (compact_writes C k d)"
  by (auto simp: add_msg_def set_summary_writes_def truncate_writes_def set_history_writes_def compact_writes_def
      rewrite_jsonl_def Let_def split: option.split)

lemma frame_run:
  assumes "writes_for k ws" and "sanitize_key j \<noteq> sanitize_key k"
  shows "read_meta (run_writes ws d) j = read_meta d j \<and> log_content (run_writes ws d) (jsonl_path j) = log_content d (jsonl_path j)"
  using assms(1)
proof (induction ws arbitrary: d)
  case (Cons w ws)
  then show ?case using assms(2) by (cases w) auto
qed simp

lemma frame_history:
  assumes "writes_for k ws" and "sanitize_key j \<noteq> sanitize_key k"
  shows "jsonl_get_history C j (run_writes ws d) = jsonl_get_history C j d \<and>
    jsonl_get_summary j (run_writes ws d) = jsonl_get_summary j d"
  unfolding jsonl_get_history_def jsonl_get_summary_def frame_run [OF assms, THEN conjunct1] frame_run [OF assms, THEN conjunct2]
  by simp

lemma inv_run: "jsonl_inv C d \<Longrightarrow> writes_for k ws \<Longrightarrow> session_at C (run_writes ws d) k ls m \<Longrightarrow> jsonl_inv C (run_writes ws d)"
  using inv_intro frame_run by blast

text \<open>What a session looks like after each operation, as metadata up to the time stamps.\<close>

definition same_meta :: "session_meta \<Rightarrow> session_meta \<Rightarrow> bool" where
  "same_meta m m' \<longleftrightarrow> mt_Summary m' = mt_Summary m \<and> mt_Skip m' = mt_Skip m"

lemma touch_created_simps [simp]:
  "mt_Summary (touch_created t m) = mt_Summary m" "mt_Skip (touch_created t m) = mt_Skip m" "mt_Count (touch_created t m) = mt_Count m"
  by (simp_all add: touch_created_def)

lemma add_at:
  assumes "session_at C d k ls m" and "mc_marshal C msg = Some l" and "int (length l) < max_line_size"
  shows "\<exists>m'. session_at C (run_writes (add_msg C k msg d) d) k (ls @ [l]) m' \<and> same_meta m m'"
  using assms by (auto simp: session_at_def add_msg_def clean_line_def same_meta_def Let_def)

lemma set_summary_at:
  assumes "session_at C d k ls m"
  shows "\<exists>m'. session_at C (run_writes (set_summary_writes k x d) d) k ls m' \<and> mt_Skip m' = mt_Skip m \<and> mt_Summary m' = x"
  using assms by (auto simp: session_at_def set_summary_writes_def)

lemma truncate_at:
  assumes "codec_ok C" and "session_at C d k ls m"
  shows "\<exists>m'. session_at C (run_writes (truncate_writes k n d) d) k ls m' \<and> mt_Summary m' = mt_Summary m \<and>
    drop (nat (mt_Skip m')) ls = take_last n (drop (nat (mt_Skip m)) ls)"
proof -
  have c: "count_lines (log_content d (jsonl_path k)) = Some (int (length ls))"
    using assms(2) scan_clean [OF assms(1), of ls] by (simp add: session_at_def count_lines_def)
  let ?skip = "if n \<le> 0 then int (length ls)
    else if n < int (length ls) - mt_Skip m then int (length ls) - n else mt_Skip m"
  have s: "0 \<le> mt_Skip m" "mt_Skip m \<le> int (length ls)" using assms(2) by (simp_all add: session_at_def)
  have "session_at C (run_writes (truncate_writes k n d) d) k ls
      (m\<lparr>mt_Count := int (length ls), mt_Skip := ?skip, mt_UpdatedAt := Some (jd_now d)\<rparr>)"
    using assms(2) s c by (simp add: session_at_def truncate_writes_def Let_def)
  moreover have "drop (nat ?skip) ls = take_last n (drop (nat (mt_Skip m)) ls)"
  proof -
    consider "n \<le> 0" | "0 < n" "n < int (length ls) - mt_Skip m" | "0 < n" "\<not> n < int (length ls) - mt_Skip m" by linarith
    then show ?thesis
    proof cases
      case 1
      then show ?thesis by (simp add: take_last_def)
    next
      case 2
      then have "nat (int (length ls) - n) = length ls - nat (mt_Skip m) - nat n + nat (mt_Skip m)" using s by linarith
      then show ?thesis using 2 by (simp add: take_last_def)
    next
      case 3
      then have "length ls - nat (mt_Skip m) - nat n = 0" using s by linarith
      then show ?thesis using 3 by (simp add: take_last_def)
    qed
  qed
  ultimately show ?thesis
    by (intro exI [of _ "m\<lparr>mt_Count := int (length ls), mt_Skip := ?skip, mt_UpdatedAt := Some (jd_now d)\<rparr>"]) simp
qed

lemma set_history_at:
  assumes "session_at C d k ls m" and "encode_log C h = Some (unlines ks)" and "list_all (clean_line C) ks"
  shows "\<exists>m'. session_at C (run_writes (set_history_writes C k h d) d) k ks m' \<and> mt_Summary m' = mt_Summary m \<and> mt_Skip m' = 0"
  using assms by (auto simp: session_at_def set_history_writes_def rewrite_jsonl_def)

lemma compact_at:
  assumes "codec_ok C" and "session_at C d k ls m"
  shows "\<exists>ls' m'. session_at C (run_writes (compact_writes C k d) d) k ls' m' \<and> mt_Summary m' = mt_Summary m \<and>
    drop (nat (mt_Skip m')) ls' = drop (nat (mt_Skip m)) ls"
proof (cases "mt_Skip m = 0")
  case True
  then have "compact_writes C k d = []" using assms(2) by (simp add: session_at_def compact_writes_def)
  then have "session_at C (run_writes (compact_writes C k d) d) k ls m" using assms(2) by (simp only: run_writes_simps)
  then show ?thesis by blast
next
  case False
  have cl: "list_all (clean_line C) (drop (nat (mt_Skip m)) ls)"
    using assms(2) by (simp add: session_at_def list_all_drop)
  have r: "read_messages C (log_content d (jsonl_path k)) (mt_Skip m) = Some (reads C (drop (nat (mt_Skip m)) ls))"
    using assms(2) read_clean [OF assms(1)] by (simp add: session_at_def)
  have "compact_writes C k d = [WriteMeta (meta_path k)
      (m\<lparr>mt_Skip := 0, mt_Count := int (length (reads C (drop (nat (mt_Skip m)) ls))), mt_UpdatedAt := Some (jd_now d)\<rparr>),
      RewriteLog (jsonl_path k) (unlines (drop (nat (mt_Skip m)) ls))]"
    using assms(2) False r encode_reads [OF assms(1) cl] by (simp add: session_at_def compact_writes_def rewrite_jsonl_def)
  then have "session_at C (run_writes (compact_writes C k d) d) k (drop (nat (mt_Skip m)) ls)
      (m\<lparr>mt_Skip := 0, mt_Count := int (length (reads C (drop (nat (mt_Skip m)) ls))), mt_UpdatedAt := Some (jd_now d)\<rparr>)"
    using cl by (simp add: session_at_def)
  then show ?thesis
    by (intro exI [of _ "drop (nat (mt_Skip m)) ls"] exI [of _ "m\<lparr>mt_Skip := 0,
        mt_Count := int (length (reads C (drop (nat (mt_Skip m)) ls))), mt_UpdatedAt := Some (jd_now d)\<rparr>"]) simp
qed

section \<open>The contract\<close>

lemma session_of: "jsonl_inv C d \<Longrightarrow> \<exists>ls m. session_at C d k ls m"
  unfolding jsonl_inv_def by blast

lemma inv_codec: "jsonl_inv C d \<Longrightarrow> codec_ok C"
  unfolding jsonl_inv_def by blast

lemma same_file_history:
  assumes "jsonl_inv C d" and "sanitize_key j = sanitize_key k"
  shows "jsonl_get_history C j d = jsonl_get_history C k d" and "jsonl_get_summary j d = jsonl_get_summary k d"
proof -
  obtain ls m where 1: "session_at C d k ls m" using session_of [OF assms(1)] by blast
  obtain m' where 2: "session_at C d j ls m'" "mt_Skip m' = mt_Skip m" "mt_Summary m' = mt_Summary m"
    using same_file [OF assms(2) 1] by blast
  show "jsonl_get_history C j d = jsonl_get_history C k d" "jsonl_get_summary j d = jsonl_get_summary k d"
    using session_at_reads [OF inv_codec [OF assms(1)] 1] session_at_reads [OF inv_codec [OF assms(1)] 2(1)] 2(2,3) by simp_all
qed

text \<open>An operation that leaves a session's history and summary as they are does so for every key.\<close>

lemma kept_for_all_keys:
  assumes "jsonl_inv C d" and "jsonl_inv C (run_writes ws d)" and "writes_for k ws"
    and "jsonl_get_history C k (run_writes ws d) = jsonl_get_history C k d"
  shows "jsonl_get_history C j (run_writes ws d) = jsonl_get_history C j d"
  using same_file_history(1) [OF assms(1)] same_file_history(1) [OF assms(2)] frame_history [OF assms(3)] assms(4)
  by (cases "sanitize_key j = sanitize_key k") metis+

lemma kept_summary_for_all_keys:
  assumes "jsonl_inv C d" and "jsonl_inv C (run_writes ws d)" and "writes_for k ws"
    and "jsonl_get_summary k (run_writes ws d) = jsonl_get_summary k d"
  shows "jsonl_get_summary j (run_writes ws d) = jsonl_get_summary j d"
  using same_file_history(2) [OF assms(1)] same_file_history(2) [OF assms(2)] frame_history [OF assms(3)] assms(4)
  by (cases "sanitize_key j = sanitize_key k") metis+

lemma reads_append [simp]: "reads C (ls @ ks) = reads C ls @ reads C ks"
  by (simp add: reads_def)

lemma reads_drop: "reads C (drop n ls) = drop n (reads C ls)"
  by (simp add: reads_def drop_map)

lemma reads_take_last: "reads C (take_last n ls) = take_last n (reads C ls)"
  by (simp add: take_last_def reads_def drop_map)

lemma jsonl_add_contract:
  assumes "jsonl_inv C d" and "fits C msg"
  shows "jsonl_inv C (jsonl_add_full_message C k msg d) \<and>
    jsonl_get_history C k (jsonl_add_full_message C k msg d) = jsonl_get_history C k d @ [stored_message msg]"
proof -
  note c = inv_codec [OF assms(1)]
  obtain ls m where s: "session_at C d k ls m" using session_of [OF assms(1)] by blast
  obtain l where l: "mc_marshal C msg = Some l" "int (length l) < max_line_size"
    using assms(2) by (auto simp: fits_def split: option.splits)
  obtain m' where s': "session_at C (jsonl_add_full_message C k msg d) k (ls @ [l]) m'" "mt_Skip m' = mt_Skip m"
    using add_at [OF s l] by (auto simp: jsonl_add_full_message_def same_meta_def)
  have "mc_unmarshal C l = Some (stored_message msg)" using c l(1) by (auto simp: codec_ok_def)
  then have "reads C [l] = [stored_message msg]" by (simp add: reads_def)
  moreover have "nat (mt_Skip m) \<le> length ls" using s by (auto simp: session_at_def nat_le_iff)
  ultimately have "jsonl_get_history C k (jsonl_add_full_message C k msg d) = jsonl_get_history C k d @ [stored_message msg]"
    using session_at_reads(1) [OF c s] session_at_reads(1) [OF c s'(1)] s'(2) by simp
  moreover have "jsonl_inv C (jsonl_add_full_message C k msg d)"
    unfolding jsonl_add_full_message_def
    by (rule inv_run [OF assms(1) ops_write_their_session(1) s'(1) [unfolded jsonl_add_full_message_def]])
  ultimately show ?thesis by blast
qed

lemma jsonl_set_summary_contract:
  assumes "jsonl_inv C d"
  shows "jsonl_inv C (jsonl_set_summary k x d) \<and>
    jsonl_get_history C j (jsonl_set_summary k x d) = jsonl_get_history C j d \<and>
    jsonl_get_summary k (jsonl_set_summary k x d) = x"
proof -
  note c = inv_codec [OF assms]
  obtain ls m where s: "session_at C d k ls m" using session_of [OF assms] by blast
  obtain m' where s': "session_at C (run_writes (set_summary_writes k x d) d) k ls m'" "mt_Skip m' = mt_Skip m" "mt_Summary m' = x"
    using set_summary_at [OF s] by blast
  have i: "jsonl_inv C (run_writes (set_summary_writes k x d) d)"
    by (rule inv_run [OF assms ops_write_their_session(2) s'(1)])
  have h: "jsonl_get_history C k (run_writes (set_summary_writes k x d) d) = jsonl_get_history C k d"
    using session_at_reads(1) [OF c s] session_at_reads(1) [OF c s'(1)] s'(2) by simp
  show ?thesis
    unfolding jsonl_set_summary_def
    using i kept_for_all_keys [OF assms i ops_write_their_session(2) h] session_at_reads(2) [OF c s'(1)] s'(3) by simp
qed

lemma jsonl_set_history_contract:
  assumes "jsonl_inv C d" and "list_all (fits C) h"
  shows "jsonl_inv C (jsonl_set_history C k h d) \<and>
    jsonl_get_summary k (jsonl_set_history C k h d) = jsonl_get_summary k d \<and>
    jsonl_get_history C k (jsonl_set_history C k h d) = map stored_message h"
proof -
  note c = inv_codec [OF assms(1)]
  obtain ls m where s: "session_at C d k ls m" using session_of [OF assms(1)] by blast
  obtain ks where ks: "encode_log C h = Some (unlines ks)" "list_all (clean_line C) ks" "reads C ks = map stored_message h"
    using encode_fits [OF c assms(2)] by blast
  obtain m' where s': "session_at C (run_writes (set_history_writes C k h d) d) k ks m'" "mt_Summary m' = mt_Summary m" "mt_Skip m' = 0"
    using set_history_at [OF s ks(1,2)] by blast
  have "jsonl_inv C (run_writes (set_history_writes C k h d) d)"
    by (rule inv_run [OF assms(1) ops_write_their_session(4) s'(1)])
  then show ?thesis
    unfolding jsonl_set_history_def using session_at_reads [OF c s] session_at_reads [OF c s'(1)] s'(2,3) ks(3) by simp
qed

lemma jsonl_truncate_contract:
  assumes "jsonl_inv C d"
  shows "jsonl_inv C (jsonl_truncate_history k n d) \<and>
    jsonl_get_summary k (jsonl_truncate_history k n d) = jsonl_get_summary k d \<and>
    jsonl_get_history C k (jsonl_truncate_history k n d) = take_last n (jsonl_get_history C k d)"
proof -
  note c = inv_codec [OF assms]
  obtain ls m where s: "session_at C d k ls m" using session_of [OF assms] by blast
  obtain m' where s': "session_at C (run_writes (truncate_writes k n d) d) k ls m'" "mt_Summary m' = mt_Summary m"
    "drop (nat (mt_Skip m')) ls = take_last n (drop (nat (mt_Skip m)) ls)"
    using truncate_at [OF c s] by blast
  have "jsonl_inv C (run_writes (truncate_writes k n d) d)"
    by (rule inv_run [OF assms ops_write_their_session(3) s'(1)])
  then show ?thesis
    unfolding jsonl_truncate_history_def
    using session_at_reads [OF c s] session_at_reads [OF c s'(1)] s'(2,3) by (simp add: reads_take_last)
qed

lemma jsonl_save_contract:
  assumes "jsonl_inv C d"
  shows "jsonl_inv C (fst (jsonl_save C k d)) \<and>
    jsonl_get_history C j (fst (jsonl_save C k d)) = jsonl_get_history C j d \<and>
    jsonl_get_summary j (fst (jsonl_save C k d)) = jsonl_get_summary j d"
proof -
  note c = inv_codec [OF assms]
  obtain ls m where s: "session_at C d k ls m" using session_of [OF assms] by blast
  obtain ls' m' where s': "session_at C (run_writes (compact_writes C k d) d) k ls' m'" "mt_Summary m' = mt_Summary m"
    "drop (nat (mt_Skip m')) ls' = drop (nat (mt_Skip m)) ls"
    using compact_at [OF c s] by blast
  have i: "jsonl_inv C (run_writes (compact_writes C k d) d)"
    by (rule inv_run [OF assms ops_write_their_session(5) s'(1)])
  have "jsonl_get_history C k (run_writes (compact_writes C k d) d) = jsonl_get_history C k d"
    "jsonl_get_summary k (run_writes (compact_writes C k d) d) = jsonl_get_summary k d"
    using session_at_reads [OF c s] session_at_reads [OF c s'(1)] s'(2,3) by simp_all
  then show ?thesis
    unfolding jsonl_save_def fst_conv
    using i kept_for_all_keys [OF assms i ops_write_their_session(5)] kept_summary_for_all_keys [OF assms i ops_write_their_session(5)]
    by blast
qed

lemma jsonl_held:
  assumes "jsonl_inv C d" and "m \<in> set (jsonl_get_history C k d)"
  shows "fits C m \<and> stored_message m = m"
proof -
  note c = inv_codec [OF assms(1)]
  obtain ls mt where s: "session_at C d k ls mt" using session_of [OF assms(1)] by blast
  then obtain l where l: "l \<in> set ls" "m = the (mc_unmarshal C l)"
    using assms(2) session_at_reads(1) [OF c s] by (auto simp: reads_def dest: in_set_dropD)
  then have "clean_line C l" using s by (simp add: session_at_def list_all_iff)
  with clean_line_reencodes [OF c this] l(2) show ?thesis by (simp add: fits_def clean_line_def)
qed

interpretation jsonl_store: session_contract "jsonl_ops C" "jsonl_inv C" stored_message "fits C"
  "\<lambda>k j. sanitize_key k \<noteq> sanitize_key j"
proof (unfold_locales, goal_cases)
  case (1 d m k)
  then show ?case using jsonl_add_contract by (simp add: jsonl_ops_def)
next
  case (2 d k x j)
  then show ?case using jsonl_set_summary_contract by (simp add: jsonl_ops_def)
next
  case (3 d h k)
  then show ?case using jsonl_set_history_contract by (simp add: jsonl_ops_def)
next
  case (4 d k n)
  then show ?case using jsonl_truncate_contract by (simp add: jsonl_ops_def)
next
  case (5 d k j)
  then show ?case using jsonl_save_contract by (simp add: jsonl_ops_def)
next
  case (6 d m k)
  then show ?case using jsonl_held by (simp add: jsonl_ops_def)
next
  case (7 d k j h n m)
  then have "sanitize_key j \<noteq> sanitize_key k" by simp
  note f = frame_history [OF _ this]
  show ?case
    by (simp add: jsonl_ops_def jsonl_set_history_def jsonl_truncate_history_def jsonl_add_full_message_def
        f [OF ops_write_their_session(1)] f [OF ops_write_their_session(3)] f [OF ops_write_their_session(4)])
qed

section \<open>Crashes\<close>

text \<open>What is on disk when the process dies after so many of an operation's writes.\<close>

definition crash_after :: "nat \<Rightarrow> disk_write list \<Rightarrow> jsonl_dir \<Rightarrow> jsonl_dir" where
  "crash_after n ws d = run_writes (take n ws) d"

lemma stale_meta_at:
  assumes "session_at C d k ls m" and "0 \<le> mt_Skip m'" and "mt_Skip m' \<le> int (length ls)"
  shows "session_at C (run_writes [WriteMeta (meta_path k) m'] d) k ls m'"
  using assms by (simp add: session_at_def)

lemma add_crash:
  assumes "jsonl_inv C d" and "fits C msg"
  shows "jsonl_get_history C k (crash_after n (add_msg C k msg d) d) \<in>
    {jsonl_get_history C k d, jsonl_get_history C k d @ [stored_message msg]}"
proof -
  note c = inv_codec [OF assms(1)]
  obtain ls m where s: "session_at C d k ls m" using session_of [OF assms(1)] by blast
  obtain l where l: "mc_marshal C msg = Some l" "int (length l) < max_line_size"
    using assms(2) by (auto simp: fits_def split: option.splits)
  obtain w where ws: "add_msg C k msg d = [AppendLog (jsonl_path k) (l @ nl), w]"
    using s l(1) by (auto simp: add_msg_def session_at_def Let_def)
  have "session_at C (run_writes [AppendLog (jsonl_path k) (l @ nl)] d) k (ls @ [l]) m"
    using s l by (auto simp: session_at_def clean_line_def)
  moreover have "mc_unmarshal C l = Some (stored_message msg)" using c l(1) by (auto simp: codec_ok_def)
  then have "reads C [l] = [stored_message msg]" by (simp add: reads_def)
  moreover have "nat (mt_Skip m) \<le> length ls" using s by (auto simp: session_at_def nat_le_iff)
  ultimately have one: "jsonl_get_history C k (run_writes [AppendLog (jsonl_path k) (l @ nl)] d) =
      jsonl_get_history C k d @ [stored_message msg]"
    using session_at_reads(1) [OF c s] session_at_reads(1) [OF c, of "run_writes [AppendLog (jsonl_path k) (l @ nl)] d"] by simp
  consider "n = 0" | "n = 1" | "2 \<le> n" by linarith
  then show ?thesis
  proof cases
    case 1
    then show ?thesis by (simp add: crash_after_def)
  next
    case 2
    then show ?thesis using one by (simp add: crash_after_def ws)
  next
    case 3
    then have "crash_after n (add_msg C k msg d) d = jsonl_add_full_message C k msg d"
      by (simp add: crash_after_def jsonl_add_full_message_def ws)
    then show ?thesis using jsonl_add_contract [OF assms] by simp
  qed
qed

lemma compact_crash:
  assumes "jsonl_inv C d"
  shows "jsonl_inv C (crash_after n (compact_writes C k d) d) \<and>
    suffix (jsonl_get_history C k d) (jsonl_get_history C k (crash_after n (compact_writes C k d) d))"
proof -
  note c = inv_codec [OF assms]
  obtain ls m where s: "session_at C d k ls m" using session_of [OF assms] by blast
  have full: "jsonl_inv C (run_writes (compact_writes C k d) d) \<and>
      jsonl_get_history C k (run_writes (compact_writes C k d) d) = jsonl_get_history C k d"
    using jsonl_save_contract [OF assms, of k k] by (simp add: jsonl_save_def)
  show ?thesis
  proof (cases "length (compact_writes C k d) \<le> n \<or> n = 0")
    case True
    then show ?thesis using full assms by (auto simp: crash_after_def)
  next
    case False
    have r: "read_messages C (log_content d (jsonl_path k)) (mt_Skip m) = Some (reads C (drop (nat (mt_Skip m)) ls))"
      using s read_clean [OF c] by (simp add: session_at_def)
    from False obtain m' where m': "take n (compact_writes C k d) = [WriteMeta (meta_path k) m']" "mt_Skip m' = 0"
      using s r by (cases n) (auto simp: session_at_def compact_writes_def rewrite_jsonl_def split: if_splits option.splits)
    have "session_at C (run_writes [WriteMeta (meta_path k) m'] d) k ls m'"
      by (rule stale_meta_at [OF s]) (simp_all add: m'(2))
    note i = this inv_run [OF assms _ this]
    have "jsonl_get_history C k (run_writes [WriteMeta (meta_path k) m'] d) = reads C ls"
      using session_at_reads(1) [OF c i(1)] m'(2) by simp
    then show ?thesis
      unfolding crash_after_def m'(1) using i(2) session_at_reads(1) [OF c s] by (simp add: reads_drop suffix_drop)
  qed
qed

lemma set_history_crash:
  assumes "jsonl_inv C d" and "list_all (fits C) h"
  shows "jsonl_get_history C k (crash_after n (set_history_writes C k h d) d) = map stored_message h \<or>
    suffix (jsonl_get_history C k d) (jsonl_get_history C k (crash_after n (set_history_writes C k h d) d))"
proof -
  note c = inv_codec [OF assms(1)]
  obtain ls m where s: "session_at C d k ls m" using session_of [OF assms(1)] by blast
  obtain ks where ks: "encode_log C h = Some (unlines ks)" using encode_fits [OF c assms(2)] by blast
  obtain m' where ws: "set_history_writes C k h d = [WriteMeta (meta_path k) m', RewriteLog (jsonl_path k) (unlines ks)]"
    "mt_Skip m' = 0"
    using s ks by (auto simp: session_at_def set_history_writes_def rewrite_jsonl_def)
  have "session_at C (run_writes [WriteMeta (meta_path k) m'] d) k ls m'"
    by (rule stale_meta_at [OF s]) (simp_all add: ws(2))
  then have one: "jsonl_get_history C k (run_writes [WriteMeta (meta_path k) m'] d) = reads C ls"
    using session_at_reads(1) [OF c] ws(2) by fastforce
  consider "n = 0" | "n = 1" | "2 \<le> n" by linarith
  then show ?thesis
  proof cases
    case 1
    then show ?thesis by (simp add: crash_after_def)
  next
    case 2
    then show ?thesis using one session_at_reads(1) [OF c s] by (simp add: crash_after_def ws(1) reads_drop suffix_drop)
  next
    case 3
    then have "crash_after n (set_history_writes C k h d) d = jsonl_set_history C k h d"
      by (simp add: crash_after_def jsonl_set_history_def ws(1))
    then show ?thesis using jsonl_set_history_contract [OF assms] by simp
  qed
qed

text \<open>A line cut off by a crash: nothing is lost, but it takes the next message with it.\<close>

lemma torn_line:
  assumes "jsonl_inv C d" and "CHR 0x0A \<notin> set torn" and "torn \<noteq> []" and "last torn \<noteq> CHR 0x0D"
    and "int (length torn) < max_line_size" and "mc_unmarshal C torn = None"
  shows "jsonl_get_history C k (run_writes [AppendLog (jsonl_path k) torn] d) = jsonl_get_history C k d"
    and "mc_marshal C msg = Some l \<Longrightarrow> mc_unmarshal C (torn @ l) = None \<Longrightarrow> int (length (torn @ l)) < max_line_size \<Longrightarrow>
      jsonl_get_history C k (jsonl_add_full_message C k msg (run_writes [AppendLog (jsonl_path k) torn] d)) = jsonl_get_history C k d"
proof -
  note c = inv_codec [OF assms(1)]
  obtain ls m where s: "session_at C d k ls m" using session_of [OF assms(1)] by blast
  then have cl: "list_all (clean_line C) ls" and sk: "nat (mt_Skip m) \<le> length ls"
    by (auto simp: session_at_def nat_le_iff)
  have junk: "scan_lines (unlines ls @ r) = Some (ls @ [t])"
    if "raw_lines r = [t]" "t \<noteq> []" "drop_cr t = t" "int (length t) < max_line_size" for r t
  proof -
    have "raw_lines (unlines ls @ r) = ls @ [t]" using raw_lines_clean [OF c cl, of r] that(1) by simp
    moreover have "\<not> list_ex (\<lambda>l. int (length l) \<ge> max_line_size) ls"
      using cl clean_line_props(4) [OF c] by (force simp: list_ex_iff list_all_iff)
    moreover have "filter (\<lambda>l. l \<noteq> []) (map drop_cr ls) = ls"
      using cl clean_line_props(2,3) [OF c] by (induction ls) auto
    ultimately show ?thesis using that by (simp add: scan_lines_def)
  qed
  have skipped: "read_messages C (unlines ls @ r) (mt_Skip m) = Some (reads C (drop (nat (mt_Skip m)) ls))"
    if "raw_lines r = [t]" "t \<noteq> []" "drop_cr t = t" "int (length t) < max_line_size" "mc_unmarshal C t = None" for r t
  proof -
    have "List.map_filter (mc_unmarshal C) (drop (nat (mt_Skip m)) ls @ [t]) = reads C (drop (nat (mt_Skip m)) ls)"
      using read_clean [OF c cl, of "mt_Skip m"] scan_clean [OF c cl] that(5)
      by (simp add: read_messages_def List.map_filter_def)
    then show ?thesis using junk [OF that(1-4)] sk by (simp add: read_messages_def)
  qed
  have h: "jsonl_get_history C k d = reads C (drop (nat (mt_Skip m)) ls)" by (rule session_at_reads(1) [OF c s])
  have "raw_lines torn = [torn]" by (rule raw_lines_tail [OF assms(2,3)])
  from skipped [OF this assms(3) _ assms(5,6)]
  have "read_messages C (unlines ls @ torn) (mt_Skip m) = Some (reads C (drop (nat (mt_Skip m)) ls))"
    using assms(3,4) by (simp add: drop_cr_def)
  then show "jsonl_get_history C k (run_writes [AppendLog (jsonl_path k) torn] d) = jsonl_get_history C k d"
    using s h by (simp add: jsonl_get_history_def session_at_def)
  assume l: "mc_marshal C msg = Some l" "mc_unmarshal C (torn @ l) = None" "int (length (torn @ l)) < max_line_size"
  have pl: "CHR 0x0A \<notin> set l" "l \<noteq> []" "last l \<noteq> CHR 0x0D" using c l(1) by (auto simp: codec_ok_def)
  have "raw_lines ((torn @ l) @ nl @ []) = [torn @ l]"
    using raw_lines_line [of "torn @ l" "[]"] assms(2) pl(1) by simp
  then have "raw_lines (torn @ l @ nl) = [torn @ l]" by simp
  from skipped [OF this _ _ l(3,2)]
  have "read_messages C (unlines ls @ torn @ l @ nl) (mt_Skip m) = Some (reads C (drop (nat (mt_Skip m)) ls))"
    using pl(2,3) by (simp add: drop_cr_def)
  then show "jsonl_get_history C k (jsonl_add_full_message C k msg (run_writes [AppendLog (jsonl_path k) torn] d)) = jsonl_get_history C k d"
    using s h l(1) by (auto simp: jsonl_get_history_def jsonl_add_full_message_def add_msg_def session_at_def Let_def)
qed

end
