(* ===== verification/Session_Stores.thy ===== *)
theory Session_Stores
  imports Session_Manager Jsonl_Store Session_Keys
begin

text \<open>
  What the agent loop's compression and summarization do on the two backends, what a crash leaves in
  the append-only store, and which session keys share a file there.
\<close>

section \<open>A codec for examples\<close>

text \<open>User messages between braces, with no brace or line break inside.\<close>

definition plain_text :: "string \<Rightarrow> bool" where
  "plain_text s \<longleftrightarrow> list_all (\<lambda>c. c \<noteq> CHR 0x0A \<and> c \<noteq> CHR 0x7B) s"

definition brace_codec :: message_codec where
  "brace_codec =
     \<lparr>mc_marshal = (\<lambda>m. if m = text_message ''user'' (ms_Content m) \<and> plain_text (ms_Content m)
        then Some (CHR 0x7B # ms_Content m @ [CHR 0x7D]) else None),
      mc_unmarshal = (\<lambda>t. case t of [] \<Rightarrow> None
        | c # r \<Rightarrow> if c = CHR 0x7B \<and> r \<noteq> [] \<and> last r = CHR 0x7D \<and> plain_text (butlast r)
            then Some (text_message ''user'' (butlast r)) else None)\<rparr>"

lemma brace_codec_ok: "codec_ok brace_codec"
proof -
  have st: "stored_message (text_message r c) = text_message r c" for r c
    by (simp add: stored_message_def text_message_def)
  show ?thesis
    unfolding codec_ok_def
  proof (intro allI impI)
    fix m l assume "mc_marshal brace_codec m = Some l"
    then have m: "m = text_message ''user'' (ms_Content m)" "plain_text (ms_Content m)" "l = CHR 0x7B # ms_Content m @ [CHR 0x7D]"
      by (auto simp: brace_codec_def split: if_splits)
    have "stored_message m = m" using st m(1) by metis
    moreover have "CHR 0x0A \<notin> set (ms_Content m)" using m(2) by (auto simp: plain_text_def list_all_iff)
    ultimately show "l \<noteq> [] \<and> CHR 0x0A \<notin> set l \<and> last l \<noteq> CHR 0x0D \<and>
        mc_unmarshal brace_codec l = Some (stored_message m) \<and> mc_marshal brace_codec (stored_message m) = Some l"
      using m \<open>mc_marshal brace_codec m = Some l\<close> by (simp add: brace_codec_def)
  qed
qed

definition empty_dir :: jsonl_dir where "empty_dir = \<lparr>jd_logs = [], jd_metas = [], jd_now = 0\<rparr>"

lemma empty_dir_inv: "codec_ok C \<Longrightarrow> jsonl_inv C empty_dir"
  unfolding jsonl_inv_def
proof (intro conjI allI)
  fix key
  have "session_at C empty_dir key [] \<lparr>mt_Key = key, mt_Summary = [], mt_Skip = 0, mt_Count = 0, mt_CreatedAt = None, mt_UpdatedAt = None\<rparr>"
    by (simp add: session_at_def empty_dir_def log_content_def read_meta_def)
  then show "\<exists>ls m. session_at C empty_dir key ls m" by blast
qed

text \<open>A session of user messages.\<close>

definition user_session :: "string list \<Rightarrow> jsonl_dir" where
  "user_session texts = fold (\<lambda>t. jsonl_add_message brace_codec ''s'' ''user'' t) texts empty_dir"

lemma user_session_inv:
  assumes "list_all plain_text texts" and "list_all (\<lambda>t. length t < 100) texts"
  shows "jsonl_inv brace_codec (user_session texts) \<and> jsonl_get_history brace_codec ''s'' (user_session texts) = map (text_message ''user'') texts"
  using assms
proof (induction texts rule: rev_induct)
  case Nil
  have "jsonl_get_history brace_codec ''s'' empty_dir = []" by code_simp
  then show ?case using empty_dir_inv [OF brace_codec_ok] by (simp add: user_session_def)
next
  case (snoc t texts)
  have "fits brace_codec (text_message ''user'' t)"
    using snoc.prems by (simp add: fits_def brace_codec_def text_message_def max_line_size_def)
  from jsonl_add_contract [OF _ this, of "user_session texts" "''s''"] show ?case
    using snoc by (simp add: user_session_def jsonl_add_message_def) (simp add: stored_message_def text_message_def)
qed

section \<open>Compression\<close>

text \<open>
  C4. Emergency compression makes progress and is the same on both backends: from the same visible
  session it reports the same counts and leaves the same history and summary. The history left is not
  empty, is strictly shorter, holds only old messages and starts at a user message when there was one;
  the summary gains the note; the append-only store stays sound and its other sessions are untouched.
\<close>

theorem compression_same_on_both:
  assumes "jsonl_inv C d" and "2 < length (jsonl_get_history C k d)"
    and "manager_get_history k sm = jsonl_get_history C k d" and "manager_get_summary k sm = jsonl_get_summary k d"
  shows "let h = jsonl_get_history C k d; d' = snd (force_compression (jsonl_ops C) k d);
             sm' = snd (force_compression (manager_ops S) k sm); h' = jsonl_get_history C k d' in
    fst (force_compression (jsonl_ops C) k d) = fst (force_compression (manager_ops S) k sm) \<and>
    h' = manager_get_history k sm' \<and> jsonl_get_summary k d' = manager_get_summary k sm' \<and>
    h' \<noteq> [] \<and> length h' < length h \<and> set h' \<subseteq> set h \<and> (list_ex is_user h \<longrightarrow> is_user (hd h')) \<and>
    jsonl_get_summary k d' = compression_note (jsonl_get_summary k d) (int (length h) - int (length h')) \<and>
    jsonl_inv C d' \<and>
    (\<forall>j. sanitize_key k \<noteq> sanitize_key j \<longrightarrow> jsonl_get_history C j d' = jsonl_get_history C j d)"
proof -
  have j: "so_GetHistory (jsonl_ops C) = jsonl_get_history C" "so_GetSummary (jsonl_ops C) = jsonl_get_summary"
    and m: "so_GetHistory (manager_ops S) = manager_get_history" "so_GetSummary (manager_ops S) = manager_get_summary"
    by (simp_all add: jsonl_ops_def manager_ops_def)
  note e = jsonl_store.compression_effect [of C d k, unfolded j, OF assms(1,2)]
  note f = manager_store.compression_effect [of S k sm, unfolded m, OF TrueI assms(2) [folded assms(3)]]
  have "fst (force_compression (jsonl_ops C) k d) = fst (force_compression (manager_ops S) k sm)"
    using assms(2) by (simp add: force_compression_def j m assms(3) Let_def)
  then show ?thesis
    unfolding Let_def e(2,3) f(2,3) assms(3,4)
    using e(1,4) kept_history_props [OF assms(2)] by (auto simp: list_ex_iff)
qed

theorem compression_same_on_both_witness:
  "jsonl_get_history brace_codec ''s'' (snd (force_compression (jsonl_ops brace_codec) ''s'' (user_session [''a'', ''b'', ''c'']))) \<noteq> []"
proof -
  let ?d = "user_session [''a'', ''b'', ''c'']"
  have i: "jsonl_inv brace_codec ?d" "jsonl_get_history brace_codec ''s'' ?d = map (text_message ''user'') [''a'', ''b'', ''c'']"
    using user_session_inv [of "[''a'', ''b'', ''c'']"] by (simp_all add: plain_text_def)
  let ?sm = "\<lparr>sg_sessions = [(''s'', (fresh_session ''s'' 0)\<lparr>ss_Messages := map (text_message ''user'') [''a'', ''b'', ''c''],
      ss_Summary := jsonl_get_summary ''s'' ?d\<rparr>)], sg_storage = [], sg_files = [], sg_now = 0\<rparr>"
  have "manager_get_history ''s'' ?sm = jsonl_get_history brace_codec ''s'' ?d" "manager_get_summary ''s'' ?sm = jsonl_get_summary ''s'' ?d"
    "2 < length (jsonl_get_history brace_codec ''s'' ?d)"
    by (simp_all add: i(2) manager_get_history_def manager_get_summary_def)
  from compression_same_on_both [OF i(1) this(3,1,2)] show ?thesis by (simp add: Let_def)
qed

section \<open>Crashes\<close>

text \<open>
  C5. Crash safety of the append-only store. A process that dies after any of the writes of an append
  leaves the history with or without the new message; within Compact or SetHistory it leaves the new
  history or the old one, possibly with truncated messages in front again. Running Compact again does
  not take those away.
\<close>

theorem jsonl_crash_safe:
  assumes "jsonl_inv C d" and "fits C msg" and "list_all (fits C) h"
  shows "jsonl_get_history C k (crash_after n (add_msg C k msg d) d) \<in>
      {jsonl_get_history C k d, jsonl_get_history C k d @ [stored_message msg]} \<and>
    (let d1 = crash_after n (compact_writes C k d) d in
      suffix (jsonl_get_history C k d) (jsonl_get_history C k d1) \<and>
      jsonl_get_history C k (fst (jsonl_save C k d1)) = jsonl_get_history C k d1) \<and>
    (let d2 = crash_after n (set_history_writes C k h d) d in
      jsonl_get_history C k d2 = map stored_message h \<or> suffix (jsonl_get_history C k d) (jsonl_get_history C k d2))"
  using add_crash [OF assms(1,2)] compact_crash [OF assms(1), of n k] jsonl_save_contract set_history_crash [OF assms(1,3)]
  unfolding Let_def by blast

theorem jsonl_crash_safe_witness:
  "jsonl_get_history brace_codec ''s'' (crash_after 1 (compact_writes brace_codec ''s''
     (jsonl_truncate_history ''s'' 1 (user_session [''a'', ''b'']))) (jsonl_truncate_history ''s'' 1 (user_session [''a'', ''b'']))) =
     map (text_message ''user'') [''a'', ''b''] \<and>
   suffix (map (text_message ''user'') [''b'']) (map (text_message ''user'') [''a'', ''b''])"
proof -
  let ?d = "jsonl_truncate_history ''s'' 1 (user_session [''a'', ''b''])"
  have "jsonl_inv brace_codec (user_session [''a'', ''b''])"
    using user_session_inv [of "[''a'', ''b'']"] by (simp add: plain_text_def)
  then have i: "jsonl_inv brace_codec ?d" using jsonl_truncate_contract by blast
  have "fits brace_codec (text_message ''user'' ''c'')" by code_simp
  from jsonl_crash_safe [OF i this, of "[]" "''s''" 1]
  have "suffix (jsonl_get_history brace_codec ''s'' ?d)
      (jsonl_get_history brace_codec ''s'' (crash_after 1 (compact_writes brace_codec ''s'' ?d) ?d))"
    by (simp add: Let_def)
  moreover have "jsonl_get_history brace_codec ''s'' ?d = map (text_message ''user'') [''b'']" by code_simp
  moreover have "jsonl_get_history brace_codec ''s'' (crash_after 1 (compact_writes brace_codec ''s'' ?d) ?d) =
      map (text_message ''user'') [''a'', ''b'']" by code_simp
  ultimately show ?thesis by simp
qed

text \<open>
  An append cut short. A partial line that is not JSON leaves the history as it was, but the next
  message is written onto it: it is acknowledged and then never read.
\<close>

theorem torn_line_takes_next:
  assumes "jsonl_inv C d" and "CHR 0x0A \<notin> set torn" and "torn \<noteq> []" and "last torn \<noteq> CHR 0x0D"
    and "mc_marshal C msg = Some l" and "int (length (torn @ l)) < max_line_size"
    and "mc_unmarshal C torn = None" and "mc_unmarshal C (torn @ l) = None"
  shows "let d' = run_writes [AppendLog (jsonl_path k) torn] d in
    jsonl_get_history C k d' = jsonl_get_history C k d \<and>
    jsonl_get_history C k (jsonl_add_full_message C k msg d') = jsonl_get_history C k d"
proof -
  have "int (length torn) < max_line_size" using assms(6) by simp
  note t = torn_line [OF assms(1-4) this assms(7)]
  from t(1) [of k] t(2) [OF assms(5,8,6), of k] show ?thesis by (simp only: Let_def simp_thms)
qed

theorem torn_line_takes_next_witness:
  "jsonl_get_history brace_codec ''s'' (jsonl_add_message brace_codec ''s'' ''user'' ''b''
     (run_writes [AppendLog (jsonl_path ''s'') (CHR 0x7B # ''a'')] (user_session [''x'']))) = [text_message ''user'' ''x'']"
proof -
  have i: "jsonl_inv brace_codec (user_session [''x''])" "jsonl_get_history brace_codec ''s'' (user_session [''x'']) = [text_message ''user'' ''x'']"
    using user_session_inv [of "[''x'']"] by (simp_all add: plain_text_def)
  have l: "mc_marshal brace_codec (text_message ''user'' ''b'') = Some (CHR 0x7B # ''b'' @ [CHR 0x7D])"
    "int (length ((CHR 0x7B # ''a'') @ CHR 0x7B # ''b'' @ [CHR 0x7D])) < max_line_size"
    "mc_unmarshal brace_codec (CHR 0x7B # ''a'') = None"
    "mc_unmarshal brace_codec ((CHR 0x7B # ''a'') @ CHR 0x7B # ''b'' @ [CHR 0x7D]) = None" by code_simp+
  from torn_line_takes_next [OF i(1) _ _ _ l, of "''s''"] show ?thesis
    by (simp add: Let_def jsonl_add_message_def i(2))
qed

section \<open>Summarization\<close>

lemma long_summary_forgets:
  "10 < length (filter (summarizable cw) (summarized_part h)) \<Longrightarrow> summary_text cw S h old w = summary_text cw S h new w"
  by (simp add: summary_text_def final_summary_def Let_def)

text \<open>
  Summarization on the append-only store. When no one else writes, the summarized part and the new
  history are the old history, cut at a turn, and the summary is the new text. When one message arrives
  during the model's calls, the history keeps one message less of the old part: that message is in
  neither. With more than ten messages to summarize the old summary has no influence on the new one.
\<close>

theorem summarization_effect:
  assumes "jsonl_inv C d" and "due cw (jsonl_get_history C k d)" and "fits C msg"
    and "summary_text cw S (jsonl_get_history C k d) (jsonl_get_summary k d) w \<noteq> []"
  shows "let h = jsonl_get_history C k d; part = summarized_part h;
             alone = fst (summarize_session (jsonl_ops C) S cw (\<lambda>d. d) k (d, w));
             raced = fst (summarize_session (jsonl_ops C) S cw (jsonl_add_full_message C k msg) k (d, w)) in
    part @ jsonl_get_history C k alone = h \<and> (list_ex is_user h \<longrightarrow> is_safe_boundary h (int (length part))) \<and>
    jsonl_get_summary k alone = summary_text cw S h (jsonl_get_summary k d) w \<and> jsonl_inv C alone \<and>
    jsonl_get_history C k raced = tl (jsonl_get_history C k alone) @ [stored_message msg] \<and>
    (10 < length (filter (summarizable cw) part) \<longrightarrow> (\<forall>old. jsonl_get_summary k alone = summary_text cw S h old w))"
proof -
  have j: "so_GetHistory (jsonl_ops C) = jsonl_get_history C" "so_GetSummary (jsonl_ops C) = jsonl_get_summary"
    "so_AddFullMessage (jsonl_ops C) = jsonl_add_full_message C"
    by (simp_all add: jsonl_ops_def)
  let ?h = "jsonl_get_history C k d"
  note a = jsonl_store.summarize_alone [of C d cw k S w, unfolded j, OF assms(1,2,4)]
  note r = jsonl_store.summarize_interleaved [of C d cw k msg S w, unfolded j, OF assms(1,2,3,4)]
  have l: "4 < length ?h" "0 < find_safe_boundary ?h (int (length ?h) - 4)" using assms(2) by (simp_all add: due_def)
  have p: "int (length (summarized_part ?h)) = find_safe_boundary ?h (int (length ?h) - 4)"
    using l safe_cut_bounds [OF l(1)] by (simp add: summarized_part_def)
  have "list_ex is_user ?h \<Longrightarrow> is_safe_boundary ?h (find_safe_boundary ?h (int (length ?h) - 4))"
    using find_safe_boundary_cases [of "int (length ?h) - 4" ?h] l by (auto simp: is_safe_boundary_def list_ex_iff)
  moreover have "length (summarized_part ?h) < length ?h" using p safe_cut_bounds [OF l(1)] by linarith
  then have "drop (Suc (length (summarized_part ?h))) (?h @ [stored_message msg]) =
      tl (drop (length (summarized_part ?h)) ?h) @ [stored_message msg]"
    by (simp add: drop_Suc tl_drop)
  moreover have "drop (length (summarized_part ?h)) ?h = jsonl_get_history C k (fst (summarize_session (jsonl_ops C) S cw (\<lambda>d. d) k (d, w)))"
    using a(1) by (metis append_eq_conv_conj)
  ultimately show ?thesis
    unfolding Let_def a(2) r p using a(1,3) long_summary_forgets by auto
qed

theorem summarization_effect_witness:
  "let S = \<lparr>sm_chat = (\<lambda>p w. (w, Some ''short'')), sm_nap = (\<lambda>n w. (w, True))\<rparr>;
       d = user_session [''a'', ''b'', ''c'', ''d'', ''e''];
       raced = fst (summarize_session (jsonl_ops brace_codec) S 100 (jsonl_add_message brace_codec ''s'' ''user'' ''f'') ''s'' (d, ()))
   in map ms_Content (jsonl_get_history brace_codec ''s'' raced) = [''c'', ''d'', ''e'', ''f''] \<and>
     map ms_Content (summarized_part (jsonl_get_history brace_codec ''s'' d)) = [''a'']"
proof -
  let ?S = "\<lparr>sm_chat = (\<lambda>p w. (w, Some ''short'')), sm_nap = (\<lambda>n w. (w, True))\<rparr>"
  let ?t = "[''a'', ''b'', ''c'', ''d'', ''e'']"
  have i: "jsonl_inv brace_codec (user_session ?t)" "jsonl_get_history brace_codec ''s'' (user_session ?t) = map (text_message ''user'') ?t"
    using user_session_inv [of ?t] by (simp_all add: plain_text_def)
  have m: "jsonl_add_full_message brace_codec ''s'' (text_message ''user'' ''f'') = jsonl_add_message brace_codec ''s'' ''user'' ''f''"
    by (simp add: jsonl_add_message_def fun_eq_iff)
  have "due 100 (map (text_message ''user'') ?t)" by code_simp
  moreover have "fits brace_codec (text_message ''user'' ''f'')" by code_simp
  moreover have "summary_text 100 ?S (map (text_message ''user'') ?t) x () \<noteq> []" for x :: string
    by (simp add: summary_text_def Let_def final_summary_def summarize_batch_def retry_llm_call_def numeral_3_eq_3 split_beta)
      code_simp
  ultimately have "jsonl_get_history brace_codec ''s'' (fst (summarize_session (jsonl_ops brace_codec) ?S 100
      (jsonl_add_message brace_codec ''s'' ''user'' ''f'') ''s'' (user_session ?t, ()))) =
      tl (drop (length (summarized_part (map (text_message ''user'') ?t))) (map (text_message ''user'') ?t)) @
      [stored_message (text_message ''user'' ''f'')]"
    using summarization_effect [OF i(1), of 100 "''s''" "text_message ''user'' ''f''" ?S "()"] unfolding i(2) m Let_def
    by (metis append_eq_conv_conj)
  moreover have "map ms_Content (tl (drop (length (summarized_part (map (text_message ''user'') ?t))) (map (text_message ''user'') ?t)) @
      [stored_message (text_message ''user'' ''f'')]) = [''c'', ''d'', ''e'', ''f'']"
    "map ms_Content (summarized_part (map (text_message ''user'') ?t)) = [''a'']" by code_simp+
  ultimately show ?thesis unfolding Let_def i(2) by metis
qed

section \<open>Shared files\<close>

text \<open>
  Two session keys that differ only in colons, slashes, backslashes and underscores are one session
  of the append-only store: whatever is written to one is read from the other, as for two direct peers
  of one bot. The manager's file names keep such keys apart.
\<close>

theorem jsonl_sessions_collide:
  "(sanitize_key j = sanitize_key k \<longrightarrow> jsonl_inv C d \<longrightarrow>
      jsonl_get_history C j d = jsonl_get_history C k d \<and> jsonl_get_summary j d = jsonl_get_summary k d) \<and>
   (let j = build_agent_peer_session_key (telegram_direct ''a1'' ''bob:x''); k = build_agent_peer_session_key (telegram_direct ''a1'' ''bob_x'')
    in j \<noteq> k \<and> sanitize_key j = sanitize_key k) \<and>
   (sanitize_filename j = sanitize_filename k \<longleftrightarrow> j = k)"
proof -
  have "let j = build_agent_peer_session_key (telegram_direct ''a1'' ''bob:x''); k = build_agent_peer_session_key (telegram_direct ''a1'' ''bob_x'')
    in j \<noteq> k \<and> sanitize_key j = sanitize_key k" by code_simp
  moreover have "sanitize_filename j = sanitize_filename k \<longleftrightarrow> j = k"
    using hex_encode_inject by (auto simp: sanitize_filename_def)
  ultimately show ?thesis using same_file_history by blast
qed

theorem jsonl_sessions_collide_witness:
  "jsonl_get_history brace_codec ''s:1'' (jsonl_add_message brace_codec ''s_1'' ''user'' ''a'' empty_dir) = [text_message ''user'' ''a'']"
proof -
  let ?d = "jsonl_add_message brace_codec ''s_1'' ''user'' ''a'' empty_dir"
  have "fits brace_codec (text_message ''user'' ''a'')" by code_simp
  then have "jsonl_inv brace_codec ?d"
    using jsonl_add_contract [OF empty_dir_inv [OF brace_codec_ok]] by (simp add: jsonl_add_message_def)
  moreover have "sanitize_key ''s:1'' = sanitize_key ''s_1''" by code_simp
  ultimately have "jsonl_get_history brace_codec ''s:1'' ?d = jsonl_get_history brace_codec ''s_1'' ?d"
    using jsonl_sessions_collide [of "''s:1''" "''s_1''" brace_codec ?d] by blast
  moreover have "jsonl_get_history brace_codec ''s_1'' ?d = [text_message ''user'' ''a'']" by code_simp
  ultimately show ?thesis by simp
qed

end
