(* ===== verification/Gateway_Http.thy ===== *)
theory Gateway_Http
  imports Policy Rate_Limits Net_Lib Json_Canonical
begin

text \<open>
  The HTTP front of the gateway: the middleware package (pkg/gateway/middleware) with its CSRF,
  origin, role and bypass gates and the session cookie, and the bearer authentication that wraps
  every REST handler (pkg/gateway/auth.go, rest.go, rest_auth.go). A handler maps a request and a
  world to a response and the new world; a middleware maps handlers to handlers. Arguments stand for
  bcrypt's comparison, url.Parse, the environment token and the log; headers carry canonical names
  and one value each. The ASCII part of \<open>EqualFold\<close> and \<open>ToUpper\<close> is modelled.
\<close>

section \<open>Requests, responses, handlers\<close>

record user_config =
  uc_Username :: string
  uc_PasswordHash :: string
  uc_TokenHash :: string
  uc_SessionTokenHash :: string
  uc_Role :: string

record gateway_config =
  gc_Host :: string
  gc_Port :: int
  gc_PublicURL :: string
  gc_Users :: "user_config list"
  gc_DevModeBypass :: bool
  gc_AuthMismatchLogLevel :: string

record http_request =
  rq_Method :: string
  rq_Path :: string
  rq_Header :: "(string \<times> string) list"
  rq_Cookies :: "(string \<times> string) list"
  rq_TLS :: bool
  rq_RemoteAddr :: string
  rq_Host :: string
  rq_Body :: string
  rq_body_limit :: "int option"
  rq_role :: "string option"
  rq_user :: "user_config option"
  rq_config :: "gateway_config option"

record set_cookie =
  ck_Name :: string
  ck_Value :: string
  ck_Path :: string
  ck_HttpOnly :: bool
  ck_Secure :: bool
  ck_SameSiteStrict :: bool
  ck_MaxAge :: int

record http_reply =
  rs_status :: int
  rs_headers :: "(string \<times> string) list"
  rs_cookies :: "set_cookie list"
  rs_body :: json

type_synonym 'w handler = "http_request \<Rightarrow> 'w \<Rightarrow> http_reply \<times> 'w"

text \<open>\<open>Header.Get\<close>, \<open>Request.Cookie\<close> (the first of the name), \<open>jsonErr\<close> and its copies in the middleware, \<open>http.Error\<close>.\<close>

definition header_get :: "http_request \<Rightarrow> string \<Rightarrow> string" where
  "header_get r name = (case map_of (rq_Header r) name of Some v \<Rightarrow> v | None \<Rightarrow> [])"

definition json_err :: "int \<Rightarrow> string \<Rightarrow> http_reply" where
  "json_err status msg =
     \<lparr>rs_status = status, rs_headers = [(''Content-Type'', ''application/json'')], rs_cookies = [],
      rs_body = JObj [(''error'', JStr msg)]\<rparr>"

definition http_error :: "string \<Rightarrow> int \<Rightarrow> http_reply" where
  "http_error msg status =
     \<lparr>rs_status = status, rs_headers = [(''Content-Type'', ''text/plain; charset=utf-8''), (''X-Content-Type-Options'', ''nosniff'')],
      rs_cookies = [], rs_body = JStr msg\<rparr>"

definition equal_fold :: "string \<Rightarrow> string \<Rightarrow> bool" where
  "equal_fold s t \<longleftrightarrow> to_lower s = to_lower t"

section \<open>Roles and the bypass gate\<close>

definition require_admin :: "'w handler \<Rightarrow> 'w handler" where
  "require_admin next r w =
     (case rq_role r of
        None \<Rightarrow> (json_err 401 ''unauthorized'', w)
      | Some role \<Rightarrow>
          if role = [] then (json_err 401 ''unauthorized'', w)
          else if role \<noteq> UserRoleAdmin then (json_err 403 ''admin required'', w)
          else next r w)"

definition require_not_bypass :: "'w handler \<Rightarrow> 'w handler" where
  "require_not_bypass next r w =
     (case rq_config r of
        None \<Rightarrow> (json_err 503 ''user management disabled in dev-mode-bypass'', w)
      | Some cfg \<Rightarrow>
          if gc_DevModeBypass cfg then (json_err 503 ''user management disabled in dev-mode-bypass'', w)
          else next r w)"

section \<open>Origins\<close>

text \<open>A parsed URL (\<open>url.Parse\<close> is an argument): its scheme and host; \<open>Hostname\<close> and \<open>Port\<close> of net/url.\<close>

type_synonym url_parser = "string \<Rightarrow> (string \<times> string) option"

definition valid_optional_port :: "string \<Rightarrow> bool" where
  "valid_optional_port p \<longleftrightarrow>
     p = [] \<or> (hd p = CHR '':'' \<and> (\<forall>c \<in> set (tl p). CHR ''0'' \<le> c \<and> c \<le> CHR ''9''))"

definition url_host_port :: "string \<Rightarrow> string \<times> string" where
  "url_host_port hp =
     (let (host, port) =
        (case last_index hp (CHR '':'') of
           None \<Rightarrow> (hp, [])
         | Some i \<Rightarrow> if valid_optional_port (drop i hp) then (take i hp, drop (i + 1) hp) else (hp, []))
      in (if prefix ''['' host \<and> suffix '']'' host then butlast (tl host) else host, port))"

definition canonical_gateway_origin :: "url_parser \<Rightarrow> gateway_config option \<Rightarrow> string" where
  "canonical_gateway_origin parse_url config =
     (case config of
        None \<Rightarrow> []
      | Some cfg \<Rightarrow>
          let pu = trim_space (gc_PublicURL cfg); host = trim_space (gc_Host cfg); port = gc_Port cfg in
          if pu \<noteq> [] then pu
          else if host = [] then []
          else if trim_prefix (trim_suffix host '']'') ''['' \<in> {''0.0.0.0'', ''::'', ''::0''} then []
          else if contains_sub host ''://'' then
            (case parse_url host of
               None \<Rightarrow> []
             | Some (scheme, h) \<Rightarrow> if h = [] then [] else scheme @ ''://'' @ h)
          else
            (let scheme = (if port = 443 then ''https'' else ''http'') in
             if port > 0 \<and> port \<noteq> 80 \<and> port \<noteq> 443 then scheme @ ''://'' @ host @ '':'' @ itoa port
             else scheme @ ''://'' @ host))"

definition trim_slashes :: "string \<Rightarrow> string" where
  "trim_slashes s = rev (dropWhile (\<lambda>c. c = CHR ''/'') (rev s))"

definition origin_matches :: "string \<Rightarrow> string \<Rightarrow> bool" where
  "origin_matches request_origin expected_origin =
     (if request_origin = [] \<or> expected_origin = [] then False
      else equal_fold (trim_slashes request_origin) (trim_slashes expected_origin))"

definition is_state_changing_method :: "string \<Rightarrow> bool" where
  "is_state_changing_method m \<longleftrightarrow> to_lower m \<in> {''post'', ''put'', ''patch'', ''delete''}"

definition require_matching_origin ::
  "url_parser \<Rightarrow> (unit \<Rightarrow> gateway_config option) option \<Rightarrow> (string \<Rightarrow> string \<Rightarrow> 'w \<Rightarrow> 'w) option \<Rightarrow> 'w handler \<Rightarrow> 'w handler" where
  "require_matching_origin parse_url get_cfg audit_log next r w =
     (if \<not> is_state_changing_method (rq_Method r) then next r w
      else
        let cfg = (case get_cfg of None \<Rightarrow> None | Some g \<Rightarrow> g ());
            expected = canonical_gateway_origin parse_url cfg; request_origin = header_get r ''Origin'' in
        if \<not> origin_matches request_origin expected then
          (json_err 403 ''origin mismatch'',
           case audit_log of None \<Rightarrow> w | Some log_denied \<Rightarrow> log_denied request_origin expected w)
        else next r w)"

section \<open>CSRF\<close>

abbreviation "CSRFCookieName \<equiv> ''__Host-csrf''"
abbreviation "CSRFCookieNameHTTP \<equiv> ''csrf''"
abbreviation "CSRFHeaderName \<equiv> ''X-Csrf-Token''"

definition default_exempt_paths :: "string list" where
  "default_exempt_paths =
     [''/api/v1/onboarding/complete'', ''/api/v1/onboarding/probe-provider'', ''/api/v1/auth/login'',
      ''/api/v1/auth/register-admin'', ''/health'', ''/ready'', ''/reload'']"

definition state_changing_methods :: "string list" where
  "state_changing_methods = [''POST'', ''PUT'', ''PATCH'', ''DELETE'']"

type_synonym 'w reporter = "http_request \<Rightarrow> string \<Rightarrow> string \<Rightarrow> 'w \<Rightarrow> 'w"

datatype 'w csrf_option =
    NilOption
  | WithExemptPath string
  | WithExemptPaths "string list"
  | WithDefaultExempts
  | WithReporter "'w reporter option"
  | WithClientIPFunc "(http_request \<Rightarrow> string) option"

record 'w csrf_config =
  cc_exempt :: "string list"
  cc_reporter :: "'w reporter option"
  cc_clientIP :: "(http_request \<Rightarrow> string) option"
  cc_customExemptSet :: bool

text \<open>An option applied to the configuration; None is the panic on an empty path.\<close>

fun apply_csrf_option :: "'w csrf_option \<Rightarrow> 'w csrf_config \<Rightarrow> 'w csrf_config option" where
  "apply_csrf_option NilOption c = Some c"
| "apply_csrf_option (WithExemptPath p) c =
     (if p = [] then None else Some (c\<lparr>cc_customExemptSet := True, cc_exempt := p # cc_exempt c\<rparr>))"
| "apply_csrf_option (WithExemptPaths ps) c =
     Some (c\<lparr>cc_customExemptSet := True, cc_exempt := filter (\<lambda>p. p \<noteq> []) ps @ cc_exempt c\<rparr>)"
| "apply_csrf_option WithDefaultExempts c = Some (c\<lparr>cc_exempt := default_exempt_paths @ cc_exempt c\<rparr>)"
| "apply_csrf_option (WithReporter rep) c = Some (c\<lparr>cc_reporter := rep\<rparr>)"
| "apply_csrf_option (WithClientIPFunc f) c = Some (c\<lparr>cc_clientIP := f\<rparr>)"

fun apply_csrf_options :: "'w csrf_option list \<Rightarrow> 'w csrf_config \<Rightarrow> 'w csrf_config option" where
  "apply_csrf_options [] c = Some c"
| "apply_csrf_options (opt # opts) c =
     (case apply_csrf_option opt c of None \<Rightarrow> None | Some c' \<Rightarrow> apply_csrf_options opts c')"

text \<open>The configuration the closure captures: the default set is installed unless an option customised it.\<close>

definition csrf_build :: "'w csrf_option list \<Rightarrow> 'w csrf_config option" where
  "csrf_build opts =
     (case apply_csrf_options opts \<lparr>cc_exempt = [], cc_reporter = None, cc_clientIP = None, cc_customExemptSet = False\<rparr> of
        None \<Rightarrow> None
      | Some c \<Rightarrow>
          Some (if cc_customExemptSet c then c else c\<lparr>cc_exempt := default_exempt_paths @ cc_exempt c\<rparr>))"

definition csrf_cookie_value :: "http_request \<Rightarrow> string" where
  "csrf_cookie_value r =
     (case map_of (rq_Cookies r) CSRFCookieName of
        Some v \<Rightarrow> if v \<noteq> [] then v else (case map_of (rq_Cookies r) CSRFCookieNameHTTP of Some v' \<Rightarrow> v' | None \<Rightarrow> [])
      | None \<Rightarrow> (case map_of (rq_Cookies r) CSRFCookieNameHTTP of Some v' \<Rightarrow> v' | None \<Rightarrow> []))"

definition csrf_handler :: "'w csrf_config \<Rightarrow> 'w handler \<Rightarrow> 'w handler" where
  "csrf_handler cfg next r w =
     (if rq_Method r \<notin> set state_changing_methods then next r w
      else if rq_Path r \<in> set (cc_exempt cfg) then next r w
      else if prefix ''Bearer '' (header_get r ''Authorization'') then next r w
      else
        let cookie_value = csrf_cookie_value r; header = header_get r CSRFHeaderName in
        if cookie_value = [] then (json_err 403 ''csrf cookie missing'', w)
        else if header = [] then (json_err 403 ''csrf header missing'', w)
        else if cookie_value \<noteq> header then
          (json_err 403 ''csrf token mismatch'',
           case cc_reporter cfg of
             None \<Rightarrow> w
           | Some report \<Rightarrow>
               report r ((case cc_clientIP cfg of None \<Rightarrow> rq_RemoteAddr | Some f \<Rightarrow> f) r) (rq_Path r) w)
        else next r w)"

definition csrf_middleware :: "'w csrf_option list \<Rightarrow> ('w handler \<Rightarrow> 'w handler) option" where
  "csrf_middleware opts = map_option csrf_handler (csrf_build opts)"

section \<open>Cookies\<close>

abbreviation "SessionCookieName \<equiv> ''omnipus-session''"
abbreviation "SessionCookieMaxAge \<equiv> (86400 :: int)"

definition request_is_secure :: "http_request \<Rightarrow> bool" where
  "request_is_secure r \<longleftrightarrow> rq_TLS r \<or> equal_fold (header_get r ''X-Forwarded-Proto'') ''https''"

text \<open>\<open>base64.RawURLEncoding\<close> of random bytes (values below 256).\<close>

definition base64_char :: "int \<Rightarrow> char" where
  "base64_char n =
     (if n < 26 then char_of (n + 65) else if n < 52 then char_of (n + 71)
      else if n < 62 then char_of (n - 4) else if n = 62 then CHR ''-'' else CHR ''_'')"

fun base64_raw_url :: "int list \<Rightarrow> string" where
  "base64_raw_url [] = []"
| "base64_raw_url [a] = [base64_char (a div 4), base64_char (a mod 4 * 16)]"
| "base64_raw_url [a, b] =
     [base64_char (a div 4), base64_char (a mod 4 * 16 + b div 16), base64_char (b mod 16 * 4)]"
| "base64_raw_url (a # b # c # bs) =
     base64_char (a div 4) # base64_char (a mod 4 * 16 + b div 16) # base64_char (b mod 16 * 4 + c div 64)
       # base64_char (c mod 64) # base64_raw_url bs"

text \<open>\<open>rand.Read\<close> is an argument: the bytes it delivers, None when it fails.\<close>

definition csrf_cookie :: "string \<Rightarrow> int \<Rightarrow> http_request \<Rightarrow> set_cookie" where
  "csrf_cookie value max_age r =
     (if request_is_secure r
      then \<lparr>ck_Name = CSRFCookieName, ck_Value = value, ck_Path = ''/'', ck_HttpOnly = False, ck_Secure = True,
            ck_SameSiteStrict = True, ck_MaxAge = max_age\<rparr>
      else \<lparr>ck_Name = CSRFCookieNameHTTP, ck_Value = value, ck_Path = ''/'', ck_HttpOnly = False, ck_Secure = False,
            ck_SameSiteStrict = True, ck_MaxAge = max_age\<rparr>)"

definition issue_csrf_cookie :: "int list option \<Rightarrow> http_request \<Rightarrow> set_cookie option" where
  "issue_csrf_cookie random r = map_option (\<lambda>buf. csrf_cookie (base64_raw_url buf) 0 r) random"

definition clear_csrf_cookie :: "http_request \<Rightarrow> set_cookie" where
  "clear_csrf_cookie r = csrf_cookie [] (-1) r"

definition session_cookie :: "string \<Rightarrow> int \<Rightarrow> http_request \<Rightarrow> set_cookie" where
  "session_cookie value max_age r =
     \<lparr>ck_Name = SessionCookieName, ck_Value = value, ck_Path = ''/'', ck_HttpOnly = True,
      ck_Secure = request_is_secure r, ck_SameSiteStrict = True, ck_MaxAge = max_age\<rparr>"

definition write_session_cookie :: "http_request \<Rightarrow> string \<Rightarrow> set_cookie" where
  "write_session_cookie r plaintext = session_cookie plaintext SessionCookieMaxAge r"

definition clear_session_cookie :: "http_request \<Rightarrow> set_cookie" where
  "clear_session_cookie r = session_cookie [] (-1) r"

section \<open>Users by bearer token and by session cookie\<close>

text \<open>bcrypt's comparison of a hash with a plain text is an argument; \<open>Verify\<close> adds the empty hash.\<close>

type_synonym bcrypt = "string \<Rightarrow> string \<Rightarrow> bool"

definition hash_verify :: "bcrypt \<Rightarrow> string \<Rightarrow> string \<Rightarrow> bool" where
  "hash_verify compare h plaintext \<longleftrightarrow> h \<noteq> [] \<and> compare h plaintext"

definition resolve_user_from_cookie :: "bcrypt \<Rightarrow> http_request \<Rightarrow> user_config list \<Rightarrow> user_config option" where
  "resolve_user_from_cookie compare r users =
     (case map_of (rq_Cookies r) SessionCookieName of
        None \<Rightarrow> None
      | Some v \<Rightarrow>
          if v = [] then None
          else find (\<lambda>u. uc_SessionTokenHash u \<noteq> [] \<and> hash_verify compare (uc_SessionTokenHash u) v) users)"

definition has_omnipus_session_cookie :: "http_request \<Rightarrow> bool" where
  "has_omnipus_session_cookie r \<longleftrightarrow> map_of (rq_Cookies r) SessionCookieName \<noteq> None"

definition resolve_bearer_user :: "bcrypt \<Rightarrow> http_request \<Rightarrow> user_config list \<Rightarrow> user_config option" where
  "resolve_bearer_user compare r users =
     (let auth = header_get r ''Authorization''; raw_token = trim_prefix auth ''Bearer '' in
      if \<not> prefix ''Bearer '' auth then None
      else if raw_token = [] then None
      else find (\<lambda>u. uc_TokenHash u \<noteq> [] \<and> hash_verify compare (uc_TokenHash u) raw_token) users)"

datatype log_level = LogDebug | LogInfo | LogWarn

definition resolve_auth_mismatch_logger :: "string \<Rightarrow> log_level" where
  "resolve_auth_mismatch_logger level =
     (let l = to_lower (trim_space level) in
      if l = ''debug'' then LogDebug else if l = ''info'' then LogInfo else LogWarn)"

type_synonym 'w logger = "log_level \<Rightarrow> string \<Rightarrow> 'w \<Rightarrow> 'w"

text \<open>
  \<open>RequireSessionCookieOrBearer\<close>. Resolving the cookie has no other error than "not found", so the
  branch that logs an unexpected one is dead. A nil accessor panics (None).
\<close>

definition session_cookie_or_bearer :: "bcrypt \<Rightarrow> 'w logger \<Rightarrow> (unit \<Rightarrow> gateway_config option) \<Rightarrow> 'w handler \<Rightarrow> 'w handler" where
  "session_cookie_or_bearer compare write_log get_cfg next r w =
     (case get_cfg () of
        None \<Rightarrow> (json_err 500 ''auth: config unavailable'', w)
      | Some cfg \<Rightarrow>
          let users = gc_Users cfg; level = resolve_auth_mismatch_logger (gc_AuthMismatchLogLevel cfg);
              cookie_user = resolve_user_from_cookie compare r users;
              w1 = (if cookie_user = None \<and> has_omnipus_session_cookie r
                    then write_log level ''auth: cookie present but invalid; falling back to bearer'' w else w);
              bearer_user = resolve_bearer_user compare r users
          in case (cookie_user, bearer_user) of
               (None, None) \<Rightarrow> (json_err 401 ''unauthorized'', w1)
             | (Some c, None) \<Rightarrow> next (r\<lparr>rq_user := Some c\<rparr>) w1
             | (None, Some b) \<Rightarrow> next (r\<lparr>rq_user := Some b\<rparr>) w1
             | (Some c, Some b) \<Rightarrow>
                 next (r\<lparr>rq_user := Some c\<rparr>)
                   (if uc_Username c \<noteq> uc_Username b
                    then write_log level (''auth: cookie+bearer identify different users; cookie wins; cookie_user='' @
                           uc_Username c @ '' bearer_user='' @ uc_Username b) w1
                    else w1))"

definition require_session_cookie_or_bearer ::
  "bcrypt \<Rightarrow> 'w logger \<Rightarrow> (unit \<Rightarrow> gateway_config option) option \<Rightarrow> ('w handler \<Rightarrow> 'w handler) option" where
  "require_session_cookie_or_bearer compare write_log get_cfg =
     map_option (session_cookie_or_bearer compare write_log) get_cfg"

section \<open>Bearer authentication of the REST handlers\<close>

definition config_snapshot_middleware :: "('w \<Rightarrow> gateway_config) \<Rightarrow> 'w handler \<Rightarrow> 'w handler" where
  "config_snapshot_middleware get_config next r w = next (r\<lparr>rq_config := Some (get_config w)\<rparr>) w"

record auth_result =
  ar_Role :: string
  ar_User :: "user_config option"

definition dev_bypass_user :: user_config where
  "dev_bypass_user = \<lparr>uc_Username = ''_dev_bypass'', uc_PasswordHash = [], uc_TokenHash = [],
     uc_SessionTokenHash = [], uc_Role = UserRoleAdmin\<rparr>"

definition env_token_user :: user_config where
  "env_token_user = \<lparr>uc_Username = ''_env_token'', uc_PasswordHash = [], uc_TokenHash = [],
     uc_SessionTokenHash = [], uc_Role = UserRoleAdmin\<rparr>"

text \<open>\<open>Inl\<close> is the refusal already written to the response.\<close>

definition check_bearer_auth ::
  "bcrypt \<Rightarrow> string \<Rightarrow> http_request \<Rightarrow> gateway_config \<Rightarrow> http_reply + auth_result" where
  "check_bearer_auth compare env_token r cfg =
     (let auth = header_get r ''Authorization''; raw_token = trim_prefix auth ''Bearer '' in
      if \<not> prefix ''Bearer '' auth then Inl (http_error ''unauthorized: missing Bearer token'' 401)
      else if gc_Users cfg \<noteq> [] then
        (case find (\<lambda>u. hash_verify compare (uc_TokenHash u) raw_token) (gc_Users cfg) of
           Some u \<Rightarrow> Inr \<lparr>ar_Role = uc_Role u, ar_User = Some u\<rparr>
         | None \<Rightarrow> Inl (http_error ''unauthorized: invalid Bearer token'' 401))
      else if env_token = [] then
        (if gc_DevModeBypass cfg then Inr \<lparr>ar_Role = UserRoleAdmin, ar_User = Some dev_bypass_user\<rparr>
         else Inl (http_error ''unauthorized: no users configured, complete onboarding first'' 401))
      else if raw_token \<noteq> env_token then Inl (http_error ''unauthorized: invalid Bearer token'' 401)
      else Inr \<lparr>ar_Role = UserRoleAdmin, ar_User = Some env_token_user\<rparr>)"

definition map_user_role_to_principal :: "string \<Rightarrow> string" where
  "map_user_role_to_principal ur =
     (if ur = UserRoleAdmin then ''admin'' else if ur = ''user'' then ''user'' else ''user'')"

section \<open>CORS and the handler wrappers\<close>

record 'w rest_api =
  ra_allowedOrigin :: string
  ra_parse_url :: url_parser
  ra_compare :: bcrypt
  ra_env_token :: string
  ra_get_config :: "'w \<Rightarrow> gateway_config"

definition is_allowed_origin :: "url_parser \<Rightarrow> string \<Rightarrow> string \<Rightarrow> string \<Rightarrow> bool" where
  "is_allowed_origin parse_url req_origin host configured_origin =
     (if configured_origin \<noteq> [] \<and> req_origin = configured_origin then True
      else case parse_url req_origin of
        None \<Rightarrow> False
      | Some (scheme, h) \<Rightarrow>
          let (hostname, origin_port) = url_host_port h;
              (host_only, host_port) = (case split_host_port host of Some (a, p) \<Rightarrow> (a, p) | None \<Rightarrow> (host, []))
          in if host \<noteq> [] \<and> hostname = host_only \<and> origin_port = host_port then True
             else hostname = ''localhost'' \<or> hostname = ''127.0.0.1'')"

definition set_cors_headers :: "'w rest_api \<Rightarrow> http_request \<Rightarrow> (string \<times> string) list" where
  "set_cors_headers api r =
     (let configured = ra_allowedOrigin api; req_origin = header_get r ''Origin'';
          ok = (req_origin \<noteq> [] \<and> is_allowed_origin (ra_parse_url api) req_origin (rq_Host r) configured);
          origin = (if ok then req_origin else configured);
          explicit = (ok \<and> configured \<noteq> [] \<and> req_origin = configured)
      in if origin = [] then []
         else [(''Access-Control-Allow-Origin'', origin),
               (''Access-Control-Allow-Methods'', ''GET, POST, PUT, DELETE, OPTIONS''),
               (''Access-Control-Allow-Headers'', ''Authorization, Content-Type, X-Csrf-Token'')] @
              (if explicit then [(''Access-Control-Allow-Credentials'', ''true'')] else []))"

definition add_headers :: "(string \<times> string) list \<Rightarrow> http_reply \<times> 'w \<Rightarrow> http_reply \<times> 'w" where
  "add_headers hs res = (fst res\<lparr>rs_headers := hs @ rs_headers (fst res)\<rparr>, snd res)"

definition preflight_reply :: "'w rest_api \<Rightarrow> http_request \<Rightarrow> http_reply" where
  "preflight_reply api r =
     \<lparr>rs_status = 204, rs_headers = set_cors_headers api r, rs_cookies = [], rs_body = JNull\<rparr>"

definition request_config :: "'w rest_api \<Rightarrow> http_request \<Rightarrow> 'w \<Rightarrow> gateway_config" where
  "request_config api r w = (case rq_config r of Some cfg \<Rightarrow> cfg | None \<Rightarrow> ra_get_config api w)"

definition with_auth_and_body_limit :: "'w rest_api \<Rightarrow> 'w handler \<Rightarrow> int \<Rightarrow> 'w handler" where
  "with_auth_and_body_limit api handler body_limit r w =
     (if rq_Method r = ''OPTIONS'' then (preflight_reply api r, w)
      else case check_bearer_auth (ra_compare api) (ra_env_token api) r (request_config api r w) of
        Inl refused \<Rightarrow> (refused, w)
      | Inr result \<Rightarrow>
          let r1 = r\<lparr>rq_body_limit := Some body_limit\<rparr>;
              r2 = (case ar_User result of Some u \<Rightarrow> r1\<lparr>rq_user := Some u\<rparr> | None \<Rightarrow> r1);
              r3 = (if ar_Role result \<noteq> [] then r2\<lparr>rq_role := Some (ar_Role result)\<rparr> else r2)
          in add_headers (set_cors_headers api r) (handler r3 w))"

definition with_auth :: "'w rest_api \<Rightarrow> 'w handler \<Rightarrow> 'w handler" where
  "with_auth api handler = with_auth_and_body_limit api handler (2 ^ 20)"

definition admin_wrap :: "'w rest_api \<Rightarrow> 'w handler \<Rightarrow> 'w handler" where
  "admin_wrap api h = with_auth api (require_admin (require_not_bypass h))"

text \<open>An admin route behind the snapshot middleware, as the gateway mounts it.\<close>

definition admin_route :: "'w rest_api \<Rightarrow> 'w handler \<Rightarrow> 'w handler" where
  "admin_route api h = config_snapshot_middleware (ra_get_config api) (admin_wrap api h)"

definition with_optional_auth :: "'w rest_api \<Rightarrow> 'w handler \<Rightarrow> 'w handler" where
  "with_optional_auth api handler r w =
     (if rq_Method r = ''OPTIONS'' then (preflight_reply api r, w)
      else
        let cfg = request_config api r w; r1 = r\<lparr>rq_body_limit := Some (2 ^ 20)\<rparr>;
            auth = header_get r ''Authorization''; raw_token = trim_prefix auth ''Bearer '';
            bearer = prefix ''Bearer '' auth;
            user = (if bearer \<and> gc_Users cfg \<noteq> []
                    then find (\<lambda>u. hash_verify (ra_compare api) (uc_TokenHash u) raw_token) (gc_Users cfg) else None);
            r2 = (case user of
                    Some u \<Rightarrow> r1\<lparr>rq_role := Some (uc_Role u), rq_user := Some u\<rparr>
                  | None \<Rightarrow> if bearer \<and> ra_env_token api \<noteq> [] \<and> raw_token = ra_env_token api
                            then r1\<lparr>rq_role := Some UserRoleAdmin\<rparr> else r1)
        in add_headers (set_cors_headers api r) (handler r2 w))"

section \<open>What the gates let through\<close>

text \<open>A request as the server hands it to the outermost middleware: nothing in its context yet.\<close>

definition incoming :: "http_request \<Rightarrow> http_request" where
  "incoming r = r\<lparr>rq_body_limit := None, rq_role := None, rq_user := None, rq_config := None\<rparr>"

lemma incoming_simps [simp]:
  "rq_role (incoming r) = None" "rq_user (incoming r) = None" "rq_config (incoming r) = None"
  "rq_Method (incoming r) = rq_Method r" "rq_Path (incoming r) = rq_Path r" "rq_Header (incoming r) = rq_Header r"
  "rq_Cookies (incoming r) = rq_Cookies r" "rq_Body (incoming r) = rq_Body r" "rq_Host (incoming r) = rq_Host r"
  by (simp_all add: incoming_def)

lemma header_get_cong: "rq_Header r = rq_Header r' \<Longrightarrow> header_get r = header_get r'"
  by (simp add: header_get_def fun_eq_iff)

text \<open>The paths an option exempts, and whether it replaces the default set.\<close>

fun option_paths :: "'w csrf_option \<Rightarrow> string set" where
  "option_paths (WithExemptPath p) = {p}"
| "option_paths (WithExemptPaths ps) = set ps - {[]}"
| "option_paths WithDefaultExempts = set default_exempt_paths"
| "option_paths _ = {}"

fun customises :: "'w csrf_option \<Rightarrow> bool" where
  "customises (WithExemptPath p) = True"
| "customises (WithExemptPaths ps) = True"
| "customises _ = False"

definition exempt_set :: "'w csrf_option list \<Rightarrow> string set" where
  "exempt_set opts = (\<Union>opt \<in> set opts. option_paths opt) \<union>
     (if list_ex customises opts then {} else set default_exempt_paths)"

lemma apply_csrf_option_effect:
  "apply_csrf_option opt c = None \<longleftrightarrow> opt = WithExemptPath []"
  "apply_csrf_option opt c = Some c' \<Longrightarrow>
     set (cc_exempt c') = option_paths opt \<union> set (cc_exempt c) \<and>
     (cc_customExemptSet c' \<longleftrightarrow> customises opt \<or> cc_customExemptSet c)"
  by (cases opt; auto split: if_splits)+

lemma apply_csrf_options_effect:
  "apply_csrf_options opts c = None \<longleftrightarrow> WithExemptPath [] \<in> set opts"
  "apply_csrf_options opts c = Some c' \<Longrightarrow>
     set (cc_exempt c') = (\<Union>opt \<in> set opts. option_paths opt) \<union> set (cc_exempt c) \<and>
     (cc_customExemptSet c' \<longleftrightarrow> list_ex customises opts \<or> cc_customExemptSet c)"
proof (induction opts c rule: apply_csrf_options.induct)
  case (2 opt opts c)
  { case 1 then show ?case using 2 by (auto split: option.splits simp: apply_csrf_option_effect(1)) }
  { case 2
    then obtain c1 where c1: "apply_csrf_option opt c = Some c1" and r: "apply_csrf_options opts c1 = Some c'"
      by (auto split: option.splits)
    from apply_csrf_option_effect(2) [OF c1] "2.IH"(2) [OF c1 r] show ?case by auto }
qed auto

lemma case_option_None: "(case x of None \<Rightarrow> None | Some c \<Rightarrow> Some (f c)) = None \<longleftrightarrow> x = None"
  by (cases x) simp_all

lemma csrf_build_effect:
  "csrf_build opts = None \<longleftrightarrow> WithExemptPath [] \<in> set opts"
  "csrf_build opts = Some cfg \<Longrightarrow> set (cc_exempt cfg) = exempt_set opts"
proof -
  show "csrf_build opts = None \<longleftrightarrow> WithExemptPath [] \<in> set opts"
    unfolding csrf_build_def
    by (subst apply_csrf_options_effect(1) [symmetric]) (rule case_option_None)
  show "csrf_build opts = Some cfg \<Longrightarrow> set (cc_exempt cfg) = exempt_set opts"
    by (auto simp: csrf_build_def exempt_set_def split: option.splits dest!: apply_csrf_options_effect(2))
qed

text \<open>The double submission: the first non-empty CSRF cookie comes back in the header.\<close>

definition double_submitted :: "http_request \<Rightarrow> bool" where
  "double_submitted r \<longleftrightarrow> header_get r CSRFHeaderName \<noteq> [] \<and> csrf_cookie_value r = header_get r CSRFHeaderName"

definition csrf_admits :: "string set \<Rightarrow> http_request \<Rightarrow> bool" where
  "csrf_admits exempt r \<longleftrightarrow>
     rq_Method r \<notin> set state_changing_methods \<or> rq_Path r \<in> exempt \<or>
     prefix ''Bearer '' (header_get r ''Authorization'') \<or> double_submitted r"

lemma csrf_handler_admits:
  "csrf_admits (set (cc_exempt cfg)) r \<Longrightarrow> csrf_handler cfg next r w = next r w"
  by (auto simp: csrf_handler_def csrf_admits_def double_submitted_def Let_def)

lemma csrf_handler_refuses:
  "\<not> csrf_admits (set (cc_exempt cfg)) r \<Longrightarrow> \<exists>msg w'. \<forall>next. csrf_handler cfg next r w = (json_err 403 msg, w')"
  by (auto simp: csrf_handler_def csrf_admits_def double_submitted_def Let_def)

text \<open>
  The CSRF gate, for every list of options. Building it panics exactly for an empty exempt path.
  Otherwise a request runs the next handler exactly when its method is safe, its path is exempt, it
  carries a Bearer header, or it submits a non-empty CSRF cookie again in the header; every other
  request is answered 403 whatever the handler, with no effect but the report.
\<close>

theorem csrf_gate:
  "case csrf_middleware opts of
     None \<Rightarrow> WithExemptPath [] \<in> set opts
   | Some gate \<Rightarrow> WithExemptPath [] \<notin> set opts \<and>
       (if csrf_admits (exempt_set opts) r then gate next r w = next r w
        else \<exists>msg w'. \<forall>next'. gate next' r w = (json_err 403 msg, w'))"
proof (cases "csrf_build opts")
  case None
  with csrf_build_effect(1) [of opts] show ?thesis by (simp add: csrf_middleware_def)
next
  case (Some cfg)
  then have "WithExemptPath [] \<notin> set opts" using csrf_build_effect(1) [of opts] by simp
  then show ?thesis
    using csrf_build_effect(2) [OF Some] csrf_handler_admits [of cfg r] csrf_handler_refuses [of cfg r w]
    by (simp add: csrf_middleware_def Some)
qed

text \<open>
  Calling \<open>WithExemptPaths\<close> with nothing but empty paths drops the default exempt set, so that a login
  without a cookie is refused.
\<close>

lemma empty_exempt_paths_drop_defaults:
  "exempt_set [WithExemptPaths [[]]] = {}"
  by (simp add: exempt_set_def)

lemma check_bearer_needs_prefix:
  "check_bearer_auth compare env r cfg = Inr res \<Longrightarrow> prefix ''Bearer '' (header_get r ''Authorization'')"
  by (auto simp: check_bearer_auth_def Let_def split: if_splits)

text \<open>
  The CSRF gate refuses nothing that \<open>withAuth\<close> would have let through: put in front of an
  authenticated handler it changes only which refusal an unauthenticated request gets.
\<close>

theorem csrf_adds_nothing_to_bearer_auth:
  "csrf_handler cfg (with_auth api handler) r w = with_auth api handler r w \<or>
   (\<forall>h. rs_status (fst (csrf_handler cfg (with_auth api h) r w)) = 403) \<and>
   (\<forall>h. rs_status (fst (with_auth api h r w)) = 401 \<and> snd (with_auth api h r w) = w)"
proof (cases "csrf_admits (set (cc_exempt cfg)) r")
  case True
  then show ?thesis by (simp add: csrf_handler_admits)
next
  case False
  from csrf_handler_refuses [OF this, of w] obtain msg w'
    where r: "\<And>next. csrf_handler cfg next r w = (json_err 403 msg, w')" by blast
  from False have m: "rq_Method r \<noteq> ''OPTIONS''" and p: "\<not> prefix ''Bearer '' (header_get r ''Authorization'')"
    by (auto simp: csrf_admits_def state_changing_methods_def)
  show ?thesis unfolding r with_auth_def with_auth_and_body_limit_def check_bearer_auth_def
    by (simp add: m p json_err_def http_error_def)
qed

text \<open>
  The credentials that open an admin route: a bearer token whose first match among the users is an
  administrator, or, while there are no users at all, the environment token.
\<close>

definition bearer_token :: "http_request \<Rightarrow> string option" where
  "bearer_token r =
     (let auth = header_get r ''Authorization'' in
      if prefix ''Bearer '' auth then Some (trim_prefix auth ''Bearer '') else None)"

definition token_owner :: "bcrypt \<Rightarrow> string \<Rightarrow> user_config list \<Rightarrow> user_config option" where
  "token_owner compare token users = find (\<lambda>u. hash_verify compare (uc_TokenHash u) token) users"

definition admin_credential :: "bcrypt \<Rightarrow> string \<Rightarrow> gateway_config \<Rightarrow> http_request \<Rightarrow> bool" where
  "admin_credential compare env_token cfg r =
     (case bearer_token r of
        None \<Rightarrow> False
      | Some token \<Rightarrow>
          if gc_Users cfg = [] then env_token \<noteq> [] \<and> token = env_token
          else (case token_owner compare token (gc_Users cfg) of None \<Rightarrow> False | Some u \<Rightarrow> uc_Role u = UserRoleAdmin))"

lemma check_bearer_auth_by_token:
  "check_bearer_auth compare env_token r cfg =
     (case bearer_token r of
        None \<Rightarrow> Inl (http_error ''unauthorized: missing Bearer token'' 401)
      | Some token \<Rightarrow>
          if gc_Users cfg \<noteq> [] then
            (case token_owner compare token (gc_Users cfg) of
               Some u \<Rightarrow> Inr \<lparr>ar_Role = uc_Role u, ar_User = Some u\<rparr>
             | None \<Rightarrow> Inl (http_error ''unauthorized: invalid Bearer token'' 401))
          else if env_token = [] then
            (if gc_DevModeBypass cfg then Inr \<lparr>ar_Role = UserRoleAdmin, ar_User = Some dev_bypass_user\<rparr>
             else Inl (http_error ''unauthorized: no users configured, complete onboarding first'' 401))
          else if token \<noteq> env_token then Inl (http_error ''unauthorized: invalid Bearer token'' 401)
          else Inr \<lparr>ar_Role = UserRoleAdmin, ar_User = Some env_token_user\<rparr>)"
  by (simp add: check_bearer_auth_def bearer_token_def token_owner_def Let_def)

definition refusals :: "int set" where
  "refusals = {204, 401, 403, 503}"

definition gate_opens :: "'w handler \<Rightarrow> ('w handler \<Rightarrow> 'w handler) \<Rightarrow> (string \<times> string) list \<Rightarrow> (http_request \<Rightarrow> bool) \<Rightarrow> http_request \<Rightarrow> 'w \<Rightarrow> bool" where
  "gate_opens h gate hs allowed r w \<longleftrightarrow>
     (\<exists>r'. allowed r' \<and> rq_Body r' = rq_Body r \<and> rq_Path r' = rq_Path r \<and> rq_Method r' = rq_Method r \<and>
        gate h r w = add_headers hs (h r' w))"

definition gate_closed :: "('w handler \<Rightarrow> 'w handler) \<Rightarrow> http_request \<Rightarrow> 'w \<Rightarrow> bool" where
  "gate_closed gate r w \<longleftrightarrow> (\<exists>reply. rs_status reply \<in> refusals \<and> (\<forall>h. gate h r w = (reply, w)))"

lemma gate_closedI: "(\<And>h. gate h r w = (reply, w)) \<Longrightarrow> rs_status reply \<in> refusals \<Longrightarrow> gate_closed gate r w"
  unfolding gate_closed_def by blast

lemma admin_wrap_refused:
  "rq_Method r \<noteq> ''OPTIONS'' \<Longrightarrow> check_bearer_auth (ra_compare api) (ra_env_token api) r (request_config api r w) = Inl reply \<Longrightarrow>
   admin_wrap api h r w = (reply, w)"
  by (simp add: admin_wrap_def with_auth_def with_auth_and_body_limit_def)

lemma check_bearer_auth_status: "check_bearer_auth compare env_token r cfg = Inl reply \<Longrightarrow> rs_status reply = 401"
  by (auto simp: check_bearer_auth_def http_error_def Let_def split: if_splits option.splits)

lemma admin_credential_result:
  "\<not> gc_DevModeBypass cfg \<Longrightarrow>
   admin_credential compare env_token cfg r \<longleftrightarrow>
     (case check_bearer_auth compare env_token r cfg of Inl _ \<Rightarrow> False | Inr res \<Rightarrow> ar_Role res = UserRoleAdmin)"
  by (auto simp: admin_credential_def check_bearer_auth_by_token split: option.splits)

text \<open>The chain behind the snapshot, for a result of the token check.\<close>

definition admitted_request :: "gateway_config \<Rightarrow> auth_result \<Rightarrow> http_request \<Rightarrow> http_request" where
  "admitted_request cfg res r =
     (let r1 = (incoming r)\<lparr>rq_config := Some cfg, rq_body_limit := Some (2 ^ 20)\<rparr>;
          r2 = (case ar_User res of Some u \<Rightarrow> r1\<lparr>rq_user := Some u\<rparr> | None \<Rightarrow> r1)
      in if ar_Role res \<noteq> [] then r2\<lparr>rq_role := Some (ar_Role res)\<rparr> else r2)"

lemma admitted_request_simps [simp]:
  "rq_role (admitted_request cfg res r) = (if ar_Role res \<noteq> [] then Some (ar_Role res) else None)"
  "rq_config (admitted_request cfg res r) = Some cfg"
  "rq_user (admitted_request cfg res r) = ar_User res"
  "rq_Body (admitted_request cfg res r) = rq_Body r" "rq_Path (admitted_request cfg res r) = rq_Path r"
  "rq_Method (admitted_request cfg res r) = rq_Method r" "rq_Cookies (admitted_request cfg res r) = rq_Cookies r"
  by (auto simp: admitted_request_def incoming_def Let_def split: option.splits)

lemma snapshot_with_auth:
  "config_snapshot_middleware (ra_get_config api) (with_auth api handler) (incoming r) w =
     (if rq_Method r = ''OPTIONS'' then (preflight_reply api (incoming r), w)
      else case check_bearer_auth (ra_compare api) (ra_env_token api) r (ra_get_config api w) of
        Inl refused \<Rightarrow> (refused, w)
      | Inr res \<Rightarrow> add_headers (set_cors_headers api (incoming r)) (handler (admitted_request (ra_get_config api w) res r) w))"
proof -
  have c: "set_cors_headers api (r'\<lparr>rq_config := x\<rparr>) = set_cors_headers api r'" for r' x
    by (simp add: set_cors_headers_def header_get_def)
  have b: "check_bearer_auth c e ((incoming r)\<lparr>rq_config := x\<rparr>) cfg = check_bearer_auth c e r cfg" for c e x cfg
    by (simp add: check_bearer_auth_def header_get_def incoming_def)
  show ?thesis
    by (simp add: config_snapshot_middleware_def with_auth_def with_auth_and_body_limit_def request_config_def b c
        preflight_reply_def admitted_request_def Let_def split: sum.split)
qed

text \<open>
  C11. The admin gate: behind the configuration snapshot, a handler wrapped for administrators runs
  exactly for a request that is no preflight, carries an admin credential, and meets a configuration
  without the development bypass; it then sees the admin role. Every other request is refused
  whatever the handler would do, and changes nothing.
\<close>

theorem admin_gate:
  "if rq_Method r \<noteq> ''OPTIONS'' \<and> \<not> gc_DevModeBypass (ra_get_config api w) \<and>
       admin_credential (ra_compare api) (ra_env_token api) (ra_get_config api w) r
     then gate_opens h (admin_route api) (set_cors_headers api (incoming r)) (\<lambda>r'. rq_role r' = Some UserRoleAdmin) (incoming r) w
     else gate_closed (admin_route api) (incoming r) w"
proof -
  let ?cfg = "ra_get_config api w"
  let ?res = "check_bearer_auth (ra_compare api) (ra_env_token api) r ?cfg"
  have g: "admin_route api h (incoming r) w =
     (if rq_Method r = ''OPTIONS'' then (preflight_reply api (incoming r), w)
      else case ?res of Inl refused \<Rightarrow> (refused, w)
        | Inr res \<Rightarrow> add_headers (set_cors_headers api (incoming r))
            (require_admin (require_not_bypass h) (admitted_request ?cfg res r) w))" for h
    unfolding admin_route_def admin_wrap_def by (rule snapshot_with_auth)
  show ?thesis
  proof (cases "rq_Method r = ''OPTIONS''")
    case True
    then show ?thesis by (auto intro!: gate_closedI simp: g preflight_reply_def refusals_def)
  next
    case m: False
    show ?thesis
    proof (cases ?res)
      case (Inl reply)
      have "\<not> admin_credential (ra_compare api) (ra_env_token api) ?cfg r \<or> gc_DevModeBypass ?cfg"
        using admin_credential_result [of ?cfg] Inl by fastforce
      then show ?thesis using check_bearer_auth_status [OF Inl]
        by (auto intro!: gate_closedI simp: g m Inl refusals_def)
    next
      case (Inr res)
      let ?r = "admitted_request ?cfg res r"
      have out: "admin_route api h (incoming r) w = add_headers (set_cors_headers api (incoming r))
          (if ar_Role res = [] then (json_err 401 ''unauthorized'', w)
           else if ar_Role res \<noteq> UserRoleAdmin then (json_err 403 ''admin required'', w)
           else if gc_DevModeBypass ?cfg then (json_err 503 ''user management disabled in dev-mode-bypass'', w)
           else h ?r w)" for h
        by (simp add: g m Inr require_admin_def require_not_bypass_def)
      show ?thesis
      proof (cases "ar_Role res = UserRoleAdmin \<and> \<not> gc_DevModeBypass ?cfg")
        case True
        then have "admin_route api h (incoming r) w = add_headers (set_cors_headers api (incoming r)) (h ?r w)"
          by (simp add: out UserRoleAdmin_def)
        with True show ?thesis
          using admin_credential_result [of ?cfg] Inr by (auto simp: m gate_opens_def UserRoleAdmin_def intro!: exI [of _ ?r])
      next
        case False
        let ?reply = "if ar_Role res = [] then json_err 401 ''unauthorized''
          else if ar_Role res \<noteq> UserRoleAdmin then json_err 403 ''admin required''
          else json_err 503 ''user management disabled in dev-mode-bypass''"
        from False have "admin_route api h (incoming r) w =
            (?reply\<lparr>rs_headers := set_cors_headers api (incoming r) @ rs_headers ?reply\<rparr>, w)" for h
          by (simp add: out add_headers_def)
        then have "gate_closed (admin_route api) (incoming r) w"
          by (rule gate_closedI) (simp add: json_err_def refusals_def)
        then show ?thesis using admin_credential_result [of ?cfg] Inr False by auto
      qed
    qed
  qed
qed

end
