(* ===== verification/Gateway_Users.thy ===== *)
theory Gateway_Users
  imports Gateway_Http Abuse_Limits Hex
begin

text \<open>
  The user accounts of the gateway: login, registration of the first administrator, logout and
  password change (pkg/gateway/rest_auth.go), the administrators' user management
  (pkg/gateway/rest_users.go), and the read-modify-write of config.json they share
  (\<open>safeUpdateConfigJSON\<close>, rest.go). config.json is its JSON value; the outcome of a write, of the
  reload, of the random source and of bcrypt's hashing are arguments of a request. The lock makes an
  update one step.
\<close>

section \<open>State and surroundings of a request\<close>

record gateway_state =
  gs_disk :: "json_object option"
  gs_config :: gateway_config
  gs_limiter :: login_rate_limiter
  gs_audit :: "(string \<times> json \<times> json) list option"

text \<open>
  What one request meets: the loader of a stored configuration, whether the atomic write and the
  reload succeed, the clock, the n-th draw of the random source and bcrypt's hashing (None is an
  error).
\<close>

record surroundings =
  su_load :: "json_object \<Rightarrow> gateway_config option"
  su_write_ok :: bool
  su_reload_ok :: bool
  su_now :: time
  su_random :: "nat \<Rightarrow> int list option"
  su_hash :: "string \<Rightarrow> string option"
  su_compare :: bcrypt

datatype account_error =
    ErrInvalidCredentials
  | ErrUserNotFound
  | ErrAdminAlreadyExists
  | ErrLastAdmin
  | ErrUserAbsent
  | ErrUserExists
  | OtherError string

definition json_ok :: "(string \<times> json) list \<Rightarrow> http_reply" where
  "json_ok body =
     \<lparr>rs_status = 200, rs_headers = [(''Content-Type'', ''application/json'')], rs_cookies = [], rs_body = JObj body\<rparr>"

definition add_cookies :: "set_cookie list \<Rightarrow> http_reply \<Rightarrow> http_reply" where
  "add_cookies cs reply = reply\<lparr>rs_cookies := cs @ rs_cookies reply\<rparr>"

section \<open>Reading a request body\<close>

text \<open>
  \<open>io.LimitReader\<close>, and the body as the handler reads it: \<open>None\<close> when the connection fails. The schema check (message and
  whether it is the server's fault, empty message when it passes) and the two JSON decoders are
  arguments.
\<close>

record 'a body_codec =
  bc_read :: "http_request \<Rightarrow> string option"
  bc_schema :: "string \<Rightarrow> string \<times> bool"
  bc_decode :: "string \<Rightarrow> 'a option"
  bc_unmarshal :: "string \<Rightarrow> 'a option"

definition limit_reader :: "string \<Rightarrow> int \<Rightarrow> string" where
  "limit_reader body n = (if int (length body) \<le> n then body else take (nat n) body)"

definition decode_and_validate :: "'a body_codec \<Rightarrow> string \<Rightarrow> bool \<Rightarrow> http_request \<Rightarrow> http_reply + 'a" where
  "decode_and_validate codec schema_name validate r =
     (if \<not> validate then
        (case bc_read codec r of
           None \<Rightarrow> Inl (json_err 400 ''invalid JSON body'')
         | Some body \<Rightarrow> (case bc_decode codec (limit_reader body (2 ^ 20)) of
             None \<Rightarrow> Inl (json_err 400 ''invalid JSON body'') | Some v \<Rightarrow> Inr v))
      else
        (case bc_read codec r of
           None \<Rightarrow> Inl (json_err 400 ''could not read request body'')
         | Some body \<Rightarrow>
             let raw = limit_reader body (2 ^ 20); (msg, server_err) = bc_schema codec raw in
             if raw = [] \<or> trim_space raw = ''null'' then Inl (json_err 400 ''request body is required'')
             else if msg \<noteq> [] then
               (if server_err then Inl (json_err 500 ''inbound schema unavailable'')
                else Inl (json_err 400 (''request body does not match schema '' @ schema_name @ '': '' @ msg)))
             else (case bc_unmarshal codec raw of
                 None \<Rightarrow> Inl (json_err 400 ''invalid JSON body'') | Some v \<Rightarrow> Inr v)))"

section \<open>The stored configuration\<close>

definition safe_update_config_json ::
  "surroundings \<Rightarrow> (json_object \<Rightarrow> account_error + json_object \<times> 'r) \<Rightarrow> gateway_state \<Rightarrow>
     (account_error + 'r) \<times> gateway_state" where
  "safe_update_config_json su mutate st =
     (case gs_disk st of
        None \<Rightarrow> (Inl (OtherError ''read config''), st)
      | Some m \<Rightarrow>
          (case mutate m of
             Inl e \<Rightarrow> (Inl e, st)
           | Inr (m', res) \<Rightarrow>
               if \<not> su_write_ok su then (Inl (OtherError ''write config''), st)
               else
                 (case su_load su m' of
                    None \<Rightarrow> (Inl (OtherError ''config written but in-memory refresh failed''), st\<lparr>gs_disk := Some m'\<rparr>)
                  | Some cfg \<Rightarrow> (Inr res, st\<lparr>gs_disk := Some m', gs_config := cfg\<rparr>))))"

text \<open>
  The first entry of a user list that is an object with the given name, handed to an edit: the loop
  of all account closures. Entries that are no objects or have no such name are passed over.
\<close>

definition names_user :: "string \<Rightarrow> json \<Rightarrow> bool" where
  "names_user name u = (case u of JObj um \<Rightarrow> map_of um ''username'' = Some (JStr name) | _ \<Rightarrow> False)"

fun edit_first :: "string \<Rightarrow> account_error \<Rightarrow> (json_object \<Rightarrow> account_error + json_object \<times> 'r) \<Rightarrow> json list \<Rightarrow>
    account_error + json list \<times> 'r" where
  "edit_first name absent edit [] = Inl absent"
| "edit_first name absent edit (u # us) =
     (if names_user name u then
        (case u of
           JObj um \<Rightarrow> (case edit um of Inl e \<Rightarrow> Inl e | Inr (um', res) \<Rightarrow> Inr (JObj um' # us, res))
         | _ \<Rightarrow> Inl absent)
      else (case edit_first name absent edit us of Inl e \<Rightarrow> Inl e | Inr (us', res) \<Rightarrow> Inr (u # us', res)))"

definition string_field :: "string \<Rightarrow> json_object \<Rightarrow> string" where
  "string_field k um = (case map_of um k of Some (JStr s) \<Rightarrow> s | _ \<Rightarrow> [])"

definition gateway_object :: "json_object \<Rightarrow> json_object option" where
  "gateway_object m = (case map_of m ''gateway'' of Some (JObj gw) \<Rightarrow> Some gw | _ \<Rightarrow> None)"

definition put_users :: "json_object \<Rightarrow> json_object \<Rightarrow> json list \<Rightarrow> json_object" where
  "put_users m gw users = AList.update ''gateway'' (JObj (AList.update ''users'' (JArr users) gw)) m"

definition edit_user :: "string \<Rightarrow> account_error \<Rightarrow> (json_object \<Rightarrow> account_error + json_object \<times> 'r) \<Rightarrow>
    json_object \<Rightarrow> account_error + json_object \<times> 'r" where
  "edit_user name absent edit m =
     (case gateway_object m of
        None \<Rightarrow> Inl (OtherError ''gateway config not found'')
      | Some gw \<Rightarrow>
          (case map_of gw ''users'' of
             Some (JArr users) \<Rightarrow>
               (case edit_first name absent edit users of
                  Inl e \<Rightarrow> Inl e
                | Inr (users', res) \<Rightarrow> Inr (put_users m gw users', res))
           | _ \<Rightarrow> Inl (OtherError ''gateway.users is not an array'')))"

definition is_admin_entry :: "json \<Rightarrow> bool" where
  "is_admin_entry u = (case u of JObj um \<Rightarrow> string_field ''role'' um = UserRoleAdmin | _ \<Rightarrow> False)"

definition count_admins :: "json list \<Rightarrow> nat" where
  "count_admins users = length (filter is_admin_entry users)"

text \<open>The users array a creation extends: absent and null count as empty, any other value is an error.\<close>

definition users_or_empty :: "json_object \<Rightarrow> account_error + json list" where
  "users_or_empty gw =
     (case map_of gw ''users'' of
        None \<Rightarrow> Inr [] | Some JNull \<Rightarrow> Inr [] | Some (JArr us) \<Rightarrow> Inr us
      | _ \<Rightarrow> Inl (OtherError ''gateway.users is not an array''))"

definition gateway_or_empty :: "json_object \<Rightarrow> json_object" where
  "gateway_or_empty m = (case gateway_object m of Some gw \<Rightarrow> gw | None \<Rightarrow> [])"

section \<open>Tokens\<close>

definition generate_user_token :: "int list option \<Rightarrow> string option" where
  "generate_user_token random = map_option (\<lambda>bytes. ''omnipus_'' @ hex_encode (map char_of bytes)) random"

definition mint_session_token :: "surroundings \<Rightarrow> nat \<Rightarrow> (string \<times> string) option" where
  "mint_session_token su draw =
     (case su_random su draw of
        None \<Rightarrow> None
      | Some buf \<Rightarrow>
          let token = base64_raw_url buf in
          (case su_hash su token of None \<Rightarrow> None | Some h \<Rightarrow> Some (token, h)))"

text \<open>\<open>IssueSessionCookie\<close> with its closure over the stored configuration as the mutator.\<close>

definition issue_session_cookie ::
  "surroundings \<Rightarrow> http_request \<Rightarrow> string \<Rightarrow> gateway_state \<Rightarrow> (account_error + string \<times> set_cookie) \<times> gateway_state" where
  "issue_session_cookie su r username st =
     (if username = [] then (Inl (OtherError ''session: username is required''), st)
      else case mint_session_token su 0 of
        None \<Rightarrow> (Inl (OtherError ''session: token''), st)
      | Some (token, h) \<Rightarrow>
          (case safe_update_config_json su
              (edit_user username (OtherError ''session: user not found'')
                 (\<lambda>um. Inr (AList.update ''session_token_hash'' (JStr h) um, ()))) st of
             (Inl e, st') \<Rightarrow> (Inl e, st')
           | (Inr _, st') \<Rightarrow> (Inr (token, session_cookie token SessionCookieMaxAge r), st')))"

section \<open>Login, registration, logout, password change\<close>

record credentials_body =
  cb_Username :: string
  cb_Password :: string

definition login_edit :: "surroundings \<Rightarrow> string \<Rightarrow> string \<Rightarrow> string \<Rightarrow> json_object \<Rightarrow> account_error + json_object \<times> string" where
  "login_edit su password token session_hash um =
     (case map_of um ''password_hash'' of
        Some (JStr password_hash) \<Rightarrow>
          if \<not> su_compare su password_hash password then Inl ErrInvalidCredentials
          else (case su_hash su token of
              None \<Rightarrow> Inl (OtherError ''token hash failed'')
            | Some token_hash \<Rightarrow>
                let um' = AList.update ''session_token_hash'' (JStr session_hash)
                            (AList.update ''token_hash'' (JStr token_hash) um)
                in Inr (um', string_field ''role'' um'))
      | _ \<Rightarrow> Inl (OtherError ''user password_hash is not a string''))"

definition login_reply :: "string \<Rightarrow> string \<Rightarrow> string \<Rightarrow> http_reply" where
  "login_reply token role username =
     json_ok [(''role'', JStr role), (''token'', JStr token), (''username'', JStr username)]"

text \<open>The cookies and the reply with which a login or a registration ends.\<close>

definition start_session :: "surroundings \<Rightarrow> http_request \<Rightarrow> string \<Rightarrow> http_reply \<Rightarrow> http_reply" where
  "start_session su r session_token ok =
     (case issue_csrf_cookie (su_random su 2) r of
        None \<Rightarrow> add_cookies [write_session_cookie r session_token] (json_err 500 ''session init failed'')
      | Some csrf \<Rightarrow> add_cookies [write_session_cookie r session_token, csrf] ok)"

definition request_ip :: "http_request \<Rightarrow> string" where
  "request_ip r = client_ip (header_get r ''X-Forwarded-For'') (rq_RemoteAddr r)"

definition handle_login :: "surroundings \<Rightarrow> credentials_body body_codec \<Rightarrow> bool \<Rightarrow> gateway_state handler" where
  "handle_login su codec validate r st =
     (if rq_Method r \<noteq> ''POST'' then (json_err 405 ''method not allowed'', st)
      else case decode_and_validate codec ''LoginRequest'' validate r of
        Inl reply \<Rightarrow> (reply, st)
      | Inr body \<Rightarrow>
          if cb_Username body = [] \<or> cb_Password body = [] then
            (json_err 400 ''username and password are required'', st)
          else
            (let ip = request_ip r;
                 (allowed, limiter) = login_check ip (cb_Username body) (su_now su) (gs_limiter st);
                 st1 = st\<lparr>gs_limiter := limiter\<rparr> in
             if \<not> allowed then (json_err 429 ''too many login attempts, try again later'', st1)
             else case (generate_user_token (su_random su 0), mint_session_token su 1) of
               (Some token, Some (session_token, session_hash)) \<Rightarrow>
                 (case safe_update_config_json su
                     (edit_user (cb_Username body) ErrUserNotFound
                        (login_edit su (cb_Password body) token session_hash)) st1 of
                    (Inl e, st2) \<Rightarrow>
                      if e = ErrInvalidCredentials \<or> e = ErrUserNotFound then (json_err 401 ''invalid credentials'', st2)
                      else (json_err 500 ''login failed'', st2)
                  | (Inr role, st2) \<Rightarrow>
                      if role = [] then (json_err 500 ''login failed: user role corrupted'', st2)
                      else
                        (start_session su r session_token (login_reply token role (cb_Username body)),
                         st2\<lparr>gs_limiter := login_record_success ip (cb_Username body) (gs_limiter st2)\<rparr>))
             | _ \<Rightarrow> (json_err 500 ''login failed'', st1)))"

definition handle_validate_token :: "gateway_state handler" where
  "handle_validate_token r st =
     (if rq_Method r \<noteq> ''GET'' then (json_err 405 ''method not allowed'', st)
      else case rq_user r of
        None \<Rightarrow> (json_err 401 ''invalid token'', st)
      | Some u \<Rightarrow> (json_ok [(''role'', JStr (uc_Role u)), (''username'', JStr (uc_Username u))], st))"

definition register_admin_update :: "json \<Rightarrow> json_object \<Rightarrow> account_error + json_object \<times> unit" where
  "register_admin_update new_user m =
     (let gw = gateway_or_empty m in
      case users_or_empty gw of
        Inl e \<Rightarrow> Inl e
      | Inr users \<Rightarrow>
          if list_ex is_admin_entry users then Inl ErrAdminAlreadyExists
          else Inr (put_users m gw (users @ [new_user]), ()))"

definition admin_entry :: "string \<Rightarrow> string \<Rightarrow> string \<Rightarrow> string \<Rightarrow> json" where
  "admin_entry username password_hash token_hash session_hash =
     JObj [(''username'', JStr username), (''password_hash'', JStr password_hash), (''token_hash'', JStr token_hash),
           (''session_token_hash'', JStr session_hash), (''role'', JStr UserRoleAdmin)]"

definition handle_register_admin :: "surroundings \<Rightarrow> credentials_body body_codec \<Rightarrow> bool \<Rightarrow> gateway_state handler" where
  "handle_register_admin su codec validate r st =
     (if rq_Method r \<noteq> ''POST'' then (json_err 405 ''method not allowed'', st)
      else case decode_and_validate codec ''RegisterAdminRequest'' validate r of
        Inl reply \<Rightarrow> (reply, st)
      | Inr body \<Rightarrow>
          if cb_Username body = [] \<or> cb_Password body = [] then
            (json_err 400 ''username and password are required'', st)
          else if length (cb_Password body) < 8 then
            (json_err 400 ''password must be at least 8 characters'', st)
          else
            (case (su_hash su (cb_Password body), generate_user_token (su_random su 0), mint_session_token su 1) of
               (Some password_hash, Some token, Some (session_token, session_hash)) \<Rightarrow>
                 (case su_hash su token of
                    None \<Rightarrow> (json_err 500 ''could not register admin'', st)
                  | Some token_hash \<Rightarrow>
                      (case safe_update_config_json su
                          (register_admin_update (admin_entry (cb_Username body) password_hash token_hash session_hash)) st of
                         (Inl e, st') \<Rightarrow>
                           if e = ErrAdminAlreadyExists then (json_err 409 ''admin already registered'', st')
                           else (json_err 500 ''could not register admin'', st')
                       | (Inr _, st') \<Rightarrow>
                           (start_session su r session_token (login_reply token UserRoleAdmin (cb_Username body)), st')))
             | _ \<Rightarrow> (json_err 500 ''could not register admin'', st)))"

definition logout_edit :: "json_object \<Rightarrow> account_error + json_object \<times> unit" where
  "logout_edit um =
     Inr (AList.update ''session_token_hash'' (JStr []) (AList.update ''token_hash'' (JStr []) um), ())"

definition handle_logout :: "surroundings \<Rightarrow> gateway_state handler" where
  "handle_logout su r st =
     (if rq_Method r \<noteq> ''POST'' then (json_err 405 ''method not allowed'', st)
      else case rq_user r of
        None \<Rightarrow> (json_err 401 ''not authenticated'', st)
      | Some user \<Rightarrow>
          (case safe_update_config_json su
              (edit_user (uc_Username user) (OtherError ''user not found in config'') logout_edit) st of
             (Inl e, st') \<Rightarrow> (json_err 500 ''logout failed'', st')
           | (Inr _, st') \<Rightarrow>
               (\<lparr>rs_status = 204, rs_headers = [], rs_cookies = [clear_session_cookie r, clear_csrf_cookie r],
                 rs_body = JNull\<rparr>, st')))"

record password_change_body =
  pc_CurrentPassword :: string
  pc_NewPassword :: string

definition change_password_edit :: "bcrypt \<Rightarrow> string \<Rightarrow> string \<Rightarrow> json_object \<Rightarrow> account_error + json_object \<times> unit" where
  "change_password_edit compare current new_hash um =
     (case map_of um ''password_hash'' of
        Some (JStr password_hash) \<Rightarrow>
          if \<not> compare password_hash current then Inl ErrInvalidCredentials
          else Inr (AList.update ''password_hash'' (JStr new_hash) um, ())
      | _ \<Rightarrow> Inl (OtherError ''password_hash is not a string''))"

definition handle_change_password :: "surroundings \<Rightarrow> password_change_body body_codec \<Rightarrow> bool \<Rightarrow> gateway_state handler" where
  "handle_change_password su codec validate r st =
     (if rq_Method r \<noteq> ''POST'' then (json_err 405 ''method not allowed'', st)
      else case rq_user r of
        None \<Rightarrow> (json_err 401 ''not authenticated'', st)
      | Some user \<Rightarrow>
          (case decode_and_validate codec ''ChangePasswordRequest'' validate r of
             Inl reply \<Rightarrow> (reply, st)
           | Inr body \<Rightarrow>
               if pc_CurrentPassword body = [] \<or> pc_NewPassword body = [] then
                 (json_err 400 ''current_password and new_password are required'', st)
               else if length (pc_NewPassword body) < 8 then
                 (json_err 400 ''new password must be at least 8 characters'', st)
               else
                 (case su_hash su (pc_NewPassword body) of
                    None \<Rightarrow> (json_err 500 ''password change failed'', st)
                  | Some new_hash \<Rightarrow>
                      (case safe_update_config_json su
                          (edit_user (uc_Username user) ErrUserNotFound
                             (change_password_edit (su_compare su) (pc_CurrentPassword body) new_hash)) st of
                         (Inl e, st') \<Rightarrow>
                           if e = ErrInvalidCredentials then (json_err 401 ''current password is incorrect'', st')
                           else if e = ErrUserNotFound then (json_err 404 ''user not found'', st')
                           else (json_err 500 ''password change failed'', st')
                       | (Inr _, st') \<Rightarrow> (json_ok [(''success'', JBool True)], st')))))"

section \<open>User management\<close>

record user_create_body =
  ub_Username :: string
  ub_Role :: string
  ub_Password :: string

definition alnum_char :: "char \<Rightarrow> bool" where
  "alnum_char c \<longleftrightarrow>
     (let n = (of_char c :: int) in 48 \<le> n \<and> n \<le> 57 \<or> 65 \<le> n \<and> n \<le> 90 \<or> 97 \<le> n \<and> n \<le> 122)"

text \<open>\<open>usernameRE\<close>: a letter or digit, then 1 to 62 letters, digits, dots, underscores, dashes.\<close>

definition valid_username :: "string \<Rightarrow> bool" where
  "valid_username s =
     (case s of
        [] \<Rightarrow> False
      | c # cs \<Rightarrow> alnum_char c \<and> 1 \<le> length cs \<and> length cs \<le> 62 \<and>
          list_all (\<lambda>d. alnum_char d \<or> d = CHR ''.'' \<or> d = CHR ''_'' \<or> d = CHR ''-'') cs)"

definition valid_role :: "string \<Rightarrow> bool" where
  "valid_role role \<longleftrightarrow> role = UserRoleAdmin \<or> role = ''user''"

abbreviation "usernameInvalidMsg \<equiv>
  ''username must start with an alphanumeric and contain only letters, digits, dots, dashes, and underscores (length 2-63)''"

definition role_invalid_msg :: string where
  "role_invalid_msg =
     ''role must be exactly '' @ [CHR 0x22] @ ''admin'' @ [CHR 0x22] @ '' or '' @ [CHR 0x22] @ ''user'' @ [CHR 0x22]"

definition extract_username_from_path :: "http_request \<Rightarrow> string \<Rightarrow> string + string" where
  "extract_username_from_path r pre =
     (if \<not> prefix pre (rq_Path r) then Inl (''path does not start with '' @ go_quote pre)
      else let rest = trim_suffix (trim_prefix (rq_Path r) pre) ''/'' in
        if rest = [] then Inl ''username missing from path'' else Inr rest)"

definition emit_user_audit :: "string \<Rightarrow> json \<Rightarrow> json \<Rightarrow> gateway_state \<Rightarrow> gateway_state" where
  "emit_user_audit resource old_value new_value st =
     (case gs_audit st of
        None \<Rightarrow> st
      | Some entries \<Rightarrow> st\<lparr>gs_audit := Some (entries @ [(resource, old_value, new_value)])\<rparr>)"

abbreviation "reloadWarning \<equiv> ''config saved to disk but hot-reload failed; restart the gateway to apply''"

definition restart_fields :: "surroundings \<Rightarrow> (string \<times> json) list" where
  "restart_fields su =
     (if su_reload_ok su then [] else [(''requires_restart'', JBool True), (''warning'', JStr reloadWarning)])"

definition handle_users_list :: "gateway_state handler" where
  "handle_users_list r st =
     (if rq_Method r \<noteq> ''GET'' then (json_err 405 ''method not allowed'', st)
      else
        (\<lparr>rs_status = 200, rs_headers = [(''Content-Type'', ''application/json'')], rs_cookies = [],
          rs_body = JArr (map (\<lambda>u. JObj [(''has_active_token'', JBool (uc_TokenHash u \<noteq> [])),
             (''has_password'', JBool (uc_PasswordHash u \<noteq> [])), (''role'', JStr (uc_Role u)),
             (''username'', JStr (uc_Username u))]) (gc_Users (gs_config st)))\<rparr>, st))"

definition user_create_update :: "user_create_body \<Rightarrow> string \<Rightarrow> json_object \<Rightarrow> account_error + json_object \<times> unit" where
  "user_create_update body password_hash m =
     (let gw = gateway_or_empty m in
      case users_or_empty gw of
        Inl e \<Rightarrow> Inl e
      | Inr users \<Rightarrow>
          if list_ex (names_user (ub_Username body)) users then Inl ErrUserExists
          else Inr (put_users m gw (users @
            [JObj [(''username'', JStr (ub_Username body)), (''password_hash'', JStr password_hash),
                   (''token_hash'', JStr []), (''role'', JStr (ub_Role body))]]), ()))"

text \<open>The 201 reply: its content type is set after the header was sent, so it is not part of it.\<close>

definition created_reply :: "(string \<times> json) list \<Rightarrow> http_reply" where
  "created_reply body = \<lparr>rs_status = 201, rs_headers = [], rs_cookies = [], rs_body = JObj body\<rparr>"

definition handle_user_create :: "surroundings \<Rightarrow> user_create_body body_codec \<Rightarrow> bool \<Rightarrow> gateway_state handler" where
  "handle_user_create su codec validate r0 st =
     (if rq_Method r0 \<noteq> ''POST'' then (json_err 405 ''method not allowed'', st)
      else let r = r0\<lparr>rq_body_limit := Some (2 ^ 20)\<rparr> in
      case decode_and_validate codec ''UserCreateRequest'' validate r of
        Inl reply \<Rightarrow> (reply, st)
      | Inr body \<Rightarrow>
          if \<not> valid_username (ub_Username body) then (json_err 400 usernameInvalidMsg, st)
          else if \<not> valid_role (ub_Role body) then (json_err 400 role_invalid_msg, st)
          else if length (ub_Password body) < 8 then (json_err 400 ''password must be at least 8 characters'', st)
          else
            (case su_hash su (ub_Password body) of
               None \<Rightarrow> (json_err 500 ''could not create user'', st)
             | Some password_hash \<Rightarrow>
                 (case safe_update_config_json su (user_create_update body password_hash) st of
                    (Inl e, st') \<Rightarrow>
                      if e = ErrUserExists then (json_err 409 ''user already exists'', st')
                      else (json_err 500 ''could not create user'', st')
                  | (Inr _, st') \<Rightarrow>
                      (created_reply ([(''role'', JStr (ub_Role body)), (''username'', JStr (ub_Username body))] @ restart_fields su),
                       emit_user_audit (''gateway.users.'' @ ub_Username body) JNull
                         (JObj [(''username'', JStr (ub_Username body)), (''role'', JStr (ub_Role body)),
                                (''password'', JStr (ub_Password body))]) st'))))"

text \<open>The deletion: the entry before the first match, the match, the rest; the last administrator stays.\<close>

definition user_delete_update :: "string \<Rightarrow> json_object \<Rightarrow> account_error + json_object \<times> string" where
  "user_delete_update username m =
     (case gateway_object m of
        None \<Rightarrow> Inl ErrUserAbsent
      | Some gw \<Rightarrow>
          (case map_of gw ''users'' of
             None \<Rightarrow> Inl ErrUserAbsent
           | Some JNull \<Rightarrow> Inl ErrUserAbsent
           | Some (JArr users) \<Rightarrow>
               (case dropWhile (\<lambda>u. \<not> names_user username u) users of
                  [] \<Rightarrow> Inl ErrUserAbsent
                | u # rest \<Rightarrow>
                    let new_users = takeWhile (\<lambda>u. \<not> names_user username u) users @ rest in
                    if count_admins new_users = 0 then Inl ErrLastAdmin
                    else Inr (put_users m gw new_users,
                              case u of JObj um \<Rightarrow> string_field ''role'' um | _ \<Rightarrow> []))
           | _ \<Rightarrow> Inl (OtherError ''gateway.users is not an array'')))"

definition user_error_reply :: "account_error \<Rightarrow> string \<Rightarrow> http_reply" where
  "user_error_reply e failed =
     (if e = ErrLastAdmin then json_err 409 ''cannot leave the deployment with zero administrators''
      else if e = ErrUserAbsent then json_err 404 ''user not found''
      else json_err 500 failed)"

definition handle_user_delete :: "surroundings \<Rightarrow> gateway_state handler" where
  "handle_user_delete su r st =
     (if rq_Method r \<noteq> ''DELETE'' then (json_err 405 ''method not allowed'', st)
      else case extract_username_from_path r ''/api/v1/users/'' of
        Inl msg \<Rightarrow> (json_err 400 msg, st)
      | Inr username \<Rightarrow>
          if \<not> valid_username username then (json_err 400 usernameInvalidMsg, st)
          else
            (case safe_update_config_json su (user_delete_update username) st of
               (Inl e, st') \<Rightarrow> (user_error_reply e ''could not delete user'', st')
             | (Inr removed_role, st') \<Rightarrow>
                 (json_ok ([(''deleted'', JBool True), (''username'', JStr username)] @ restart_fields su),
                  emit_user_audit (''gateway.users.'' @ username)
                    (JObj [(''username'', JStr username), (''role'', JStr removed_role)]) JNull st')))"

definition role_edit :: "string \<Rightarrow> json_object \<Rightarrow> account_error + json_object \<times> string" where
  "role_edit role um = Inr (AList.update ''role'' (JStr role) um, string_field ''role'' um)"

definition change_role_update :: "string \<Rightarrow> string \<Rightarrow> json_object \<Rightarrow> account_error + json_object \<times> string" where
  "change_role_update username role m =
     (case edit_user username ErrUserAbsent (role_edit role) m of
        Inl e \<Rightarrow> Inl e
      | Inr (m', old_role) \<Rightarrow>
          (case map_of (gateway_or_empty m') ''users'' of
             Some (JArr users) \<Rightarrow> if count_admins users = 0 then Inl ErrLastAdmin else Inr (m', old_role)
           | _ \<Rightarrow> Inl ErrLastAdmin))"

definition handle_user_change_role :: "surroundings \<Rightarrow> string body_codec \<Rightarrow> bool \<Rightarrow> gateway_state handler" where
  "handle_user_change_role su codec validate r0 st =
     (if rq_Method r0 \<noteq> ''PATCH'' then (json_err 405 ''method not allowed'', st)
      else case extract_username_from_path r0 ''/api/v1/users/'' of
        Inl msg \<Rightarrow> (json_err 400 msg, st)
      | Inr segment \<Rightarrow>
          let username = trim_suffix segment ''/role''; r = r0\<lparr>rq_body_limit := Some (2 ^ 20)\<rparr> in
          if \<not> valid_username username then (json_err 400 usernameInvalidMsg, st)
          else case decode_and_validate codec ''UserRoleChangeRequest'' validate r of
            Inl reply \<Rightarrow> (reply, st)
          | Inr role \<Rightarrow>
              if \<not> valid_role role then (json_err 400 role_invalid_msg, st)
              else
                (case safe_update_config_json su (change_role_update username role) st of
                   (Inl e, st') \<Rightarrow> (user_error_reply e ''could not change role'', st')
                 | (Inr old_role, st') \<Rightarrow>
                     (json_ok ([(''role'', JStr role), (''username'', JStr username)] @ restart_fields su),
                      emit_user_audit (''gateway.users.'' @ username @ ''.role'') (JStr old_role) (JStr role) st')))"

definition reset_password_edit :: "string \<Rightarrow> json_object \<Rightarrow> account_error + json_object \<times> unit" where
  "reset_password_edit new_hash um =
     Inr (AList.update ''token_hash'' (JStr []) (AList.update ''password_hash'' (JStr new_hash) um), ())"

definition handle_user_reset_password :: "surroundings \<Rightarrow> string body_codec \<Rightarrow> bool \<Rightarrow> gateway_state handler" where
  "handle_user_reset_password su codec validate r0 st =
     (if rq_Method r0 \<noteq> ''PUT'' then (json_err 405 ''method not allowed'', st)
      else case extract_username_from_path r0 ''/api/v1/users/'' of
        Inl msg \<Rightarrow> (json_err 400 msg, st)
      | Inr segment \<Rightarrow>
          let username = trim_suffix segment ''/password''; r = r0\<lparr>rq_body_limit := Some (2 ^ 20)\<rparr> in
          if \<not> valid_username username then (json_err 400 usernameInvalidMsg, st)
          else case decode_and_validate codec ''UserResetPasswordRequest'' validate r of
            Inl reply \<Rightarrow> (reply, st)
          | Inr password \<Rightarrow>
              if length password < 8 then (json_err 400 ''password must be at least 8 characters'', st)
              else case su_hash su password of
                None \<Rightarrow> (json_err 500 ''could not reset password'', st)
              | Some new_hash \<Rightarrow>
                  (case safe_update_config_json su (edit_user username ErrUserAbsent (reset_password_edit new_hash)) st of
                     (Inl e, st') \<Rightarrow>
                       (if e = ErrUserAbsent then json_err 404 ''user not found'' else json_err 500 ''could not reset password'', st')
                   | (Inr _, st') \<Rightarrow>
                       (json_ok ([(''password_reset'', JBool True), (''username'', JStr username)] @ restart_fields su),
                        emit_user_audit (''gateway.users.'' @ username @ ''.password'')
                          (JObj [(''password'', JStr [])]) (JObj [(''password'', JStr password)]) st')))"

definition handle_users_with_param :: "surroundings \<Rightarrow> string body_codec \<Rightarrow> bool \<Rightarrow> gateway_state handler" where
  "handle_users_with_param su codec validate r st =
     (if suffix ''/password'' (rq_Path r) \<and> rq_Method r = ''PUT'' then handle_user_reset_password su codec validate r st
      else if suffix ''/role'' (rq_Path r) \<and> rq_Method r = ''PATCH'' then handle_user_change_role su codec validate r st
      else if rq_Method r = ''DELETE'' then handle_user_delete su r st
      else (json_err 405 ''method not allowed'', st))"

section \<open>What an update does to the users\<close>

definition users_in :: "json_object \<Rightarrow> json list" where
  "users_in m = (case map_of (gateway_or_empty m) ''users'' of Some (JArr users) \<Rightarrow> users | _ \<Rightarrow> [])"

lemma gateway_object_put_users [simp]: "gateway_object (put_users m gw users) = Some (AList.update ''users'' (JArr users) gw)"
  by (simp add: gateway_object_def put_users_def update_conv')

lemma users_in_put_users [simp]: "users_in (put_users m gw users) = users"
  by (simp add: users_in_def gateway_or_empty_def update_conv')

lemma users_or_empty_eq: "users_or_empty (gateway_or_empty m) = Inr users \<Longrightarrow> users_in m = users"
  by (auto simp: users_or_empty_def users_in_def split: option.splits json.splits)

lemma string_field_update [simp]:
  "string_field k (AList.update k' (JStr s) um) = (if k = k' then s else string_field k um)"
  by (simp add: string_field_def update_conv')

lemma names_user_update [simp]:
  "k \<noteq> ''username'' \<Longrightarrow> names_user name (JObj (AList.update k v um)) = names_user name (JObj um)"
  by (simp add: names_user_def update_conv')

lemma count_admins_simps [simp]:
  "count_admins [] = 0" "count_admins (u # us) = (if is_admin_entry u then 1 else 0) + count_admins us"
  "count_admins (us @ vs) = count_admins us + count_admins vs"
  by (simp_all add: count_admins_def)

lemma count_admins_pos: "0 < count_admins us \<longleftrightarrow> list_ex is_admin_entry us"
  by (induction us) auto

text \<open>How an edit turns one entry into another, leaving its neighbours alone.\<close>

definition edited :: "string \<Rightarrow> (json_object \<Rightarrow> account_error + json_object \<times> 'r) \<Rightarrow> json list \<Rightarrow> json list \<Rightarrow> 'r \<Rightarrow> bool" where
  "edited name edit us us' res \<longleftrightarrow>
     (\<exists>before um um' after. us = before @ JObj um # after \<and> us' = before @ JObj um' # after \<and>
        list_all (\<lambda>u. \<not> names_user name u) before \<and> names_user name (JObj um) \<and> edit um = Inr (um', res))"

lemma edit_first_edited: "edit_first name absent edit us = Inr (us', res) \<Longrightarrow> edited name edit us us' res"
proof (induction us arbitrary: us')
  case (Cons u us)
  show ?case
  proof (cases "names_user name u")
    case True
    then obtain um where u: "u = JObj um" by (cases u) (simp_all add: names_user_def)
    with True Cons.prems obtain um' where "edit um = Inr (um', res)" "us' = JObj um' # us"
      by (auto split: sum.splits)
    with True u show ?thesis unfolding edited_def
      by (intro exI [of _ "[]"] exI [of _ um] exI [of _ um'] exI [of _ us]) simp
  next
    case False
    with Cons.prems obtain us1 where e: "edit_first name absent edit us = Inr (us1, res)" and us': "us' = u # us1"
      by (auto split: sum.splits)
    from Cons.IH [OF e] obtain before um um' after where
      "us = before @ JObj um # after" "us1 = before @ JObj um' # after"
      "list_all (\<lambda>u. \<not> names_user name u) before" "names_user name (JObj um)" "edit um = Inr (um', res)"
      unfolding edited_def by blast
    with False us' show ?thesis unfolding edited_def by (intro exI [of _ "u # before"]) auto
  qed
qed simp

lemma edit_user_edited:
  "edit_user name absent edit m = Inr (m', res) \<Longrightarrow> edited name edit (users_in m) (users_in m') res"
  by (auto simp: edit_user_def users_in_def gateway_or_empty_def split: option.splits json.splits sum.splits
      dest!: edit_first_edited)

lemma edited_count:
  assumes "edited name edit us us' res" and "\<And>um um' r. edit um = Inr (um', r) \<Longrightarrow> string_field ''role'' um' = string_field ''role'' um"
  shows "count_admins us' = count_admins us"
  using assms unfolding edited_def by (auto simp: is_admin_entry_def)

text \<open>An update that keeps at least one administrator in every configuration that has one.\<close>

definition keeps_admin :: "(json_object \<Rightarrow> account_error + json_object \<times> 'r) \<Rightarrow> bool" where
  "keeps_admin mutate \<longleftrightarrow>
     (\<forall>m m' res. mutate m = Inr (m', res) \<longrightarrow> 0 < count_admins (users_in m) \<longrightarrow> 0 < count_admins (users_in m'))"

named_theorems keeps "updates that keep an administrator"

lemma keeps_admin_edit [keeps]:
  "(\<And>um um' r. edit um = Inr (um', r) \<Longrightarrow> string_field ''role'' um' = string_field ''role'' um) \<Longrightarrow>
   keeps_admin (edit_user name absent edit)"
  unfolding keeps_admin_def by (metis edit_user_edited edited_count)

lemma keeps_admin_edits [keeps]:
  "keeps_admin (edit_user name absent (login_edit su password token session_hash))"
  "keeps_admin (edit_user name absent logout_edit)"
  "keeps_admin (edit_user name absent (change_password_edit compare current new_hash))"
  "keeps_admin (edit_user name absent (reset_password_edit new_hash))"
  "keeps_admin (edit_user name absent (\<lambda>um. Inr (AList.update ''session_token_hash'' (JStr h) um, ())))"
  by (rule keeps_admin_edit;
      auto simp: login_edit_def logout_edit_def change_password_edit_def reset_password_edit_def Let_def
        split: option.splits json.splits if_splits)+

lemma users_in_array: "map_of (gateway_or_empty m) ''users'' = Some (JArr users) \<Longrightarrow> users_in m = users"
  by (simp add: users_in_def)

lemma keeps_admin_append:
  "(case users_or_empty (gateway_or_empty m) of Inl e \<Rightarrow> Inl e
    | Inr users \<Rightarrow> if c users then Inl e' else Inr (put_users m gw (users @ new), ())) = Inr (m', res) \<Longrightarrow>
   0 < count_admins (users_in m) \<Longrightarrow> 0 < count_admins (users_in m')"
  by (auto split: sum.splits if_splits dest!: users_or_empty_eq)

lemma keeps_admin_updates [keeps]:
  "keeps_admin (register_admin_update new_user)"
  "keeps_admin (user_create_update body h)"
  "keeps_admin (user_delete_update username)"
  "keeps_admin (change_role_update username role)"
proof -
  show "keeps_admin (register_admin_update new_user)" "keeps_admin (user_create_update body h)"
    unfolding keeps_admin_def register_admin_update_def user_create_update_def Let_def
    by (blast intro: keeps_admin_append)+
  show "keeps_admin (user_delete_update username)"
    unfolding keeps_admin_def user_delete_update_def Let_def
    by (auto split: option.splits json.splits if_splits list.splits)
  show "keeps_admin (change_role_update username role)"
    unfolding keeps_admin_def change_role_update_def
    by (auto split: option.splits json.splits if_splits sum.splits dest: users_in_array)
qed

section \<open>Sequences of account requests\<close>

datatype account_call =
    CallLogin "credentials_body body_codec"
  | CallValidate
  | CallRegisterAdmin "credentials_body body_codec"
  | CallLogout
  | CallChangePassword "password_change_body body_codec"
  | CallUsersList
  | CallUserCreate "user_create_body body_codec"
  | CallUsersParam "string body_codec"

fun account_handler :: "surroundings \<Rightarrow> bool \<Rightarrow> account_call \<Rightarrow> gateway_state handler" where
  "account_handler su validate (CallLogin codec) = handle_login su codec validate"
| "account_handler su validate CallValidate = handle_validate_token"
| "account_handler su validate (CallRegisterAdmin codec) = handle_register_admin su codec validate"
| "account_handler su validate CallLogout = handle_logout su"
| "account_handler su validate (CallChangePassword codec) = handle_change_password su codec validate"
| "account_handler su validate CallUsersList = handle_users_list"
| "account_handler su validate (CallUserCreate codec) = handle_user_create su codec validate"
| "account_handler su validate (CallUsersParam codec) = handle_users_with_param su codec validate"

type_synonym account_step = "surroundings \<times> bool \<times> account_call \<times> http_request"

fun run_accounts :: "account_step list \<Rightarrow> gateway_state \<Rightarrow> gateway_state" where
  "run_accounts [] st = st"
| "run_accounts ((su, validate, call, r) # steps) st = run_accounts steps (snd (account_handler su validate call r st))"

definition has_admin :: "gateway_state \<Rightarrow> bool" where
  "has_admin st \<longleftrightarrow> (case gs_disk st of None \<Rightarrow> False | Some m \<Rightarrow> 0 < count_admins (users_in m))"

lemma has_admin_cong: "gs_disk st = gs_disk st' \<Longrightarrow> has_admin st = has_admin st'"
  by (simp add: has_admin_def)

lemma has_admin_frame [simp]:
  "has_admin (st\<lparr>gs_limiter := l\<rparr>) = has_admin st" "has_admin (emit_user_audit res old new st) = has_admin st"
  by (rule has_admin_cong, simp add: emit_user_audit_def split: option.split)+

lemma has_admin_update:
  "keeps_admin mutate \<Longrightarrow> has_admin st \<Longrightarrow> has_admin (snd (safe_update_config_json su mutate st))"
  unfolding has_admin_def keeps_admin_def safe_update_config_json_def
  by (auto split: option.splits sum.splits)

lemma has_admin_updated:
  "safe_update_config_json su mutate st = (out, st') \<Longrightarrow> keeps_admin mutate \<Longrightarrow> has_admin st \<Longrightarrow> has_admin st'"
  using has_admin_update [of mutate st su] by simp

lemma has_admin_handlers:
  assumes "has_admin st"
  shows "has_admin (snd (handle_login su codec1 validate r st))"
    and "has_admin (snd (handle_register_admin su codec1 validate r st))"
    and "has_admin (snd (handle_logout su r st))"
    and "has_admin (snd (handle_change_password su codec2 validate r st))"
    and "has_admin (snd (handle_user_create su codec3 validate r st))"
    and "has_admin (snd (handle_user_delete su r st))"
    and "has_admin (snd (handle_user_change_role su codec4 validate r st))"
    and "has_admin (snd (handle_user_reset_password su codec4 validate r st))"
  unfolding handle_login_def handle_register_admin_def handle_logout_def handle_change_password_def
    handle_user_create_def handle_user_delete_def handle_user_change_role_def handle_user_reset_password_def Let_def
  by (auto simp: assms split: sum.splits option.splits prod.splits if_splits
      elim!: has_admin_updated intro: keeps)

lemma has_admin_step:
  "has_admin st \<Longrightarrow> has_admin (snd (account_handler su validate call r st))"
  by (cases call)
    (simp_all add: has_admin_handlers handle_validate_token_def handle_users_list_def handle_users_with_param_def
      split: option.split)

lemma has_admin_run: "has_admin st \<Longrightarrow> has_admin (run_accounts steps st)"
  by (induction steps st rule: run_accounts.induct) (simp_all add: has_admin_step)

lemma decode_and_validate_refusal:
  "decode_and_validate codec name validate r = Inl reply \<Longrightarrow> rs_status reply \<in> {400, 500}"
  by (auto simp: decode_and_validate_def json_err_def Let_def split: if_splits option.splits prod.splits)

lemma register_admin_refused:
  "0 < count_admins (users_in m) \<Longrightarrow> \<exists>e. register_admin_update new_user m = Inl e"
  by (auto simp: register_admin_update_def Let_def count_admins_pos split: sum.splits dest!: users_or_empty_eq)

lemma register_admin_keeps_state:
  assumes "has_admin st"
  obtains e where "\<And>new_user. safe_update_config_json su (register_admin_update new_user) st = (Inl (e new_user), st)"
proof -
  have "\<exists>e. safe_update_config_json su (register_admin_update new_user) st = (Inl e, st)" for new_user
  proof (cases "gs_disk st")
    case (Some m)
    with assms register_admin_refused [of m new_user] obtain e where "register_admin_update new_user m = Inl e"
      by (auto simp: has_admin_def)
    then show ?thesis by (simp add: safe_update_config_json_def Some)
  qed (simp add: safe_update_config_json_def)
  then show thesis using that by metis
qed

text \<open>
  C12. Once there is an administrator, there always is one, and registration stays closed: after any
  sequence of account requests (logins, logouts, registrations, password changes, creations,
  deletions, role changes and password resets by anyone, with any outcome of disk, reload and random
  source) config.json still holds an administrator, and one more registration is refused and leaves
  the state as it is.
\<close>

theorem registration_stays_closed:
  assumes "has_admin st"
  shows "let st' = run_accounts steps st; (reply, st'') = handle_register_admin su codec validate r st' in
    has_admin st' \<and> rs_status reply \<in> {400, 405, 409, 500} \<and> st'' = st'"
proof -
  have a: "has_admin (run_accounts steps st)" by (rule has_admin_run [OF assms])
  obtain e where e: "\<And>new_user. safe_update_config_json su (register_admin_update new_user) (run_accounts steps st) =
      (Inl (e new_user), run_accounts steps st)" using register_admin_keeps_state [OF a] by metis
  obtain reply st'' where r: "handle_register_admin su codec validate r (run_accounts steps st) = (reply, st'')"
    by fastforce
  then have "rs_status reply \<in> {400, 405, 409, 500} \<and> st'' = run_accounts steps st"
    unfolding handle_register_admin_def e prod.case sum.case
    by (auto simp: json_err_def split: sum.splits option.splits prod.splits if_splits dest: decode_and_validate_refusal)
  with a r show ?thesis by (simp add: Let_def)
qed

section \<open>Who is authenticated after an update\<close>

text \<open>
  What the loader of the configuration keeps of a stored user: a string under the exact name of a
  field becomes that field.
\<close>

definition decodes_entry :: "json \<Rightarrow> user_config \<Rightarrow> bool" where
  "decodes_entry e u =
     (case e of
        JObj um \<Rightarrow>
          (\<forall>s. map_of um ''username'' = Some (JStr s) \<longrightarrow> uc_Username u = s) \<and>
          (\<forall>s. map_of um ''password_hash'' = Some (JStr s) \<longrightarrow> uc_PasswordHash u = s) \<and>
          (\<forall>s. map_of um ''token_hash'' = Some (JStr s) \<longrightarrow> uc_TokenHash u = s) \<and>
          (\<forall>s. map_of um ''session_token_hash'' = Some (JStr s) \<longrightarrow> uc_SessionTokenHash u = s) \<and>
          (\<forall>s. map_of um ''role'' = Some (JStr s) \<longrightarrow> uc_Role u = s)
      | _ \<Rightarrow> True)"

definition loads_users :: "(json_object \<Rightarrow> gateway_config option) \<Rightarrow> bool" where
  "loads_users load \<longleftrightarrow>
     (\<forall>m cfg. load m = Some cfg \<longrightarrow> list_all2 decodes_entry (users_in m) (gc_Users cfg))"

definition authenticates_as :: "bcrypt \<Rightarrow> string \<Rightarrow> string \<Rightarrow> user_config list \<Rightarrow> bool" where
  "authenticates_as compare token name users \<longleftrightarrow>
     (case token_owner compare token users of None \<Rightarrow> False | Some u \<Rightarrow> uc_Username u = name)"

definition cookie_authenticates_as :: "bcrypt \<Rightarrow> http_request \<Rightarrow> string \<Rightarrow> user_config list \<Rightarrow> bool" where
  "cookie_authenticates_as compare r name users \<longleftrightarrow>
     (case resolve_user_from_cookie compare r users of None \<Rightarrow> False | Some u \<Rightarrow> uc_Username u = name)"

lemma no_token_no_authentication:
  "(\<And>u. u \<in> set users \<Longrightarrow> uc_Username u = name \<Longrightarrow> uc_TokenHash u = []) \<Longrightarrow> \<not> authenticates_as compare token name users"
  by (auto simp: authenticates_as_def token_owner_def find_Some_iff hash_verify_def split: option.splits)

lemma no_session_no_authentication:
  "(\<And>u. u \<in> set users \<Longrightarrow> uc_Username u = name \<Longrightarrow> uc_SessionTokenHash u = []) \<Longrightarrow>
   \<not> cookie_authenticates_as compare r name users"
  by (auto simp: cookie_authenticates_as_def resolve_user_from_cookie_def find_Some_iff hash_verify_def
      split: option.splits if_splits)

lemma list_all2_middle:
  "list_all2 P (before @ e # after) us \<Longrightarrow> \<exists>us1 u us2. us = us1 @ u # us2 \<and> P e u"
  by (auto simp: list_all2_append1 list_all2_Cons1)

lemma names_user_JObj: "names_user name (JObj um) \<longleftrightarrow> map_of um ''username'' = Some (JStr name)"
  by (simp add: names_user_def)

definition keeps_name :: "(json_object \<Rightarrow> account_error + json_object \<times> 'r) \<Rightarrow> bool" where
  "keeps_name edit \<longleftrightarrow>
     (\<forall>um um' r. edit um = Inr (um', r) \<longrightarrow> map_of um' ''username'' = map_of um ''username'')"

lemma edits_keep_name:
  "keeps_name logout_edit" "keeps_name (reset_password_edit h)" "keeps_name (login_edit su password token sh)"
  by (auto simp: keeps_name_def logout_edit_def reset_password_edit_def login_edit_def update_conv' Let_def
      split: option.splits json.splits if_splits)

lemma edited_in_memory:
  assumes "edited name edit us us' res" and "list_all2 decodes_entry us' users" and "distinct (map uc_Username users)"
    and keep: "keeps_name edit"
  shows "\<exists>um um' u. edit um = Inr (um', res) \<and> JObj um \<in> set us \<and> names_user name (JObj um) \<and>
    JObj um' \<in> set us' \<and> u \<in> set users \<and> uc_Username u = name \<and> decodes_entry (JObj um') u \<and>
    (\<forall>v \<in> set users. uc_Username v = name \<longrightarrow> v = u)"
proof -
  from assms(1) obtain before um um' after where e: "us = before @ JObj um # after" "us' = before @ JObj um' # after"
    "names_user name (JObj um)" "edit um = Inr (um', res)" unfolding edited_def by blast
  from list_all2_middle [OF assms(2) [unfolded e(2)]] obtain us1 u us2
    where u: "users = us1 @ u # us2" and d: "decodes_entry (JObj um') u" by blast
  have "map_of um' ''username'' = map_of um ''username''" using keep e(4) unfolding keeps_name_def by blast
  also have "\<dots> = Some (JStr name)" using e(3) by (simp only: names_user_JObj)
  finally have "map_of um' ''username'' = Some (JStr name)" .
  with d have n: "uc_Username u = name" by (simp add: decodes_entry_def)
  have m: "u \<in> set users" by (simp add: u)
  have o: "v = u" if "v \<in> set users" "uc_Username v = name" for v
    using inj_onD [of uc_Username "set users" v u] that n m assms(3) by (simp add: distinct_map)
  have "\<forall>v \<in> set users. uc_Username v = name \<longrightarrow> v = u" using o by blast
  moreover have "JObj um \<in> set us" "JObj um' \<in> set us'" by (simp_all add: e(1,2))
  ultimately show ?thesis using e(3,4) m n d by blast
qed

lemma safe_update_success:
  assumes "safe_update_config_json su mutate st = (Inr res, st')"
  obtains m m' cfg where "gs_disk st = Some m" and "mutate m = Inr (m', res)" and "su_load su m' = Some cfg"
    and "st' = st\<lparr>gs_disk := Some m', gs_config := cfg\<rparr>"
  using assms by (auto simp: safe_update_config_json_def split: option.splits sum.splits if_splits prod.splits)

text \<open>
  C14. A logout revokes both credentials: after its 204, on a configuration whose user names are distinct,
  no bearer token and no session cookie authenticates as that user any more.
\<close>

theorem logout_revokes:
  assumes "loads_users (su_load su)" and "handle_logout su r st = (reply, st')" and "rs_status reply = 204"
    and "rq_user r = Some user" and "distinct (map uc_Username (gc_Users (gs_config st')))"
  shows "\<not> authenticates_as compare token (uc_Username user) (gc_Users (gs_config st')) \<and>
    \<not> cookie_authenticates_as compare r' (uc_Username user) (gc_Users (gs_config st'))"
proof -
  let ?name = "uc_Username user"
  from assms(2-4) obtain res where
    "safe_update_config_json su (edit_user ?name (OtherError ''user not found in config'') logout_edit) st = (Inr res, st')"
    by (auto simp: handle_logout_def json_err_def split: if_splits prod.splits sum.splits)
  then obtain m m' cfg where ed: "edit_user ?name (OtherError ''user not found in config'') logout_edit m = (Inr (m', res))"
    and cfg: "su_load su m' = Some cfg" and st': "st' = st\<lparr>gs_disk := Some m', gs_config := cfg\<rparr>"
    by (rule safe_update_success)
  have l: "list_all2 decodes_entry (users_in m') (gc_Users cfg)" using assms(1) cfg by (simp add: loads_users_def)
  have d': "distinct (map uc_Username (gc_Users cfg))" using assms(5) by (simp add: st')
  obtain um um' u where e: "logout_edit um = Inr (um', res)" and "JObj um \<in> set (users_in m)" and "names_user ?name (JObj um)"
    and "JObj um' \<in> set (users_in m')" and "u \<in> set (gc_Users cfg)" and "uc_Username u = ?name" and d: "decodes_entry (JObj um') u"
    and o: "\<And>v. v \<in> set (gc_Users cfg) \<Longrightarrow> uc_Username v = ?name \<Longrightarrow> v = u"
    using edited_in_memory [OF edit_user_edited [OF ed] l d' edits_keep_name(1)] by blast
  from e d have "uc_TokenHash u = [] \<and> uc_SessionTokenHash u = []"
    by (auto simp: logout_edit_def decodes_entry_def update_conv')
  then have z: "uc_TokenHash v = []" "uc_SessionTokenHash v = []"
    if "v \<in> set (gc_Users cfg)" "uc_Username v = ?name" for v using o [OF that] by simp_all
  show ?thesis unfolding st'
    using no_token_no_authentication [OF z(1)] no_session_no_authentication [OF z(2)] by simp
qed

text \<open>
  An administrator's password reset revokes the user's bearer tokens, but not the session cookie: the
  stored session hash is the one it was.
\<close>

theorem password_reset_revokes_bearer:
  assumes "loads_users (su_load su)" and "handle_user_reset_password su codec validate r st = (reply, st')"
    and "rs_status reply = 200" and "extract_username_from_path r ''/api/v1/users/'' = Inr (name @ ''/password'')"
    and "distinct (map uc_Username (gc_Users (gs_config st')))"
  shows "\<not> authenticates_as compare token name (gc_Users (gs_config st')) \<and>
    (\<exists>m m' um um'. gs_disk st = Some m \<and> gs_disk st' = Some m' \<and> JObj um \<in> set (users_in m) \<and>
       JObj um' \<in> set (users_in m') \<and> names_user name (JObj um) \<and>
       map_of um' ''session_token_hash'' = map_of um ''session_token_hash'')"
proof -
  have t: "trim_suffix (name @ ''/password'') ''/password'' = name" by (simp add: trim_suffix_def suffix_def)
  from assms(2-4) obtain new_hash res st1 where
    "safe_update_config_json su (edit_user name ErrUserAbsent (reset_password_edit new_hash)) st = (Inr res, st1)"
    and st1: "gs_disk st' = gs_disk st1" "gs_config st' = gs_config st1"
    by (auto simp: handle_user_reset_password_def t json_err_def emit_user_audit_def Let_def
        split: if_splits prod.splits sum.splits option.splits dest!: decode_and_validate_refusal)
  then obtain m m' cfg where d: "gs_disk st = Some m"
    and ed: "edit_user name ErrUserAbsent (reset_password_edit new_hash) m = (Inr (m', res))"
    and cfg: "su_load su m' = Some cfg" and st': "st1 = st\<lparr>gs_disk := Some m', gs_config := cfg\<rparr>"
    by (metis safe_update_success)
  have l: "list_all2 decodes_entry (users_in m') (gc_Users cfg)" using assms(1) cfg by (simp add: loads_users_def)
  have d': "distinct (map uc_Username (gc_Users cfg))" using assms(5) by (simp add: st1 st')
  obtain um um' u where e1: "reset_password_edit new_hash um = Inr (um', res)" and i1: "JObj um \<in> set (users_in m)"
    and i2: "names_user name (JObj um)" and i3: "JObj um' \<in> set (users_in m')" and "u \<in> set (gc_Users cfg)"
    and "uc_Username u = name" and e2: "decodes_entry (JObj um') u"
    and o: "\<And>v. v \<in> set (gc_Users cfg) \<Longrightarrow> uc_Username v = name \<Longrightarrow> v = u"
    using edited_in_memory [OF edit_user_edited [OF ed] l d' edits_keep_name(2)] by blast
  from e1 e2 have z: "uc_TokenHash u = []" and h: "map_of um' ''session_token_hash'' = map_of um ''session_token_hash''"
    by (auto simp: reset_password_edit_def decodes_entry_def update_conv')
  have "uc_TokenHash v = []" if "v \<in> set (gc_Users cfg)" "uc_Username v = name" for v using o [OF that] z by simp
  then have "\<not> authenticates_as compare token name (gc_Users cfg)" by (rule no_token_no_authentication)
  with i1 i2 i3 h d show ?thesis unfolding st1 st' by auto
qed

text \<open>
  What bcrypt promises for the hashes of this request: a hash is not empty and verifies its plain text.
\<close>

definition hashes_verify :: "surroundings \<Rightarrow> bool" where
  "hashes_verify su \<longleftrightarrow> (\<forall>p h. su_hash su p = Some h \<longrightarrow> h \<noteq> [] \<and> su_compare su h p)"

lemma safe_update_refused:
  "safe_update_config_json su mutate st = (Inl e, st') \<Longrightarrow>
   st' = st \<or> (\<exists>m m' res. gs_disk st = Some m \<and> mutate m = Inr (m', res) \<and> su_load su m' = None)"
  by (auto simp: safe_update_config_json_def split: option.splits sum.splits if_splits prod.splits)

lemma login_success:
  assumes "handle_login su codec validate r st = (reply, st')" and "rs_status reply = 200"
  obtains body token session_token session_hash role st2 where
    "decode_and_validate codec ''LoginRequest'' validate r = Inr body"
    and "fst (login_check (request_ip r) (cb_Username body) (su_now su) (gs_limiter st))"
    and "mint_session_token su 1 = Some (session_token, session_hash)"
    and "safe_update_config_json su (edit_user (cb_Username body) ErrUserNotFound
           (login_edit su (cb_Password body) token session_hash))
           (st\<lparr>gs_limiter := snd (login_check (request_ip r) (cb_Username body) (su_now su) (gs_limiter st))\<rparr>) = (Inr role, st2)"
    and "gs_config st' = gs_config st2"
    and "rs_body reply = JObj [(''role'', JStr role), (''token'', JStr token), (''username'', JStr (cb_Username body))]"
    and "write_session_cookie r session_token \<in> set (rs_cookies reply)" and "role \<noteq> []"
  using assms unfolding handle_login_def start_session_def login_reply_def json_ok_def json_err_def add_cookies_def Let_def
  by (auto split: if_splits prod.splits sum.splits option.splits dest!: decode_and_validate_refusal)

lemma string_field_nonempty: "string_field k um = s \<Longrightarrow> s \<noteq> [] \<Longrightarrow> map_of um k = Some (JStr s)"
  by (auto simp: string_field_def split: option.splits json.splits)

lemma login_edit_result:
  assumes "login_edit su password token session_hash um = Inr (um', role)" and "hashes_verify su"
    and "decodes_entry (JObj um') u" and "role \<noteq> []"
  shows "\<exists>ph. map_of um ''password_hash'' = Some (JStr ph) \<and> su_compare su ph password"
    and "hash_verify (su_compare su) (uc_TokenHash u) token" and "uc_SessionTokenHash u = session_hash"
    and "uc_Role u = role"
proof -
  from assms(1) obtain ph th where ph: "map_of um ''password_hash'' = Some (JStr ph)" "su_compare su ph password"
    and th: "su_hash su token = Some th" and um': "um' = AList.update ''session_token_hash'' (JStr session_hash)
        (AList.update ''token_hash'' (JStr th) um)" and role: "role = string_field ''role'' um'"
    by (auto simp: login_edit_def Let_def split: option.splits json.splits if_splits)
  from ph show "\<exists>ph. map_of um ''password_hash'' = Some (JStr ph) \<and> su_compare su ph password" by blast
  have "map_of um' ''token_hash'' = Some (JStr th)" "map_of um' ''session_token_hash'' = Some (JStr session_hash)"
    by (simp_all add: um' update_conv')
  with assms(3) have t: "uc_TokenHash u = th" and s: "uc_SessionTokenHash u = session_hash"
    by (simp_all add: decodes_entry_def)
  from t th assms(2) show "hash_verify (su_compare su) (uc_TokenHash u) token"
    by (simp add: hash_verify_def hashes_verify_def)
  show "uc_SessionTokenHash u = session_hash" by (rule s)
  from string_field_nonempty [OF role [symmetric] assms(4)] assms(3) show "uc_Role u = role"
    by (simp add: decodes_entry_def)
qed

text \<open>
  C13. A login that succeeds was allowed by the limiter and met a stored user with that name and password;
  and the bearer token and the session cookie it hands out are credentials of that very user, with the
  role the reply names.
\<close>

theorem login_sound:
  assumes "loads_users (su_load su)" and "hashes_verify su" and "handle_login su codec validate r st = (reply, st')"
    and "rs_status reply = 200" and "distinct (map uc_Username (gc_Users (gs_config st')))"
  shows "\<exists>body m um ph token cookie u.
    decode_and_validate codec ''LoginRequest'' validate r = Inr body \<and>
    fst (login_check (request_ip r) (cb_Username body) (su_now su) (gs_limiter st)) \<and>
    gs_disk st = Some m \<and> JObj um \<in> set (users_in m) \<and> names_user (cb_Username body) (JObj um) \<and>
    map_of um ''password_hash'' = Some (JStr ph) \<and> su_compare su ph (cb_Password body) \<and>
    u \<in> set (gc_Users (gs_config st')) \<and> uc_Username u = cb_Username body \<and>
    rs_body reply = JObj [(''role'', JStr (uc_Role u)), (''token'', JStr token), (''username'', JStr (uc_Username u))] \<and>
    hash_verify (su_compare su) (uc_TokenHash u) token \<and>
    cookie \<in> set (rs_cookies reply) \<and> ck_Name cookie = SessionCookieName \<and> ck_HttpOnly cookie \<and>
    hash_verify (su_compare su) (uc_SessionTokenHash u) (ck_Value cookie)"
proof -
  obtain body token session_token session_hash role st2 where
    b: "decode_and_validate codec ''LoginRequest'' validate r = Inr body"
    and l: "fst (login_check (request_ip r) (cb_Username body) (su_now su) (gs_limiter st))"
    and mint: "mint_session_token su 1 = Some (session_token, session_hash)"
    and upd: "safe_update_config_json su (edit_user (cb_Username body) ErrUserNotFound
           (login_edit su (cb_Password body) token session_hash))
           (st\<lparr>gs_limiter := snd (login_check (request_ip r) (cb_Username body) (su_now su) (gs_limiter st))\<rparr>) = (Inr role, st2)"
    and c: "gs_config st' = gs_config st2"
    and rb: "rs_body reply = JObj [(''role'', JStr role), (''token'', JStr token), (''username'', JStr (cb_Username body))]"
    and ck: "write_session_cookie r session_token \<in> set (rs_cookies reply)" and ro: "role \<noteq> []"
    by (rule login_success [OF assms(3,4)])
  let ?st1 = "st\<lparr>gs_limiter := snd (login_check (request_ip r) (cb_Username body) (su_now su) (gs_limiter st))\<rparr>"
  obtain m m' cfg where d1: "gs_disk ?st1 = Some m"
    and ed: "edit_user (cb_Username body) ErrUserNotFound (login_edit su (cb_Password body) token session_hash) m = Inr (m', role)"
    and cfg: "su_load su m' = Some cfg" and "st2 = ?st1\<lparr>gs_disk := Some m', gs_config := cfg\<rparr>"
    by (rule safe_update_success [OF upd])
  then have d: "gs_disk st = Some m" and st2: "gs_config st2 = cfg" by simp_all
  have lu: "list_all2 decodes_entry (users_in m') (gc_Users cfg)" using assms(1) cfg by (simp add: loads_users_def)
  have di: "distinct (map uc_Username (gc_Users cfg))" using assms(5) by (simp add: c st2)
  obtain um um' u where e: "login_edit su (cb_Password body) token session_hash um = Inr (um', role)"
    and i: "JObj um \<in> set (users_in m)" "names_user (cb_Username body) (JObj um)" "u \<in> set (gc_Users cfg)"
      "uc_Username u = cb_Username body" and dec: "decodes_entry (JObj um') u"
    using edited_in_memory [OF edit_user_edited [OF ed] lu di edits_keep_name(3)] by blast
  note res = login_edit_result [OF e assms(2) dec ro]
  from res(1) obtain ph where ph: "map_of um ''password_hash'' = Some (JStr ph)" "su_compare su ph (cb_Password body)" by blast
  from mint assms(2) have "hash_verify (su_compare su) session_hash session_token"
    by (auto simp: mint_session_token_def hash_verify_def hashes_verify_def Let_def split: option.splits)
  then have "hash_verify (su_compare su) (uc_SessionTokenHash u) (ck_Value (write_session_cookie r session_token))"
    by (simp add: res(3) write_session_cookie_def session_cookie_def)
  moreover have "ck_Name (write_session_cookie r session_token) = SessionCookieName"
    "ck_HttpOnly (write_session_cookie r session_token)" by (simp_all add: write_session_cookie_def session_cookie_def)
  moreover have "rs_body reply = JObj [(''role'', JStr (uc_Role u)), (''token'', JStr token), (''username'', JStr (uc_Username u))]"
    by (simp add: rb res(4) i(4))
  ultimately show ?thesis using b l d i ph res(2) ck unfolding c st2
    by (intro exI [of _ body] exI [of _ m] exI [of _ um] exI [of _ ph] exI [of _ token]
        exI [of _ "write_session_cookie r session_token"] exI [of _ u] conjI) assumption+
qed

section \<open>A small deployment\<close>

text \<open>Surroundings, state and request with which the properties are exercised.\<close>

definition entry_user :: "json \<Rightarrow> user_config" where
  "entry_user e =
     (case e of
        JObj um \<Rightarrow> \<lparr>uc_Username = string_field ''username'' um, uc_PasswordHash = string_field ''password_hash'' um,
          uc_TokenHash = string_field ''token_hash'' um, uc_SessionTokenHash = string_field ''session_token_hash'' um,
          uc_Role = string_field ''role'' um\<rparr>
      | _ \<Rightarrow> \<lparr>uc_Username = [], uc_PasswordHash = [], uc_TokenHash = [], uc_SessionTokenHash = [], uc_Role = []\<rparr>)"

definition plain_load :: "json_object \<Rightarrow> gateway_config option" where
  "plain_load m = Some \<lparr>gc_Host = ''127.0.0.1'', gc_Port = 5000, gc_PublicURL = [],
     gc_Users = map entry_user (users_in m), gc_DevModeBypass = False, gc_AuthMismatchLogLevel = []\<rparr>"

lemma plain_load_users: "loads_users plain_load"
  by (auto simp: loads_users_def plain_load_def list_all2_map2 decodes_entry_def entry_user_def string_field_def
      intro!: list_all2_refl split: json.splits)

definition plain_surroundings :: surroundings where
  "plain_surroundings = \<lparr>su_load = plain_load, su_write_ok = True, su_reload_ok = True, su_now = 0,
     su_random = (\<lambda>n. Some [int n, 7]), su_hash = (\<lambda>p. Some (''h:'' @ p)), su_compare = (\<lambda>h p. h = ''h:'' @ p)\<rparr>"

lemma plain_surroundings_laws: "loads_users (su_load plain_surroundings)" "hashes_verify plain_surroundings"
  by (simp_all add: plain_surroundings_def plain_load_users hashes_verify_def)

definition two_users :: json_object where
  "two_users = [(''gateway'', JObj [(''users'', JArr
     [admin_entry ''alice'' ''h:secret-a'' ''h:ta'' ''h:sa'',
      JObj [(''username'', JStr ''bob''), (''password_hash'', JStr ''h:secret-b''), (''token_hash'', JStr ''h:tb''),
            (''session_token_hash'', JStr ''h:sb''), (''role'', JStr ''user'')]])])]"

definition two_user_state :: gateway_state where
  "two_user_state = \<lparr>gs_disk = Some two_users, gs_config = the (plain_load two_users),
     gs_limiter = new_login_rate_limiter, gs_audit = None\<rparr>"

definition sample_request :: "string \<Rightarrow> string \<Rightarrow> http_request" where
  "sample_request m path = \<lparr>rq_Method = m, rq_Path = path, rq_Header = [], rq_Cookies = [], rq_TLS = True,
     rq_RemoteAddr = ''10.0.0.9'', rq_Host = ''gw'', rq_Body = [], rq_body_limit = None, rq_role = None,
     rq_user = None, rq_config = None\<rparr>"

definition fixed_codec :: "'a \<Rightarrow> 'a body_codec" where
  "fixed_codec v = \<lparr>bc_read = (\<lambda>_. Some ''{}''), bc_schema = (\<lambda>_. ([], False)), bc_decode = (\<lambda>_. Some v),
     bc_unmarshal = (\<lambda>_. Some v)\<rparr>"

definition as_user :: "string \<Rightarrow> http_request \<Rightarrow> http_request" where
  "as_user name r = r\<lparr>rq_user := Some \<lparr>uc_Username = name, uc_PasswordHash = [], uc_TokenHash = [],
     uc_SessionTokenHash = [], uc_Role = []\<rparr>\<rparr>"

theorem registration_stays_closed_witness:
  "let st' = run_accounts [(plain_surroundings, False, CallLogout, as_user ''alice'' (sample_request ''POST'' [])),
       (plain_surroundings, False, CallUsersParam (fixed_codec ''user''), sample_request ''DELETE'' ''/api/v1/users/alice'')]
       two_user_state;
     (reply, st'') = handle_register_admin plain_surroundings (fixed_codec \<lparr>cb_Username = ''eve'', cb_Password = ''password''\<rparr>)
       False (sample_request ''POST'' []) st'
   in has_admin st' \<and> rs_status reply \<in> {400, 405, 409, 500} \<and> st'' = st'"
  by (rule registration_stays_closed) code_simp

theorem logout_revokes_witness:
  "let st' = snd (handle_logout plain_surroundings (as_user ''alice'' (sample_request ''POST'' [])) two_user_state) in
   authenticates_as (su_compare plain_surroundings) ''ta'' ''alice'' (gc_Users (gs_config two_user_state)) \<and>
   \<not> authenticates_as (su_compare plain_surroundings) ''ta'' ''alice'' (gc_Users (gs_config st')) \<and>
   authenticates_as (su_compare plain_surroundings) ''tb'' ''bob'' (gc_Users (gs_config st'))"
proof -
  let ?r = "as_user ''alice'' (sample_request ''POST'' [])"
  let ?st' = "snd (handle_logout plain_surroundings ?r two_user_state)"
  have s: "rs_status (fst (handle_logout plain_surroundings ?r two_user_state)) = 204" by code_simp
  have u: "rq_user ?r = Some \<lparr>uc_Username = ''alice'', uc_PasswordHash = [], uc_TokenHash = [],
     uc_SessionTokenHash = [], uc_Role = []\<rparr>" by (simp add: as_user_def)
  have d: "distinct (map uc_Username (gc_Users (gs_config ?st')))" by code_simp
  have a: "authenticates_as (su_compare plain_surroundings) ''ta'' ''alice'' (gc_Users (gs_config two_user_state))"
    "authenticates_as (su_compare plain_surroundings) ''tb'' ''bob'' (gc_Users (gs_config ?st'))" by code_simp+
  from logout_revokes [OF plain_surroundings_laws(1) surjective_pairing s u d] a show ?thesis by (simp add: Let_def)
qed

theorem password_reset_revokes_bearer_witness:
  "let st' = snd (handle_user_reset_password plain_surroundings (fixed_codec ''new-password'') False
       (sample_request ''PUT'' ''/api/v1/users/bob/password'') two_user_state);
       r = (sample_request ''GET'' [])\<lparr>rq_Cookies := [(SessionCookieName, ''sb'')]\<rparr> in
   authenticates_as (su_compare plain_surroundings) ''tb'' ''bob'' (gc_Users (gs_config two_user_state)) \<and>
   \<not> authenticates_as (su_compare plain_surroundings) ''tb'' ''bob'' (gc_Users (gs_config st')) \<and>
   cookie_authenticates_as (su_compare plain_surroundings) r ''bob'' (gc_Users (gs_config st'))"
proof -
  let ?r = "sample_request ''PUT'' ''/api/v1/users/bob/password''"
  let ?h = "handle_user_reset_password plain_surroundings (fixed_codec ''new-password'') False ?r two_user_state"
  have s: "rs_status (fst ?h) = 200" by code_simp
  have p: "extract_username_from_path ?r ''/api/v1/users/'' = Inr (''bob'' @ ''/password'')" by code_simp
  have d: "distinct (map uc_Username (gc_Users (gs_config (snd ?h))))" by code_simp
  have a: "authenticates_as (su_compare plain_surroundings) ''tb'' ''bob'' (gc_Users (gs_config two_user_state))"
    "cookie_authenticates_as (su_compare plain_surroundings) ((sample_request ''GET'' [])\<lparr>rq_Cookies := [(SessionCookieName, ''sb'')]\<rparr>)
       ''bob'' (gc_Users (gs_config (snd ?h)))" by code_simp+
  from password_reset_revokes_bearer [OF plain_surroundings_laws(1) surjective_pairing s p d] a
  show ?thesis by (simp add: Let_def)
qed

theorem login_sound_witness:
  "\<exists>u token. u \<in> set (gc_Users (gs_config (snd (handle_login plain_surroundings
       (fixed_codec \<lparr>cb_Username = ''bob'', cb_Password = ''secret-b''\<rparr>) False (sample_request ''POST'' []) two_user_state)))) \<and>
     hash_verify (su_compare plain_surroundings) (uc_TokenHash u) token"
proof -
  let ?h = "handle_login plain_surroundings (fixed_codec \<lparr>cb_Username = ''bob'', cb_Password = ''secret-b''\<rparr>) False
       (sample_request ''POST'' []) two_user_state"
  have s: "rs_status (fst ?h) = 200" by code_simp
  have d: "distinct (map uc_Username (gc_Users (gs_config (snd ?h))))" by code_simp
  from login_sound [OF plain_surroundings_laws surjective_pairing s d] show ?thesis by blast
qed

text \<open>
  Registering the first administrator does not look at the names already taken: next to a plain user
  \<open>bob\<close> it adds a second \<open>bob\<close>, whose password then opens nothing, as a login stops at the first.
\<close>

lemma register_admin_duplicates_name:
  "\<exists>m'. register_admin_update (admin_entry ''bob'' ''h:x'' ''h:y'' ''h:z'')
      [(''gateway'', JObj [(''users'', JArr [JObj [(''username'', JStr ''bob''), (''role'', JStr ''user'')]])])] = Inr (m', ()) \<and>
    length (filter (names_user ''bob'') (users_in m')) = 2"
  by (intro exI conjI) code_simp+

end
