(* ===== verification/Config_Update.thy ===== *)
theory Config_Update
  imports Gateway_Users
begin

text \<open>
  The generic configuration endpoint (\<open>HandleConfig\<close>, \<open>updateConfig\<close>, \<open>getConfig\<close>,
  \<open>redactSensitiveFields\<close> of pkg/gateway/rest.go) and the walker that keeps it away from the paths
  with endpoints of their own (pkg/gateway/blocked_paths.go). A JSON object is the association list
  of its members; Go's maps have no order, and nothing here depends on it but which of several
  offending keys an error names.
\<close>

section \<open>Blocked paths\<close>

definition blocked_paths :: "string list" where
  "blocked_paths = [''sandbox'', ''credentials'', ''security'', ''gateway.users'', ''gateway.dev_mode_bypass'']"

function collect_paths_from :: "string \<Rightarrow> json \<Rightarrow> string list" where
  "collect_paths_from pre v =
     (if pre \<noteq> [] then [pre] else []) @
     (case v of
        JObj kvs \<Rightarrow>
          concat (map (\<lambda>kv. collect_paths_from (if pre \<noteq> [] then pre @ ''.'' @ fst kv else fst kv) (snd kv)) kvs)
      | _ \<Rightarrow> [])"
  by pat_completeness auto

termination
  by (relation "measure (size \<circ> snd)") (auto simp: less_Suc_eq_le less_imp_le dest: size_snd_member)

declare collect_paths_from.simps [simp del]

definition collect_paths :: "json_object \<Rightarrow> string list" where
  "collect_paths body = collect_paths_from [] (JObj body)"

definition match_blocked_path :: "json_object \<Rightarrow> string list \<Rightarrow> string option" where
  "match_blocked_path body blocked =
     (if body = [] \<or> blocked = [] then None
      else find (\<lambda>bp. bp \<in> set (collect_paths body)) blocked)"

section \<open>Reading the configuration\<close>

definition sensitive_words :: "string list" where
  "sensitive_words = [''key'', ''token'', ''secret'', ''password'', ''credential'', ''api_key'']"

definition sensitive_key :: "string \<Rightarrow> bool" where
  "sensitive_key k \<longleftrightarrow> list_ex (contains_sub (to_lower k)) sensitive_words"

lemma size_json_in_array: "kv \<in> set kvs \<Longrightarrow> snd kv = JArr vs \<Longrightarrow> v \<in> set vs \<Longrightarrow> size v < Suc (size_list (size_prod (\<lambda>_. 0) size) kvs)"
proof -
  assume "kv \<in> set kvs" "snd kv = JArr vs" "v \<in> set vs"
  moreover have "size v \<le> size_list size vs" if "v \<in> set vs" using that by (induction vs) auto
  ultimately show ?thesis using size_snd_member [of kv kvs] by simp
qed

function redact_sensitive_fields :: "json \<Rightarrow> json" where
  "redact_sensitive_fields v =
     (case v of
        JObj kvs \<Rightarrow> JObj (map (\<lambda>kv. (fst kv,
          case snd kv of
            JStr s \<Rightarrow> if sensitive_key (fst kv) \<and> s \<noteq> [] then JStr ''[redacted]'' else JStr s
          | JArr vs \<Rightarrow> JArr (map redact_sensitive_fields vs)
          | sub \<Rightarrow> redact_sensitive_fields (snd kv))) kvs)
      | _ \<Rightarrow> v)"
  by pat_completeness auto

termination
  by (relation "measure size")
    (auto simp: less_Suc_eq_le less_imp_le dest: size_snd_member size_json_in_array)

declare redact_sensitive_fields.simps [simp del]

text \<open>The live configuration as its JSON value is an argument (\<open>json.Marshal\<close>, None when it fails).\<close>

definition get_config :: "(gateway_config \<Rightarrow> json_object option) \<Rightarrow> gateway_state \<Rightarrow> http_reply" where
  "get_config marshal st =
     (case marshal (gs_config st) of
        None \<Rightarrow> json_err 500 ''could not serialize config''
      | Some m \<Rightarrow> (json_ok m)\<lparr>rs_body := redact_sensitive_fields (JObj m)\<rparr>)"

section \<open>Changing the configuration\<close>

definition credential_field :: "string \<Rightarrow> bool" where
  "credential_field k \<longleftrightarrow>
     (let kl = to_lower k in
      kl = ''providers'' \<or> contains_sub kl ''api_key'' \<or> contains_sub kl ''secret'' \<or> contains_sub kl ''password'')"

definition merge_members :: "json_object \<Rightarrow> json_object \<Rightarrow> json_object" where
  "merge_members existing new = fold (\<lambda>kv. AList.update (fst kv) (snd kv)) new existing"

definition merge_update :: "string \<times> json \<Rightarrow> json_object \<Rightarrow> json_object" where
  "merge_update kv m =
     (case (map_of m (fst kv), snd kv) of
        (Some (JObj existing), JObj new) \<Rightarrow> AList.update (fst kv) (JObj (merge_members existing new)) m
      | _ \<Rightarrow> AList.update (fst kv) (snd kv) m)"

definition merge_updates :: "json_object \<Rightarrow> json_object \<Rightarrow> account_error + json_object \<times> unit" where
  "merge_updates updates m = Inr (fold merge_update updates m, ())"

text \<open>
  \<open>updateConfig\<close>. The body arrives decoded: None when it is no JSON object (or cannot be read); the
  object \<open>null\<close> decodes to the empty map.
\<close>

definition update_config ::
  "surroundings \<Rightarrow> (gateway_config \<Rightarrow> json_object option) \<Rightarrow> (string \<Rightarrow> json_object option) \<Rightarrow> gateway_state handler" where
  "update_config su marshal unmarshal r st =
     (case unmarshal (rq_Body r) of
        None \<Rightarrow> (json_err 400 ''invalid JSON body'', st)
      | Some updates \<Rightarrow>
          (case find (\<lambda>kv. credential_field (fst kv)) updates of
             Some kv \<Rightarrow>
               (json_err 403 (''credential field '' @ go_quote (fst kv) @ '' cannot be set via config endpoint''), st)
           | None \<Rightarrow>
               (case match_blocked_path updates blocked_paths of
                  Some path \<Rightarrow>
                    (json_err 403 (path @ '' is a blocked path '' @ [CHR 0xE2, CHR 0x80, CHR 0x94] @ '' use the dedicated endpoint''), st)
                | None \<Rightarrow>
                    (case safe_update_config_json su (merge_updates updates) st of
                       (Inl e, st') \<Rightarrow> (json_err 500 ''could not save config'', st')
                     | (Inr _, st') \<Rightarrow> (get_config marshal st', st')))))"

definition handle_config ::
  "surroundings \<Rightarrow> (gateway_config \<Rightarrow> json_object option) \<Rightarrow> (string \<Rightarrow> json_object option) \<Rightarrow> gateway_state handler" where
  "handle_config su marshal unmarshal r st =
     (if rq_Method r = ''GET'' then (get_config marshal st, st)
      else if rq_Method r = ''PUT'' then require_admin (update_config su marshal unmarshal) r st
      else (json_err 405 ''method not allowed'', st))"

section \<open>What an update can reach\<close>


definition merged :: "json option \<Rightarrow> json \<Rightarrow> json" where
  "merged old v =
     (case (old, v) of (Some (JObj existing), JObj new) \<Rightarrow> JObj (merge_members existing new) | _ \<Rightarrow> v)"




















lemma merge_update_alist: "merge_update kv m = AList.update (fst kv) (merged (map_of m (fst kv)) (snd kv)) m"
  by (simp add: merge_update_def merged_def split: option.split json.split)








section \<open>A deployment emptied by one member\<close>

definition gateway_null_put :: http_request where
  "gateway_null_put = (sample_request ''PUT'' ''/api/v1/config'')\<lparr>rq_role := Some UserRoleAdmin\<rparr>"

definition null_gateway_body :: "string \<Rightarrow> json_object option" where
  "null_gateway_body body = Some [(''gateway'', JNull)]"


text \<open>Nothing fails: files are written, every configuration loads, hashes and random bytes are there.\<close>

definition nothing_fails :: "surroundings \<Rightarrow> bool" where
  "nothing_fails su \<longleftrightarrow> su_write_ok su \<and> (\<forall>m. su_load su m \<noteq> None) \<and> (\<forall>p. su_hash su p \<noteq> None) \<and> (\<forall>n. su_random su n \<noteq> None)"

lemma nothing_fails_results:
  assumes "nothing_fails su"
  shows "\<exists>cfg. su_load su m = Some cfg" "\<exists>h. su_hash su p = Some h" "\<exists>b. su_random su n = Some b"
  using assms by (simp_all add: nothing_fails_def)

text \<open>An empty user list can be registered in.\<close>

lemma registers_in_empty:
  assumes "nothing_fails su" and "gs_disk st = Some m" and "gateway_object m = None"
    and "rq_Method r = ''POST''" and "decode_and_validate codec ''RegisterAdminRequest'' validate r = Inr body"
    and "cb_Username body \<noteq> []" and "8 \<le> length (cb_Password body)"
  shows "rs_status (fst (handle_register_admin su codec validate r st)) = 200 \<and>
    (\<exists>m' h1 h2 h3. gs_disk (snd (handle_register_admin su codec validate r st)) = Some m' \<and>
       users_in m' = [admin_entry (cb_Username body) h1 h2 h3])"
proof -
  note results = nothing_fails_results [OF assms(1)]
  obtain h1 where h1: "su_hash su (cb_Password body) = Some h1" using results(2) by blast
  obtain b0 b1 b2 where b: "su_random su 0 = Some b0" "su_random su 1 = Some b1" "su_random su 2 = Some b2" using results(3) by meson
  obtain token where token: "generate_user_token (su_random su 0) = Some token" by (simp add: b generate_user_token_def)
  obtain h2 where h2: "su_hash su token = Some h2" using results(2) by blast
  obtain h3 where h3: "su_hash su (base64_raw_url b1) = Some h3" using results(2) by blast
  obtain session where session: "mint_session_token su 1 = Some (session, h3)"
    using b(2) h3 by (simp add: mint_session_token_def Let_def)
  obtain csrf where csrf: "issue_csrf_cookie (su_random su 2) r = Some csrf" by (simp add: b issue_csrf_cookie_def)
  let ?m' = "put_users m [] [admin_entry (cb_Username body) h1 h2 h3]"
  have u: "register_admin_update (admin_entry (cb_Username body) h1 h2 h3) m = Inr (?m', ())"
    using assms(3) by (simp add: register_admin_update_def gateway_or_empty_def users_or_empty_def count_admins_def Let_def)
  obtain cfg where cfg: "su_load su ?m' = Some cfg" using results(1) by blast
  have w: "su_write_ok su" using assms(1) by (simp add: nothing_fails_def)
  have "cb_Password body \<noteq> []" "\<not> length (cb_Password body) < 8" using assms(7) by auto
  then show ?thesis
    using assms(2,4-6) h1 token h2 session csrf u cfg w
    by (simp add: handle_register_admin_def safe_update_config_json_def start_session_def login_reply_def json_ok_def add_cookies_def) blast
qed

text \<open>
  C31. The last-administrator rule does not cover the generic endpoint. In every deployment, whoever its users are, an
  administrator's \<open>PUT /api/v1/config\<close> with the body \<open>{"gateway": null}\<close> is accepted and deletes every account, and
  the anonymous registration is open again: whoever sends a valid registration next becomes the only user, an
  administrator.
\<close>

theorem null_gateway_reopens_registration:
  assumes "nothing_fails su" and "\<And>cfg. marshal cfg \<noteq> None" and "gs_disk st = Some m"
    and "rq_Method r = ''PUT''" and "rq_role r = Some UserRoleAdmin" and "unmarshal (rq_Body r) = Some [(''gateway'', JNull)]"
    and "rq_Method r' = ''POST''" and "decode_and_validate codec ''RegisterAdminRequest'' validate r' = Inr body"
    and "cb_Username body \<noteq> []" and "8 \<le> length (cb_Password body)"
  shows "let (reply, st1) = handle_config su marshal unmarshal r st;
       (reply', st2) = handle_register_admin su codec validate r' st1
   in rs_status reply = 200 \<and> \<not> has_admin st1 \<and> (\<exists>m1. gs_disk st1 = Some m1 \<and> users_in m1 = []) \<and>
      rs_status reply' = 200 \<and> has_admin st2 \<and>
      (\<exists>m2 h1 h2 h3. gs_disk st2 = Some m2 \<and> users_in m2 = [admin_entry (cb_Username body) h1 h2 h3])"
proof -
  let ?m1 = "AList.update ''gateway'' JNull m"
  have w: "su_write_ok su" using assms(1) by (simp add: nothing_fails_def)
  obtain cfg where cfg: "su_load su ?m1 = Some cfg" using nothing_fails_results(1) [OF assms(1)] by blast
  let ?st1 = "st\<lparr>gs_disk := Some ?m1, gs_config := cfg\<rparr>"
  have c: "\<not> credential_field ''gateway''" "match_blocked_path [(''gateway'', JNull)] blocked_paths = None" "UserRoleAdmin \<noteq> []"
    by code_simp+
  have merge: "fold merge_update [(''gateway'', JNull)] m = ?m1" by (simp add: merge_update_alist merged_def split: option.split json.split)
  obtain mj where mj: "marshal cfg = Some mj" using assms(2) by blast
  have h: "handle_config su marshal unmarshal r st = (get_config marshal ?st1, ?st1)"
    using assms(3-6) c w cfg merge
    by (simp add: handle_config_def require_admin_def update_config_def merge_updates_def safe_update_config_json_def)
  have ok: "rs_status (get_config marshal ?st1) = 200" using mj by (simp add: get_config_def json_ok_def)
  have g: "gateway_object ?m1 = None" by (simp add: gateway_object_def update_conv')
  then have e: "users_in ?m1 = []" by (simp add: users_in_def gateway_or_empty_def)
  then have "\<not> has_admin ?st1" by (simp add: has_admin_def count_admins_def)
  moreover obtain reply' st2 where r: "handle_register_admin su codec validate r' ?st1 = (reply', st2)" by fastforce
  moreover have "rs_status reply' = 200 \<and> (\<exists>m2 h1 h2 h3. gs_disk st2 = Some m2 \<and> users_in m2 = [admin_entry (cb_Username body) h1 h2 h3])"
    using registers_in_empty [OF assms(1) _ g assms(7-10), of ?st1] r by simp
  moreover from this have "has_admin st2"
    by (auto simp: has_admin_def count_admins_def is_admin_entry_def admin_entry_def string_field_def)
  ultimately show ?thesis using ok e unfolding h by (simp add: Let_def)
qed

theorem null_gateway_reopens_registration_witness:
  "let (reply, st1) = handle_config plain_surroundings (\<lambda>_. Some []) null_gateway_body gateway_null_put two_user_state;
       (reply', st2) = handle_register_admin plain_surroundings (fixed_codec \<lparr>cb_Username = ''eve'', cb_Password = ''password''\<rparr>)
         False (sample_request ''POST'' []) st1
   in has_admin two_user_state \<and> rs_status reply = 200 \<and> \<not> has_admin st1 \<and> rs_status reply' = 200 \<and> has_admin st2"
proof -
  have "nothing_fails plain_surroundings" by (simp add: nothing_fails_def plain_surroundings_def plain_load_def)
  moreover have "decode_and_validate (fixed_codec \<lparr>cb_Username = ''eve'', cb_Password = ''password''\<rparr>) ''RegisterAdminRequest'' False
      (sample_request ''POST'' []) = Inr \<lparr>cb_Username = ''eve'', cb_Password = ''password''\<rparr>" by code_simp
  moreover have "has_admin two_user_state" by code_simp
  ultimately show ?thesis
    using null_gateway_reopens_registration [of plain_surroundings "\<lambda>_. Some []" two_user_state two_users gateway_null_put null_gateway_body
        "sample_request ''POST'' []" "fixed_codec \<lparr>cb_Username = ''eve'', cb_Password = ''password''\<rparr>" False
        "\<lparr>cb_Username = ''eve'', cb_Password = ''password''\<rparr>"]
    by (auto simp: Let_def two_user_state_def gateway_null_put_def null_gateway_body_def sample_request_def split: prod.splits)
qed

section \<open>What the endpoint shows\<close>

text \<open>All members of all objects inside a value, and values without an array directly inside an array.\<close>

lemma size_array_member: "v \<in> set vs \<Longrightarrow> size v \<le> size_list size vs"
  by (induction vs) auto

function all_members :: "json \<Rightarrow> (string \<times> json) list" where
  "all_members v =
     (case v of
        JObj kvs \<Rightarrow> concat (map (\<lambda>kv. kv # all_members (snd kv)) kvs)
      | JArr vs \<Rightarrow> concat (map all_members vs)
      | _ \<Rightarrow> [])"
  by pat_completeness auto

termination
  by (relation "measure size") (auto simp: less_Suc_eq_le less_imp_le dest: size_snd_member size_array_member)

declare all_members.simps [simp del]

definition is_array :: "json \<Rightarrow> bool" where
  "is_array v \<longleftrightarrow> (case v of JArr _ \<Rightarrow> True | _ \<Rightarrow> False)"

function flat_arrays :: "json \<Rightarrow> bool" where
  "flat_arrays v =
     (case v of
        JObj kvs \<Rightarrow> list_all (\<lambda>kv. flat_arrays (snd kv)) kvs
      | JArr vs \<Rightarrow> list_all (\<lambda>v. \<not> is_array v \<and> flat_arrays v) vs
      | _ \<Rightarrow> True)"
  by pat_completeness auto

termination
  by (relation "measure size") (auto simp: less_Suc_eq_le less_imp_le dest: size_snd_member size_array_member)

declare flat_arrays.simps [simp del]

definition shown_masked :: "string \<times> json \<Rightarrow> bool" where
  "shown_masked kv \<longleftrightarrow>
     (case snd kv of JStr s \<Rightarrow> (if sensitive_key (fst kv) then s = [] \<or> s = ''[redacted]'' else True) | _ \<Rightarrow> True)"

lemma redacted_members:
  "flat_arrays v \<Longrightarrow> \<not> is_array v \<Longrightarrow> list_all shown_masked (all_members (redact_sensitive_fields v))"
proof (induction v rule: measure_induct_rule [of size])
  case (less v)
  show ?case
  proof (cases v)
    case (JObj kvs)
    have "list_all shown_masked (all_members (snd (redacted_member kv)))" "shown_masked (redacted_member kv)"
      if kv: "kv \<in> set kvs" and r: "redacted_member = (\<lambda>kv. (fst kv,
          case snd kv of JStr s \<Rightarrow> if sensitive_key (fst kv) \<and> s \<noteq> [] then JStr ''[redacted]'' else JStr s
          | JArr vs \<Rightarrow> JArr (map redact_sensitive_fields vs) | sub \<Rightarrow> redact_sensitive_fields (snd kv)))"
      for kv redacted_member
    proof -
      have f: "flat_arrays (snd kv)" using less.prems(1) kv JObj by (simp add: flat_arrays.simps [of "JObj kvs"] list_all_iff)
      have s: "size (snd kv) < size v" using kv JObj size_snd_member [OF kv] by simp
      show "shown_masked (redacted_member kv)"
        by (simp add: r shown_masked_def redact_sensitive_fields.simps [of JNull] redact_sensitive_fields.simps [of "JBool _"]
            redact_sensitive_fields.simps [of "JNum _"] redact_sensitive_fields.simps [of "JObj _"] split: json.splits)
      show "list_all shown_masked (all_members (snd (redacted_member kv)))"
      proof (cases "snd kv")
        case (JArr vs)
        have "list_all shown_masked (all_members (redact_sensitive_fields u))" if u: "u \<in> set vs" for u
          using f u size_json_in_array [OF kv JArr u] JObj less.IH [of u]
          by (simp add: JArr flat_arrays.simps [of "JArr vs"] list_all_iff)
        then show ?thesis by (simp add: r JArr all_members.simps [of "JArr _"] list_all_iff)
      next
        case (JObj kvs')
        with less.IH [OF s f] show ?thesis by (simp add: r is_array_def)
      qed (simp_all add: r all_members.simps redact_sensitive_fields.simps)
    qed
    then show ?thesis
      by (simp add: JObj redact_sensitive_fields.simps [of "JObj kvs"] all_members.simps [of "JObj _"] list_all_iff)
  qed (use less.prems in \<open>simp_all add: redact_sensitive_fields.simps all_members.simps is_array_def\<close>)
qed

text \<open>
  The configuration is shown without its secrets: in the body of the reply, at any depth, a string
  under a name that contains one of the sensitive words is empty or masked, provided no array of the
  configuration stands directly inside another one.
\<close>

theorem shown_config_masked:
  "(case marshal (gs_config st) of None \<Rightarrow> True | Some m \<Rightarrow>
      (if flat_arrays (JObj m) then list_all shown_masked (all_members (rs_body (get_config marshal st))) else True))"
  using redacted_members [of "JObj _"]
  by (auto simp: get_config_def is_array_def split: option.split)

text \<open>Inside nested arrays, and for lists of secrets, nothing is masked.\<close>

lemma nested_secret_shown:
  "redact_sensitive_fields (JObj [(''rows'', JArr [JArr [JObj [(''token'', JStr ''t0'')]]]), (''api_keys'', JArr [JStr ''sk''])]) =
   JObj [(''rows'', JArr [JArr [JObj [(''token'', JStr ''t0'')]]]), (''api_keys'', JArr [JStr ''sk''])]"
  by code_simp

end
