(* ===== verification/Cron_Service.thy ===== *)
theory Cron_Service
  imports Go_Prelude
begin

text \<open>
  The schedule store of pkg/cron/service.go: jobs with their triggers, payloads, run state and inline
  history, and the operations of \<open>CronService\<close> on them. Each operation is the body of one
  critical section of \<open>cs.mu\<close>: a function of the service, the world at that moment (the clock
  in milliseconds, whether the store file can be written, the next random id) and its arguments. The
  cron-expression library is the parameter \<open>tick\<close>: the first time after a given one that
  matches an expression, \<^const>\<open>None\<close> on an error. The store file holds the job list itself: the
  JSON text between is the encoder's and decoder's business. Counters are \<^typ>\<open>nat\<close>, times are
  \<^typ>\<open>int\<close> and sums of times wrap as int64 does.
\<close>

section \<open>Jobs\<close>

record cron_schedule =
  sc_Kind :: string
  sc_AtMS :: "int option"
  sc_EveryMS :: "int option"
  sc_Expr :: string
  sc_TZ :: string

record cron_payload =
  cp_Kind :: string
  cp_Message :: string
  cp_Command :: string
  cp_Deliver :: bool
  cp_Channel :: string
  cp_To :: string

record cron_run_record =
  rr_RanAtMs :: int
  rr_Status :: string
  rr_Error :: string
  rr_SessionID :: string
  rr_DurationMs :: int

record cron_job_state =
  js_NextRunAtMS :: "int option"
  js_LastRunAtMS :: "int option"
  js_LastStatus :: string
  js_LastError :: string
  js_ConsecutiveFailures :: nat
  js_Running :: bool
  js_RetryAttempt :: nat
  js_History :: "cron_run_record list"

record cron_job =
  cj_ID :: string
  cj_Name :: string
  cj_Enabled :: bool
  cj_Schedule :: cron_schedule
  cj_Payload :: cron_payload
  cj_State :: cron_job_state
  cj_CreatedAtMS :: int
  cj_UpdatedAtMS :: int
  cj_DeleteAfterRun :: bool
  cj_AgentID :: string
  cj_SessionMode :: string
  cj_TimeoutSeconds :: int
  cj_CreatedBy :: string
  cj_SessionID :: string

definition session_mode_valid :: "string \<Rightarrow> bool" where
  "session_mode_valid m \<longleftrightarrow> m \<in> {''isolated'', ''continue'', ''main''}"

definition new_job_state :: cron_job_state where
  "new_job_state =
     \<lparr>js_NextRunAtMS = None, js_LastRunAtMS = None, js_LastStatus = [], js_LastError = [],
      js_ConsecutiveFailures = 0, js_Running = False, js_RetryAttempt = 0, js_History = []\<rparr>"

abbreviation next_run :: "cron_job \<Rightarrow> int option" where "next_run j \<equiv> js_NextRunAtMS (cj_State j)"
abbreviation job_running :: "cron_job \<Rightarrow> bool" where "job_running j \<equiv> js_Running (cj_State j)"

definition on_state :: "(cron_job_state \<Rightarrow> cron_job_state) \<Rightarrow> cron_job \<Rightarrow> cron_job" where
  "on_state f j = j\<lparr>cj_State := f (cj_State j)\<rparr>"

definition set_next_run :: "int option \<Rightarrow> cron_job \<Rightarrow> cron_job" where
  "set_next_run t = on_state (js_NextRunAtMS_update (\<lambda>_. t))"

definition set_running :: "bool \<Rightarrow> cron_job \<Rightarrow> cron_job" where
  "set_running b = on_state (js_Running_update (\<lambda>_. b))"

section \<open>The service and its world\<close>

text \<open>What reading the store file gives; a broken file leaves the jobs decoded before the error.\<close>

datatype cron_file = Absent | Unreadable | Broken "cron_job list" | Stored "cron_job list"

record cron_service =
  cs_jobs :: "cron_job list"
  cs_running :: bool
  cs_laneLive :: bool
  cs_hasRunner :: bool
  cs_defaultAgentID :: string
  cs_maxConcurrentRuns :: nat
  cs_retryBackoffMs :: "int list"
  cs_file :: cron_file

record cron_world =
  cw_now :: int
  cw_writable :: bool
  cw_id :: string

type_synonym ticker = "string \<Rightarrow> int \<Rightarrow> int option"

definition default_max_concurrent_runs :: nat where "default_max_concurrent_runs = 8"
definition run_history_cap :: nat where "run_history_cap = 20"

definition default_retry_backoff_ms :: "int list" where
  "default_retry_backoff_ms = [60000, 120000, 300000]"

definition wrap64 :: "int \<Rightarrow> int" where
  "wrap64 x = (x + 9223372036854775808) mod 18446744073709551616 - 9223372036854775808"

fun load_file :: "cron_file \<Rightarrow> cron_job list \<times> bool" where
  "load_file Absent = ([], True)"
| "load_file Unreadable = ([], False)"
| "load_file (Broken js) = (js, False)"
| "load_file (Stored js) = (js, True)"

definition load_store :: "cron_service \<Rightarrow> cron_service \<times> bool" where
  "load_store sv = (sv\<lparr>cs_jobs := fst (load_file (cs_file sv))\<rparr>, snd (load_file (cs_file sv)))"

definition save_store :: "cron_world \<Rightarrow> cron_service \<Rightarrow> cron_service" where
  "save_store w sv = (if cw_writable w then sv\<lparr>cs_file := Stored (cs_jobs sv)\<rparr> else sv)"

definition new_cron_service :: "cron_file \<Rightarrow> cron_service" where
  "new_cron_service file = fst (load_store
     \<lparr>cs_jobs = [], cs_running = False, cs_laneLive = True, cs_hasRunner = False, cs_defaultAgentID = [],
      cs_maxConcurrentRuns = default_max_concurrent_runs, cs_retryBackoffMs = default_retry_backoff_ms,
      cs_file = file\<rparr>)"

definition set_runner :: "bool \<Rightarrow> cron_service \<Rightarrow> cron_service" where
  "set_runner b sv = sv\<lparr>cs_hasRunner := b\<rparr>"

definition set_max_concurrent_runs :: "int \<Rightarrow> cron_service \<Rightarrow> cron_service" where
  "set_max_concurrent_runs n sv =
     sv\<lparr>cs_maxConcurrentRuns := (if n \<le> 0 then default_max_concurrent_runs else nat n)\<rparr>"

definition set_retry_backoff :: "int list \<Rightarrow> cron_service \<Rightarrow> cron_service" where
  "set_retry_backoff b sv = sv\<lparr>cs_retryBackoffMs := (if b = [] then default_retry_backoff_ms else b)\<rparr>"

section \<open>Lookup and update by id\<close>

text \<open>The loops over the jobs stop at the first one with the id.\<close>

definition find_job :: "string \<Rightarrow> cron_job list \<Rightarrow> cron_job option" where
  "find_job i js = List.find (\<lambda>j. cj_ID j = i) js"

fun modify_job :: "string \<Rightarrow> (cron_job \<Rightarrow> cron_job) \<Rightarrow> cron_job list \<Rightarrow> cron_job list" where
  "modify_job i f [] = []"
| "modify_job i f (j # js) = (if cj_ID j = i then f j # js else j # modify_job i f js)"

definition get_job :: "string \<Rightarrow> cron_service \<Rightarrow> cron_job option" where
  "get_job i sv = find_job i (cs_jobs sv)"

definition modify :: "string \<Rightarrow> (cron_job \<Rightarrow> cron_job) \<Rightarrow> cron_service \<Rightarrow> cron_service" where
  "modify i f sv = sv\<lparr>cs_jobs := modify_job i f (cs_jobs sv)\<rparr>"

section \<open>When a job runs next\<close>

definition compute_next_run :: "ticker \<Rightarrow> cron_schedule \<Rightarrow> int \<Rightarrow> int option" where
  "compute_next_run tick sch now =
     (if sc_Kind sch = ''at'' then
        (case sc_AtMS sch of Some t \<Rightarrow> if now < t then Some t else None | None \<Rightarrow> None)
      else if sc_Kind sch = ''every'' then
        (case sc_EveryMS sch of Some e \<Rightarrow> if e \<le> 0 then None else Some (wrap64 (now + e)) | None \<Rightarrow> None)
      else if sc_Kind sch = ''cron'' then if sc_Expr sch = [] then None else tick (sc_Expr sch) now
      else None)"

definition recompute_next_runs :: "ticker \<Rightarrow> cron_world \<Rightarrow> cron_service \<Rightarrow> cron_service" where
  "recompute_next_runs tick w sv =
     sv\<lparr>cs_jobs := map (\<lambda>j. if cj_Enabled j
        then set_next_run (compute_next_run tick (cj_Schedule j) (cw_now w)) j else j) (cs_jobs sv)\<rparr>"

definition reschedule_skipped :: "ticker \<Rightarrow> cron_world \<Rightarrow> cron_job \<Rightarrow> cron_service \<Rightarrow> cron_service" where
  "reschedule_skipped tick w j sv =
     (if \<not> cj_Enabled j \<or> sc_Kind (cj_Schedule j) = ''at'' then sv
      else save_store w
        (modify (cj_ID j) (set_next_run (compute_next_run tick (cj_Schedule j) (cw_now w))) sv))"

definition remove_job :: "cron_world \<Rightarrow> string \<Rightarrow> cron_service \<Rightarrow> cron_service \<times> bool" where
  "remove_job w i sv =
     (let kept = filter (\<lambda>j. cj_ID j \<noteq> i) (cs_jobs sv);
          removed = length kept < length (cs_jobs sv);
          sv' = sv\<lparr>cs_jobs := kept\<rparr>
      in (if removed then save_store w sv' else sv', removed))"

text \<open>The trigger of a job that has just run; a one-shot job is deleted or disabled.\<close>

definition next_cadence :: "ticker \<Rightarrow> int list \<Rightarrow> cron_world \<Rightarrow> bool \<Rightarrow> cron_job \<Rightarrow> cron_job" where
  "next_cadence tick backoff w transient j =
     (if sc_Kind (cj_Schedule j) = ''at'' then set_next_run None (j\<lparr>cj_Enabled := False\<rparr>)
      else if transient \<and> js_RetryAttempt (cj_State j) < length backoff then
        on_state (\<lambda>st. st\<lparr>js_NextRunAtMS := Some (wrap64 (cw_now w + backoff ! js_RetryAttempt st)),
                         js_RetryAttempt := js_RetryAttempt st + 1\<rparr>) j
      else
        on_state (\<lambda>st. st\<lparr>js_RetryAttempt := 0,
                         js_NextRunAtMS := compute_next_run tick (cj_Schedule j) (cw_now w)\<rparr>) j)"

definition schedule_next_run :: "ticker \<Rightarrow> cron_world \<Rightarrow> bool \<Rightarrow> cron_job \<Rightarrow> cron_service \<Rightarrow> cron_service" where
  "schedule_next_run tick w transient j sv =
     (if sc_Kind (cj_Schedule j) = ''at'' \<and> cj_DeleteAfterRun j then fst (remove_job w (cj_ID j) sv)
      else modify (cj_ID j) (next_cadence tick (cs_retryBackoffMs sv) w transient) sv)"

definition get_next_wake :: "cron_service \<Rightarrow> int option" where
  "get_next_wake sv = fold (\<lambda>j wake. case next_run j of
       None \<Rightarrow> wake
     | Some t \<Rightarrow> if cj_Enabled j then
         (case wake of None \<Rightarrow> Some t | Some u \<Rightarrow> if t < u then Some t else wake) else wake) (cs_jobs sv) None"

text \<open>How long the loop sleeps, in milliseconds, when nothing wakes it.\<close>

definition loop_delay :: "int \<Rightarrow> cron_service \<Rightarrow> int" where
  "loop_delay now sv =
     (case get_next_wake sv of None \<Rightarrow> 3600000 | Some t \<Rightarrow> if t - now \<le> 0 then 0 else t - now)"

section \<open>Start, owners and the operations of the API\<close>

definition migrate_owners :: "cron_world \<Rightarrow> cron_service \<Rightarrow> cron_service" where
  "migrate_owners w sv =
     (if cs_defaultAgentID sv = [] then sv
      else if list_ex (\<lambda>j. cj_AgentID j = []) (cs_jobs sv)
      then save_store w (sv\<lparr>cs_jobs := map (\<lambda>j. if cj_AgentID j = []
        then j\<lparr>cj_AgentID := cs_defaultAgentID sv\<rparr> else j) (cs_jobs sv)\<rparr>)
      else sv)"

definition set_default_agent :: "cron_world \<Rightarrow> string \<Rightarrow> cron_service \<Rightarrow> cron_service" where
  "set_default_agent w a sv = migrate_owners w (sv\<lparr>cs_defaultAgentID := a\<rparr>)"

text \<open>The result is whether the service runs afterwards without an error.\<close>

definition start_service :: "ticker \<Rightarrow> cron_world \<Rightarrow> cron_service \<Rightarrow> cron_service \<times> bool" where
  "start_service tick w sv =
     (if cs_running sv then (sv, True)
      else case load_store sv of
        (sv1, False) \<Rightarrow> (sv1, False)
      | (sv1, True) \<Rightarrow>
          (let sv2 = save_store w (recompute_next_runs tick w (migrate_owners w sv1))
           in if cw_writable w then (sv2\<lparr>cs_laneLive := True, cs_running := True\<rparr>, True) else (sv2, False)))"

definition stop_service :: "cron_service \<Rightarrow> cron_service" where
  "stop_service sv = (if cs_running sv then sv\<lparr>cs_running := False, cs_laneLive := False\<rparr> else sv)"

record job_spec =
  sp_Name :: string
  sp_Schedule :: cron_schedule
  sp_Message :: string
  sp_Command :: string
  sp_Deliver :: bool
  sp_Channel :: string
  sp_To :: string
  sp_AgentID :: string
  sp_SessionMode :: string
  sp_TimeoutSeconds :: int
  sp_CreatedBy :: string
  sp_Enabled :: "bool option"

definition append_job :: "cron_world \<Rightarrow> cron_job \<Rightarrow> cron_service \<Rightarrow> cron_service \<times> cron_job option" where
  "append_job w j sv =
     (save_store w (sv\<lparr>cs_jobs := cs_jobs sv @ [j]\<rparr>), if cw_writable w then Some j else None)"

definition legacy_job :: "ticker \<Rightarrow> cron_world \<Rightarrow> string \<Rightarrow> cron_schedule \<Rightarrow> string \<Rightarrow> bool \<Rightarrow> string \<Rightarrow> string \<Rightarrow> cron_job" where
  "legacy_job tick w name sch msg deliver channel recipient =
     \<lparr>cj_ID = cw_id w, cj_Name = name, cj_Enabled = True, cj_Schedule = sch,
      cj_Payload = \<lparr>cp_Kind = ''agent_turn'', cp_Message = msg, cp_Command = [], cp_Deliver = deliver,
        cp_Channel = channel, cp_To = recipient\<rparr>,
      cj_State = new_job_state\<lparr>js_NextRunAtMS := compute_next_run tick sch (cw_now w)\<rparr>,
      cj_CreatedAtMS = cw_now w, cj_UpdatedAtMS = cw_now w, cj_DeleteAfterRun = (sc_Kind sch = ''at''),
      cj_AgentID = [], cj_SessionMode = [], cj_TimeoutSeconds = 0, cj_CreatedBy = [], cj_SessionID = []\<rparr>"

definition add_job :: "ticker \<Rightarrow> cron_world \<Rightarrow> string \<Rightarrow> cron_schedule \<Rightarrow> string \<Rightarrow> bool \<Rightarrow> string \<Rightarrow> string \<Rightarrow>
    cron_service \<Rightarrow> cron_service \<times> cron_job option" where
  "add_job tick w name sch msg deliver channel recipient =
     append_job w (legacy_job tick w name sch msg deliver channel recipient)"

definition spec_job :: "ticker \<Rightarrow> cron_world \<Rightarrow> job_spec \<Rightarrow> cron_job" where
  "spec_job tick w sp =
     (let enabled = (case sp_Enabled sp of None \<Rightarrow> True | Some b \<Rightarrow> b) in
      \<lparr>cj_ID = cw_id w, cj_Name = sp_Name sp, cj_Enabled = enabled, cj_Schedule = sp_Schedule sp,
       cj_Payload = \<lparr>cp_Kind = ''agent_turn'', cp_Message = sp_Message sp, cp_Command = sp_Command sp,
         cp_Deliver = sp_Deliver sp, cp_Channel = sp_Channel sp, cp_To = sp_To sp\<rparr>,
       cj_State = new_job_state\<lparr>js_NextRunAtMS :=
         (if enabled then compute_next_run tick (sp_Schedule sp) (cw_now w) else None)\<rparr>,
       cj_CreatedAtMS = cw_now w, cj_UpdatedAtMS = cw_now w,
       cj_DeleteAfterRun = (sc_Kind (sp_Schedule sp) = ''at''), cj_AgentID = sp_AgentID sp,
       cj_SessionMode = (if sp_SessionMode sp = [] then ''isolated'' else sp_SessionMode sp),
       cj_TimeoutSeconds = sp_TimeoutSeconds sp, cj_CreatedBy = sp_CreatedBy sp, cj_SessionID = []\<rparr>)"

definition add_job_full :: "ticker \<Rightarrow> cron_world \<Rightarrow> job_spec \<Rightarrow> cron_service \<Rightarrow> cron_service \<times> cron_job option" where
  "add_job_full tick w sp sv =
     (if sp_SessionMode sp \<noteq> [] \<and> \<not> session_mode_valid (sp_SessionMode sp) then (sv, None)
      else append_job w (spec_job tick w sp) sv)"

text \<open>Updating replaces the whole job, its run state included, by the caller's copy.\<close>

definition update_job :: "cron_world \<Rightarrow> cron_job \<Rightarrow> cron_service \<Rightarrow> cron_service \<times> bool" where
  "update_job w j sv =
     (case get_job (cj_ID j) sv of
        None \<Rightarrow> (sv, False)
      | Some _ \<Rightarrow>
          (save_store w (modify (cj_ID j) (\<lambda>_. j\<lparr>cj_UpdatedAtMS := cw_now w\<rparr>) sv), cw_writable w))"

definition enabled_job :: "ticker \<Rightarrow> cron_world \<Rightarrow> bool \<Rightarrow> cron_job \<Rightarrow> cron_job" where
  "enabled_job tick w b j = set_next_run (if b then compute_next_run tick (cj_Schedule j) (cw_now w) else None)
     (j\<lparr>cj_Enabled := b, cj_UpdatedAtMS := cw_now w\<rparr>)"

definition enable_job :: "ticker \<Rightarrow> cron_world \<Rightarrow> string \<Rightarrow> bool \<Rightarrow> cron_service \<Rightarrow> cron_service \<times> cron_job option" where
  "enable_job tick w i b sv =
     (case get_job i sv of
        None \<Rightarrow> (sv, None)
      | Some j \<Rightarrow> (save_store w (modify i (enabled_job tick w b) sv), Some (enabled_job tick w b j)))"

definition list_jobs :: "bool \<Rightarrow> cron_service \<Rightarrow> cron_job list" where
  "list_jobs include_disabled sv =
     (if include_disabled then cs_jobs sv else filter cj_Enabled (cs_jobs sv))"

definition service_status :: "cron_service \<Rightarrow> bool \<times> nat \<times> int option" where
  "service_status sv = (cs_running sv, length (cs_jobs sv), get_next_wake sv)"

section \<open>What each operation changes\<close>

named_theorems cron_frame "fields an operation leaves alone, and jobs it leaves"

abbreviation job_ids :: "cron_service \<Rightarrow> string list" where "job_ids sv \<equiv> map cj_ID (cs_jobs sv)"

text \<open>The store file holds what the service holds.\<close>

definition synced :: "cron_service \<Rightarrow> bool" where
  "synced sv \<longleftrightarrow> fst (load_file (cs_file sv)) = cs_jobs sv"

lemma on_state_simps [simp]:
  "cj_ID (on_state f j) = cj_ID j" "cj_State (on_state f j) = f (cj_State j)"
  "cj_Enabled (on_state f j) = cj_Enabled j" "cj_Schedule (on_state f j) = cj_Schedule j"
  "cj_AgentID (on_state f j) = cj_AgentID j" "cj_DeleteAfterRun (on_state f j) = cj_DeleteAfterRun j"
  "cj_SessionID (on_state f j) = cj_SessionID j" "cj_SessionMode (on_state f j) = cj_SessionMode j"
  by (simp_all add: on_state_def)

lemma set_next_run_simps [simp]:
  "cj_ID (set_next_run t j) = cj_ID j" "next_run (set_next_run t j) = t"
  "cj_Enabled (set_next_run t j) = cj_Enabled j" "cj_Schedule (set_next_run t j) = cj_Schedule j"
  "job_running (set_next_run t j) = job_running j" "cj_AgentID (set_next_run t j) = cj_AgentID j"
  "js_History (cj_State (set_next_run t j)) = js_History (cj_State j)"
  "js_RetryAttempt (cj_State (set_next_run t j)) = js_RetryAttempt (cj_State j)"
  by (simp_all add: set_next_run_def)

lemma set_running_simps [simp]:
  "cj_ID (set_running b j) = cj_ID j" "next_run (set_running b j) = next_run j"
  "cj_Enabled (set_running b j) = cj_Enabled j" "cj_Schedule (set_running b j) = cj_Schedule j"
  "job_running (set_running b j) = b" "cj_AgentID (set_running b j) = cj_AgentID j"
  "js_History (cj_State (set_running b j)) = js_History (cj_State j)"
  "js_RetryAttempt (cj_State (set_running b j)) = js_RetryAttempt (cj_State j)"
  by (simp_all add: set_running_def)

lemma find_job_Some: "find_job i js = Some j \<Longrightarrow> j \<in> set js \<and> cj_ID j = i"
  unfolding find_job_def by (auto simp: find_Some_iff)

lemma find_job_None: "find_job i js = None \<longleftrightarrow> i \<notin> cj_ID ` set js"
  unfolding find_job_def by (auto simp: find_None_iff)

lemma find_job_in: "distinct (map cj_ID js) \<Longrightarrow> j \<in> set js \<Longrightarrow> find_job (cj_ID j) js = Some j"
  unfolding find_job_def by (induction js) (auto simp: rev_image_eqI)

lemma get_job_Some: "get_job i sv = Some j \<Longrightarrow> j \<in> set (cs_jobs sv) \<and> cj_ID j = i"
  unfolding get_job_def by (rule find_job_Some)

lemma get_job_None: "get_job i sv = None \<longleftrightarrow> i \<notin> set (job_ids sv)"
  unfolding get_job_def by (simp add: find_job_None)

lemma modify_job_map:
  "distinct (map cj_ID js) \<Longrightarrow> modify_job i f js = map (\<lambda>j. if cj_ID j = i then f j else j) js"
proof (induction js)
  case (Cons j js)
  have "map (\<lambda>k. if cj_ID k = i then f k else k) js = js" if "cj_ID j = i"
    using Cons.prems that by (intro map_idI) (use image_iff in fastforce)
  then show ?case using Cons by auto
qed simp

lemma modify_job_ids: "(\<And>j. cj_ID j = i \<Longrightarrow> cj_ID (f j) = i) \<Longrightarrow> map cj_ID (modify_job i f js) = map cj_ID js"
  by (induction js) auto

lemma set_modify_job: "j \<in> set (modify_job i f js) \<Longrightarrow> j \<in> set js \<or> (\<exists>k\<in>set js. cj_ID k = i \<and> j = f k)"
  by (induction js) (auto split: if_splits)

lemma find_modify_job:
  "(\<And>j. cj_ID j = i \<Longrightarrow> cj_ID (f j) = i) \<Longrightarrow> find_job i (modify_job i f js) = map_option f (find_job i js)"
  unfolding find_job_def by (induction js) auto

lemma find_modify_other:
  "(\<And>j. cj_ID j = i \<Longrightarrow> cj_ID (f j) = i) \<Longrightarrow> k \<noteq> i \<Longrightarrow> find_job k (modify_job i f js) = find_job k js"
  unfolding find_job_def by (induction js) auto

lemma load_store_simps [simp]:
  "cs_jobs (fst (load_store sv)) = fst (load_file (cs_file sv))"
  "cs_file (fst (load_store sv)) = cs_file sv"
  "cs_running (fst (load_store sv)) = cs_running sv"
  "cs_laneLive (fst (load_store sv)) = cs_laneLive sv"
  "cs_hasRunner (fst (load_store sv)) = cs_hasRunner sv"
  "cs_defaultAgentID (fst (load_store sv)) = cs_defaultAgentID sv"
  "cs_maxConcurrentRuns (fst (load_store sv)) = cs_maxConcurrentRuns sv"
  "cs_retryBackoffMs (fst (load_store sv)) = cs_retryBackoffMs sv"
  by (simp_all add: load_store_def)

lemma save_store_simps [simp]:
  "cs_jobs (save_store w sv) = cs_jobs sv" "cs_running (save_store w sv) = cs_running sv"
  "cs_laneLive (save_store w sv) = cs_laneLive sv" "cs_hasRunner (save_store w sv) = cs_hasRunner sv"
  "cs_defaultAgentID (save_store w sv) = cs_defaultAgentID sv"
  "cs_maxConcurrentRuns (save_store w sv) = cs_maxConcurrentRuns sv"
  "cs_retryBackoffMs (save_store w sv) = cs_retryBackoffMs sv"
  by (simp_all add: save_store_def)

lemma synced_save [simp]: "cw_writable w \<Longrightarrow> synced (save_store w sv)"
  by (simp add: save_store_def synced_def)

lemma modify_simps [simp]:
  "cs_jobs (modify i f sv) = modify_job i f (cs_jobs sv)" "cs_running (modify i f sv) = cs_running sv"
  "cs_laneLive (modify i f sv) = cs_laneLive sv" "cs_hasRunner (modify i f sv) = cs_hasRunner sv"
  "cs_defaultAgentID (modify i f sv) = cs_defaultAgentID sv" "cs_file (modify i f sv) = cs_file sv"
  "cs_maxConcurrentRuns (modify i f sv) = cs_maxConcurrentRuns sv"
  "cs_retryBackoffMs (modify i f sv) = cs_retryBackoffMs sv"
  by (simp_all add: modify_def)

lemma recompute_next_runs_simps [simp]:
  "cs_running (recompute_next_runs tick w sv) = cs_running sv"
  "cs_maxConcurrentRuns (recompute_next_runs tick w sv) = cs_maxConcurrentRuns sv"
  "cs_laneLive (recompute_next_runs tick w sv) = cs_laneLive sv"
  "cs_file (recompute_next_runs tick w sv) = cs_file sv"
  by (simp_all add: recompute_next_runs_def)

definition owned :: "string \<Rightarrow> cron_job \<Rightarrow> cron_job" where
  "owned a j = (if a \<noteq> [] \<and> cj_AgentID j = [] then j\<lparr>cj_AgentID := a\<rparr> else j)"

lemma owned_simps [simp]:
  "cj_ID (owned a j) = cj_ID j" "cj_State (owned a j) = cj_State j" "cj_Enabled (owned a j) = cj_Enabled j"
  "cj_Schedule (owned a j) = cj_Schedule j"
  by (simp_all add: owned_def)

lemma migrate_owners_jobs: "cs_jobs (migrate_owners w sv) = map (owned (cs_defaultAgentID sv)) (cs_jobs sv)"
  by (auto simp: migrate_owners_def owned_def list_ex_iff intro!: map_idI [symmetric])

lemma migrate_owners_simps [simp]:
  "cs_running (migrate_owners w sv) = cs_running sv" "cs_laneLive (migrate_owners w sv) = cs_laneLive sv"
  "cs_maxConcurrentRuns (migrate_owners w sv) = cs_maxConcurrentRuns sv"
  by (simp_all add: migrate_owners_def)

lemma synced_migrate: "synced sv \<Longrightarrow> cw_writable w \<Longrightarrow> synced (migrate_owners w sv)"
  by (simp add: migrate_owners_def)

lemma remove_job_simps [simp]:
  "cs_jobs (fst (remove_job w i sv)) = filter (\<lambda>j. cj_ID j \<noteq> i) (cs_jobs sv)"
  "cs_running (fst (remove_job w i sv)) = cs_running sv" "cs_laneLive (fst (remove_job w i sv)) = cs_laneLive sv"
  "cs_maxConcurrentRuns (fst (remove_job w i sv)) = cs_maxConcurrentRuns sv"
  by (simp_all add: remove_job_def Let_def)

lemma synced_remove: "synced sv \<Longrightarrow> cw_writable w \<Longrightarrow> synced (fst (remove_job w i sv))"
  by (auto simp: remove_job_def Let_def synced_def save_store_def intro!: filter_True [symmetric]
      dest: length_filter_less)

lemma reschedule_skipped_simps [simp]:
  "cs_running (reschedule_skipped tick w j sv) = cs_running sv"
  "cs_laneLive (reschedule_skipped tick w j sv) = cs_laneLive sv"
  "cs_maxConcurrentRuns (reschedule_skipped tick w j sv) = cs_maxConcurrentRuns sv"
  by (simp_all add: reschedule_skipped_def)

lemma synced_reschedule: "synced sv \<Longrightarrow> cw_writable w \<Longrightarrow> synced (reschedule_skipped tick w j sv)"
  by (simp add: reschedule_skipped_def)

end
