(* ===== verification/Cron_Lane.thy ===== *)
theory Cron_Lane
  imports Cron_Service
begin

text \<open>
  The parallel lane of pkg/cron/service.go: due jobs are queued, wait for one of the slots of a
  semaphore, run outside the lock, and record their outcome. A lane is the service, the queue of
  goroutines waiting for a slot (with the id of their job and whether the context they wait under is
  cancelled) and the runs that hold a slot. An event is one critical section of the code, so a list of
  events is an interleaving: the runner's work is whatever happens between the event that enters a run
  and the one that finishes it. A dispatched goroutine joins the queue in the event that dispatches it;
  which of the waiting goroutines gets a free slot is the choice of the event.
\<close>

section \<open>One run\<close>

datatype run_error = Deadline string | Transient string | Failed string

type_synonym run_outcome = "string \<times> run_error option"

record lane_run =
  lr_job :: cron_job
  lr_start :: int
  lr_hasRunner :: bool

abbreviation run_id :: "lane_run \<Rightarrow> string" where "run_id r \<equiv> cj_ID (lr_job r)"

text \<open>The first half of \<open>executeJobByID\<close>: the guards, and the mark that the job is running.\<close>

definition begin_run :: "ticker \<Rightarrow> cron_world \<Rightarrow> string \<Rightarrow> cron_service \<Rightarrow> cron_service \<times> lane_run option" where
  "begin_run tick w i sv =
     (case get_job i sv of
        None \<Rightarrow> (sv, None)
      | Some j \<Rightarrow>
          if job_running j then (reschedule_skipped tick w j sv, None)
          else if cs_hasRunner sv \<and> cj_AgentID j = [] then (reschedule_skipped tick w j sv, None)
          else (save_store w (modify i (set_running True) sv),
                Some \<lparr>lr_job = set_running True j, lr_start = cw_now w, lr_hasRunner = cs_hasRunner sv\<rparr>))"

definition run_status :: "run_error option \<Rightarrow> string" where
  "run_status e = (case e of None \<Rightarrow> ''ok'' | Some (Deadline _) \<Rightarrow> ''timeout'' | Some _ \<Rightarrow> ''error'')"

definition run_error_text :: "run_error option \<Rightarrow> string" where
  "run_error_text e = (case e of None \<Rightarrow> [] | Some (Deadline m) \<Rightarrow> m | Some (Transient m) \<Rightarrow> m | Some (Failed m) \<Rightarrow> m)"

definition is_transient :: "run_error option \<Rightarrow> bool" where
  "is_transient e = (case e of Some (Transient _) \<Rightarrow> True | _ \<Rightarrow> False)"

definition run_record :: "cron_world \<Rightarrow> lane_run \<Rightarrow> run_outcome \<Rightarrow> cron_run_record" where
  "run_record w r out =
     \<lparr>rr_RanAtMs = lr_start r, rr_Status = run_status (snd out), rr_Error = run_error_text (snd out),
      rr_SessionID = (if fst out = [] then cj_SessionID (lr_job r) else fst out),
      rr_DurationMs = wrap64 (cw_now w - lr_start r)\<rparr>"

definition capped :: "cron_run_record list \<Rightarrow> cron_run_record list" where
  "capped h = drop (length h - run_history_cap) h"

definition record_state :: "cron_world \<Rightarrow> lane_run \<Rightarrow> run_outcome \<Rightarrow> cron_job_state \<Rightarrow> cron_job_state" where
  "record_state w r out st = st\<lparr>
     js_Running := False,
     js_LastRunAtMS := Some (lr_start r),
     js_LastStatus := run_status (snd out),
     js_LastError := run_error_text (snd out),
     js_ConsecutiveFailures := (if snd out = None then 0 else js_ConsecutiveFailures st + 1),
     js_RetryAttempt := (if snd out = None then 0 else js_RetryAttempt st),
     js_History := capped (js_History st @ [run_record w r out])\<rparr>"

definition record_run :: "cron_world \<Rightarrow> lane_run \<Rightarrow> run_outcome \<Rightarrow> cron_job \<Rightarrow> cron_job" where
  "record_run w r out j = on_state (record_state w r out) (j\<lparr>
     cj_UpdatedAtMS := cw_now w,
     cj_SessionID := (if fst out \<noteq> [] \<and> (cj_SessionMode j = ''continue'' \<or> cj_SessionMode j = ''main'')
                      then fst out else cj_SessionID j)\<rparr>)"

definition clear_running :: "cron_world \<Rightarrow> string \<Rightarrow> cron_service \<Rightarrow> cron_service" where
  "clear_running w i sv =
     (case get_job i sv of
        None \<Rightarrow> sv
      | Some j \<Rightarrow> if job_running j then save_store w (modify i (set_running False) sv) else sv)"

text \<open>
  The second half, with what the runner returned; a panic in it is a \<^const>\<open>Failed\<close>, and without a
  runner a run is a success that does nothing.
\<close>

definition runner_outcome :: "lane_run \<Rightarrow> run_outcome \<Rightarrow> run_outcome" where
  "runner_outcome r out = (if lr_hasRunner r then out else ([], None))"

definition finish_run :: "ticker \<Rightarrow> cron_world \<Rightarrow> lane_run \<Rightarrow> run_outcome \<Rightarrow> cron_service \<Rightarrow> cron_service" where
  "finish_run tick w r out sv =
     (let i = run_id r; out' = runner_outcome r out in
      case get_job i sv of
        None \<Rightarrow> sv
      | Some j \<Rightarrow>
          let j' = record_run w r out' j;
              sv1 = modify i (\<lambda>_. j') sv
          in clear_running w i (save_store w (schedule_next_run tick w (is_transient (snd out')) j' sv1)))"

section \<open>The lane\<close>

record lane_wait =
  lw_id :: string
  lw_cancelled :: bool

record lane =
  ln_service :: cron_service
  ln_queue :: "lane_wait list"
  ln_slots :: "lane_run list"

definition new_lane :: "cron_service \<Rightarrow> lane" where
  "new_lane sv = \<lparr>ln_service = sv, ln_queue = [], ln_slots = []\<rparr>"

definition is_due :: "int \<Rightarrow> cron_job \<Rightarrow> bool" where
  "is_due now j \<longleftrightarrow> cj_Enabled j \<and> (case next_run j of Some t \<Rightarrow> t \<le> now | None \<Rightarrow> False)"

definition due_ids :: "int \<Rightarrow> cron_service \<Rightarrow> string list" where
  "due_ids now sv = map cj_ID (filter (is_due now) (cs_jobs sv))"

definition dispatch :: "cron_service \<Rightarrow> string \<Rightarrow> lane_wait" where
  "dispatch sv i = \<lparr>lw_id = i, lw_cancelled = (\<not> cs_laneLive sv)\<rparr>"

definition run_due_jobs :: "cron_world \<Rightarrow> int \<Rightarrow> lane \<Rightarrow> lane" where
  "run_due_jobs w now s =
     (let sv = ln_service s; due = due_ids now sv in
      if \<not> cs_running sv then s
      else s\<lparr>ln_service := save_store w
               (sv\<lparr>cs_jobs := map (\<lambda>j. if cj_ID j \<in> set due then set_next_run None j else j) (cs_jobs sv)\<rparr>),
             ln_queue := ln_queue s @ map (dispatch sv) due\<rparr>)"

text \<open>A caller of \<open>RunNow\<close> waits in the same queue.\<close>

definition run_now :: "string \<Rightarrow> lane \<Rightarrow> lane" where
  "run_now i s = (case get_job i (ln_service s) of
     None \<Rightarrow> s | Some _ \<Rightarrow> s\<lparr>ln_queue := ln_queue s @ [dispatch (ln_service s) i]\<rparr>)"

definition without :: "nat \<Rightarrow> 'a list \<Rightarrow> 'a list" where
  "without k xs = take k xs @ drop (Suc k) xs"

definition enter :: "ticker \<Rightarrow> cron_world \<Rightarrow> nat \<Rightarrow> lane \<Rightarrow> lane" where
  "enter tick w k s =
     (if k < length (ln_queue s) \<and> length (ln_slots s) < cs_maxConcurrentRuns (ln_service s) then
        (case begin_run tick w (lw_id (ln_queue s ! k)) (ln_service s) of (sv, run) \<Rightarrow>
          s\<lparr>ln_service := sv, ln_queue := without k (ln_queue s),
            ln_slots := ln_slots s @ (case run of None \<Rightarrow> [] | Some r \<Rightarrow> [r])\<rparr>)
      else s)"

definition give_up :: "nat \<Rightarrow> lane \<Rightarrow> lane" where
  "give_up k s =
     (if k < length (ln_queue s) \<and> lw_cancelled (ln_queue s ! k)
      then s\<lparr>ln_queue := without k (ln_queue s)\<rparr> else s)"

definition finish :: "ticker \<Rightarrow> cron_world \<Rightarrow> nat \<Rightarrow> run_outcome \<Rightarrow> lane \<Rightarrow> lane" where
  "finish tick w k out s =
     (if k < length (ln_slots s)
      then s\<lparr>ln_service := finish_run tick w (ln_slots s ! k) out (ln_service s),
             ln_slots := without k (ln_slots s)\<rparr>
      else s)"

definition stop :: "lane \<Rightarrow> lane" where
  "stop s = (if cs_running (ln_service s)
     then s\<lparr>ln_service := stop_service (ln_service s),
            ln_queue := map (lw_cancelled_update (\<lambda>_. True)) (ln_queue s)\<rparr>
     else s)"

datatype cron_event =
    SetRunner bool
  | SetDefaultAgent string
  | Start
  | Stop
  | Due int
  | RunNow string
  | Enter nat
  | GiveUp nat
  | Finish nat run_outcome
  | AddJob string cron_schedule string bool string string
  | AddJobFull job_spec
  | UpdateJob cron_job
  | RemoveJob string
  | EnableJob string bool
  | Restart

text \<open>A restart is a crash followed by a new process: queue and runs are gone, the file remains.\<close>

definition restarted :: "lane \<Rightarrow> lane" where
  "restarted s = (let sv = ln_service s in new_lane
     (new_cron_service (cs_file sv)\<lparr>cs_maxConcurrentRuns := cs_maxConcurrentRuns sv,
        cs_retryBackoffMs := cs_retryBackoffMs sv\<rparr>))"

definition on_service :: "(cron_service \<Rightarrow> cron_service) \<Rightarrow> lane \<Rightarrow> lane" where
  "on_service f s = s\<lparr>ln_service := f (ln_service s)\<rparr>"

fun cron_step :: "ticker \<Rightarrow> cron_world \<Rightarrow> cron_event \<Rightarrow> lane \<Rightarrow> lane" where
  "cron_step tick w (SetRunner b) s = on_service (set_runner b) s"
| "cron_step tick w (SetDefaultAgent a) s = on_service (set_default_agent w a) s"
| "cron_step tick w Start s = on_service (fst \<circ> start_service tick w) s"
| "cron_step tick w Stop s = stop s"
| "cron_step tick w (Due now) s = run_due_jobs w now s"
| "cron_step tick w (RunNow i) s = run_now i s"
| "cron_step tick w (Enter k) s = enter tick w k s"
| "cron_step tick w (GiveUp k) s = give_up k s"
| "cron_step tick w (Finish k out) s = finish tick w k out s"
| "cron_step tick w (AddJob n sch m d c t) s = on_service (fst \<circ> add_job tick w n sch m d c t) s"
| "cron_step tick w (AddJobFull sp) s = on_service (fst \<circ> add_job_full tick w sp) s"
| "cron_step tick w (UpdateJob j) s = on_service (fst \<circ> update_job w j) s"
| "cron_step tick w (RemoveJob i) s = on_service (fst \<circ> remove_job w i) s"
| "cron_step tick w (EnableJob i b) s = on_service (fst \<circ> enable_job tick w i b) s"
| "cron_step tick w Restart s = restarted s"

text \<open>What \<open>RunNow\<close> tells its caller, from the histories before it queued and after its turn.\<close>

definition run_state_snapshot :: "string \<Rightarrow> cron_service \<Rightarrow> nat \<times> cron_run_record" where
  "run_state_snapshot i sv =
     (let zero = \<lparr>rr_RanAtMs = 0, rr_Status = [], rr_Error = [], rr_SessionID = [], rr_DurationMs = 0\<rparr> in
      case get_job i sv of
        None \<Rightarrow> (0, zero)
      | Some j \<Rightarrow> (let h = js_History (cj_State j) in if h = [] then (0, zero) else (length h, last h)))"

text \<open>Status, session and error text; no text means no error.\<close>

definition run_now_verdict :: "string \<Rightarrow> cron_service \<Rightarrow> cron_service \<Rightarrow> string \<times> string \<times> string option" where
  "run_now_verdict i before after =
     (case (run_state_snapshot i before, run_state_snapshot i after) of ((n, r), (n', r')) \<Rightarrow>
        if n' > n \<or> rr_RanAtMs r' \<noteq> rr_RanAtMs r then
          (if rr_Status r' = ''error'' \<or> rr_Status r' = ''timeout''
           then (rr_Status r', rr_SessionID r', Some (if rr_Error r' = [] then ''run failed'' else rr_Error r'))
           else (''ok'', rr_SessionID r', None))
        else (''skipped'', [], None))"

end
