(* ===== verification/Cron_Runs.thy ===== *)
theory Cron_Runs
  imports Cron_Lane
begin

text \<open>
  What holds of the schedules of pkg/cron/service.go over every interleaving of their events: the
  bound of the lane and the overlap guard, the survival of recurring schedules, the history and retry
  bounds (one contract on jobs, kept by every operation), the outcome of a run, and what a crash during
  a run does to its schedule.
\<close>

section \<open>Reachable lanes\<close>

definition run_ids :: "lane \<Rightarrow> string list" where
  "run_ids s = map run_id (ln_slots s)"

definition unused :: "string \<Rightarrow> lane \<Rightarrow> bool" where
  "unused i s \<longleftrightarrow> i \<notin> set (job_ids (ln_service s)) \<and> i \<notin> set (run_ids s)"

text \<open>
  Random ids are new, writes succeed, and nobody replaces a whole job: replacing one overwrites its run
  state by an older copy.
\<close>

definition proper :: "cron_world \<Rightarrow> cron_event \<Rightarrow> lane \<Rightarrow> bool" where
  "proper w e s \<longleftrightarrow> cw_writable w \<and>
     (case e of
        AddJob _ _ _ _ _ _ \<Rightarrow> unused (cw_id w) s
      | AddJobFull _ \<Rightarrow> unused (cw_id w) s
      | UpdateJob _ \<Rightarrow> False
      | _ \<Rightarrow> True)"

inductive reached :: "ticker \<Rightarrow> lane \<Rightarrow> lane \<Rightarrow> bool" for tick s0 where
  reached_here: "reached tick s0 s0"
| reached_step: "reached tick s0 s \<Longrightarrow> proper w e s \<Longrightarrow> reached tick s0 (cron_step tick w e s)"

fun cron_run :: "ticker \<Rightarrow> (cron_world \<times> cron_event) list \<Rightarrow> lane \<Rightarrow> lane" where
  "cron_run tick [] s = s"
| "cron_run tick ((w, e) # es) s = cron_run tick es (cron_step tick w e s)"

fun proper_run :: "ticker \<Rightarrow> (cron_world \<times> cron_event) list \<Rightarrow> lane \<Rightarrow> bool" where
  "proper_run tick [] s \<longleftrightarrow> True"
| "proper_run tick ((w, e) # es) s \<longleftrightarrow> proper w e s \<and> proper_run tick es (cron_step tick w e s)"

lemma reached_run: "reached tick s0 s \<Longrightarrow> proper_run tick es s \<Longrightarrow> reached tick s0 (cron_run tick es s)"
  by (induction tick es s rule: cron_run.induct) (auto intro: reached_step)

text \<open>The lane of a new process.\<close>

definition boot :: "cron_file \<Rightarrow> int \<Rightarrow> int list \<Rightarrow> lane" where
  "boot file n backoff = new_lane (set_retry_backoff backoff (set_max_concurrent_runs n (new_cron_service file)))"

lemma boot_simps [simp]:
  "ln_slots (boot file n b) = []" "ln_queue (boot file n b) = []" "cs_running (ln_service (boot file n b)) = False"
  "cs_jobs (ln_service (boot file n b)) = fst (load_file file)" "cs_file (ln_service (boot file n b)) = file"
  "cs_laneLive (ln_service (boot file n b)) = True"
  by (simp_all add: boot_def new_lane_def new_cron_service_def set_max_concurrent_runs_def set_retry_backoff_def
      load_store_def)

lemma synced_boot [simp]: "synced (ln_service (boot file n b))"
  by (simp add: synced_def)

section \<open>The lane and the overlap guard\<close>

definition tame :: "(cron_job \<Rightarrow> cron_job) \<Rightarrow> bool" where
  "tame g \<longleftrightarrow> (\<forall>j. cj_ID (g j) = cj_ID j \<and> (job_running j \<longrightarrow> job_running (g j)))"

definition evolves :: "cron_service \<Rightarrow> cron_service \<Rightarrow> bool" where
  "evolves sv sv' \<longleftrightarrow> (\<exists>g. tame g \<and> cs_jobs sv' = map g (cs_jobs sv)) \<and> synced sv' \<and>
     cs_maxConcurrentRuns sv' = cs_maxConcurrentRuns sv"

lemma evolvesI: "tame g \<Longrightarrow> cs_jobs sv' = map g (cs_jobs sv) \<Longrightarrow> synced sv' \<Longrightarrow>
    cs_maxConcurrentRuns sv' = cs_maxConcurrentRuns sv \<Longrightarrow> evolves sv sv'"
  unfolding evolves_def by blast

lemma tame_id: "tame (\<lambda>j. j)"
  by (simp add: tame_def)

lemma evolves_same: "cs_jobs sv' = cs_jobs sv \<Longrightarrow> synced sv' \<Longrightarrow>
    cs_maxConcurrentRuns sv' = cs_maxConcurrentRuns sv \<Longrightarrow> evolves sv sv'"
  by (rule evolvesI [OF tame_id]) simp_all

definition guarded :: "lane \<Rightarrow> bool" where
  "guarded s \<longleftrightarrow> distinct (job_ids (ln_service s)) \<and> distinct (run_ids s) \<and>
     (\<forall>j\<in>set (cs_jobs (ln_service s)). cj_ID j \<in> set (run_ids s) \<longrightarrow> job_running j) \<and>
     synced (ln_service s) \<and> length (ln_slots s) \<le> cs_maxConcurrentRuns (ln_service s)"

lemma guarded_evolves:
  "guarded s \<Longrightarrow> evolves (ln_service s) (ln_service s') \<Longrightarrow> ln_slots s' = ln_slots s \<Longrightarrow> guarded s'"
  unfolding guarded_def evolves_def tame_def run_ids_def by (auto simp: comp_def)

lemma guarded_service:
  "guarded s \<Longrightarrow> evolves (ln_service s) (f (ln_service s)) \<Longrightarrow> guarded (on_service f s)"
  by (rule guarded_evolves) (simp_all add: on_service_def)

lemma evolves_set_default_agent:
  "synced sv \<Longrightarrow> cw_writable w \<Longrightarrow> evolves sv (set_default_agent w a sv)"
  unfolding set_default_agent_def
  by (rule evolvesI [where g = "owned a"])
    (auto simp: migrate_owners_jobs tame_def intro!: synced_migrate, simp add: synced_def)

lemma evolves_start:
  assumes "synced sv" "cw_writable w"
  shows "evolves sv (fst (start_service tick w sv))"
proof (cases "cs_running sv \<or> \<not> snd (load_store sv)")
  case True
  then have "fst (start_service tick w sv) = sv \<or> fst (start_service tick w sv) = fst (load_store sv)"
    by (auto simp: start_service_def split: prod.splits)
  then show ?thesis using assms(1) by (auto simp: synced_def intro: evolves_same)
next
  case False
  let ?g = "\<lambda>j. let k = owned (cs_defaultAgentID sv) j in
    if cj_Enabled k then set_next_run (compute_next_run tick (cj_Schedule k) (cw_now w)) k else k"
  let ?sv = "fst (start_service tick w sv)"
  have eq: "?sv = (save_store w (recompute_next_runs tick w (migrate_owners w (fst (load_store sv)))))
      \<lparr>cs_laneLive := True, cs_running := True\<rparr>"
    using False assms(2) by (auto simp: start_service_def Let_def split: prod.splits)
  have "cs_jobs ?sv = map ?g (cs_jobs sv)"
    using assms(1) unfolding eq by (auto simp: recompute_next_runs_def migrate_owners_jobs synced_def Let_def)
  moreover have "tame ?g" by (simp add: tame_def Let_def)
  moreover have "synced ?sv" unfolding eq using assms(2) by (simp add: synced_def save_store_def)
  moreover have "cs_maxConcurrentRuns ?sv = cs_maxConcurrentRuns sv" unfolding eq by simp
  ultimately show ?thesis by (intro evolvesI)
qed

lemma evolves_reschedule:
  assumes "synced sv" "cw_writable w" "distinct (job_ids sv)"
  shows "evolves sv (reschedule_skipped tick w j sv)"
proof (cases "\<not> cj_Enabled j \<or> sc_Kind (cj_Schedule j) = ''at''")
  case True
  then show ?thesis using assms(1) by (simp add: reschedule_skipped_def evolves_same)
next
  case False
  let ?t = "compute_next_run tick (cj_Schedule j) (cw_now w)"
  show ?thesis
    by (rule evolvesI [where g = "\<lambda>k. if cj_ID k = cj_ID j then set_next_run ?t k else k"])
      (use False assms in \<open>auto simp: tame_def reschedule_skipped_def modify_job_map\<close>)
qed

lemma evolves_enable:
  assumes "synced sv" "cw_writable w" "distinct (job_ids sv)"
  shows "evolves sv (fst (enable_job tick w i b sv))"
proof (cases "get_job i sv")
  case None
  then show ?thesis using assms(1) by (simp add: enable_job_def evolves_same)
next
  case (Some j)
  show ?thesis
    by (rule evolvesI [where g = "\<lambda>k. if cj_ID k = i then enabled_job tick w b k else k"])
      (use Some assms in \<open>auto simp: tame_def enable_job_def enabled_job_def modify_job_map\<close>)
qed

lemma evolves_due:
  assumes "synced (ln_service s)" "cw_writable w"
  shows "evolves (ln_service s) (ln_service (run_due_jobs w now s))"
proof (cases "cs_running (ln_service s)")
  case True
  show ?thesis
    by (rule evolvesI [where g = "\<lambda>j. if cj_ID j \<in> set (due_ids now (ln_service s)) then set_next_run None j else j"])
      (use True assms in \<open>auto simp: tame_def run_due_jobs_def Let_def\<close>)
qed (use assms in \<open>simp add: run_due_jobs_def Let_def evolves_same\<close>)

text \<open>Adding a job with a new id, and removing one.\<close>

lemma guarded_append:
  assumes "guarded s" "unused (cj_ID j) s" "cw_writable w"
  shows "guarded (on_service (fst \<circ> append_job w j) s)"
  using assms unfolding guarded_def unused_def append_job_def on_service_def run_ids_def by auto

lemma guarded_remove:
  assumes "guarded s" "cw_writable w"
  shows "guarded (on_service (fst \<circ> remove_job w i) s)"
  using assms unfolding guarded_def on_service_def run_ids_def
  by (auto simp: distinct_map_filter intro: synced_remove)

section \<open>A run begins and ends\<close>

lemma without_set: "set (without k xs) \<subseteq> set xs"
  unfolding without_def by (auto dest: in_set_takeD in_set_dropD)

lemma without_map: "map f (without k xs) = without k (map f xs)"
  unfolding without_def by (simp add: take_map drop_map)

lemma without_split: "k < length xs \<Longrightarrow> \<exists>us vs. xs = us @ xs ! k # vs \<and> without k xs = us @ vs"
  unfolding without_def by (metis id_take_nth_drop)

lemma without_over: "\<not> k < length xs \<Longrightarrow> without k xs = xs"
  unfolding without_def by simp

lemma without_distinct:
  assumes "distinct xs"
  shows "distinct (without k xs)"
proof (cases "k < length xs")
  case True
  then obtain us y vs where "xs = us @ y # vs" "without k xs = us @ vs" using without_split by blast
  then show ?thesis using assms by simp
next
  case False
  then show ?thesis using assms by (simp add: without_over)
qed

lemma without_gone: "distinct xs \<Longrightarrow> k < length xs \<Longrightarrow> xs ! k \<notin> set (without k xs)"
  using without_split [of k xs] by (metis UnE distinct.simps(2) distinct_append disjoint_iff list.set_intros(1) set_append)

lemma without_others: "k < length xs \<Longrightarrow> set xs = insert (xs ! k) (set (without k xs))"
  using without_split [of k xs] by (metis Un_insert_right list.simps(15) set_append)

lemma length_without: "length (without k xs) \<le> length xs"
  unfolding without_def by simp

lemma begin_run_cases:
  obtains (skip) "begin_run tick w i sv = (sv, None)" "get_job i sv = None"
  | (busy) j where "get_job i sv = Some j" "begin_run tick w i sv = (reschedule_skipped tick w j sv, None)"
      "job_running j \<or> cs_hasRunner sv \<and> cj_AgentID j = []"
  | (runs) j where "get_job i sv = Some j" "\<not> job_running j" "cs_hasRunner sv \<longrightarrow> cj_AgentID j \<noteq> []"
      "begin_run tick w i sv = (save_store w (modify i (set_running True) sv),
         Some \<lparr>lr_job = set_running True j, lr_start = cw_now w, lr_hasRunner = cs_hasRunner sv\<rparr>)"
proof (cases "get_job i sv")
  case None
  then show ?thesis by (intro skip) (simp_all add: begin_run_def)
next
  case (Some j)
  then show ?thesis
    by (cases "job_running j"; cases "cs_hasRunner sv \<and> cj_AgentID j = []")
      (rule busy [OF Some] runs [OF Some]; auto simp: begin_run_def)+
qed

lemma guarded_enter:
  assumes "guarded s" "cw_writable w"
  shows "guarded (enter tick w k s)"
proof (cases "k < length (ln_queue s) \<and> length (ln_slots s) < cs_maxConcurrentRuns (ln_service s)")
  case False
  then have "enter tick w k s = s" unfolding enter_def by (simp only: if_False)
  then show ?thesis using assms(1) by (simp only:)
next
  case free: True
  let ?i = "lw_id (ln_queue s ! k)" and ?sv = "ln_service s"
  show ?thesis
  proof (cases rule: begin_run_cases [of tick w ?i ?sv])
    case skip
    then have "guarded (enter tick w k s) = guarded (s\<lparr>ln_queue := without k (ln_queue s)\<rparr>)"
      using free by (simp add: enter_def)
    then show ?thesis using assms(1) by (simp add: guarded_def run_ids_def)
  next
    case (busy j)
    show ?thesis
      by (rule guarded_evolves [OF assms(1)])
        (use free busy assms in \<open>auto simp: enter_def guarded_def intro: evolves_reschedule\<close>)
  next
    case (runs j)
    have j: "j \<in> set (cs_jobs ?sv)" "cj_ID j = ?i" using get_job_Some [OF runs(1)] by auto
    then have "?i \<notin> set (run_ids s)" using assms(1) runs(2) unfolding guarded_def by metis
    then show ?thesis using assms free runs(4) j(2) unfolding guarded_def enter_def run_ids_def
      by (auto simp: modify_job_map comp_def if_distrib cong: if_cong)
  qed
qed

lemma record_run_simps [simp]:
  "cj_ID (record_run w r out j) = cj_ID j" "cj_Enabled (record_run w r out j) = cj_Enabled j"
  "cj_Schedule (record_run w r out j) = cj_Schedule j" "job_running (record_run w r out j) = False"
  "cj_DeleteAfterRun (record_run w r out j) = cj_DeleteAfterRun j"
  "cj_State (record_run w r out j) = record_state w r out (cj_State j)"
  by (simp_all add: record_run_def record_state_def)

lemma next_cadence_simps [simp]:
  "cj_ID (next_cadence tick b w tr j) = cj_ID j" "job_running (next_cadence tick b w tr j) = job_running j"
  "js_History (cj_State (next_cadence tick b w tr j)) = js_History (cj_State j)"
  by (simp_all add: next_cadence_def)

lemma get_job_modify: "(\<And>j. cj_ID j = i \<Longrightarrow> cj_ID (f j) = i) \<Longrightarrow> get_job i (modify i f sv) = map_option f (get_job i sv)"
  unfolding get_job_def modify_simps by (rule find_modify_job)

lemma modify_modify:
  "(\<And>j. cj_ID j = i \<Longrightarrow> cj_ID (f j) = i) \<Longrightarrow> modify_job i g (modify_job i f js) = modify_job i (g \<circ> f) js"
  by (induction js) auto

lemma modify_const: "find_job i js = Some j \<Longrightarrow> modify_job i (\<lambda>_. f j) js = modify_job i f js"
  unfolding find_job_def by (induction js) auto

text \<open>
  The two ways a finished run leaves the store: without its job, or with the outcome recorded and the
  next run set.
\<close>

lemma get_job_save [simp]: "get_job i (save_store w sv) = get_job i sv"
  by (simp add: get_job_def)

lemma get_job_removed: "get_job i (fst (remove_job w i sv)) = None"
  by (auto simp: get_job_None)

lemma clear_running_idle:
  "(\<And>j. get_job i sv = Some j \<Longrightarrow> \<not> job_running j) \<Longrightarrow> clear_running w i sv = sv"
  by (simp add: clear_running_def split: option.split)

definition finished_job :: "ticker \<Rightarrow> int list \<Rightarrow> cron_world \<Rightarrow> lane_run \<Rightarrow> run_outcome \<Rightarrow> cron_job \<Rightarrow> cron_job" where
  "finished_job tick b w r out j = next_cadence tick b w (is_transient (snd out)) (record_run w r out j)"

lemma finish_run_eq:
  assumes "get_job (run_id r) sv = Some j"
  shows "finish_run tick w r out sv =
    (if sc_Kind (cj_Schedule j) = ''at'' \<and> cj_DeleteAfterRun j
     then save_store w (fst (remove_job w (run_id r)
       (modify (run_id r) (record_run w r (runner_outcome r out)) sv)))
     else save_store w (modify (run_id r)
       (finished_job tick (cs_retryBackoffMs sv) w r (runner_outcome r out)) sv))"
proof -
  let ?out = "runner_outcome r out" and ?i = "run_id r"
  let ?j = "record_run w r ?out j" and ?sv = "modify ?i (\<lambda>_. record_run w r ?out j) sv"
  have j: "cj_ID j = ?i" using get_job_Some [OF assms] by simp
  have sv: "?sv = modify ?i (record_run w r ?out) sv"
    using modify_const assms unfolding modify_def get_job_def by metis
  have eq: "finish_run tick w r out sv =
      clear_running w ?i (save_store w (schedule_next_run tick w (is_transient (snd ?out)) ?j ?sv))"
    using assms by (simp add: finish_run_def Let_def)
  show ?thesis
  proof (cases "sc_Kind (cj_Schedule j) = ''at'' \<and> cj_DeleteAfterRun j")
    case True
    then show ?thesis unfolding eq
      by (subst clear_running_idle) (auto simp: schedule_next_run_def j get_job_removed sv)
  next
    case False
    have both: "schedule_next_run tick w (is_transient (snd ?out)) ?j ?sv =
        modify ?i (finished_job tick (cs_retryBackoffMs sv) w r ?out) sv"
    proof -
      have "schedule_next_run tick w (is_transient (snd ?out)) ?j ?sv =
          modify ?i (next_cadence tick (cs_retryBackoffMs sv) w (is_transient (snd ?out)))
            (modify ?i (record_run w r ?out) sv)"
        using False by (auto simp: schedule_next_run_def j sv)
      also have "\<dots> = modify ?i (finished_job tick (cs_retryBackoffMs sv) w r ?out) sv"
        unfolding modify_def by (simp add: modify_modify finished_job_def [abs_def] comp_def)
      finally show ?thesis .
    qed
    have idle: "\<not> job_running k" if "get_job ?i (modify ?i (finished_job tick (cs_retryBackoffMs sv) w r ?out) sv) = Some k" for k
      using that get_job_modify [of ?i "finished_job tick (cs_retryBackoffMs sv) w r ?out" sv] assms
      by (auto simp: finished_job_def record_state_def)
    show ?thesis using False unfolding eq both
      by (subst clear_running_idle) (use idle in auto)
  qed
qed

lemma finish_run_gone: "get_job (run_id r) sv = None \<Longrightarrow> finish_run tick w r out sv = sv"
  by (simp add: finish_run_def Let_def)

text \<open>What a finished run does to the job list: its job is gone or changed in place, all others stay.\<close>

lemma finish_run_jobs:
  assumes "distinct (job_ids sv)"
  shows "cs_jobs (finish_run tick w r out sv) = filter (\<lambda>j. cj_ID j \<noteq> run_id r) (cs_jobs sv) \<or>
    (\<exists>g. (\<forall>j. cj_ID (g j) = cj_ID j) \<and>
       cs_jobs (finish_run tick w r out sv) = map (\<lambda>j. if cj_ID j = run_id r then g j else j) (cs_jobs sv))"
proof (cases "get_job (run_id r) sv")
  case None
  then show ?thesis by (intro disjI2 exI [of _ "\<lambda>j. j"]) (simp add: finish_run_gone)
next
  case (Some j)
  have removed: "filter (\<lambda>j. cj_ID j \<noteq> run_id r) (map (\<lambda>j. if cj_ID j = run_id r then record_run w r ro j else j) js) =
      filter (\<lambda>j. cj_ID j \<noteq> run_id r) js" for ro js
    by (induction js) auto
  show ?thesis
    unfolding finish_run_eq [OF Some]
    by (auto simp: removed modify_job_map [OF assms] finished_job_def
        intro!: exI [of _ "finished_job tick (cs_retryBackoffMs sv) w r (runner_outcome r out)"])
qed

lemma synced_finish:
  "synced sv \<Longrightarrow> cw_writable w \<Longrightarrow> synced (finish_run tick w r out sv)"
  by (cases "get_job (run_id r) sv") (simp_all add: finish_run_gone finish_run_eq)

lemma finish_run_max [simp]: "cs_maxConcurrentRuns (finish_run tick w r out sv) = cs_maxConcurrentRuns sv"
  by (cases "get_job (run_id r) sv") (simp_all add: finish_run_gone finish_run_eq)

lemma guarded_finish:
  assumes "guarded s" "cw_writable w"
  shows "guarded (finish tick w k out s)"
proof (cases "k < length (ln_slots s)")
  case False
  then have "finish tick w k out s = s" unfolding finish_def by (simp only: if_False)
  then show ?thesis using assms(1) by (simp only:)
next
  case True
  let ?r = "ln_slots s ! k" and ?sv = "ln_service s" and ?ids = "run_ids s"
  let ?i = "run_id ?r" and ?sv' = "finish_run tick w ?r out ?sv"
  have s: "distinct (job_ids ?sv)" "distinct ?ids" "synced ?sv"
    "\<forall>j\<in>set (cs_jobs ?sv). cj_ID j \<in> set ?ids \<longrightarrow> job_running j"
    "length (ln_slots s) \<le> cs_maxConcurrentRuns ?sv" using assms(1) by (auto simp: guarded_def)
  have left: "run_ids (finish tick w k out s) = without k ?ids"
    using True by (simp add: finish_def run_ids_def without_map)
  have gone: "?i \<notin> set (without k ?ids)" and sub: "set (without k ?ids) \<subseteq> set ?ids"
    using without_gone [OF s(2), of k] True without_set [of k ?ids] by (auto simp: run_ids_def)
  note sv' = finish_run_jobs [OF s(1), of tick w ?r out] synced_finish [OF s(3) assms(2), of tick ?r out]
  have slots: "length (ln_slots (finish tick w k out s)) \<le> length (ln_slots s)"
    using length_without [of k "ln_slots s"] True by (simp add: finish_def)
  have service: "ln_service (finish tick w k out s) = ?sv'" using True by (simp add: finish_def)
  show ?thesis unfolding guarded_def left service
    using sv' s gone subsetD [OF sub] slots without_distinct [OF s(2), of k]
    by (auto simp: comp_def if_distrib distinct_map_filter cong: if_cong)
qed

lemma guarded_queue: "guarded s \<Longrightarrow> guarded (s\<lparr>ln_queue := q\<rparr>)"
  by (simp add: guarded_def run_ids_def)

lemma guarded_stop: "guarded s \<Longrightarrow> guarded (stop s)"
  by (simp add: stop_def stop_service_def guarded_def run_ids_def synced_def)

lemma guarded_restart:
  assumes "guarded s"
  shows "guarded (restarted s)"
  using assms by (auto simp: guarded_def restarted_def new_lane_def run_ids_def new_cron_service_def synced_def
      load_store_def Let_def)

lemma guarded_step:
  assumes "guarded s" "proper w e s"
  shows "guarded (cron_step tick w e s)"
proof -
  have ok: "cw_writable w" "synced (ln_service s)" "distinct (job_ids (ln_service s))"
    using assms by (auto simp: proper_def guarded_def)
  have due: "guarded (run_due_jobs w now s)" for now
    by (rule guarded_evolves [OF assms(1) evolves_due]) (simp_all add: ok run_due_jobs_def Let_def)
  have full: "guarded (on_service (fst \<circ> add_job_full tick w sp) s)" if "unused (cw_id w) s" for sp
  proof (cases "sp_SessionMode sp \<noteq> [] \<and> \<not> session_mode_valid (sp_SessionMode sp)")
    case True
    then show ?thesis using assms(1) by (simp add: on_service_def add_job_full_def)
  next
    case False
    then have "on_service (fst \<circ> add_job_full tick w sp) s = on_service (fst \<circ> append_job w (spec_job tick w sp)) s"
      by (auto simp: on_service_def add_job_full_def)
    then show ?thesis using guarded_append [OF assms(1) _ ok(1), of "spec_job tick w sp"] that
      by (simp add: spec_job_def Let_def)
  qed
  have legacy: "guarded (on_service (fst \<circ> add_job tick w n sch m d c t) s)" if "unused (cw_id w) s" for n sch m d c t
    using guarded_append [OF assms(1) _ ok(1), of "legacy_job tick w n sch m d c t"] that
    by (simp add: add_job_def [abs_def] legacy_job_def comp_def on_service_def)
  have runner: "evolves (ln_service s) (set_runner b (ln_service s))" for b
    using ok(2) by (simp add: evolves_same set_runner_def synced_def)
  show ?thesis
  proof (cases e)
    case (UpdateJob j)
    then show ?thesis using assms(2) by (simp add: proper_def)
  next
    case (RunNow i)
    then show ?thesis using assms(1) by (simp add: run_now_def guarded_queue split: option.split)
  qed (use assms ok due full legacy runner in \<open>auto simp: proper_def give_up_def guarded_queue
      intro!: guarded_service guarded_stop guarded_enter guarded_finish guarded_remove guarded_restart
        evolves_set_default_agent evolves_start evolves_enable\<close>)
qed

lemma guarded_boot: "distinct (map cj_ID (fst (load_file file))) \<Longrightarrow> guarded (boot file n b)"
  by (simp add: guarded_def run_ids_def)

lemma guarded_reached: "reached tick s0 s \<Longrightarrow> guarded s0 \<Longrightarrow> guarded s"
  by (induction rule: reached.induct) (auto intro: guarded_step)

lemma begin_run_max: "cs_maxConcurrentRuns (fst (begin_run tick w i sv)) = cs_maxConcurrentRuns sv"
  by (rule begin_run_cases [of tick w i sv]) simp_all

lemma enter_max: "cs_maxConcurrentRuns (ln_service (enter tick w k s)) = cs_maxConcurrentRuns (ln_service s)"
  unfolding enter_def using begin_run_max by (auto split: prod.split) (metis fst_conv)

lemma append_job_max [simp]: "cs_maxConcurrentRuns (fst (append_job w j sv)) = cs_maxConcurrentRuns sv"
  by (simp add: append_job_def)

lemma start_service_max: "cs_maxConcurrentRuns (fst (start_service tick w sv)) = cs_maxConcurrentRuns sv"
proof -
  obtain sv1 ok where "load_store sv = (sv1, ok)" by fastforce
  moreover have "cs_maxConcurrentRuns sv1 = cs_maxConcurrentRuns sv"
    using calculation load_store_simps(7) by (metis fst_conv)
  ultimately show ?thesis by (cases ok) (simp_all add: start_service_def Let_def)
qed

lemma max_runs_constant: "cs_maxConcurrentRuns (ln_service (cron_step tick w e s)) = cs_maxConcurrentRuns (ln_service s)"
  by (cases e) (simp_all add: on_service_def set_runner_def set_default_agent_def start_service_max stop_def stop_service_def
      run_due_jobs_def run_now_def enter_max give_up_def finish_def add_job_def add_job_full_def update_job_def
      enable_job_def restarted_def new_lane_def Let_def split: option.split)

lemma max_runs_reached:
  "reached tick s0 s \<Longrightarrow> cs_maxConcurrentRuns (ln_service s) = cs_maxConcurrentRuns (ln_service s0)"
  by (induction rule: reached.induct) (simp_all add: max_runs_constant)

section \<open>Sample worlds and schedules\<close>

definition world_at :: "int \<Rightarrow> cron_world" where
  "world_at t = \<lparr>cw_now = t, cw_writable = True, cw_id = ''j1''\<rparr>"

definition no_ticks :: ticker where "no_ticks _ _ = None"

definition hourly :: job_spec where
  "hourly = \<lparr>sp_Name = ''report'', sp_Schedule = \<lparr>sc_Kind = ''every'', sc_AtMS = None, sc_EveryMS = Some 3600000,
     sc_Expr = [], sc_TZ = []\<rparr>, sp_Message = ''report'', sp_Command = [], sp_Deliver = False, sp_Channel = [],
     sp_To = [], sp_AgentID = ''a'', sp_SessionMode = [], sp_TimeoutSeconds = 0, sp_CreatedBy = ''u'', sp_Enabled = None\<rparr>"

text \<open>An hourly job is created, falls due, enters the lane while a second request for it waits.\<close>

definition busy_trace :: "(cron_world \<times> cron_event) list" where
  "busy_trace = [(world_at 0, Start), (world_at 0, AddJobFull hourly), (world_at 3600000, Due 3600000),
     (world_at 3600000, RunNow ''j1''), (world_at 3600001, Enter 0)]"

lemma busy_reached: "reached no_ticks (boot Absent 2 []) (cron_run no_ticks busy_trace (boot Absent 2 []))"
  by (rule reached_run [OF reached_here]) code_simp

text \<open>
  C18. While the store can be written and new jobs get fresh ids, over every interleaving of starts, stops, crashes,
  due ticks, requests to run now and edits that do not replace a whole job, the lane holds at most its configured number of runs and never two of the
  same job, and a job in the lane is marked as running.
\<close>

theorem lane_bounded_no_overlap:
  assumes "distinct (map cj_ID (fst (load_file file)))"
    and "reached tick (boot file n backoff) s"
  shows "length (ln_slots s) \<le> (if n \<le> 0 then 8 else nat n) \<and> distinct (run_ids s) \<and>
    list_all (\<lambda>j. cj_ID j \<in> set (run_ids s) \<longrightarrow> job_running j) (cs_jobs (ln_service s))"
proof -
  have "guarded s" using guarded_reached [OF assms(2)] guarded_boot [OF assms(1)] by blast
  then show ?thesis using max_runs_reached [OF assms(2)]
    by (simp add: guarded_def list_all_iff boot_def new_lane_def set_max_concurrent_runs_def set_retry_backoff_def
        default_max_concurrent_runs_def split: if_splits)
qed

theorem lane_bounded_no_overlap_witness:
  "let s = cron_run no_ticks busy_trace (boot Absent 2 []) in
   run_ids s = [''j1''] \<and> length (ln_queue s) = 1 \<and> distinct (run_ids s)"
proof -
  let ?s = "cron_run no_ticks busy_trace (boot Absent 2 [])"
  have "distinct (run_ids ?s)"
    using lane_bounded_no_overlap [OF _ busy_reached] by simp
  moreover have "run_ids ?s = [''j1''] \<and> length (ln_queue ?s) = 1" by code_simp
  ultimately show ?thesis by (simp add: Let_def)
qed

end
