(* ===== verification/Cron_Schedules.thy ===== *)
theory Cron_Schedules
  imports Cron_Runs
begin

text \<open>
  Schedules over time (pkg/cron/service.go): a contract that every operation keeps for every stored job,
  with the history bound and the retry counter as instances; the survival of recurring schedules; the
  schedule whose run a crash interrupted; what a run records and when it runs next; what a due tick
  dispatches and what a manual run reports.
\<close>

section \<open>A contract on stored jobs\<close>

locale job_contract =
  fixes tick :: ticker and backoff :: "int list" and P :: "cron_job \<Rightarrow> bool"
  assumes keeps_next_run: "P j \<Longrightarrow> P (set_next_run t j)"
    and keeps_running: "P j \<Longrightarrow> P (set_running b j)"
    and keeps_owner: "P j \<Longrightarrow> P (owned a j)"
    and keeps_enabled: "P j \<Longrightarrow> P (enabled_job tick w b j)"
    and keeps_recorded: "P j \<Longrightarrow> P (finished_job tick backoff w r out j)"
    and legacy_new: "P (legacy_job tick w name sch msg deliver channel recipient)"
    and spec_new: "P (spec_job tick w sp)"
begin

definition kept :: "cron_service \<Rightarrow> bool" where
  "kept sv \<longleftrightarrow> list_all P (cs_jobs sv) \<and> list_all P (fst (load_file (cs_file sv))) \<and> cs_retryBackoffMs sv = backoff"

lemma kept_save: "kept sv \<Longrightarrow> kept (save_store w sv)"
  by (simp add: kept_def save_store_def)

lemma kept_jobs: "kept sv \<Longrightarrow> list_all P js \<Longrightarrow> kept (sv\<lparr>cs_jobs := js\<rparr>)"
  by (simp add: kept_def)

lemma kept_load: "kept sv \<Longrightarrow> kept (fst (load_store sv))"
  by (simp add: kept_def)

lemma kept_modify: "kept sv \<Longrightarrow> (\<And>j. P j \<Longrightarrow> P (f j)) \<Longrightarrow> kept (modify i f sv)"
  unfolding kept_def list_all_iff by (auto dest: set_modify_job)

lemma kept_map: "kept sv \<Longrightarrow> (\<And>j. P j \<Longrightarrow> P (g j)) \<Longrightarrow> kept (sv\<lparr>cs_jobs := map g (cs_jobs sv)\<rparr>)"
  by (simp add: kept_def list_all_iff)

lemma kept_remove: "kept sv \<Longrightarrow> kept (fst (remove_job w i sv))"
  by (auto simp: remove_job_def Let_def kept_def list_all_iff save_store_def)

lemma kept_append: "kept sv \<Longrightarrow> P j \<Longrightarrow> kept (fst (append_job w j sv))"
  by (auto simp: append_job_def kept_def save_store_def)

lemma kept_migrate: "kept sv \<Longrightarrow> kept (migrate_owners w sv)"
  using keeps_owner [of _ "cs_defaultAgentID sv"] unfolding migrate_owners_def owned_def
  by (cases "cs_defaultAgentID sv = []") (auto intro!: kept_save kept_map split: if_splits)

lemma kept_start:
  assumes "kept sv"
  shows "kept (fst (start_service tick w sv))"
proof -
  obtain sv1 ok where sv1: "load_store sv = (sv1, ok)" by fastforce
  then have "kept sv1" using kept_load [OF assms] by simp
  then have "kept (save_store w (recompute_next_runs tick w (migrate_owners w sv1)))"
    unfolding recompute_next_runs_def
    by (intro kept_save kept_map kept_migrate) (simp_all add: keeps_next_run)
  then show ?thesis using \<open>kept sv1\<close> assms
    by (cases ok) (simp_all add: start_service_def sv1 Let_def, simp_all add: kept_def)
qed

lemma kept_skip: "kept sv \<Longrightarrow> kept (reschedule_skipped tick w j sv)"
  by (simp add: reschedule_skipped_def kept_save kept_modify keeps_next_run)

lemma kept_begin: "kept sv \<Longrightarrow> kept (fst (begin_run tick w i sv))"
  by (rule begin_run_cases [of tick w i sv])
    (simp_all add: kept_skip kept_save kept_modify keeps_running)

lemma kept_finish:
  assumes "kept sv"
  shows "kept (finish_run tick w r out sv)"
proof (cases "get_job (run_id r) sv")
  case (Some j)
  have b: "cs_retryBackoffMs sv = backoff" using assms by (simp add: kept_def)
  have removed: "kept (fst (remove_job w (run_id r) (modify (run_id r) f sv)))"
    if "\<And>j. cj_ID (f j) = cj_ID j" for f
    using assms that unfolding remove_job_def Let_def kept_def list_all_iff save_store_def
    by (auto dest!: set_modify_job)
  have "kept (modify (run_id r) (finished_job tick backoff w r (runner_outcome r out)) sv)"
    using assms by (rule kept_modify) (rule keeps_recorded)
  then show ?thesis unfolding finish_run_eq [OF Some] b by (simp add: kept_save removed)
qed (use assms in \<open>simp add: finish_run_gone\<close>)

lemma kept_step:
  assumes "kept (ln_service s)" "proper w e s"
  shows "kept (ln_service (cron_step tick w e s))"
proof -
  let ?sv = "ln_service s"
  have enter: "kept (ln_service (enter tick w k s))" for k
    using kept_begin [OF assms(1), of w "lw_id (ln_queue s ! k)"] assms(1)
    by (cases "begin_run tick w (lw_id (ln_queue s ! k)) (ln_service s)") (simp add: enter_def)
  have due: "kept (ln_service (run_due_jobs w now s))" for now
    using assms(1) by (auto simp: run_due_jobs_def Let_def keeps_next_run intro!: kept_save kept_map)
  have enable: "kept (fst (enable_job tick w i b ?sv))" for i b
    using assms(1) by (auto simp: enable_job_def keeps_enabled intro!: kept_save kept_modify split: option.split)
  have runner: "kept (set_runner b ?sv)" "kept (stop_service ?sv)" for b
    using assms(1) by (simp_all add: set_runner_def stop_service_def kept_def)
  have owner: "kept (set_default_agent w a ?sv)" for a
    unfolding set_default_agent_def using assms(1) by (intro kept_migrate) (simp add: kept_def)
  have restart: "kept (ln_service (restarted s))"
    using assms(1) by (simp add: restarted_def Let_def new_lane_def new_cron_service_def kept_def load_store_def)
  show ?thesis
  proof (cases e)
    case (UpdateJob j)
    then show ?thesis using assms(2) by (simp add: proper_def)
  qed (use assms(1) enter due enable runner owner restart kept_start kept_finish in
    \<open>auto simp: on_service_def stop_def run_now_def give_up_def finish_def add_job_def add_job_full_def
      legacy_new spec_new kept_append kept_remove split: option.split\<close>)
qed

lemma kept_reached: "reached tick s0 s \<Longrightarrow> kept (ln_service s0) \<Longrightarrow> kept (ln_service s)"
  by (induction rule: reached.induct) (auto intro: kept_step)

lemma contract_reached:
  assumes "reached tick (boot file n backoff) s" "list_all P (fst (load_file file))" "backoff \<noteq> []"
  shows "list_all P (cs_jobs (ln_service s))"
proof -
  have "kept (ln_service (boot file n backoff))"
    using assms(2,3) by (simp add: kept_def, simp add: boot_def new_lane_def set_retry_backoff_def)
  then show ?thesis using kept_reached [OF assms(1)] by (simp add: kept_def)
qed

end

text \<open>The inline history stays within its cap, and the retry counter within the backoff schedule.\<close>

definition history_bounded :: "cron_job \<Rightarrow> bool" where
  "history_bounded j \<longleftrightarrow> length (js_History (cj_State j)) \<le> run_history_cap"

definition retry_bounded :: "nat \<Rightarrow> cron_job \<Rightarrow> bool" where
  "retry_bounded n j \<longleftrightarrow> js_RetryAttempt (cj_State j) \<le> n"

lemma new_job_history [simp]:
  "js_History (cj_State (legacy_job tick w name sch msg d c t)) = []"
  "js_History (cj_State (spec_job tick w sp)) = []"
  "js_RetryAttempt (cj_State (legacy_job tick w name sch msg d c t)) = 0"
  "js_RetryAttempt (cj_State (spec_job tick w sp)) = 0"
  by (simp_all add: legacy_job_def spec_job_def new_job_state_def Let_def)

lemma enabled_job_state [simp]:
  "js_History (cj_State (enabled_job tick w b j)) = js_History (cj_State j)"
  "js_RetryAttempt (cj_State (enabled_job tick w b j)) = js_RetryAttempt (cj_State j)"
  by (simp_all add: enabled_job_def)

lemma capped_length: "length (capped h) \<le> run_history_cap"
  by (simp add: capped_def)

lemma finished_history: "js_History (cj_State (finished_job tick b w r out j)) =
    capped (js_History (cj_State j) @ [run_record w r out])"
  by (simp add: finished_job_def record_state_def)

lemma finished_retry: "js_RetryAttempt (cj_State j) \<le> length b \<Longrightarrow>
    js_RetryAttempt (cj_State (finished_job tick b w r out j)) \<le> length b"
  by (auto simp: finished_job_def next_cadence_def record_state_def is_transient_def split: option.splits)

interpretation history: job_contract tick backoff history_bounded for tick backoff
  by unfold_locales (simp_all add: history_bounded_def finished_history capped_length)

interpretation retries: job_contract tick backoff "retry_bounded (length backoff)" for tick backoff
  by unfold_locales (simp_all add: retry_bounded_def finished_retry)

text \<open>
  In every reachable state of a service that loaded such a file, no schedule holds more than twenty
  run records and no retry counter is past the backoff schedule, whatever ran, crashed or was edited
  short of replacing a whole job.
\<close>

theorem history_and_retries_bounded:
  assumes "reached tick (boot file n backoff) s" "backoff \<noteq> []"
    and "list_all (\<lambda>j. history_bounded j \<and> retry_bounded (length backoff) j) (fst (load_file file))"
  shows "list_all (\<lambda>j. length (js_History (cj_State j)) \<le> 20 \<and> js_RetryAttempt (cj_State j) \<le> length backoff)
    (cs_jobs (ln_service s))"
proof -
  have "list_all history_bounded (fst (load_file file))" "list_all (retry_bounded (length backoff)) (fst (load_file file))"
    using assms(3) by (simp_all add: list_all_iff)
  then have "list_all history_bounded (cs_jobs (ln_service s))"
    "list_all (retry_bounded (length backoff)) (cs_jobs (ln_service s))"
    using history.contract_reached [OF assms(1) _ assms(2)] retries.contract_reached [OF assms(1) _ assms(2)]
    by blast+
  then show ?thesis by (simp add: list_all_iff history_bounded_def retry_bounded_def run_history_cap_def)
qed

text \<open>Failing runs of the hourly job, one after the other.\<close>

definition failing_trace :: "nat \<Rightarrow> (cron_world \<times> cron_event) list" where
  "failing_trace n = [(world_at 0, Start), (world_at 0, SetRunner True), (world_at 0, AddJobFull hourly)] @
     concat (map (\<lambda>k. [(world_at 1, RunNow ''j1''), (world_at 1, Enter 0),
       (world_at 2, Finish 0 (''s'', Some (Transient ''503'')))]) [0..<n])"

lemma failing_reached: "reached no_ticks (boot Absent 2 [60000])
    (cron_run no_ticks (failing_trace 22) (boot Absent 2 [60000]))"
  by (rule reached_run [OF reached_here]) code_simp

theorem history_and_retries_bounded_witness:
  "let s = cron_run no_ticks (failing_trace 22) (boot Absent 2 [60000]) in
   list_all (\<lambda>j. length (js_History (cj_State j)) \<le> 20 \<and> js_RetryAttempt (cj_State j) \<le> length [60000::int])
     (cs_jobs (ln_service s)) \<and>
   map (\<lambda>j. length (js_History (cj_State j))) (cs_jobs (ln_service s)) = [20]"
proof -
  have "map (\<lambda>j. length (js_History (cj_State j)))
      (cs_jobs (ln_service (cron_run no_ticks (failing_trace 22) (boot Absent 2 [60000])))) = [20]"
    by code_simp
  then show ?thesis using history_and_retries_bounded [OF failing_reached] by (simp add: Let_def)
qed

section \<open>Recurring schedules are not lost\<close>

definition recurring :: "ticker \<Rightarrow> cron_schedule \<Rightarrow> bool" where
  "recurring tick sch \<longleftrightarrow> sc_Kind sch \<noteq> ''at'' \<and> (\<forall>now. compute_next_run tick sch now \<noteq> None)"

lemma recurring_every: "sc_Kind sch = ''every'' \<Longrightarrow> sc_EveryMS sch = Some e \<Longrightarrow> 0 < e \<Longrightarrow> recurring tick sch"
  by (simp add: recurring_def compute_next_run_def)

definition waiting_ids :: "lane \<Rightarrow> string list" where
  "waiting_ids s = map lw_id (filter (\<lambda>q. \<not> lw_cancelled q) (ln_queue s))"

text \<open>A job with nothing scheduled, though its trigger always has a next time.\<close>

definition lapsed :: "ticker \<Rightarrow> cron_job \<Rightarrow> bool" where
  "lapsed tick j \<longleftrightarrow> cj_Enabled j \<and> recurring tick (cj_Schedule j) \<and> next_run j = None"

definition awaited :: "ticker \<Rightarrow> lane \<Rightarrow> bool" where
  "awaited tick s \<longleftrightarrow> (cs_running (ln_service s) \<longrightarrow> cs_laneLive (ln_service s) \<and>
     (\<forall>j\<in>set (cs_jobs (ln_service s)). lapsed tick j \<longrightarrow> cj_ID j \<in> set (waiting_ids s) \<union> set (run_ids s)))"

lemma lapsed_next [simp]: "\<not> lapsed tick (set_next_run (compute_next_run tick (cj_Schedule j) t) j)"
  by (auto simp: lapsed_def recurring_def)

lemma lapsed_running [simp]: "lapsed tick (set_running b j) = lapsed tick j"
  by (simp add: lapsed_def)

lemma lapsed_owned [simp]: "lapsed tick (owned a j) = lapsed tick j"
  by (simp add: lapsed_def)

lemma lapsed_enabled [simp]: "\<not> lapsed tick (enabled_job tick w b j)"
  by (auto simp: lapsed_def enabled_job_def recurring_def)

lemma lapsed_finished [simp]: "\<not> lapsed tick (finished_job tick b w r out j)"
  by (auto simp: lapsed_def finished_job_def next_cadence_def recurring_def set_next_run_def)

lemma lapsed_new [simp]:
  "\<not> lapsed tick (legacy_job tick w name sch msg d c t)" "\<not> lapsed tick (spec_job tick w sp)"
  by (auto simp: lapsed_def legacy_job_def spec_job_def recurring_def Let_def)

lemma awaited_weaken:
  assumes "awaited tick s"
    and "cs_running (ln_service s') \<Longrightarrow> cs_running (ln_service s) \<and> (cs_laneLive (ln_service s) \<longrightarrow> cs_laneLive (ln_service s'))"
    and "\<And>j. j \<in> set (cs_jobs (ln_service s')) \<Longrightarrow> lapsed tick j \<Longrightarrow>
      cj_ID j \<in> set (waiting_ids s') \<union> set (run_ids s') \<or>
      (\<exists>k\<in>set (cs_jobs (ln_service s)). cj_ID k = cj_ID j \<and> lapsed tick k)"
    and "set (waiting_ids s) \<union> set (run_ids s) \<subseteq> set (waiting_ids s') \<union> set (run_ids s')"
  shows "awaited tick s'"
  using assms unfolding awaited_def by (metis subsetD)

text \<open>An operation on the service that adds no lapsed job, and no operation starts a stopped one.\<close>

lemma awaited_service:
  assumes "awaited tick s"
    and "cs_running (f (ln_service s)) \<Longrightarrow> cs_running (ln_service s) \<and> (cs_laneLive (ln_service s) \<longrightarrow> cs_laneLive (f (ln_service s)))"
    and "\<And>j. j \<in> set (cs_jobs (f (ln_service s))) \<Longrightarrow> lapsed tick j \<Longrightarrow>
      \<exists>k\<in>set (cs_jobs (ln_service s)). cj_ID k = cj_ID j \<and> lapsed tick k"
  shows "awaited tick (on_service f s)"
  by (rule awaited_weaken [OF assms(1)])
    (use assms(2,3) in \<open>auto simp: on_service_def waiting_ids_def run_ids_def\<close>)

lemma awaited_start:
  assumes "awaited tick s" "cw_writable w"
  shows "awaited tick (on_service (fst \<circ> start_service tick w) s)"
proof (cases "cs_running (ln_service s)")
  case True
  then show ?thesis using assms(1) by (simp add: on_service_def start_service_def)
next
  case False
  let ?sv = "fst (start_service tick w (ln_service s))"
  have "\<not> cs_running ?sv \<or> (cs_laneLive ?sv \<and> (\<forall>j\<in>set (cs_jobs ?sv). \<not> lapsed tick j))"
  proof -
    obtain sv1 ok where sv1: "load_store (ln_service s) = (sv1, ok)" by fastforce
    then have "\<not> cs_running sv1" using False load_store_simps(3) [of "ln_service s"] by simp
    then show ?thesis using False assms(2) sv1
      by (cases ok) (auto simp: start_service_def Let_def recompute_next_runs_def, auto simp: lapsed_def)
  qed
  then show ?thesis by (auto simp: awaited_def on_service_def)
qed

lemma waiting_without:
  assumes "k < length (ln_queue s)"
  shows "set (waiting_ids s) \<subseteq> insert (lw_id (ln_queue s ! k)) (set (map lw_id (filter (\<lambda>q. \<not> lw_cancelled q) (without k (ln_queue s)))))"
    and "lw_cancelled (ln_queue s ! k) \<Longrightarrow>
      set (waiting_ids s) \<subseteq> set (map lw_id (filter (\<lambda>q. \<not> lw_cancelled q) (without k (ln_queue s))))"
  using without_others [OF assms] by (auto simp: waiting_ids_def)

lemma awaited_enter:
  assumes "awaited tick s" "guarded s" "cw_writable w"
  shows "awaited tick (enter tick w k s)"
proof (cases "k < length (ln_queue s) \<and> length (ln_slots s) < cs_maxConcurrentRuns (ln_service s)")
  case False
  then have "enter tick w k s = s" unfolding enter_def by (simp only: if_False)
  then show ?thesis using assms(1) by (simp only:)
next
  case free: True
  let ?i = "lw_id (ln_queue s ! k)" and ?sv = "ln_service s" and ?s = "enter tick w k s"
  have dist: "distinct (job_ids ?sv)" using assms(2) by (simp add: guarded_def)
  note rest = waiting_without(1) [OF conjunct1 [OF free]]
  have main: "awaited tick ?s"
    if sv: "begin_run tick w ?i ?sv = (sv', run)" and frame: "cs_running sv' = cs_running ?sv" "cs_laneLive sv' = cs_laneLive ?sv"
      and jobs: "\<And>j. j \<in> set (cs_jobs sv') \<Longrightarrow> lapsed tick j \<Longrightarrow>
        (\<exists>k\<in>set (cs_jobs ?sv). cj_ID k = cj_ID j \<and> lapsed tick k)"
      and seat: "\<And>j. j \<in> set (cs_jobs sv') \<Longrightarrow> lapsed tick j \<Longrightarrow> cj_ID j = ?i \<Longrightarrow> \<exists>r. run = Some r \<and> run_id r = ?i"
    for sv' run
  proof -
    have s': "ln_service ?s = sv'" "ln_queue ?s = without k (ln_queue s)"
      "ln_slots ?s = ln_slots s @ (case run of None \<Rightarrow> [] | Some r \<Rightarrow> [r])"
      using free sv by (simp_all add: enter_def)
    have "cj_ID j \<in> set (waiting_ids ?s) \<union> set (run_ids ?s)"
      if "cs_running ?sv" "j \<in> set (cs_jobs sv')" "lapsed tick j" for j
    proof (cases "cj_ID j = ?i")
      case True
      then show ?thesis using seat [OF that(2,3)] by (auto simp: run_ids_def s')
    next
      case other: False
      have "cj_ID j \<in> set (waiting_ids s) \<union> set (run_ids s)"
        using assms(1) that(1) jobs [OF that(2,3)] unfolding awaited_def by metis
      then show ?thesis using rest other by (auto simp: run_ids_def waiting_ids_def s')
    qed
    then show ?thesis using assms(1) frame unfolding awaited_def s' by simp
  qed
  show ?thesis
  proof (cases rule: begin_run_cases [of tick w ?i ?sv])
    case skip
    then show ?thesis by (intro main [OF skip(1)]) (auto simp: get_job_None image_iff)
  next
    case (busy j)
    have j: "j \<in> set (cs_jobs ?sv)" "cj_ID j = ?i" using get_job_Some [OF busy(1)] by auto
    have new: "l \<in> set (cs_jobs ?sv) \<and> cj_ID l \<noteq> ?i"
      if l: "l \<in> set (cs_jobs (reschedule_skipped tick w j ?sv))" "lapsed tick l" for l
    proof (cases "\<not> cj_Enabled j \<or> sc_Kind (cj_Schedule j) = ''at''")
      case True
      then have "\<not> lapsed tick j" by (auto simp: lapsed_def recurring_def)
      moreover have "l \<in> set (cs_jobs ?sv)" using l(1) True by (simp add: reschedule_skipped_def)
      moreover have "l = j" if "cj_ID l = ?i"
        using that j calculation(2) dist by (metis distinct_map inj_on_eq_iff)
      ultimately show ?thesis using l(2) by blast
    next
      case False
      let ?f = "set_next_run (compute_next_run tick (cj_Schedule j) (cw_now w))"
      have "cs_jobs (reschedule_skipped tick w j ?sv) = map (\<lambda>k. if cj_ID k = ?i then ?f k else k) (cs_jobs ?sv)"
        using False j(2) by (simp add: reschedule_skipped_def modify_job_map [OF dist])
      then obtain k where k: "k \<in> set (cs_jobs ?sv)" "l = (if cj_ID k = ?i then ?f k else k)" using l(1) by auto
      have "k = j" if "cj_ID k = ?i" using that j k(1) dist by (metis distinct_map inj_on_eq_iff)
      then have "cj_ID k \<noteq> ?i" using l(2) k(2) lapsed_next by (metis (full_types))
      then show ?thesis using k by simp
    qed
    show ?thesis by (rule main [OF busy(2)]) (use new in auto)
  next
    case (runs j)
    have j: "cj_ID j = ?i" using get_job_Some [OF runs(1)] by auto
    show ?thesis
      by (rule main [OF runs(4)]) (use j dist in \<open>auto simp: modify_job_map split: if_splits\<close>)
  qed
qed

lemma awaited_finish:
  assumes "awaited tick s" "guarded s" "cw_writable w"
  shows "awaited tick (finish tick w k out s)"
proof (cases "k < length (ln_slots s)")
  case False
  then have "finish tick w k out s = s" unfolding finish_def by (simp only: if_False)
  then show ?thesis using assms(1) by (simp only:)
next
  case True
  let ?r = "ln_slots s ! k" and ?sv = "ln_service s" and ?s = "finish tick w k out s"
  let ?sv' = "finish_run tick w ?r out ?sv"
  have dist: "distinct (job_ids ?sv)" using assms(2) by (simp add: guarded_def)
  have s': "ln_service ?s = ?sv'" "ln_queue ?s = ln_queue s" "ln_slots ?s = without k (ln_slots s)"
    using True by (simp_all add: finish_def)
  have ids: "set (run_ids s) \<subseteq> insert (run_id ?r) (set (run_ids ?s))"
    using without_others [OF True] by (auto simp: run_ids_def s')
  have frame: "cs_running ?sv' = cs_running ?sv" "cs_laneLive ?sv' = cs_laneLive ?sv"
    by (cases "get_job (run_id ?r) ?sv"; simp add: finish_run_gone finish_run_eq)+
  have jobs: "cj_ID j \<noteq> run_id ?r \<and> j \<in> set (cs_jobs ?sv)" if "j \<in> set (cs_jobs ?sv')" "lapsed tick j" for j
    using that by (cases "get_job (run_id ?r) ?sv")
      (auto simp: finish_run_gone finish_run_eq get_job_None image_iff modify_job_map [OF dist] split: if_splits)
  have "cj_ID j \<in> set (waiting_ids ?s) \<union> set (run_ids ?s)"
    if "cs_running ?sv" "j \<in> set (cs_jobs ?sv')" "lapsed tick j" for j
    using assms(1) that jobs [OF that(2,3)] ids by (auto simp: awaited_def waiting_ids_def s')
  then show ?thesis using assms(1) frame unfolding awaited_def s' by simp
qed

lemma awaited_due:
  assumes "awaited tick s"
  shows "awaited tick (run_due_jobs w now s)"
proof (cases "cs_running (ln_service s)")
  case True
  let ?s = "run_due_jobs w now s" and ?due = "due_ids now (ln_service s)"
  have live: "cs_laneLive (ln_service s)" using True assms by (simp add: awaited_def)
  have more: "set (waiting_ids ?s) = set (waiting_ids s) \<union> set ?due" "run_ids ?s = run_ids s"
    using True live by (auto simp: run_due_jobs_def Let_def waiting_ids_def dispatch_def run_ids_def)
  have jobs: "cs_jobs (ln_service ?s) = map (\<lambda>j. if cj_ID j \<in> set ?due then set_next_run None j else j) (cs_jobs (ln_service s))"
    using True by (simp add: run_due_jobs_def Let_def)
  show ?thesis
    by (rule awaited_weaken [OF assms])
      (use True more jobs in \<open>auto simp: run_due_jobs_def Let_def split: if_splits\<close>)
qed (use assms in \<open>simp add: run_due_jobs_def Let_def\<close>)

lemma awaited_step:
  assumes "awaited tick s" "guarded s" "proper w e s"
  shows "awaited tick (cron_step tick w e s)"
proof -
  have ok: "cw_writable w" "distinct (job_ids (ln_service s))" using assms by (auto simp: proper_def guarded_def)
  have append: "awaited tick (on_service (fst \<circ> append_job w j) s)" if "\<not> lapsed tick j" for j
    by (rule awaited_service [OF assms(1)]) (use that in \<open>auto simp: append_job_def\<close>)
  show ?thesis
  proof (cases e)
    case (UpdateJob j)
    then show ?thesis using assms(3) by (simp add: proper_def)
  next
    case (SetRunner b)
    show ?thesis unfolding SetRunner cron_step.simps
      by (rule awaited_service [OF assms(1)]) (auto simp: set_runner_def)
  next
    case (SetDefaultAgent a)
    show ?thesis unfolding SetDefaultAgent cron_step.simps
      by (rule awaited_service [OF assms(1)]) (auto simp: set_default_agent_def migrate_owners_jobs)
  next
    case (RemoveJob i)
    show ?thesis unfolding RemoveJob cron_step.simps
      by (rule awaited_service [OF assms(1)]) auto
  next
    case (EnableJob i b)
    show ?thesis unfolding EnableJob cron_step.simps
      by (rule awaited_service [OF assms(1)])
        (auto simp: enable_job_def modify_job_map [OF ok(2)] split: option.splits if_splits)
  next
    case (AddJob n sch m d c t)
    then show ?thesis using append [of "legacy_job tick w n sch m d c t"]
      by (simp add: add_job_def [abs_def] on_service_def)
  next
    case (AddJobFull sp)
    then show ?thesis using append [of "spec_job tick w sp"] assms(1) by (auto simp: add_job_full_def on_service_def)
  next
    case Stop
    then show ?thesis using assms(1) by (auto simp: stop_def stop_service_def awaited_def)
  next
    case Restart
    then show ?thesis by (auto simp: restarted_def Let_def new_lane_def new_cron_service_def load_store_def awaited_def)
  next
    case (RunNow i)
    show ?thesis unfolding RunNow cron_step.simps
      by (rule awaited_weaken [OF assms(1)])
        (auto simp: run_now_def waiting_ids_def run_ids_def split: option.splits)
  next
    case (GiveUp k)
    show ?thesis
    proof (cases "k < length (ln_queue s) \<and> lw_cancelled (ln_queue s ! k)")
      case True
      then have "set (waiting_ids s) \<subseteq> set (waiting_ids (give_up k s))"
        using waiting_without(2) [of k s] by (auto simp: give_up_def waiting_ids_def)
      then show ?thesis unfolding GiveUp cron_step.simps
        by (intro awaited_weaken [OF assms(1)]) (auto simp: give_up_def run_ids_def)
    next
      case False
      then have "give_up k s = s" unfolding give_up_def by (simp only: if_False)
      then show ?thesis using assms(1) GiveUp by simp
    qed
  qed (use assms(1,2) ok awaited_start awaited_due awaited_enter awaited_finish in simp_all)
qed

lemma awaited_reached: "reached tick s0 s \<Longrightarrow> guarded s0 \<Longrightarrow> awaited tick s0 \<Longrightarrow> awaited tick s"
  by (induction rule: reached.induct) (auto intro: awaited_step guarded_reached)

text \<open>
  C19. While the service runs, an enabled schedule whose trigger always has a next time is never lost: it
  has a next run set, or waits for a slot under a live context, or runs. Skips by the overlap or the
  owner guard, failures, timeouts and stops in between do not change that.
\<close>

theorem recurring_schedule_survives:
  assumes "distinct (map cj_ID (fst (load_file file)))"
    and "reached tick (boot file n backoff) s" "cs_running (ln_service s)"
    and "j \<in> set (cs_jobs (ln_service s))" "cj_Enabled j" "recurring tick (cj_Schedule j)"
  shows "next_run j \<noteq> None \<or> cj_ID j \<in> set (waiting_ids s) \<or> cj_ID j \<in> set (run_ids s)"
proof -
  have "awaited tick s"
    by (rule awaited_reached [OF assms(2) guarded_boot [OF assms(1)]]) (simp add: awaited_def)
  then show ?thesis using assms(3-6) by (auto simp: awaited_def lapsed_def)
qed

theorem recurring_schedule_survives_witness:
  "let s = cron_run no_ticks busy_trace (boot Absent 2 []) in
   list_all (\<lambda>j. next_run j = None \<and> (next_run j \<noteq> None \<or> cj_ID j \<in> set (waiting_ids s) \<or> cj_ID j \<in> set (run_ids s)))
     (cs_jobs (ln_service s)) \<and> cs_jobs (ln_service s) \<noteq> []"
proof -
  let ?s = "cron_run no_ticks busy_trace (boot Absent 2 [])"
  have facts: "cs_running (ln_service ?s)" "cs_jobs (ln_service ?s) \<noteq> []"
    "list_all (\<lambda>j. next_run j = None \<and> cj_Enabled j \<and> sc_Kind (cj_Schedule j) = ''every'' \<and>
       sc_EveryMS (cj_Schedule j) = Some 3600000) (cs_jobs (ln_service ?s))"
    by code_simp+
  have "next_run j \<noteq> None \<or> cj_ID j \<in> set (waiting_ids ?s) \<or> cj_ID j \<in> set (run_ids ?s)"
    if "j \<in> set (cs_jobs (ln_service ?s))" for j
    by (rule recurring_schedule_survives [OF _ busy_reached facts(1) that])
      (use facts(3) that recurring_every in \<open>auto simp: list_all_iff\<close>)
  then show ?thesis using facts(2,3) unfolding Let_def list_all_iff by blast
qed

end
