(* ===== verification/Cron_Outcomes.thy ===== *)
theory Cron_Outcomes
  imports Cron_Schedules
begin

text \<open>
  Consequences for single schedules (pkg/cron/service.go): the retry cycle of transient failures, what a
  due tick dispatches, what a manual run reports, and the schedule whose run a crash interrupted.
\<close>

section \<open>The retry cycle\<close>

definition finish_all :: "ticker \<Rightarrow> (cron_world \<times> lane_run \<times> run_outcome) list \<Rightarrow> cron_service \<Rightarrow> cron_service" where
  "finish_all tick rs sv = fold (\<lambda>(w, r, out). finish_run tick w r out) rs sv"

lemma get_job_finish:
  assumes "get_job (run_id r) sv = Some j" "sc_Kind (cj_Schedule j) \<noteq> ''at''"
  shows "get_job (run_id r) (finish_run tick w r out sv) =
      Some (finished_job tick (cs_retryBackoffMs sv) w r (runner_outcome r out) j)"
    and "cs_retryBackoffMs (finish_run tick w r out sv) = cs_retryBackoffMs sv"
proof -
  let ?f = "finished_job tick (cs_retryBackoffMs sv) w r (runner_outcome r out)"
  have f: "\<And>k. cj_ID k = run_id r \<Longrightarrow> cj_ID (?f k) = run_id r" by (simp add: finished_job_def)
  have eq: "finish_run tick w r out sv = save_store w (modify (run_id r) ?f sv)"
    using finish_run_eq [OF assms(1)] assms(2) by simp
  show "get_job (run_id r) (finish_run tick w r out sv) = Some (?f j)"
    unfolding eq using get_job_modify [of "run_id r" ?f sv] f assms(1) by simp
  show "cs_retryBackoffMs (finish_run tick w r out sv) = cs_retryBackoffMs sv" unfolding eq by simp
qed

lemma finished_schedule [simp]: "cj_Schedule (finished_job tick b w r out j) = cj_Schedule j"
  by (simp add: finished_job_def next_cadence_def)

lemma finished_transient:
  assumes "is_transient (snd out)" "sc_Kind (cj_Schedule j) \<noteq> ''at''" "js_RetryAttempt (cj_State j) = k" "k \<le> length b"
  shows "js_RetryAttempt (cj_State (finished_job tick b w r out j)) = Suc k mod Suc (length b)"
    and "next_run (finished_job tick b w r out j) =
      (if k < length b then Some (wrap64 (cw_now w + b ! k)) else compute_next_run tick (cj_Schedule j) (cw_now w))"
  using assms by (auto simp: finished_job_def next_cadence_def record_state_def is_transient_def split: option.splits)

definition transient_run :: "string \<Rightarrow> cron_world \<times> lane_run \<times> run_outcome \<Rightarrow> bool" where
  "transient_run i x = (case x of (w, r, out) \<Rightarrow> run_id r = i \<and> lr_hasRunner r \<and> is_transient (snd out))"

lemma transient_runs:
  assumes "get_job i sv = Some j" "sc_Kind (cj_Schedule j) \<noteq> ''at''" "js_RetryAttempt (cj_State j) = 0"
    "list_all (transient_run i) rs"
  shows "\<exists>j'. get_job i (finish_all tick rs sv) = Some j' \<and> cj_Schedule j' = cj_Schedule j \<and>
    js_RetryAttempt (cj_State j') = length rs mod Suc (length (cs_retryBackoffMs sv)) \<and>
    cs_retryBackoffMs (finish_all tick rs sv) = cs_retryBackoffMs sv"
  using assms(4)
proof (induction rs rule: rev_induct)
  case Nil
  then show ?case using assms by (simp add: finish_all_def)
next
  case (snoc x rs)
  obtain w r out where x: "x = (w, r, out)" by (cases x)
  let ?b = "cs_retryBackoffMs sv"
  obtain j' where j': "get_job i (finish_all tick rs sv) = Some j'" "cj_Schedule j' = cj_Schedule j"
    "js_RetryAttempt (cj_State j') = length rs mod Suc (length ?b)" "cs_retryBackoffMs (finish_all tick rs sv) = ?b"
    using snoc by auto
  have r: "run_id r = i" "lr_hasRunner r" "is_transient (snd out)"
    using snoc.prems by (auto simp: x transient_run_def)
  have kind: "sc_Kind (cj_Schedule j') \<noteq> ''at''" using assms(2) j'(2) by simp
  have "finish_all tick (rs @ [x]) sv = finish_run tick w r out (finish_all tick rs sv)"
    by (simp add: finish_all_def x)
  moreover note get_job_finish [of r "finish_all tick rs sv" j' tick w out]
  moreover have "length rs mod Suc (length ?b) \<le> length ?b" by (simp add: less_Suc_eq_le [symmetric])
  ultimately show ?case
    using finished_transient(1) [OF r(3) kind j'(3), of ?b tick w r] j' kind r
    by (auto simp: runner_outcome_def mod_Suc_eq)
qed

text \<open>
  Transient failures in a row walk through the backoff schedule and start over: the n-th of them
  (from 0) sets the next run to the backoff offset n modulo its length plus one, and where that is the
  length itself, the schedule resumes its normal cadence; the counter is the number of failures modulo
  the same.
\<close>

theorem retry_backoff_cycle:
  assumes "get_job i sv = Some j" "sc_Kind (cj_Schedule j) \<noteq> ''at''" "js_RetryAttempt (cj_State j) = 0"
    and "list_all (transient_run i) (rs @ [(w, r, out)])"
  shows "let b = cs_retryBackoffMs sv; n = length rs mod Suc (length b) in
    \<exists>j'. get_job i (finish_all tick (rs @ [(w, r, out)]) sv) = Some j' \<and>
      js_RetryAttempt (cj_State j') = Suc (length rs) mod Suc (length b) \<and>
      next_run j' = (if n < length b then Some (wrap64 (cw_now w + b ! n))
                     else compute_next_run tick (cj_Schedule j) (cw_now w))"
proof -
  let ?b = "cs_retryBackoffMs sv" and ?s = "finish_all tick rs sv"
  obtain j' where j': "get_job i ?s = Some j'" "cj_Schedule j' = cj_Schedule j"
    "js_RetryAttempt (cj_State j') = length rs mod Suc (length ?b)" "cs_retryBackoffMs ?s = ?b"
    using transient_runs [OF assms(1-3), of rs tick] assms(4) by auto
  have r: "run_id r = i" "lr_hasRunner r" "is_transient (snd out)" using assms(4) by (auto simp: transient_run_def)
  have kind: "sc_Kind (cj_Schedule j') \<noteq> ''at''" using assms(2) j'(2) by simp
  have le: "length rs mod Suc (length ?b) \<le> length ?b" by (simp add: less_Suc_eq_le [symmetric])
  have "finish_all tick (rs @ [(w, r, out)]) sv = finish_run tick w r out ?s" by (simp add: finish_all_def)
  then have "get_job i (finish_all tick (rs @ [(w, r, out)]) sv) = Some (finished_job tick ?b w r out j')"
    using get_job_finish(1) [of r ?s j' tick w out] j' kind r by (simp add: runner_outcome_def)
  then show ?thesis
    using finished_transient [OF r(3) kind j'(3) le, of tick w r] j'(2) by (auto simp: Let_def mod_Suc_eq)
qed

definition hourly_service :: cron_service where
  "hourly_service = ln_service (cron_run no_ticks [(world_at 0, Start), (world_at 0, SetRunner True),
     (world_at 0, AddJobFull hourly)] (boot Absent 2 []))"

definition hourly_run :: lane_run where
  "hourly_run = \<lparr>lr_job = spec_job no_ticks (world_at 0) hourly, lr_start = 0, lr_hasRunner = True\<rparr>"

theorem retry_backoff_cycle_witness:
  "\<exists>j'. get_job ''j1'' (finish_all no_ticks (replicate 2 (world_at 5, hourly_run, ([], Some (Transient ''503''))) @
       [(world_at 10, hourly_run, ([], Some (Transient ''503'')))]) hourly_service) = Some j' \<and> next_run j' = Some 300010"
proof -
  let ?j = "spec_job no_ticks (world_at 0) hourly" and ?x = "([], Some (Transient ''503'')) :: run_outcome"
  have "get_job ''j1'' hourly_service = Some ?j" "sc_Kind (cj_Schedule ?j) \<noteq> ''at''"
    "js_RetryAttempt (cj_State ?j) = 0" "cs_retryBackoffMs hourly_service = [60000, 120000, 300000]"
    "list_all (transient_run ''j1'') (replicate 2 (world_at 5, hourly_run, ?x) @ [(world_at 10, hourly_run, ?x)])"
    by code_simp+
  then show ?thesis
    using retry_backoff_cycle [of "''j1''" hourly_service ?j "replicate 2 (world_at 5, hourly_run, ?x)"
        "world_at 10" hourly_run ?x no_ticks]
    by (auto simp: Let_def wrap64_def world_at_def)
qed

section \<open>Due ticks\<close>

lemma is_due_cleared [simp]: "\<not> is_due t (set_next_run None j)"
  by (simp add: is_due_def)

lemma due_ids_set: "distinct (job_ids sv) \<Longrightarrow> distinct (due_ids now sv)"
  by (simp add: due_ids_def distinct_map_filter)

lemma due_now: "distinct (job_ids sv) \<Longrightarrow> j \<in> set (cs_jobs sv) \<Longrightarrow> cj_ID j \<in> set (due_ids now sv) \<longleftrightarrow> is_due now j"
  unfolding due_ids_def by (auto simp: distinct_map inj_on_def)

text \<open>
  A due tick puts every due job into the queue once, in the order of the store, and takes away
  its next run: what is due afterwards, at any time, is what was due then without the jobs just
  dispatched. So two ticks dispatch what one tick at the later time would, and nothing twice.
\<close>

theorem due_jobs_dispatched_once:
  assumes "cs_running (ln_service s)" "distinct (job_ids (ln_service s))"
  shows "map lw_id (ln_queue (run_due_jobs w now s)) = map lw_id (ln_queue s) @ due_ids now (ln_service s) \<and>
    distinct (due_ids now (ln_service s)) \<and>
    set (due_ids later (ln_service (run_due_jobs w now s))) =
      set (due_ids later (ln_service s)) - set (due_ids now (ln_service s))"
proof -
  let ?sv = "ln_service s" and ?sv' = "ln_service (run_due_jobs w now s)"
  let ?g = "\<lambda>j. if cj_ID j \<in> set (due_ids now ?sv) then set_next_run None j else j"
  have jobs: "cs_jobs ?sv' = map ?g (cs_jobs ?sv)"
    using assms(1) by (simp add: run_due_jobs_def Let_def)
  have ids: "set (due_ids t v) = cj_ID ` {j \<in> set (cs_jobs v). is_due t j}" for t v by (simp add: due_ids_def)
  have g: "cj_ID (?g j) = cj_ID j" "is_due later (?g j) \<longleftrightarrow> cj_ID j \<notin> set (due_ids now ?sv) \<and> is_due later j" for j
    by (simp_all add: is_due_def)
  have "set (due_ids later ?sv') = set (due_ids later ?sv) - set (due_ids now ?sv)"
    unfolding ids [of later] jobs set_map using g by (intro set_eqI) (auto simp: image_iff simp del: if_split)
  then show ?thesis using assms due_ids_set [OF assms(2)]
    by (simp add: run_due_jobs_def Let_def comp_def dispatch_def)
qed

theorem due_jobs_dispatched_once_witness:
  "map lw_id (ln_queue (run_due_jobs (world_at 3600000) 3600000 (new_lane hourly_service))) = [''j1'']"
proof -
  have "cs_running (ln_service (new_lane hourly_service))" "distinct (job_ids (ln_service (new_lane hourly_service)))"
    "due_ids 3600000 (ln_service (new_lane hourly_service)) = [''j1'']" "ln_queue (new_lane hourly_service) = []"
    by code_simp+
  then show ?thesis using due_jobs_dispatched_once [of "new_lane hourly_service" "world_at 3600000" 3600000 0] by simp
qed

section \<open>A manual run\<close>

lemma last_capped: "h \<noteq> [] \<Longrightarrow> last (capped h) = last h" "capped (h @ [r]) \<noteq> []"
  by (simp_all add: capped_def run_history_cap_def last_drop)

text \<open>
  A manual run that was let in and finished is reported by its own status, session and error,
  provided it did not start in the same millisecond as the last recorded run; but a one-shot schedule
  that is deleted after its run is reported as skipped, whatever its run did.
\<close>

theorem run_now_reports:
  assumes "get_job (run_id r) sv = Some j"
  shows "if sc_Kind (cj_Schedule j) = ''at'' \<and> cj_DeleteAfterRun j
    then (if js_History (cj_State j) = [] then run_now_verdict (run_id r) sv (finish_run tick w r out sv) = (''skipped'', [], None)
          else True)
    else (if lr_start r = rr_RanAtMs (snd (run_state_snapshot (run_id r) sv)) then True
          else run_now_verdict (run_id r) sv (finish_run tick w r out sv) =
            (let rec = run_record w r (runner_outcome r out) in
             (rr_Status rec, rr_SessionID rec,
              if rr_Status rec = ''ok'' then None else Some (if rr_Error rec = [] then ''run failed'' else rr_Error rec))))"
proof (cases "sc_Kind (cj_Schedule j) = ''at'' \<and> cj_DeleteAfterRun j")
  case True
  then have "get_job (run_id r) (finish_run tick w r out sv) = None"
    by (simp add: finish_run_eq [OF assms] get_job_removed)
  then show ?thesis using True assms by (simp add: run_now_verdict_def run_state_snapshot_def Let_def)
next
  case False
  let ?o = "runner_outcome r out" and ?f = "finished_job tick (cs_retryBackoffMs sv) w r (runner_outcome r out)"
  have f: "\<And>k. cj_ID k = run_id r \<Longrightarrow> cj_ID (?f k) = run_id r" by (simp add: finished_job_def)
  have "finish_run tick w r out sv = save_store w (modify (run_id r) ?f sv)"
    using finish_run_eq [OF assms, of tick w out] False by argo
  then have "get_job (run_id r) (finish_run tick w r out sv) = Some (?f j)"
    using get_job_modify [of "run_id r" ?f sv] f assms by simp
  then have "snd (run_state_snapshot (run_id r) (finish_run tick w r out sv)) = run_record w r ?o"
    by (simp add: run_state_snapshot_def Let_def finished_history last_capped)
  moreover have "rr_RanAtMs (run_record w r ?o) = lr_start r" by (simp add: run_record_def)
  moreover have "rr_Status (run_record w r ?o) \<in> {''ok'', ''timeout'', ''error''}"
    by (simp add: run_record_def run_status_def split: option.split run_error.split)
  ultimately show ?thesis unfolding if_not_P [OF False]
    by (auto simp: run_now_verdict_def Let_def split: prod.split)
qed

definition one_shot :: job_spec where
  "one_shot = hourly\<lparr>sp_Schedule := \<lparr>sc_Kind = ''at'', sc_AtMS = Some 100, sc_EveryMS = None, sc_Expr = [], sc_TZ = []\<rparr>\<rparr>"

theorem run_now_reports_witness:
  "let sv = fst (add_job_full no_ticks (world_at 0) one_shot (set_runner True (new_cron_service Absent)));
       r = hourly_run\<lparr>lr_job := spec_job no_ticks (world_at 0) one_shot\<rparr>;
       sv' = finish_run no_ticks (world_at 9) r (''s'', None) sv
   in run_now_verdict ''j1'' sv sv' = (''skipped'', [], None) \<and>
      run_now_verdict ''j1'' hourly_service (finish_run no_ticks (world_at 9) (hourly_run\<lparr>lr_start := 7\<rparr>) (''s'', None) hourly_service) =
        (''ok'', ''s'', None)"
proof -
  let ?sv = "fst (add_job_full no_ticks (world_at 0) one_shot (set_runner True (new_cron_service Absent)))"
  let ?j = "spec_job no_ticks (world_at 0) one_shot" and ?h = "spec_job no_ticks (world_at 0) hourly"
  let ?r = "hourly_run\<lparr>lr_job := ?j\<rparr>" and ?q = "hourly_run\<lparr>lr_start := 7\<rparr>"
  have facts: "get_job (run_id ?r) ?sv = Some ?j" "run_id ?r = ''j1''"
    "sc_Kind (cj_Schedule ?j) = ''at'' \<and> cj_DeleteAfterRun ?j" "js_History (cj_State ?j) = []"
    "get_job (run_id ?q) hourly_service = Some ?h" "run_id ?q = ''j1''"
    "\<not> (sc_Kind (cj_Schedule ?h) = ''at'' \<and> cj_DeleteAfterRun ?h)"
    "lr_start ?q \<noteq> rr_RanAtMs (snd (run_state_snapshot ''j1'' hourly_service))"
    "run_record (world_at 9) ?q (runner_outcome ?q (''s'', None)) =
      \<lparr>rr_RanAtMs = 7, rr_Status = ''ok'', rr_Error = [], rr_SessionID = ''s'', rr_DurationMs = 2\<rparr>"
    by code_simp+
  have "run_now_verdict ''j1'' ?sv (finish_run no_ticks (world_at 9) ?r (''s'', None) ?sv) = (''skipped'', [], None)"
    using run_now_reports [OF facts(1), of no_ticks "world_at 9" "(''s'', None)"] facts(2-4) by simp
  moreover have "run_now_verdict ''j1'' hourly_service (finish_run no_ticks (world_at 9) ?q (''s'', None) hourly_service) =
      (''ok'', ''s'', None)"
    using run_now_reports [OF facts(5), of no_ticks "world_at 9" "(''s'', None)"] facts(6-9) by (simp add: Let_def)
  ultimately show ?thesis by (simp only: Let_def)
qed

section \<open>A crash during a run\<close>

definition stranded :: "string \<Rightarrow> lane \<Rightarrow> bool" where
  "stranded i s \<longleftrightarrow> i \<in> set (job_ids (ln_service s)) \<and> i \<notin> set (run_ids s) \<and>
     (\<forall>j\<in>set (cs_jobs (ln_service s)). cj_ID j = i \<longrightarrow> job_running j)"

definition leaves :: "string \<Rightarrow> cron_event \<Rightarrow> bool" where
  "leaves i e = (case e of RemoveJob k \<Rightarrow> k \<noteq> i | _ \<Rightarrow> True)"

lemma stranded_evolves:
  "stranded i s \<Longrightarrow> evolves (ln_service s) (ln_service s') \<Longrightarrow> i \<notin> set (run_ids s') \<Longrightarrow> stranded i s'"
  unfolding stranded_def evolves_def tame_def by (auto simp: image_image)

lemma evolves_begin:
  assumes "synced sv" "cw_writable w" "distinct (job_ids sv)"
  shows "evolves sv (fst (begin_run tick w i sv))"
proof (cases rule: begin_run_cases [of tick w i sv])
  case (runs j)
  show ?thesis
    by (rule evolvesI [where g = "\<lambda>j. if cj_ID j = i then set_running True j else j"])
      (use runs(4) assms in \<open>auto simp: tame_def modify_job_map\<close>)
qed (use assms in \<open>auto intro: evolves_same evolves_reschedule\<close>)

lemma stranded_step:
  assumes "stranded i s" "guarded s" "proper w e s" "leaves i e"
  shows "stranded i (cron_step tick w e s)"
proof -
  let ?sv = "ln_service s"
  have ok: "cw_writable w" "synced ?sv" "distinct (job_ids ?sv)" "i \<notin> set (run_ids s)"
    using assms by (auto simp: proper_def guarded_def stranded_def)
  have ev: "stranded i (on_service f s)" if "evolves ?sv (f ?sv)" for f
    by (rule stranded_evolves [OF assms(1)]) (use that ok(4) in \<open>auto simp: on_service_def run_ids_def\<close>)
  have append: "stranded i (on_service (fst \<circ> append_job w j) s)" if "unused (cj_ID j) s" for j
    using assms(1) that unfolding stranded_def unused_def by (auto simp: on_service_def append_job_def run_ids_def)
  show ?thesis
  proof (cases e)
    case (UpdateJob j)
    then show ?thesis using assms(3) by (simp add: proper_def)
  next
    case (SetRunner b)
    then show ?thesis using ev [of "set_runner b"] ok(2)
      by (simp add: evolves_same set_runner_def synced_def)
  next
    case (AddJob n sch m d c t)
    then show ?thesis using append [of "legacy_job tick w n sch m d c t"] assms(3)
      by (simp add: add_job_def [abs_def] on_service_def proper_def) (simp add: legacy_job_def)
  next
    case (AddJobFull sp)
    then show ?thesis using append [of "spec_job tick w sp"] assms(1,3)
      by (auto simp: add_job_full_def on_service_def proper_def) (simp_all add: spec_job_def Let_def)
  next
    case (RemoveJob k)
    then show ?thesis using assms(1,4) by (auto simp: stranded_def on_service_def leaves_def run_ids_def)
  next
    case Restart
    then show ?thesis using assms(1) ok(2)
      by (auto simp: stranded_def restarted_def Let_def new_lane_def new_cron_service_def load_store_def synced_def run_ids_def)
  next
    case Stop
    then show ?thesis using assms(1)
      by (auto simp: stop_def stop_service_def stranded_def run_ids_def)
  next
    case (RunNow k)
    then show ?thesis using assms(1) by (auto simp: run_now_def stranded_def run_ids_def split: option.split)
  next
    case (GiveUp k)
    then show ?thesis using assms(1) by (auto simp: give_up_def stranded_def run_ids_def)
  next
    case (Due now)
    show ?thesis unfolding Due cron_step.simps
      by (rule stranded_evolves [OF assms(1) evolves_due])
        (use ok in \<open>auto simp: run_due_jobs_def Let_def run_ids_def\<close>)
  next
    case (Enter k)
    show ?thesis
    proof (cases "k < length (ln_queue s) \<and> length (ln_slots s) < cs_maxConcurrentRuns ?sv")
      case True
      let ?k = "lw_id (ln_queue s ! k)"
      have "set (run_ids (enter tick w k s)) \<subseteq> set (run_ids s) \<union> {?k}" "?k = i \<Longrightarrow> run_ids (enter tick w k s) = run_ids s"
        using True assms(1) get_job_Some [of ?k ?sv]
        by (cases rule: begin_run_cases [of tick w ?k ?sv]; auto simp: enter_def run_ids_def stranded_def)+
      then have "i \<notin> set (run_ids (enter tick w k s))" using ok(4) by auto
      moreover have "ln_service (enter tick w k s) = fst (begin_run tick w ?k ?sv)"
        using True by (cases "begin_run tick w ?k ?sv") (simp add: enter_def)
      ultimately show ?thesis unfolding Enter cron_step.simps
        using stranded_evolves [OF assms(1)] evolves_begin [OF ok(2,1,3)] by metis
    next
      case False
      then have "enter tick w k s = s" unfolding enter_def by (simp only: if_False)
      then show ?thesis using assms(1) Enter by simp
    qed
  next
    case (Finish k out)
    show ?thesis
    proof (cases "k < length (ln_slots s)")
      case True
      let ?r = "ln_slots s ! k"
      have "run_id ?r \<in> set (run_ids s)" using True by (auto simp: run_ids_def)
      then have other: "run_id ?r \<noteq> i" using ok(4) by metis
      have "set (run_ids (finish tick w k out s)) \<subseteq> set (run_ids s)"
        using True without_set [of k "ln_slots s"] by (auto simp: finish_def run_ids_def)
      moreover have "ln_service (finish tick w k out s) = finish_run tick w ?r out ?sv" using True by (simp add: finish_def)
      ultimately show ?thesis unfolding Finish cron_step.simps stranded_def
        using finish_run_jobs [OF ok(3), of tick w ?r out] assms(1) other
        by (auto simp: stranded_def image_iff split: if_splits)
    next
      case False
      then have "finish tick w k out s = s" unfolding finish_def by (simp only: if_False)
      then show ?thesis using assms(1) Finish by simp
    qed
  qed (use ev ok evolves_set_default_agent evolves_start evolves_enable in simp_all)
qed

lemma stranded_run:
  "stranded i s \<Longrightarrow> guarded s \<Longrightarrow> proper_run tick es s \<Longrightarrow> list_all (\<lambda>(w, e). leaves i e) es \<Longrightarrow>
   stranded i (cron_run tick es s)"
  by (induction tick es s rule: cron_run.induct) (auto intro: stranded_step guarded_step)

text \<open>
  C20. The mark that a job is running is persisted before its run and survives the process. After a crash
  during a run of a stored schedule, no sequence of events of the new processes - starts, due ticks,
  manual runs, pausing and resuming, further crashes - ever lets that schedule run again, until it is
  removed or replaced as a whole.
\<close>

theorem crash_strands_schedule:
  assumes "distinct (map cj_ID (fst (load_file file)))" "reached tick (boot file n backoff) s"
    and "i \<in> set (run_ids s)" "i \<in> set (job_ids (ln_service s))"
    and "proper_run tick es (restarted s)" "list_all (\<lambda>(w, e). leaves i e) es"
  shows "i \<notin> set (run_ids (cron_run tick es (restarted s))) \<and>
    list_ex (\<lambda>j. cj_ID j = i \<and> job_running j) (cs_jobs (ln_service (cron_run tick es (restarted s))))"
proof -
  have g: "guarded s" by (rule guarded_reached [OF assms(2) guarded_boot [OF assms(1)]])
  then have "stranded i (restarted s)" using assms(3,4)
    by (auto simp: stranded_def guarded_def restarted_def Let_def new_lane_def new_cron_service_def load_store_def
        synced_def run_ids_def)
  then have "stranded i (cron_run tick es (restarted s))"
    using stranded_run guarded_restart [OF g] assms(5,6) by blast
  then show ?thesis by (auto simp: stranded_def list_ex_iff)
qed

text \<open>The hourly job crashes in its run; the new process starts, ticks each hour and is asked to run it.\<close>

definition after_crash :: "(cron_world \<times> cron_event) list" where
  "after_crash = [(world_at 3700000, Start), (world_at 7300000, Due 7300000), (world_at 7300000, Enter 0),
     (world_at 7300001, RunNow ''j1''), (world_at 7300001, Enter 0), (world_at 7300002, EnableJob ''j1'' False),
     (world_at 7300003, EnableJob ''j1'' True), (world_at 10900003, Due 10900003), (world_at 10900003, Enter 0)]"

theorem crash_strands_schedule_witness:
  "let s = cron_run no_ticks after_crash (restarted (cron_run no_ticks busy_trace (boot Absent 2 []))) in
   ''j1'' \<notin> set (run_ids s) \<and> ln_queue s = [] \<and> cs_running (ln_service s) \<and>
   map next_run (cs_jobs (ln_service s)) = [Some 14500003]"
proof -
  let ?s = "cron_run no_ticks busy_trace (boot Absent 2 [])"
  have facts: "distinct (map cj_ID (fst (load_file Absent)))" "''j1'' \<in> set (run_ids ?s)"
    "''j1'' \<in> set (job_ids (ln_service ?s))" "proper_run no_ticks after_crash (restarted ?s)"
    "list_all (\<lambda>(w, e). leaves ''j1'' e) after_crash"
    by code_simp+
  have "''j1'' \<notin> set (run_ids (cron_run no_ticks after_crash (restarted ?s)))"
    using crash_strands_schedule [OF facts(1) busy_reached facts(2-5)] by blast
  moreover have "ln_queue (cron_run no_ticks after_crash (restarted ?s)) = []"
    "cs_running (ln_service (cron_run no_ticks after_crash (restarted ?s)))"
    "map next_run (cs_jobs (ln_service (cron_run no_ticks after_crash (restarted ?s)))) = [Some 14500003]"
    by code_simp+
  ultimately show ?thesis by (simp only: Let_def) blast
qed

end
