(* ===== verification/Notifications.thy ===== *)
theory Notifications
  imports Go_Prelude "HOL-Library.Char_ord" "HOL-Library.List_Lexorder" "HOL-Library.Product_Lexorder"
begin

text \<open>
  The per-user notification store (pkg/notifications/store.go): one file per recipient under a
  sanitised name, unread notifications of one schedule coalesced into one, at most fifty kept per file,
  a corrupt file set aside. A file is absent from the map, unreadable, corrupt or a list; the world of
  an operation is the clock, a random id, and whether a write and a rename succeed. Strings are bytes.
\<close>

section \<open>Records and files\<close>

record notification =
  nt_Recipient :: string
  nt_ID :: string
  nt_Type :: string
  nt_Title :: string
  nt_Body :: string
  nt_Severity :: string
  nt_Read :: bool
  nt_CreatedAtMs :: int
  nt_UpdatedAtMs :: int
  nt_ScheduleID :: string
  nt_SessionID :: string
  nt_AgentID :: string

datatype note_file = Unreadable_Notes | Corrupt_Notes | Notes "notification list"

type_synonym note_store = "(string, note_file) gomap"

record note_world =
  nw_now :: int
  nw_id :: string
  nw_write :: bool
  nw_rename :: bool

definition notification_cap :: nat where "notification_cap = 50"

definition valid_severity :: "string \<Rightarrow> bool" where
  "valid_severity s \<longleftrightarrow> s \<in> {''info'', ''warning'', ''error''}"

definition plain_char :: "char \<Rightarrow> bool" where
  "plain_char c \<longleftrightarrow> (CHR ''A'' \<le> c \<and> c \<le> CHR ''Z'') \<or> (CHR ''a'' \<le> c \<and> c \<le> CHR ''z'') \<or>
     (CHR ''0'' \<le> c \<and> c \<le> CHR ''9'') \<or> c = CHR ''.'' \<or> c = CHR ''_'' \<or> c = CHR ''-''"

definition sanitize_name :: "string \<Rightarrow> string" where
  "sanitize_name name = (if name = [] then ''_'' else map (\<lambda>c. if plain_char c then c else CHR ''_'') name)"

definition user_file :: "string \<Rightarrow> string" where
  "user_file recipient = sanitize_name recipient @ ''.json''"

section \<open>Loading, saving, retention\<close>

definition load_notes :: "note_world \<Rightarrow> string \<Rightarrow> note_store \<Rightarrow> notification list option \<times> note_store" where
  "load_notes w recipient st =
     (case map_of st (user_file recipient) of
        None \<Rightarrow> (Some [], st)
      | Some Unreadable_Notes \<Rightarrow> (None, st)
      | Some Corrupt_Notes \<Rightarrow> (Some [], if nw_rename w then AList.delete (user_file recipient) st else st)
      | Some (Notes ns) \<Rightarrow> (Some ns, st))"

definition save_notes :: "note_world \<Rightarrow> string \<Rightarrow> notification list \<Rightarrow> note_store \<Rightarrow> note_store" where
  "save_notes w recipient ns st =
     (if nw_write w then AList.update (user_file recipient) (Notes ns) st else st)"

text \<open>A stable sort, descending by creation time and then by id.\<close>

definition note_key :: "notification \<Rightarrow> int \<times> string" where
  "note_key n = (nt_CreatedAtMs n, nt_ID n)"

definition newest_first :: "notification list \<Rightarrow> notification list" where
  "newest_first ns = rev (sort_key note_key (rev ns))"

definition retain :: "notification list \<Rightarrow> notification list" where
  "retain ns = (if length ns \<le> notification_cap then ns else take notification_cap (newest_first ns))"

section \<open>Operations\<close>

definition coalesces :: "notification \<Rightarrow> notification \<Rightarrow> bool" where
  "coalesces n old \<longleftrightarrow> \<not> nt_Read old \<and> nt_ScheduleID old = nt_ScheduleID n"

definition coalesce :: "note_world \<Rightarrow> notification \<Rightarrow> notification \<Rightarrow> notification" where
  "coalesce w n old = old\<lparr>nt_Title := nt_Title n, nt_Body := nt_Body n, nt_Severity := nt_Severity n,
     nt_Type := nt_Type n, nt_SessionID := nt_SessionID n, nt_AgentID := nt_AgentID n, nt_UpdatedAtMs := nw_now w\<rparr>"

fun modify_first :: "('a \<Rightarrow> bool) \<Rightarrow> ('a \<Rightarrow> 'a) \<Rightarrow> 'a list \<Rightarrow> 'a list" where
  "modify_first P f [] = []"
| "modify_first P f (x # xs) = (if P x then f x # xs else x # modify_first P f xs)"

definition prepared :: "note_world \<Rightarrow> notification \<Rightarrow> notification" where
  "prepared w n = n\<lparr>
     nt_CreatedAtMs := (if nt_CreatedAtMs n = 0 then nw_now w else nt_CreatedAtMs n),
     nt_Severity := (if valid_severity (nt_Severity n) then nt_Severity n else ''error'')\<rparr>"

definition with_id :: "note_world \<Rightarrow> notification \<Rightarrow> notification" where
  "with_id w n = (if nt_ID n = [] then n\<lparr>nt_ID := nw_id w\<rparr> else n)"

definition create_note :: "note_world \<Rightarrow> notification \<Rightarrow> note_store \<Rightarrow> notification option \<times> note_store" where
  "create_note w n0 st =
     (if nt_Recipient n0 = [] then (None, st)
      else (let n = prepared w n0 in
        case load_notes w (nt_Recipient n) st of
          (None, st1) \<Rightarrow> (None, st1)
        | (Some ns, st1) \<Rightarrow>
            (case (if nt_ScheduleID n = [] then None else List.find (coalesces n) ns) of
               Some old \<Rightarrow>
                 (if nw_write w then Some (coalesce w n old) else None,
                  save_notes w (nt_Recipient n) (modify_first (coalesces n) (coalesce w n) ns) st1)
             | None \<Rightarrow>
                 (if nw_write w then Some (with_id w n) else None,
                  save_notes w (nt_Recipient n) (retain (ns @ [with_id w n])) st1))))"

definition list_for_user :: "note_world \<Rightarrow> string \<Rightarrow> note_store \<Rightarrow> notification list option \<times> note_store" where
  "list_for_user w user st = (case load_notes w user st of (ns, st1) \<Rightarrow> (map_option newest_first ns, st1))"

definition unread_count :: "note_world \<Rightarrow> string \<Rightarrow> note_store \<Rightarrow> nat option \<times> note_store" where
  "unread_count w user st =
     (case load_notes w user st of (ns, st1) \<Rightarrow> (map_option (\<lambda>ns. length (filter (\<lambda>n. \<not> nt_Read n) ns)) ns, st1))"

definition mark :: "note_world \<Rightarrow> notification \<Rightarrow> notification" where
  "mark w n = n\<lparr>nt_Read := True, nt_UpdatedAtMs := nw_now w\<rparr>"

text \<open>The result of marking is whether no error came back.\<close>

definition mark_read :: "note_world \<Rightarrow> string \<Rightarrow> string \<Rightarrow> note_store \<Rightarrow> bool \<times> note_store" where
  "mark_read w user i st =
     (case load_notes w user st of
        (None, st1) \<Rightarrow> (False, st1)
      | (Some ns, st1) \<Rightarrow>
          if list_ex (\<lambda>n. nt_ID n = i \<and> \<not> nt_Read n) ns
          then (nw_write w, save_notes w user (modify_first (\<lambda>n. nt_ID n = i \<and> \<not> nt_Read n) (mark w) ns) st1)
          else (True, st1))"

definition mark_all_read :: "note_world \<Rightarrow> string \<Rightarrow> note_store \<Rightarrow> bool \<times> note_store" where
  "mark_all_read w user st =
     (case load_notes w user st of
        (None, st1) \<Rightarrow> (False, st1)
      | (Some ns, st1) \<Rightarrow>
          if list_ex (\<lambda>n. \<not> nt_Read n) ns
          then (nw_write w, save_notes w user (map (\<lambda>n. if nt_Read n then n else mark w n) ns) st1)
          else (True, st1))"

section \<open>Histories of the store\<close>

text \<open>Besides the operations, a file may become unreadable or corrupt at any time.\<close>

datatype note_call =
    Create notification
  | ListFor string
  | CountFor string
  | MarkRead string string
  | MarkAllRead string
  | Damage string note_file

fun note_step :: "note_world \<Rightarrow> note_call \<Rightarrow> note_store \<Rightarrow> note_store" where
  "note_step w (Create n) st = snd (create_note w n st)"
| "note_step w (ListFor u) st = snd (list_for_user w u st)"
| "note_step w (CountFor u) st = snd (unread_count w u st)"
| "note_step w (MarkRead u i) st = snd (mark_read w u i st)"
| "note_step w (MarkAllRead u) st = snd (mark_all_read w u st)"
| "note_step w (Damage path f) st = (case f of Notes _ \<Rightarrow> st | _ \<Rightarrow> AList.update path f st)"

definition note_run :: "(note_world \<times> note_call) list \<Rightarrow> note_store \<Rightarrow> note_store" where
  "note_run = fold (\<lambda>(w, c). note_step w c)"

definition unread_schedules :: "notification list \<Rightarrow> string list" where
  "unread_schedules ns = map nt_ScheduleID (filter (\<lambda>n. \<not> nt_Read n \<and> nt_ScheduleID n \<noteq> []) ns)"

definition tidy :: "notification list \<Rightarrow> bool" where
  "tidy ns \<longleftrightarrow> length ns \<le> notification_cap \<and> distinct (unread_schedules ns)"

definition tidy_store :: "note_store \<Rightarrow> bool" where
  "tidy_store st \<longleftrightarrow> (\<forall>p. case map_of st p of Some (Notes ns) \<Rightarrow> tidy ns | _ \<Rightarrow> True)"

section \<open>Sorting and retention\<close>

lemma mset_newest_first [simp]: "mset (newest_first ns) = mset ns"
  by (simp add: newest_first_def)

lemma set_newest_first [simp]: "set (newest_first ns) = set ns"
  by (simp add: newest_first_def)

lemma length_newest_first [simp]: "length (newest_first ns) = length ns"
  by (simp add: newest_first_def)

lemma sorted_newest_first: "sorted_wrt (\<lambda>a b. note_key b \<le> note_key a) (newest_first ns)"
  using sorted_sort_key [of note_key "rev ns"] by (simp add: newest_first_def sorted_wrt_rev sorted_map)

lemma unread_schedules_mset: "mset (unread_schedules ns) = image_mset nt_ScheduleID (filter_mset (\<lambda>n. \<not> nt_Read n \<and> nt_ScheduleID n \<noteq> []) (mset ns))"
  by (simp add: unread_schedules_def mset_filter)

lemma distinct_newest_first: "distinct (unread_schedules (newest_first ns)) = distinct (unread_schedules ns)"
  by (rule mset_eq_imp_distinct_iff) (simp add: unread_schedules_mset)

lemma unread_append: "unread_schedules (xs @ ys) = unread_schedules xs @ unread_schedules ys"
  by (simp add: unread_schedules_def)

lemma distinct_take_unread:
  assumes "distinct (unread_schedules ns)"
  shows "distinct (unread_schedules (take k ns))"
proof -
  have "distinct (unread_schedules (take k ns @ drop k ns))" using assms by simp
  then show ?thesis unfolding unread_append by simp
qed

lemma tidy_retain: "distinct (unread_schedules ns) \<Longrightarrow> tidy (retain ns)"
  by (simp add: tidy_def retain_def distinct_take_unread distinct_newest_first)

section \<open>What the operations keep\<close>

lemma load_tidy:
  assumes "tidy_store st" "load_notes w u st = (ns, st1)"
  shows "tidy_store st1" "ns = Some l \<Longrightarrow> tidy l"
  using assms unfolding load_notes_def tidy_store_def
  by (auto simp: map_of_delete tidy_def unread_schedules_def split: option.splits note_file.splits if_splits)

lemma save_tidy: "tidy_store st \<Longrightarrow> tidy ns \<Longrightarrow> tidy_store (save_notes w u ns st)"
  by (auto simp: save_notes_def tidy_store_def)

lemma unread_schedules_simps [simp]:
  "unread_schedules [] = []"
  "unread_schedules (n # ns) =
     (if \<not> nt_Read n \<and> nt_ScheduleID n \<noteq> [] then nt_ScheduleID n # unread_schedules ns else unread_schedules ns)"
  by (simp_all add: unread_schedules_def)

lemma unread_modify_first:
  assumes "\<And>n. P n \<Longrightarrow> nt_ScheduleID (f n) = nt_ScheduleID n \<and> (nt_Read n \<longrightarrow> nt_Read (f n))"
    and "distinct (unread_schedules ns)"
  shows "distinct (unread_schedules (modify_first P f ns)) \<and>
    set (unread_schedules (modify_first P f ns)) \<subseteq> set (unread_schedules ns)"
  using assms(2)
proof (induction ns)
  case (Cons n ns)
  then show ?case using assms(1) [of n] by (cases "P n") (auto split: if_splits)
qed simp

lemma length_modify_first [simp]: "length (modify_first P f ns) = length ns"
  by (induction ns) auto

lemma tidy_modify_first:
  "(\<And>n. P n \<Longrightarrow> nt_ScheduleID (f n) = nt_ScheduleID n \<and> (nt_Read n \<longrightarrow> nt_Read (f n))) \<Longrightarrow> tidy ns \<Longrightarrow>
   tidy (modify_first P f ns)"
  using unread_modify_first [of P f ns] by (simp add: tidy_def)

lemma tidy_create:
  assumes "tidy_store st"
  shows "tidy_store (snd (create_note w n0 st))"
proof (cases "nt_Recipient n0 = []")
  case False
  let ?n = "prepared w n0"
  obtain l st1 where l: "load_notes w (nt_Recipient ?n) st = (l, st1)" by fastforce
  note t = load_tidy [OF assms l]
  show ?thesis
  proof (cases l)
    case None
    then show ?thesis using False l t(1) by (simp add: create_note_def Let_def)
  next
    case (Some ns)
    have ns: "tidy ns" using t(2) Some by simp
    show ?thesis
    proof (cases "if nt_ScheduleID ?n = [] then None else List.find (coalesces ?n) ns")
      case (Some old)
      have "tidy (modify_first (coalesces ?n) (coalesce w ?n) ns)"
        by (rule tidy_modify_first) (simp_all add: coalesce_def ns)
      then show ?thesis using False l Some \<open>l = Some ns\<close> t(1)
        by (auto simp: create_note_def Let_def intro: save_tidy)
    next
      case None
      have "nt_ScheduleID ?n \<noteq> [] \<longrightarrow> nt_ScheduleID ?n \<notin> set (unread_schedules ns)"
        using None by (auto simp: find_None_iff coalesces_def unread_schedules_def split: if_splits)
      moreover have "nt_ScheduleID (with_id w ?n) = nt_ScheduleID ?n" by (simp add: with_id_def)
      ultimately have "distinct (unread_schedules (ns @ [with_id w ?n]))"
        using ns by (auto simp: tidy_def unread_schedules_def)
      then have "tidy (retain (ns @ [with_id w ?n]))" by (rule tidy_retain)
      then show ?thesis using False l None \<open>l = Some ns\<close> t(1)
        by (auto simp: create_note_def Let_def intro: save_tidy)
    qed
  qed
qed (simp add: create_note_def assms)

lemma tidy_mark_all: "tidy ns \<Longrightarrow> tidy (map (\<lambda>n. if nt_Read n then n else mark w n) ns)"
proof -
  have "filter (\<lambda>n. \<not> nt_Read n \<and> nt_ScheduleID n \<noteq> []) (map (\<lambda>n. if nt_Read n then n else mark w n) ns) = []"
    by (auto simp: filter_empty_conv mark_def)
  then show "tidy ns \<Longrightarrow> ?thesis" by (simp add: tidy_def unread_schedules_def)
qed

lemma tidy_step:
  assumes "tidy_store st"
  shows "tidy_store (note_step w c st)"
proof (cases c)
  case (Create n)
  then show ?thesis using tidy_create [OF assms] by simp
next
  case (ListFor u)
  then show ?thesis using load_tidy(1) [OF assms] by (simp add: list_for_user_def split: prod.split)
next
  case (CountFor u)
  then show ?thesis using load_tidy(1) [OF assms] by (simp add: unread_count_def split: prod.split)
next
  case (MarkRead u i)
  obtain l st1 where l: "load_notes w u st = (l, st1)" by fastforce
  note t = load_tidy [OF assms l]
  have "tidy (modify_first (\<lambda>n. nt_ID n = i \<and> \<not> nt_Read n) (mark w) ns)" if "l = Some ns" for ns
    by (rule tidy_modify_first) (use t(2) [OF that] in \<open>simp_all add: mark_def\<close>)
  then show ?thesis using MarkRead l t(1)
    by (cases l) (auto simp: mark_read_def intro: save_tidy)
next
  case (MarkAllRead u)
  obtain l st1 where l: "load_notes w u st = (l, st1)" by fastforce
  note t = load_tidy [OF assms l]
  show ?thesis using MarkAllRead l t tidy_mark_all
    by (cases l) (auto simp: mark_all_read_def intro!: save_tidy)
next
  case (Damage p f)
  then show ?thesis using assms by (cases f) (auto simp: tidy_store_def)
qed

text \<open>
  Over every history of creations, readings, markings and damage to the files, with failing writes
  and renames anywhere, a user's file that can be read holds at most fifty notifications and at most one
  unread one per schedule: a flapping schedule is one item of the bell.
\<close>

theorem notifications_coalesced_and_capped:
  "case map_of (note_run cs []) path of
     Some (Notes ns) \<Rightarrow> length ns \<le> 50 \<and> distinct (unread_schedules ns)
   | _ \<Rightarrow> True"
proof -
  have "tidy_store (note_run cs [])"
    unfolding note_run_def
    by (rule fold_invariant [where Q = "\<lambda>_. True"]) (auto simp: tidy_store_def [of "[]"] intro: tidy_step)
  then show ?thesis by (auto simp: tidy_store_def tidy_def notification_cap_def split: option.splits note_file.splits)
qed

section \<open>What a creation leaves in the list\<close>

lemma load_after_save: "nw_write w \<Longrightarrow> fst (load_notes w' u (save_notes w u ns st)) = Some ns"
  by (simp add: load_notes_def save_notes_def)

lemma modify_first_find: "List.find P xs = Some x \<Longrightarrow> f x \<in> set (modify_first P f xs)"
  by (induction xs) (auto split: if_splits)

lemma newest_kept:
  assumes "n \<in> set ns" "\<And>m. m \<in> set ns \<Longrightarrow> note_key m \<le> note_key n"
  shows "n \<in> set (retain ns) \<or> (\<exists>m\<in>set (retain ns). note_key m = note_key n)"
proof (cases "length ns \<le> notification_cap")
  case False
  let ?s = "newest_first ns"
  have ne: "?s \<noteq> []" using assms(1) by (metis empty_iff list.set(1) set_newest_first)
  then obtain m ms where s: "?s = m # ms" by (cases ?s) auto
  have "note_key n \<le> note_key m"
    using sorted_newest_first [of ns] assms(1) set_newest_first [of ns] unfolding s by auto
  moreover have "m \<in> set ns" using set_newest_first [of ns] unfolding s by auto
  ultimately have "note_key m = note_key n" using assms(2) by (simp add: antisym)
  moreover have "m \<in> set (take notification_cap ?s)" by (simp add: s notification_cap_def)
  ultimately show ?thesis using False by (auto simp: retain_def)
qed (use assms(1) in \<open>simp add: retain_def\<close>)

lemma retain_drops_older:
  assumes "n \<in> set ns" "n \<notin> set (retain ns)"
  shows "length (retain ns) = notification_cap \<and> list_all (\<lambda>m. note_key n \<le> note_key m) (retain ns)"
proof -
  have big: "\<not> length ns \<le> notification_cap" using assms by (auto simp: retain_def)
  let ?s = "newest_first ns"
  have "n \<in> set (take notification_cap ?s) \<union> set (drop notification_cap ?s)"
    using assms(1) unfolding set_append [symmetric] append_take_drop_id by simp
  then have "n \<in> set (drop notification_cap ?s)" using assms(2) big by (auto simp: retain_def)
  moreover have "sorted_wrt (\<lambda>a b. note_key b \<le> note_key a) (take notification_cap ?s @ drop notification_cap ?s)"
    using sorted_newest_first [of ns] by simp
  ultimately have "list_all (\<lambda>m. note_key n \<le> note_key m) (take notification_cap ?s)"
    unfolding sorted_wrt_append list_all_iff by blast
  then show ?thesis using big by (simp add: retain_def)
qed

text \<open>
  A notification that creation returned is in its recipient's list, or that list is full of fifty
  that were created no earlier; one that was coalesced is always in it.
\<close>

theorem created_notification_listed:
  assumes "create_note w n0 st = (Some n, st')"
  shows "\<exists>l. fst (list_for_user w' (nt_Recipient n0) st') = Some l \<and>
    (if n \<in> set l then True else length l = 50 \<and> list_all (\<lambda>m. note_key n \<le> note_key m) l)"
proof -
  let ?n = "prepared w n0" and ?r = "nt_Recipient n0"
  have r: "?r \<noteq> []" using assms by (auto simp: create_note_def)
  have same: "nt_Recipient ?n = ?r" by (simp add: prepared_def)
  obtain ns st1 where l: "load_notes w ?r st = (Some ns, st1)"
    using assms r same by (auto simp: create_note_def Let_def split: prod.splits option.splits)
  have wr: "nw_write w" using assms r l same
    by (auto simp: create_note_def Let_def split: option.splits if_splits)
  show ?thesis
  proof (cases "if nt_ScheduleID ?n = [] then None else List.find (coalesces ?n) ns")
    case (Some old)
    let ?l = "modify_first (coalesces ?n) (coalesce w ?n) ns"
    have n: "n = coalesce w ?n old" "st' = save_notes w ?r ?l st1"
      using assms r l same Some wr by (auto simp: create_note_def Let_def)
    have "List.find (coalesces ?n) ns = Some old" using Some by (simp split: if_splits)
    then have "n \<in> set ?l" unfolding n(1) by (rule modify_first_find)
    moreover have "fst (load_notes w' ?r st') = Some ?l" unfolding n(2) by (rule load_after_save [OF wr])
    ultimately show ?thesis by (simp add: list_for_user_def split_beta)
  next
    case None
    let ?l = "retain (ns @ [with_id w ?n])"
    have n: "n = with_id w ?n" "st' = save_notes w ?r ?l st1"
      using assms r l same None wr by (auto simp: create_note_def Let_def)
    have "fst (load_notes w' ?r st') = Some ?l" unfolding n(2) by (rule load_after_save [OF wr])
    moreover have "n \<in> set (ns @ [with_id w ?n])" unfolding n(1) by simp
    ultimately show ?thesis using retain_drops_older [of n "ns @ [with_id w ?n]"]
      by (auto simp: list_for_user_def split_beta list_all_iff notification_cap_def)
  qed
qed

definition plain_note_world :: note_world where
  "plain_note_world = \<lparr>nw_now = 5, nw_id = ''n1'', nw_write = True, nw_rename = True\<rparr>"

definition sample_note :: notification where
  "sample_note = \<lparr>nt_Recipient = ''u'', nt_ID = [], nt_Type = ''schedule_failed'', nt_Title = ''t'', nt_Body = ''b'',
     nt_Severity = ''loud'', nt_Read = False, nt_CreatedAtMs = 0, nt_UpdatedAtMs = 0, nt_ScheduleID = ''s1'',
     nt_SessionID = [], nt_AgentID = ''a''\<rparr>"

theorem created_notification_listed_witness:
  "let (n, st) = create_note plain_note_world sample_note [] in
   map_option (\<lambda>l. length l) (fst (list_for_user plain_note_world ''u'' st)) = Some 1 \<and>
   fst (list_for_user plain_note_world ''u'' st) = map_option (\<lambda>x. [x]) n"
proof -
  have c: "create_note plain_note_world sample_note [] =
      (Some (with_id plain_note_world (prepared plain_note_world sample_note)), snd (create_note plain_note_world sample_note []))"
    by code_simp
  obtain l where "fst (list_for_user plain_note_world ''u'' (snd (create_note plain_note_world sample_note []))) = Some l"
    "with_id plain_note_world (prepared plain_note_world sample_note) \<in> set l \<or> length l = 50"
    using created_notification_listed [OF c, of plain_note_world] by (auto simp: sample_note_def split: if_splits)
  moreover have "fst (list_for_user plain_note_world ''u'' (snd (create_note plain_note_world sample_note []))) =
      Some [with_id plain_note_world (prepared plain_note_world sample_note)]"
    by (simp add: list_for_user_def load_notes_def create_note_def plain_note_world_def sample_note_def prepared_def
        Let_def save_notes_def retain_def notification_cap_def newest_first_def user_file_def)
  ultimately show ?thesis by (subst c) auto
qed

end
