(* ===== verification/Scheduled_Runner.thy ===== *)
theory Scheduled_Runner
  imports Cron_Outcomes Notifications Gateway_Http
begin

text \<open>
  What a fired schedule does (the \<open>scheduledRunner\<close> of pkg/gateway/schedules.go): the owner check, the
  direct delivery, the session it picks, the turn of the owning agent, and the alerts of a failure. The
  agent loop, the session store, the message bus and the channel registry are arguments; the runner's
  own effects are a log of turns, live pushes and messages, and the notification store. The channel and
  chat a turn also gets are those of the job's payload.
\<close>

section \<open>Configuration and surroundings\<close>

record agent_entry =
  ae_ID :: string
  ae_Type :: string
  ae_OwnerUsername :: string

record sched_config =
  sg_Agents :: "agent_entry list"
  sg_Users :: "user_config list"
  sg_Bindings :: "(string \<times> string) list"
  sg_RunTimeoutSeconds :: int

text \<open>How a turn ends; the last two are a cancelled context and any other error.\<close>

datatype turn_result = Turn_ok | Turn_deadline | Turn_cancelled string | Turn_error string

text \<open>
  The checker and the channel registry may be missing; publishing a message gives an error text or
  none; the session store may be missing, and creates or fetches the id of a session or an error text.
\<close>

record runner_env =
  re_config :: "sched_config option"
  re_checker :: "(string \<Rightarrow> bool) option"
  re_channels :: "(string \<Rightarrow> bool) option"
  re_publish :: "string \<Rightarrow> string \<Rightarrow> string \<Rightarrow> string option"
  re_process :: "string \<Rightarrow> string \<Rightarrow> string \<Rightarrow> turn_result"
  re_store :: bool
  re_newSession :: "string \<Rightarrow> string + string"
  re_getSession :: "string \<Rightarrow> string \<Rightarrow> string + string"
  re_notes :: bool
  re_noteWorld :: note_world

record sched_world =
  sw_notes :: note_store
  sw_turns :: "(string \<times> string \<times> string) list"
  sw_pushed :: "(string \<times> notification) list"
  sw_outbound :: "(string \<times> string \<times> string) list"

definition default_run_timeout_seconds :: int where "default_run_timeout_seconds = 300"
definition notification_admin_broadcast :: string where "notification_admin_broadcast = ''_admin_''"

definition find_agent_config :: "sched_config option \<Rightarrow> string \<Rightarrow> agent_entry option" where
  "find_agent_config cfg a =
     (case cfg of None \<Rightarrow> None
      | Some c \<Rightarrow> if a = [] then None else List.find (\<lambda>e. ae_ID e = a) (sg_Agents c))"

definition system_agent_entry :: "agent_entry \<Rightarrow> bool" where
  "system_agent_entry a \<longleftrightarrow> ae_Type a = ''system'' \<or> ae_Type a = ''core''"

text \<open>\<open>AuthorizeAgentAccess\<close> without its error values.\<close>

definition authorize_agent_access :: "user_config \<Rightarrow> agent_entry \<Rightarrow> bool" where
  "authorize_agent_access user a =
     (if system_agent_entry a then True
      else if ae_OwnerUsername a = [] then False
      else uc_Role user = UserRoleAdmin \<or> uc_Username user = ae_OwnerUsername a)"

definition resolve_agent_default_channel :: "sched_config option \<Rightarrow> string \<Rightarrow> string \<times> string" where
  "resolve_agent_default_channel cfg a =
     (case cfg of None \<Rightarrow> ([], [])
      | Some c \<Rightarrow> if a = [] then ([], [])
          else (case List.find (\<lambda>(b, ch). b = a \<and> ch \<noteq> [] \<and> ch \<noteq> ''*'') (sg_Bindings c) of
                  Some (_, ch) \<Rightarrow> (ch, []) | None \<Rightarrow> ([], [])))"

section \<open>Failures\<close>

definition transient_markers :: "string list" where
  "transient_markers =
     [''rate limit'', ''rate-limit'', ''ratelimit'', ''429'', ''overloaded'', ''overload'', ''503'', ''502'', ''504'',
      ''500'', ''server error'', ''internal server error'', ''bad gateway'', ''service unavailable'',
      ''temporarily unavailable'', ''provider unavailable'', ''timeout'', ''timed out'', ''connection reset'',
      ''connection refused'', ''network'', ''eof'', ''no route to host'', ''i/o timeout'', ''try again'']"

definition is_transient_run_error :: "turn_result \<Rightarrow> bool" where
  "is_transient_run_error r =
     (case r of Turn_error m \<Rightarrow> list_ex (contains_sub (to_lower m)) transient_markers | _ \<Rightarrow> False)"

definition schedule_display_name :: "cron_job \<Rightarrow> string" where
  "schedule_display_name j = (if cj_Name j \<noteq> [] then cj_Name j else cj_ID j)"

definition add_recipient :: "string \<Rightarrow> string list \<Rightarrow> string list" where
  "add_recipient u us = (if u = [] \<or> u \<in> set us then us else us @ [u])"

definition resolve_recipients :: "cron_job \<Rightarrow> sched_config option \<Rightarrow> string list" where
  "resolve_recipients j cfg =
     (let owner = (case find_agent_config cfg (cj_AgentID j) of Some a \<Rightarrow> ae_OwnerUsername a | None \<Rightarrow> []);
          named = add_recipient owner (add_recipient (cj_CreatedBy j) []);
          admins = (case cfg of None \<Rightarrow> [] | Some c \<Rightarrow>
            fold (\<lambda>u. add_recipient (uc_Username u)) (filter (\<lambda>u. uc_Role u = UserRoleAdmin) (sg_Users c)) []);
          out = (if named = [] then admins else named)
      in if out = [] then [notification_admin_broadcast] else out)"

definition failure_note :: "cron_job \<Rightarrow> string \<Rightarrow> string \<Rightarrow> string \<Rightarrow> notification" where
  "failure_note j session_id body recipient =
     \<lparr>nt_Recipient = recipient, nt_ID = [], nt_Type = ''schedule_failed'',
      nt_Title = ''Schedule '' @ go_quote (schedule_display_name j) @ '' failed'', nt_Body = body,
      nt_Severity = ''error'', nt_Read = False, nt_CreatedAtMs = 0, nt_UpdatedAtMs = 0, nt_ScheduleID = cj_ID j,
      nt_SessionID = session_id, nt_AgentID = cj_AgentID j\<rparr>"

definition notify_one :: "runner_env \<Rightarrow> cron_job \<Rightarrow> string \<Rightarrow> string \<Rightarrow> string \<Rightarrow> sched_world \<Rightarrow> sched_world" where
  "notify_one env j session_id body recipient sw =
     (let n = failure_note j session_id body recipient;
          (stored, notes) =
            (if re_notes env \<and> recipient \<noteq> notification_admin_broadcast then
               (case create_note (re_noteWorld env) n (sw_notes sw) of
                  (Some m, st) \<Rightarrow> (m, st) | (None, st) \<Rightarrow> (n, st))
             else (n, sw_notes sw))
      in sw\<lparr>sw_notes := notes, sw_pushed := sw_pushed sw @ [(recipient, stored)]\<rparr>)"

definition warning_sign :: string where "warning_sign = [CHR 0xE2, CHR 0x9A, CHR 0xA0]"

definition publish :: "runner_env \<Rightarrow> string \<Rightarrow> string \<Rightarrow> string \<Rightarrow> sched_world \<Rightarrow> string option \<times> sched_world" where
  "publish env channel chat content sw =
     (case re_publish env channel chat content of
        None \<Rightarrow> (None, sw\<lparr>sw_outbound := sw_outbound sw @ [(channel, chat, content)]\<rparr>)
      | Some e \<Rightarrow> (Some e, sw))"

definition publish_channel_alert :: "runner_env \<Rightarrow> cron_job \<Rightarrow> string \<Rightarrow> sched_world \<Rightarrow> sched_world" where
  "publish_channel_alert env j body sw =
     (let (channel, chat) = (if cp_Channel (cj_Payload j) = [] then resolve_agent_default_channel (re_config env) (cj_AgentID j)
                             else (cp_Channel (cj_Payload j), cp_To (cj_Payload j)))
      in if channel = [] then sw
         else snd (publish env channel chat
           (warning_sign @ '' Scheduled task '' @ go_quote (schedule_display_name j) @ '' failed: '' @ body) sw))"

definition on_failure :: "runner_env \<Rightarrow> cron_job \<Rightarrow> string \<Rightarrow> string \<Rightarrow> sched_world \<Rightarrow> sched_world" where
  "on_failure env j session_id body sw =
     publish_channel_alert env j body
       (fold (notify_one env j session_id body) (resolve_recipients j (re_config env)) sw)"

section \<open>The run\<close>

definition channel_is_active :: "runner_env \<Rightarrow> string \<Rightarrow> bool" where
  "channel_is_active env ch = (case re_channels env of None \<Rightarrow> True | Some reg \<Rightarrow> reg ch)"

text \<open>The session a run uses, or an error text.\<close>

definition pick_session :: "runner_env \<Rightarrow> cron_job \<Rightarrow> string \<Rightarrow> string + string" where
  "pick_session env j owner =
     (if \<not> re_store env then Inl ''session store unavailable''
      else if cj_SessionMode j = ''continue'' then
        (if cj_SessionID j = [] then
           (case re_newSession env owner of Inl e \<Rightarrow> Inl (''continue session create: '' @ e) | Inr i \<Rightarrow> Inr i)
         else
           (case re_getSession env (cj_SessionID j) owner of
              Inr i \<Rightarrow> Inr i
            | Inl _ \<Rightarrow> (case re_newSession env owner of Inl e \<Rightarrow> Inl (''continue fallback create: '' @ e) | Inr i \<Rightarrow> Inr i)))
      else if cj_SessionMode j = ''main'' then
        (case re_getSession env (''sched-main-'' @ owner) owner of Inl e \<Rightarrow> Inl (''main session create: '' @ e) | Inr i \<Rightarrow> Inr i)
      else (case re_newSession env owner of Inl e \<Rightarrow> Inl (''isolated session create: '' @ e) | Inr i \<Rightarrow> Inr i))"

definition run_timeout :: "runner_env \<Rightarrow> cron_job \<Rightarrow> int" where
  "run_timeout env j =
     (if cj_TimeoutSeconds j > 0 then cj_TimeoutSeconds j
      else (let t = (case re_config env of None \<Rightarrow> cj_TimeoutSeconds j | Some c \<Rightarrow> sg_RunTimeoutSeconds c) in
        if t > 0 then t else default_run_timeout_seconds))"

text \<open>A run is refused with an alert; the text the lane records may wrap the text of the alert.\<close>

definition refused :: "runner_env \<Rightarrow> cron_job \<Rightarrow> string \<Rightarrow> string \<Rightarrow> sched_world \<Rightarrow> run_outcome \<times> sched_world" where
  "refused env j body err sw = (([], Some (Failed err)), on_failure env j [] body sw)"

definition deliver_message :: "runner_env \<Rightarrow> cron_job \<Rightarrow> sched_world \<Rightarrow> run_outcome \<times> sched_world" where
  "deliver_message env j sw =
     (let channel = cp_Channel (cj_Payload j) in
      if channel = [] then
        (let e = ''deliver=true schedule has no channel configured'' in refused env j e e sw)
      else if \<not> channel_is_active env channel then
        (let e = ''deliver=true schedule target channel '' @ go_quote channel @ '' is not registered/active''
         in refused env j e e sw)
      else (case publish env channel (cp_To (cj_Payload j)) (cp_Message (cj_Payload j)) sw of
              (Some e, sw1) \<Rightarrow> refused env j e (''deliver failed: '' @ e) sw1
            | (None, sw1) \<Rightarrow> (([], None), sw1)))"

definition turn_error :: "runner_env \<Rightarrow> cron_job \<Rightarrow> turn_result \<Rightarrow> run_error option" where
  "turn_error env j r =
     (case r of
        Turn_ok \<Rightarrow> None
      | Turn_deadline \<Rightarrow>
          Some (Deadline (''scheduled run timed out after '' @ itoa (run_timeout env j) @ ''s: context deadline exceeded''))
      | Turn_cancelled m \<Rightarrow> Some (Failed m)
      | Turn_error m \<Rightarrow> Some (if is_transient_run_error r then Transient m else Failed m))"

definition wake_agent :: "runner_env \<Rightarrow> cron_job \<Rightarrow> sched_world \<Rightarrow> run_outcome \<times> sched_world" where
  "wake_agent env j sw =
     (case pick_session env j (cj_AgentID j) of
        Inl e \<Rightarrow> refused env j e e sw
      | Inr session_id \<Rightarrow>
          let sw1 = sw\<lparr>sw_turns := sw_turns sw @ [(cj_AgentID j, session_id, cp_Message (cj_Payload j))]\<rparr>;
              err = turn_error env j (re_process env (cj_AgentID j) session_id (cp_Message (cj_Payload j)))
          in ((session_id, err),
              case err of None \<Rightarrow> sw1 | Some _ \<Rightarrow> on_failure env j session_id (run_error_text err) sw1))"

definition owner_available :: "runner_env \<Rightarrow> string \<Rightarrow> bool" where
  "owner_available env owner \<longleftrightarrow> owner \<noteq> [] \<and> (case re_checker env of None \<Rightarrow> False | Some ok \<Rightarrow> ok owner)"

definition run_scheduled :: "runner_env \<Rightarrow> cron_job \<Rightarrow> sched_world \<Rightarrow> run_outcome \<times> sched_world" where
  "run_scheduled env j sw =
     (if \<not> owner_available env (cj_AgentID j) then
        (let e = ''owner unavailable: agent '' @ go_quote (cj_AgentID j) @ '' is not registered or is disabled''
         in refused env j e e sw)
      else if cp_Deliver (cj_Payload j) then deliver_message env j sw
      else wake_agent env j sw)"

section \<open>Recipients and effects\<close>

lemma add_recipient_distinct: "distinct us \<Longrightarrow> [] \<notin> set us \<Longrightarrow> distinct (add_recipient u us) \<and> [] \<notin> set (add_recipient u us)"
  by (auto simp: add_recipient_def)

lemma fold_recipients:
  "distinct us \<Longrightarrow> [] \<notin> set us \<Longrightarrow>
   distinct (fold (\<lambda>u. add_recipient (f u)) xs us) \<and> [] \<notin> set (fold (\<lambda>u. add_recipient (f u)) xs us)"
  by (induction xs arbitrary: us) (use add_recipient_distinct in auto)

lemma resolve_recipients_proper:
  "resolve_recipients j cfg \<noteq> []" "distinct (resolve_recipients j cfg)" "[] \<notin> set (resolve_recipients j cfg)"
proof -
  have one: "distinct (add_recipient u (add_recipient v []))" "[] \<notin> set (add_recipient u (add_recipient v []))" for u v
    by (auto simp: add_recipient_def)
  show "resolve_recipients j cfg \<noteq> []" by (simp add: resolve_recipients_def Let_def)
  show "distinct (resolve_recipients j cfg)" "[] \<notin> set (resolve_recipients j cfg)"
    using one fold_recipients [of "[]" "uc_Username :: user_config \<Rightarrow> string"]
    by (auto simp: resolve_recipients_def Let_def notification_admin_broadcast_def split: option.splits)
qed

lemma notify_one_simps [simp]:
  "sw_turns (notify_one env j i b r sw) = sw_turns sw" "sw_outbound (notify_one env j i b r sw) = sw_outbound sw"
  "map fst (sw_pushed (notify_one env j i b r sw)) = map fst (sw_pushed sw) @ [r]"
  by (simp_all add: notify_one_def Let_def split_beta)

lemma fold_notify:
  "sw_turns (fold (notify_one env j i b) rs sw) = sw_turns sw"
  "sw_outbound (fold (notify_one env j i b) rs sw) = sw_outbound sw"
  "map fst (sw_pushed (fold (notify_one env j i b) rs sw)) = map fst (sw_pushed sw) @ rs"
  by (induction rs arbitrary: sw) auto

lemma publish_simps [simp]:
  "sw_turns (snd (publish env c t m sw)) = sw_turns sw" "sw_pushed (snd (publish env c t m sw)) = sw_pushed sw"
  by (simp_all add: publish_def split: option.split)

lemma publish_channel_alert_simps [simp]:
  "sw_turns (publish_channel_alert env j b sw) = sw_turns sw"
  "sw_pushed (publish_channel_alert env j b sw) = sw_pushed sw"
  by (simp_all add: publish_channel_alert_def Let_def split_beta)

lemma on_failure_simps [simp]:
  "sw_turns (on_failure env j i b sw) = sw_turns sw"
  "map fst (sw_pushed (on_failure env j i b sw)) = map fst (sw_pushed sw) @ resolve_recipients j (re_config env)"
  by (simp_all add: on_failure_def fold_notify)

lemma refused_simps [simp]:
  "fst (refused env j b e sw) = ([], Some (Failed e))" "sw_turns (snd (refused env j b e sw)) = sw_turns sw"
  "map fst (sw_pushed (snd (refused env j b e sw))) = map fst (sw_pushed sw) @ resolve_recipients j (re_config env)"
  by (simp_all add: refused_def)

lemma deliver_message_effects:
  "sw_turns (snd (deliver_message env j sw)) = sw_turns sw"
  "map fst (sw_pushed (snd (deliver_message env j sw))) = map fst (sw_pushed sw) @
     (if snd (fst (deliver_message env j sw)) = None then [] else resolve_recipients j (re_config env))"
proof -
  obtain e sw1 where p: "publish env (cp_Channel (cj_Payload j)) (cp_To (cj_Payload j)) (cp_Message (cj_Payload j)) sw = (e, sw1)"
    by fastforce
  then have "sw_turns sw1 = sw_turns sw" "sw_pushed sw1 = sw_pushed sw" using publish_simps by (metis snd_conv)+
  then show "sw_turns (snd (deliver_message env j sw)) = sw_turns sw"
    "map fst (sw_pushed (snd (deliver_message env j sw))) = map fst (sw_pushed sw) @
     (if snd (fst (deliver_message env j sw)) = None then [] else resolve_recipients j (re_config env))"
    by (cases e; simp add: deliver_message_def Let_def p)+
qed

lemma wake_agent_effects:
  "\<exists>ts. sw_turns (snd (wake_agent env j sw)) = sw_turns sw @ ts \<and>
     list_all (\<lambda>(a, _, m). a = cj_AgentID j \<and> m = cp_Message (cj_Payload j)) ts \<and> length ts \<le> 1"
  "map fst (sw_pushed (snd (wake_agent env j sw))) = map fst (sw_pushed sw) @
     (if snd (fst (wake_agent env j sw)) = None then [] else resolve_recipients j (re_config env))"
  by (cases "pick_session env j (cj_AgentID j)"; simp add: wake_agent_def Let_def split: option.split)+

text \<open>
  A fired schedule wakes at most one agent, once, and only its owner, which must be available; it
  wakes none when it delivers its message itself. It succeeds silently or fails with an alert: a failure
  pushes one notification to each of its recipients, of which there is always at least one, none
  twice, and a success pushes none.
\<close>

theorem scheduled_run_owner_and_alerts:
  "\<exists>ts. sw_turns (snd (run_scheduled env j sw)) = sw_turns sw @ ts \<and> length ts \<le> 1 \<and>
     list_all (\<lambda>(a, _, m). a = cj_AgentID j \<and> m = cp_Message (cj_Payload j) \<and> owner_available env a \<and>
       \<not> cp_Deliver (cj_Payload j)) ts \<and>
     map fst (sw_pushed (snd (run_scheduled env j sw))) = map fst (sw_pushed sw) @
       (if snd (fst (run_scheduled env j sw)) = None then [] else resolve_recipients j (re_config env)) \<and>
     resolve_recipients j (re_config env) \<noteq> [] \<and> distinct (resolve_recipients j (re_config env))"
proof (cases "owner_available env (cj_AgentID j) \<and> \<not> cp_Deliver (cj_Payload j)")
  case True
  then show ?thesis using wake_agent_effects [of env j sw] resolve_recipients_proper [of j "re_config env"]
    by (auto simp: run_scheduled_def list_all_iff split_beta)
next
  case False
  have "sw_turns (snd (run_scheduled env j sw)) = sw_turns sw"
    "map fst (sw_pushed (snd (run_scheduled env j sw))) = map fst (sw_pushed sw) @
       (if snd (fst (run_scheduled env j sw)) = None then [] else resolve_recipients j (re_config env))"
    using False deliver_message_effects [of env j sw] by (auto simp: run_scheduled_def Let_def)
  then show ?thesis using resolve_recipients_proper [of j "re_config env"] by (intro exI [of _ "[]"]) simp
qed

end
