(* ===== verification/Schedules_Api.thy ===== *)
theory Schedules_Api
  imports Scheduled_Runner Gateway_Users
begin

text \<open>
  The schedule and notification endpoints (pkg/gateway/schedules.go) and their composition with the
  cron service and the scheduled runner. Bodies come decoded (\<^const>\<open>None\<close> when the decoder fails),
  the cron-expression check is an argument, and the endpoint that runs a schedule now is modelled for a
  lane without other work: begin, run, finish. Responses are JSON as the generated types encode them.
\<close>

section \<open>A schedule fires\<close>

definition fire :: "ticker \<Rightarrow> (cron_job \<Rightarrow> 'w \<Rightarrow> run_outcome \<times> 'w) \<Rightarrow> cron_world \<Rightarrow> cron_world \<Rightarrow> string \<Rightarrow>
    cron_service \<Rightarrow> 'w \<Rightarrow> cron_service \<times> 'w" where
  "fire tick run w1 w2 i sv x =
     (case begin_run tick w1 i sv of
        (sv1, None) \<Rightarrow> (sv1, x)
      | (sv1, Some r) \<Rightarrow>
          (case (if lr_hasRunner r then run (lr_job r) x else (([], None), x)) of
             (out, x1) \<Rightarrow> (finish_run tick w2 r out sv1, x1)))"

text \<open>The contract of \<open>ScheduledRunner\<close>: a failure alerts someone and a success no one.\<close>

locale scheduled_runner =
  fixes run :: "cron_job \<Rightarrow> 'w \<Rightarrow> run_outcome \<times> 'w" and alerts :: "'w \<Rightarrow> string list"
    and recipients :: "cron_job \<Rightarrow> string list"
  assumes alerted: "alerts (snd (run j x)) = alerts x @ (if snd (fst (run j x)) = None then [] else recipients j)"
    and someone: "recipients j \<noteq> []"
begin

lemma fire_cases:
  assumes "get_job i sv = Some j" "cs_hasRunner sv" "sc_Kind (cj_Schedule j) \<noteq> ''at''"
  shows "if job_running j \<or> cj_AgentID j = [] then snd (fire tick run w1 w2 i sv x) = x
    else (\<exists>out j'. run (set_running True j) x = (out, snd (fire tick run w1 w2 i sv x)) \<and>
      get_job i (fst (fire tick run w1 w2 i sv x)) = Some j' \<and>
      js_LastStatus (cj_State j') = run_status (snd out))"
proof (cases "job_running j \<or> cj_AgentID j = []")
  case True
  then have "\<exists>sv1. begin_run tick w1 i sv = (sv1, None)" using assms by (auto simp: begin_run_def)
  then show ?thesis using True by (auto simp: fire_def)
next
  case False
  let ?r = "\<lparr>lr_job = set_running True j, lr_start = cw_now w1, lr_hasRunner = True\<rparr>"
  let ?sv = "save_store w1 (modify i (set_running True) sv)"
  have i: "run_id ?r = i" using get_job_Some [OF assms(1)] by simp
  have b: "begin_run tick w1 i sv = (?sv, Some ?r)" using False assms by (simp add: begin_run_def)
  obtain out x1 where o: "run (set_running True j) x = (out, x1)" by fastforce
  have f: "fire tick run w1 w2 i sv x = (finish_run tick w2 ?r out ?sv, x1)" by (simp add: fire_def b o)
  have "get_job i ?sv = Some (set_running True j)"
    using get_job_modify [of i "set_running True" sv] assms(1) by simp
  then have "get_job i (finish_run tick w2 ?r out ?sv) =
      Some (finished_job tick (cs_retryBackoffMs ?sv) w2 ?r (runner_outcome ?r out) (set_running True j))"
    using get_job_finish(1) [of ?r ?sv "set_running True j" tick w2 out] assms(3) i by simp
  moreover have "js_LastStatus (cj_State (finished_job tick b w2 ?r q k)) = run_status (snd q)" for b q k
    by (simp add: finished_job_def next_cadence_def record_state_def set_next_run_def)
  moreover have "runner_outcome ?r out = out" by (simp add: runner_outcome_def)
  ultimately show ?thesis using False o f by simp
qed

lemma fire_status_alerts:
  assumes "get_job i sv = Some j" "cs_hasRunner sv" "sc_Kind (cj_Schedule j) \<noteq> ''at''"
    and "\<not> job_running j" "cj_AgentID j \<noteq> []"
  shows "\<exists>j'. get_job i (fst (fire tick run w1 w2 i sv x)) = Some j' \<and>
    (js_LastStatus (cj_State j') = ''ok'' \<longleftrightarrow> alerts (snd (fire tick run w1 w2 i sv x)) = alerts x)"
proof -
  obtain out j' where o: "run (set_running True j) x = (out, snd (fire tick run w1 w2 i sv x))"
    "get_job i (fst (fire tick run w1 w2 i sv x)) = Some j'" "js_LastStatus (cj_State j') = run_status (snd out)"
    using fire_cases [OF assms(1-3), of tick w1 w2 x] assms(4,5) by auto
  have "alerts (snd (fire tick run w1 w2 i sv x)) = alerts x @ (if snd out = None then [] else recipients (set_running True j))"
    using alerted [of "set_running True j" x] o(1) by simp
  then have "alerts (snd (fire tick run w1 w2 i sv x)) = alerts x \<longleftrightarrow> snd out = None"
    using someone [of "set_running True j"] by auto
  moreover have "run_status (snd out) = ''ok'' \<longleftrightarrow> snd out = None"
    by (simp add: run_status_def split: option.split run_error.split)
  ultimately show ?thesis using o by auto
qed

end

lemma run_scheduled_alerts:
  "map fst (sw_pushed (snd (run_scheduled env j sw))) = map fst (sw_pushed sw) @
     (if snd (fst (run_scheduled env j sw)) = None then [] else resolve_recipients j (re_config env))"
  using deliver_message_effects(2) [of env j sw] wake_agent_effects(2) [of env j sw]
  by (simp add: run_scheduled_def Let_def)

interpretation gateway_runner: scheduled_runner "run_scheduled env" "\<lambda>sw. map fst (sw_pushed sw)"
    "\<lambda>j. resolve_recipients j (re_config env)" for env
  by unfold_locales (simp_all add: run_scheduled_alerts resolve_recipients_proper)

text \<open>
  When a recurring schedule with an owner fires and is not already running, what the cron service
  records and what the gateway tells its users agree: the last status is ok exactly when nobody was
  notified.
\<close>

theorem recorded_status_matches_alerts:
  assumes "get_job i sv = Some j" "cs_hasRunner sv" "sc_Kind (cj_Schedule j) \<noteq> ''at''"
    and "\<not> job_running j" "cj_AgentID j \<noteq> []"
  shows "\<exists>j'. get_job i (fst (fire tick (run_scheduled env) w1 w2 i sv x)) = Some j' \<and>
    (js_LastStatus (cj_State j') = ''ok'' \<longleftrightarrow>
     map fst (sw_pushed (snd (fire tick (run_scheduled env) w1 w2 i sv x))) = map fst (sw_pushed x))"
  by (rule gateway_runner.fire_status_alerts [OF assms])

definition idle_env :: runner_env where
  "idle_env = \<lparr>re_config = None, re_checker = Some (\<lambda>a. a = ''a''), re_channels = None, re_publish = (\<lambda>_ _ _. None),
     re_process = (\<lambda>_ _ _. Turn_error ''HTTP 503''), re_store = True, re_newSession = (\<lambda>_. Inr ''s1''),
     re_getSession = (\<lambda>i _. Inr i), re_notes = True, re_noteWorld = plain_note_world\<rparr>"

definition quiet_world :: sched_world where
  "quiet_world = \<lparr>sw_notes = [], sw_turns = [], sw_pushed = [], sw_outbound = []\<rparr>"

theorem recorded_status_matches_alerts_witness:
  "let (sv, sw) = fire no_ticks (run_scheduled idle_env) (world_at 7) (world_at 9) ''j1'' hourly_service quiet_world in
   map fst (sw_pushed sw) = [''u''] \<and> sw_turns sw = [(''a'', ''s1'', ''report'')] \<and>
   map_option (\<lambda>j. (js_LastStatus (cj_State j), next_run j)) (get_job ''j1'' sv) = Some (''error'', Some 60009)"
proof -
  let ?f = "fire no_ticks (run_scheduled idle_env) (world_at 7) (world_at 9) ''j1'' hourly_service quiet_world"
  let ?j = "spec_job no_ticks (world_at 0) hourly"
  have c: "get_job ''j1'' hourly_service = Some ?j" "cs_hasRunner hourly_service" "sc_Kind (cj_Schedule ?j) \<noteq> ''at''"
    "\<not> job_running ?j" "cj_AgentID ?j \<noteq> []"
    by code_simp+
  have v: "map fst (sw_pushed (snd ?f)) = [''u'']" "sw_turns (snd ?f) = [(''a'', ''s1'', ''report'')]"
    "map_option (\<lambda>j. (js_LastStatus (cj_State j), next_run j)) (get_job ''j1'' (fst ?f)) = Some (''error'', Some 60009)"
    by code_simp+
  have "\<exists>j'. get_job ''j1'' (fst ?f) = Some j' \<and>
      (js_LastStatus (cj_State j') = ''ok'' \<longleftrightarrow> map fst (sw_pushed (snd ?f)) = map fst (sw_pushed quiet_world))"
    by (rule recorded_status_matches_alerts [OF c])
  then show ?thesis using v by (cases ?f) (simp only: fst_conv snd_conv Let_def prod.case)
qed

end
