(* ===== verification/Schedules_Rest.thy ===== *)
theory Schedules_Rest
  imports Schedules_Api
begin

text \<open>
  The endpoints \<open>/api/v1/schedules\<close> and \<open>/api/v1/notifications\<close> (pkg/gateway/schedules.go).
  Bodies come decoded (\<^const>\<open>None\<close> when the decoder fails), the cron-expression check is an
  argument, and running a schedule now is modelled for a lane without other work: begin, run, finish. A
  response is the JSON value the generated types encode. The main result: a user who is not an
  administrator neither sees nor changes a schedule of an agent that is not open to them, and cannot
  move one to such an agent.
\<close>

section \<open>Projections onto the wire\<close>

definition opt_str :: "string \<Rightarrow> string \<Rightarrow> (string \<times> json) list" where
  "opt_str name s = (if s = [] then [] else [(name, JStr s)])"

definition opt_int :: "string \<Rightarrow> int option \<Rightarrow> (string \<times> json) list" where
  "opt_int name v = (case v of None \<Rightarrow> [] | Some i \<Rightarrow> [(name, JNum (itoa i))])"

definition run_json :: "cron_run_record \<Rightarrow> json" where
  "run_json r = JObj ([(''duration_ms'', JNum (itoa (rr_DurationMs r)))] @ opt_str ''error'' (rr_Error r) @
     [(''ran_at_ms'', JNum (itoa (rr_RanAtMs r)))] @ opt_str ''session_id'' (rr_SessionID r) @
     [(''status'', JStr (rr_Status r))])"

definition state_json :: "cron_job_state \<Rightarrow> json" where
  "state_json st = JObj ([(''consecutive_failures'', JNum (itoa (int (js_ConsecutiveFailures st))))] @
     opt_str ''last_error'' (js_LastError st) @ opt_int ''last_run_at_ms'' (js_LastRunAtMS st) @
     opt_str ''last_status'' (js_LastStatus st) @ opt_int ''next_run_at_ms'' (js_NextRunAtMS st) @
     [(''running'', JBool (js_Running st))])"

definition trigger_json :: "cron_schedule \<Rightarrow> json" where
  "trigger_json sch = JObj (opt_int ''at_ms'' (sc_AtMS sch) @ opt_str ''cron_expr'' (sc_Expr sch) @
     opt_int ''every_ms'' (sc_EveryMS sch) @ [(''kind'', JStr (sc_Kind sch))])"

definition to_schedule :: "cron_job \<Rightarrow> json_object" where
  "to_schedule j =
     opt_str ''channel'' (cp_Channel (cj_Payload j)) @ opt_str ''chat_id'' (cp_To (cj_Payload j)) @
     [(''created_at_ms'', JNum (itoa (cj_CreatedAtMS j)))] @ opt_str ''created_by'' (cj_CreatedBy j) @
     [(''deliver'', JBool (cp_Deliver (cj_Payload j))), (''enabled'', JBool (cj_Enabled j)), (''id'', JStr (cj_ID j)),
      (''message'', JStr (cp_Message (cj_Payload j))), (''name'', JStr (cj_Name j)),
      (''owner_agent_id'', JStr (cj_AgentID j))] @
     (let h = js_History (cj_State j) in if h = [] then [] else [(''runs'', JArr (map run_json (rev h)))]) @
     opt_str ''session_id'' (cj_SessionID j) @
     [(''session_mode'', JStr (if cj_SessionMode j = [] then ''isolated'' else cj_SessionMode j)),
      (''state'', state_json (cj_State j)), (''timeout_seconds'', JNum (itoa (cj_TimeoutSeconds j))),
      (''trigger'', trigger_json (cj_Schedule j)), (''updated_at_ms'', JNum (itoa (cj_UpdatedAtMS j)))]"

definition to_notification :: "notification \<Rightarrow> json" where
  "to_notification n = JObj (opt_str ''agent_id'' (nt_AgentID n) @ opt_str ''body'' (nt_Body n) @
     [(''created_at_ms'', JNum (itoa (nt_CreatedAtMs n))), (''id'', JStr (nt_ID n)), (''read'', JBool (nt_Read n))] @
     opt_str ''schedule_id'' (nt_ScheduleID n) @ opt_str ''session_id'' (nt_SessionID n) @
     [(''severity'', JStr (nt_Severity n)), (''title'', JStr (nt_Title n)), (''type'', JStr (nt_Type n))] @
     (if nt_UpdatedAtMs n \<noteq> 0 then [(''updated_at_ms'', JNum (itoa (nt_UpdatedAtMs n)))] else []))"

section \<open>Authorisation and validation\<close>

definition authorize_schedule_owner :: "sched_config option \<Rightarrow> user_config \<Rightarrow> string \<Rightarrow> (int \<times> string) option" where
  "authorize_schedule_owner cfg user owner =
     (case find_agent_config cfg owner of
        None \<Rightarrow> Some (400, ''owner_agent_id is not a known agent'')
      | Some a \<Rightarrow> if authorize_agent_access user a then None
                   else Some (403, ''not permitted to schedule for this agent''))"

definition authorize_schedule_access :: "sched_config option \<Rightarrow> user_config \<Rightarrow> cron_job \<Rightarrow> (int \<times> string) option" where
  "authorize_schedule_access cfg user j =
     (if uc_Role user = UserRoleAdmin then None
      else case find_agent_config cfg (cj_AgentID j) of
        None \<Rightarrow> Some (403, ''not permitted to access this schedule'')
      | Some a \<Rightarrow> if authorize_agent_access user a then None
                   else Some (403, ''not permitted to access this schedule''))"

definition validate_trigger :: "(string \<Rightarrow> bool) \<Rightarrow> cron_schedule \<Rightarrow> string option" where
  "validate_trigger expr_ok sch =
     (if sc_Kind sch = ''cron'' then
        (if sc_Expr sch = [] then Some ''cron trigger requires cron_expr''
         else if \<not> expr_ok (sc_Expr sch) then Some ''invalid cron expression'' else None)
      else if sc_Kind sch = ''every'' then
        (case sc_EveryMS sch of
           None \<Rightarrow> Some ''every trigger requires a positive every_ms''
         | Some e \<Rightarrow> if e \<le> 0 then Some ''every trigger requires a positive every_ms'' else None)
      else if sc_Kind sch = ''at'' then
        (case sc_AtMS sch of None \<Rightarrow> Some ''at trigger requires at_ms'' | Some _ \<Rightarrow> None)
      else Some ''trigger.kind must be one of cron|every|at'')"

section \<open>Request bodies\<close>

record trigger_body =
  tb_Kind :: string
  tb_CronExpr :: "string option"
  tb_AtMs :: "int option"
  tb_EveryMs :: "int option"

record schedule_create =
  cb_OwnerAgentId :: string
  cb_Name :: string
  cb_Message :: string
  cb_Deliver :: "bool option"
  cb_Enabled :: "bool option"
  cb_Channel :: "string option"
  cb_ChatId :: "string option"
  cb_SessionMode :: "string option"
  cb_TimeoutSeconds :: "int option"
  cb_Trigger :: trigger_body

record schedule_update =
  up_OwnerAgentId :: "string option"
  up_Name :: "string option"
  up_Message :: "string option"
  up_Deliver :: "bool option"
  up_Enabled :: "bool option"
  up_Channel :: "string option"
  up_ChatId :: "string option"
  up_SessionMode :: "string option"
  up_TimeoutSeconds :: "int option"
  up_Trigger :: "trigger_body option"

definition or_else :: "'a \<Rightarrow> 'a option \<Rightarrow> 'a" where
  "or_else d v = (case v of None \<Rightarrow> d | Some x \<Rightarrow> x)"

definition body_schedule :: "trigger_body \<Rightarrow> cron_schedule" where
  "body_schedule t = \<lparr>sc_Kind = tb_Kind t, sc_AtMS = tb_AtMs t, sc_EveryMS = tb_EveryMs t,
     sc_Expr = or_else [] (tb_CronExpr t), sc_TZ = []\<rparr>"

abbreviation "mode_msg \<equiv> ''session_mode must be one of isolated|continue|main''"
abbreviation "timeout_msg \<equiv> ''timeout_seconds must be >= 0''"

text \<open>The checks of a creation, in the order of the handler.\<close>

definition create_spec :: "sched_config option \<Rightarrow> (string \<Rightarrow> bool) \<Rightarrow> user_config \<Rightarrow> schedule_create \<Rightarrow> (int \<times> string) + job_spec" where
  "create_spec cfg expr_ok user b =
     (if trim_space (cb_Name b) = [] \<or> trim_space (cb_Message b) = [] \<or> cb_OwnerAgentId b = [] then
        Inl (400, ''name, message, and owner_agent_id are required'')
      else case authorize_schedule_owner cfg user (cb_OwnerAgentId b) of
        Some e \<Rightarrow> Inl e
      | None \<Rightarrow>
          (let sch = body_schedule (cb_Trigger b);
               timeout = or_else 0 (cb_TimeoutSeconds b);
               mode = or_else ''isolated'' (cb_SessionMode b)
           in case validate_trigger expr_ok sch of
                Some msg \<Rightarrow> Inl (400, msg)
              | None \<Rightarrow>
                  if timeout < 0 then Inl (400, timeout_msg)
                  else if \<not> session_mode_valid mode then Inl (400, mode_msg)
                  else Inr \<lparr>sp_Name = cb_Name b, sp_Schedule = sch, sp_Message = cb_Message b, sp_Command = [],
                    sp_Deliver = or_else False (cb_Deliver b), sp_Channel = or_else [] (cb_Channel b),
                    sp_To = or_else [] (cb_ChatId b), sp_AgentID = cb_OwnerAgentId b, sp_SessionMode = mode,
                    sp_TimeoutSeconds = timeout, sp_CreatedBy = uc_Username user, sp_Enabled = cb_Enabled b\<rparr>))"

text \<open>The job an update asks for, from the stored one.\<close>

definition with_payload :: "schedule_update \<Rightarrow> cron_payload \<Rightarrow> cron_payload" where
  "with_payload b p = p\<lparr>
     cp_Message := or_else (cp_Message p) (up_Message b), cp_Deliver := or_else (cp_Deliver p) (up_Deliver b),
     cp_Channel := or_else (cp_Channel p) (up_Channel b), cp_To := or_else (cp_To p) (up_ChatId b)\<rparr>"

definition updated_job :: "sched_config option \<Rightarrow> (string \<Rightarrow> bool) \<Rightarrow> user_config \<Rightarrow> schedule_update \<Rightarrow> cron_job \<Rightarrow>
    (int \<times> string) + cron_job" where
  "updated_job cfg expr_ok user b j =
     (case (if or_else (cj_AgentID j) (up_OwnerAgentId b) = cj_AgentID j then None
            else authorize_schedule_owner cfg user (or_else (cj_AgentID j) (up_OwnerAgentId b))) of
        Some e \<Rightarrow> Inl e
      | None \<Rightarrow>
          if (case up_SessionMode b of None \<Rightarrow> False | Some m \<Rightarrow> \<not> session_mode_valid m) then Inl (400, mode_msg)
          else if (case up_TimeoutSeconds b of None \<Rightarrow> False | Some t \<Rightarrow> t < 0) then Inl (400, timeout_msg)
          else (case (case up_Trigger b of None \<Rightarrow> None | Some t \<Rightarrow> validate_trigger expr_ok (body_schedule t)) of
                  Some msg \<Rightarrow> Inl (400, msg)
                | None \<Rightarrow> Inr (j\<lparr>
                    cj_AgentID := or_else (cj_AgentID j) (up_OwnerAgentId b),
                    cj_Name := or_else (cj_Name j) (up_Name b),
                    cj_Payload := with_payload b (cj_Payload j),
                    cj_SessionMode := or_else (cj_SessionMode j) (up_SessionMode b),
                    cj_TimeoutSeconds := or_else (cj_TimeoutSeconds j) (up_TimeoutSeconds b),
                    cj_Enabled := or_else (cj_Enabled j) (up_Enabled b),
                    cj_Schedule := or_else (cj_Schedule j) (map_option body_schedule (up_Trigger b))\<rparr>)))"

section \<open>The schedule handlers\<close>

text \<open>
  What a request to these endpoints meets: the live configuration, the expression check and the next
  ticks of the cron library, the body decoders, the world of the service, and the one at the end of a
  run started now.
\<close>

record 'w schedule_env =
  se_config :: "sched_config option"
  se_exprOk :: "string \<Rightarrow> bool"
  se_tick :: ticker
  se_create :: "string \<Rightarrow> schedule_create option"
  se_update :: "string \<Rightarrow> schedule_update option"
  se_world :: cron_world
  se_after :: cron_world
  se_run :: "cron_job \<Rightarrow> 'w \<Rightarrow> run_outcome \<times> 'w"

definition created_json :: "json_object \<Rightarrow> http_reply" where
  "created_json body = (json_ok body)\<lparr>rs_status := 201\<rparr>"

definition no_content :: http_reply where
  "no_content = \<lparr>rs_status = 204, rs_headers = [], rs_cookies = [], rs_body = JNull\<rparr>"

definition handle_list_schedules :: "'w schedule_env \<Rightarrow> user_config \<Rightarrow> cron_service \<Rightarrow> http_reply" where
  "handle_list_schedules se user sv =
     json_ok [(''schedules'', JArr (map (\<lambda>j. JObj (to_schedule j))
       (filter (\<lambda>j. authorize_schedule_access (se_config se) user j = None) (list_jobs True sv))))]"

text \<open>The guard of all single-schedule handlers: the job, or the refusal.\<close>

definition accessible_job :: "'w schedule_env \<Rightarrow> user_config \<Rightarrow> string \<Rightarrow> cron_service \<Rightarrow> http_reply + cron_job" where
  "accessible_job se user i sv =
     (case get_job i sv of
        None \<Rightarrow> Inl (json_err 404 ''schedule not found'')
      | Some j \<Rightarrow> (case authorize_schedule_access (se_config se) user j of
          Some (code, msg) \<Rightarrow> Inl (json_err code msg) | None \<Rightarrow> Inr j))"

definition handle_get_schedule :: "'w schedule_env \<Rightarrow> user_config \<Rightarrow> string \<Rightarrow> cron_service \<Rightarrow> http_reply" where
  "handle_get_schedule se user i sv =
     (case accessible_job se user i sv of Inl r \<Rightarrow> r | Inr j \<Rightarrow> json_ok (to_schedule j))"

definition handle_create_schedule :: "'w schedule_env \<Rightarrow> user_config \<Rightarrow> string \<Rightarrow> cron_service \<Rightarrow> http_reply \<times> cron_service" where
  "handle_create_schedule se user body sv =
     (case se_create se body of
        None \<Rightarrow> (json_err 400 ''invalid request body'', sv)
      | Some b \<Rightarrow> (case create_spec (se_config se) (se_exprOk se) user b of
          Inl (code, msg) \<Rightarrow> (json_err code msg, sv)
        | Inr sp \<Rightarrow> (case add_job_full (se_tick se) (se_world se) sp sv of
            (sv1, None) \<Rightarrow> (json_err 500 ''failed to create schedule'', sv1)
          | (sv1, Some j) \<Rightarrow> (created_json (to_schedule j), sv1))))"

definition handle_update_schedule :: "'w schedule_env \<Rightarrow> user_config \<Rightarrow> string \<Rightarrow> string \<Rightarrow> cron_service \<Rightarrow> http_reply \<times> cron_service" where
  "handle_update_schedule se user i body sv =
     (case accessible_job se user i sv of
        Inl r \<Rightarrow> (r, sv)
      | Inr j \<Rightarrow> (case se_update se body of
          None \<Rightarrow> (json_err 400 ''invalid request body'', sv)
        | Some b \<Rightarrow> (case updated_job (se_config se) (se_exprOk se) user b j of
            Inl (code, msg) \<Rightarrow> (json_err code msg, sv)
          | Inr j' \<Rightarrow> (case update_job (se_world se) j' sv of
              (sv1, False) \<Rightarrow> (json_err 500 ''failed to update schedule'', sv1)
            | (sv1, True) \<Rightarrow> (json_ok (to_schedule j'), sv1)))))"

definition handle_delete_schedule :: "'w schedule_env \<Rightarrow> user_config \<Rightarrow> string \<Rightarrow> cron_service \<Rightarrow> http_reply \<times> cron_service" where
  "handle_delete_schedule se user i sv =
     (case accessible_job se user i sv of
        Inl r \<Rightarrow> (r, sv)
      | Inr j \<Rightarrow> (case remove_job (se_world se) i sv of
          (sv1, removed) \<Rightarrow> (if removed then no_content else json_err 404 ''schedule not found'', sv1)))"

definition handle_pause_schedule :: "'w schedule_env \<Rightarrow> user_config \<Rightarrow> string \<Rightarrow> cron_service \<Rightarrow> http_reply \<times> cron_service" where
  "handle_pause_schedule se user i sv =
     (case accessible_job se user i sv of
        Inl r \<Rightarrow> (r, sv)
      | Inr j \<Rightarrow> (case enable_job (se_tick se) (se_world se) i (\<not> cj_Enabled j) sv of
          (sv1, None) \<Rightarrow> (json_err 404 ''schedule not found'', sv1)
        | (sv1, Some j') \<Rightarrow> (json_ok (to_schedule j'), sv1)))"

definition handle_run_schedule :: "'w schedule_env \<Rightarrow> user_config \<Rightarrow> string \<Rightarrow> cron_service \<times> 'w \<Rightarrow> http_reply \<times> cron_service \<times> 'w" where
  "handle_run_schedule se user i st =
     (case accessible_job se user i (fst st) of
        Inl r \<Rightarrow> (r, st)
      | Inr j \<Rightarrow>
          (case fire (se_tick se) (se_run se) (se_world se) (se_after se) i (fst st) (snd st) of (sv1, x1) \<Rightarrow>
            (case run_now_verdict i (fst st) sv1 of (verdict, session_id, err) \<Rightarrow>
              (json_ok ((case err of None \<Rightarrow> [] | Some m \<Rightarrow> [(''error'', JStr m)]) @ [(''schedule_id'', JStr i)] @
                 opt_str ''session_id'' session_id @ [(''status'', JStr verdict)]), sv1, x1))))"

text \<open>\<open>strings.Trim(s, "/")\<close>.\<close>

definition trim_both :: "string \<Rightarrow> string" where
  "trim_both s = trim_slashes (dropWhile (\<lambda>c. c = CHR ''/'') s)"

definition keep_world :: "'w \<Rightarrow> http_reply \<times> cron_service \<Rightarrow> http_reply \<times> cron_service \<times> 'w" where
  "keep_world x r = (fst r, snd r, x)"

definition handle_schedules :: "'w schedule_env \<Rightarrow> http_request \<Rightarrow> (cron_service \<times> 'w) option \<Rightarrow>
    http_reply \<times> (cron_service \<times> 'w) option" where
  "handle_schedules se r service =
     (case service of
        None \<Rightarrow> (json_err 503 ''schedules service unavailable'', None)
      | Some st \<Rightarrow> (case rq_user r of
          None \<Rightarrow> (json_err 401 ''invalid token'', Some st)
        | Some user \<Rightarrow>
            let rest = trim_both (trim_prefix (rq_Path r) ''/api/v1/schedules'');
                i = hd (split_slash rest); parts = split_slash rest;
                not_allowed = (json_err 405 ''method not allowed'', st);
                reply = (\<lambda>rep. (rep, st));
                change = keep_world (snd st);
                result =
                  (if rest = [] then
                     (if rq_Method r = ''GET'' then reply (handle_list_schedules se user (fst st))
                      else if rq_Method r = ''POST'' then change (handle_create_schedule se user (rq_Body r) (fst st))
                      else not_allowed)
                   else if length parts = 1 then
                     (if rq_Method r = ''GET'' then reply (handle_get_schedule se user i (fst st))
                      else if rq_Method r = ''PUT'' then change (handle_update_schedule se user i (rq_Body r) (fst st))
                      else if rq_Method r = ''DELETE'' then change (handle_delete_schedule se user i (fst st))
                      else not_allowed)
                   else if length parts = 2 \<and> rq_Method r = ''POST'' \<and> parts ! 1 = ''run'' then
                     handle_run_schedule se user i st
                   else if length parts = 2 \<and> rq_Method r = ''POST'' \<and> parts ! 1 = ''pause'' then
                     change (handle_pause_schedule se user i (fst st))
                   else reply (json_err 404 ''endpoint not found''))
            in (fst result, Some (snd result))))"

section \<open>The notification handlers\<close>

definition handle_list_notifications :: "note_world \<Rightarrow> user_config \<Rightarrow> note_store \<Rightarrow> http_reply \<times> note_store" where
  "handle_list_notifications w user st =
     (case list_for_user w (uc_Username user) st of
        (None, st1) \<Rightarrow> (json_err 500 ''failed to list notifications'', st1)
      | (Some ns, st1) \<Rightarrow>
          (json_ok [(''notifications'', JArr (map to_notification ns)),
             (''unread_count'', JNum (itoa (int (length (filter (\<lambda>n. \<not> nt_Read n) ns)))))], st1))"

definition handle_notifications :: "note_world \<Rightarrow> http_request \<Rightarrow> note_store option \<Rightarrow> http_reply \<times> note_store option" where
  "handle_notifications w r notes =
     (case notes of
        None \<Rightarrow> (json_err 503 ''notifications unavailable'', None)
      | Some st \<Rightarrow> (case rq_user r of
          None \<Rightarrow> (json_err 401 ''invalid token'', Some st)
        | Some user \<Rightarrow>
            let rest = trim_both (trim_prefix (rq_Path r) ''/api/v1/notifications'');
                parts = split_slash rest;
                marked = (\<lambda>(ok, st1) msg. (if ok then no_content else json_err 500 msg, st1));
                result =
                  (if rest = [] then
                     (if rq_Method r \<noteq> ''GET'' then (json_err 405 ''method not allowed'', st)
                      else handle_list_notifications w user st)
                   else if rest = ''read-all'' then
                     (if rq_Method r \<noteq> ''POST'' then (json_err 405 ''method not allowed'', st)
                      else marked (mark_all_read w (uc_Username user) st) ''failed to mark all read'')
                   else if length parts = 2 \<and> parts ! 1 = ''read'' \<and> rq_Method r = ''POST'' then
                     marked (mark_read w (uc_Username user) (hd parts) st) ''failed to mark read''
                   else (json_err 404 ''endpoint not found'', st))
            in (fst result, Some (snd result))))"

section \<open>Who can touch what\<close>

definition hidden_from :: "sched_config option \<Rightarrow> user_config \<Rightarrow> cron_job \<Rightarrow> bool" where
  "hidden_from cfg user j \<longleftrightarrow> authorize_schedule_access cfg user j \<noteq> None"

lemma hidden_agent: "cj_AgentID j = cj_AgentID k \<Longrightarrow> hidden_from cfg user j = hidden_from cfg user k"
  by (simp add: hidden_from_def authorize_schedule_access_def)

lemma record_run_agent [simp]: "cj_AgentID (record_run w r out j) = cj_AgentID j"
  by (simp add: record_run_def)

lemma next_cadence_agent [simp]: "cj_AgentID (next_cadence tick b w tr j) = cj_AgentID j"
  by (simp add: next_cadence_def)

lemma finished_job_agent [simp]: "cj_AgentID (finished_job tick b w r out j) = cj_AgentID j"
  by (simp add: finished_job_def)

lemma enabled_job_agent [simp]: "cj_AgentID (enabled_job tick w b j) = cj_AgentID j"
  by (simp add: enabled_job_def)

lemma filter_modify:
  assumes "find_job i js = Some j" "\<not> h j" "\<And>k. k \<in> set js \<Longrightarrow> cj_ID k = i \<Longrightarrow> \<not> h k \<Longrightarrow> \<not> h (f k)"
  shows "filter h (modify_job i f js) = filter h js"
  using assms unfolding find_job_def by (induction js) auto

lemma filter_remove:
  assumes "distinct (map cj_ID js)" "find_job i js = Some j" "\<not> h j"
  shows "filter h (filter (\<lambda>j. cj_ID j \<noteq> i) js) = filter h js"
proof -
  have "cj_ID k \<noteq> i" if "k \<in> set js" "h k" for k
    using that assms find_job_in [OF assms(1) that(1)] by auto
  then show ?thesis by (simp add: filter_filter) (metis (mono_tags, lifting) filter_cong)
qed

lemma hidden_reschedule:
  "get_job (cj_ID j) sv = Some j \<Longrightarrow> \<not> hidden_from cfg user j \<Longrightarrow>
   filter (hidden_from cfg user) (cs_jobs (reschedule_skipped tick w j sv)) = filter (hidden_from cfg user) (cs_jobs sv)"
  unfolding reschedule_skipped_def get_job_def
  by (auto intro!: filter_modify simp: hidden_agent [of "set_next_run _ _"])

lemma hidden_begin:
  assumes "get_job i sv = Some j" "\<not> hidden_from cfg user j"
  shows "filter (hidden_from cfg user) (cs_jobs (fst (begin_run tick w i sv))) = filter (hidden_from cfg user) (cs_jobs sv)"
proof (cases rule: begin_run_cases [of tick w i sv])
  case (busy k)
  then show ?thesis using assms hidden_reschedule [of j sv cfg user tick w] get_job_Some [OF assms(1)] by simp
next
  case (runs k)
  then show ?thesis using assms unfolding runs(4) get_job_def
    by (auto intro!: filter_modify simp: hidden_agent [of "set_running _ _"])
qed (use assms in simp)

lemma hidden_finish:
  assumes "get_job (run_id r) sv = Some j" "\<not> hidden_from cfg user j" "distinct (job_ids sv)"
  shows "filter (hidden_from cfg user) (cs_jobs (finish_run tick w r out sv)) = filter (hidden_from cfg user) (cs_jobs sv)"
proof -
  let ?o = "runner_outcome r out"
  have f: "find_job (run_id r) (cs_jobs sv) = Some j" using assms(1) by (simp add: get_job_def)
  have rec: "filter (hidden_from cfg user) (modify_job (run_id r) (record_run w r ?o) (cs_jobs sv)) = filter (hidden_from cfg user) (cs_jobs sv)"
    by (rule filter_modify [where h = "hidden_from cfg user", OF f assms(2)]) (simp add: hidden_agent [of "record_run _ _ _ _"])
  have fin: "filter (hidden_from cfg user) (modify_job (run_id r) (finished_job tick b w r ?o) (cs_jobs sv)) = filter (hidden_from cfg user) (cs_jobs sv)" for b
    by (rule filter_modify [where h = "hidden_from cfg user", OF f assms(2)]) (simp add: hidden_agent [of "finished_job _ _ _ _ _ _"])
  have "filter (hidden_from cfg user) (filter (\<lambda>j. cj_ID j \<noteq> run_id r) (modify_job (run_id r) (record_run w r ?o) (cs_jobs sv))) =
      filter (hidden_from cfg user) (modify_job (run_id r) (record_run w r ?o) (cs_jobs sv))"
  proof (rule filter_remove)
    show "distinct (map cj_ID (modify_job (run_id r) (record_run w r ?o) (cs_jobs sv)))"
      using assms(3) by (simp add: modify_job_ids)
    show "find_job (run_id r) (modify_job (run_id r) (record_run w r ?o) (cs_jobs sv)) = Some (record_run w r ?o j)"
      using find_modify_job [of "run_id r" "record_run w r ?o" "cs_jobs sv"] f by simp
    show "\<not> hidden_from cfg user (record_run w r ?o j)" using assms(2) by (simp add: hidden_agent [of "record_run _ _ _ _"])
  qed
  then show ?thesis unfolding finish_run_eq [OF assms(1)] using rec fin by simp
qed

lemma hidden_fire:
  assumes "get_job i sv = Some j" "\<not> hidden_from cfg user j" "distinct (job_ids sv)"
  shows "filter (hidden_from cfg user) (cs_jobs (fst (fire tick run w1 w2 i sv x))) = filter (hidden_from cfg user) (cs_jobs sv)"
proof -
  obtain sv1 r where b: "begin_run tick w1 i sv = (sv1, r)" by fastforce
  have one: "filter (hidden_from cfg user) (cs_jobs sv1) = filter (hidden_from cfg user) (cs_jobs sv)"
    using hidden_begin [OF assms(1,2), of tick w1] b by simp
  show ?thesis
  proof (cases r)
    case None
    then show ?thesis using one by (simp add: fire_def b)
  next
    case (Some r')
    have i: "cj_ID j = i" using get_job_Some [OF assms(1)] by simp
    have sv1: "sv1 = save_store w1 (modify i (set_running True) sv)" and r': "run_id r' = i"
      using b Some assms(1) i by (auto simp: begin_run_def split: if_splits)
    have "get_job i sv1 = Some (set_running True j)"
      using get_job_modify [of i "set_running True" sv] assms(1) by (simp add: sv1)
    moreover have "\<not> hidden_from cfg user (set_running True j)"
      using assms(2) by (simp add: hidden_agent [of "set_running _ _"])
    moreover have "distinct (job_ids sv1)" using assms(3) by (simp add: sv1 modify_job_ids)
    ultimately have "filter (hidden_from cfg user) (cs_jobs (finish_run tick w2 r' out sv1)) = filter (hidden_from cfg user) (cs_jobs sv)" for out
      using hidden_finish [of r' sv1 "set_running True j"] one r' by simp
    then show ?thesis by (simp add: fire_def b Some split_beta)
  qed
qed

lemma accessible_job_Inr:
  "accessible_job se user i sv = Inr j \<Longrightarrow> get_job i sv = Some j \<and> \<not> hidden_from (se_config se) user j"
  by (auto simp: accessible_job_def hidden_from_def split: option.splits)

lemma authorized_owner_visible:
  "authorize_schedule_owner cfg user a = None \<Longrightarrow> cj_AgentID j = a \<Longrightarrow> \<not> hidden_from cfg user j"
  by (auto simp: authorize_schedule_owner_def hidden_from_def authorize_schedule_access_def split: option.splits if_splits)

lemma updated_job_visible:
  assumes "updated_job cfg expr_ok user b j = Inr j'" "\<not> hidden_from cfg user j"
  shows "\<not> hidden_from cfg user j' \<and> cj_ID j' = cj_ID j"
proof (cases "or_else (cj_AgentID j) (up_OwnerAgentId b) = cj_AgentID j")
  case True
  then show ?thesis using assms hidden_agent [of j' j] by (auto simp: updated_job_def split: option.splits if_splits)
next
  case False
  then have "authorize_schedule_owner cfg user (or_else (cj_AgentID j) (up_OwnerAgentId b)) = None"
    using assms(1) by (auto simp: updated_job_def split: option.splits)
  moreover have "cj_AgentID j' = or_else (cj_AgentID j) (up_OwnerAgentId b)" "cj_ID j' = cj_ID j"
    using assms(1) False calculation by (auto simp: updated_job_def split: option.splits if_splits)
  ultimately show ?thesis using authorized_owner_visible by blast
qed

lemma create_spec_visible:
  assumes "create_spec cfg expr_ok user b = Inr sp"
  shows "\<not> hidden_from cfg user (spec_job tick w sp)"
proof -
  have "authorize_schedule_owner cfg user (sp_AgentID sp) = None"
    using assms by (auto simp: create_spec_def Let_def split: option.splits if_splits)
  then show ?thesis by (rule authorized_owner_visible) (simp add: spec_job_def Let_def)
qed

text \<open>Each handler leaves the schedules hidden from its user as they are, in their order.\<close>

definition spares :: "sched_config option \<Rightarrow> user_config \<Rightarrow> cron_service \<Rightarrow> cron_service \<Rightarrow> bool" where
  "spares cfg user sv sv' \<longleftrightarrow> filter (hidden_from cfg user) (cs_jobs sv') = filter (hidden_from cfg user) (cs_jobs sv)"

lemma spares_refl [simp]: "spares cfg user sv sv"
  by (simp add: spares_def)

lemma spares_create: "spares (se_config se) user sv (snd (handle_create_schedule se user body sv))"
proof -
  have "spares (se_config se) user sv (fst (add_job_full tick w sp sv))"
    if "create_spec (se_config se) (se_exprOk se) user b = Inr sp" for b sp tick w
    using create_spec_visible [OF that] by (auto simp: spares_def add_job_full_def append_job_def)
  then show ?thesis
    by (auto simp: handle_create_schedule_def split: option.split sum.split prod.split) (metis fst_conv)+
qed

lemma spares_update: "spares (se_config se) user sv (snd (handle_update_schedule se user i body sv))"
proof -
  have "spares (se_config se) user sv (fst (update_job w j' sv))"
    if "accessible_job se user i sv = Inr j" "updated_job (se_config se) (se_exprOk se) user b j = Inr j'" for b j j' w
  proof -
    have j: "get_job i sv = Some j" "\<not> hidden_from (se_config se) user j" using accessible_job_Inr [OF that(1)] by auto
    have j': "\<not> hidden_from (se_config se) user j'" "cj_ID j' = i"
      using updated_job_visible [OF that(2) j(2)] get_job_Some [OF j(1)] by auto
    have "\<not> hidden_from (se_config se) user (j'\<lparr>cj_UpdatedAtMS := t\<rparr>)" for t
      using j'(1) hidden_agent [of "j'\<lparr>cj_UpdatedAtMS := t\<rparr>" j'] by simp
    then have "filter (hidden_from (se_config se) user) (modify_job i (\<lambda>_. j'\<lparr>cj_UpdatedAtMS := cw_now w\<rparr>) (cs_jobs sv)) =
        filter (hidden_from (se_config se) user) (cs_jobs sv)"
      using j by (intro filter_modify [where j = j]) (simp_all add: get_job_def)
    then show ?thesis using j(1) j'(2) by (simp add: spares_def update_job_def)
  qed
  then show ?thesis
    by (auto simp: handle_update_schedule_def split: option.split sum.split prod.split bool.split) (metis fst_conv)+
qed

lemma spares_delete:
  assumes "distinct (job_ids sv)"
  shows "spares (se_config se) user sv (snd (handle_delete_schedule se user i sv))"
proof (cases "accessible_job se user i sv")
  case (Inr j)
  then have "get_job i sv = Some j" "\<not> hidden_from (se_config se) user j" using accessible_job_Inr by blast+
  then have "spares (se_config se) user sv (fst (remove_job (se_world se) i sv))"
    using filter_remove [OF assms, of i j "hidden_from (se_config se) user"] by (simp add: spares_def get_job_def)
  then show ?thesis by (simp add: handle_delete_schedule_def Inr split_beta)
qed (simp add: handle_delete_schedule_def)

lemma spares_pause: "spares (se_config se) user sv (snd (handle_pause_schedule se user i sv))"
proof (cases "accessible_job se user i sv")
  case (Inr j)
  then have j: "get_job i sv = Some j" "\<not> hidden_from (se_config se) user j" using accessible_job_Inr by blast+
  have "filter (hidden_from (se_config se) user) (modify_job i (enabled_job tick w b) (cs_jobs sv)) =
      filter (hidden_from (se_config se) user) (cs_jobs sv)" for tick w b
    using j by (intro filter_modify [where j = j]) (simp_all add: get_job_def hidden_agent [of "enabled_job _ _ _ _"])
  then have "spares (se_config se) user sv (fst (enable_job tick w i b sv))" for tick w b
    using j(1) by (simp add: spares_def enable_job_def)
  then show ?thesis by (auto simp: handle_pause_schedule_def Inr split: prod.split option.split) (metis fst_conv)+
qed (simp add: handle_pause_schedule_def)

lemma spares_run:
  assumes "distinct (job_ids (fst st))"
  shows "spares (se_config se) user (fst st) (fst (snd (handle_run_schedule se user i st)))"
proof (cases "accessible_job se user i (fst st)")
  case (Inr j)
  then have "get_job i (fst st) = Some j" "\<not> hidden_from (se_config se) user j" using accessible_job_Inr by blast+
  then show ?thesis using hidden_fire [OF _ _ assms]
    by (simp add: handle_run_schedule_def Inr spares_def split_beta)
qed (simp add: handle_run_schedule_def)

text \<open>
  C15. A request to the schedule endpoints changes no schedule that is hidden from its user - one whose
  owning agent is unknown or not open to them, unless they are an administrator - and adds none: the
  hidden schedules are the same list before and after, and what a listing shows is the others.
\<close>

theorem hidden_schedules_untouched:
  assumes "rq_user r = Some user" "distinct (job_ids sv)"
    and "handle_schedules se r (Some (sv, x)) = (reply, Some (sv', x'))"
  shows "filter (hidden_from (se_config se) user) (cs_jobs sv') = filter (hidden_from (se_config se) user) (cs_jobs sv) \<and>
    rs_body (handle_list_schedules se user sv) =
      JObj [(''schedules'', JArr (map (\<lambda>j. JObj (to_schedule j)) (filter (\<lambda>j. \<not> hidden_from (se_config se) user j) (cs_jobs sv))))]"
proof -
  have keep: "fst (snd (keep_world y q)) = snd q" for y :: 'a and q by (simp add: keep_world_def)
  have "spares (se_config se) user sv (fst (the (snd (handle_schedules se r (Some (sv, x))))))"
    using spares_run [of "(sv, x)" se user] assms(2)
    by (simp add: handle_schedules_def assms(1) Let_def keep spares_create spares_update spares_delete spares_pause)
  moreover have "authorize_schedule_access (se_config se) user j = None \<longleftrightarrow> \<not> hidden_from (se_config se) user j" for j
    unfolding hidden_from_def by blast
  ultimately show ?thesis using assms(3)
    by (simp add: spares_def handle_list_schedules_def json_ok_def list_jobs_def)
qed

lemma handle_schedules_Some: "\<exists>reply st'. handle_schedules se r (Some st) = (reply, Some st')"
  unfolding handle_schedules_def Let_def option.case by (cases "rq_user r") (simp_all only: option.case, blast+)

definition two_owners :: sched_config where
  "two_owners = \<lparr>sg_Agents = [\<lparr>ae_ID = ''a'', ae_Type = ''custom'', ae_OwnerUsername = ''u''\<rparr>,
     \<lparr>ae_ID = ''b'', ae_Type = ''custom'', ae_OwnerUsername = ''v''\<rparr>], sg_Users = [], sg_Bindings = [], sg_RunTimeoutSeconds = 0\<rparr>"

definition plain_user :: "string \<Rightarrow> user_config" where
  "plain_user n = \<lparr>uc_Username = n, uc_PasswordHash = [], uc_TokenHash = [], uc_SessionTokenHash = [], uc_Role = ''user''\<rparr>"

definition sample_schedule_env :: "unit schedule_env" where
  "sample_schedule_env = \<lparr>se_config = Some two_owners, se_exprOk = (\<lambda>_. True), se_tick = no_ticks, se_create = (\<lambda>_. None),
     se_update = (\<lambda>_. None), se_world = world_at 5, se_after = world_at 6, se_run = (\<lambda>_ x. (([], None), x))\<rparr>"

theorem hidden_schedules_untouched_witness:
  "let r = (sample_request ''DELETE'' ''/api/v1/schedules/j1'')\<lparr>rq_user := Some (plain_user ''v'')\<rparr>;
       (reply, st) = handle_schedules sample_schedule_env r (Some (hourly_service, ()))
   in rs_status reply = 403 \<and> map_option (\<lambda>s. job_ids (fst s)) st = Some [''j1''] \<and>
      rs_status (fst (handle_schedules sample_schedule_env (r\<lparr>rq_user := Some (plain_user ''u'')\<rparr>) (Some (hourly_service, ())))) = 204"
proof -
  let ?r = "(sample_request ''DELETE'' ''/api/v1/schedules/j1'')\<lparr>rq_user := Some (plain_user ''v'')\<rparr>"
  obtain reply sv' x' where h: "handle_schedules sample_schedule_env ?r (Some (hourly_service, ())) = (reply, Some (sv', x'))"
    using handle_schedules_Some [of sample_schedule_env ?r "(hourly_service, ())"] by fast
  have d: "rq_user ?r = Some (plain_user ''v'')" "distinct (job_ids hourly_service)" by code_simp+
  have "filter (hidden_from (Some two_owners) (plain_user ''v'')) (cs_jobs hourly_service) = cs_jobs hourly_service" by code_simp
  moreover have "filter (hidden_from (Some two_owners) (plain_user ''v'')) (cs_jobs sv') =
      filter (hidden_from (Some two_owners) (plain_user ''v'')) (cs_jobs hourly_service)"
    using hidden_schedules_untouched [OF d h] by (simp add: sample_schedule_env_def)
  moreover have v: "rs_status (fst (handle_schedules sample_schedule_env ?r (Some (hourly_service, ())))) = 403"
    "map_option (\<lambda>s. job_ids (fst s)) (snd (handle_schedules sample_schedule_env ?r (Some (hourly_service, ())))) = Some [''j1'']"
    "rs_status (fst (handle_schedules sample_schedule_env (?r\<lparr>rq_user := Some (plain_user ''u'')\<rparr>) (Some (hourly_service, ())))) = 204"
    by code_simp+
  ultimately show ?thesis using h by (simp only: Let_def prod.case fst_conv snd_conv)
qed

end
