(* ===== verification/Split_Message.thy ===== *)
theory Split_Message
  imports Runes
begin

text \<open>
  Splitting a long reply into the messages a channel accepts (pkg/channels/split.go), on runes. An index
  that was not found is \<open>start - 1\<close> in the code and is only compared with indices not below the start,
  so the truncated difference of \<^typ>\<open>nat\<close> decides these comparisons alike; the other searches give
  an option. The loop may not end, so it is a partial function, and that it returns is proved where it
  does. Results: no message is longer than the limit; a text without code fences is split in finitely
  many messages that lose only blanks; and a code block whose opening line does not fit into one message
  makes the loop run forever while the text grows.
\<close>

section \<open>Searching\<close>

definition is_newline :: "rune \<Rightarrow> bool" where "is_newline r \<longleftrightarrow> r = 10"
definition is_blank :: "rune \<Rightarrow> bool" where "is_blank r \<longleftrightarrow> r = 32 \<or> r = 9"
definition cut_space :: "rune \<Rightarrow> bool" where "cut_space r \<longleftrightarrow> r \<in> {32, 9, 10, 13}"

text \<open>\<open>unicode.IsSpace\<close>.\<close>

definition unicode_space :: "rune \<Rightarrow> bool" where
  "unicode_space r \<longleftrightarrow> (9 \<le> r \<and> r \<le> 13) \<or> r \<in> {0x20, 0x85, 0xA0, 0x1680, 0x2028, 0x2029, 0x202F, 0x205F, 0x3000} \<or>
     (0x2000 \<le> r \<and> r \<le> 0x200A)"

definition trim_right_runes :: "(rune \<Rightarrow> bool) \<Rightarrow> rune list \<Rightarrow> rune list" where
  "trim_right_runes P rs = rev (dropWhile P (rev rs))"

definition trim_runes :: "rune list \<Rightarrow> rune list" where
  "trim_runes rs = trim_right_runes unicode_space (dropWhile unicode_space rs)"

definition between :: "nat \<Rightarrow> nat \<Rightarrow> 'a list \<Rightarrow> 'a list" where
  "between i j xs = take (j - i) (drop i xs)"

definition last_in :: "(rune \<Rightarrow> bool) \<Rightarrow> rune list \<Rightarrow> nat \<Rightarrow> nat \<Rightarrow> nat \<Rightarrow> nat" where
  "last_in P rs start en window =
     (case filter (\<lambda>i. P (rs ! i)) (rev [max (en - window) start..<en]) of
        [] \<Rightarrow> start - 1 | i # _ \<Rightarrow> i)"

definition fence_at :: "rune list \<Rightarrow> nat \<Rightarrow> nat \<Rightarrow> bool" where
  "fence_at rs i en \<longleftrightarrow> i + 2 < en \<and> rs ! i = 96 \<and> rs ! (i + 1) = 96 \<and> rs ! (i + 2) = 96"

function unclosed_from :: "rune list \<Rightarrow> nat \<Rightarrow> nat \<Rightarrow> nat option \<Rightarrow> nat option" where
  "unclosed_from rs i en opened =
     (if en \<le> i then opened
      else if fence_at rs i en then unclosed_from rs (i + 3) en (if opened = None then Some i else None)
      else unclosed_from rs (i + 1) en opened)"
  by pat_completeness auto

termination by (relation "measure (\<lambda>(rs, i, en, opened). en - i)") auto

declare unclosed_from.simps [simp del]

definition last_unclosed :: "rune list \<Rightarrow> nat \<Rightarrow> nat \<Rightarrow> nat option" where
  "last_unclosed rs start en = unclosed_from rs start en None"

definition next_closing :: "rune list \<Rightarrow> nat \<Rightarrow> nat \<Rightarrow> nat option" where
  "next_closing rs start en = map_option (\<lambda>i. i + 3) (List.find (\<lambda>i. fence_at rs i en) [start..<en])"

definition newline_from :: "rune list \<Rightarrow> nat \<Rightarrow> nat option" where
  "newline_from rs start = List.find (\<lambda>i. rs ! i = 10) [start..<length rs]"

section \<open>One round of the loop\<close>

datatype split_round = Rest "rune list" | Message "rune list" "rune list" nat

definition code_block_buffer :: "nat \<Rightarrow> nat" where
  "code_block_buffer m = min (max (m div 10) 50) (m div 2)"

definition effective_limit :: "nat \<Rightarrow> nat" where
  "effective_limit m = max (m - code_block_buffer m) (m div 2)"

definition natural_end :: "rune list \<Rightarrow> nat \<Rightarrow> nat \<Rightarrow> nat" where
  "natural_end rs start en =
     (let e1 = last_in is_newline rs start en 200;
          e2 = (if e1 \<le> start then last_in is_blank rs start en 100 else e1)
      in if e2 \<le> start then en else e2)"

definition skip_space :: "rune list \<Rightarrow> nat \<Rightarrow> nat" where
  "skip_space rs i = i + length (takeWhile cut_space (drop i rs))"

definition plain_round :: "nat \<Rightarrow> rune list \<Rightarrow> nat \<Rightarrow> nat \<Rightarrow> split_round" where
  "plain_round m rs start e =
     (let e' = (if e \<le> start then start + effective_limit m else e)
      in Message (between start e' rs) rs (skip_space rs e'))"

definition reopen_round :: "rune list \<Rightarrow> nat \<Rightarrow> rune list \<Rightarrow> nat \<Rightarrow> split_round" where
  "reopen_round rs start header s =
     Message (trim_right_runes cut_space (between start s rs) @ [10, 96, 96, 96])
       (trim_runes (header @ [10] @ drop s rs)) 0"

definition fenced_round :: "nat \<Rightarrow> rune list \<Rightarrow> nat \<Rightarrow> nat \<Rightarrow> nat \<Rightarrow> split_round" where
  "fenced_round m rs start msg_end u =
     (let header_end = newline_from rs u;
          header = trim_runes (case header_end of None \<Rightarrow> between u (u + 3) rs | Some h \<Rightarrow> between u h rs);
          after_header = (case header_end of None \<Rightarrow> u + length header | Some h \<Rightarrow> h);
          inner = min (start + m - 5) (length rs)
      in if msg_end > after_header + 20 then
           (let better = last_in is_newline rs start inner 200
            in reopen_round rs start header (if better > after_header then better else inner))
         else
           (let e1 = last_in is_newline rs start u 200;
                e2 = (if e1 \<le> start then last_in is_blank rs start u 100 else e1)
            in if e2 > start then plain_round m rs start e2
               else if u - start > 20 then plain_round m rs start u
               else reopen_round rs start header inner))"

definition split_step :: "nat \<Rightarrow> rune list \<Rightarrow> nat \<Rightarrow> split_round" where
  "split_step m rs start =
     (if length rs - start \<le> m then Rest (drop start rs)
      else (let msg_end = natural_end rs start (start + effective_limit m) in
        case last_unclosed rs start msg_end of
          None \<Rightarrow> plain_round m rs start msg_end
        | Some u \<Rightarrow>
            if length rs > msg_end then
              (case next_closing rs msg_end (length rs) of
                 None \<Rightarrow> fenced_round m rs start msg_end u
               | Some c \<Rightarrow> if c - start \<le> m then plain_round m rs start c else fenced_round m rs start msg_end u)
            else plain_round m rs start msg_end))"

partial_function (option) split_loop :: "nat \<Rightarrow> rune list \<Rightarrow> nat \<Rightarrow> rune list list option" where
  "split_loop m rs start =
     (if start < length rs then
        (case split_step m rs start of
           Rest c \<Rightarrow> Some [c]
         | Message c rs' start' \<Rightarrow> Option.bind (split_loop m rs' start') (\<lambda>cs. Some (c # cs)))
      else Some [])"

definition split_message :: "rune list \<Rightarrow> int \<Rightarrow> rune list list option" where
  "split_message content max_len =
     (if max_len \<le> 0 then Some (if content = [] then [] else [content])
      else split_loop (nat max_len) content 0)"

section \<open>The searches\<close>

lemma last_in_cases:
  obtains "last_in P rs start en window = start - 1"
  | "start \<le> last_in P rs start en window" "last_in P rs start en window < en" "P (rs ! last_in P rs start en window)"
proof (cases "filter (\<lambda>i. P (rs ! i)) (rev [max (en - window) start..<en])")
  case Nil
  then have "last_in P rs start en window = start - 1" by (simp add: last_in_def)
  then show ?thesis by (rule that(1))
next
  case (Cons i js)
  then have "i \<in> set (filter (\<lambda>i. P (rs ! i)) (rev [max (en - window) start..<en]))" by simp
  moreover have "last_in P rs start en window = i" using Cons by (simp add: last_in_def)
  ultimately show ?thesis using that(2) by auto
qed

lemma last_in_bound: "start < en \<Longrightarrow> last_in P rs start en window < en"
  by (rule last_in_cases [of P rs start en window]) auto

lemma last_in_none: "(\<And>i. start \<le> i \<Longrightarrow> i < en \<Longrightarrow> \<not> P (rs ! i)) \<Longrightarrow> last_in P rs start en window = start - 1"
  by (rule last_in_cases [of P rs start en window]) auto

lemma natural_end_bounds: "start < en \<Longrightarrow> start < natural_end rs start en \<and> natural_end rs start en \<le> en"
  using last_in_bound [of start en is_newline rs 200] last_in_bound [of start en is_blank rs 100]
  by (simp add: natural_end_def Let_def)

lemma effective_limit_bounds: "0 < m \<Longrightarrow> 0 < effective_limit m \<and> effective_limit m \<le> m"
  unfolding effective_limit_def code_block_buffer_def by linarith

lemma unclosed_bounds:
  "unclosed_from rs i en opened = Some u \<Longrightarrow> (\<forall>v. opened = Some v \<longrightarrow> start \<le> v \<and> v + 2 < en) \<Longrightarrow> start \<le> i \<Longrightarrow>
   start \<le> u \<and> u + 2 < en"
proof (induction rs i en opened rule: unclosed_from.induct)
  case (1 rs i en opened)
  show ?case
  proof (cases "en \<le> i")
    case True
    then show ?thesis using "1.prems" by (subst (asm) unclosed_from.simps) auto
  next
    case False
    show ?thesis
    proof (cases "fence_at rs i en")
      case True
      then have "unclosed_from rs (i + 3) en (if opened = None then Some i else None) = Some u"
        using "1.prems"(1) False by (subst (asm) unclosed_from.simps) auto
      then show ?thesis using "1.IH"(1) [OF False True] "1.prems"(3) True by (auto simp: fence_at_def split: if_splits)
    next
      case no: False
      then have "unclosed_from rs (i + 1) en opened = Some u"
        using "1.prems"(1) False by (subst (asm) unclosed_from.simps) auto
      then show ?thesis using "1.IH"(2) [OF False no] "1.prems"(2,3) by auto
    qed
  qed
qed

lemma last_unclosed_bounds: "last_unclosed rs start en = Some u \<Longrightarrow> start \<le> u \<and> u + 2 < en"
  unfolding last_unclosed_def by (erule unclosed_bounds) auto

lemma length_between [simp]: "length (between i j xs) \<le> j - i"
  by (simp add: between_def)

lemma length_trim_right: "length (trim_right_runes P rs) \<le> length rs"
  using length_dropWhile_le [of P "rev rs"] by (simp add: trim_right_runes_def)

section \<open>No message is too long\<close>

definition round_message :: "split_round \<Rightarrow> rune list" where
  "round_message r = (case r of Rest c \<Rightarrow> c | Message c _ _ \<Rightarrow> c)"

lemma plain_round_length:
  assumes "0 < m" "e \<le> start + m"
  shows "length (round_message (plain_round m rs start e)) \<le> m"
  using assms effective_limit_bounds [OF assms(1)]
  by (auto simp: plain_round_def round_message_def Let_def between_def)

lemma reopen_round_length:
  assumes "s \<le> start + m - 5" "5 \<le> m"
  shows "length (round_message (reopen_round rs start header s)) \<le> m"
proof -
  have "length (trim_right_runes cut_space (between start s rs)) \<le> m - 5"
    using length_trim_right [of cut_space "between start s rs"] length_between [of start s rs] assms by linarith
  then show ?thesis using assms(2) by (simp add: reopen_round_def round_message_def)
qed

lemma fenced_round_length:
  assumes "start \<le> u" "u + 2 < msg_end" "msg_end \<le> start + m" "5 \<le> m"
  shows "length (round_message (fenced_round m rs start msg_end u)) \<le> m"
proof -
  let ?inner = "min (start + m - 5) (length rs)"
  have better: "last_in is_newline rs start ?inner 200 \<le> start + m - 5"
    by (rule last_in_cases [of is_newline rs start ?inner 200]) (use assms in linarith)+
  have before: "last_in P rs start u w \<le> start + m" for P w
    by (rule last_in_cases [of P rs start u w]) (use assms in linarith)+
  have "length (round_message (reopen_round rs start header s)) \<le> m" if "s \<le> start + m - 5" for header s
    by (rule reopen_round_length [OF that assms(4)])
  moreover have "length (round_message (plain_round m rs start e)) \<le> m" if "e \<le> start + m" for e
    by (rule plain_round_length) (use that assms(4) in linarith)+
  ultimately show ?thesis using better before assms unfolding fenced_round_def Let_def by simp
qed

lemma split_step_length:
  assumes "0 < m"
  shows "length (round_message (split_step m rs start)) \<le> m"
proof (cases "length rs - start \<le> m")
  case True
  then show ?thesis by (simp add: split_step_def round_message_def)
next
  case False
  let ?e = "natural_end rs start (start + effective_limit m)"
  note lim = effective_limit_bounds [OF assms]
  have e: "start < ?e" "?e \<le> start + m"
    using natural_end_bounds [of start "start + effective_limit m" rs] lim by linarith+
  have plain: "length (round_message (plain_round m rs start f)) \<le> m" if "f \<le> start + m" for f
    by (rule plain_round_length [OF assms that])
  show ?thesis
  proof (cases "last_unclosed rs start ?e")
    case None
    then show ?thesis using False plain [OF e(2)] by (simp add: split_step_def Let_def)
  next
    case (Some u)
    note u = last_unclosed_bounds [OF Some]
    have "3 \<le> effective_limit m"
      using u natural_end_bounds [of start "start + effective_limit m" rs] lim by linarith
    then have "5 \<le> m" unfolding effective_limit_def code_block_buffer_def by linarith
    then have fenced: "length (round_message (fenced_round m rs start ?e u)) \<le> m"
      using fenced_round_length u e by blast
    show ?thesis using False Some fenced plain e
      by (auto simp: split_step_def Let_def split: option.split)
  qed
qed

text \<open>
  C38. Whenever splitting returns, no message is longer than the limit, in runes, for every text and
  every positive limit, whatever code fences were closed and opened again.
\<close>

theorem split_messages_fit:
  assumes "split_message content max_len = Some cs" "0 < max_len"
  shows "list_all (\<lambda>c. int (length c) \<le> max_len) cs"
proof -
  let ?m = "nat max_len"
  have "n = ?m \<longrightarrow> list_all (\<lambda>c. length c \<le> ?m) ds" if "split_loop n rs i = Some ds" for n rs i ds
  proof (rule split_loop.raw_induct [where P = "\<lambda>n rs i ds. n = ?m \<longrightarrow> list_all (\<lambda>c. length c \<le> ?m) ds", OF _ that])
    fix loop n rs i ds
    assume IH: "\<And>n rs i ds. loop n rs i = Some ds \<Longrightarrow> n = ?m \<longrightarrow> list_all (\<lambda>c. length c \<le> ?m) ds"
      and body: "(if i < length rs then (case split_step n rs i of Rest c \<Rightarrow> Some [c]
         | Message c rs' i' \<Rightarrow> Option.bind (loop n rs' i') (\<lambda>cs. Some (c # cs))) else Some []) = Some ds"
    have "length (round_message (split_step ?m rs i)) \<le> ?m" using split_step_length [of ?m] assms(2) by simp
    then show "n = ?m \<longrightarrow> list_all (\<lambda>c. length c \<le> ?m) ds" using body IH
      by (auto simp: round_message_def split: if_splits split_round.splits bind_splits)
  qed
  then have "list_all (\<lambda>c. length c \<le> ?m) cs" using assms by (simp add: split_message_def)
  then show ?thesis using assms(2) by (auto simp: list_all_iff)
qed


theorem split_messages_fit_witness:
  "split_message (runes ''one two three'') 8 = Some [runes ''one'', runes ''two'', runes ''three''] \<and>
   list_all (\<lambda>c. int (length c) \<le> 8) [runes ''one'', runes ''two'', runes ''three'']"
proof -
  let ?t = "runes ''one two three''"
  have step: "split_step 8 ?t 0 = Message (runes ''one'') ?t 4" "split_step 8 ?t 4 = Message (runes ''two'') ?t 8"
    "split_step 8 ?t 8 = Rest (runes ''three'')" "length ?t = 13"
    by code_simp+
  have "split_loop 8 ?t 8 = Some [runes ''three'']" by (subst split_loop.simps) (simp add: step)
  then have "split_loop 8 ?t 4 = Some [runes ''two'', runes ''three'']" by (subst split_loop.simps) (simp add: step)
  then have "split_loop 8 ?t 0 = Some [runes ''one'', runes ''two'', runes ''three'']"
    by (subst split_loop.simps) (simp add: step)
  then have s: "split_message ?t 8 = Some [runes ''one'', runes ''two'', runes ''three'']"
    by (simp add: split_message_def)
  show ?thesis using split_messages_fit [OF s] s by simp
qed

section \<open>Texts without code fences\<close>

definition fence_free :: "rune list \<Rightarrow> bool" where
  "fence_free rs \<longleftrightarrow> list_all (\<lambda>i. \<not> fence_at rs i (length rs)) [0..<length rs]"

lemma unclosed_none: "(\<And>j. i \<le> j \<Longrightarrow> \<not> fence_at rs j en) \<Longrightarrow> unclosed_from rs i en opened = opened"
proof (induction rs i en opened rule: unclosed_from.induct)
  case (1 rs i en opened)
  have "\<not> fence_at rs i en" using "1.prems" by blast
  then show ?case using "1.IH"(2) "1.prems" by (subst unclosed_from.simps) auto
qed

lemma fence_freeD: "fence_free rs \<Longrightarrow> en \<le> length rs \<Longrightarrow> \<not> fence_at rs i en"
  by (auto simp: fence_free_def fence_at_def list_all_iff)

lemma split_step_plain:
  assumes "fence_free rs" "0 < m" "m < length rs - start"
  shows "\<exists>e. start < e \<and> e \<le> length rs \<and> split_step m rs start = Message (between start e rs) rs (skip_space rs e)"
proof -
  let ?e = "natural_end rs start (start + effective_limit m)"
  have e: "start < ?e" "?e \<le> length rs"
    using natural_end_bounds [of start "start + effective_limit m" rs] effective_limit_bounds [OF assms(2)] assms(3)
    by linarith+
  have "last_unclosed rs start ?e = None"
    unfolding last_unclosed_def by (rule unclosed_none) (rule fence_freeD [OF assms(1) e(2)])
  then have "split_step m rs start = Message (between start ?e rs) rs (skip_space rs ?e)"
    using assms(3) e(1) by (simp add: split_step_def Let_def plain_round_def)
  then show ?thesis using e by blast
qed

lemma drop_skip_space: "drop i rs = takeWhile cut_space (drop i rs) @ drop (skip_space rs i) rs"
  unfolding skip_space_def by (metis add.commute drop_drop takeWhile_eq_take append_take_drop_id)

lemma split_loop_plain:
  assumes "fence_free rs" "0 < m"
  shows "\<exists>cs. split_loop m rs start = Some cs \<and>
    filter (\<lambda>r. \<not> cut_space r) (concat cs) = filter (\<lambda>r. \<not> cut_space r) (drop start rs)"
proof (induction "length rs - start" arbitrary: start rule: less_induct)
  case less
  show ?case
  proof (cases "length rs - start \<le> m")
    case True
    then show ?thesis by (subst split_loop.simps) (simp add: split_step_def)
  next
    case False
    then obtain e where e: "start < e" "e \<le> length rs" "split_step m rs start = Message (between start e rs) rs (skip_space rs e)"
      using split_step_plain [OF assms] by (meson not_le)
    have "e \<le> skip_space rs e" by (simp add: skip_space_def)
    then have "length rs - skip_space rs e < length rs - start" using e False by linarith
    then obtain cs where cs: "split_loop m rs (skip_space rs e) = Some cs"
      "filter (\<lambda>r. \<not> cut_space r) (concat cs) = filter (\<lambda>r. \<not> cut_space r) (drop (skip_space rs e) rs)"
      using less by blast
    have "start < length rs" using e by linarith
    then have "split_loop m rs start = Some (between start e rs # cs)"
      by (subst split_loop.simps) (simp add: e(3) cs(1))
    moreover have "drop start rs = between start e rs @ takeWhile cut_space (drop e rs) @ drop (skip_space rs e) rs"
      using e(1) drop_skip_space [of e rs] by (simp add: between_def) (metis append_take_drop_id drop_drop le_add_diff_inverse2 less_imp_le)
    moreover have "filter (\<lambda>r. \<not> cut_space r) (takeWhile cut_space xs) = []" for xs
      by (auto simp: filter_empty_conv dest: set_takeWhileD)
    ultimately show ?thesis using cs(2) by (intro exI [of _ "between start e rs # cs"]) simp
  qed
qed

text \<open>
  C39. A text without code fences is split into finitely many messages, for every limit, and the
  messages put together hold every rune of the text that is not a blank or a line break, in order.
\<close>

theorem fence_free_text_kept:
  assumes "fence_free content"
  shows "\<exists>cs. split_message content max_len = Some cs \<and>
    filter (\<lambda>r. \<not> cut_space r) (concat cs) = filter (\<lambda>r. \<not> cut_space r) content"
  using split_loop_plain [OF assms, of "nat max_len" 0] by (cases "max_len \<le> 0") (auto simp: split_message_def)

theorem fence_free_text_kept_witness:
  "\<exists>cs. split_message (runes ''one two three'') 5 = Some cs \<and> filter (\<lambda>r. \<not> cut_space r) (concat cs) = runes ''onetwothree''"
proof -
  have "fence_free (runes ''one two three'')" by code_simp
  moreover have "filter (\<lambda>r. \<not> cut_space r) (runes ''one two three'') = runes ''onetwothree''" by code_simp
  ultimately show ?thesis using fence_free_text_kept [of "runes ''one two three''" 5] by simp
qed

section \<open>A code block whose opening line is too long\<close>

text \<open>A fence, then at least the limit of runes without blanks or back quotes; the last one is visible.\<close>

definition long_opening :: "nat \<Rightarrow> rune list \<Rightarrow> bool" where
  "long_opening m h \<longleftrightarrow> m \<le> length h \<and> take 3 h = [96, 96, 96] \<and> list_all (\<lambda>r. r \<noteq> 96) (drop 3 h) \<and>
     list_all (\<lambda>r. \<not> is_newline r \<and> \<not> is_blank r) h \<and> \<not> unicode_space (last h)"

lemma trim_right_append: "x \<in> set ys \<Longrightarrow> \<not> P x \<Longrightarrow> trim_right_runes P (xs @ ys) = xs @ trim_right_runes P ys"
  unfolding trim_right_runes_def by (simp add: dropWhile_append1)

lemma find_member: "List.find P xs = Some x \<Longrightarrow> x \<in> set xs \<and> P x"
  by (induction xs) (auto split: if_splits)

lemma long_opening_step:
  assumes h: "long_opening m h" and m: "5 \<le> m"
  shows "\<exists>c rest'. split_step m (h @ 10 # rest) 0 = Message c (h @ 10 # rest') 0"
proof -
  let ?rs = "h @ 10 # rest" and ?e = "effective_limit m"
  have len: "m \<le> length h" and vis: "\<not> unicode_space (last h)" using h by (auto simp: long_opening_def)
  have e: "3 \<le> ?e" "?e \<le> m" using m unfolding effective_limit_def code_block_buffer_def by linarith+
  have at: "?rs ! i = h ! i" if "i < length h" for i using that by (simp add: nth_append)
  have plain: "\<not> is_newline (?rs ! i)" "\<not> is_blank (?rs ! i)" if "i < length h" for i
    using h that by (auto simp: long_opening_def at list_all_length)
  have three: "h ! i = 96" if "i < 3" for i
  proof -
    have "h ! i = take 3 h ! i" using that by simp
    then show ?thesis using h that by (auto simp: long_opening_def less_Suc_eq numeral_3_eq_3)
  qed
  have later: "h ! i \<noteq> 96" if "3 \<le> i" "i < length h" for i
  proof -
    have "\<forall>n<length h - 3. h ! (3 + n) \<noteq> 96" using h by (simp add: long_opening_def list_all_length)
    then have "h ! (3 + (i - 3)) \<noteq> 96" using that by (meson diff_less_mono)
    then show ?thesis using that by simp
  qed
  have "last_in P ?rs 0 ?e w = 0" if "\<And>i. i < length h \<Longrightarrow> \<not> P (?rs ! i)" for P w
    using last_in_none [of 0 ?e P ?rs w] that e len by simp
  then have natural: "natural_end ?rs 0 ?e = ?e" using plain by (simp add: natural_end_def)
  have "\<not> fence_at ?rs i ?e" if "3 \<le> i" for i
    using that later [of i] at [of i] e len by (auto simp: fence_at_def)
  moreover have "?rs ! i = 96" if "i < 3" for i using that three [OF that] at [of i] len m by simp
  then have "fence_at ?rs 0 ?e" unfolding fence_at_def using e by (intro conjI) simp_all
  ultimately have unclosed: "last_unclosed ?rs 0 ?e = Some 0"
    unfolding last_unclosed_def using unclosed_none [of 3 ?rs ?e "Some 0"] e
    by (subst unclosed_from.simps) auto
  have "m < c" if closing: "next_closing ?rs ?e (length ?rs) = Some c" for c
  proof -
    obtain i where c: "List.find (\<lambda>i. fence_at ?rs i (length ?rs)) [?e..<length ?rs] = Some i" "i + 3 = c"
      using closing unfolding next_closing_def map_option_eq_Some by blast
    have i: "c = i + 3" "?e \<le> i" "fence_at ?rs i (length ?rs)" using find_member [OF c(1)] c(2) by auto
    have "\<not> i < length h" using i later [of i] at [of i] e by (auto simp: fence_at_def)
    then show ?thesis using i len by linarith
  qed
  then have step: "split_step m ?rs 0 = fenced_round m ?rs 0 ?e 0"
    using len e natural unclosed by (auto simp: split_step_def Let_def split: option.split)
  have nl: "newline_from ?rs 0 = Some (length h)"
  proof -
    have "[0..<length ?rs] = [0..<length h] @ [length h..<length ?rs]" using upt_add_eq_append [of 0 "length h" "Suc (length rest)"] by simp
    moreover have "[length h..<length ?rs] = length h # [Suc (length h)..<length ?rs]" by (rule upt_conv_Cons) simp
    ultimately have "[0..<length ?rs] = [0..<length h] @ length h # [Suc (length h)..<length ?rs]" by (simp only:)
    moreover have "List.find (\<lambda>i. ?rs ! i = 10) [0..<length h] = None"
      using plain(1) by (auto simp: find_None_iff is_newline_def)
    moreover have "List.find P (xs @ ys) = (case List.find P xs of Some x \<Rightarrow> Some x | None \<Rightarrow> List.find P ys)"
      for P :: "nat \<Rightarrow> bool" and xs ys by (induction xs) auto
    ultimately show ?thesis unfolding newline_from_def by (simp only: option.case List.find.simps nth_append_length simp_thms if_True)
  qed
  have "h \<noteq> []" using len m by auto
  then have h3: "h \<noteq> []" "hd h = 96" using three [of 0] by (simp_all add: hd_conv_nth)
  have space96: "\<not> unicode_space 96" by (simp add: unicode_space_def)
  have front: "dropWhile unicode_space (h @ xs) = h @ xs" for xs
    using h3 space96 by (cases h) auto
  have trim_h: "trim_runes h = h"
  proof -
    have "trim_right_runes unicode_space (butlast h @ [last h]) = butlast h @ [last h]"
      using vis by (simp add: trim_right_runes_def)
    then show ?thesis using front [of "[]"] h3(1) by (simp add: trim_runes_def)
  qed
  have inner: "min (m - 5) (length ?rs) = m - 5" using len by simp
  have none: "last_in P ?rs 0 0 w = 0" for P w by (simp add: last_in_def)
  have "fenced_round m ?rs 0 ?e 0 = reopen_round ?rs 0 h (m - 5)"
    using e len none by (simp add: fenced_round_def Let_def nl trim_h between_def inner)
  moreover have "trim_runes (h @ [10] @ drop (m - 5) ?rs) = h @ 10 # trim_right_runes unicode_space (drop (m - 5) ?rs)"
  proof -
    have d: "m - 5 < length h" using len m by linarith
    then have "last (drop (m - 5) h) = last h" "drop (m - 5) h \<noteq> []" by (simp_all add: last_drop)
    then have "last h \<in> set (drop (m - 5) h)" by (metis last_in_set)
    then have "last h \<in> set (drop (m - 5) ?rs)" using d by simp
    then show ?thesis using trim_right_append [of "last h" "drop (m - 5) ?rs" unicode_space "h @ [10]"] vis front [of "10 # drop (m - 5) ?rs"]
      by (simp add: trim_runes_def)
  qed
  ultimately show ?thesis unfolding step by (simp add: reopen_round_def)
qed

text \<open>
  C40. With a limit of at least five, splitting a code block whose opening line is as long as the limit, has no blank
  and no back-quote after its fence and ends in a visible rune, never returns:
  each round emits a message and puts the whole opening line back in front of the text.
\<close>

theorem long_opening_line_diverges:
  assumes "long_opening (nat max_len) h" "5 \<le> max_len"
  shows "split_message (h @ 10 # rest) max_len = None"
proof -
  let ?m = "nat max_len"
  have m: "5 \<le> ?m" using assms(2) by simp
  have "\<not> (n = ?m \<and> i = 0 \<and> (\<exists>rest. rs = h @ 10 # rest))" if "split_loop n rs i = Some ds" for n rs i ds
  proof (rule split_loop.raw_induct [where P = "\<lambda>n rs i ds. \<not> (n = ?m \<and> i = 0 \<and> (\<exists>rest. rs = h @ 10 # rest))", OF _ that])
    fix loop n rs i ds
    assume IH: "\<And>n rs i ds. loop n rs i = Some ds \<Longrightarrow> \<not> (n = ?m \<and> i = 0 \<and> (\<exists>rest. rs = h @ 10 # rest))"
      and body: "(if i < length rs then (case split_step n rs i of Rest c \<Rightarrow> Some [c]
         | Message c rs' i' \<Rightarrow> Option.bind (loop n rs' i') (\<lambda>cs. Some (c # cs))) else Some []) = Some ds"
    show "\<not> (n = ?m \<and> i = 0 \<and> (\<exists>rest. rs = h @ 10 # rest))"
    proof
      assume "n = ?m \<and> i = 0 \<and> (\<exists>rest. rs = h @ 10 # rest)"
      then obtain rest where rs: "n = ?m" "i = 0" "rs = h @ 10 # rest" by blast
      obtain c rest' where "split_step ?m (h @ 10 # rest) 0 = Message c (h @ 10 # rest') 0"
        using long_opening_step [OF assms(1) m] by blast
      then obtain cs where "loop ?m (h @ 10 # rest') 0 = Some cs"
        using body rs by (auto split: bind_splits)
      then show False using IH by blast
    qed
  qed
  then have "split_loop ?m (h @ 10 # rest) 0 = None" by (cases "split_loop ?m (h @ 10 # rest) 0") blast+
  then show ?thesis using assms(2) by (simp add: split_message_def)
qed

theorem long_opening_line_diverges_witness:
  "split_message (runes (replicate 3 (CHR 0x60) @ replicate 400 (CHR ''x'')) @ 10 # runes ''rest'') 400 = None"
proof -
  let ?h = "replicate 3 96 @ replicate 400 120 :: rune list"
  have h: "long_opening (nat 400) ?h"
    by (auto simp: long_opening_def list_all_iff is_newline_def is_blank_def unicode_space_def numeral_3_eq_3)
  have "split_message (?h @ 10 # runes ''rest'') 400 = None"
    by (rule long_opening_line_diverges [OF h]) simp
  moreover have "runes (replicate 3 (CHR 0x60) @ replicate 400 (CHR ''x'')) = ?h" by (simp add: runes_def)
  ultimately show ?thesis by (simp only:)
qed

end
