(* ===== verification/Task_Store.thy ===== *)
theory Task_Store
  imports Go_Prelude "HOL-Library.List_Lexorder" "HOL-Library.Product_Lexorder"
begin

text \<open>
  The task store (pkg/taskstore/store.go): one JSON file per task in a directory, the status machine of
  a task, and the lazy migration of files of the old format.

  A path is the list of its components; files map paths to what they hold: a file that cannot be read,
  one that does not parse, or the decoded record (the JSON text itself is not modelled; the store writes
  what it reads back). The clock, the fresh identifier, the outcome of every write and of reading the
  directory, and the order \<open>sort.Slice\<close> gives to equal tasks are arguments. Every operation is one
  step; what the mutex does not cover (Get, List and Delete run without it) is the subject of the last
  section. Results: a finished task stays finished, the listing is exact, and deleting a task while it is
  updated brings it back.
\<close>

section \<open>Tasks\<close>

record task_entity =
  te_ID :: string
  te_Title :: string
  te_Prompt :: string
  te_AgentID :: string
  te_CreatedBy :: string
  te_ParentTaskID :: string
  te_Priority :: int
  te_Status :: string
  te_Result :: string
  te_Artifacts :: "string list"
  te_SessionID :: string
  te_TriggerType :: string
  te_SourceChannel :: string
  te_SourceChatID :: string
  te_CreatedAt :: time
  te_StartedAt :: "time option"
  te_CompletedAt :: "time option"

text \<open>The legacy record has the fields of a task and three more.\<close>

record legacy_raw = task_entity +
  lr_Name :: string
  lr_Description :: string
  lr_UpdatedAt :: time

record task_filter =
  tf_Status :: string
  tf_AgentID :: string
  tf_CreatedBy :: string
  tf_ParentTaskID :: string

record task_patch =
  tp_Status :: "string option"
  tp_Result :: "string option"
  tp_Artifacts :: "string list option"
  tp_SessionID :: "string option"
  tp_StartedAt :: "time option"
  tp_CompletedAt :: "time option"
  tp_Title :: "string option"
  tp_AgentID :: "string option"
  tp_Priority :: "int option"
  tp_SourceChannel :: "string option"
  tp_SourceChatID :: "string option"

datatype task_error = Task_not_found | Task_unreadable | Task_malformed | Dir_unreadable | Invalid_id |
  Not_queued string | Bad_priority int | Unknown_status string | Invalid_transition string string | Write_failed

datatype task_file = Unreadable | Malformed | Decoded legacy_raw

type_synonym path = "string list"
type_synonym task_disk = "(path, task_file) gomap"

record task_world =
  tw_now :: time
  tw_uuid :: string
  tw_write_ok :: "path \<Rightarrow> bool"
  tw_listable :: bool
  tw_sort :: "task_entity list \<Rightarrow> task_entity list"

section \<open>Files\<close>

definition validate_id :: "string \<Rightarrow> bool" where
  "validate_id i \<longleftrightarrow> \<not> (i = [] \<or> contains_any i [CHR ''/'', CHR 0x5C] \<or> contains_sub i ''..'' \<or> CHR 0x00 \<in> set i)"

text \<open>\<open>filepath.Join\<close> onto a clean absolute directory.\<close>

fun join_onto :: "path \<Rightarrow> path \<Rightarrow> path" where
  "join_onto dir [] = dir"
| "join_onto dir (p # ps) =
     (if p = [] \<or> p = ''.'' then join_onto dir ps
      else if p = ''..'' then join_onto (butlast dir) ps
      else join_onto (dir @ [p]) ps)"

definition task_path :: "path \<Rightarrow> string \<Rightarrow> path" where
  "task_path dir i = join_onto dir (split_slash (i @ ''.json''))"

definition to_raw :: "task_entity \<Rightarrow> legacy_raw" where
  "to_raw t = task_entity.extend t (legacy_raw.fields [] [] 0)"

definition write_task :: "task_world \<Rightarrow> path \<Rightarrow> task_entity \<Rightarrow> task_disk \<Rightarrow> bool \<times> task_disk" where
  "write_task w dir t disk =
     (let p = task_path dir (te_ID t)
      in if tw_write_ok w p then (True, AList.update p (Decoded (to_raw t)) disk) else (False, disk))"

definition is_current :: "legacy_raw \<Rightarrow> bool" where
  "is_current raw \<longleftrightarrow> te_Title raw \<noteq> [] \<or> lr_Name raw = []"

definition entity_of :: "legacy_raw \<Rightarrow> task_entity" where
  "entity_of raw = (task_entity.truncate raw)
     \<lparr>te_Priority := (if te_Priority raw = 0 then 3 else te_Priority raw),
      te_TriggerType := (if te_TriggerType raw = [] then ''manual'' else te_TriggerType raw),
      te_CreatedBy := (if te_CreatedBy raw = [] then ''user'' else te_CreatedBy raw)\<rparr>"

definition migrated_status :: "string \<Rightarrow> string" where
  "migrated_status s =
     (if s \<in> {''inbox'', ''next'', ''waiting''} then ''queued'' else if s = ''active'' then ''running''
      else if s = ''done'' then ''completed'' else ''queued'')"

definition migrated :: "legacy_raw \<Rightarrow> task_entity" where
  "migrated raw = \<lparr>te_ID = te_ID raw, te_Title = lr_Name raw, te_Prompt = lr_Description raw,
     te_AgentID = te_AgentID raw, te_CreatedBy = ''user'', te_ParentTaskID = [], te_Priority = 3,
     te_Status = migrated_status (te_Status raw), te_Result = te_Result raw, te_Artifacts = te_Artifacts raw,
     te_SessionID = te_SessionID raw, te_TriggerType = ''manual'', te_SourceChannel = te_SourceChannel raw,
     te_SourceChatID = te_SourceChatID raw, te_CreatedAt = te_CreatedAt raw, te_StartedAt = te_StartedAt raw,
     te_CompletedAt = te_CompletedAt raw\<rparr>"

definition load_task :: "task_world \<Rightarrow> path \<Rightarrow> string \<Rightarrow> task_disk \<Rightarrow> (task_error + task_entity) \<times> task_disk" where
  "load_task w dir i disk =
     (case map_of disk (task_path dir i) of
        None \<Rightarrow> (Inl Task_not_found, disk)
      | Some Unreadable \<Rightarrow> (Inl Task_unreadable, disk)
      | Some Malformed \<Rightarrow> (Inl Task_malformed, disk)
      | Some (Decoded raw) \<Rightarrow>
          if is_current raw then (Inr (entity_of raw), disk)
          else (Inr (migrated raw), snd (write_task w dir (migrated raw) disk)))"

section \<open>Operations\<close>

definition file_names :: "path \<Rightarrow> task_disk \<Rightarrow> string list" where
  "file_names dir disk = sort (map last (filter (\<lambda>p. p \<noteq> [] \<and> butlast p = dir) (map fst disk)))"

definition passes_filter :: "task_filter \<Rightarrow> task_entity \<Rightarrow> bool" where
  "passes_filter f t \<longleftrightarrow>
     (tf_Status f = [] \<or> te_Status t = tf_Status f) \<and> (tf_AgentID f = [] \<or> te_AgentID t = tf_AgentID f) \<and>
     (tf_CreatedBy f = [] \<or> te_CreatedBy t = tf_CreatedBy f) \<and>
     (tf_ParentTaskID f = [] \<or> te_ParentTaskID t = tf_ParentTaskID f)"

fun list_loop :: "task_world \<Rightarrow> path \<Rightarrow> task_filter \<Rightarrow> string list \<Rightarrow> task_disk \<Rightarrow> task_entity list \<times> task_disk" where
  "list_loop w dir f [] disk = ([], disk)"
| "list_loop w dir f (n # ns) disk =
     (if \<not> suffix ''.json'' n then list_loop w dir f ns disk
      else (case load_task w dir (trim_suffix n ''.json'') disk of
         (Inl e, disk1) \<Rightarrow> list_loop w dir f ns disk1
       | (Inr t, disk1) \<Rightarrow>
           (case list_loop w dir f ns disk1 of
              (ts, disk2) \<Rightarrow> (if passes_filter f t then t # ts else ts, disk2))))"

text \<open>The order of the listing, \<open>less\<close> of \<open>sort.Slice\<close>.\<close>

definition task_before :: "task_entity \<Rightarrow> task_entity \<Rightarrow> bool" where
  "task_before a b \<longleftrightarrow>
     (if te_Priority a \<noteq> te_Priority b then te_Priority a < te_Priority b else te_CreatedAt a < te_CreatedAt b)"

definition list_tasks :: "task_world \<Rightarrow> path \<Rightarrow> task_filter \<Rightarrow> task_disk \<Rightarrow> (task_error + task_entity list) \<times> task_disk" where
  "list_tasks w dir f disk =
     (if \<not> tw_listable w then (Inl Dir_unreadable, disk)
      else (case list_loop w dir f (file_names dir disk) disk of (ts, disk1) \<Rightarrow> (Inr (tw_sort w ts), disk1)))"

definition get_task :: "task_world \<Rightarrow> path \<Rightarrow> string \<Rightarrow> task_disk \<Rightarrow> (task_error + task_entity) \<times> task_disk" where
  "get_task w dir i disk = (if \<not> validate_id i then (Inl Invalid_id, disk) else load_task w dir i disk)"

definition valid_statuses :: "string set" where
  "valid_statuses = {''queued'', ''assigned'', ''running'', ''completed'', ''failed''}"

definition valid_transitions :: "string \<Rightarrow> string set" where
  "valid_transitions s =
     (if s = ''queued'' then {''assigned'', ''running'', ''failed''}
      else if s = ''assigned'' then {''running'', ''queued'', ''failed''}
      else if s = ''running'' then {''completed'', ''failed''} else {})"

text \<open>The entity that \<open>Create\<close> writes, or the reason why it writes none.\<close>

definition new_task :: "task_world \<Rightarrow> task_entity \<Rightarrow> task_error + task_entity" where
  "new_task w t0 =
     (let t1 = (if te_ID t0 = [] then t0\<lparr>te_ID := tw_uuid w\<rparr> else t0)
      in if \<not> validate_id (te_ID t1) then Inl Invalid_id
         else let t2 = (if te_Status t1 = [] then t1\<lparr>te_Status := ''queued''\<rparr> else t1)
         in if te_Status t2 \<noteq> ''queued'' then Inl (Not_queued (te_Status t2))
         else if (te_Priority t2 < 1 \<or> te_Priority t2 > 5) \<and> te_Priority t2 \<noteq> 0 then Inl (Bad_priority (te_Priority t2))
         else Inr (t2\<lparr>te_Priority := (if te_Priority t2 = 0 then 3 else te_Priority t2),
           te_TriggerType := (if te_TriggerType t2 = [] then ''manual'' else te_TriggerType t2),
           te_CreatedBy := (if te_CreatedBy t2 = [] then ''user'' else te_CreatedBy t2),
           te_CreatedAt := tw_now w\<rparr>))"

definition create_task :: "task_world \<Rightarrow> path \<Rightarrow> task_entity \<Rightarrow> task_disk \<Rightarrow> (task_error + task_entity) \<times> task_disk" where
  "create_task w dir t0 disk =
     (case new_task w t0 of
        Inl e \<Rightarrow> (Inl e, disk)
      | Inr t \<Rightarrow> (case write_task w dir t disk of
           (True, disk1) \<Rightarrow> (Inr t, disk1) | (False, disk1) \<Rightarrow> (Inl Write_failed, disk1)))"

definition set_if :: "'a option \<Rightarrow> 'a \<Rightarrow> 'a" where
  "set_if v old = (case v of None \<Rightarrow> old | Some x \<Rightarrow> x)"

definition patch_status :: "task_patch \<Rightarrow> task_entity \<Rightarrow> task_error option" where
  "patch_status p t =
     (case tp_Status p of
        None \<Rightarrow> None
      | Some s \<Rightarrow>
          if s \<notin> valid_statuses then Some (Unknown_status s)
          else if s \<noteq> te_Status t \<and> s \<notin> valid_transitions (te_Status t) then Some (Invalid_transition (te_Status t) s)
          else None)"

definition patched :: "task_patch \<Rightarrow> task_entity \<Rightarrow> task_entity" where
  "patched p t = t\<lparr>te_Status := set_if (tp_Status p) (te_Status t), te_Result := set_if (tp_Result p) (te_Result t),
     te_Artifacts := set_if (tp_Artifacts p) (te_Artifacts t), te_SessionID := set_if (tp_SessionID p) (te_SessionID t),
     te_StartedAt := (if tp_StartedAt p = None then te_StartedAt t else tp_StartedAt p),
     te_CompletedAt := (if tp_CompletedAt p = None then te_CompletedAt t else tp_CompletedAt p),
     te_Title := set_if (tp_Title p) (te_Title t), te_AgentID := set_if (tp_AgentID p) (te_AgentID t),
     te_Priority := set_if (tp_Priority p) (te_Priority t),
     te_SourceChannel := set_if (tp_SourceChannel p) (te_SourceChannel t),
     te_SourceChatID := set_if (tp_SourceChatID p) (te_SourceChatID t)\<rparr>"

definition apply_patch :: "task_patch \<Rightarrow> task_entity \<Rightarrow> task_error + task_entity" where
  "apply_patch p t =
     (case patch_status p t of
        Some e \<Rightarrow> Inl e
      | None \<Rightarrow> (case tp_Priority p of
           Some n \<Rightarrow> if n < 1 \<or> n > 5 then Inl (Bad_priority n) else Inr (patched p t)
         | None \<Rightarrow> Inr (patched p t)))"

text \<open>\<open>Update\<close> up to its write.\<close>

definition prepare_update :: "task_world \<Rightarrow> path \<Rightarrow> string \<Rightarrow> task_patch \<Rightarrow> task_disk \<Rightarrow> (task_error + task_entity) \<times> task_disk" where
  "prepare_update w dir i p disk =
     (case load_task w dir i disk of
        (Inl e, disk1) \<Rightarrow> (Inl e, disk1) | (Inr t, disk1) \<Rightarrow> (apply_patch p t, disk1))"

definition update_task :: "task_world \<Rightarrow> path \<Rightarrow> string \<Rightarrow> task_patch \<Rightarrow> task_disk \<Rightarrow> (task_error + task_entity) \<times> task_disk" where
  "update_task w dir i p disk =
     (case prepare_update w dir i p disk of
        (Inl e, disk1) \<Rightarrow> (Inl e, disk1)
      | (Inr t, disk1) \<Rightarrow> (case write_task w dir t disk1 of
           (True, disk2) \<Rightarrow> (Inr t, disk2) | (False, disk2) \<Rightarrow> (Inl Write_failed, disk2)))"

definition delete_task :: "task_world \<Rightarrow> path \<Rightarrow> string \<Rightarrow> task_disk \<Rightarrow> task_error option \<times> task_disk" where
  "delete_task w dir i disk =
     (if \<not> validate_id i then (Some Invalid_id, disk)
      else if map_of disk (task_path dir i) = None then (Some Task_not_found, disk)
      else if \<not> tw_write_ok w (task_path dir i) then (Some Write_failed, disk)
      else (None, AList.delete (task_path dir i) disk))"

section \<open>What the store holds\<close>

definition loaded :: "legacy_raw \<Rightarrow> task_entity" where
  "loaded raw = (if is_current raw then entity_of raw else migrated raw)"

definition stored_task :: "path \<Rightarrow> task_disk \<Rightarrow> string \<Rightarrow> task_entity option" where
  "stored_task dir disk i =
     (case map_of disk (dir @ [i @ ''.json'']) of Some (Decoded raw) \<Rightarrow> Some (loaded raw) | _ \<Rightarrow> None)"

text \<open>
  Names have no slash, and every file that decodes lies in the directory under the name of its own id.
\<close>

definition named :: "path \<Rightarrow> task_disk \<Rightarrow> bool" where
  "named dir disk \<longleftrightarrow> gomap_wf disk \<and> list_all (list_all (\<lambda>n. CHR ''/'' \<notin> set n)) (dir # map fst disk)"

definition filed :: "path \<Rightarrow> task_disk \<Rightarrow> bool" where
  "filed dir disk \<longleftrightarrow> named dir disk \<and> (\<forall>p raw. map_of disk p = Some (Decoded raw) \<longrightarrow>
     validate_id (te_ID raw) \<and> p = dir @ [te_ID raw @ ''.json''])"

definition normal_task :: "task_entity \<Rightarrow> bool" where
  "normal_task t \<longleftrightarrow> te_Priority t \<noteq> 0 \<and> te_TriggerType t \<noteq> [] \<and> te_CreatedBy t \<noteq> []"

named_theorems task_simps "how the store reads what it wrote"

lemma split_slash_none: "CHR ''/'' \<notin> set s \<Longrightarrow> split_slash s = [s]"
  by (induction s) auto

lemma validate_id_slash: "validate_id i \<Longrightarrow> CHR ''/'' \<notin> set i"
  by (auto simp: validate_id_def contains_any_def)

lemma task_path_valid [task_simps]: "validate_id i \<Longrightarrow> task_path dir i = dir @ [i @ ''.json'']"
  using validate_id_slash [of i] split_slash_none [of "i @ ''.json''"]
  by (cases i) (auto simp: task_path_def)

lemma loaded_simps [task_simps]:
  "te_ID (loaded raw) = te_ID raw" "normal_task (loaded raw)"
  by (simp_all add: loaded_def entity_of_def migrated_def normal_task_def task_entity.defs)

lemma to_raw_simps [task_simps]: "te_ID (to_raw t) = te_ID t" "is_current (to_raw t)"
  by (simp_all add: to_raw_def is_current_def task_entity.defs legacy_raw.defs)

lemma loaded_to_raw [task_simps]: "normal_task t \<Longrightarrow> loaded (to_raw t) = t"
  by (simp add: loaded_def to_raw_simps)
    (simp add: entity_of_def to_raw_def normal_task_def task_entity.defs legacy_raw.defs)

lemma stored_id: "filed dir disk \<Longrightarrow> stored_task dir disk i = Some t \<Longrightarrow> te_ID t = i \<and> validate_id i \<and> normal_task t"
  by (fastforce simp: stored_task_def filed_def task_simps split: option.splits task_file.splits)

lemma named_simps [task_simps]:
  assumes "named dir disk"
  shows "validate_id i \<Longrightarrow> named dir (AList.update (dir @ [i @ ''.json'']) f disk)" "named dir (AList.delete p disk)"
proof -
  show "validate_id i \<Longrightarrow> named dir (AList.update (dir @ [i @ ''.json'']) f disk)"
    using assms validate_id_slash [of i] by (auto simp: named_def list_all_iff dom_update)
  have "set (map fst (AList.delete p disk)) \<subseteq> set (map fst disk)" by (auto simp: AList.delete_eq)
  then show "named dir (AList.delete p disk)" using assms by (auto simp: named_def list_all_iff simp del: set_map)
qed

lemma write_task_stores:
  assumes "filed dir disk" "validate_id (te_ID t)" "normal_task t" "write_task w dir t disk = (ok, disk')"
  shows "filed dir disk'" "stored_task dir disk' i = (if ok \<and> i = te_ID t then Some t else stored_task dir disk i)"
  using assms by (auto simp: write_task_def Let_def task_simps filed_def stored_task_def split: if_splits)

lemma loaded_same: "map_of disk p = Some (Decoded raw) \<Longrightarrow> filed dir disk \<Longrightarrow> stored_task dir disk (te_ID raw) = Some (loaded raw)"
  by (fastforce simp: filed_def stored_task_def)

lemma load_task_stores:
  assumes "filed dir disk" "load_task w dir i disk = (r, disk')"
  shows "filed dir disk'" "stored_task dir disk' = stored_task dir disk"
    "r = Inr t \<Longrightarrow> stored_task dir disk (te_ID t) = Some t"
proof -
  have "filed dir disk' \<and> stored_task dir disk' = stored_task dir disk \<and>
      (\<forall>t. r = Inr t \<longrightarrow> stored_task dir disk (te_ID t) = Some t)"
  proof (cases "map_of disk (task_path dir i)")
    case None
    then show ?thesis using assms by (auto simp: load_task_def)
  next
    case (Some f)
    show ?thesis
    proof (cases f)
      case (Decoded raw)
      then have raw: "validate_id (te_ID raw)" "stored_task dir disk (te_ID raw) = Some (loaded raw)"
        using assms(1) Some loaded_same [of disk "task_path dir i" raw dir] by (auto simp: filed_def)
      show ?thesis
      proof (cases "is_current raw")
        case True
        then show ?thesis using assms Some Decoded raw
          by (auto simp: load_task_def loaded_def task_simps entity_of_def task_entity.defs)
      next
        case False
        then have m: "migrated raw = loaded raw" by (simp add: loaded_def)
        obtain ok d where w: "write_task w dir (loaded raw) disk = (ok, d)" by fastforce
        have r: "r = Inr (loaded raw)" "disk' = d" using assms(2) Some Decoded False m w by (auto simp: load_task_def)
        note s = write_task_stores [OF assms(1) _ _ w]
        have "stored_task dir d j = stored_task dir disk j" for j
          using s(2) [of j] raw by (simp add: task_simps)
        then show ?thesis using r s(1) raw by (auto simp: task_simps)
      qed
    qed (use assms Some in \<open>auto simp: load_task_def\<close>)
  qed
  then show "filed dir disk'" "stored_task dir disk' = stored_task dir disk"
    "r = Inr t \<Longrightarrow> stored_task dir disk (te_ID t) = Some t" by blast+
qed

lemma load_task_valid:
  assumes "filed dir disk" "validate_id i"
  shows "fst (load_task w dir i disk) = Inr t \<longleftrightarrow> stored_task dir disk i = Some t"
  using assms by (auto simp: load_task_def stored_task_def loaded_def task_simps split: option.splits task_file.splits)

section \<open>The listing\<close>

definition sorts_tasks :: "(task_entity list \<Rightarrow> task_entity list) \<Rightarrow> bool" where
  "sorts_tasks f \<longleftrightarrow> (\<forall>ts. mset (f ts) = mset ts \<and> sorted_wrt (\<lambda>a b. \<not> task_before b a) (f ts))"

lemma list_loop_stores:
  "filed dir disk \<Longrightarrow> list_loop w dir f ns disk = (ts, disk') \<Longrightarrow> filed dir disk' \<and> stored_task dir disk' = stored_task dir disk"
proof (induction ns arbitrary: disk disk' ts)
  case (Cons n ns)
  show ?case
  proof (cases "suffix ''.json'' n")
    case True
    obtain r d where l: "load_task w dir (trim_suffix n ''.json'') disk = (r, d)" by fastforce
    note s = load_task_stores [OF Cons.prems(1) l]
    obtain us d2 where rest: "list_loop w dir f ns d = (us, d2)" by fastforce
    then have "d2 = disk'" using Cons.prems(2) True l by (auto split: sum.splits)
    then show ?thesis using Cons.IH [OF s(1) rest] s(2) by simp
  next
    case False
    then show ?thesis using Cons by simp
  qed
qed simp

lemma trim_suffix_append [simp]: "trim_suffix (s @ p) p = s"
  by (simp add: trim_suffix_def suffix_def)

lemma task_path_name: "CHR ''/'' \<notin> set i \<Longrightarrow> task_path dir i = dir @ [i @ ''.json'']"
  using split_slash_none [of "i @ ''.json''"] by (cases i) (auto simp: task_path_def)

lemma load_named:
  assumes "filed dir disk" "load_task w dir (trim_suffix n ''.json'') disk = (Inr t, d)" "suffix ''.json'' n" "CHR ''/'' \<notin> set n"
  shows "n = te_ID t @ ''.json'' \<and> stored_task dir disk (te_ID t) = Some t"
proof -
  obtain m where n: "n = m @ ''.json''" using assms(3) by (auto simp: suffix_def)
  then have "task_path dir (trim_suffix n ''.json'') = dir @ [n]"
    using assms(4) task_path_name [of m dir] by simp
  then obtain raw where raw: "map_of disk (dir @ [n]) = Some (Decoded raw)" "t = loaded raw"
    using assms(2) by (auto simp: load_task_def loaded_def split: option.splits task_file.splits if_splits)
  then show ?thesis using assms(1) loaded_same [OF raw(1) assms(1)] by (auto simp: filed_def task_simps)
qed

lemma list_loop_exact:
  "filed dir disk \<Longrightarrow> list_loop w dir f ns disk = (ts, disk') \<Longrightarrow> list_all (\<lambda>n. CHR ''/'' \<notin> set n) ns \<Longrightarrow> distinct ns \<Longrightarrow>
   distinct (map te_ID ts) \<and> set ts = {t. stored_task dir disk (te_ID t) = Some t \<and> passes_filter f t \<and> te_ID t @ ''.json'' \<in> set ns}"
proof (induction ns arbitrary: disk disk' ts)
  case (Cons n ns)
  show ?case
  proof (cases "suffix ''.json'' n")
    case True
    obtain r d where l: "load_task w dir (trim_suffix n ''.json'') disk = (r, d)" by fastforce
    note s = load_task_stores [OF Cons.prems(1) l]
    obtain us d2 where rest: "list_loop w dir f ns d = (us, d2)" by fastforce
    have IH: "distinct (map te_ID us) \<and> set us = {t. stored_task dir disk (te_ID t) = Some t \<and> passes_filter f t \<and> te_ID t @ ''.json'' \<in> set ns}"
      using Cons.IH [OF s(1) rest] Cons.prems(3,4) s(2) by simp
    show ?thesis
    proof (cases r)
      case (Inl e)
      have "\<not> (stored_task dir disk (te_ID t) = Some t \<and> te_ID t @ ''.json'' = n)" for t
      proof
        assume a: "stored_task dir disk (te_ID t) = Some t \<and> te_ID t @ ''.json'' = n"
        then have "trim_suffix n ''.json'' = te_ID t" by (metis trim_suffix_append)
        moreover have "validate_id (te_ID t)" using a stored_id [OF Cons.prems(1)] by blast
        ultimately have "fst (load_task w dir (trim_suffix n ''.json'') disk) = Inr t"
          using load_task_valid [OF Cons.prems(1)] a by simp
        then show False using l Inl by simp
      qed
      moreover have "ts = us" using Cons.prems(2) True l rest Inl by simp
      ultimately show ?thesis using IH by (simp add: conj_disj_distribL) blast
    next
      case (Inr t)
      note t = load_named [OF Cons.prems(1) l [unfolded Inr] True]
      have n: "n = te_ID t @ ''.json''" "stored_task dir disk (te_ID t) = Some t" using t Cons.prems(3) by auto
      have ts: "ts = (if passes_filter f t then t # us else us)" using Cons.prems(2) True l rest Inr by simp
      have "te_ID u @ ''.json'' \<in> set ns" if "u \<in> set us" for u using IH that by blast
      moreover have "te_ID t @ ''.json'' \<notin> set ns" using Cons.prems(4) n(1) by simp
      ultimately have fresh: "te_ID u \<noteq> te_ID t" if "u \<in> set us" for u using that by force
      have "te_ID t \<notin> set (map te_ID us)"
      proof
        assume "te_ID t \<in> set (map te_ID us)"
        then obtain u where "u \<in> set us" "te_ID t = te_ID u" unfolding set_map by (rule imageE)
        then show False using fresh by metis
      qed
      then have d: "distinct (map te_ID ts)" using IH unfolding ts by simp
      have new: "stored_task dir disk (te_ID u) = Some u \<and> te_ID u @ ''.json'' = n \<longleftrightarrow> u = t" for u
        using n by auto
      have "u \<in> set ts \<longleftrightarrow> stored_task dir disk (te_ID u) = Some u \<and> passes_filter f u \<and> te_ID u @ ''.json'' \<in> set (n # ns)" for u
      proof (cases "u = t")
        case True
        then show ?thesis using IH new [of u] unfolding ts by (cases "passes_filter f t") simp_all
      next
        case False
        then show ?thesis using IH new [of u] unfolding ts by (cases "passes_filter f t") auto
      qed
      then show ?thesis using d by blast
    qed
  next
    case False
    then have "te_ID t @ ''.json'' \<noteq> n" for t :: task_entity by (auto simp: suffix_def)
    then show ?thesis using Cons False by auto
  qed
qed simp

lemma file_names_props:
  assumes "named dir disk"
  shows "distinct (file_names dir disk)" "list_all (\<lambda>n. CHR ''/'' \<notin> set n) (file_names dir disk)"
    "stored_task dir disk i = Some t \<Longrightarrow> i @ ''.json'' \<in> set (file_names dir disk)"
proof -
  let ?ps = "filter (\<lambda>p. p \<noteq> [] \<and> butlast p = dir) (map fst disk)"
  have split: "p = dir @ [last p]" if "p \<in> set ?ps" for p
    using that append_butlast_last_id [of p] by auto
  have "inj_on last (set ?ps)"
  proof (rule inj_onI)
    fix p q assume "p \<in> set ?ps" "q \<in> set ?ps" "last p = last q"
    then show "p = q" using split [of p] split [of q] by argo
  qed
  then show "distinct (file_names dir disk)"
    using assms by (simp add: file_names_def distinct_map named_def gomap_wf_def)
  have "CHR ''/'' \<notin> set (last p)" if "p \<in> set (map fst disk)" "p \<noteq> []" for p
    using assms that last_in_set [of p] by (fastforce simp: named_def list_all_iff)
  then show "list_all (\<lambda>n. CHR ''/'' \<notin> set n) (file_names dir disk)"
    by (auto simp: file_names_def list_all_iff)
  show "i @ ''.json'' \<in> set (file_names dir disk)" if s: "stored_task dir disk i = Some t"
  proof -
    obtain x where "map_of disk (dir @ [i @ ''.json'']) = Some x"
      using s by (auto simp: stored_task_def split: option.splits)
    then have "dir @ [i @ ''.json''] \<in> set (map fst disk)" by (auto dest: map_of_SomeD intro: rev_image_eqI)
    then have "dir @ [i @ ''.json''] \<in> set ?ps" by (simp del: set_map)
    then show ?thesis unfolding file_names_def set_sort set_map by (rule rev_image_eqI) simp
  qed
qed

lemma list_tasks_exact:
  assumes "filed dir disk" "sorts_tasks (tw_sort w)" "list_tasks w dir f disk = (Inr ts, disk')"
  shows "distinct (map te_ID ts)" "sorted_wrt (\<lambda>a b. \<not> task_before b a) ts" "stored_task dir disk' = stored_task dir disk"
    "t \<in> set ts \<longleftrightarrow> stored_task dir disk (te_ID t) = Some t \<and> passes_filter f t"
proof -
  obtain us d where l: "list_loop w dir f (file_names dir disk) disk = (us, d)" by fastforce
  have ts: "ts = tw_sort w us" "disk' = d" using assms(3) l by (auto simp: list_tasks_def split: if_splits)
  have "named dir disk" using assms(1) by (simp add: filed_def)
  note n = file_names_props [OF this]
  note e = list_loop_exact [OF assms(1) l n(2) n(1)]
  have m: "mset ts = mset us" and s: "sorted_wrt (\<lambda>a b. \<not> task_before b a) ts"
    using assms(2) by (simp_all add: sorts_tasks_def ts(1))
  show "sorted_wrt (\<lambda>a b. \<not> task_before b a) ts" by (rule s)
  have "mset (map te_ID ts) = mset (map te_ID us)" using m by simp
  then show "distinct (map te_ID ts)" using e by (metis mset_eq_imp_distinct_iff)
  show "t \<in> set ts \<longleftrightarrow> stored_task dir disk (te_ID t) = Some t \<and> passes_filter f t"
    using e n(3) mset_eq_setD [OF m] by auto
  show "stored_task dir disk' = stored_task dir disk" using list_loop_stores [OF assms(1) l] ts(2) by simp
qed

text \<open>
  The listing holds every stored task that passes the filter, once, and nothing else, by priority
  and then by creation time; reading it migrates files without changing what is stored.
\<close>

theorem listing_exact:
  assumes "filed dir disk" "sorts_tasks (tw_sort w)"
  shows "case list_tasks w dir f disk of
      (Inl e, disk') \<Rightarrow> \<not> tw_listable w \<and> disk' = disk
    | (Inr ts, disk') \<Rightarrow> distinct (map te_ID ts) \<and> sorted_wrt (\<lambda>a b. \<not> task_before b a) ts \<and>
        (\<forall>t. t \<in> set ts \<longleftrightarrow> stored_task dir disk (te_ID t) = Some t \<and> passes_filter f t) \<and>
        stored_task dir disk' = stored_task dir disk"
proof (cases "list_tasks w dir f disk")
  case (Pair r d)
  show ?thesis
  proof (cases r)
    case (Inl e)
    then show ?thesis using Pair by (auto simp: list_tasks_def split: if_splits prod.splits)
  next
    case (Inr ts)
    note x = list_tasks_exact [OF assms Pair [unfolded Inr]]
    show ?thesis unfolding Pair Inr prod.case sum.case using x by blast
  qed
qed

section \<open>The life of a task\<close>

datatype task_op = Op_list task_filter | Op_get string | Op_create task_entity | Op_update string task_patch | Op_delete string

definition run_task_op :: "task_world \<Rightarrow> path \<Rightarrow> task_op \<Rightarrow> task_disk \<Rightarrow> task_disk" where
  "run_task_op w dir op disk =
     (case op of
        Op_list f \<Rightarrow> snd (list_tasks w dir f disk) | Op_get i \<Rightarrow> snd (get_task w dir i disk)
      | Op_create t \<Rightarrow> snd (create_task w dir t disk) | Op_update i p \<Rightarrow> snd (update_task w dir i p disk)
      | Op_delete i \<Rightarrow> snd (delete_task w dir i disk))"

fun run_task_ops :: "path \<Rightarrow> (task_world \<times> task_op) list \<Rightarrow> task_disk \<Rightarrow> task_disk" where
  "run_task_ops dir [] disk = disk"
| "run_task_ops dir ((w, op) # ops) disk = run_task_ops dir ops (run_task_op w dir op disk)"

text \<open>Creations draw their identifiers afresh: none takes the identifier of the task.\<close>

definition creates_other :: "string \<Rightarrow> task_world \<times> task_op \<Rightarrow> bool" where
  "creates_other i c = (case c of (w, op) \<Rightarrow> case op of
     Op_create t \<Rightarrow> (if te_ID t = [] then tw_uuid w else te_ID t) \<noteq> i | _ \<Rightarrow> True)"

text \<open>What no patch touches.\<close>

definition fixed_fields :: "task_entity \<Rightarrow> string \<times> string \<times> string \<times> string \<times> string \<times> time" where
  "fixed_fields t = (te_ID t, te_Prompt t, te_CreatedBy t, te_ParentTaskID t, te_TriggerType t, te_CreatedAt t)"

text \<open>One step of the life of a stored task.\<close>

definition lives_on :: "task_entity \<Rightarrow> task_entity \<Rightarrow> bool" where
  "lives_on t t' \<longleftrightarrow> (te_Status t = te_Status t' \<or> te_Status t' \<in> valid_transitions (te_Status t)) \<and> fixed_fields t' = fixed_fields t"

lemma lives_on_refl [simp]: "lives_on t t"
  by (simp add: lives_on_def)

definition moves :: "(string \<times> string) set" where
  "moves = {(s, s'). s' \<in> valid_transitions s}"

lemma apply_patch_Inr:
  assumes "apply_patch p t = Inr t'"
  shows "te_ID t' = te_ID t" "normal_task t \<Longrightarrow> normal_task t'" "te_Status t' = te_Status t \<or> te_Status t' \<in> valid_transitions (te_Status t)"
    "fixed_fields t' = fixed_fields t"
proof -
  have t': "t' = patched p t" "patch_status p t = None" "tp_Priority p = Some n \<Longrightarrow> 1 \<le> n" for n
    using assms by (auto simp: apply_patch_def split: option.splits if_splits)
  show "te_ID t' = te_ID t" "fixed_fields t' = fixed_fields t" by (simp_all add: t'(1) patched_def fixed_fields_def)
  show "normal_task t'" if "normal_task t"
    using that t'(3) by (fastforce simp: t'(1) normal_task_def patched_def set_if_def split: option.split)
  show "te_Status t' = te_Status t \<or> te_Status t' \<in> valid_transitions (te_Status t)"
    using t'(2) by (auto simp: t'(1) patched_def set_if_def patch_status_def split: option.splits if_splits)
qed

lemma new_task_Inr:
  assumes "new_task w t0 = Inr t"
  shows "te_ID t = (if te_ID t0 = [] then tw_uuid w else te_ID t0)" "validate_id (te_ID t)" "normal_task t" "te_Status t = ''queued''"
  using assms by (auto simp: new_task_def Let_def normal_task_def split: if_splits)

lemma write_result:
  "(case write_task w dir t disk of (True, d) \<Rightarrow> (Inr t, d) | (False, d) \<Rightarrow> (Inl Write_failed, d)) =
     (if fst (write_task w dir t disk) then Inr t else Inl Write_failed, snd (write_task w dir t disk))"
  by (auto split: prod.split bool.split)

lemma update_task_stores:
  assumes "filed dir disk" "update_task w dir i p disk = (r, disk')"
  shows "filed dir disk'"
    "stored_task dir disk' = stored_task dir disk \<or>
     (\<exists>t t'. r = Inr t' \<and> stored_task dir disk (te_ID t) = Some t \<and> apply_patch p t = Inr t' \<and>
       stored_task dir disk' = (stored_task dir disk)(te_ID t \<mapsto> t'))"
proof -
  obtain r1 d1 where l: "load_task w dir i disk = (r1, d1)" by fastforce
  note s = load_task_stores [OF assms(1) l]
  have "filed dir disk' \<and> (stored_task dir disk' = stored_task dir disk \<or>
     (\<exists>t t'. r = Inr t' \<and> stored_task dir disk (te_ID t) = Some t \<and> apply_patch p t = Inr t' \<and>
       stored_task dir disk' = (stored_task dir disk)(te_ID t \<mapsto> t')))"
  proof (cases "prepare_update w dir i p disk")
    case (Pair r2 d2)
    show ?thesis
    proof (cases r2)
      case (Inl e)
      then show ?thesis using assms(2) Pair l s by (auto simp: update_task_def prepare_update_def split: sum.splits)
    next
      case (Inr t')
      then obtain t where t: "r1 = Inr t" "apply_patch p t = Inr t'" "d2 = d1"
        using Pair l by (auto simp: prepare_update_def split: sum.splits)
      note st = s(3) [OF t(1)] and ap = apply_patch_Inr [OF t(2)]
      have n: "validate_id (te_ID t')" "normal_task t'" using stored_id [OF assms(1) st] ap by simp_all
      obtain ok d3 where w: "write_task w dir t' d1 = (ok, d3)" by fastforce
      note ws = write_task_stores [OF s(1) n w]
      have "disk' = d3" "r = (if ok then Inr t' else Inl Write_failed)"
        using assms(2) Pair Inr t(3) w by (cases ok; simp add: update_task_def)+
      moreover have "stored_task dir d3 = (if ok then (stored_task dir disk)(te_ID t \<mapsto> t') else stored_task dir disk)"
        by (rule ext) (simp add: ws(2) s(2) ap(1))
      ultimately show ?thesis using ws(1) st t(2) by (cases ok) auto
    qed
  qed
  then show "filed dir disk'"
    "stored_task dir disk' = stored_task dir disk \<or>
     (\<exists>t t'. r = Inr t' \<and> stored_task dir disk (te_ID t) = Some t \<and> apply_patch p t = Inr t' \<and>
       stored_task dir disk' = (stored_task dir disk)(te_ID t \<mapsto> t'))" by blast+
qed

lemma create_task_stores:
  assumes "filed dir disk" "create_task w dir t0 disk = (r, disk')"
  shows "filed dir disk'"
    "stored_task dir disk' = (case r of Inl e \<Rightarrow> stored_task dir disk | Inr t \<Rightarrow> (stored_task dir disk)(te_ID t \<mapsto> t))"
    "r = Inr t \<Longrightarrow> new_task w t0 = Inr t"
proof -
  have "filed dir disk' \<and> stored_task dir disk' = (case r of Inl e \<Rightarrow> stored_task dir disk | Inr t \<Rightarrow> (stored_task dir disk)(te_ID t \<mapsto> t)) \<and>
    (\<forall>t. r = Inr t \<longrightarrow> new_task w t0 = Inr t)"
  proof (cases "new_task w t0")
    case (Inr t)
    obtain ok d where w: "write_task w dir t disk = (ok, d)" by fastforce
    note ws = write_task_stores [OF assms(1) new_task_Inr(2,3) [OF Inr] w]
    have "disk' = d" "r = (if ok then Inr t else Inl Write_failed)"
      using assms(2) Inr w by (cases ok; simp add: create_task_def)+
    moreover have "stored_task dir d = (if ok then (stored_task dir disk)(te_ID t \<mapsto> t) else stored_task dir disk)"
      by (rule ext) (simp add: ws(2))
    ultimately show ?thesis using ws(1) Inr by (cases ok) auto
  next
    case (Inl e)
    then have "r = Inl e" "disk' = disk" using assms(2) by (simp_all add: create_task_def)
    then show ?thesis using assms(1) by simp
  qed
  then show "filed dir disk'"
    "stored_task dir disk' = (case r of Inl e \<Rightarrow> stored_task dir disk | Inr t \<Rightarrow> (stored_task dir disk)(te_ID t \<mapsto> t))"
    "r = Inr t \<Longrightarrow> new_task w t0 = Inr t" by blast+
qed

lemma delete_task_stores:
  assumes "filed dir disk" "delete_task w dir i disk = (r, disk')"
  shows "filed dir disk'" "stored_task dir disk' = (if r = None then (stored_task dir disk)(i := None) else stored_task dir disk)"
proof -
  have "stored_task dir disk' j = (if r = None then (stored_task dir disk)(i := None) else stored_task dir disk) j" for j
    using assms by (auto simp: delete_task_def stored_task_def task_simps split: if_splits)
  then show "stored_task dir disk' = (if r = None then (stored_task dir disk)(i := None) else stored_task dir disk)" by blast
  show "filed dir disk'" using assms by (auto simp: delete_task_def filed_def task_simps split: if_splits)
qed

lemma run_task_op_stores:
  assumes "filed dir disk" "creates_other i (w, op)"
  shows "filed dir (run_task_op w dir op disk)"
    "case stored_task dir (run_task_op w dir op disk) i of
       None \<Rightarrow> stored_task dir disk i = None \<or> op = Op_delete i
     | Some t' \<Rightarrow> (\<exists>t. stored_task dir disk i = Some t \<and> lives_on t t')" (is "?on (run_task_op w dir op disk)")
proof -
  have same: "?on d" if "stored_task dir d i = stored_task dir disk i" for d
    using that by (simp split: option.split)
  have "filed dir (run_task_op w dir op disk) \<and> ?on (run_task_op w dir op disk)"
  proof (cases op)
    case (Op_list f)
    obtain ts d where l: "list_loop w dir f (file_names dir disk) disk = (ts, d)" by fastforce
    then show ?thesis using Op_list assms(1) list_loop_stores [OF assms(1) l] same by (simp add: run_task_op_def list_tasks_def)
  next
    case (Op_get j)
    obtain r d where l: "load_task w dir j disk = (r, d)" by fastforce
    then show ?thesis using Op_get assms(1) load_task_stores(1,2) [OF assms(1) l] same by (simp add: run_task_op_def get_task_def)
  next
    case (Op_create t0)
    obtain r d where c: "create_task w dir t0 disk = (r, d)" by fastforce
    note s = create_task_stores [OF assms(1) c]
    have d: "run_task_op w dir op disk = d" using c Op_create by (simp add: run_task_op_def)
    have "stored_task dir d i = stored_task dir disk i"
    proof (cases r)
      case (Inr u)
      then have "te_ID u \<noteq> i" using new_task_Inr(1) [OF s(3)] assms(2) Op_create by (simp add: creates_other_def)
      then show ?thesis using s(2) Inr by simp
    qed (use s(2) in simp)
    then show ?thesis using s(1) same unfolding d by blast
  next
    case (Op_update j p)
    obtain r d where u: "update_task w dir j p disk = (r, d)" by fastforce
    note s = update_task_stores [OF assms(1) u]
    have d: "run_task_op w dir op disk = d" using u Op_update by (simp add: run_task_op_def)
    show ?thesis using s(2)
    proof (elim disjE exE conjE)
      fix a b assume a: "stored_task dir disk (te_ID a) = Some a" "apply_patch p a = Inr b"
        "stored_task dir d = (stored_task dir disk)(te_ID a \<mapsto> b)"
      show ?thesis
      proof (cases "te_ID a = i")
        case True
        then show ?thesis using a s(1) apply_patch_Inr(3,4) [OF a(2)] unfolding d by (auto simp: lives_on_def)
      qed (use a s(1) same in \<open>simp add: d\<close>)
    qed (use s(1) same in \<open>simp add: d\<close>)
  next
    case (Op_delete j)
    obtain r d where u: "delete_task w dir j disk = (r, d)" by fastforce
    note s = delete_task_stores [OF assms(1) u]
    have d: "run_task_op w dir op disk = d" using u Op_delete by (simp add: run_task_op_def)
    show ?thesis
    proof (cases "r = None \<and> j = i")
      case False
      then have "stored_task dir d i = stored_task dir disk i" using s(2) by auto
      then show ?thesis using s(1) same unfolding d by blast
    qed (use s Op_delete d in simp)
  qed
  then show "filed dir (run_task_op w dir op disk)" "?on (run_task_op w dir op disk)" by blast+
qed

definition keeps_id :: "string \<Rightarrow> task_world \<times> task_op \<Rightarrow> bool" where
  "keeps_id i c \<longleftrightarrow> creates_other i c \<and> snd c \<noteq> Op_delete i"

lemma run_task_op_keeps:
  assumes "filed dir disk" "stored_task dir disk i = Some t" "keeps_id i (w, op)"
  shows "filed dir (run_task_op w dir op disk)"
    "\<exists>t'. stored_task dir (run_task_op w dir op disk) i = Some t' \<and> (te_Status t, te_Status t') \<in> moves\<^sup>="
  using run_task_op_stores [OF assms(1), of i w op] assms(2,3)
  by (auto simp: keeps_id_def lives_on_def moves_def split: option.splits)

lemma finished_stays: "(s, s') \<in> moves\<^sup>* \<Longrightarrow> s \<in> {''completed'', ''failed''} \<Longrightarrow> s' = s"
  by (induction rule: rtrancl_induct) (auto simp: moves_def valid_transitions_def)

lemma run_task_ops_stores:
  "filed dir disk \<Longrightarrow> list_all (creates_other i) ops \<Longrightarrow>
   (case stored_task dir (run_task_ops dir ops disk) i of
      None \<Rightarrow> stored_task dir disk i = None \<or> list_ex (\<lambda>c. snd c = Op_delete i) ops
    | Some t' \<Rightarrow> (\<exists>t. stored_task dir disk i = Some t \<and> (te_Status t, te_Status t') \<in> moves\<^sup>* \<and> fixed_fields t' = fixed_fields t))"
proof (induction dir ops disk rule: run_task_ops.induct)
  case (2 dir w op ops disk)
  let ?d = "run_task_op w dir op disk"
  have keep: "creates_other i (w, op)" "list_all (creates_other i) ops" using "2.prems"(2) by simp_all
  note s = run_task_op_stores [OF "2.prems"(1) keep(1)]
  note ih = "2.IH" [OF s(1) keep(2)]
  show ?case
  proof (cases "stored_task dir (run_task_ops dir ops ?d) i")
    case None
    then show ?thesis using ih s(2) by (auto split: option.splits)
  next
    case (Some t')
    then obtain u where u: "stored_task dir ?d i = Some u" "(te_Status u, te_Status t') \<in> moves\<^sup>*" "fixed_fields t' = fixed_fields u"
      using ih by auto
    then obtain t where t: "stored_task dir disk i = Some t" "lives_on t u" using s(2) by auto
    then have "(te_Status t, te_Status u) \<in> moves\<^sup>=" by (auto simp: lives_on_def moves_def)
    then show ?thesis using u t Some by (auto simp: lives_on_def intro: converse_rtrancl_into_rtrancl)
  qed
qed (simp split: option.split)

text \<open>
  C21. Listings, reads, creations (under other identifiers), updates of any field and deletions follow in any
  order, with whatever writes failing. A stored task is still stored, unless one of them was its deletion; its status has
  moved only along queued, assigned, running, completed and failed as the transitions allow, and is the same if it
  was completed or failed; its identifier, prompt, creator, parent, trigger and time of creation are the same. The
  other fields, such as the result, may change even then.
\<close>

theorem task_lifecycle:
  assumes "filed dir disk" "stored_task dir disk i = Some t" "list_all (creates_other i) ops"
  shows "case stored_task dir (run_task_ops dir ops disk) i of
      None \<Rightarrow> list_ex (\<lambda>c. snd c = Op_delete i) ops
    | Some t' \<Rightarrow> (te_Status t, te_Status t') \<in> moves\<^sup>* \<and>
        (if te_Status t \<in> {''completed'', ''failed''} then te_Status t' = te_Status t else True) \<and>
        fixed_fields t' = fixed_fields t"
  using run_task_ops_stores [OF assms(1,3)] finished_stays assms(2) by (fastforce split: option.splits)

section \<open>Deleting a task while it is updated\<close>

text \<open>
  Delete does not take the lock that Update holds: a task deleted between the load and the write of
  an update, which the deletion reports as done, is back with all its data.
\<close>

theorem deleted_task_returns:
  assumes "filed dir disk" "prepare_update w dir i p disk = (Inr t, disk1)" "delete_task w dir (te_ID t) disk1 = (None, disk2)"
  shows "stored_task dir disk2 (te_ID t) = None \<and> stored_task dir (snd (write_task w dir t disk2)) (te_ID t) = Some t"
proof -
  obtain r d where l: "load_task w dir i disk = (r, d)" by fastforce
  note s = load_task_stores [OF assms(1) l]
  obtain u where u: "r = Inr u" "apply_patch p u = Inr t" "disk1 = d"
    using assms(2) l by (auto simp: prepare_update_def split: sum.splits)
  have n: "validate_id (te_ID t)" "normal_task t"
    using stored_id [OF assms(1) s(3) [OF u(1)]] apply_patch_Inr [OF u(2)] by simp_all
  have "filed dir disk1" using s(1) u(3) by simp
  note del = delete_task_stores [OF this assms(3)]
  have "tw_write_ok w (task_path dir (te_ID t))" using assms(3) by (auto simp: delete_task_def split: if_splits)
  then obtain d2 where wr: "write_task w dir t disk2 = (True, d2)" by (simp add: write_task_def Let_def)
  show ?thesis using write_task_stores(2) [OF del(1) n wr] by (simp add: del(2) wr)
qed

section \<open>A concrete store\<close>

definition demo_task :: task_entity where
  "demo_task = \<lparr>te_ID = [], te_Title = ''t'', te_Prompt = ''p'', te_AgentID = ''a'', te_CreatedBy = ''user'',
     te_ParentTaskID = [], te_Priority = 0, te_Status = [], te_Result = [], te_Artifacts = [], te_SessionID = [],
     te_TriggerType = [], te_SourceChannel = [], te_SourceChatID = [], te_CreatedAt = 0, te_StartedAt = None, te_CompletedAt = None\<rparr>"

definition demo_world :: "string \<Rightarrow> task_world" where
  "demo_world uid = \<lparr>tw_now = 7, tw_uuid = uid, tw_write_ok = (\<lambda>p. True), tw_listable = True,
     tw_sort = sort_key (\<lambda>t. (te_Priority t, te_CreatedAt t))\<rparr>"

definition no_patch :: task_patch where
  "no_patch = \<lparr>tp_Status = None, tp_Result = None, tp_Artifacts = None, tp_SessionID = None, tp_StartedAt = None,
     tp_CompletedAt = None, tp_Title = None, tp_AgentID = None, tp_Priority = None, tp_SourceChannel = None, tp_SourceChatID = None\<rparr>"

definition demo_dir :: path where "demo_dir = [''tasks'']"

definition demo_disk :: task_disk where
  "demo_disk = snd (create_task (demo_world ''t1'') demo_dir demo_task [])"

lemma filed_demo_dir [simp]: "filed demo_dir []"
  by (simp add: filed_def named_def demo_dir_def)

lemma demo_disk_eq:
  "demo_disk = [([''tasks'', ''t1.json''], Decoded (to_raw (demo_task\<lparr>te_ID := ''t1'', te_Status := ''queued'',
     te_Priority := 3, te_TriggerType := ''manual'', te_CreatedAt := 7\<rparr>)))]"
  by code_simp

lemma demo_disk_props: "filed demo_dir demo_disk"
  "stored_task demo_dir demo_disk ''t1'' = Some (demo_task\<lparr>te_ID := ''t1'', te_Status := ''queued'',
     te_Priority := 3, te_TriggerType := ''manual'', te_CreatedAt := 7\<rparr>)"
proof -
  obtain r d where c: "create_task (demo_world ''t1'') demo_dir demo_task [] = (r, d)" by fastforce
  show "filed demo_dir demo_disk" using create_task_stores(1) [OF filed_demo_dir c] c by (simp add: demo_disk_def)
  show "stored_task demo_dir demo_disk ''t1'' = Some (demo_task\<lparr>te_ID := ''t1'', te_Status := ''queued'',
     te_Priority := 3, te_TriggerType := ''manual'', te_CreatedAt := 7\<rparr>)" by code_simp
qed

lemma demo_sorts: "sorts_tasks (tw_sort (demo_world u))"
proof -
  have "sorted_wrt (\<lambda>a b. \<not> task_before b a) ts" if "sorted (map (\<lambda>t. (te_Priority t, te_CreatedAt t)) ts)" for ts
    using that unfolding sorted_map by (rule sorted_wrt_mono_rel [rotated]) (auto simp: task_before_def less_eq_prod_def split: if_splits)
  then show ?thesis by (simp add: sorts_tasks_def demo_world_def)
qed

theorem listing_exact_witness:
  "case list_tasks (demo_world ''t2'') demo_dir \<lparr>tf_Status = ''queued'', tf_AgentID = [], tf_CreatedBy = [], tf_ParentTaskID = []\<rparr> demo_disk of
      (Inl e, disk') \<Rightarrow> False
    | (Inr ts, disk') \<Rightarrow> distinct (map te_ID ts) \<and> stored_task demo_dir disk' = stored_task demo_dir demo_disk"
proof -
  have "tw_listable (demo_world ''t2'')" by (simp add: demo_world_def)
  then show ?thesis
    using listing_exact [OF demo_disk_props(1) demo_sorts, of "''t2''" "\<lparr>tf_Status = ''queued'', tf_AgentID = [], tf_CreatedBy = [], tf_ParentTaskID = []\<rparr>"]
    by (auto split: prod.splits sum.splits)
qed

text \<open>The demo task is failed, then somebody asks for running.\<close>

definition demo_ops :: "(task_world \<times> task_op) list" where
  "demo_ops = [(demo_world ''x'', Op_update ''t1'' (no_patch\<lparr>tp_Status := Some ''failed''\<rparr>)),
     (demo_world ''y'', Op_create demo_task), (demo_world ''x'', Op_update ''t1'' (no_patch\<lparr>tp_Status := Some ''running''\<rparr>))]"

theorem task_lifecycle_witness:
  "case stored_task demo_dir (run_task_ops demo_dir demo_ops demo_disk) ''t1'' of
     None \<Rightarrow> False | Some t' \<Rightarrow> (''queued'', te_Status t') \<in> moves\<^sup>*"
proof -
  have o: "list_all (creates_other ''t1'') demo_ops" "\<not> list_ex (\<lambda>c. snd c = Op_delete ''t1'') demo_ops" by code_simp+
  from task_lifecycle [OF demo_disk_props o(1)] o(2) show ?thesis by (auto split: option.splits)
qed

theorem deleted_task_returns_witness:
  "stored_task demo_dir (snd (write_task (demo_world ''x'') demo_dir
     (demo_task\<lparr>te_ID := ''t1'', te_Status := ''running'', te_Priority := 3, te_TriggerType := ''manual'', te_CreatedAt := 7\<rparr>) [])) ''t1'' =
   Some (demo_task\<lparr>te_ID := ''t1'', te_Status := ''running'', te_Priority := 3, te_TriggerType := ''manual'', te_CreatedAt := 7\<rparr>)"
proof -
  let ?t = "demo_task\<lparr>te_ID := ''t1'', te_Status := ''running'', te_Priority := 3, te_TriggerType := ''manual'', te_CreatedAt := 7\<rparr>"
  have p: "prepare_update (demo_world ''x'') demo_dir ''t1'' (no_patch\<lparr>tp_Status := Some ''running''\<rparr>) demo_disk = (Inr ?t, demo_disk)"
    by code_simp
  have d: "delete_task (demo_world ''x'') demo_dir (te_ID ?t) demo_disk = (None, [])" by code_simp
  from deleted_task_returns [OF demo_disk_props(1) p d] show ?thesis by (simp add: demo_task_def)
qed

end
