(* ===== verification/Task_Executor.thy ===== *)
theory Task_Executor
  imports Task_Store
begin

text \<open>
  The task executor (pkg/agent/task_executor.go): starting queued tasks, a task's run in its own
  goroutine, reporting to the originating channel, and the follow-up turn of the parent task when all its
  children are done.

  An agent's turn is an event whose outcome is given; what happens on the disk between the beginning
  and the end of a run are other events. The agent registry, the session store (which agents have one,
  the identifier of a new session) and the bus are arguments, as are the clock and the outcome of writes of
  the task store; what the executor does to sessions, channels and agents is a list of effects. Results:
  serialised starts never run a task twice, two racing ones do; a run whose writes succeed leaves its task
  completed or failed; and tasks a crash left running block their agent for good.
\<close>

section \<open>State and effects\<close>

datatype task_effect =
    Session_meta string string string
  | Session_status string string
  | Transcript string string string string
  | Outbound string string string
  | Follow_up string string string string

datatype exec_error = Exec_get task_error | Exec_not_queued string | Exec_no_agent string | Exec_list task_error |
  Exec_limit nat | Exec_update task_error

record exec_env =
  xe_world :: task_world
  xe_dir :: path
  xe_agents :: "string \<Rightarrow> bool"
  xe_has_store :: "string \<Rightarrow> bool"
  xe_new_session :: "string \<Rightarrow> string option"
  xe_bus :: bool
  xe_order :: "task_entity list \<Rightarrow> task_entity list"

record exec_state =
  xs_disk :: task_disk
  xs_running :: "string list"
  xs_effects :: "task_effect list"

abbreviation max_concurrent :: nat where "max_concurrent \<equiv> 3"

definition emit :: "task_effect \<Rightarrow> exec_state \<Rightarrow> exec_state" where
  "emit e st = st\<lparr>xs_effects := xs_effects st @ [e]\<rparr>"

definition empty_patch :: task_patch where
  "empty_patch = \<lparr>tp_Status = None, tp_Result = None, tp_Artifacts = None, tp_SessionID = None, tp_StartedAt = None,
     tp_CompletedAt = None, tp_Title = None, tp_AgentID = None, tp_Priority = None, tp_SourceChannel = None, tp_SourceChatID = None\<rparr>"

definition store_update :: "exec_env \<Rightarrow> string \<Rightarrow> task_patch \<Rightarrow> exec_state \<Rightarrow> (task_error + task_entity) \<times> exec_state" where
  "store_update env i p st =
     (case update_task (xe_world env) (xe_dir env) i p (xs_disk st) of (r, d) \<Rightarrow> (r, st\<lparr>xs_disk := d\<rparr>))"

definition store_get :: "exec_env \<Rightarrow> string \<Rightarrow> exec_state \<Rightarrow> (task_error + task_entity) \<times> exec_state" where
  "store_get env i st =
     (case get_task (xe_world env) (xe_dir env) i (xs_disk st) of (r, d) \<Rightarrow> (r, st\<lparr>xs_disk := d\<rparr>))"

definition store_list :: "exec_env \<Rightarrow> task_filter \<Rightarrow> exec_state \<Rightarrow> (task_error + task_entity list) \<times> exec_state" where
  "store_list env f st =
     (case list_tasks (xe_world env) (xe_dir env) f (xs_disk st) of (r, d) \<Rightarrow> (r, st\<lparr>xs_disk := d\<rparr>))"

section \<open>Starting a task\<close>

definition fail_task :: "exec_env \<Rightarrow> string \<Rightarrow> string \<Rightarrow> exec_state \<Rightarrow> exec_state" where
  "fail_task env i reason st =
     snd (store_update env i (empty_patch\<lparr>tp_Status := Some ''failed'', tp_Result := Some reason,
       tp_CompletedAt := Some (tw_now (xe_world env))\<rparr>) st)"

definition running_of :: "string \<Rightarrow> task_filter" where
  "running_of agent = \<lparr>tf_Status = ''running'', tf_AgentID = agent, tf_CreatedBy = [], tf_ParentTaskID = []\<rparr>"

text \<open>\<open>ExecuteTask\<close> up to the transition to running, and from there on.\<close>

definition execute_check :: "exec_env \<Rightarrow> string \<Rightarrow> exec_state \<Rightarrow> (exec_error + task_entity) \<times> exec_state" where
  "execute_check env i st =
     (case store_get env i st of
        (Inl e, st1) \<Rightarrow> (Inl (Exec_get e), st1)
      | (Inr t, st1) \<Rightarrow>
          if te_Status t \<noteq> ''queued'' then (Inl (Exec_not_queued (te_Status t)), st1)
          else if \<not> xe_agents env (te_AgentID t) then
            (Inl (Exec_no_agent (te_AgentID t)), fail_task env i (''agent '' @ go_quote (te_AgentID t) @ '' not found'') st1)
          else (case store_list env (running_of (te_AgentID t)) st1 of
             (Inl e, st2) \<Rightarrow> (Inl (Exec_list e), st2)
           | (Inr ts, st2) \<Rightarrow>
               if max_concurrent \<le> length ts then (Inl (Exec_limit (length ts)), st2) else (Inr t, st2)))"

definition execute_commit :: "exec_env \<Rightarrow> string \<Rightarrow> exec_state \<Rightarrow> (exec_error + task_entity) \<times> exec_state" where
  "execute_commit env i st =
     (case store_update env i (empty_patch\<lparr>tp_Status := Some ''running'', tp_StartedAt := Some (tw_now (xe_world env))\<rparr>) st of
        (Inl e, st1) \<Rightarrow> (Inl (Exec_update e), st1)
      | (Inr t, st1) \<Rightarrow> (Inr t, st1\<lparr>xs_running := List.insert i (xs_running st1)\<rparr>))"

definition execute_task :: "exec_env \<Rightarrow> string \<Rightarrow> exec_state \<Rightarrow> (exec_error + task_entity) \<times> exec_state" where
  "execute_task env i st =
     (case execute_check env i st of (Inl e, st1) \<Rightarrow> (Inl e, st1) | (Inr _, st1) \<Rightarrow> execute_commit env i st1)"

text \<open>The first queued task of every agent; \<open>range\<close> visits them in an unspecified order.\<close>

fun first_per_agent :: "string list \<Rightarrow> task_entity list \<Rightarrow> task_entity list" where
  "first_per_agent seen [] = []"
| "first_per_agent seen (t # ts) =
     (if te_AgentID t \<in> set seen then first_per_agent seen ts
      else t # first_per_agent (te_AgentID t # seen) ts)"

fun start_all :: "exec_env \<Rightarrow> task_entity list \<Rightarrow> exec_state \<Rightarrow> task_entity list \<times> exec_state" where
  "start_all env [] st = ([], st)"
| "start_all env (t # ts) st =
     (case execute_task env (te_ID t) st of
        (r, st1) \<Rightarrow> (case start_all env ts st1 of
           (us, st2) \<Rightarrow> ((case r of Inl _ \<Rightarrow> us | Inr u \<Rightarrow> u # us), st2)))"

definition check_queued_tasks :: "exec_env \<Rightarrow> exec_state \<Rightarrow> task_entity list \<times> exec_state" where
  "check_queued_tasks env st =
     (case store_list env \<lparr>tf_Status = ''queued'', tf_AgentID = [], tf_CreatedBy = [], tf_ParentTaskID = []\<rparr> st of
        (Inl e, st1) \<Rightarrow> ([], st1)
      | (Inr queued, st1) \<Rightarrow> start_all env (xe_order env (first_per_agent [] queued)) st1)"

section \<open>Reports\<close>

abbreviation em_dash :: string where "em_dash \<equiv> [CHR 0xE2, CHR 0x80, CHR 0x94]"
abbreviation newline :: string where "newline \<equiv> [CHR 0x0A]"

definition decimal :: "int \<Rightarrow> string" where
  "decimal n = (if n < 0 then ''-'' @ itoa (- n) else itoa n)"

definition build_prompt :: "task_entity \<Rightarrow> string" where
  "build_prompt t = ''# Task: '' @ te_Title t @ newline @ newline @
     (if te_Prompt t = [] then [] else te_Prompt t @ newline @ newline) @
     ''Priority: '' @ decimal (te_Priority t) @ '' (1=highest, 5=lowest)'' @ newline @
     ''Task ID: '' @ te_ID t @ newline @ newline @
     ''When you have finished this task, call `task_update` with:'' @ newline @
     ''  task_id: '' @ go_quote (te_ID t) @ newline @
     ''  status: '' @ go_quote ''completed'' @ '' (or '' @ go_quote ''failed'' @ '' if unsuccessful)'' @ newline @
     ''  result: a brief summary of what was accomplished'' @ newline"

definition notify_source_channel :: "exec_env \<Rightarrow> task_entity \<Rightarrow> exec_state \<Rightarrow> exec_state" where
  "notify_source_channel env t st =
     (if te_SourceChannel t = [] \<or> te_SourceChatID t = [] then st
      else if \<not> xe_bus env then st
      else if te_Status t \<noteq> ''completed'' \<and> te_Status t \<noteq> ''failed'' then st
      else let r = te_Result t;
               cut = (if length r > 500 then take 497 r @ ''...'' else r)
           in emit (Outbound (te_SourceChannel t) (te_SourceChatID t)
                (''**'' @ te_Title t @ ''** '' @ em_dash @ '' '' @ te_Status t @
                 (if r = [] then [] else newline @ newline @ cut))) st)"

definition build_child_summary :: "task_entity list \<Rightarrow> string" where
  "build_child_summary ts = ''## Child Task Results'' @ newline @ newline @
     concat (map (\<lambda>c. ''- **'' @ te_Title c @ ''** (status: '' @ te_Status c @ '')'' @
       (if te_Result c = [] then [] else '': '' @ te_Result c) @ newline) ts)"

definition children_of :: "string \<Rightarrow> task_filter" where
  "children_of i = \<lparr>tf_Status = [], tf_AgentID = [], tf_CreatedBy = [], tf_ParentTaskID = i\<rparr>"

definition session_key :: "task_entity \<Rightarrow> string" where
  "session_key t = ''agent:'' @ te_AgentID t @ '':task:'' @ te_ID t"

definition on_task_complete :: "exec_env \<Rightarrow> task_entity \<Rightarrow> exec_state \<Rightarrow> exec_state" where
  "on_task_complete env t st =
     (if te_ParentTaskID t = [] then st
      else (case store_list env (children_of (te_ParentTaskID t)) st of
         (Inl e, st1) \<Rightarrow> st1
       | (Inr siblings, st1) \<Rightarrow>
           if list_ex (\<lambda>s. te_Status s = ''queued'' \<or> te_Status s = ''running'') siblings then st1
           else (case store_get env (te_ParentTaskID t) st1 of
              (Inl e, st2) \<Rightarrow> st2
            | (Inr parent, st2) \<Rightarrow>
                if te_Status parent \<noteq> ''running'' then st2
                else emit (Follow_up (te_AgentID parent)
                       (''All child tasks of task '' @ go_quote (te_ID parent) @ '' have completed.'' @ newline @ newline @
                        build_child_summary siblings)
                       (session_key parent) (''task:'' @ te_ID parent)) st2)))"

section \<open>The run of a task\<close>

text \<open>\<open>runTask\<close> up to the agent's turn: the identifier of the task session, empty when there is none.\<close>

definition run_begin :: "exec_env \<Rightarrow> task_entity \<Rightarrow> exec_state \<Rightarrow> string \<times> exec_state" where
  "run_begin env t st =
     (if \<not> xe_has_store env (te_AgentID t) then ([], st)
      else (case xe_new_session env (te_AgentID t) of
         None \<Rightarrow> ([], st)
       | Some sid \<Rightarrow>
           (let st1 = emit (Session_meta sid (te_Title t) (te_ID t)) st;
                st2 = snd (store_update env (te_ID t) (empty_patch\<lparr>tp_SessionID := Some sid\<rparr>) st1)
            in (sid, emit (Transcript sid ''user'' (te_ID t @ ''-prompt'') (build_prompt t)) st2))))"

definition on_session :: "exec_env \<Rightarrow> task_entity \<Rightarrow> string \<Rightarrow> task_effect list \<Rightarrow> exec_state \<Rightarrow> exec_state" where
  "on_session env t sid es st = (if sid \<noteq> [] \<and> xe_has_store env (te_AgentID t) then fold emit es st else st)"

definition run_failed :: "exec_env \<Rightarrow> task_entity \<Rightarrow> string \<Rightarrow> string \<Rightarrow> exec_state \<Rightarrow> exec_state" where
  "run_failed env t sid err st =
     (let reason = ''execution error: '' @ err;
          st1 = on_session env t sid [Transcript sid ''assistant'' (te_ID t @ ''-error'') (''Task execution failed: '' @ err),
                  Session_status sid ''interrupted''] st;
          st2 = fail_task env (te_ID t) reason st1
      in notify_source_channel env (t\<lparr>te_Status := ''failed'', te_Result := reason\<rparr>) st2)"

definition completion :: "exec_env \<Rightarrow> string \<Rightarrow> task_patch" where
  "completion env resp = empty_patch\<lparr>tp_Status := Some ''completed'',
     tp_Result := Some (if resp = [] then ''Task completed'' else resp), tp_CompletedAt := Some (tw_now (xe_world env))\<rparr>"

definition auto_complete :: "exec_env \<Rightarrow> task_entity \<Rightarrow> string \<Rightarrow> string \<Rightarrow> exec_state \<Rightarrow> exec_state" where
  "auto_complete env t sid resp st =
     (case store_update env (te_ID t) (completion env resp) st of
        (Inl e, st1) \<Rightarrow> st1
      | (Inr final, st1) \<Rightarrow>
          notify_source_channel env final
            (on_task_complete env final (on_session env t sid [Session_status sid ''archived''] st1)))"

definition run_answered :: "exec_env \<Rightarrow> task_entity \<Rightarrow> string \<Rightarrow> string \<Rightarrow> exec_state \<Rightarrow> exec_state" where
  "run_answered env t sid resp st =
     (let st1 = (if resp = [] then st else on_session env t sid [Transcript sid ''assistant'' (te_ID t @ ''-response'') resp] st)
      in case store_get env (te_ID t) st1 of
        (Inl e, st2) \<Rightarrow> st2
      | (Inr current, st2) \<Rightarrow>
          if te_Status current = ''completed'' \<or> te_Status current = ''failed'' then
            notify_source_channel env current (on_session env t sid [Session_status sid ''archived''] st2)
          else auto_complete env t sid resp st2)"

definition run_end :: "exec_env \<Rightarrow> task_entity \<Rightarrow> string \<Rightarrow> string + string \<Rightarrow> exec_state \<Rightarrow> exec_state" where
  "run_end env t sid outcome st =
     (let st1 = (case outcome of Inl err \<Rightarrow> run_failed env t sid err st | Inr resp \<Rightarrow> run_answered env t sid resp st)
      in st1\<lparr>xs_running := removeAll (te_ID t) (xs_running st1)\<rparr>)"

definition stop_executor :: "exec_state \<Rightarrow> exec_state" where
  "stop_executor st = st\<lparr>xs_running := []\<rparr>"

section \<open>What the executor changes on the disk\<close>

text \<open>
  \<^term>\<open>advances dir i d d'\<close>: going from \<open>d\<close> to \<open>d'\<close> every stored task stays, under its own agent and parent,
  and only the status of task \<open>i\<close> may move, along the transitions.
\<close>

definition later :: "bool \<Rightarrow> task_entity \<Rightarrow> task_entity \<Rightarrow> bool" where
  "later b t t' \<longleftrightarrow> te_AgentID t' = te_AgentID t \<and> te_ParentTaskID t' = te_ParentTaskID t \<and>
     (te_Status t' = te_Status t \<or> b \<and> (te_Status t, te_Status t') \<in> moves\<^sup>*)"

definition advances :: "path \<Rightarrow> string \<Rightarrow> task_disk \<Rightarrow> task_disk \<Rightarrow> bool" where
  "advances dir i d d' \<longleftrightarrow> filed dir d \<longrightarrow> filed dir d' \<and>
     (\<forall>j. rel_option (later (j = i)) (stored_task dir d j) (stored_task dir d' j))"

lemma later_refl [simp]: "later b t t"
  by (simp add: later_def)

lemma later_trans: "later b t u \<Longrightarrow> later b u v \<Longrightarrow> later b t v"
  by (auto simp: later_def intro: rtrancl_trans)

lemma rel_option_later [simp]: "rel_option (later b) x x"
  by (simp add: option.rel_refl)

lemma rel_option_later_trans: "rel_option (later b) x y \<Longrightarrow> rel_option (later b) y z \<Longrightarrow> rel_option (later b) x z"
  by (cases x; cases y; cases z) (auto intro: later_trans)

lemma advances_refl [simp]: "advances dir i d d"
  by (simp add: advances_def)

lemma advances_trans: "advances dir i d d1 \<Longrightarrow> advances dir i d1 d2 \<Longrightarrow> advances dir i d d2"
  unfolding advances_def by (blast intro: rel_option_later_trans)

lemma advances_same: "filed dir d' \<Longrightarrow> stored_task dir d' = stored_task dir d \<Longrightarrow> advances dir i d d'"
  by (simp add: advances_def)

lemma advances_load: "load_task w dir j d = (r, d') \<Longrightarrow> advances dir i d d'"
  using load_task_stores(1,2) by (simp add: advances_def)

lemma advances_get: "store_get env j st = (r, st') \<Longrightarrow> advances (xe_dir env) i (xs_disk st) (xs_disk st')"
  by (auto simp: store_get_def get_task_def split: prod.splits if_splits dest: advances_load)

lemma advances_list: "store_list env f st = (r, st') \<Longrightarrow> advances (xe_dir env) i (xs_disk st) (xs_disk st')"
  using list_loop_stores [of "xe_dir env" "xs_disk st" "xe_world env" f]
  by (auto simp: store_list_def list_tasks_def advances_def split: prod.splits if_splits)

definition keeps_agent :: "task_patch \<Rightarrow> bool" where
  "keeps_agent p \<longleftrightarrow> tp_AgentID p = None"

lemma patched_fields:
  assumes "apply_patch p t = Inr t'"
  shows "te_ParentTaskID t' = te_ParentTaskID t" "keeps_agent p \<Longrightarrow> te_AgentID t' = te_AgentID t"
    "te_Status t' = set_if (tp_Status p) (te_Status t)" "te_SourceChannel t' = set_if (tp_SourceChannel p) (te_SourceChannel t)"
    "te_SourceChatID t' = set_if (tp_SourceChatID p) (te_SourceChatID t)" "te_Title t' = set_if (tp_Title p) (te_Title t)"
proof -
  have "t' = patched p t" using assms by (auto simp: apply_patch_def split: option.splits if_splits)
  then show "te_ParentTaskID t' = te_ParentTaskID t" "keeps_agent p \<Longrightarrow> te_AgentID t' = te_AgentID t"
    "te_Status t' = set_if (tp_Status p) (te_Status t)" "te_SourceChannel t' = set_if (tp_SourceChannel p) (te_SourceChannel t)"
    "te_SourceChatID t' = set_if (tp_SourceChatID p) (te_SourceChatID t)" "te_Title t' = set_if (tp_Title p) (te_Title t)"
    by (simp_all add: patched_def keeps_agent_def set_if_def)
qed

lemma update_valid:
  assumes "filed dir d" "validate_id i" "update_task w dir i p d = (r, d')"
  shows "stored_task dir d' = stored_task dir d \<or>
    (\<exists>t t'. r = Inr t' \<and> stored_task dir d i = Some t \<and> apply_patch p t = Inr t' \<and>
       stored_task dir d' = (stored_task dir d)(i \<mapsto> t'))"
proof -
  from update_task_stores(2) [OF assms(1,3)] show ?thesis
  proof (elim disjE exE conjE)
    fix t t' assume t: "r = Inr t'" "stored_task dir d (te_ID t) = Some t" "apply_patch p t = Inr t'"
      "stored_task dir d' = (stored_task dir d)(te_ID t \<mapsto> t')"
    obtain q d1 where l: "load_task w dir i d = (q, d1)" by fastforce
    obtain u where u: "q = Inr u" "apply_patch p u = Inr t'"
      using assms(3) l t(1) by (auto simp: update_task_def prepare_update_def split: sum.splits prod.splits bool.splits)
    have "stored_task dir d i = Some u" using load_task_valid [OF assms(1,2)] l u(1) by (metis fst_conv)
    moreover have "te_ID u = i" using stored_id [OF assms(1) calculation] by simp
    moreover have "te_ID t = te_ID u" using apply_patch_Inr(1) t(3) u(2) by metis
    ultimately show ?thesis using t by auto
  qed blast
qed

lemma advances_update:
  assumes "store_update env j p st = (r, st')" "validate_id j" "keeps_agent p" "tp_Status p = None \<or> j = i"
  shows "advances (xe_dir env) i (xs_disk st) (xs_disk st')"
proof (cases "filed (xe_dir env) (xs_disk st)")
  case True
  obtain d where u: "update_task (xe_world env) (xe_dir env) j p (xs_disk st) = (r, d)" "xs_disk st' = d"
    using assms(1) by (auto simp: store_update_def split: prod.splits)
  note f = update_task_stores(1) [OF True u(1)]
  from update_valid [OF True assms(2) u(1)] show ?thesis
  proof (elim disjE exE conjE)
    fix t t' assume t: "stored_task (xe_dir env) (xs_disk st) j = Some t" "apply_patch p t = Inr t'"
      "stored_task (xe_dir env) d = (stored_task (xe_dir env) (xs_disk st))(j \<mapsto> t')"
    have "te_Status t' = te_Status t \<or> j = i \<and> (te_Status t, te_Status t') \<in> moves\<^sup>*"
      using assms(4) patched_fields(3) [OF t(2)] apply_patch_Inr(3) [OF t(2)] by (cases "tp_Status p") (auto simp: set_if_def moves_def)
    then have "later (j = i) t t'" using patched_fields(1,2) [OF t(2)] assms(3) by (simp add: later_def)
    then show ?thesis using f t u(2) by (simp add: advances_def)
  qed (use f u(2) advances_same in blast)
qed (simp add: advances_def)

lemma emit_simps [simp]: "xs_disk (emit e st) = xs_disk st" "xs_running (emit e st) = xs_running st"
  "xs_effects (emit e st) = xs_effects st @ [e]"
  by (simp_all add: emit_def)

lemma fold_emit [simp]: "xs_disk (fold emit es st) = xs_disk st" "xs_effects (fold emit es st) = xs_effects st @ es"
  by (induction es arbitrary: st) simp_all

lemma on_session_disk [simp]: "xs_disk (on_session env t sid es st) = xs_disk st"
  by (simp add: on_session_def)

lemma notify_disk [simp]: "xs_disk (notify_source_channel env t st) = xs_disk st"
  by (simp add: notify_source_channel_def Let_def)

lemma empty_patch_simps [simp]:
  "tp_Status empty_patch = None" "tp_AgentID empty_patch = None" "keeps_agent (p\<lparr>tp_Status := x, tp_Result := y\<rparr>) = keeps_agent p"
  "keeps_agent (p\<lparr>tp_CompletedAt := z\<rparr>) = keeps_agent p" "keeps_agent (p\<lparr>tp_StartedAt := z\<rparr>) = keeps_agent p"
  "keeps_agent (p\<lparr>tp_Status := x\<rparr>) = keeps_agent p" "keeps_agent (p\<lparr>tp_SessionID := q\<rparr>) = keeps_agent p"
  "keeps_agent (p\<lparr>tp_Result := y\<rparr>) = keeps_agent p" "keeps_agent empty_patch"
  by (simp_all add: empty_patch_def keeps_agent_def)

lemma advances_fail: "validate_id i \<Longrightarrow> advances (xe_dir env) i (xs_disk st) (xs_disk (fail_task env i reason st))"
  unfolding fail_task_def by (rule advances_update [OF surjective_pairing]) simp_all

lemma store_get_Inr:
  assumes "store_get env i st = (Inr t, st')"
  shows "validate_id i" "filed (xe_dir env) (xs_disk st) \<Longrightarrow> stored_task (xe_dir env) (xs_disk st) i = Some t \<and>
    stored_task (xe_dir env) (xs_disk st') = stored_task (xe_dir env) (xs_disk st) \<and> filed (xe_dir env) (xs_disk st')"
proof -
  show v: "validate_id i" using assms by (auto simp: store_get_def get_task_def split: if_splits prod.splits)
  obtain d where l: "load_task (xe_world env) (xe_dir env) i (xs_disk st) = (Inr t, d)" "xs_disk st' = d"
    using assms v by (auto simp: store_get_def get_task_def split: prod.splits)
  show "stored_task (xe_dir env) (xs_disk st) i = Some t \<and>
    stored_task (xe_dir env) (xs_disk st') = stored_task (xe_dir env) (xs_disk st) \<and> filed (xe_dir env) (xs_disk st')"
    if "filed (xe_dir env) (xs_disk st)"
    using load_task_stores(1,2) [OF that l(1)] load_task_valid [OF that v] l by (metis fst_conv)
qed

lemma advances_check:
  assumes "execute_check env i st = (r, st')"
  shows "advances (xe_dir env) i (xs_disk st) (xs_disk st')"
    "r = Inr t \<Longrightarrow> validate_id i \<and> (filed (xe_dir env) (xs_disk st) \<longrightarrow>
       stored_task (xe_dir env) (xs_disk st) i = Some t \<and> te_Status t = ''queued'' \<and> xs_running st' = xs_running st)"
proof -
  obtain g st1 where g: "store_get env i st = (g, st1)" by fastforce
  have run1: "xs_running st1 = xs_running st" using g by (auto simp: store_get_def split: prod.splits)
  note a1 = advances_get [OF g, of i]
  have "advances (xe_dir env) i (xs_disk st) (xs_disk st') \<and> (\<forall>t. r = Inr t \<longrightarrow> validate_id i \<and> (filed (xe_dir env) (xs_disk st) \<longrightarrow>
       stored_task (xe_dir env) (xs_disk st) i = Some t \<and> te_Status t = ''queued'' \<and> xs_running st' = xs_running st))"
  proof (cases g)
    case (Inl e)
    then show ?thesis using assms g a1 by (auto simp: execute_check_def)
  next
    case (Inr t)
    note s = store_get_Inr [OF g [unfolded Inr]]
    obtain l st2 where l: "store_list env (running_of (te_AgentID t)) st1 = (l, st2)" by fastforce
    have run2: "xs_running st2 = xs_running st1" using l by (auto simp: store_list_def split: prod.splits)
    note a2 = advances_trans [OF a1 advances_list [OF l]] and a3 = advances_trans [OF a1 advances_fail [OF s(1)]]
    show ?thesis
    proof (cases "te_Status t = ''queued'' \<and> xe_agents env (te_AgentID t)")
      case True
      then show ?thesis using assms g l Inr a2 s run1 run2 by (auto simp: execute_check_def split: sum.splits if_splits)
    next
      case False
      then show ?thesis using assms g Inr a1 a3 by (auto simp: execute_check_def split: if_splits)
    qed
  qed
  then show "advances (xe_dir env) i (xs_disk st) (xs_disk st')"
    "r = Inr t \<Longrightarrow> validate_id i \<and> (filed (xe_dir env) (xs_disk st) \<longrightarrow>
       stored_task (xe_dir env) (xs_disk st) i = Some t \<and> te_Status t = ''queued'' \<and> xs_running st' = xs_running st)" by blast+
qed

lemma list_stores:
  "store_list env f st = (l, st') \<Longrightarrow> filed (xe_dir env) (xs_disk st) \<Longrightarrow>
   stored_task (xe_dir env) (xs_disk st') = stored_task (xe_dir env) (xs_disk st)"
  using list_loop_stores [of "xe_dir env" "xs_disk st" "xe_world env" f]
  by (auto simp: store_list_def list_tasks_def split: prod.splits if_splits)

lemma check_stored:
  assumes "execute_check env i st = (Inr t, st')" "filed (xe_dir env) (xs_disk st)"
  shows "stored_task (xe_dir env) (xs_disk st') = stored_task (xe_dir env) (xs_disk st)"
proof -
  obtain g d where g: "store_get env i st = (g, d)" by fastforce
  then obtain u where u: "g = Inr u" using assms(1) by (auto simp: execute_check_def split: sum.splits)
  note s = store_get_Inr(2) [OF g [unfolded u] assms(2)]
  obtain l e where l: "store_list env (running_of (te_AgentID u)) d = (l, e)" by fastforce
  have "st' = e" using assms(1) g u l by (auto simp: execute_check_def split: sum.splits if_splits)
  then show ?thesis using list_stores [OF l] s by simp
qed

lemma store_update_Inr:
  assumes "store_update env i p st = (Inr t, st')" "validate_id i" "filed (xe_dir env) (xs_disk st)"
  shows "te_ID t = i" "stored_task (xe_dir env) (xs_disk st') i = Some t"
    "\<exists>t0. stored_task (xe_dir env) (xs_disk st) i = Some t0 \<and> apply_patch p t0 = Inr t"
proof -
  obtain d where u: "update_task (xe_world env) (xe_dir env) i p (xs_disk st) = (Inr t, d)" "xs_disk st' = d"
    using assms(1) by (auto simp: store_update_def split: prod.splits)
  obtain q d1 where l: "load_task (xe_world env) (xe_dir env) i (xs_disk st) = (q, d1)" by fastforce
  obtain t0 d2 where t0: "q = Inr t0" "apply_patch p t0 = Inr t" "write_task (xe_world env) (xe_dir env) t d1 = (True, d)"
    using u(1) l by (auto simp: update_task_def prepare_update_def split: sum.splits prod.splits bool.splits)
  have s: "stored_task (xe_dir env) (xs_disk st) i = Some t0" using load_task_valid [OF assms(3,2)] l t0(1) by (metis fst_conv)
  note n = stored_id [OF assms(3) s] and ap = apply_patch_Inr(1,2) [OF t0(2)]
  show "te_ID t = i" "\<exists>t0. stored_task (xe_dir env) (xs_disk st) i = Some t0 \<and> apply_patch p t0 = Inr t"
    using n ap s t0(2) by auto
  show "stored_task (xe_dir env) (xs_disk st') i = Some t"
    using write_task_stores(2) [OF load_task_stores(1) [OF assms(3) l] _ _ t0(3), of i] n ap u(2) by simp
qed

lemma advances_commit:
  assumes "execute_commit env i st = (r, st')" "validate_id i"
  shows "advances (xe_dir env) i (xs_disk st) (xs_disk st')"
    "r = Inr t \<Longrightarrow> filed (xe_dir env) (xs_disk st) \<Longrightarrow> te_ID t = i \<and> stored_task (xe_dir env) (xs_disk st') i = Some t \<and> te_Status t = ''running''"
proof -
  let ?p = "empty_patch\<lparr>tp_Status := Some ''running'', tp_StartedAt := Some (tw_now (xe_world env))\<rparr>"
  obtain u st1 where u: "store_update env i ?p st = (u, st1)" by fastforce
  have "xs_disk st' = xs_disk st1" using assms(1) u by (auto simp: execute_commit_def split: sum.splits)
  then show "advances (xe_dir env) i (xs_disk st) (xs_disk st')" using advances_update [OF u assms(2), of i] by simp
  show "te_ID t = i \<and> stored_task (xe_dir env) (xs_disk st') i = Some t \<and> te_Status t = ''running''"
    if "r = Inr t" "filed (xe_dir env) (xs_disk st)"
  proof -
    have "u = Inr t" "xs_disk st' = xs_disk st1" using assms(1) u that(1) by (auto simp: execute_commit_def split: sum.splits)
    then show ?thesis using store_update_Inr [OF u [unfolded \<open>u = Inr t\<close>] assms(2) that(2)] patched_fields(3)
      by (auto simp: set_if_def)
  qed
qed

lemma advances_execute:
  assumes "execute_task env i st = (r, st')"
  shows "advances (xe_dir env) i (xs_disk st) (xs_disk st')"
    "r = Inr t \<Longrightarrow> filed (xe_dir env) (xs_disk st) \<Longrightarrow> te_ID t = i \<and> validate_id i \<and>
       stored_task (xe_dir env) (xs_disk st') i = Some t \<and> te_Status t = ''running'' \<and>
       (\<exists>u. stored_task (xe_dir env) (xs_disk st) i = Some u \<and> te_Status u = ''queued'')"
proof -
  obtain c st1 where c: "execute_check env i st = (c, st1)" by fastforce
  note ch = advances_check [OF c]
  show "advances (xe_dir env) i (xs_disk st) (xs_disk st')"
    using assms c ch advances_commit(1) [of env i st1 r st'] by (auto simp: execute_task_def split: sum.splits intro: advances_trans)
  show "te_ID t = i \<and> validate_id i \<and> stored_task (xe_dir env) (xs_disk st') i = Some t \<and> te_Status t = ''running'' \<and>
       (\<exists>u. stored_task (xe_dir env) (xs_disk st) i = Some u \<and> te_Status u = ''queued'')"
    if r: "r = Inr t" and f: "filed (xe_dir env) (xs_disk st)"
  proof -
    obtain u where u: "c = Inr u" "execute_commit env i st1 = (Inr t, st')"
      using assms c r by (auto simp: execute_task_def split: sum.splits)
    then show ?thesis using ch(2) [OF u(1)] f advances_commit(2) [OF u(2)] ch(1) by (auto simp: advances_def)
  qed
qed

lemma advances_begin:
  assumes "run_begin env t st = (sid, st')" "validate_id (te_ID t)"
  shows "advances (xe_dir env) i (xs_disk st) (xs_disk st')"
proof -
  have "advances (xe_dir env) i (xs_disk st) (xs_disk (snd (store_update env (te_ID t) (empty_patch\<lparr>tp_SessionID := q\<rparr>) (emit e st))))" for q e
    by (rule advances_update [OF surjective_pairing assms(2), where st = "emit e st" and i = i, unfolded emit_simps]) simp_all
  then show ?thesis using assms(1) by (auto simp: run_begin_def Let_def split: if_splits option.splits)
qed

lemma advances_on_complete: "advances (xe_dir env) i (xs_disk st) (xs_disk (on_task_complete env t st))"
proof -
  obtain l st1 where l: "store_list env (children_of (te_ParentTaskID t)) st = (l, st1)" by fastforce
  obtain g st2 where g: "store_get env (te_ParentTaskID t) st1 = (g, st2)" by fastforce
  note a1 = advances_list [OF l, of i] and a2 = advances_trans [OF advances_list [OF l] advances_get [OF g], of i]
  show ?thesis using a1 a2 l g by (auto simp: on_task_complete_def split: sum.split)
qed

lemma advances_complete:
  assumes "validate_id (te_ID t)"
  shows "advances (xe_dir env) (te_ID t) (xs_disk st) (xs_disk (auto_complete env t sid resp st))"
proof -
  obtain u st1 where u: "store_update env (te_ID t) (completion env resp) st = (u, st1)" by fastforce
  have a1: "advances (xe_dir env) (te_ID t) (xs_disk st) (xs_disk st1)"
    by (rule advances_update [OF u assms]) (simp_all add: completion_def)
  have "advances (xe_dir env) (te_ID t) (xs_disk st) (xs_disk (on_task_complete env f (on_session env t sid es st1)))" for f es
    using advances_trans [OF a1] advances_on_complete [of env "te_ID t" "on_session env t sid es st1" f] by simp
  then show ?thesis using a1 u by (simp add: auto_complete_def split: sum.split)
qed

lemma advances_answered:
  assumes "validate_id (te_ID t)"
  shows "advances (xe_dir env) (te_ID t) (xs_disk st) (xs_disk (run_answered env t sid resp st))"
proof -
  let ?st1 = "if resp = [] then st else on_session env t sid [Transcript sid ''assistant'' (te_ID t @ ''-response'') resp] st"
  have d: "xs_disk ?st1 = xs_disk st" by simp
  obtain g st2 where g: "store_get env (te_ID t) ?st1 = (g, st2)" by fastforce
  note a2 = advances_get [OF g, of "te_ID t", unfolded d]
  note a3 = advances_trans [OF a2 advances_complete [OF assms]]
  show ?thesis using a2 a3 unfolding run_answered_def Let_def g by (simp split: sum.split)
qed

lemma advances_end:
  assumes "validate_id (te_ID t)"
  shows "advances (xe_dir env) (te_ID t) (xs_disk st) (xs_disk (run_end env t sid outcome st))"
proof (cases outcome)
  case (Inl err)
  let ?st1 = "on_session env t sid [Transcript sid ''assistant'' (te_ID t @ ''-error'') (''Task execution failed: '' @ err),
    Session_status sid ''interrupted''] st"
  show ?thesis using Inl advances_fail [OF assms, where st = ?st1] by (simp add: run_end_def run_failed_def Let_def)
next
  case (Inr resp)
  then show ?thesis using advances_answered [OF assms] by (simp add: run_end_def Let_def)
qed

section \<open>Racing starts\<close>

text \<open>
  C23. Two starts of a queued task (a start request and the heartbeat, say) that both passed the
  checks both get the task to run: the second transition, from running to running, is accepted. The
  agent then works on the task twice at the same time.
\<close>

theorem racing_starts_run_twice:
  assumes "filed (xe_dir env) (xs_disk st)" "execute_check env i st = (Inr t, st1)" "execute_check env i st1 = (Inr u, st2)"
    "xe_dir env2 = xe_dir env" "tw_write_ok (xe_world env2) (task_path (xe_dir env) i)"
  shows "case execute_commit env2 i st2 of (r, st3) \<Rightarrow> case execute_commit env2 i st3 of (r', st4) \<Rightarrow>
    \<exists>t' u'. r = Inr t' \<and> r' = Inr u' \<and> te_ID t' = i \<and> te_ID u' = i"
proof -
  let ?p = "empty_patch\<lparr>tp_Status := Some ''running'', tp_StartedAt := Some (tw_now (xe_world env2))\<rparr>"
  note c1 = advances_check [OF assms(2)] and c2 = advances_check [OF assms(3)]
  have f1: "filed (xe_dir env2) (xs_disk st1)" and f2: "filed (xe_dir env2) (xs_disk st2)"
    using c1(1) c2(1) assms(1,4) by (auto simp: advances_def)
  have v: "validate_id i" using c1(2) by blast
  have u: "stored_task (xe_dir env2) (xs_disk st1) i = Some u" "te_Status u = ''queued''" using c2(2) f1 assms(4) by auto
  have go: "\<exists>t' st'. execute_commit env2 i s = (Inr t', st') \<and> te_ID t' = i \<and> filed (xe_dir env2) (xs_disk st') \<and>
      stored_task (xe_dir env2) (xs_disk st') i = Some t' \<and> te_Status t' = ''running''"
    if s: "filed (xe_dir env2) (xs_disk s)" "stored_task (xe_dir env2) (xs_disk s) i = Some x" "te_Status x = ''queued'' \<or> te_Status x = ''running''" for s x
  proof -
    obtain q d where l: "load_task (xe_world env2) (xe_dir env2) i (xs_disk s) = (q, d)" by fastforce
    have q: "q = Inr x" using load_task_valid [OF s(1) v, of "xe_world env2" x] l s(2) by simp
    have ap: "apply_patch ?p x = Inr (patched ?p x)"
      using s(3) by (auto simp: apply_patch_def patch_status_def valid_statuses_def valid_transitions_def empty_patch_def)
    have "te_ID (patched ?p x) = i" using stored_id [OF s(1,2)] by (simp add: patched_def)
    then obtain d2 where "write_task (xe_world env2) (xe_dir env2) (patched ?p x) d = (True, d2)"
      using assms(4,5) by (simp add: write_task_def Let_def)
    then have "\<exists>t' st'. execute_commit env2 i s = (Inr t', st')"
      by (simp add: execute_commit_def store_update_def update_task_def prepare_update_def l q ap)
    then obtain t' st' where c: "execute_commit env2 i s = (Inr t', st')" by blast
    show ?thesis using advances_commit [OF c v] c s(1) by (auto simp: advances_def)
  qed
  obtain x where x: "stored_task (xe_dir env2) (xs_disk st2) i = Some x" "te_Status x = ''queued'' \<or> te_Status x = ''running''"
    using check_stored [OF assms(3)] f1 u assms(4) that by simp
  obtain t' st3 where a: "execute_commit env2 i st2 = (Inr t', st3)" "te_ID t' = i" "filed (xe_dir env2) (xs_disk st3)"
    "stored_task (xe_dir env2) (xs_disk st3) i = Some t'" "te_Status t' = ''running''" using go [OF f2 x] by blast
  obtain u' st4 where b: "execute_commit env2 i st3 = (Inr u', st4)" "te_ID u' = i" using go [OF a(3,4)] a(5) by blast
  show ?thesis using a b by simp
qed

section \<open>The executor among its callers\<close>

text \<open>
  A task in \<open>ys_active\<close> has a goroutine; before its turn begins it has no session yet. \<open>Ev_check\<close> and
  \<open>Ev_commit\<close> are the two halves of a start that others may come between; \<open>Ev_store\<close> is any operation of
  the task tools, the REST handlers or an agent on the store.
\<close>

record exec_system =
  ys_state :: exec_state
  ys_checked :: "string list"
  ys_active :: "(task_entity \<times> string option) list"

datatype exec_event = Ev_execute string | Ev_check string | Ev_commit string | Ev_heartbeat | Ev_begin string |
  Ev_end string "string + string" | Ev_store task_op | Ev_stop | Ev_crash

fun replace_first :: "('a \<Rightarrow> bool) \<Rightarrow> ('a \<Rightarrow> 'a list) \<Rightarrow> 'a list \<Rightarrow> 'a list" where
  "replace_first P f [] = []"
| "replace_first P f (x # xs) = (if P x then f x @ xs else x # replace_first P f xs)"

definition waiting :: "string \<Rightarrow> task_entity \<times> string option \<Rightarrow> bool" where
  "waiting i a \<longleftrightarrow> te_ID (fst a) = i \<and> snd a = None"

definition talking :: "string \<Rightarrow> task_entity \<times> string option \<Rightarrow> bool" where
  "talking i a \<longleftrightarrow> te_ID (fst a) = i \<and> snd a \<noteq> None"

definition started :: "exec_state \<Rightarrow> exec_error + task_entity \<Rightarrow> exec_system \<Rightarrow> exec_system" where
  "started st r y = (case r of
     Inl _ \<Rightarrow> y\<lparr>ys_state := st\<rparr> | Inr t \<Rightarrow> y\<lparr>ys_state := st, ys_active := ys_active y @ [(t, None)]\<rparr>)"

definition exec_step :: "exec_env \<Rightarrow> exec_event \<Rightarrow> exec_system \<Rightarrow> exec_system" where
  "exec_step env ev y =
     (case ev of
        Ev_execute i \<Rightarrow> (case execute_task env i (ys_state y) of (r, st) \<Rightarrow> started st r y)
      | Ev_check i \<Rightarrow> (case execute_check env i (ys_state y) of
          (Inl e, st) \<Rightarrow> y\<lparr>ys_state := st\<rparr> | (Inr t, st) \<Rightarrow> y\<lparr>ys_state := st, ys_checked := ys_checked y @ [i]\<rparr>)
      | Ev_commit i \<Rightarrow> if i \<in> set (ys_checked y) then
          (case execute_commit env i (ys_state y) of (r, st) \<Rightarrow> started st r (y\<lparr>ys_checked := remove1 i (ys_checked y)\<rparr>)) else y
      | Ev_heartbeat \<Rightarrow> (case check_queued_tasks env (ys_state y) of
          (ts, st) \<Rightarrow> y\<lparr>ys_state := st, ys_active := ys_active y @ map (\<lambda>t. (t, None)) ts\<rparr>)
      | Ev_begin i \<Rightarrow> (case List.find (waiting i) (ys_active y) of
          None \<Rightarrow> y
        | Some (t, _) \<Rightarrow> (case run_begin env t (ys_state y) of
            (sid, st) \<Rightarrow> y\<lparr>ys_state := st, ys_active := replace_first (waiting i) (\<lambda>a. [(t, Some sid)]) (ys_active y)\<rparr>))
      | Ev_end i outcome \<Rightarrow> (case List.find (talking i) (ys_active y) of
          Some (t, Some sid) \<Rightarrow> y\<lparr>ys_state := run_end env t sid outcome (ys_state y),
            ys_active := replace_first (talking i) (\<lambda>a. []) (ys_active y)\<rparr>
        | _ \<Rightarrow> y)
      | Ev_store op \<Rightarrow> y\<lparr>ys_state := (ys_state y)\<lparr>xs_disk := run_task_op (xe_world env) (xe_dir env) op (xs_disk (ys_state y))\<rparr>\<rparr>
      | Ev_stop \<Rightarrow> y\<lparr>ys_state := stop_executor (ys_state y)\<rparr>
      | Ev_crash \<Rightarrow> y\<lparr>ys_state := (ys_state y)\<lparr>xs_running := []\<rparr>, ys_checked := [], ys_active := []\<rparr>)"

fun exec_run :: "(exec_env \<times> exec_event) list \<Rightarrow> exec_system \<Rightarrow> exec_system" where
  "exec_run [] y = y"
| "exec_run ((env, ev) # evs) y = exec_run evs (exec_step env ev y)"

abbreviation active_ids :: "exec_system \<Rightarrow> string list" where
  "active_ids y \<equiv> map (te_ID \<circ> fst) (ys_active y)"

text \<open>No start is split, and a new task takes no identifier of a task that is running.\<close>

definition serial_event :: "path \<Rightarrow> exec_env \<times> exec_event \<Rightarrow> exec_system \<Rightarrow> bool" where
  "serial_event dir c y = (case c of (env, ev) \<Rightarrow> xe_dir env = dir \<and> (case ev of
     Ev_check i \<Rightarrow> False | Ev_commit i \<Rightarrow> False
   | Ev_store (Op_create t) \<Rightarrow> (if te_ID t = [] then tw_uuid (xe_world env) else te_ID t) \<notin> set (active_ids y)
   | _ \<Rightarrow> True))"

fun serial_run :: "path \<Rightarrow> (exec_env \<times> exec_event) list \<Rightarrow> exec_system \<Rightarrow> bool" where
  "serial_run dir [] y \<longleftrightarrow> True"
| "serial_run dir (c # cs) y \<longleftrightarrow> serial_event dir c y \<and> serial_run dir cs (exec_step (fst c) (snd c) y)"

definition underway :: "path \<Rightarrow> task_disk \<Rightarrow> string \<Rightarrow> bool" where
  "underway dir d i \<longleftrightarrow> validate_id i \<and> (case stored_task dir d i of
     None \<Rightarrow> True | Some t \<Rightarrow> te_Status t \<in> {''running'', ''completed'', ''failed''})"

definition one_run_each :: "path \<Rightarrow> exec_system \<Rightarrow> bool" where
  "one_run_each dir y \<longleftrightarrow> filed dir (xs_disk (ys_state y)) \<and> distinct (active_ids y) \<and>
     (\<forall>i \<in> set (active_ids y). underway dir (xs_disk (ys_state y)) i)"

lemma moves_underway:
  assumes "(s, s') \<in> moves\<^sup>*" "s \<in> {''running'', ''completed'', ''failed''}"
  shows "s' \<in> {''running'', ''completed'', ''failed''}"
  using assms by (induction rule: rtrancl_induct) (auto simp: moves_def valid_transitions_def)

lemma underway_later: "underway dir d i \<Longrightarrow> rel_option (later b) (stored_task dir d i) (stored_task dir d' i) \<Longrightarrow> underway dir d' i"
  by (cases "stored_task dir d i"; cases "stored_task dir d' i") (auto simp: underway_def later_def dest: moves_underway)

lemma underway_advances: "advances dir j d d' \<Longrightarrow> filed dir d \<Longrightarrow> underway dir d i \<Longrightarrow> underway dir d' i"
  by (auto simp: advances_def intro: underway_later)

lemma find_replace: "List.find P xs = Some x \<Longrightarrow> \<exists>us vs. xs = us @ x # vs \<and> P x \<and> replace_first P f xs = us @ f x @ vs"
proof (induction xs)
  case (Cons y ys)
  show ?case
  proof (cases "P y")
    case True
    then have "y # ys = [] @ x # ys \<and> P x \<and> replace_first P f (y # ys) = [] @ f x @ ys" using Cons.prems by simp
    then show ?thesis by blast
  next
    case False
    then obtain us vs where u: "ys = us @ x # vs" "P x" "replace_first P f ys = us @ f x @ vs" using Cons by auto
    have "y # ys = (y # us) @ x # vs \<and> P x \<and> replace_first P f (y # ys) = (y # us) @ f x @ vs"
      using False u(1,2) unfolding replace_first.simps u(3) by simp
    then show ?thesis by blast
  qed
qed simp

lemma one_run_execute:
  assumes "one_run_each (xe_dir env) y" "execute_task env i (ys_state y) = (r, st)"
  shows "one_run_each (xe_dir env) (started st r y)"
proof -
  have f: "filed (xe_dir env) (xs_disk (ys_state y))" using assms(1) by (simp add: one_run_each_def)
  note a = advances_execute [OF assms(2)]
  have f': "filed (xe_dir env) (xs_disk st)" using a(1) f by (simp add: advances_def)
  have u: "underway (xe_dir env) (xs_disk st) j" if "j \<in> set (active_ids y)" for j
    using underway_advances [OF a(1) f] assms(1) that by (auto simp: one_run_each_def)
  show ?thesis
  proof (cases r)
    case (Inl e)
    then show ?thesis using assms(1) f' u by (simp add: one_run_each_def started_def)
  next
    case (Inr t)
    note b = a(2) [OF Inr f]
    have "i \<notin> set (active_ids y)" using b assms(1) by (auto simp: one_run_each_def underway_def)
    moreover have "underway (xe_dir env) (xs_disk st) i" using b by (auto simp: underway_def)
    ultimately show ?thesis using assms(1) f' u b Inr by (auto simp: one_run_each_def started_def)
  qed
qed

lemma one_run_start_all:
  "one_run_each (xe_dir env) y \<Longrightarrow> start_all env ts (ys_state y) = (us, st) \<Longrightarrow>
   one_run_each (xe_dir env) (y\<lparr>ys_state := st, ys_active := ys_active y @ map (\<lambda>t. (t, None)) us\<rparr>)"
proof (induction ts arbitrary: y us)
  case (Cons t ts)
  obtain r st1 where e: "execute_task env (te_ID t) (ys_state y) = (r, st1)" by fastforce
  obtain vs st2 where s: "start_all env ts st1 = (vs, st2)" by fastforce
  let ?y = "started st1 r y"
  have "ys_state ?y = st1" by (simp add: started_def split: sum.split)
  then have "one_run_each (xe_dir env) (?y\<lparr>ys_state := st2, ys_active := ys_active ?y @ map (\<lambda>t. (t, None)) vs\<rparr>)"
    using Cons.IH [OF one_run_execute [OF Cons.prems(1) e], of vs] s Cons.prems(2) e by (simp split: prod.splits)
  moreover have "st = st2" using Cons.prems(2) e s by simp
  moreover have "us = (case r of Inl _ \<Rightarrow> vs | Inr u \<Rightarrow> u # vs)" using Cons.prems(2) e s by simp
  ultimately show ?case by (cases r) (simp_all add: started_def)
qed (simp add: one_run_each_def)

lemma one_run_state:
  assumes "one_run_each dir y" "filed dir (xs_disk st)" "\<And>i. i \<in> set (active_ids y) \<Longrightarrow> underway dir (xs_disk st) i"
    "distinct (map (te_ID \<circ> fst) as)" "set (map (te_ID \<circ> fst) as) \<subseteq> set (active_ids y)"
  shows "one_run_each dir (y\<lparr>ys_state := st, ys_active := as\<rparr>)"
  using assms unfolding one_run_each_def by (simp add: subset_iff del: set_map)

lemma one_run_heartbeat:
  assumes "one_run_each (xe_dir env) y" "check_queued_tasks env (ys_state y) = (us, st)"
  shows "one_run_each (xe_dir env) (y\<lparr>ys_state := st, ys_active := ys_active y @ map (\<lambda>t. (t, None)) us\<rparr>)"
proof -
  have f: "filed (xe_dir env) (xs_disk (ys_state y))" using assms(1) by (simp add: one_run_each_def)
  obtain l st1 where l: "store_list env \<lparr>tf_Status = ''queued'', tf_AgentID = [], tf_CreatedBy = [], tf_ParentTaskID = []\<rparr> (ys_state y) = (l, st1)"
    by fastforce
  note a = advances_list [OF l]
  have "one_run_each (xe_dir env) (y\<lparr>ys_state := st1\<rparr>)"
    using assms(1) a f underway_advances [OF a f] by (auto simp: one_run_each_def advances_def)
  note o = this
  show ?thesis
  proof (cases l)
    case (Inl e)
    then show ?thesis using o assms(2) l by (simp add: check_queued_tasks_def one_run_each_def)
  next
    case (Inr ts)
    then have "start_all env (xe_order env (first_per_agent [] ts)) st1 = (us, st)"
      using assms(2) l by (simp add: check_queued_tasks_def)
    then show ?thesis using one_run_start_all [OF o] by simp
  qed
qed

lemma one_run_store:
  assumes "one_run_each (xe_dir env) y" "serial_event (xe_dir env) (env, Ev_store op) y"
  shows "one_run_each (xe_dir env) (exec_step env (Ev_store op) y)"
proof -
  let ?dir = "xe_dir env" and ?d = "xs_disk (ys_state y)"
  let ?d' = "run_task_op (xe_world env) ?dir op ?d"
  have f: "filed ?dir ?d" using assms(1) by (simp add: one_run_each_def)
  have "filed ?dir ?d' \<and> (\<forall>i \<in> set (active_ids y). underway ?dir ?d i \<longrightarrow> underway ?dir ?d' i)"
  proof (cases op)
    case (Op_create t0)
    obtain r d where c: "create_task (xe_world env) ?dir t0 ?d = (r, d)" by fastforce
    note s = create_task_stores [OF f c]
    have d: "?d' = d" using c Op_create by (simp add: run_task_op_def)
    show ?thesis
    proof (cases r)
      case (Inr u)
      have "te_ID u \<notin> set (active_ids y)"
        using new_task_Inr(1) [OF s(3) [OF Inr]] assms(2) Op_create by (simp add: serial_event_def)
      then have "stored_task ?dir d i = stored_task ?dir ?d i" if "i \<in> set (active_ids y)" for i
        using s(2) Inr that by (auto simp del: set_map)
      then show ?thesis using s(1) unfolding d by (simp add: underway_def del: set_map)
    qed (use s(1,2) in \<open>simp add: d underway_def\<close>)
  next
    case (Op_delete j)
    obtain r d where c: "delete_task (xe_world env) ?dir j ?d = (r, d)" by fastforce
    then show ?thesis using Op_delete delete_task_stores [OF f c] by (auto simp: run_task_op_def underway_def)
  next
    case (Op_update j p)
    obtain r d where c: "update_task (xe_world env) ?dir j p ?d = (r, d)" by fastforce
    have d: "?d' = d" using c Op_update by (simp add: run_task_op_def)
    from update_task_stores(2) [OF f c] show ?thesis
    proof (elim disjE exE conjE)
      fix t t' assume t: "stored_task ?dir ?d (te_ID t) = Some t" "apply_patch p t = Inr t'"
        "stored_task ?dir d = (stored_task ?dir ?d)(te_ID t \<mapsto> t')"
      have "(te_Status t, te_Status t') \<in> moves\<^sup>*" using apply_patch_Inr(3) [OF t(2)] by (auto simp: moves_def)
      then show ?thesis using t update_task_stores(1) [OF f c] moves_underway unfolding d by (auto simp: underway_def)
    qed (use update_task_stores(1) [OF f c] in \<open>simp add: d underway_def\<close>)
  next
    case (Op_list g)
    obtain ts d where l: "list_loop (xe_world env) ?dir g (file_names ?dir ?d) ?d = (ts, d)" by fastforce
    then show ?thesis using Op_list list_loop_stores [OF f l] f by (simp add: run_task_op_def list_tasks_def underway_def)
  next
    case (Op_get j)
    obtain r d where l: "load_task (xe_world env) ?dir j ?d = (r, d)" by fastforce
    then show ?thesis using Op_get load_task_stores(1,2) [OF f l] f by (simp add: run_task_op_def get_task_def underway_def)
  qed
  then show ?thesis using assms(1) by (auto simp: one_run_each_def exec_step_def)
qed

lemma one_run_step:
  assumes "one_run_each dir y" "serial_event dir (env, ev) y"
  shows "one_run_each dir (exec_step env ev y)"
proof -
  have dir: "xe_dir env = dir" using assms(2) by (simp add: serial_event_def)
  have f: "filed dir (xs_disk (ys_state y))" and dist: "distinct (active_ids y)" using assms(1) by (simp_all add: one_run_each_def)
  have valid: "validate_id i" if "i \<in> set (active_ids y)" for i using assms(1) that by (auto simp: one_run_each_def underway_def)
  have keep: "one_run_each dir (y\<lparr>ys_state := st, ys_active := as\<rparr>)"
    if "advances dir j (xs_disk (ys_state y)) (xs_disk st)" "distinct (map (te_ID \<circ> fst) as)"
      "set (map (te_ID \<circ> fst) as) \<subseteq> set (active_ids y)" for st j as
  proof (rule one_run_state [OF assms(1) _ _ that(2,3)])
    show "filed dir (xs_disk st)" using that(1) f by (simp add: advances_def)
    show "underway dir (xs_disk st) i" if "i \<in> set (active_ids y)" for i
      using underway_advances [OF \<open>advances dir j _ _\<close> f] assms(1) that by (auto simp: one_run_each_def)
  qed
  show ?thesis
  proof (cases ev)
    case (Ev_execute i)
    then show ?thesis using one_run_execute [of env y i] assms(1) dir by (simp add: exec_step_def split: prod.split)
  next
    case Ev_heartbeat
    then show ?thesis using one_run_heartbeat [of env y] assms(1) dir by (simp add: exec_step_def split: prod.split)
  next
    case (Ev_begin i)
    show ?thesis
    proof (cases "List.find (waiting i) (ys_active y)")
      case None
      then show ?thesis using Ev_begin assms(1) by (simp add: exec_step_def)
    next
      case (Some a)
      obtain t q where a: "a = (t, q)" by fastforce
      obtain sid st where b: "run_begin env t (ys_state y) = (sid, st)" by fastforce
      obtain us vs where us: "ys_active y = us @ a # vs" "replace_first (waiting i) (\<lambda>a. [(t, Some sid)]) (ys_active y) = us @ [(t, Some sid)] @ vs"
        using find_replace [OF Some, of "\<lambda>a. [(t, Some sid)]"] by blast
      have "advances dir i (xs_disk (ys_state y)) (xs_disk st)"
        using advances_begin [OF b valid, of i] us(1) a dir by simp
      from keep [OF this, of "us @ (t, Some sid) # vs"] show ?thesis
        using Ev_begin Some a b us dist by (auto simp: exec_step_def)
    qed
  next
    case (Ev_end i outcome)
    show ?thesis
    proof (cases "List.find (talking i) (ys_active y)")
      case None
      then show ?thesis using Ev_end assms(1) by (simp add: exec_step_def)
    next
      case (Some a)
      obtain us vs where us: "ys_active y = us @ a # vs" "talking i a" "replace_first (talking i) (\<lambda>a. []) (ys_active y) = us @ [] @ vs"
        using find_replace [OF Some, of "\<lambda>a. []"] by blast
      then obtain t sid where a: "a = (t, Some sid)" by (cases a) (auto simp: talking_def)
      have "advances dir (te_ID t) (xs_disk (ys_state y)) (xs_disk (run_end env t sid outcome (ys_state y)))"
        using advances_end [OF valid, of t env "ys_state y" sid outcome] us(1) a dir by simp
      from keep [OF this, of "us @ vs"] show ?thesis using Ev_end Some a us dist by (auto simp: exec_step_def)
    qed
  next
    case (Ev_store op)
    then show ?thesis using one_run_store [of env y op] assms dir by simp
  next
    case Ev_stop
    then show ?thesis using assms(1) by (simp add: exec_step_def one_run_each_def stop_executor_def)
  next
    case Ev_crash
    then show ?thesis using assms(1) by (simp add: exec_step_def one_run_each_def)
  qed (use assms(2) in \<open>simp_all add: serial_event_def\<close>)
qed

text \<open>
  C22. Over every interleaving of starts, heartbeats, turns and their ends, store operations of tools
  and users, shutdowns and crashes in which no two starts overlap, a task has at most one run at a time, and
  while it has one it is stored as running, completed or failed, unless somebody deleted it.
\<close>

theorem task_runs_once:
  assumes "one_run_each dir y" "serial_run dir evs y"
  shows "distinct (active_ids (exec_run evs y)) \<and>
    list_all (underway dir (xs_disk (ys_state (exec_run evs y)))) (active_ids (exec_run evs y))"
proof -
  have "one_run_each dir y \<Longrightarrow> serial_run dir evs y \<Longrightarrow> one_run_each dir (exec_run evs y)" for y
    by (induction evs y rule: exec_run.induct) (auto intro: one_run_step)
  then show ?thesis using assms by (auto simp: one_run_each_def list_all_iff)
qed

section \<open>The end of a run\<close>

lemma store_update_applied:
  assumes "filed (xe_dir env) (xs_disk st)" "stored_task (xe_dir env) (xs_disk st) i = Some u"
    "tw_write_ok (xe_world env) (task_path (xe_dir env) i)"
  shows "\<exists>st'. store_update env i p st = ((case apply_patch p u of Inl e \<Rightarrow> Inl e | Inr u' \<Rightarrow> Inr u'), st') \<and>
    filed (xe_dir env) (xs_disk st') \<and> xs_effects st' = xs_effects st \<and>
    stored_task (xe_dir env) (xs_disk st') i = Some (case apply_patch p u of Inl e \<Rightarrow> u | Inr u' \<Rightarrow> u')"
proof -
  note u = stored_id [OF assms(1,2)]
  obtain q d where l: "load_task (xe_world env) (xe_dir env) i (xs_disk st) = (q, d)" by fastforce
  note s = load_task_stores [OF assms(1) l]
  have q: "q = Inr u" using load_task_valid [OF assms(1), of i "xe_world env" u] l assms(2) u by simp
  show ?thesis
  proof (cases "apply_patch p u")
    case (Inl e)
    then have "store_update env i p st = (Inl e, st\<lparr>xs_disk := d\<rparr>)"
      by (simp add: store_update_def update_task_def prepare_update_def l q)
    then show ?thesis using Inl s assms(2) by simp
  next
    case (Inr u')
    note ap = apply_patch_Inr(1,2) [OF Inr]
    obtain d2 where w: "write_task (xe_world env) (xe_dir env) u' d = (True, d2)"
      using assms(3) ap(1) u by (simp add: write_task_def Let_def)
    then have "store_update env i p st = (Inr u', st\<lparr>xs_disk := d2\<rparr>)"
      by (simp add: store_update_def update_task_def prepare_update_def l q Inr)
    moreover have "validate_id (te_ID u')" "normal_task u'" using ap u by simp_all
    note write_task_stores [OF s(1) this w]
    ultimately show ?thesis using Inr ap u by simp
  qed
qed

definition is_follow_up :: "task_effect \<Rightarrow> bool" where
  "is_follow_up e = (case e of Follow_up a b c d \<Rightarrow> True | _ \<Rightarrow> False)"

definition new_effects :: "exec_state \<Rightarrow> exec_state \<Rightarrow> task_effect list" where
  "new_effects st st' = drop (length (xs_effects st)) (xs_effects st')"

text \<open>The status a run leaves, given what its task was stored as when the turn ended.\<close>

definition settled :: "string + string \<Rightarrow> string \<Rightarrow> string" where
  "settled outcome s =
     (if s \<noteq> ''running'' then s else case outcome of Inl err \<Rightarrow> ''failed'' | Inr resp \<Rightarrow> ''completed'')"

lemma fail_task_settles:
  assumes "filed (xe_dir env) (xs_disk st)" "stored_task (xe_dir env) (xs_disk st) i = Some u"
    "tw_write_ok (xe_world env) (task_path (xe_dir env) i)" "te_Status u \<in> {''running'', ''completed'', ''failed''}"
  shows "\<exists>u'. stored_task (xe_dir env) (xs_disk (fail_task env i reason st)) i = Some u' \<and> te_Status u' = settled (Inl err) (te_Status u)"
    "xs_effects (fail_task env i reason st) = xs_effects st"
proof -
  let ?p = "empty_patch\<lparr>tp_Status := Some ''failed'', tp_Result := Some reason, tp_CompletedAt := Some (tw_now (xe_world env))\<rparr>"
  obtain st' where s: "store_update env i ?p st = ((case apply_patch ?p u of Inl e \<Rightarrow> Inl e | Inr u' \<Rightarrow> Inr u'), st')"
    "xs_effects st' = xs_effects st"
    "stored_task (xe_dir env) (xs_disk st') i = Some (case apply_patch ?p u of Inl e \<Rightarrow> u | Inr u' \<Rightarrow> u')"
    using store_update_applied [OF assms(1-3), of ?p] by blast
  show "xs_effects (fail_task env i reason st) = xs_effects st" using s(1,2) by (simp add: fail_task_def)
  have "te_Status (case apply_patch ?p u of Inl e \<Rightarrow> u | Inr u' \<Rightarrow> u') = settled (Inl err) (te_Status u)"
    using assms(4) by (auto simp: apply_patch_def patch_status_def valid_statuses_def valid_transitions_def empty_patch_def
        settled_def patched_def set_if_def)
  then show "\<exists>u'. stored_task (xe_dir env) (xs_disk (fail_task env i reason st)) i = Some u' \<and> te_Status u' = settled (Inl err) (te_Status u)"
    using s by (simp add: fail_task_def)
qed

lemma on_complete_effects:
  "filed (xe_dir env) (xs_disk st) \<Longrightarrow> stored_task (xe_dir env) (xs_disk (on_task_complete env t st)) = stored_task (xe_dir env) (xs_disk st)"
proof -
  assume f: "filed (xe_dir env) (xs_disk st)"
  obtain l st1 where l: "store_list env (children_of (te_ParentTaskID t)) st = (l, st1)" by fastforce
  obtain g st2 where g: "store_get env (te_ParentTaskID t) st1 = (g, st2)" by fastforce
  have f1: "filed (xe_dir env) (xs_disk st1)" using advances_list [OF l] f by (simp add: advances_def)
  have "stored_task (xe_dir env) (xs_disk st2) = stored_task (xe_dir env) (xs_disk st1)"
    using g load_task_stores(2) [OF f1] by (auto simp: store_get_def get_task_def split: prod.splits if_splits)
  then show ?thesis using l g list_stores [OF l f] by (simp add: on_task_complete_def split: sum.split)
qed

lemma answered_settles:
  assumes "filed (xe_dir env) (xs_disk st)" "stored_task (xe_dir env) (xs_disk st) (te_ID t) = Some u"
    "tw_write_ok (xe_world env) (task_path (xe_dir env) (te_ID t))" "te_Status u \<in> {''running'', ''completed'', ''failed''}"
  shows "\<exists>u'. stored_task (xe_dir env) (xs_disk (run_answered env t sid resp st)) (te_ID t) = Some u' \<and>
    te_Status u' = settled (Inr resp) (te_Status u)"
proof -
  let ?st1 = "if resp = [] then st else on_session env t sid [Transcript sid ''assistant'' (te_ID t @ ''-response'') resp] st"
  have d: "xs_disk ?st1 = xs_disk st" by simp
  obtain g st2 where g: "store_get env (te_ID t) ?st1 = (g, st2)" by fastforce
  obtain dd where l: "load_task (xe_world env) (xe_dir env) (te_ID t) (xs_disk st) = (g, dd)" "xs_disk st2 = dd"
    using g stored_id [OF assms(1,2)] d by (auto simp: store_get_def get_task_def split: prod.splits if_splits)
  note s = load_task_stores [OF assms(1) l(1)]
  have gu: "g = Inr u" using load_task_valid [OF assms(1), of "te_ID t" "xe_world env" u] stored_id [OF assms(1,2)] l(1) assms(2) by simp
  have st2: "stored_task (xe_dir env) (xs_disk st2) (te_ID t) = Some u" "filed (xe_dir env) (xs_disk st2)"
    using s l(2) assms(2) by simp_all
  show ?thesis
  proof (cases "te_Status u = ''running''")
    case False
    then show ?thesis using assms(4) gu st2 g by (auto simp: run_answered_def settled_def)
  next
    case True
    obtain st3 where c: "store_update env (te_ID t) (completion env resp) st2 = ((case apply_patch (completion env resp) u of Inl e \<Rightarrow> Inl e | Inr u' \<Rightarrow> Inr u'), st3)"
      "filed (xe_dir env) (xs_disk st3)"
      "stored_task (xe_dir env) (xs_disk st3) (te_ID t) = Some (case apply_patch (completion env resp) u of Inl e \<Rightarrow> u | Inr u' \<Rightarrow> u')"
      using store_update_applied [OF st2(2,1) assms(3), of "completion env resp"] by blast
    have ap: "apply_patch (completion env resp) u = Inr (patched (completion env resp) u)"
      using True by (simp add: apply_patch_def patch_status_def valid_statuses_def valid_transitions_def completion_def empty_patch_def)
    have "stored_task (xe_dir env) (xs_disk (auto_complete env t sid resp st2)) (te_ID t) = Some (patched (completion env resp) u)"
      using c ap on_complete_effects [of env "on_session env t sid [Session_status sid ''archived''] st3" "patched (completion env resp) u"]
      by (simp add: auto_complete_def)
    moreover have "te_Status (patched (completion env resp) u) = ''completed''"
      by (simp add: patched_def completion_def set_if_def)
    ultimately show ?thesis using True g gu by (simp add: run_answered_def settled_def)
  qed
qed

text \<open>
  C24. When the turn of a run ends and the store can be written, the task is stored as completed or
  failed: as the agent left it, or else completed after an answer and failed after an error. After an error
  no follow-up turn is ever requested, so the parent of a task is not told when its last child fails this way.
\<close>

theorem run_settles_task:
  assumes "filed (xe_dir env) (xs_disk st)" "stored_task (xe_dir env) (xs_disk st) (te_ID t) = Some u"
    "tw_write_ok (xe_world env) (task_path (xe_dir env) (te_ID t))" "te_Status u \<in> {''running'', ''completed'', ''failed''}"
  shows "(\<exists>u'. stored_task (xe_dir env) (xs_disk (run_end env t sid outcome st)) (te_ID t) = Some u' \<and>
      te_Status u' = settled outcome (te_Status u)) \<and>
    (case outcome of Inl err \<Rightarrow> \<not> list_ex is_follow_up (new_effects st (run_end env t sid outcome st)) | Inr resp \<Rightarrow> True)"
proof (cases outcome)
  case (Inl err)
  let ?es = "[Transcript sid ''assistant'' (te_ID t @ ''-error'') (''Task execution failed: '' @ err), Session_status sid ''interrupted'']"
  let ?st1 = "on_session env t sid ?es st"
  let ?st2 = "fail_task env (te_ID t) (''execution error: '' @ err) ?st1"
  let ?t = "t\<lparr>te_Status := ''failed'', te_Result := ''execution error: '' @ err\<rparr>"
  have e2: "xs_effects ?st2 = xs_effects ?st1" using fail_task_settles(2) [of env ?st1 "te_ID t" u] assms by simp
  have n: "\<exists>es. xs_effects (notify_source_channel env ?t x) = xs_effects x @ es \<and> \<not> list_ex is_follow_up es" for x
    by (simp add: notify_source_channel_def Let_def is_follow_up_def)
  obtain es where es: "xs_effects (notify_source_channel env ?t ?st2) = xs_effects ?st2 @ es" "\<not> list_ex is_follow_up es" using n by blast
  have s: "\<exists>fs. xs_effects ?st1 = xs_effects st @ fs \<and> \<not> list_ex is_follow_up fs"
    by (simp add: on_session_def is_follow_up_def emit_def)
  have "\<not> list_ex is_follow_up (new_effects st (run_end env t sid outcome st))"
    using s es e2 Inl by (auto simp: run_end_def run_failed_def new_effects_def Let_def)
  moreover have "\<exists>u'. stored_task (xe_dir env) (xs_disk ?st2) (te_ID t) = Some u' \<and> te_Status u' = settled (Inl err) (te_Status u)"
    using fail_task_settles(1) [of env ?st1 "te_ID t" u] assms by simp
  ultimately show ?thesis using Inl by (simp add: run_end_def run_failed_def Let_def)
next
  case (Inr resp)
  then show ?thesis using answered_settles [OF assms] by (simp add: run_end_def Let_def)
qed

section \<open>Tasks a crash left running\<close>

definition stuck_task :: "path \<Rightarrow> string \<Rightarrow> task_disk \<Rightarrow> string \<Rightarrow> bool" where
  "stuck_task dir a d i \<longleftrightarrow> validate_id i \<and>
     (case stored_task dir d i of None \<Rightarrow> False | Some t \<Rightarrow> te_AgentID t = a \<and> te_Status t = ''running'')"

text \<open>Stored as running, without a run and without a start underway.\<close>

definition stuck :: "path \<Rightarrow> string \<Rightarrow> string list \<Rightarrow> exec_system \<Rightarrow> bool" where
  "stuck dir a is y \<longleftrightarrow> filed dir (xs_disk (ys_state y)) \<and> list_all validate_id (ys_checked y @ active_ids y) \<and>
     list_all (\<lambda>i. stuck_task dir a (xs_disk (ys_state y)) i \<and> i \<notin> set (active_ids y) \<and> i \<notin> set (ys_checked y)) is"

text \<open>Nobody updates, deletes or recreates one of the tasks by hand.\<close>

definition hands_off :: "path \<Rightarrow> string list \<Rightarrow> exec_env \<times> exec_event \<Rightarrow> bool" where
  "hands_off dir is c = (case c of (env, ev) \<Rightarrow> xe_dir env = dir \<and> (case ev of
     Ev_store (Op_delete j) \<Rightarrow> j \<notin> set is
   | Ev_store (Op_create t) \<Rightarrow> (if te_ID t = [] then tw_uuid (xe_world env) else te_ID t) \<notin> set is
   | Ev_store (Op_update j p) \<Rightarrow> validate_id j \<and> j \<notin> set is
   | _ \<Rightarrow> True))"

lemma stuck_later: "rel_option (later False) (stored_task dir d i) (stored_task dir d' i) \<Longrightarrow> stuck_task dir a d i \<Longrightarrow> stuck_task dir a d' i"
  by (cases "stored_task dir d i"; cases "stored_task dir d' i") (auto simp: stuck_task_def later_def)

lemma stuck_advances: "advances dir j d d' \<Longrightarrow> filed dir d \<Longrightarrow> j \<noteq> i \<Longrightarrow> stuck_task dir a d i \<Longrightarrow> stuck_task dir a d' i"
  by (rule stuck_later) (auto simp: advances_def dest: spec [of _ i])

lemma check_not_queued:
  assumes "execute_check env i st = (r, st')" "filed (xe_dir env) (xs_disk st)" "stuck_task (xe_dir env) a (xs_disk st) i"
  shows "\<exists>e. r = Inl e" "stored_task (xe_dir env) (xs_disk st') = stored_task (xe_dir env) (xs_disk st)" "filed (xe_dir env) (xs_disk st')"
proof -
  obtain g d where g: "store_get env i st = (g, d)" by fastforce
  obtain dd where l: "load_task (xe_world env) (xe_dir env) i (xs_disk st) = (g, dd)" "xs_disk d = dd"
    using g assms(3) by (auto simp: store_get_def get_task_def stuck_task_def split: prod.splits if_splits)
  note s = load_task_stores [OF assms(2) l(1)]
  have "(\<exists>e. r = Inl e) \<and> st' = d"
  proof (cases g)
    case (Inl e)
    then show ?thesis using assms(1) g by (auto simp: execute_check_def)
  next
    case (Inr t)
    then have "stored_task (xe_dir env) (xs_disk st) i = Some t"
      using load_task_valid [OF assms(2), of i "xe_world env" t] l(1) assms(3) by (simp add: stuck_task_def)
    then have "te_Status t = ''running''" using assms(3) by (simp add: stuck_task_def)
    then show ?thesis using assms(1) g Inr by (auto simp: execute_check_def)
  qed
  then show "\<exists>e. r = Inl e" "stored_task (xe_dir env) (xs_disk st') = stored_task (xe_dir env) (xs_disk st)" "filed (xe_dir env) (xs_disk st')"
    using s l(2) by simp_all
qed

lemma stuck_execute:
  assumes "stuck (xe_dir env) a is y" "execute_task env i (ys_state y) = (r, st)"
  shows "stuck (xe_dir env) a is (started st r y)"
proof -
  have f: "filed (xe_dir env) (xs_disk (ys_state y))" using assms(1) by (simp add: stuck_def)
  note ad = advances_execute [OF assms(2)]
  have f': "filed (xe_dir env) (xs_disk st)" using ad(1) f by (simp add: advances_def)
  show ?thesis
  proof (cases "i \<in> set is")
    case True
    then have stk: "stuck_task (xe_dir env) a (xs_disk (ys_state y)) i" using assms(1) by (simp add: stuck_def list_all_iff)
    obtain c s where c: "execute_check env i (ys_state y) = (c, s)" by fastforce
    note n = check_not_queued [OF c f stk]
    then obtain e where "r = Inl e" "st = s" using assms(2) c by (auto simp: execute_task_def)
    then show ?thesis using assms(1) n(2) f' by (simp add: stuck_def started_def stuck_task_def)
  next
    case False
    have s: "stuck_task (xe_dir env) a (xs_disk st) j" if "j \<in> set is" for j
      by (rule stuck_advances [OF ad(1) f]) (use assms(1) that False in \<open>auto simp: stuck_def list_all_iff\<close>)
    show ?thesis
    proof (cases r)
      case (Inl e)
      then show ?thesis using assms(1) f' s by (simp add: stuck_def started_def list_all_iff)
    next
      case (Inr t)
      then have "te_ID t = i" "validate_id i" using ad(2) [OF Inr f] by simp_all
      then show ?thesis using assms(1) f' s Inr False by (auto simp: stuck_def started_def list_all_iff)
    qed
  qed
qed

lemma stuck_start_all:
  "stuck (xe_dir env) a is y \<Longrightarrow> start_all env ts (ys_state y) = (us, st) \<Longrightarrow>
   stuck (xe_dir env) a is (y\<lparr>ys_state := st, ys_active := ys_active y @ map (\<lambda>t. (t, None)) us\<rparr>)"
proof (induction ts arbitrary: y us)
  case (Cons t ts)
  obtain r st1 where e: "execute_task env (te_ID t) (ys_state y) = (r, st1)" by fastforce
  obtain vs st2 where s: "start_all env ts st1 = (vs, st2)" by fastforce
  let ?y = "started st1 r y"
  have "ys_state ?y = st1" by (simp add: started_def split: sum.split)
  then have "stuck (xe_dir env) a is (?y\<lparr>ys_state := st2, ys_active := ys_active ?y @ map (\<lambda>t. (t, None)) vs\<rparr>)"
    using Cons.IH [OF stuck_execute [OF Cons.prems(1) e], of vs] s Cons.prems(2) e by (simp split: prod.splits)
  moreover have "st = st2" using Cons.prems(2) e s by simp
  moreover have "us = (case r of Inl _ \<Rightarrow> vs | Inr u \<Rightarrow> u # vs)" using Cons.prems(2) e s by simp
  ultimately show ?case by (cases r) (simp_all add: started_def)
qed (simp add: stuck_def)

lemma stuck_heartbeat:
  assumes "stuck (xe_dir env) a is y" "check_queued_tasks env (ys_state y) = (us, st)"
  shows "stuck (xe_dir env) a is (y\<lparr>ys_state := st, ys_active := ys_active y @ map (\<lambda>t. (t, None)) us\<rparr>)"
proof -
  have f: "filed (xe_dir env) (xs_disk (ys_state y))" using assms(1) by (simp add: stuck_def)
  obtain l st1 where l: "store_list env \<lparr>tf_Status = ''queued'', tf_AgentID = [], tf_CreatedBy = [], tf_ParentTaskID = []\<rparr> (ys_state y) = (l, st1)"
    by fastforce
  have o: "stuck (xe_dir env) a is (y\<lparr>ys_state := st1\<rparr>)"
    using assms(1) list_stores [OF l f] advances_list [OF l] f by (simp add: stuck_def stuck_task_def advances_def)
  show ?thesis
  proof (cases l)
    case (Inl e)
    then show ?thesis using o assms(2) l by (simp add: check_queued_tasks_def stuck_def)
  next
    case (Inr ts)
    then have "start_all env (xe_order env (first_per_agent [] ts)) st1 = (us, st)"
      using assms(2) l by (simp add: check_queued_tasks_def)
    then show ?thesis using stuck_start_all [OF o] by simp
  qed
qed

lemma stuck_store:
  assumes "stuck (xe_dir env) a is y" "hands_off (xe_dir env) is (env, Ev_store op)"
  shows "stuck (xe_dir env) a is (exec_step env (Ev_store op) y)"
proof -
  let ?dir = "xe_dir env" and ?d = "xs_disk (ys_state y)"
  let ?d' = "run_task_op (xe_world env) ?dir op ?d"
  have f: "filed ?dir ?d" using assms(1) by (simp add: stuck_def)
  have "filed ?dir ?d' \<and> (\<forall>i \<in> set is. stored_task ?dir ?d' i = stored_task ?dir ?d i)"
  proof (cases op)
    case (Op_create t0)
    obtain r d where c: "create_task (xe_world env) ?dir t0 ?d = (r, d)" by fastforce
    note s = create_task_stores [OF f c]
    have d: "?d' = d" using c Op_create by (simp add: run_task_op_def)
    show ?thesis
    proof (cases r)
      case (Inr u)
      have "te_ID u \<notin> set is" using new_task_Inr(1) [OF s(3) [OF Inr]] assms(2) Op_create by (simp add: hands_off_def)
      then show ?thesis using s(1,2) Inr unfolding d by auto
    qed (use s(1,2) in \<open>simp add: d\<close>)
  next
    case (Op_delete j)
    obtain r d where c: "delete_task (xe_world env) ?dir j ?d = (r, d)" by fastforce
    then show ?thesis using Op_delete delete_task_stores [OF f c] assms(2) by (auto simp: run_task_op_def hands_off_def)
  next
    case (Op_update j p)
    obtain r d where c: "update_task (xe_world env) ?dir j p ?d = (r, d)" by fastforce
    have d: "?d' = d" and j: "validate_id j" "j \<notin> set is" using c Op_update assms(2) by (simp_all add: run_task_op_def hands_off_def)
    from update_valid [OF f j(1) c] show ?thesis using update_task_stores(1) [OF f c] j(2) unfolding d by auto
  next
    case (Op_list g)
    obtain ts d where l: "list_loop (xe_world env) ?dir g (file_names ?dir ?d) ?d = (ts, d)" by fastforce
    then show ?thesis using Op_list list_loop_stores [OF f l] f by (simp add: run_task_op_def list_tasks_def)
  next
    case (Op_get j)
    obtain r d where l: "load_task (xe_world env) ?dir j ?d = (r, d)" by fastforce
    then show ?thesis using Op_get load_task_stores(1,2) [OF f l] f by (simp add: run_task_op_def get_task_def)
  qed
  then show ?thesis using assms(1) by (simp add: stuck_def exec_step_def stuck_task_def list_all_iff)
qed

lemma stuck_step:
  assumes "stuck dir a is y" "hands_off dir is (env, ev)"
  shows "stuck dir a is (exec_step env ev y)"
proof -
  have dir: "xe_dir env = dir" using assms(2) by (simp add: hands_off_def)
  have f: "filed dir (xs_disk (ys_state y))" using assms(1) by (simp add: stuck_def)
  have keep: "stuck dir a is (y\<lparr>ys_state := st, ys_active := as, ys_checked := cs\<rparr>)"
    if "advances dir j (xs_disk (ys_state y)) (xs_disk st)" "j \<notin> set is" "set (map (te_ID \<circ> fst) as) \<subseteq> insert j (set (active_ids y))"
      "set cs \<subseteq> insert j (set (ys_checked y))" "validate_id j" for st j as cs
  proof -
    have "stuck_task dir a (xs_disk st) i" if "i \<in> set is" for i
      by (rule stuck_advances [OF \<open>advances dir j _ _\<close> f]) (use assms(1) that \<open>j \<notin> set is\<close> in \<open>auto simp: stuck_def list_all_iff\<close>)
    then show ?thesis using that assms(1) f unfolding stuck_def list_all_iff by (auto simp: advances_def simp del: set_map)
  qed
  show ?thesis
  proof (cases ev)
    case (Ev_execute i)
    then show ?thesis using stuck_execute [of env a "is" y i] assms(1) dir by (simp add: exec_step_def split: prod.split)
  next
    case (Ev_check i)
    obtain r st where c: "execute_check env i (ys_state y) = (r, st)" by fastforce
    show ?thesis
    proof (cases "i \<in> set is")
      case True
      then have "stuck_task (xe_dir env) a (xs_disk (ys_state y)) i" using assms(1) dir by (simp add: stuck_def list_all_iff)
      note n = check_not_queued [OF c f [folded dir] this]
      then show ?thesis using Ev_check c assms(1) dir by (auto simp: exec_step_def stuck_def stuck_task_def)
    next
      case False
      have ad: "advances dir i (xs_disk (ys_state y)) (xs_disk st)" using advances_check(1) [OF c] dir by simp
      show ?thesis
      proof (cases r)
        case (Inl e)
        have "stuck_task dir a (xs_disk st) j" if "j \<in> set is" for j
          by (rule stuck_advances [OF ad f]) (use assms(1) that False in \<open>auto simp: stuck_def list_all_iff\<close>)
        then show ?thesis using Ev_check c assms(1) Inl ad f by (auto simp: exec_step_def stuck_def list_all_iff advances_def)
      next
        case (Inr t)
        have "validate_id i" using advances_check(2) [OF c Inr] by blast
        from keep [OF ad False _ _ this, of "ys_active y" "ys_checked y @ [i]"] show ?thesis
          using Ev_check c Inr by (auto simp: exec_step_def)
      qed
    qed
  next
    case (Ev_commit i)
    show ?thesis
    proof (cases "i \<in> set (ys_checked y)")
      case True
      obtain r st where c: "execute_commit env i (ys_state y) = (r, st)" by fastforce
      have i: "i \<notin> set is" using True assms(1) by (auto simp: stuck_def list_all_iff)
      have v: "validate_id i" using True assms(1) by (simp add: stuck_def list_all_iff)
      have ad: "advances dir i (xs_disk (ys_state y)) (xs_disk st)" using advances_commit(1) [OF c v] dir by simp
      have id: "te_ID t = i" if "r = Inr t" for t using advances_commit(2) [OF c v that] f dir by simp
      have sub: "set (remove1 i (ys_checked y)) \<subseteq> insert i (set (ys_checked y))" using set_remove1_subset [of i "ys_checked y"] by blast
      note k = keep [OF ad i _ sub v]
      show ?thesis
      proof (cases r)
        case (Inl e)
        have "stuck dir a is (y\<lparr>ys_state := st, ys_active := ys_active y, ys_checked := remove1 i (ys_checked y)\<rparr>)" by (rule k) auto
        then show ?thesis using Ev_commit True c Inl by (simp add: exec_step_def started_def stuck_def)
      next
        case (Inr t)
        have "stuck dir a is (y\<lparr>ys_state := st, ys_active := ys_active y @ [(t, None)], ys_checked := remove1 i (ys_checked y)\<rparr>)"
          by (rule k) (use id [OF Inr] in auto)
        then show ?thesis using Ev_commit True c Inr by (simp add: exec_step_def started_def stuck_def)
      qed
    next
      case False
      then show ?thesis using Ev_commit assms(1) by (simp add: exec_step_def)
    qed
  next
    case Ev_heartbeat
    then show ?thesis using stuck_heartbeat [of env a "is" y] assms(1) dir by (simp add: exec_step_def split: prod.split)
  next
    case (Ev_begin i)
    show ?thesis
    proof (cases "List.find (waiting i) (ys_active y)")
      case None
      then show ?thesis using Ev_begin assms(1) by (simp add: exec_step_def)
    next
      case (Some b)
      obtain t q where b: "b = (t, q)" by fastforce
      obtain sid st where r: "run_begin env t (ys_state y) = (sid, st)" by fastforce
      obtain us vs where us: "ys_active y = us @ b # vs" "replace_first (waiting i) (\<lambda>a. [(t, Some sid)]) (ys_active y) = us @ [(t, Some sid)] @ vs"
        using find_replace [OF Some, of "\<lambda>a. [(t, Some sid)]"] by blast
      have v: "validate_id (te_ID t)" "te_ID t \<notin> set is" using assms(1) us(1) b by (auto simp: stuck_def list_all_iff)
      have "advances dir (te_ID t) (xs_disk (ys_state y)) (xs_disk st)" using advances_begin [OF r v(1)] dir by simp
      from keep [OF this v(2) _ _ v(1), of "us @ (t, Some sid) # vs" "ys_checked y"] show ?thesis
        using Ev_begin Some b r us by (auto simp: exec_step_def)
    qed
  next
    case (Ev_end i outcome)
    show ?thesis
    proof (cases "List.find (talking i) (ys_active y)")
      case None
      then show ?thesis using Ev_end assms(1) by (simp add: exec_step_def)
    next
      case (Some b)
      obtain us vs where us: "ys_active y = us @ b # vs" "talking i b" "replace_first (talking i) (\<lambda>a. []) (ys_active y) = us @ [] @ vs"
        using find_replace [OF Some, of "\<lambda>a. []"] by blast
      then obtain t sid where b: "b = (t, Some sid)" by (cases b) (auto simp: talking_def)
      have v: "validate_id (te_ID t)" "te_ID t \<notin> set is" using assms(1) us(1) b by (auto simp: stuck_def list_all_iff)
      have "advances dir (te_ID t) (xs_disk (ys_state y)) (xs_disk (run_end env t sid outcome (ys_state y)))"
        using advances_end [OF v(1), of env] dir by simp
      from keep [OF this v(2) _ _ v(1), of "us @ vs" "ys_checked y"] show ?thesis
        using Ev_end Some b us by (auto simp: exec_step_def)
    qed
  next
    case (Ev_store op)
    then show ?thesis using stuck_store [of env a "is" y op] assms dir by simp
  next
    case Ev_stop
    then show ?thesis using assms(1) by (simp add: exec_step_def stuck_def stop_executor_def)
  next
    case Ev_crash
    then show ?thesis using assms(1) by (simp add: exec_step_def stuck_def list_all_iff)
  qed
qed

lemma stuck_run: "stuck dir a is y \<Longrightarrow> list_all (hands_off dir is) evs \<Longrightarrow> stuck dir a is (exec_run evs y)"
  by (induction evs y rule: exec_run.induct) (auto intro: stuck_step)

text \<open>
  Three tasks of an agent that are stored as running without a run, as a crash or a restart leaves them, stay so
  through every sequence of heartbeats, starts, runs, restarts and operations on other tasks, and as
  long as they do no task of that agent is ever started.
\<close>

theorem crash_blocks_agent:
  assumes "stuck dir a is y" "distinct is" "3 \<le> length is" "list_all (hands_off dir is) evs"
    "xe_dir env = dir" "sorts_tasks (tw_sort (xe_world env))"
  shows "case fst (execute_task env i (ys_state (exec_run evs y))) of Inl e \<Rightarrow> True | Inr t \<Rightarrow> te_AgentID t \<noteq> a"
proof -
  let ?st = "ys_state (exec_run evs y)"
  note st = stuck_run [OF assms(1,4)]
  have f: "filed (xe_dir env) (xs_disk ?st)" using st assms(5) by (simp add: stuck_def)
  have "\<not> (execute_task env i ?st = (Inr t, st') \<and> te_AgentID t = a)" for t st'
  proof
    assume r: "execute_task env i ?st = (Inr t, st') \<and> te_AgentID t = a"
    obtain c st1 where c: "execute_check env i ?st = (c, st1)" by fastforce
    then obtain u where u: "c = Inr u" using r by (auto simp: execute_task_def split: sum.splits)
    have su: "stored_task (xe_dir env) (xs_disk ?st) i = Some u" using advances_check(2) [OF c u] f by blast
    have "advances (xe_dir env) i (xs_disk ?st) (xs_disk st')" "stored_task (xe_dir env) (xs_disk st') i = Some t"
      using advances_execute(1) [of env i ?st "Inr t" st'] advances_execute(2) [of env i ?st "Inr t" st' t] r f by blast+
    then have ua: "te_AgentID u = a" using su r f by (auto simp: advances_def later_def dest!: spec [of _ i])
    obtain g d where g: "store_get env i ?st = (g, d)" by fastforce
    then obtain u' where u': "g = Inr u'" using c u by (auto simp: execute_check_def split: sum.splits)
    note s = store_get_Inr(2) [OF g [unfolded u'] f]
    then have "u' = u" using su by simp
    obtain l e where l: "store_list env (running_of a) d = (l, e)" by fastforce
    obtain ts where ts: "l = Inr ts" "length ts < 3"
      using c g u u' l ua \<open>u' = u\<close> by (auto simp: execute_check_def split: sum.splits if_splits)
    obtain dd where lt: "list_tasks (xe_world env) (xe_dir env) (running_of a) (xs_disk d) = (Inr ts, dd)"
      using l ts(1) by (auto simp: store_list_def split: prod.splits)
    have "filed (xe_dir env) (xs_disk d)" using s by simp
    note ex = list_tasks_exact [OF this assms(6) lt]
    have "set is \<subseteq> te_ID ` set ts"
    proof
      fix j assume "j \<in> set is"
      then have "stuck_task dir a (xs_disk ?st) j" using st by (simp add: stuck_def list_all_iff)
      then obtain v where v: "stored_task dir (xs_disk ?st) j = Some v" "te_AgentID v = a" "te_Status v = ''running''"
        by (auto simp: stuck_task_def split: option.splits)
      then have "te_ID v = j" using stored_id f assms(5) by metis
      moreover have "passes_filter (running_of a) v" using v by (simp add: running_of_def passes_filter_def)
      ultimately have "v \<in> set ts" using ex(4) s v(1) assms(5) by simp
      then show "j \<in> te_ID ` set ts" using \<open>te_ID v = j\<close> by blast
    qed
    then have "length is \<le> length ts"
      using distinct_card [OF assms(2)] card_mono [of "te_ID ` set ts" "set is"] card_image_le [of "set ts" te_ID] card_length [of ts] by simp
    then show False using ts(2) assms(3) by simp
  qed
  then show ?thesis by (cases "execute_task env i ?st") (auto split: sum.split)
qed

section \<open>Concrete runs\<close>

definition demo_env :: exec_env where
  "demo_env = \<lparr>xe_world = demo_world ''t2'', xe_dir = demo_dir, xe_agents = (\<lambda>a. a = ''a''), xe_has_store = (\<lambda>a. True),
     xe_new_session = (\<lambda>a. Some ''s1''), xe_bus = True, xe_order = (\<lambda>ts. ts)\<rparr>"

definition demo_system :: exec_system where
  "demo_system = \<lparr>ys_state = \<lparr>xs_disk = demo_disk, xs_running = [], xs_effects = []\<rparr>, ys_checked = [], ys_active = []\<rparr>"

lemma demo_env_simps [simp]: "xe_dir demo_env = demo_dir" "xe_world demo_env = demo_world ''t2''"
  by (simp_all add: demo_env_def)

definition running_task :: task_entity where
  "running_task = demo_task\<lparr>te_ID := ''t1'', te_Status := ''running'', te_Priority := 3, te_TriggerType := ''manual'',
     te_CreatedAt := 7, te_StartedAt := Some 7\<rparr>"

theorem task_runs_once_witness:
  "active_ids (exec_run [(demo_env, Ev_execute ''t1''), (demo_env, Ev_heartbeat), (demo_env, Ev_begin ''t1''),
     (demo_env, Ev_execute ''t1'')] demo_system) = [''t1''] \<and>
   distinct (active_ids (exec_run [(demo_env, Ev_execute ''t1''), (demo_env, Ev_heartbeat), (demo_env, Ev_begin ''t1''),
     (demo_env, Ev_execute ''t1'')] demo_system))"
proof -
  let ?evs = "[(demo_env, Ev_execute ''t1''), (demo_env, Ev_heartbeat), (demo_env, Ev_begin ''t1''), (demo_env, Ev_execute ''t1'')]"
  have o: "one_run_each demo_dir demo_system" using demo_disk_props(1) by (simp add: one_run_each_def demo_system_def)
  have "serial_run demo_dir ?evs demo_system" by (simp add: serial_event_def)
  note d = task_runs_once [OF o this]
  have "active_ids (exec_run ?evs demo_system) = [''t1'']" by code_simp
  then show ?thesis using d by blast
qed

theorem racing_starts_run_twice_witness:
  "case execute_commit demo_env ''t1'' (ys_state demo_system) of (r, st3) \<Rightarrow> case execute_commit demo_env ''t1'' st3 of (r', st4) \<Rightarrow>
    \<exists>t' u'. r = Inr t' \<and> r' = Inr u' \<and> te_ID t' = ''t1'' \<and> te_ID u' = ''t1''"
proof -
  let ?t = "demo_task\<lparr>te_ID := ''t1'', te_Status := ''queued'', te_Priority := 3, te_TriggerType := ''manual'', te_CreatedAt := 7\<rparr>"
  have c: "execute_check demo_env ''t1'' (ys_state demo_system) = (Inr ?t, ys_state demo_system)" by code_simp
  have "filed (xe_dir demo_env) (xs_disk (ys_state demo_system))" using demo_disk_props(1) by (simp add: demo_system_def)
  from racing_starts_run_twice [OF this c c refl] show ?thesis by (simp add: demo_world_def)
qed

definition running_state :: exec_state where
  "running_state = snd (execute_task demo_env ''t1'' (ys_state demo_system))"

theorem run_settles_task_witness:
  "\<exists>u'. stored_task demo_dir (xs_disk (run_end demo_env running_task ''s1'' (Inl ''boom'') running_state)) ''t1'' = Some u' \<and>
     te_Status u' = ''failed''"
proof -
  have e: "execute_task demo_env ''t1'' (ys_state demo_system) = (Inr running_task, running_state)" by code_simp
  have "advances demo_dir ''t1'' (xs_disk (ys_state demo_system)) (xs_disk running_state)" using advances_execute(1) [OF e] by simp
  then have f: "filed (xe_dir demo_env) (xs_disk running_state)" using demo_disk_props(1) by (simp add: advances_def demo_system_def)
  have s: "stored_task (xe_dir demo_env) (xs_disk running_state) (te_ID running_task) = Some running_task" by code_simp
  have "tw_write_ok (xe_world demo_env) (task_path (xe_dir demo_env) (te_ID running_task))" by (simp add: demo_world_def)
  moreover have "te_Status running_task \<in> {''running'', ''completed'', ''failed''}" by (simp add: running_task_def)
  ultimately show ?thesis using run_settles_task [OF f s, of "''s1''" "Inl ''boom''"] by (simp add: settled_def running_task_def)
qed

text \<open>Three tasks are started, the process crashes, a fourth is created and started.\<close>

definition create_events :: "(exec_env \<times> exec_event) list" where
  "create_events = map (\<lambda>i. (demo_env\<lparr>xe_world := demo_world i\<rparr>, Ev_store (Op_create demo_task))) [''t2'', ''t3'']"

definition crashed_system :: exec_system where
  "crashed_system = exec_run (create_events @ map (\<lambda>i. (demo_env, Ev_execute i)) [''t1'', ''t2'', ''t3''] @ [(demo_env, Ev_crash)]) demo_system"

lemma crashed_filed: "filed demo_dir (xs_disk (ys_state crashed_system))"
proof -
  have o: "one_run_each demo_dir demo_system" using demo_disk_props(1) by (simp add: one_run_each_def demo_system_def)
  have step: "one_run_each demo_dir y \<Longrightarrow> serial_run demo_dir evs y \<Longrightarrow> one_run_each demo_dir (exec_run evs y)" for evs y
    by (induction evs y rule: exec_run.induct) (auto intro: one_run_step)
  have "serial_run demo_dir (create_events @ map (\<lambda>i. (demo_env, Ev_execute i)) [''t1'', ''t2'', ''t3''] @ [(demo_env, Ev_crash)]) demo_system"
    by (simp add: create_events_def serial_event_def exec_step_def demo_system_def demo_world_def demo_task_def)
  from step [OF o this] show ?thesis by (simp add: one_run_each_def crashed_system_def)
qed

theorem crash_blocks_agent_witness:
  "case fst (execute_task demo_env ''t4'' (ys_state (exec_run [(demo_env\<lparr>xe_world := demo_world ''t4''\<rparr>, Ev_store (Op_create demo_task)),
      (demo_env, Ev_heartbeat)] crashed_system))) of Inl e \<Rightarrow> True | Inr t \<Rightarrow> te_AgentID t \<noteq> ''a''"
proof -
  have "list_all (\<lambda>i. stuck_task demo_dir ''a'' (xs_disk (ys_state crashed_system)) i \<and> i \<notin> set (active_ids crashed_system) \<and>
      i \<notin> set (ys_checked crashed_system)) [''t1'', ''t2'', ''t3'']"
    by code_simp
  moreover have "list_all validate_id (ys_checked crashed_system @ active_ids crashed_system)" by code_simp
  ultimately have s: "stuck demo_dir ''a'' [''t1'', ''t2'', ''t3''] crashed_system"
    using crashed_filed unfolding stuck_def by blast
  show ?thesis
    by (rule crash_blocks_agent [OF s]) (simp_all add: hands_off_def demo_world_def demo_task_def demo_sorts [unfolded demo_world_def, simplified])
qed

end
