(* ===== verification/Task_Tools.thy ===== *)
theory Task_Tools
  imports Task_Executor Json_Canonical
begin

text \<open>
  The task tools an agent calls (pkg/tools/task.go) with the delegation rule of pkg/agent/loop.go:
  listing, creating with the depth check, updating and deleting tasks. Arguments are the decoded JSON
  object of the call; the caller, the channel and the chat come from the context; the numeric value of a
  JSON number is an argument; the text of an error about a file or an identifier is shortened. A completing update runs the executor's \<open>onTaskComplete\<close>, the callback
  that \<open>registerSharedTools\<close> installs. Results: an agent updates only tasks assigned to it, and creates
  only queued tasks for agents it may delegate to, at most ten levels deep.
\<close>

section \<open>Arguments and replies\<close>

datatype tool_reply = Tool_error string | Tool_text string | Tool_tasks "task_entity list"

record tool_context =
  tx_agent :: string
  tx_channel :: string
  tx_chat :: string

definition str_arg :: "(string \<times> json) list \<Rightarrow> string \<Rightarrow> string" where
  "str_arg args k = (case map_of args k of Some (JStr s) \<Rightarrow> s | _ \<Rightarrow> [])"

definition error_text :: "task_error \<Rightarrow> string" where
  "error_text e = (case e of
     Task_not_found \<Rightarrow> ''task not found'' | Invalid_id \<Rightarrow> ''invalid id''
   | Not_queued s \<Rightarrow> ''taskstore: new task must have status '' @ squote ''queued'' @ '', got '' @ go_quote s
   | Bad_priority n \<Rightarrow> ''taskstore: priority must be 1-5, got '' @ decimal n
   | Unknown_status s \<Rightarrow> ''taskstore: unknown status '' @ go_quote s
   | Invalid_transition s s' \<Rightarrow> ''taskstore: invalid transition '' @ go_quote s @ '' '' @ [CHR 0xE2, CHR 0x86, CHR 0x92] @ '' '' @ go_quote s'
   | _ \<Rightarrow> ''taskstore: file error'')"

section \<open>The tools\<close>

definition task_list_tool :: "exec_env \<Rightarrow> tool_context \<Rightarrow> (string \<times> json) list \<Rightarrow> exec_state \<Rightarrow> tool_reply \<times> exec_state" where
  "task_list_tool env x args st =
     (let role = str_arg args ''role'' in
      if role \<noteq> ''assignee'' \<and> role \<noteq> ''delegator'' then (Tool_error (''role must be '' @ squote ''assignee'' @ '' or '' @ squote ''delegator''), st)
      else (case store_list env \<lparr>tf_Status = str_arg args ''status'',
                tf_AgentID = (if role = ''assignee'' then tx_agent x else []),
                tf_CreatedBy = (if role = ''delegator'' then tx_agent x else []), tf_ParentTaskID = []\<rparr> st of
          (Inl e, st1) \<Rightarrow> (Tool_error (''task_list failed: '' @ error_text e), st1)
        | (Inr ts, st1) \<Rightarrow> (Tool_tasks ts, st1)))"

text \<open>\<open>buildDelegateChecker\<close>: the agent's own list, or the default one when it has none.\<close>

definition may_delegate :: "string list \<Rightarrow> string list \<Rightarrow> string \<Rightarrow> bool" where
  "may_delegate own defaults target \<longleftrightarrow>
     list_ex (\<lambda>a. a = ''*'' \<or> a = target) (if own \<noteq> [] then own else defaults)"

function check_depth :: "exec_env \<Rightarrow> string \<Rightarrow> nat \<Rightarrow> exec_state \<Rightarrow> string option \<times> exec_state" where
  "check_depth env parent depth st =
     (if depth \<ge> 10 then (Some ''maximum dependency depth exceeded (max 10)'', st)
      else (case store_get env parent st of
         (Inl e, st1) \<Rightarrow>
           (Some (if e = Task_not_found then ''parent task '' @ go_quote parent @ '' not found''
                  else ''could not load parent task: '' @ error_text e), st1)
       | (Inr t, st1) \<Rightarrow> if te_ParentTaskID t = [] then (None, st1) else check_depth env (te_ParentTaskID t) (depth + 1) st1))"
  by pat_completeness auto

termination by (relation "measure (\<lambda>(env, parent, depth, st). 10 - depth)") auto

declare check_depth.simps [simp del]

definition arg_priority :: "(string \<Rightarrow> real) \<Rightarrow> (string \<times> json) list \<Rightarrow> int" where
  "arg_priority number args = (case map_of args ''priority'' of
     Some (JNum s) \<Rightarrow> (if 1 \<le> number s \<and> number s \<le> 5 then \<lfloor>number s\<rfloor> else 3) | _ \<Rightarrow> 3)"

definition tool_entity :: "(string \<Rightarrow> real) \<Rightarrow> tool_context \<Rightarrow> (string \<times> json) list \<Rightarrow> task_entity" where
  "tool_entity number x args =
     \<lparr>te_ID = [], te_Title = str_arg args ''title'', te_Prompt = str_arg args ''prompt'', te_AgentID = str_arg args ''agent_id'',
      te_CreatedBy = tx_agent x, te_ParentTaskID = str_arg args ''parent_task_id'', te_Priority = arg_priority number args,
      te_Status = ''queued'', te_Result = [], te_Artifacts = [], te_SessionID = [], te_TriggerType = ''manual'',
      te_SourceChannel = (if tx_channel x \<noteq> [] \<and> tx_channel x \<noteq> ''webchat'' then tx_channel x else []),
      te_SourceChatID = (if tx_channel x \<noteq> [] \<and> tx_channel x \<noteq> ''webchat'' then tx_chat x else []),
      te_CreatedAt = 0, te_StartedAt = None, te_CompletedAt = None\<rparr>"

definition store_create :: "exec_env \<Rightarrow> task_entity \<Rightarrow> exec_state \<Rightarrow> (task_error + task_entity) \<times> exec_state" where
  "store_create env t st =
     (case create_task (xe_world env) (xe_dir env) t (xs_disk st) of (r, d) \<Rightarrow> (r, st\<lparr>xs_disk := d\<rparr>))"

definition task_create_tool :: "exec_env \<Rightarrow> (string \<Rightarrow> real) \<Rightarrow> (string \<Rightarrow> bool) option \<Rightarrow> tool_context \<Rightarrow>
    (string \<times> json) list \<Rightarrow> exec_state \<Rightarrow> tool_reply \<times> exec_state" where
  "task_create_tool env number delegate x args st =
     (if str_arg args ''title'' = [] then (Tool_error ''title is required'', st)
      else if str_arg args ''prompt'' = [] then (Tool_error ''prompt is required'', st)
      else if str_arg args ''agent_id'' = [] then (Tool_error ''agent_id is required'', st)
      else if (case delegate of None \<Rightarrow> False | Some allowed \<Rightarrow> \<not> allowed (str_arg args ''agent_id'')) then
        (Tool_error (''delegation to '' @ str_arg args ''agent_id'' @ '' not allowed''), st)
      else (case (if str_arg args ''parent_task_id'' = [] then (None, st)
                  else check_depth env (str_arg args ''parent_task_id'') 0 st) of
          (Some msg, st1) \<Rightarrow> (Tool_error msg, st1)
        | (None, st1) \<Rightarrow> (case store_create env (tool_entity number x args) st1 of
             (Inl e, st2) \<Rightarrow> (Tool_error (''task_create failed: '' @ error_text e), st2)
           | (Inr t, st2) \<Rightarrow>
               (Tool_text (''{'' @ go_quote ''task_id'' @ '':'' @ go_quote (te_ID t) @ '','' @ go_quote ''status'' @ '':'' @
                  go_quote ''queued'' @ ''}''), st2))))"

definition string_items :: "json list \<Rightarrow> string list" where
  "string_items js = concat (map (\<lambda>j. case j of JStr s \<Rightarrow> [s] | _ \<Rightarrow> []) js)"

definition tool_patch :: "time \<Rightarrow> (string \<times> json) list \<Rightarrow> task_patch" where
  "tool_patch now args =
     (let status = str_arg args ''status'' in
      empty_patch\<lparr>tp_Status := Some status,
        tp_Result := (if str_arg args ''result'' = [] then None else Some (str_arg args ''result'')),
        tp_Artifacts := (case map_of args ''artifacts'' of Some (JArr js) \<Rightarrow> Some (string_items js) | _ \<Rightarrow> None),
        tp_StartedAt := (if status = ''running'' then Some now else None),
        tp_CompletedAt := (if status = ''completed'' \<or> status = ''failed'' then Some now else None)\<rparr>)"

definition task_update_tool :: "exec_env \<Rightarrow> tool_context \<Rightarrow> (string \<times> json) list \<Rightarrow> exec_state \<Rightarrow> tool_reply \<times> exec_state" where
  "task_update_tool env x args st =
     (let i = str_arg args ''task_id''; status = str_arg args ''status'' in
      if tx_agent x = [] then (Tool_error ''agent ID not set in context; cannot verify task ownership'', st)
      else if i = [] then (Tool_error ''task_id is required'', st)
      else if status = [] then (Tool_error ''status is required'', st)
      else (case store_get env i st of
          (Inl e, st1) \<Rightarrow> (Tool_error (if e = Task_not_found then ''task '' @ go_quote i @ '' not found''
                            else ''could not load task: '' @ error_text e), st1)
        | (Inr t, st1) \<Rightarrow>
            if te_AgentID t \<noteq> tx_agent x then (Tool_error ''you can only update tasks assigned to you'', st1)
            else (case store_update env i (tool_patch (tw_now (xe_world env)) args) st1 of
                (Inl e, st2) \<Rightarrow> (Tool_error (''task_update failed: '' @ error_text e), st2)
              | (Inr u, st2) \<Rightarrow>
                  (Tool_text (''{'' @ go_quote ''task_id'' @ '':'' @ go_quote (te_ID u) @ '','' @ go_quote ''status'' @ '':'' @
                     go_quote (te_Status u) @ ''}''),
                   if status = ''completed'' \<or> status = ''failed'' then on_task_complete env u st2 else st2))))"

definition task_delete_tool :: "exec_env \<Rightarrow> (string \<times> json) list \<Rightarrow> exec_state \<Rightarrow> tool_reply \<times> exec_state" where
  "task_delete_tool env args st =
     (let i = str_arg args ''task_id'' in
      if i = [] then (Tool_error ''task_id is required'', st)
      else (case delete_task (xe_world env) (xe_dir env) i (xs_disk st) of
          (Some e, d) \<Rightarrow> (Tool_error (if e = Task_not_found then ''task '' @ go_quote i @ '' not found''
                            else ''could not delete task: '' @ error_text e), st\<lparr>xs_disk := d\<rparr>)
        | (None, d) \<Rightarrow> (Tool_text (''{'' @ go_quote ''deleted'' @ '':'' @ go_quote i @ ''}''), st\<lparr>xs_disk := d\<rparr>)))"

section \<open>Whose tasks a tool touches\<close>

lemma store_get_stored:
  assumes "filed (xe_dir env) (xs_disk st)" "store_get env i st = (r, st')"
  shows "filed (xe_dir env) (xs_disk st')" "stored_task (xe_dir env) (xs_disk st') = stored_task (xe_dir env) (xs_disk st)"
    "r = Inr t \<Longrightarrow> validate_id i \<and> stored_task (xe_dir env) (xs_disk st) i = Some t"
proof -
  show "filed (xe_dir env) (xs_disk st')" using advances_get [OF assms(2)] assms(1) by (simp add: advances_def)
  show "stored_task (xe_dir env) (xs_disk st') = stored_task (xe_dir env) (xs_disk st)"
    using assms(2) load_task_stores(2) [OF assms(1)] by (auto simp: store_get_def get_task_def split: prod.splits if_splits)
  show "r = Inr t \<Longrightarrow> validate_id i \<and> stored_task (xe_dir env) (xs_disk st) i = Some t"
    using store_get_Inr [of env i st t st'] assms by blast
qed

text \<open>
  C25. An agent's update call changes no task but the one it names, and that one only if it is
  assigned to the calling agent; the caller cannot be anonymous.
\<close>

theorem update_tool_own_task:
  assumes "filed (xe_dir env) (xs_disk st)"
  shows "case task_update_tool env x args st of (reply, st') \<Rightarrow>
    (\<forall>i. stored_task (xe_dir env) (xs_disk st') i = stored_task (xe_dir env) (xs_disk st) i \<or>
       (case stored_task (xe_dir env) (xs_disk st) i of
          None \<Rightarrow> False
        | Some t \<Rightarrow> i = str_arg args ''task_id'' \<and> te_AgentID t = tx_agent x \<and> tx_agent x \<noteq> []))"
proof -
  let ?i = "str_arg args ''task_id''" and ?p = "tool_patch (tw_now (xe_world env)) args" and ?dir = "xe_dir env"
  obtain g st1 where g: "store_get env ?i st = (g, st1)" by fastforce
  note s = store_get_stored [OF assms g]
  obtain u st2 where u: "store_update env ?i ?p st1 = (u, st2)" by fastforce
  show ?thesis
  proof (cases "tx_agent x = [] \<or> ?i = [] \<or> str_arg args ''status'' = []")
    case True
    then show ?thesis by (auto simp: task_update_tool_def Let_def)
  next
    case pre: False
    show ?thesis
    proof (cases g)
      case (Inl e)
      then show ?thesis using pre g s(2) by (auto simp: task_update_tool_def Let_def)
    next
      case (Inr t)
      note v = s(3) [OF Inr]
      show ?thesis
      proof (cases "te_AgentID t = tx_agent x")
        case False
        then show ?thesis using pre g s(2) Inr by (auto simp: task_update_tool_def Let_def)
      next
        case own: True
        obtain d where d: "update_task (xe_world env) ?dir ?i ?p (xs_disk st1) = (u, d)" "xs_disk st2 = d"
          using u by (auto simp: store_update_def split: prod.splits)
        have other: "stored_task ?dir (xs_disk st2) j = stored_task ?dir (xs_disk st) j" if "j \<noteq> ?i" for j
          using update_valid [OF s(1) _ d(1)] v s(2) d(2) that by auto
        have f2: "filed ?dir (xs_disk st2)" using update_task_stores(1) [OF s(1) d(1)] d(2) by simp
        have "stored_task ?dir (xs_disk (snd (task_update_tool env x args st))) = stored_task ?dir (xs_disk st2)"
          using pre g Inr own u on_complete_effects [OF f2] by (auto simp: task_update_tool_def Let_def split: sum.splits)
        then have same: "stored_task ?dir (xs_disk (snd (task_update_tool env x args st))) j = stored_task ?dir (xs_disk st) j"
          if "j \<noteq> ?i" for j using other [OF that] by simp
        obtain reply st' where r: "task_update_tool env x args st = (reply, st')" by fastforce
        have "stored_task ?dir (xs_disk st') j = stored_task ?dir (xs_disk st) j \<or>
            (case stored_task ?dir (xs_disk st) j of None \<Rightarrow> False
             | Some t \<Rightarrow> j = ?i \<and> te_AgentID t = tx_agent x \<and> tx_agent x \<noteq> [])" for j
          using same [of j] v own pre r by (cases "j = ?i") simp_all
        then show ?thesis unfolding r by simp
      qed
    qed
  qed
qed

section \<open>Delegation and depth\<close>

text \<open>The task exists and has at most \<open>n\<close> tasks in its line of parents, itself included.\<close>

fun lineage :: "(string \<Rightarrow> task_entity option) \<Rightarrow> string \<Rightarrow> nat \<Rightarrow> bool" where
  "lineage S i 0 \<longleftrightarrow> False"
| "lineage S i (Suc n) \<longleftrightarrow>
     (case S i of None \<Rightarrow> False | Some t \<Rightarrow> te_ParentTaskID t = [] \<or> lineage S (te_ParentTaskID t) n)"

lemma check_depth_lineage:
  "check_depth env i depth st = (r, st') \<Longrightarrow> filed (xe_dir env) (xs_disk st) \<Longrightarrow>
   filed (xe_dir env) (xs_disk st') \<and> stored_task (xe_dir env) (xs_disk st') = stored_task (xe_dir env) (xs_disk st) \<and>
   (r = None \<longrightarrow> lineage (stored_task (xe_dir env) (xs_disk st)) i (10 - depth))"
proof (induction env i depth st rule: check_depth.induct)
  case (1 env i depth st)
  show ?case
  proof (cases "10 \<le> depth")
    case True
    then show ?thesis using "1.prems" by (subst (asm) check_depth.simps) auto
  next
    case False
    then obtain n where n: "10 - depth = Suc n" by (metis Suc_diff_Suc not_le)
    obtain g st1 where g: "store_get env i st = (g, st1)" by fastforce
    note s = store_get_stored [OF "1.prems"(2) g]
    show ?thesis
    proof (cases g)
      case (Inl e)
      then show ?thesis using "1.prems"(1) False g s by (subst (asm) check_depth.simps) auto
    next
      case (Inr t)
      show ?thesis
      proof (cases "te_ParentTaskID t = []")
        case True
        then show ?thesis using "1.prems"(1) False g s Inr n by (subst (asm) check_depth.simps) auto
      next
        case deep: False
        then have c: "check_depth env (te_ParentTaskID t) (depth + 1) st1 = (r, st')"
          using "1.prems"(1) False g Inr by (subst (asm) check_depth.simps) auto
        have "10 - (depth + 1) = n" using n by simp
        then show ?thesis using "1.IH" [OF False g [symmetric] Inr deep c s(1)] s(2,3) Inr n by simp
      qed
    qed
  qed
qed

text \<open>
  An agent's create call changes no existing task unless its identifier is drawn again; the task it
  adds is queued, for an agent the caller may delegate to, and either has no parent or a stored parent
  with at most ten tasks in its line of parents.
\<close>

theorem create_tool_delegates:
  assumes "filed (xe_dir env) (xs_disk st)"
  shows "case task_create_tool env number (Some (may_delegate own defaults)) x args st of (reply, st') \<Rightarrow>
    stored_task (xe_dir env) (xs_disk st') = stored_task (xe_dir env) (xs_disk st) \<or>
    (\<exists>t. stored_task (xe_dir env) (xs_disk st') = (stored_task (xe_dir env) (xs_disk st))(tw_uuid (xe_world env) \<mapsto> t) \<and>
       te_Status t = ''queued'' \<and> te_AgentID t = str_arg args ''agent_id'' \<and> may_delegate own defaults (te_AgentID t) \<and>
       (te_ParentTaskID t = [] \<or> lineage (stored_task (xe_dir env) (xs_disk st)) (te_ParentTaskID t) 10))"
proof -
  let ?dir = "xe_dir env" and ?parent = "str_arg args ''parent_task_id''" and ?e = "tool_entity number x args"
  let ?check = "if ?parent = [] then (None, st) else check_depth env ?parent 0 st"
  obtain r st1 where c: "?check = (r, st1)" by fastforce
  have s: "filed ?dir (xs_disk st1)" "stored_task ?dir (xs_disk st1) = stored_task ?dir (xs_disk st)"
    "r = None \<Longrightarrow> ?parent = [] \<or> lineage (stored_task ?dir (xs_disk st)) ?parent 10"
    using c assms check_depth_lineage [of env ?parent 0 st r st1] by (auto split: if_splits)
  obtain q d where q: "create_task (xe_world env) ?dir ?e (xs_disk st1) = (q, d)" by fastforce
  note w = create_task_stores [OF s(1) q]
  show ?thesis
  proof (cases "str_arg args ''title'' = [] \<or> str_arg args ''prompt'' = [] \<or> str_arg args ''agent_id'' = [] \<or>
      \<not> may_delegate own defaults (str_arg args ''agent_id'')")
    case True
    then show ?thesis by (auto simp: task_create_tool_def)
  next
    case pre: False
    show ?thesis
    proof (cases r)
      case (Some msg)
      then show ?thesis using pre c s(2) by (simp add: task_create_tool_def)
    next
      case None
      show ?thesis
      proof (cases q)
        case (Inl e)
        then show ?thesis using pre c None q w(2) s(2) by (simp add: task_create_tool_def store_create_def)
      next
        case (Inr t)
        note n = new_task_Inr(1,4) [OF w(3) [OF Inr]]
        have t: "te_AgentID t = str_arg args ''agent_id''" "te_ParentTaskID t = ?parent"
          using w(3) [OF Inr] by (auto simp: new_task_def Let_def tool_entity_def split: if_splits)
        have "te_ID ?e = []" by (simp add: tool_entity_def)
        then have "stored_task ?dir d = (stored_task ?dir (xs_disk st))(tw_uuid (xe_world env) \<mapsto> t)"
          using w(2) Inr s(2) n(1) by simp
        then show ?thesis using pre c None q Inr n(2) t s(3) by (auto simp: task_create_tool_def store_create_def)
      qed
    qed
  qed
qed

section \<open>Concrete calls\<close>

definition demo_caller :: tool_context where
  "demo_caller = \<lparr>tx_agent = ''b'', tx_channel = ''telegram'', tx_chat = ''42''\<rparr>"

theorem update_tool_own_task_witness:
  "case task_update_tool demo_env demo_caller [(''task_id'', JStr ''t1''), (''status'', JStr ''completed'')] (ys_state demo_system) of
     (reply, st') \<Rightarrow> stored_task demo_dir (xs_disk st') ''t1'' = stored_task demo_dir demo_disk ''t1''"
proof -
  have f: "filed (xe_dir demo_env) (xs_disk (ys_state demo_system))" using demo_disk_props(1) by (simp add: demo_system_def)
  have d: "xs_disk (ys_state demo_system) = demo_disk" by (simp add: demo_system_def)
  obtain reply st' where r: "task_update_tool demo_env demo_caller [(''task_id'', JStr ''t1''), (''status'', JStr ''completed'')]
    (ys_state demo_system) = (reply, st')" by fastforce
  show ?thesis
    using update_tool_own_task [OF f, where x = demo_caller and args = "[(''task_id'', JStr ''t1''), (''status'', JStr ''completed'')]",
      unfolded r prod.case, THEN spec [of _ "''t1''"]] demo_disk_props(2)
    unfolding r prod.case by (simp add: d demo_caller_def demo_task_def)
qed

theorem create_tool_delegates_witness:
  "case task_create_tool demo_env (\<lambda>s. 4.5) (Some (may_delegate [''a''] [])) demo_caller
      [(''title'', JStr ''x''), (''prompt'', JStr ''y''), (''agent_id'', JStr ''a''), (''parent_task_id'', JStr ''t1'')] (ys_state demo_system) of
     (reply, st') \<Rightarrow> (case stored_task demo_dir (xs_disk st') ''t2'' of None \<Rightarrow> True | Some t \<Rightarrow> te_AgentID t = ''a'')"
proof -
  have f: "filed (xe_dir demo_env) (xs_disk (ys_state demo_system))" using demo_disk_props(1) by (simp add: demo_system_def)
  have "stored_task demo_dir (xs_disk (ys_state demo_system)) ''t2'' = None" by code_simp
  then show ?thesis
    using create_tool_delegates [OF f, where number = "\<lambda>s. 4.5" and own = "[''a'']" and defaults = "[]" and x = demo_caller and
      args = "[(''title'', JStr ''x''), (''prompt'', JStr ''y''), (''agent_id'', JStr ''a''), (''parent_task_id'', JStr ''t1'')]"]
    by (auto simp: str_arg_def demo_world_def)
qed

end
