(* ===== verification/Task_Api.thy ===== *)
theory Task_Api
  imports Task_Tools Schedules_Rest Approval_Api
begin

text \<open>
  The endpoint \<open>/api/v1/tasks\<close> (pkg/gateway/rest.go): its dispatcher and the handlers behind it, over
  the task store. Query parameters, the request decoders, the text of a time and the schema switch are
  arguments; a start is answered before the goroutine it spawns runs, so the handler returns the identifiers to be
  started. Result: no request can break the life of a task, and only a DELETE of it removes one.
\<close>

section \<open>Tasks on the wire\<close>

definition opt_time :: "(time \<Rightarrow> string) \<Rightarrow> string \<Rightarrow> time option \<Rightarrow> (string \<times> json) list" where
  "opt_time show_time name t = (case t of None \<Rightarrow> [] | Some x \<Rightarrow> [(name, JStr (show_time x))])"

definition task_json :: "(time \<Rightarrow> string) \<Rightarrow> task_entity \<Rightarrow> (string \<times> json) list" where
  "task_json show_time t =
     [(''id'', JStr (te_ID t)), (''title'', JStr (te_Title t)), (''prompt'', JStr (te_Prompt t)),
      (''agent_id'', JStr (te_AgentID t)), (''created_by'', JStr (te_CreatedBy t))] @
     opt_str ''parent_task_id'' (te_ParentTaskID t) @
     [(''priority'', JNum (decimal (te_Priority t))), (''status'', JStr (te_Status t))] @ opt_str ''result'' (te_Result t) @
     (if te_Artifacts t = [] then [] else [(''artifacts'', JArr (map JStr (te_Artifacts t)))]) @
     opt_str ''session_id'' (te_SessionID t) @ [(''trigger_type'', JStr (te_TriggerType t))] @
     opt_str ''source_channel'' (te_SourceChannel t) @ opt_str ''source_chat_id'' (te_SourceChatID t) @
     [(''created_at'', JStr (show_time (te_CreatedAt t)))] @ opt_time show_time ''started_at'' (te_StartedAt t) @
     opt_time show_time ''completed_at'' (te_CompletedAt t)"

record task_create_request =
  cr_Title :: string
  cr_Name :: "string option"
  cr_Prompt :: "string option"
  cr_Description :: "string option"
  cr_AgentId :: "string option"
  cr_Priority :: "int option"
  cr_ParentTaskId :: "string option"
  cr_TriggerType :: "string option"

record task_update_request =
  ur_Title :: "string option"
  ur_Name :: "string option"
  ur_Result :: "string option"
  ur_Description :: "string option"
  ur_Status :: "string option"
  ur_Artifacts :: "string list option"
  ur_AgentId :: "string option"
  ur_Priority :: "int option"
  ur_StartedAt :: "time option"
  ur_CompletedAt :: "time option"

record task_api =
  ta_world :: task_world
  ta_dir :: path
  ta_query :: "http_request \<Rightarrow> string \<Rightarrow> string"
  ta_validate :: bool
  ta_create :: "task_create_request body_codec"
  ta_update :: "task_update_request body_codec"
  ta_show_time :: "time \<Rightarrow> string"
  ta_executor :: bool

definition json_reply :: "int \<Rightarrow> json \<Rightarrow> http_reply" where
  "json_reply status body =
     \<lparr>rs_status = status, rs_headers = [(''Content-Type'', ''application/json'')], rs_cookies = [], rs_body = body\<rparr>"

section \<open>Handlers\<close>

definition reply_tasks :: "task_api \<Rightarrow> string \<Rightarrow> task_filter \<Rightarrow> task_disk \<Rightarrow> http_reply \<times> task_disk" where
  "reply_tasks a what f disk =
     (case list_tasks (ta_world a) (ta_dir a) f disk of
        (Inl e, d) \<Rightarrow> (json_err 500 (''could not list '' @ what @ '': '' @ error_text e), d)
      | (Inr ts, d) \<Rightarrow> (json_reply 200 (JArr (map (\<lambda>t. JObj (task_json (ta_show_time a) t)) ts)), d))"

definition rest_list_tasks :: "task_api \<Rightarrow> http_request \<Rightarrow> task_disk \<Rightarrow> http_reply \<times> task_disk" where
  "rest_list_tasks a r disk =
     reply_tasks a ''tasks'' \<lparr>tf_Status = ta_query a r ''status'', tf_AgentID = ta_query a r ''agent_id'', tf_CreatedBy = [],
       tf_ParentTaskID = []\<rparr> disk"

definition read_failure :: "string \<Rightarrow> task_error \<Rightarrow> http_reply" where
  "read_failure i e =
     (if e = Task_not_found then json_err 404 (''task '' @ go_quote i @ '' not found'')
      else json_err 500 (''could not read task: '' @ error_text e))"

definition rest_get_task :: "task_api \<Rightarrow> string \<Rightarrow> task_disk \<Rightarrow> http_reply \<times> task_disk" where
  "rest_get_task a i disk =
     (if \<not> valid_entity_id i then (json_err 400 ''invalid task ID'', disk)
      else (case get_task (ta_world a) (ta_dir a) i disk of
         (Inl e, d) \<Rightarrow> (read_failure i e, d) | (Inr t, d) \<Rightarrow> (json_ok (task_json (ta_show_time a) t), d)))"

definition request_entity :: "task_create_request \<Rightarrow> http_reply + task_entity" where
  "request_entity b =
     (let title = (if cr_Title b = [] then or_else [] (cr_Name b) else cr_Title b);
          prompt = (if or_else [] (cr_Prompt b) = [] then or_else [] (cr_Description b) else or_else [] (cr_Prompt b))
      in if title = [] then Inl (json_err 422 ''title is required'')
         else Inr \<lparr>te_ID = [], te_Title = title, te_Prompt = prompt, te_AgentID = or_else [] (cr_AgentId b),
           te_CreatedBy = ''user'', te_ParentTaskID = or_else [] (cr_ParentTaskId b),
           te_Priority = (if or_else 0 (cr_Priority b) = 0 then 3 else or_else 0 (cr_Priority b)),
           te_Status = ''queued'', te_Result = [], te_Artifacts = [], te_SessionID = [],
           te_TriggerType = (if or_else [] (cr_TriggerType b) = [] then ''manual'' else or_else [] (cr_TriggerType b)),
           te_SourceChannel = [], te_SourceChatID = [], te_CreatedAt = 0, te_StartedAt = None, te_CompletedAt = None\<rparr>)"

definition rest_create_task :: "task_api \<Rightarrow> http_request \<Rightarrow> task_disk \<Rightarrow> http_reply \<times> task_disk" where
  "rest_create_task a r disk =
     (case decode_and_validate (ta_create a) ''TaskCreateRequest'' (ta_validate a) r of
        Inl reply \<Rightarrow> (reply, disk)
      | Inr b \<Rightarrow> (case request_entity b of
          Inl reply \<Rightarrow> (reply, disk)
        | Inr t0 \<Rightarrow> (case create_task (ta_world a) (ta_dir a) t0 disk of
            (Inl e, d) \<Rightarrow> (json_err 500 (''could not save task: '' @ error_text e), d)
          | (Inr t, d) \<Rightarrow> (json_reply 201 (JObj (task_json (ta_show_time a) t)), d))))"

definition request_patch :: "task_update_request \<Rightarrow> task_patch" where
  "request_patch b = empty_patch\<lparr>tp_Status := ur_Status b,
     tp_Result := (if ur_Result b = None then ur_Description b else ur_Result b), tp_Artifacts := ur_Artifacts b,
     tp_Title := (if ur_Title b = None then ur_Name b else ur_Title b), tp_AgentID := ur_AgentId b,
     tp_Priority := ur_Priority b, tp_StartedAt := ur_StartedAt b, tp_CompletedAt := ur_CompletedAt b\<rparr>"

definition rest_update_task :: "task_api \<Rightarrow> http_request \<Rightarrow> string \<Rightarrow> task_disk \<Rightarrow> http_reply \<times> task_disk" where
  "rest_update_task a r i disk =
     (if \<not> valid_entity_id i then (json_err 400 ''invalid task ID'', disk)
      else (case decode_and_validate (ta_update a) ''TaskUpdateRequest'' (ta_validate a) r of
         Inl reply \<Rightarrow> (reply, disk)
       | Inr b \<Rightarrow> (case update_task (ta_world a) (ta_dir a) i (request_patch b) disk of
           (Inl e, d) \<Rightarrow> (if e = Task_not_found then json_err 404 (''task '' @ go_quote i @ '' not found'')
                          else json_err 422 (''could not update task: '' @ error_text e), d)
         | (Inr t, d) \<Rightarrow> (json_ok (task_json (ta_show_time a) t), d))))"

definition rest_list_subtasks :: "task_api \<Rightarrow> string \<Rightarrow> task_disk \<Rightarrow> http_reply \<times> task_disk" where
  "rest_list_subtasks a i disk =
     (if \<not> valid_entity_id i then (json_err 400 ''invalid task ID'', disk)
      else reply_tasks a ''subtasks'' (children_of i) disk)"

definition rest_start_task :: "task_api \<Rightarrow> string \<Rightarrow> task_disk \<Rightarrow> http_reply \<times> task_disk \<times> string list" where
  "rest_start_task a i disk =
     (if \<not> valid_entity_id i then (json_err 400 ''invalid task ID'', disk, [])
      else (case get_task (ta_world a) (ta_dir a) i disk of
         (Inl e, d) \<Rightarrow> (read_failure i e, d, [])
       | (Inr t, d) \<Rightarrow>
           if te_Status t \<noteq> ''queued'' then
             (json_err 422 (''task is '' @ te_Status t @ '', only queued tasks can be started''), d, [])
           else if \<not> ta_executor a then (json_err 503 ''task executor not available'', d, [])
           else (json_reply 202 (JObj [(''task_id'', JStr i), (''status'', JStr ''accepted'')]), d, [i])))"

definition rest_delete_task :: "task_api \<Rightarrow> string \<Rightarrow> task_disk \<Rightarrow> http_reply \<times> task_disk" where
  "rest_delete_task a i disk =
     (if \<not> valid_entity_id i then (json_err 400 ''invalid task id'', disk)
      else (case delete_task (ta_world a) (ta_dir a) i disk of
         (Some e, d) \<Rightarrow> (if e = Task_not_found then json_err 404 ''task not found''
                          else json_err 500 (''could not delete task: '' @ error_text e), d)
       | (None, d) \<Rightarrow> (json_ok [(''deleted'', JStr i)], d)))"

abbreviation not_allowed :: http_reply where "not_allowed \<equiv> json_err 405 ''method not allowed''"

definition and_no_start :: "http_reply \<times> task_disk \<Rightarrow> http_reply \<times> task_disk \<times> string list" where
  "and_no_start p = (fst p, snd p, [])"

definition request_task :: "http_request \<Rightarrow> string" where
  "request_task r = trim_prefix (trim_prefix (trim_suffix (rq_Path r) ''/'') ''/api/v1/tasks'') ''/''"

definition handle_tasks :: "task_api \<Rightarrow> http_request \<Rightarrow> task_disk \<Rightarrow> http_reply \<times> task_disk \<times> string list" where
  "handle_tasks a r disk =
     (let rest = request_task r in
      if suffix ''/subtasks'' rest then
        (if rq_Method r \<noteq> ''GET'' then (not_allowed, disk, [])
         else and_no_start (rest_list_subtasks a (trim_suffix rest ''/subtasks'') disk))
      else if suffix ''/start'' rest then
        (if rq_Method r \<noteq> ''POST'' then (not_allowed, disk, []) else rest_start_task a (trim_suffix rest ''/start'') disk)
      else if rq_Method r = ''GET'' then
        and_no_start (if rest = [] then rest_list_tasks a r disk else rest_get_task a rest disk)
      else if rq_Method r = ''POST'' then
        (if rest \<noteq> [] then (not_allowed, disk, []) else and_no_start (rest_create_task a r disk))
      else if rq_Method r = ''PUT'' then
        (if rest = [] then (not_allowed, disk, []) else and_no_start (rest_update_task a r rest disk))
      else if rq_Method r = ''DELETE'' then
        (if rest = [] then (not_allowed, disk, []) else and_no_start (rest_delete_task a rest disk))
      else (not_allowed, disk, []))"

section \<open>What a request does to a task\<close>

lemma valid_entity_id_same: "valid_entity_id i \<longleftrightarrow> validate_id i"
  by (simp add: valid_entity_id_def validate_id_def)

definition tame_request :: "path \<Rightarrow> string \<Rightarrow> task_disk \<Rightarrow> task_disk \<Rightarrow> bool" where
  "tame_request dir i d d' \<longleftrightarrow> filed dir d' \<and>
     (case stored_task dir d i of
        None \<Rightarrow> True
      | Some t \<Rightarrow> (case stored_task dir d' i of None \<Rightarrow> False | Some t' \<Rightarrow> (te_Status t, te_Status t') \<in> moves\<^sup>=))"

lemma tame_refl: "filed dir d \<Longrightarrow> tame_request dir i d d"
  by (simp add: tame_request_def split: option.split)

lemma tame_op:
  assumes "filed dir d" "keeps_id i (w, op)"
  shows "stored_task dir d i = Some t \<Longrightarrow> tame_request dir i d (run_task_op w dir op d)"
  using run_task_op_keeps [OF assms(1) _ assms(2)] by (fastforce simp: tame_request_def)

text \<open>
  After any request to the task endpoint a stored task is still stored, with the same status or one
  its old status may move to, unless the request is a DELETE of that very task (an identifier is never drawn
  twice); in particular a finished task is never reopened.
\<close>

theorem task_requests_respect_lifecycle:
  assumes "filed (ta_dir a) disk" "stored_task (ta_dir a) disk i = Some t" "tw_uuid (ta_world a) \<noteq> i"
  shows "case handle_tasks a r disk of (reply, disk', starts) \<Rightarrow>
    (case stored_task (ta_dir a) disk' i of
       None \<Rightarrow> rq_Method r = ''DELETE'' \<and> request_task r = i \<and> rs_status reply = 200
     | Some t' \<Rightarrow> (te_Status t, te_Status t') \<in> moves\<^sup>=)"
proof -
  let ?dir = "ta_dir a" and ?w = "ta_world a"
  have keep: "tame_request ?dir i disk (run_task_op ?w ?dir op disk)" if "keeps_id i (?w, op)" for op
    by (rule tame_op [OF assms(1) that assms(2)])
  note refl = tame_refl [OF assms(1), of i]
  have lst: "tame_request ?dir i disk (snd (reply_tasks a what f disk))" for what f
    using keep [of "Op_list f"] by (auto simp: reply_tasks_def run_task_op_def keeps_id_def creates_other_def split: prod.splits sum.splits)
  have get: "tame_request ?dir i disk (snd (rest_get_task a j disk))" for j
    using keep [of "Op_get j"] refl by (auto simp: rest_get_task_def run_task_op_def keeps_id_def creates_other_def split: prod.splits sum.splits)
  have start: "tame_request ?dir i disk d" if "rest_start_task a j disk = (q, d, ss)" for j q d ss
    using keep [of "Op_get j"] refl that
    by (auto simp: rest_start_task_def run_task_op_def keeps_id_def creates_other_def split: prod.splits sum.splits if_splits)
  have new: "te_ID t0 = []" if "request_entity b = Inr t0" for b t0
    using that by (auto simp: request_entity_def Let_def split: if_splits)
  have create: "tame_request ?dir i disk (snd (rest_create_task a r disk))"
  proof (cases "decode_and_validate (ta_create a) ''TaskCreateRequest'' (ta_validate a) r")
    case (Inr b)
    show ?thesis
    proof (cases "request_entity b")
      case b: (Inr t0)
      show ?thesis using keep [of "Op_create t0"] new [OF b] assms(3) Inr b
        by (auto simp: rest_create_task_def run_task_op_def keeps_id_def creates_other_def split: prod.splits sum.splits)
    qed (use Inr refl in \<open>simp add: rest_create_task_def\<close>)
  qed (use refl in \<open>simp add: rest_create_task_def\<close>)
  have update: "tame_request ?dir i disk (snd (rest_update_task a r j disk))" for j
  proof (cases "decode_and_validate (ta_update a) ''TaskUpdateRequest'' (ta_validate a) r")
    case (Inr b)
    then show ?thesis using keep [of "Op_update j (request_patch b)"] refl
      by (auto simp: rest_update_task_def run_task_op_def keeps_id_def creates_other_def split: prod.splits sum.splits)
  qed (use refl in \<open>simp add: rest_update_task_def\<close>)
  have delete: "tame_request ?dir i disk (snd (rest_delete_task a j disk)) \<or> j = i \<and> rs_status (fst (rest_delete_task a j disk)) = 200 \<and>
      stored_task ?dir (snd (rest_delete_task a j disk)) i = None" for j
  proof (cases "j = i")
    case True
    show ?thesis
    proof (cases "delete_task ?w ?dir i disk")
      case (Pair e d)
      show ?thesis
      proof (cases e)
        case None
        then show ?thesis using True Pair refl delete_task_stores(2) [OF assms(1) Pair]
          by (simp add: rest_delete_task_def json_ok_def)
      next
        case (Some x)
        then have "d = disk" using Pair by (auto simp: delete_task_def split: if_splits)
        then show ?thesis using True Pair Some refl by (simp add: rest_delete_task_def)
      qed
    qed
  next
    case False
    then show ?thesis using keep [of "Op_delete j"] refl
      by (auto simp: rest_delete_task_def run_task_op_def keeps_id_def creates_other_def split: prod.splits option.splits)
  qed
  obtain reply disk' starts where h: "handle_tasks a r disk = (reply, disk', starts)" by (cases "handle_tasks a r disk") auto
  have "tame_request ?dir i disk disk' \<or> rq_Method r = ''DELETE'' \<and> request_task r = i \<and> rs_status reply = 200 \<and> stored_task ?dir disk' i = None"
    using h refl lst get create update delete [of "request_task r"]
    by (auto dest: start simp: handle_tasks_def Let_def and_no_start_def rest_list_subtasks_def rest_list_tasks_def split: if_splits)
  then show ?thesis using h assms(2) by (auto simp: tame_request_def split: option.splits)
qed

definition demo_task_api :: task_api where
  "demo_task_api = \<lparr>ta_world = demo_world ''t2'', ta_dir = demo_dir, ta_query = (\<lambda>r k. []), ta_validate = False,
     ta_create = \<lparr>bc_read = (\<lambda>r. None), bc_schema = (\<lambda>s. ([], False)), bc_decode = (\<lambda>s. None), bc_unmarshal = (\<lambda>s. None)\<rparr>,
     ta_update = \<lparr>bc_read = (\<lambda>r. Some []), bc_schema = (\<lambda>s. ([], False)),
       bc_decode = (\<lambda>s. Some \<lparr>ur_Title = None, ur_Name = None, ur_Result = None, ur_Description = None, ur_Status = Some ''running'',
         ur_Artifacts = None, ur_AgentId = None, ur_Priority = None, ur_StartedAt = None, ur_CompletedAt = None\<rparr>),
       bc_unmarshal = (\<lambda>s. None)\<rparr>,
     ta_show_time = (\<lambda>t. []), ta_executor = True\<rparr>"

definition demo_put :: http_request where
  "demo_put = \<lparr>rq_Method = ''PUT'', rq_Path = ''/api/v1/tasks/t1'', rq_Header = [], rq_Cookies = [], rq_TLS = True,
     rq_RemoteAddr = [], rq_Host = [], rq_Body = [], rq_body_limit = None, rq_role = None, rq_user = None, rq_config = None\<rparr>"

theorem task_requests_respect_lifecycle_witness:
  "case handle_tasks demo_task_api demo_put demo_disk of (reply, disk', starts) \<Rightarrow>
    (case stored_task demo_dir disk' ''t1'' of None \<Rightarrow> False | Some t' \<Rightarrow> (''queued'', te_Status t') \<in> moves\<^sup>=)"
proof -
  have d: "ta_dir demo_task_api = demo_dir" "tw_uuid (ta_world demo_task_api) \<noteq> ''t1''"
    by (simp_all add: demo_task_api_def demo_world_def)
  have p: "rq_Method demo_put \<noteq> ''DELETE''" by (simp add: demo_put_def)
  have q: "te_Status (demo_task\<lparr>te_ID := ''t1'', te_Status := ''queued'', te_Priority := 3, te_TriggerType := ''manual'', te_CreatedAt := 7\<rparr>) = ''queued''"
    by simp
  from task_requests_respect_lifecycle [of demo_task_api demo_disk "''t1''", unfolded d(1), OF demo_disk_props d(2), of demo_put]
  show ?thesis unfolding q using p by (auto split: prod.splits option.splits)
qed

end
