(* ===== verification/Steering.thy ===== *)
theory Steering
  imports Go_Prelude
begin

text \<open>
  The steering queue (pkg/agent/steering.go): messages a user sends while a turn runs, queued per scope and
  injected between tool calls or after the turn. A queue holds at most ten messages; a poll takes the first or,
  in the other mode, all of them. Messages are of any type. Result: per scope the queue is a bounded first-in
  first-out buffer, whatever happens to the other scopes and to the mode.
\<close>

section \<open>The queue\<close>

datatype steering_mode = SteeringOneAtATime | SteeringAll

record 'm steering_queue =
  sq_queues :: "(string, 'm list) gomap"
  sq_mode :: steering_mode

abbreviation MaxQueueSize :: nat where "MaxQueueSize \<equiv> 10"
abbreviation manual_scope :: string where "manual_scope \<equiv> ''__manual__''"

definition parse_steering_mode :: "string \<Rightarrow> steering_mode" where
  "parse_steering_mode s = (if s = ''all'' then SteeringAll else SteeringOneAtATime)"

definition new_steering_queue :: "steering_mode \<Rightarrow> 'm steering_queue" where
  "new_steering_queue mode = \<lparr>sq_queues = [], sq_mode = mode\<rparr>"

definition normalize_steering_scope :: "string \<Rightarrow> string" where
  "normalize_steering_scope scope = (if trim_space scope = [] then manual_scope else trim_space scope)"

definition queued :: "string \<Rightarrow> 'm steering_queue \<Rightarrow> 'm list" where
  "queued scope sq = (case map_of (sq_queues sq) scope of None \<Rightarrow> [] | Some ms \<Rightarrow> ms)"

text \<open>\<open>pushScope\<close>: whether the message was taken.\<close>

definition push_scope :: "string \<Rightarrow> 'm \<Rightarrow> 'm steering_queue \<Rightarrow> bool \<times> 'm steering_queue" where
  "push_scope scope m sq =
     (let s = normalize_steering_scope scope; q = queued s sq
      in if MaxQueueSize \<le> length q then (False, sq)
         else (True, sq\<lparr>sq_queues := AList.update s (q @ [m]) (sq_queues sq)\<rparr>))"

definition push_manual :: "'m \<Rightarrow> 'm steering_queue \<Rightarrow> bool \<times> 'm steering_queue" where
  "push_manual m sq = push_scope manual_scope m sq"

definition dequeue_locked :: "string \<Rightarrow> 'm steering_queue \<Rightarrow> 'm list \<times> 'm steering_queue" where
  "dequeue_locked s sq =
     (case queued s sq of
        [] \<Rightarrow> ([], sq)
      | m # ms \<Rightarrow>
          (case sq_mode sq of
             SteeringAll \<Rightarrow> (m # ms, sq\<lparr>sq_queues := AList.delete s (sq_queues sq)\<rparr>)
           | SteeringOneAtATime \<Rightarrow>
               ([m], sq\<lparr>sq_queues := (if ms = [] then AList.delete s (sq_queues sq) else AList.update s ms (sq_queues sq))\<rparr>)))"

definition dequeue_scope :: "string \<Rightarrow> 'm steering_queue \<Rightarrow> 'm list \<times> 'm steering_queue" where
  "dequeue_scope scope sq = dequeue_locked (normalize_steering_scope scope) sq"

definition dequeue_manual :: "'m steering_queue \<Rightarrow> 'm list \<times> 'm steering_queue" where
  "dequeue_manual sq = dequeue_scope manual_scope sq"

definition dequeue_with_fallback :: "string \<Rightarrow> 'm steering_queue \<Rightarrow> 'm list \<times> 'm steering_queue" where
  "dequeue_with_fallback scope sq =
     (let s = trim_space scope in
      if s \<noteq> [] \<and> queued s sq \<noteq> [] then dequeue_locked s sq else dequeue_locked manual_scope sq)"

definition steering_len :: "'m steering_queue \<Rightarrow> nat" where
  "steering_len sq = sum_list (map (length \<circ> snd) (sq_queues sq))"

definition len_scope :: "string \<Rightarrow> 'm steering_queue \<Rightarrow> nat" where
  "len_scope scope sq = length (queued (normalize_steering_scope scope) sq)"

definition set_mode :: "steering_mode \<Rightarrow> 'm steering_queue \<Rightarrow> 'm steering_queue" where
  "set_mode mode sq = sq\<lparr>sq_mode := mode\<rparr>"

section \<open>The contract of a queue per key\<close>

text \<open>
  Keys that \<open>norm\<close> maps to the same name share a buffer. Pushing appends to it or refuses, popping takes from its
  front, and neither touches the other buffers.
\<close>

locale keyed_fifo =
  fixes norm :: "string \<Rightarrow> string"
    and contents :: "string \<Rightarrow> 'q \<Rightarrow> 'm list"
    and push :: "string \<Rightarrow> 'm \<Rightarrow> 'q \<Rightarrow> bool \<times> 'q"
    and pop :: "string \<Rightarrow> 'q \<Rightarrow> 'm list \<times> 'q"
    and bound :: nat
  assumes push_contents: "push k m q = (ok, q') \<Longrightarrow>
      contents k' q' = (if ok \<and> norm k' = norm k then contents k q @ [m] else contents k' q)"
    and push_accepts: "push k m q = (ok, q') \<Longrightarrow> ok \<longleftrightarrow> length (contents k q) < bound"
    and pop_contents: "pop k q = (ms, q') \<Longrightarrow> contents k' q = (if norm k' = norm k then ms else []) @ contents k' q'"
    and same_key: "norm k' = norm k \<Longrightarrow> contents k' q = contents k q"
begin

text \<open>What a history of pushes and pops accepted and delivered under a key, and where it ends.\<close>

fun accepted :: "string \<Rightarrow> (string \<times> 'm option) list \<Rightarrow> 'q \<Rightarrow> 'm list" where
  "accepted k [] q = []"
| "accepted k ((k', Some m) # es) q =
     (if fst (push k' m q) \<and> norm k = norm k' then [m] else []) @ accepted k es (snd (push k' m q))"
| "accepted k ((k', None) # es) q = accepted k es (snd (pop k' q))"

fun delivered :: "string \<Rightarrow> (string \<times> 'm option) list \<Rightarrow> 'q \<Rightarrow> 'm list" where
  "delivered k [] q = []"
| "delivered k ((k', Some m) # es) q = delivered k es (snd (push k' m q))"
| "delivered k ((k', None) # es) q = (if norm k = norm k' then fst (pop k' q) else []) @ delivered k es (snd (pop k' q))"

fun final :: "(string \<times> 'm option) list \<Rightarrow> 'q \<Rightarrow> 'q" where
  "final [] q = q"
| "final ((k', Some m) # es) q = final es (snd (push k' m q))"
| "final ((k', None) # es) q = final es (snd (pop k' q))"

lemma history_fifo:
  "length (contents k q) \<le> bound \<Longrightarrow>
   contents k q @ accepted k es q = delivered k es q @ contents k (final es q) \<and> length (contents k (final es q)) \<le> bound"
proof (induction k es q rule: accepted.induct)
  case (2 k k' m es q)
  obtain ok q1 where p: "push k' m q = (ok, q1)" by fastforce
  have "contents k q1 = contents k q @ (if ok \<and> norm k = norm k' then [m] else [])"
    using push_contents [OF p, of k] same_key [of k k' q] by auto
  moreover have "length (contents k q1) \<le> bound"
    using push_contents [OF p, of k] push_accepts [OF p] "2.prems" same_key [of k k' q] by auto
  ultimately show ?case using "2.IH" p by simp
next
  case (3 k k' es q)
  obtain ms q1 where p: "pop k' q = (ms, q1)" by fastforce
  note c = pop_contents [OF p, of k]
  then have "length (contents k q1) \<le> bound" using "3.prems" by simp
  then show ?case using "3.IH" p c by simp
qed auto

end

lemma trim_manual [simp]: "trim_space manual_scope = manual_scope"
  by code_simp

lemma normalize_idem [simp]: "normalize_steering_scope (normalize_steering_scope s) = normalize_steering_scope s"
  by (simp add: normalize_steering_scope_def)

lemma dequeue_locked_contents:
  assumes "dequeue_locked k sq = (ms, sq')"
  shows "queued k' sq = (if k' = k then ms else []) @ queued k' sq'"
proof (cases "queued k sq")
  case Nil
  then show ?thesis using assms by (auto simp: dequeue_locked_def)
next
  case (Cons m qs)
  show ?thesis
  proof (cases "sq_mode sq")
    case SteeringAll
    then have "ms = m # qs" "sq' = sq\<lparr>sq_queues := AList.delete k (sq_queues sq)\<rparr>"
      using assms Cons by (simp_all add: dequeue_locked_def)
    then show ?thesis using Cons by (auto simp: queued_def)
  next
    case SteeringOneAtATime
    then have "ms = [m]" "sq' = sq\<lparr>sq_queues := (if qs = [] then AList.delete k (sq_queues sq) else AList.update k qs (sq_queues sq))\<rparr>"
      using assms Cons by (simp_all add: dequeue_locked_def)
    then show ?thesis using Cons by (cases "qs = []") (auto simp: queued_def)
  qed
qed

lemma push_scope_contents:
  "push_scope k m sq = (ok, sq') \<Longrightarrow> queued s sq' = (if ok \<and> s = normalize_steering_scope k then queued s sq @ [m] else queued s sq)"
  by (auto simp: push_scope_def queued_def Let_def split: if_splits)

definition scope_contents :: "string \<Rightarrow> 'm steering_queue \<Rightarrow> 'm list" where
  "scope_contents k sq = queued (normalize_steering_scope k) sq"

interpretation steering: keyed_fifo normalize_steering_scope scope_contents push_scope dequeue_scope MaxQueueSize
proof
  fix k k' m ok and q q' :: "'m steering_queue"
  show "scope_contents k' q' = (if ok \<and> normalize_steering_scope k' = normalize_steering_scope k then scope_contents k q @ [m] else scope_contents k' q)"
    if "push_scope k m q = (ok, q')"
    using push_scope_contents [OF that, of "normalize_steering_scope k'"] by (auto simp: scope_contents_def)
  show "ok \<longleftrightarrow> length (scope_contents k q) < MaxQueueSize" if "push_scope k m q = (ok, q')"
    using that by (auto simp: push_scope_def Let_def scope_contents_def split: if_splits)
  show "scope_contents k' q = scope_contents k q" if "normalize_steering_scope k' = normalize_steering_scope k"
    using that by (simp add: scope_contents_def)
next
  fix k k' and ms :: "'m list" and q q' :: "'m steering_queue"
  show "scope_contents k' q = (if normalize_steering_scope k' = normalize_steering_scope k then ms else []) @ scope_contents k' q'"
    if "dequeue_scope k q = (ms, q')"
    using dequeue_locked_contents [OF that [unfolded dequeue_scope_def], of "normalize_steering_scope k'"] by (simp add: scope_contents_def)
qed

text \<open>
  Whatever is pushed and polled under whatever scopes, the messages a scope delivers followed by
  those it still holds are those it held and accepted, in that order, and it never holds more than ten; a scope of blanks
  only is the manual one.
\<close>

theorem steering_is_bounded_fifo:
  assumes "length (scope_contents k q) \<le> MaxQueueSize"
  shows "scope_contents k q @ steering.accepted k es q = steering.delivered k es q @ scope_contents k (steering.final es q) \<and>
    length (scope_contents k (steering.final es q)) \<le> MaxQueueSize"
  by (rule steering.history_fifo [OF assms])

theorem steering_is_bounded_fifo_witness:
  "let q = new_steering_queue SteeringOneAtATime;
       es = [(''a'', Some (1::nat)), ('' a'', Some 2), (''b'', Some 3), (''a'', None)]
   in steering.delivered ''a'' es q @ scope_contents ''a'' (steering.final es q) = [1, 2]"
proof -
  let ?q = "new_steering_queue SteeringOneAtATime :: nat steering_queue"
  let ?es = "[(''a'', Some (1::nat)), ('' a'', Some 2), (''b'', Some 3), (''a'', None)]"
  have e: "scope_contents ''a'' ?q = []" by (simp add: scope_contents_def queued_def new_steering_queue_def)
  then have "length (scope_contents ''a'' ?q) \<le> MaxQueueSize" by simp
  from steering_is_bounded_fifo [OF this, of ?es]
  have "steering.delivered ''a'' ?es ?q @ scope_contents ''a'' (steering.final ?es ?q) = steering.accepted ''a'' ?es ?q" by (simp add: e)
  moreover have "steering.accepted ''a'' ?es ?q = [1, 2]"
    by (simp add: steering.accepted.simps push_scope_def normalize_steering_scope_def queued_def new_steering_queue_def Let_def
        trim_space_def trim_left_def trim_right_def is_space_def)
  ultimately show ?thesis by (simp only: Let_def)
qed

end
