(* ===== verification/Session_Workers.thy ===== *)
theory Session_Workers
  imports Steering Abuse_Limits
begin

text \<open>
  Session workers (pkg/agent/session_worker.go) and the dispatcher of \<open>AgentLoop.Run\<close> (pkg/agent/loop.go):
  one goroutine per scope takes messages from its inbox, serves them one at a time and drains the
  steering queue; the dispatcher finds or spawns the worker of a message and hands it over.

  The goroutines are interleaved actions; an action is what one goroutine does between two points where
  another can matter. A message carries its worker scope, the key its steering messages are queued
  under and the key its turn polls and drains, as routing computed them. The turn itself and the
  replies are left out, so are the restarts of the idle timer (a worker may leave whenever it is idle). Workers are
  numbered in the order they are spawned. Results: every message is accounted for and handed to a turn at most
  once; as long as no message meets a leaving worker there is one worker per scope; a message that meets one can be lost, and
  its replacement can end up beside a second worker of the same scope.
\<close>

section \<open>State\<close>

record 'a inbound =
  im_Body :: 'a
  im_scope :: string
  im_route_key :: string
  im_turn_key :: string

datatype 'a stage = Idle | Serving "'a inbound" | Draining "'a inbound" | Continuing "'a inbound" | Ending |
  Leaving | Released | Gone

record 'a session_worker =
  wk_scope :: string
  wk_inbox :: "'a inbound list"
  wk_inTurn :: bool
  wk_exiting :: bool
  wk_release :: release
  wk_stage :: "'a stage"

datatype 'a dispatch = Free | Sending nat "'a inbound" | Steering nat "'a inbound" | Boxing nat "'a inbound"

record 'a loop_state =
  ls_map :: "(string, nat) gomap"
  ls_workers :: "'a session_worker list"
  ls_steer :: "'a inbound steering_queue"
  ls_admission :: admission_controller
  ls_dispatch :: "'a dispatch"
  ls_received :: "'a inbound list"
  ls_handled :: "'a inbound list"
  ls_rejected :: "'a inbound list"

datatype 'a loop_action = A_receive "'a inbound" | A_look | A_push | A_box | A_take nat | A_poll nat bool | A_served nat bool |
  A_check nat bool | A_continued nat bool | A_end nat | A_quit nat | A_crash nat |
  A_release nat | A_delete nat

abbreviation inbox_cap :: nat where "inbox_cap \<equiv> 8"

definition new_session_worker :: "string \<Rightarrow> release \<Rightarrow> 'a session_worker" where
  "new_session_worker scope rel = \<lparr>wk_scope = scope, wk_inbox = [], wk_inTurn = False, wk_exiting = False,
     wk_release = rel, wk_stage = Idle\<rparr>"

definition new_loop :: "steering_mode \<Rightarrow> admission_controller \<Rightarrow> 'a loop_state" where
  "new_loop mode a = \<lparr>ls_map = [], ls_workers = [], ls_steer = new_steering_queue mode, ls_admission = a,
     ls_dispatch = Free, ls_received = [], ls_handled = [], ls_rejected = []\<rparr>"

definition set_worker :: "nat \<Rightarrow> ('a session_worker \<Rightarrow> 'a session_worker) \<Rightarrow> 'a loop_state \<Rightarrow> 'a loop_state" where
  "set_worker w f s = s\<lparr>ls_workers := (ls_workers s)[w := f (ls_workers s ! w)]\<rparr>"

definition worker_at :: "'a loop_state \<Rightarrow> nat \<Rightarrow> 'a session_worker option" where
  "worker_at s w = (if w < length (ls_workers s) then Some (ls_workers s ! w) else None)"

section \<open>The dispatcher\<close>

definition spawn_worker :: "'a inbound \<Rightarrow> 'a loop_state \<Rightarrow> 'a loop_state" where
  "spawn_worker m s =
     (case try_admit (im_scope m) (ls_admission s) of
        (None, a) \<Rightarrow> s\<lparr>ls_admission := a, ls_rejected := ls_rejected s @ [m]\<rparr>
      | (Some rel, a) \<Rightarrow> s\<lparr>ls_admission := a, ls_workers := ls_workers s @ [new_session_worker (im_scope m) rel],
          ls_map := AList.update (im_scope m) (length (ls_workers s)) (ls_map s),
          ls_dispatch := Sending (length (ls_workers s)) m\<rparr>)"

definition receive :: "'a inbound \<Rightarrow> 'a loop_state \<Rightarrow> 'a loop_state" where
  "receive m s =
     (case ls_dispatch s of
        Free \<Rightarrow>
          (let s1 = s\<lparr>ls_received := ls_received s @ [m]\<rparr> in
           case map_of (ls_map s) (im_scope m) of
             None \<Rightarrow> spawn_worker m s1
           | Some w \<Rightarrow> (case worker_at s w of
               None \<Rightarrow> spawn_worker m s1
             | Some k \<Rightarrow> if wk_exiting k then spawn_worker m s1 else s1\<lparr>ls_dispatch := Sending w m\<rparr>))
      | _ \<Rightarrow> s)"

text \<open>\<open>enqueue\<close>: look at \<open>inTurn\<close>, push into the steering queue, or else into the inbox.\<close>

definition look :: "'a loop_state \<Rightarrow> 'a loop_state" where
  "look s =
     (case ls_dispatch s of
        Sending w m \<Rightarrow> (case worker_at s w of
          None \<Rightarrow> s
        | Some k \<Rightarrow> s\<lparr>ls_dispatch := (if wk_inTurn k then Steering w m else Boxing w m)\<rparr>)
      | _ \<Rightarrow> s)"

definition push_steering :: "'a loop_state \<Rightarrow> 'a loop_state" where
  "push_steering s =
     (case ls_dispatch s of
        Steering w m \<Rightarrow> (case push_scope (im_route_key m) m (ls_steer s) of
          (True, q) \<Rightarrow> s\<lparr>ls_steer := q, ls_dispatch := Free\<rparr> | (False, q) \<Rightarrow> s\<lparr>ls_dispatch := Boxing w m\<rparr>)
      | _ \<Rightarrow> s)"

definition put_inbox :: "'a loop_state \<Rightarrow> 'a loop_state" where
  "put_inbox s =
     (case ls_dispatch s of
        Boxing w m \<Rightarrow> (case worker_at s w of
          None \<Rightarrow> s
        | Some k \<Rightarrow>
            if length (wk_inbox k) < inbox_cap then
              (set_worker w (\<lambda>k. k\<lparr>wk_inbox := wk_inbox k @ [m]\<rparr>) s)\<lparr>ls_dispatch := Free\<rparr>
            else s\<lparr>ls_rejected := ls_rejected s @ [m], ls_dispatch := Free\<rparr>)
      | _ \<Rightarrow> s)"

section \<open>The worker\<close>

definition to_stage :: "'a stage \<Rightarrow> 'a session_worker \<Rightarrow> 'a session_worker" where
  "to_stage st k = k\<lparr>wk_stage := st\<rparr>"

definition take_message :: "nat \<Rightarrow> 'a loop_state \<Rightarrow> 'a loop_state" where
  "take_message w s =
     (case worker_at s w of
        None \<Rightarrow> s
      | Some k \<Rightarrow> (case (wk_stage k, wk_inbox k) of
          (Idle, m # ms) \<Rightarrow>
            (set_worker w (\<lambda>k. k\<lparr>wk_inbox := ms, wk_inTurn := True, wk_stage := Serving m\<rparr>) s)\<lparr>ls_handled := ls_handled s @ [m]\<rparr>
        | _ \<Rightarrow> s))"

text \<open>A turn in progress polls the queue of its key; the first poll of a new turn falls back to the manual one.\<close>

definition poll_steering :: "nat \<Rightarrow> bool \<Rightarrow> 'a loop_state \<Rightarrow> 'a loop_state" where
  "poll_steering w first s =
     (case worker_at s w of
        None \<Rightarrow> s
      | Some k \<Rightarrow> (case wk_stage k of
          Serving m \<Rightarrow>
            (case (if first then dequeue_with_fallback else dequeue_scope) (im_turn_key m) (ls_steer s) of
               (ms, q) \<Rightarrow> s\<lparr>ls_steer := q, ls_handled := ls_handled s @ ms\<rparr>)
        | Continuing m \<Rightarrow> (case dequeue_scope (im_turn_key m) (ls_steer s) of
            (ms, q) \<Rightarrow> s\<lparr>ls_steer := q, ls_handled := ls_handled s @ ms\<rparr>)
        | _ \<Rightarrow> s))"

text \<open>The turn ended; without a continuation target the worker is done with the message.\<close>

definition served :: "nat \<Rightarrow> bool \<Rightarrow> 'a loop_state \<Rightarrow> 'a loop_state" where
  "served w has_target s =
     (case worker_at s w of
        None \<Rightarrow> s
      | Some k \<Rightarrow> (case wk_stage k of
          Serving m \<Rightarrow> set_worker w (to_stage (if has_target then Draining m else Ending)) s
        | _ \<Rightarrow> s))"

definition turn_active :: "'a session_worker \<Rightarrow> bool" where
  "turn_active k = (case wk_stage k of Serving m \<Rightarrow> True | Continuing m \<Rightarrow> True | _ \<Rightarrow> False)"

text \<open>
  The head of the drain loop with the guards of \<open>Continue\<close>: it refuses while any turn is active, of whatever
  session (\<open>busy\<close> when one runs outside the workers).
\<close>

definition check_pending :: "nat \<Rightarrow> bool \<Rightarrow> 'a loop_state \<Rightarrow> 'a loop_state" where
  "check_pending w busy s =
     (case worker_at s w of
        None \<Rightarrow> s
      | Some k \<Rightarrow> (case wk_stage k of
          Draining m \<Rightarrow>
            if len_scope (im_turn_key m) (ls_steer s) = 0 then set_worker w (to_stage Ending) s
            else if busy \<or> list_ex turn_active (ls_workers s) then set_worker w (to_stage Ending) s
            else (case dequeue_with_fallback (im_turn_key m) (ls_steer s) of
              (ms, q) \<Rightarrow> (set_worker w (to_stage (if ms = [] then Ending else Continuing m)) s)
                \<lparr>ls_steer := q, ls_handled := ls_handled s @ ms\<rparr>)
        | _ \<Rightarrow> s))"

definition continued :: "nat \<Rightarrow> bool \<Rightarrow> 'a loop_state \<Rightarrow> 'a loop_state" where
  "continued w answered s =
     (case worker_at s w of
        None \<Rightarrow> s
      | Some k \<Rightarrow> (case wk_stage k of
          Continuing m \<Rightarrow> set_worker w (to_stage (if answered then Draining m else Ending)) s
        | _ \<Rightarrow> s))"

definition end_turn :: "nat \<Rightarrow> 'a loop_state \<Rightarrow> 'a loop_state" where
  "end_turn w s =
     (case worker_at s w of
        None \<Rightarrow> s
      | Some k \<Rightarrow> (case wk_stage k of Ending \<Rightarrow> set_worker w (\<lambda>k. k\<lparr>wk_inTurn := False, wk_stage := Idle\<rparr>) s | _ \<Rightarrow> s))"

text \<open>Leaving on the idle timer or cancellation, and the deferred calls, last one first.\<close>

definition quit_worker :: "nat \<Rightarrow> 'a loop_state \<Rightarrow> 'a loop_state" where
  "quit_worker w s =
     (case worker_at s w of
        None \<Rightarrow> s
      | Some k \<Rightarrow> (case wk_stage k of Idle \<Rightarrow> set_worker w (\<lambda>k. k\<lparr>wk_exiting := True, wk_stage := Leaving\<rparr>) s | _ \<Rightarrow> s))"

text \<open>A panic in a turn: \<open>inTurn\<close> is cleared, the worker leaves without setting \<open>exiting\<close>.\<close>

definition crash_worker :: "nat \<Rightarrow> 'a loop_state \<Rightarrow> 'a loop_state" where
  "crash_worker w s =
     (case worker_at s w of
        None \<Rightarrow> s
      | Some k \<Rightarrow> if turn_active k then set_worker w (\<lambda>k. k\<lparr>wk_inTurn := False, wk_stage := Leaving\<rparr>) s else s)"

definition release_slot :: "nat \<Rightarrow> 'a loop_state \<Rightarrow> 'a loop_state" where
  "release_slot w s =
     (case worker_at s w of
        None \<Rightarrow> s
      | Some k \<Rightarrow> (case wk_stage k of
          Leaving \<Rightarrow> (set_worker w (to_stage Released) s)\<lparr>ls_admission := run_release (wk_release k) (ls_admission s)\<rparr>
        | _ \<Rightarrow> s))"

definition delete_worker :: "nat \<Rightarrow> 'a loop_state \<Rightarrow> 'a loop_state" where
  "delete_worker w s =
     (case worker_at s w of
        None \<Rightarrow> s
      | Some k \<Rightarrow> (case wk_stage k of
          Released \<Rightarrow> (set_worker w (to_stage Gone) s)\<lparr>ls_map := AList.delete (wk_scope k) (ls_map s)\<rparr>
        | _ \<Rightarrow> s))"

fun loop_step :: "'a loop_action \<Rightarrow> 'a loop_state \<Rightarrow> 'a loop_state" where
  "loop_step (A_receive m) s = receive m s"
| "loop_step A_look s = look s"
| "loop_step A_push s = push_steering s"
| "loop_step A_box s = put_inbox s"
| "loop_step (A_take w) s = take_message w s"
| "loop_step (A_poll w first) s = poll_steering w first s"
| "loop_step (A_served w ok) s = served w ok s"
| "loop_step (A_check w busy) s = check_pending w busy s"
| "loop_step (A_continued w ok) s = continued w ok s"
| "loop_step (A_end w) s = end_turn w s"
| "loop_step (A_quit w) s = quit_worker w s"
| "loop_step (A_crash w) s = crash_worker w s"
| "loop_step (A_release w) s = release_slot w s"
| "loop_step (A_delete w) s = delete_worker w s"

definition loop_run :: "'a loop_action list \<Rightarrow> 'a loop_state \<Rightarrow> 'a loop_state" where
  "loop_run as s = fold loop_step as s"

section \<open>Every message is accounted for\<close>

definition all_queued :: "'m steering_queue \<Rightarrow> 'm multiset" where
  "all_queued q = mset (concat (map snd (sq_queues q)))"

definition in_hand :: "'a loop_state \<Rightarrow> 'a inbound multiset" where
  "in_hand s = (case ls_dispatch s of Free \<Rightarrow> {#} | Sending w m \<Rightarrow> {#m#} | Steering w m \<Rightarrow> {#m#} | Boxing w m \<Rightarrow> {#m#})"

definition in_boxes :: "'a loop_state \<Rightarrow> 'a inbound multiset" where
  "in_boxes s = mset (concat (map wk_inbox (ls_workers s)))"

definition accounted :: "'a loop_state \<Rightarrow> bool" where
  "accounted s \<longleftrightarrow> gomap_wf (sq_queues (ls_steer s)) \<and>
     mset (ls_received s) = mset (ls_handled s) + mset (ls_rejected s) + in_hand s + all_queued (ls_steer s) + in_boxes s"

lemma concat_update_split:
  "w < length ws \<Longrightarrow> mset (concat (map f (ws[w := k]))) + mset (f (ws ! w)) = mset (concat (map f ws)) + mset (f k)"
proof (induction ws arbitrary: w)
  case (Cons x xs)
  then show ?case by (cases w) (simp_all add: union_ac)
qed simp

lemma values_update:
  "gomap_wf m \<Longrightarrow> mset (concat (map snd (AList.update k v m))) + mset (case map_of m k of None \<Rightarrow> [] | Some u \<Rightarrow> u) =
     mset (concat (map snd m)) + mset v"
proof (induction m)
  case (Cons p m)
  then show ?case by (cases p) (auto simp: gomap_wf_def union_ac)
qed simp

lemma values_delete:
  "gomap_wf m \<Longrightarrow> mset (concat (map snd (AList.delete k m))) + mset (case map_of m k of None \<Rightarrow> [] | Some u \<Rightarrow> u) =
     mset (concat (map snd m))"
proof (induction m)
  case (Cons p m)
  have "k \<notin> fst ` set m \<Longrightarrow> AList.delete k m = m" by (simp add: delete_idem)
  then show ?case using Cons by (cases p) (auto simp: gomap_wf_def union_ac AList.delete_eq dest: map_of_SomeD split: option.split)
qed simp

lemma all_queued_push:
  assumes "gomap_wf (sq_queues q)" "push_scope k m q = (ok, q')"
  shows "gomap_wf (sq_queues q')" "all_queued q' = all_queued q + (if ok then {#m#} else {#})"
proof -
  let ?s = "normalize_steering_scope k"
  have u: "mset (concat (map snd (AList.update ?s (queued ?s q @ [m]) (sq_queues q)))) = all_queued q + {#m#}"
    using values_update [OF assms(1), of ?s "queued ?s q @ [m]"] by (simp add: all_queued_def queued_def union_ac)
  then show "gomap_wf (sq_queues q')" "all_queued q' = all_queued q + (if ok then {#m#} else {#})"
    using assms by (auto simp: push_scope_def Let_def all_queued_def split: if_splits)
qed

lemma all_queued_dequeue:
  assumes "gomap_wf (sq_queues q)" "dequeue_locked k q = (ms, q')"
  shows "gomap_wf (sq_queues q')" "all_queued q = mset ms + all_queued q'"
proof -
  have "gomap_wf (sq_queues q') \<and> all_queued q = mset ms + all_queued q'"
  proof (cases "queued k q")
    case Nil
    then show ?thesis using assms by (auto simp: dequeue_locked_def)
  next
    case (Cons x xs)
    have d: "mset (concat (map snd (AList.delete k (sq_queues q)))) + mset (x # xs) = all_queued q"
      using values_delete [OF assms(1), of k] Cons by (simp add: all_queued_def queued_def)
    have u: "mset (concat (map snd (AList.update k xs (sq_queues q)))) + mset (x # xs) = all_queued q + mset xs"
      using values_update [OF assms(1), of k xs] Cons by (simp add: all_queued_def queued_def)
    show ?thesis
    proof (cases "sq_mode q")
      case SteeringAll
      then have "ms = x # xs" "q' = q\<lparr>sq_queues := AList.delete k (sq_queues q)\<rparr>" using assms(2) Cons by (simp_all add: dequeue_locked_def)
      then show ?thesis using d assms(1) by (simp add: all_queued_def union_ac)
    next
      case SteeringOneAtATime
      then have "ms = [x]" "q' = q\<lparr>sq_queues := (if xs = [] then AList.delete k (sq_queues q) else AList.update k xs (sq_queues q))\<rparr>"
        using assms(2) Cons by (simp_all add: dequeue_locked_def)
      then show ?thesis using d u assms(1) by (cases "xs = []") (simp_all add: all_queued_def union_ac)
    qed
  qed
  then show "gomap_wf (sq_queues q')" "all_queued q = mset ms + all_queued q'" by simp_all
qed

lemma all_queued_scope:
  assumes "gomap_wf (sq_queues q)" "dequeue_scope k q = (ms, q')"
  shows "gomap_wf (sq_queues q')" "all_queued q = mset ms + all_queued q'"
  using all_queued_dequeue [OF assms(1)] assms(2) by (simp_all add: dequeue_scope_def)

lemma all_queued_fallback:
  assumes "gomap_wf (sq_queues q)" "dequeue_with_fallback k q = (ms, q')"
  shows "gomap_wf (sq_queues q')" "all_queued q = mset ms + all_queued q'"
  using all_queued_dequeue [OF assms(1)] assms(2) by (auto simp: dequeue_with_fallback_def Let_def split: if_splits)

lemma worker_at_Some: "worker_at s w = Some k \<longleftrightarrow> w < length (ls_workers s) \<and> k = ls_workers s ! w"
  by (auto simp: worker_at_def)

lemma set_worker_simps [simp]:
  "ls_map (set_worker w f s) = ls_map s" "ls_steer (set_worker w f s) = ls_steer s" "ls_admission (set_worker w f s) = ls_admission s"
  "ls_dispatch (set_worker w f s) = ls_dispatch s" "ls_received (set_worker w f s) = ls_received s"
  "ls_handled (set_worker w f s) = ls_handled s" "ls_rejected (set_worker w f s) = ls_rejected s"
  "ls_workers (set_worker w f s) = (ls_workers s)[w := f (ls_workers s ! w)]"
  by (simp_all add: set_worker_def)

lemma in_boxes_set:
  "worker_at s w = Some k \<Longrightarrow> in_boxes (set_worker w f s) + mset (wk_inbox k) = in_boxes s + mset (wk_inbox (f k))"
  using concat_update_split [of w "ls_workers s" wk_inbox "f (ls_workers s ! w)"] by (simp add: worker_at_Some in_boxes_def)

lemma in_boxes_keep:
  "worker_at s w = Some k \<Longrightarrow> wk_inbox (f k) = wk_inbox k \<Longrightarrow> in_boxes (set_worker w f s) = in_boxes s"
  using in_boxes_set [of s w k f] by simp

lemma in_hand_simps [simp]: "in_hand (set_worker w f s) = in_hand s"
  by (simp add: in_hand_def)

lemma accounted_set:
  assumes "accounted s" "worker_at s w = Some k" "wk_inbox (f k) = wk_inbox k"
  shows "accounted (set_worker w f s)"
  using assms in_boxes_keep [OF assms(2), of f] by (simp add: accounted_def)

lemma stage_inbox [simp]: "wk_inbox (to_stage st k) = wk_inbox k"
  by (simp add: to_stage_def)

lemma accounted_receive: "accounted s \<Longrightarrow> accounted (receive m s)"
  by (auto simp: accounted_def receive_def spawn_worker_def in_hand_def in_boxes_def new_session_worker_def Let_def union_ac
      split: dispatch.splits option.splits prod.splits if_splits)

lemma accounted_look: "accounted s \<Longrightarrow> accounted (look s)"
  by (auto simp: accounted_def look_def in_hand_def in_boxes_def split: dispatch.splits option.splits)

lemma accounted_push: "accounted s \<Longrightarrow> accounted (push_steering s)"
  by (auto simp: accounted_def push_steering_def in_hand_def in_boxes_def union_ac dest: all_queued_push
      split: dispatch.splits prod.splits bool.splits)

lemma accounted_put:
  assumes "accounted s"
  shows "accounted (put_inbox s)"
proof (cases "ls_dispatch s")
  case (Boxing w m)
  show ?thesis
  proof (cases "worker_at s w")
    case None
    then show ?thesis using assms Boxing by (simp add: put_inbox_def)
  next
    case (Some k)
    have "in_boxes (set_worker w (\<lambda>k. k\<lparr>wk_inbox := wk_inbox k @ [m]\<rparr>) s) = in_boxes s + {#m#}"
      using in_boxes_set [OF Some, of "\<lambda>k. k\<lparr>wk_inbox := wk_inbox k @ [m]\<rparr>"] by (simp add: union_ac)
    then show ?thesis using assms Boxing Some by (auto simp: put_inbox_def accounted_def in_hand_def in_boxes_def)
  qed
qed (use assms in \<open>simp_all add: put_inbox_def\<close>)

lemma accounted_take:
  assumes "accounted s"
  shows "accounted (take_message w s)"
proof (cases "worker_at s w")
  case (Some k)
  show ?thesis
  proof (cases "wk_stage k = Idle \<and> wk_inbox k \<noteq> []")
    case True
    then obtain m ms where k: "wk_stage k = Idle" "wk_inbox k = m # ms" by (cases "wk_inbox k") auto
    have "in_boxes (set_worker w (\<lambda>k. k\<lparr>wk_inbox := ms, wk_inTurn := True, wk_stage := Serving m\<rparr>) s) + {#m#} = in_boxes s"
      using in_boxes_set [OF Some, of "\<lambda>k. k\<lparr>wk_inbox := ms, wk_inTurn := True, wk_stage := Serving m\<rparr>"] k by simp
    then show ?thesis using assms Some k by (auto simp: take_message_def accounted_def in_hand_def in_boxes_def)
  next
    case False
    then have "take_message w s = s" using Some by (auto simp: take_message_def split: stage.splits list.splits)
    then show ?thesis using assms by simp
  qed
qed (use assms in \<open>simp add: take_message_def\<close>)

lemma accounted_polled:
  assumes "accounted s" "all_queued (ls_steer s) = mset ms + all_queued q" "gomap_wf (sq_queues q)"
  shows "accounted (s\<lparr>ls_steer := q, ls_handled := ls_handled s @ ms\<rparr>)"
  using assms by (simp add: accounted_def in_hand_def in_boxes_def union_ac)

lemma accounted_poll:
  assumes "accounted s"
  shows "accounted (poll_steering w first s)"
proof -
  have wf: "gomap_wf (sq_queues (ls_steer s))" using assms by (simp add: accounted_def)
  have "accounted (case f k (ls_steer s) of (ms, q) \<Rightarrow> s\<lparr>ls_steer := q, ls_handled := ls_handled s @ ms\<rparr>)"
    if "f = dequeue_with_fallback \<or> f = dequeue_scope" for f k
  proof (cases "f k (ls_steer s)")
    case (Pair ms q)
    then show ?thesis using that accounted_polled [OF assms] all_queued_fallback [OF wf, of k ms q] all_queued_scope [OF wf, of k ms q]
      by (auto simp del: mset.simps)
  qed
  from this [of dequeue_with_fallback] this [of dequeue_scope] show ?thesis
    using assms by (cases first) (simp_all add: poll_steering_def split: option.split stage.split)
qed

lemma accounted_check:
  assumes "accounted s"
  shows "accounted (check_pending w busy s)"
proof (cases "worker_at s w")
  case (Some k)
  have wf: "gomap_wf (sq_queues (ls_steer s))" using assms by (simp add: accounted_def)
  show ?thesis
  proof (cases "wk_stage k")
    case (Draining m)
    obtain ms q where d: "dequeue_with_fallback (im_turn_key m) (ls_steer s) = (ms, q)" by fastforce
    have a: "accounted (set_worker w (to_stage st) s)" for st by (rule accounted_set [OF assms Some]) simp
    have "accounted ((set_worker w (to_stage st) s)\<lparr>ls_steer := q, ls_handled := ls_handled s @ ms\<rparr>)" for st
      using accounted_polled [OF a [of st], of ms q] all_queued_fallback [OF wf d] by simp
    then show ?thesis using Some Draining d a by (simp add: check_pending_def)
  qed (use assms Some in \<open>simp_all add: check_pending_def\<close>)
qed (use assms in \<open>simp add: check_pending_def\<close>)

lemma accounted_worker_step:
  assumes "accounted s"
  shows "accounted (served w b s)" "accounted (continued w b s)" "accounted (end_turn w s)" "accounted (quit_worker w s)"
    "accounted (crash_worker w s)" "accounted (release_slot w s)" "accounted (delete_worker w s)"
proof -
  have set: "accounted (set_worker w f s)" if "worker_at s w = Some k" "wk_inbox (f k) = wk_inbox k" for f k
    using accounted_set [OF assms that(1), of f] that(2) by simp
  have other: "accounted (s\<lparr>ls_admission := a\<rparr>) = accounted s" "accounted (s\<lparr>ls_map := m\<rparr>) = accounted s" for s :: "'a loop_state" and a m
    by (simp_all add: accounted_def in_hand_def in_boxes_def)
  show "accounted (served w b s)" using assms set by (simp add: served_def split: option.split stage.split)
  show "accounted (continued w b s)" using assms set by (simp add: continued_def split: option.split stage.split)
  show "accounted (end_turn w s)" using assms set by (simp add: end_turn_def split: option.split stage.split)
  show "accounted (quit_worker w s)" using assms set by (simp add: quit_worker_def split: option.split stage.split)
  show "accounted (crash_worker w s)" using assms set by (simp add: crash_worker_def split: option.split)
  show "accounted (release_slot w s)" using assms set by (simp add: release_slot_def other split: option.split stage.split)
  show "accounted (delete_worker w s)" using assms set by (simp add: delete_worker_def other split: option.split stage.split)
qed

lemma accounted_step: "accounted s \<Longrightarrow> accounted (loop_step a s)"
  by (cases a) (simp_all add: accounted_receive accounted_look accounted_push accounted_put accounted_take accounted_poll
      accounted_check accounted_worker_step)

lemma accounted_run: "accounted s \<Longrightarrow> accounted (loop_run as s)"
  unfolding loop_run_def by (induction as arbitrary: s) (simp_all add: accounted_step)

lemma accounted_new: "accounted (new_loop mode a)"
  by (simp add: accounted_def new_loop_def in_hand_def in_boxes_def all_queued_def new_steering_queue_def)

text \<open>
  C26. Over every interleaving of the dispatcher and the workers each message taken off the bus is in exactly one
  place, counted once: handed to a turn, answered with a refusal, in the dispatcher's hand, in the steering
  queue or in an inbox. No message is served twice and none disappears from these places.
\<close>

theorem messages_accounted:
  "mset (ls_received (loop_run as (new_loop mode a))) =
     mset (ls_handled (loop_run as (new_loop mode a))) + mset (ls_rejected (loop_run as (new_loop mode a))) +
     in_hand (loop_run as (new_loop mode a)) + all_queued (ls_steer (loop_run as (new_loop mode a))) +
     in_boxes (loop_run as (new_loop mode a))"
  using accounted_run [OF accounted_new [of mode a], of as] unfolding accounted_def by (rule conjunct2)

section \<open>A message in the inbox of a leaving worker\<close>

definition is_leaving :: "'a session_worker \<Rightarrow> bool" where
  "is_leaving k \<longleftrightarrow> wk_stage k = Leaving \<or> wk_stage k = Released \<or> wk_stage k = Gone"

text \<open>Worker \<open>w\<close> has left, with at least these messages in its inbox.\<close>

definition left_with :: "nat \<Rightarrow> 'a inbound list \<Rightarrow> 'a loop_state \<Rightarrow> bool" where
  "left_with w ms s \<longleftrightarrow> (case worker_at s w of None \<Rightarrow> False | Some k \<Rightarrow> is_leaving k \<and> prefix ms (wk_inbox k))"

lemma worker_at_set: "worker_at (set_worker v f s) w = (if w = v then map_option f (worker_at s w) else worker_at s w)"
  by (auto simp: worker_at_def)

lemma worker_at_other [simp]:
  "worker_at (ls_admission_update f0 s) w = worker_at s w"
  "worker_at (ls_map_update f1 s) w = worker_at s w"
  "worker_at (ls_dispatch_update f2 s) w = worker_at s w"
  "worker_at (ls_steer_update f3 s) w = worker_at s w"
  "worker_at (ls_handled_update f4 s) w = worker_at s w"
  "worker_at (ls_rejected_update f5 s) w = worker_at s w"
  "worker_at (ls_received_update f6 s) w = worker_at s w"
  by (simp_all add: worker_at_def)

lemma left_with_other [simp]:
  "left_with w ms (ls_admission_update f0 s) = left_with w ms s"
  "left_with w ms (ls_map_update f1 s) = left_with w ms s"
  "left_with w ms (ls_dispatch_update f2 s) = left_with w ms s"
  "left_with w ms (ls_steer_update f3 s) = left_with w ms s"
  "left_with w ms (ls_handled_update f4 s) = left_with w ms s"
  "left_with w ms (ls_rejected_update f5 s) = left_with w ms s"
  "left_with w ms (ls_received_update f6 s) = left_with w ms s"
  by (simp_all add: left_with_def)

lemma left_with_set:
  "left_with w ms s \<Longrightarrow> (\<And>k. worker_at s v = Some k \<Longrightarrow> is_leaving k \<Longrightarrow> is_leaving (f k) \<and> prefix (wk_inbox k) (wk_inbox (f k))) \<Longrightarrow>
   left_with w ms (set_worker v f s)"
  by (auto simp: left_with_def worker_at_set split: option.splits intro: prefix_order.trans)

lemma left_with_busy: "left_with w ms s \<Longrightarrow> worker_at s v = Some k \<Longrightarrow> \<not> is_leaving k \<Longrightarrow> left_with w ms (set_worker v f s)"
  by (rule left_with_set) auto

lemma left_with_spawn: "left_with w ms s \<Longrightarrow> left_with w ms (spawn_worker m (s\<lparr>ls_received := h\<rparr>))"
  by (auto simp: left_with_def spawn_worker_def worker_at_def nth_append split: option.splits prod.splits if_splits)

lemma left_with_same: "left_with w ms s \<Longrightarrow> worker_at t w = worker_at s w \<Longrightarrow> left_with w ms t"
  by (simp add: left_with_def)

lemma worker_at_receive:
  "receive m s = spawn_worker m (s\<lparr>ls_received := ls_received s @ [m]\<rparr>) \<or> worker_at (receive m s) w = worker_at s w"
  by (auto simp: receive_def Let_def split: dispatch.split option.split)

lemma worker_at_look: "worker_at (look s) w = worker_at s w"
  by (simp add: look_def split: dispatch.split option.split)

lemma worker_at_push: "worker_at (push_steering s) w = worker_at s w"
  by (simp add: push_steering_def split: dispatch.split prod.split bool.split)

lemma worker_at_poll: "worker_at (poll_steering v b s) w = worker_at s w"
  by (simp add: poll_steering_def split: option.split stage.split prod.split)

lemma left_with_step:
  assumes "left_with w ms s"
  shows "left_with w ms (loop_step a s)"
proof -
  have set: "left_with w ms (set_worker v f s)"
    if "worker_at s v = Some k" "is_leaving k \<Longrightarrow> is_leaving (f k) \<and> prefix (wk_inbox k) (wk_inbox (f k))" for v f k
    by (rule left_with_set [OF assms]) (use that in auto)
  have stage: "is_leaving k \<longleftrightarrow> st = Leaving \<or> st = Released \<or> st = Gone" if "wk_stage k = st" for k :: "'a session_worker" and st
    using that by (simp add: is_leaving_def)
  show ?thesis
  proof (cases a)
    case (A_receive m)
    then show ?thesis using left_with_spawn [OF assms, of m] left_with_same [OF assms] worker_at_receive [of m s w] by auto
  next
    case A_look
    then show ?thesis using left_with_same [OF assms worker_at_look] by simp
  next
    case A_push
    then show ?thesis using left_with_same [OF assms worker_at_push] by simp
  next
    case A_box
    have "left_with w ms (set_worker v (\<lambda>k. k\<lparr>wk_inbox := wk_inbox k @ [m]\<rparr>) s)" if "worker_at s v = Some k" for v k m
      by (rule set [OF that]) (simp add: is_leaving_def)
    then show ?thesis using A_box assms
      by (auto simp: put_inbox_def split: dispatch.split option.splits)
  next
    case (A_take v)
    show ?thesis
    proof (cases "worker_at s v")
      case (Some k)
      have "left_with w ms (set_worker v (\<lambda>k. k\<lparr>wk_inbox := xs, wk_inTurn := True, wk_stage := Serving m\<rparr>) s)" if "wk_stage k = Idle" for xs m
        by (rule set [OF Some]) (use that in \<open>simp add: is_leaving_def\<close>)
      then show ?thesis using A_take assms Some by (simp add: take_message_def split: stage.split list.split)
    qed (use A_take assms in \<open>simp add: take_message_def\<close>)
  next
    case (A_poll v first)
    then show ?thesis using left_with_same [OF assms worker_at_poll] by simp
  next
    case (A_served v ok)
    show ?thesis
    proof (cases "worker_at s v")
      case (Some k)
      show ?thesis using A_served assms Some by (simp add: served_def left_with_busy [OF assms Some] is_leaving_def split: stage.split)
    qed (use A_served assms in \<open>simp add: served_def\<close>)
  next
    case (A_check v busy)
    show ?thesis
    proof (cases "worker_at s v")
      case (Some k)
      show ?thesis
      proof (cases "wk_stage k")
        case (Draining m)
        have st: "left_with w ms (set_worker v (to_stage st) s)" for st
          by (rule set [OF Some]) (simp add: is_leaving_def Draining)
        obtain xs q where "dequeue_with_fallback (im_turn_key m) (ls_steer s) = (xs, q)" by fastforce
        then show ?thesis using A_check Some Draining st by (simp add: check_pending_def)
      qed (use A_check assms Some in \<open>simp_all add: check_pending_def\<close>)
    qed (use A_check assms in \<open>simp add: check_pending_def\<close>)
  next
    case (A_continued v ok)
    show ?thesis
    proof (cases "worker_at s v")
      case (Some k)
      show ?thesis using A_continued assms Some by (simp add: continued_def left_with_busy [OF assms Some] is_leaving_def split: stage.split)
    qed (use A_continued assms in \<open>simp add: continued_def\<close>)
  next
    case (A_end v)
    show ?thesis
    proof (cases "worker_at s v")
      case (Some k)
      show ?thesis using A_end assms Some by (simp add: end_turn_def left_with_busy [OF assms Some] is_leaving_def split: stage.split)
    qed (use A_end assms in \<open>simp add: end_turn_def\<close>)
  next
    case (A_quit v)
    show ?thesis
    proof (cases "worker_at s v")
      case (Some k)
      show ?thesis using A_quit assms Some by (simp add: quit_worker_def left_with_busy [OF assms Some] is_leaving_def split: stage.split)
    qed (use A_quit assms in \<open>simp add: quit_worker_def\<close>)
  next
    case (A_crash v)
    show ?thesis
    proof (cases "worker_at s v")
      case (Some k)
      show ?thesis using A_crash assms Some by (simp add: crash_worker_def left_with_busy [OF assms Some] is_leaving_def turn_active_def split: stage.split)
    qed (use A_crash assms in \<open>simp add: crash_worker_def\<close>)
  next
    case (A_release v)
    show ?thesis
    proof (cases "worker_at s v")
      case (Some k)
      have "left_with w ms (set_worker v (to_stage Released) s)" by (rule set [OF Some]) (simp add: is_leaving_def to_stage_def)
      then show ?thesis using A_release assms Some by (auto simp: release_slot_def split: stage.split)
    qed (use A_release assms in \<open>simp add: release_slot_def\<close>)
  next
    case (A_delete v)
    show ?thesis
    proof (cases "worker_at s v")
      case (Some k)
      have "left_with w ms (set_worker v (to_stage Gone) s)" by (rule set [OF Some]) (simp add: is_leaving_def to_stage_def)
      then show ?thesis using A_delete assms Some by (auto simp: delete_worker_def split: stage.split)
    qed (use A_delete assms in \<open>simp add: delete_worker_def\<close>)
  qed
qed

lemma left_with_run: "left_with w ms s \<Longrightarrow> left_with w ms (loop_run as s)"
  unfolding loop_run_def by (induction as arbitrary: s) (simp_all add: left_with_step)

text \<open>
  C29. A worker looks at its inbox only while it runs, and the dispatcher checks that it is not exiting before it
  hands the message over, not after. A message that ends up in the inbox of a worker that has left stays there
  whatever happens next: it is neither handed to a turn nor refused.
\<close>

theorem message_lost_forever:
  assumes "worker_at (loop_run as (new_loop mode a)) w = Some k" "is_leaving k" "m \<in> set (wk_inbox k)"
  shows "(\<exists>k'. worker_at (loop_run bs (loop_run as (new_loop mode a))) w = Some k' \<and> m \<in> set (wk_inbox k')) \<and>
     count (mset (ls_handled (loop_run bs (loop_run as (new_loop mode a))))) m +
     count (mset (ls_rejected (loop_run bs (loop_run as (new_loop mode a))))) m <
     count (mset (ls_received (loop_run bs (loop_run as (new_loop mode a))))) m"
proof -
  let ?s = "loop_run as (new_loop mode a)"
  let ?t = "loop_run bs ?s"
  have "left_with w (wk_inbox k) ?t" by (rule left_with_run) (use assms in \<open>simp add: left_with_def\<close>)
  then obtain k' where k': "worker_at ?t w = Some k'" "prefix (wk_inbox k) (wk_inbox k')"
    by (auto simp: left_with_def split: option.splits)
  then have in_k': "m \<in> set (wk_inbox k')" using assms(3) by (meson set_mono_prefix subsetD)
  have "k' \<in> set (ls_workers ?t)" using k'(1) by (auto simp: worker_at_def split: if_splits)
  then have "m \<in># in_boxes ?t" using in_k' by (auto simp: in_boxes_def)
  then have "0 < count (in_boxes ?t) m" by simp
  moreover have "accounted ?t" by (intro accounted_run accounted_new)
  then have "mset (ls_received ?t) = mset (ls_handled ?t) + mset (ls_rejected ?t) + in_hand ?t + all_queued (ls_steer ?t) + in_boxes ?t"
    unfolding accounted_def by (rule conjunct2)
  then have "count (mset (ls_received ?t)) m = count (mset (ls_handled ?t)) m + count (mset (ls_rejected ?t)) m +
    count (in_hand ?t) m + count (all_queued (ls_steer ?t)) m + count (in_boxes ?t) m"
    by (simp only: count_union)
  ultimately have "count (mset (ls_handled ?t)) m + count (mset (ls_rejected ?t)) m < count (mset (ls_received ?t)) m"
    by linarith
  then show ?thesis using k'(1) in_k' by blast
qed

definition sample_message :: "string \<Rightarrow> nat inbound" where
  "sample_message b = \<lparr>im_Body = length b, im_scope = ''chat'', im_route_key = ''chat'', im_turn_key = ''chat''\<rparr>"

abbreviation small_loop :: "nat loop_state" where
  "small_loop \<equiv> new_loop SteeringOneAtATime (new_admission_controller 1 1)"

text \<open>A message meets a worker whose timer has fired: received before, put into the inbox after.\<close>

abbreviation late_delivery :: "nat loop_action list" where
  "late_delivery \<equiv> [A_receive (sample_message ''a''), A_look, A_box, A_take 0, A_served 0 False, A_end 0,
     A_receive (sample_message ''bb''), A_look, A_quit 0, A_box]"

lemma late_delivered:
  "map_option (\<lambda>k. (wk_stage k, wk_inbox k)) (worker_at (loop_run late_delivery small_loop) 0) = Some (Leaving, [sample_message ''bb''])"
  by code_simp

lemma message_lost_forever_witness:
  "count (mset (ls_handled (loop_run [A_release 0, A_delete 0] (loop_run late_delivery small_loop)))) (sample_message ''bb'') +
   count (mset (ls_rejected (loop_run [A_release 0, A_delete 0] (loop_run late_delivery small_loop)))) (sample_message ''bb'') <
   count (mset (ls_received (loop_run [A_release 0, A_delete 0] (loop_run late_delivery small_loop)))) (sample_message ''bb'')"
proof -
  obtain k where "worker_at (loop_run late_delivery small_loop) 0 = Some k" "wk_stage k = Leaving" "wk_inbox k = [sample_message ''bb'']"
    using late_delivered by auto
  then show ?thesis
    using message_lost_forever [of late_delivery SteeringOneAtATime "new_admission_controller 1 1" 0 k "sample_message ''bb''"
        "[A_release 0, A_delete 0]"] by (simp add: is_leaving_def)
qed

section \<open>One worker per scope while no message meets a leaving one\<close>

definition phase :: "'a session_worker \<Rightarrow> nat" where
  "phase k = (case wk_stage k of Gone \<Rightarrow> 2 | Released \<Rightarrow> 1 | _ \<Rightarrow> 0)"

definition worker_view :: "'a session_worker \<Rightarrow> string \<times> release \<times> nat" where
  "worker_view k = (wk_scope k, wk_release k, phase k)"

text \<open>The workers that are not gone are those of the map, those not released hold the slots.\<close>

definition one_each :: "(string \<times> release \<times> nat) list \<Rightarrow> (string, nat) gomap \<Rightarrow> admission_controller \<Rightarrow> bool" where
  "one_each vs b a \<longleftrightarrow>
     (\<forall>w<length vs. \<forall>x r p. vs ! w = (x, r, p) \<longrightarrow> p < 2 \<longrightarrow> map_of b x = Some w \<and> r = ReleaseSlot x) \<and>
     (\<forall>x w. map_of b x = Some w \<longrightarrow> w < length vs \<and> (\<exists>r p. vs ! w = (x, r, p) \<and> p < 2)) \<and>
     (\<forall>x. x \<in> ac_activeScopes a \<longleftrightarrow> (\<exists>w<length vs. \<exists>r. vs ! w = (x, r, 0))) \<and>
     finite (ac_activeScopes a) \<and> card (ac_activeScopes a) \<le> ac_softCap a"

definition orderly :: "nat \<Rightarrow> 'a loop_state \<Rightarrow> bool" where
  "orderly c s \<longleftrightarrow> one_each (map worker_view (ls_workers s)) (ls_map s) (ls_admission s) \<and>
     ac_softCap (ls_admission s) = c \<and> (\<forall>k \<in> set (ls_workers s). wk_exiting k \<longrightarrow> is_leaving k)"

text \<open>No message is received for a scope whose worker has left but is still in the map.\<close>

definition undisturbed :: "'a inbound \<Rightarrow> 'a loop_state \<Rightarrow> bool" where
  "undisturbed m s \<longleftrightarrow> \<not> list_ex (\<lambda>k. wk_scope k = im_scope m \<and> (wk_stage k = Leaving \<or> wk_stage k = Released)) (ls_workers s)"

fun calm :: "'a loop_action list \<Rightarrow> 'a loop_state \<Rightarrow> bool" where
  "calm [] s = True"
| "calm (a # as) s = ((case a of A_receive m \<Rightarrow> undisturbed m s | _ \<Rightarrow> True) \<and> calm as (loop_step a s))"

lemma one_each_live: "one_each vs b a \<Longrightarrow> w < length vs \<Longrightarrow> vs ! w = (x, r, p) \<Longrightarrow> p < 2 \<Longrightarrow> map_of b x = Some w \<and> r = ReleaseSlot x"
  unfolding one_each_def by blast

lemma one_each_mapped: "one_each vs b a \<Longrightarrow> map_of b x = Some w \<Longrightarrow> w < length vs \<and> (\<exists>r p. vs ! w = (x, r, p) \<and> p < 2)"
  unfolding one_each_def by blast

lemma one_each_slot: "one_each vs b a \<Longrightarrow> x \<in> ac_activeScopes a \<longleftrightarrow> (\<exists>w<length vs. \<exists>r. vs ! w = (x, r, 0))"
  unfolding one_each_def by blast

lemma one_each_spawn:
  assumes inv: "one_each vs b a" and free: "map_of b x = None" and adm: "try_admit x a = (Some r, a')"
  shows "one_each (vs @ [(x, r, 0)]) (AList.update x (length vs) b) a' \<and> ac_softCap a' = ac_softCap a"
proof -
  have new: "x \<notin> ac_activeScopes a"
    using one_each_slot [OF inv, of x] one_each_live [OF inv] free by fastforce
  then have r: "r = ReleaseSlot x" "a' = a\<lparr>ac_activeScopes := insert x (ac_activeScopes a)\<rparr>" "card (ac_activeScopes a) < ac_softCap a"
    using adm by (auto simp: try_admit_def split: if_splits)
  have fin: "finite (ac_activeScopes a)" using inv by (simp add: one_each_def)
  show ?thesis unfolding one_each_def
  proof (intro conjI allI impI)
    fix w y q p assume w: "w < length (vs @ [(x, r, 0)])" "(vs @ [(x, r, 0)]) ! w = (y, q, p)" "p < 2"
    show "map_of (AList.update x (length vs) b) y = Some w" "q = ReleaseSlot y"
      using w r(1) free one_each_live [OF inv, of w y q p] by (auto simp: nth_append update_conv' split: if_splits)
  next
    fix y w assume "map_of (AList.update x (length vs) b) y = Some w"
    then show "w < length (vs @ [(x, r, 0)])" "\<exists>q p. (vs @ [(x, r, 0)]) ! w = (y, q, p) \<and> p < 2"
      using one_each_mapped [OF inv, of y w] by (auto simp: nth_append update_conv' split: if_splits)
  next
    fix y show "(y \<in> ac_activeScopes a') = (\<exists>w<length (vs @ [(x, r, 0)]). \<exists>q. (vs @ [(x, r, 0)]) ! w = (y, q, 0))"
      using one_each_slot [OF inv, of y] r(2) by (auto simp: nth_append less_Suc_eq)
  qed (use r fin new in \<open>auto simp: card_insert_if\<close>)
qed

lemma one_each_release:
  assumes inv: "one_each vs b a" and w: "w < length vs" "vs ! w = (x, r, 0)"
  shows "one_each (vs[w := (x, r, 1)]) b (run_release r a) \<and> ac_softCap (run_release r a) = ac_softCap a"
proof -
  have r: "r = ReleaseSlot x" "map_of b x = Some w" using one_each_live [OF inv w] by simp_all
  have only: "v = w" if "v < length vs" "vs ! v = (x, q, p)" "p < 2" for v q p
    using one_each_live [OF inv that] r(2) by simp
  have fin: "finite (ac_activeScopes a)" "card (ac_activeScopes a) \<le> ac_softCap a" using inv by (simp_all add: one_each_def)
  show ?thesis unfolding one_each_def
  proof (intro conjI allI impI)
    fix v y q p assume v: "v < length (vs[w := (x, r, 1)])" "vs[w := (x, r, 1)] ! v = (y, q, p)" "p < 2"
    show "map_of b y = Some v" "q = ReleaseSlot y"
      using v r one_each_live [OF inv, of v y q p] w by (auto simp: nth_list_update split: if_splits)
  next
    fix y v assume "map_of b y = Some v"
    then show "v < length (vs[w := (x, r, 1)])" "\<exists>q p. vs[w := (x, r, 1)] ! v = (y, q, p) \<and> p < 2"
      using one_each_mapped [OF inv, of y v] w by (auto simp: nth_list_update)
  next
    fix y show "(y \<in> ac_activeScopes (run_release r a)) = (\<exists>v<length (vs[w := (x, r, 1)]). \<exists>q. vs[w := (x, r, 1)] ! v = (y, q, 0))"
    proof -
      have eq: "(v < length (vs[w := (x, r, 1)]) \<and> vs[w := (x, r, 1)] ! v = (y, q, 0)) = (v < length vs \<and> vs ! v = (y, q, 0) \<and> y \<noteq> x)" for v q
        using only [of v q 0] w by (cases "v = w") auto
      have "(y \<in> ac_activeScopes (run_release r a)) = (y \<noteq> x \<and> y \<in> ac_activeScopes a)" using r(1) by auto
      then show ?thesis unfolding one_each_slot [OF inv, of y] using eq by blast
    qed
  qed (use r fin in \<open>auto intro: le_trans [OF card_mono]\<close>)
qed

lemma one_each_delete:
  assumes inv: "one_each vs b a" and w: "w < length vs" "vs ! w = (x, r, 1)"
  shows "one_each (vs[w := (x, r, 2)]) (AList.delete x b) a"
proof -
  have r: "map_of b x = Some w" using one_each_live [OF inv w] by simp
  show ?thesis unfolding one_each_def
  proof (intro conjI allI impI)
    fix v y q p assume v: "v < length (vs[w := (x, r, 2)])" "vs[w := (x, r, 2)] ! v = (y, q, p)" "p < 2"
    show "map_of (AList.delete x b) y = Some v" "q = ReleaseSlot y"
      using v r one_each_live [OF inv, of v y q p] w by (auto simp: nth_list_update delete_conv' split: if_splits)
  next
    fix y v assume "map_of (AList.delete x b) y = Some v"
    then show "v < length (vs[w := (x, r, 2)])" "\<exists>q p. vs[w := (x, r, 2)] ! v = (y, q, p) \<and> p < 2"
      using one_each_mapped [OF inv, of y v] w by (auto simp: nth_list_update delete_conv' split: if_splits)
  next
    fix y show "(y \<in> ac_activeScopes a) = (\<exists>v<length (vs[w := (x, r, 2)]). \<exists>q. vs[w := (x, r, 2)] ! v = (y, q, 0))"
    proof -
      have eq: "(v < length (vs[w := (x, r, 2)]) \<and> vs[w := (x, r, 2)] ! v = (y, q, 0)) = (v < length vs \<and> vs ! v = (y, q, 0))" for v q
        using w by (cases "v = w") auto
      show ?thesis unfolding one_each_slot [OF inv, of y] using eq by blast
    qed
  qed (use inv in \<open>simp_all add: one_each_def\<close>)
qed

lemma orderly_other [simp]:
  "orderly c (ls_dispatch_update f2 s) = orderly c s"
  "orderly c (ls_steer_update f3 s) = orderly c s"
  "orderly c (ls_handled_update f4 s) = orderly c s"
  "orderly c (ls_rejected_update f5 s) = orderly c s"
  "orderly c (ls_received_update f6 s) = orderly c s"
  by (simp_all add: orderly_def)

lemma worker_at_in: "worker_at s w = Some k \<Longrightarrow> w < length (ls_workers s) \<and> ls_workers s ! w = k \<and> k \<in> set (ls_workers s)"
  by (auto simp: worker_at_def split: if_splits)

lemma set_worker_fields [simp]:
  "ls_map (set_worker w f s) = ls_map s" "ls_admission (set_worker w f s) = ls_admission s"
  "ls_dispatch (set_worker w f s) = ls_dispatch s"
  by (simp_all add: set_worker_def)

lemma view_set: "map worker_view (ls_workers (set_worker w f s)) = (map worker_view (ls_workers s))[w := worker_view (f (ls_workers s ! w))]"
  by (simp add: set_worker_def map_update)

lemma exiting_set:
  assumes "orderly c s" "wk_exiting (f (ls_workers s ! w)) \<longrightarrow> is_leaving (f (ls_workers s ! w))" "k \<in> set (ls_workers (set_worker w f s))" "wk_exiting k"
  shows "is_leaving k"
proof -
  have "k \<in> insert (f (ls_workers s ! w)) (set (ls_workers s))"
    using assms(3) set_update_subset_insert by (force simp: set_worker_def)
  then show ?thesis using assms by (auto simp: orderly_def)
qed

lemma orderly_set:
  assumes "orderly c s" "worker_at s w = Some k" "worker_view (f k) = worker_view k" "wk_exiting (f k) \<Longrightarrow> is_leaving (f k)"
  shows "orderly c (set_worker w f s)"
proof -
  have k: "w < length (ls_workers s)" "ls_workers s ! w = k" using worker_at_in [OF assms(2)] by simp_all
  then have "map worker_view (ls_workers (set_worker w f s)) = map worker_view (ls_workers s)"
    unfolding view_set by (simp add: assms(3) list_update_same_conv)
  then show ?thesis using assms(1) exiting_set [OF assms(1)] k assms(4) by (auto simp: orderly_def)
qed

lemma orderly_exiting: "orderly c s \<Longrightarrow> worker_at s w = Some k \<Longrightarrow> wk_exiting k \<Longrightarrow> is_leaving k"
  using worker_at_in by (fastforce simp: orderly_def)

lemma orderly_spawn:
  assumes "orderly c s" "map_of (ls_map s) (im_scope m) = None"
  shows "orderly c (spawn_worker m s)"
proof (cases "try_admit (im_scope m) (ls_admission s)")
  case (Pair r a)
  show ?thesis
  proof (cases r)
    case None
    then have "a = ls_admission s" using Pair by (auto simp: try_admit_def split: if_splits)
    then show ?thesis using assms(1) Pair None by (simp add: spawn_worker_def)
  next
    case (Some rel)
    have "one_each (map worker_view (ls_workers s)) (ls_map s) (ls_admission s)" using assms(1) by (simp add: orderly_def)
    from one_each_spawn [OF this assms(2)] show ?thesis
      using assms(1) Pair Some by (auto simp: orderly_def spawn_worker_def worker_view_def phase_def new_session_worker_def)
  qed
qed

lemma orderly_receive:
  assumes "orderly c s" "undisturbed m s"
  shows "orderly c (receive m s)"
proof (cases "ls_dispatch s")
  case Free
  show ?thesis
  proof (cases "map_of (ls_map s) (im_scope m)")
    case None
    then show ?thesis using Free orderly_spawn [of c "s\<lparr>ls_received := ls_received s @ [m]\<rparr>" m] assms(1)
      by (simp add: receive_def Let_def)
  next
    case (Some w)
    have inv: "one_each (map worker_view (ls_workers s)) (ls_map s) (ls_admission s)" using assms(1) by (simp add: orderly_def)
    from one_each_mapped [OF inv Some] have w: "w < length (ls_workers s)"
      "wk_scope (ls_workers s ! w) = im_scope m" "phase (ls_workers s ! w) < 2"
      by (auto simp: worker_view_def)
    then have k: "worker_at s w = Some (ls_workers s ! w)" by (simp add: worker_at_def)
    have "\<not> wk_exiting (ls_workers s ! w)"
    proof
      assume "wk_exiting (ls_workers s ! w)"
      then have "is_leaving (ls_workers s ! w)" by (rule orderly_exiting [OF assms(1) k])
      then show False using w assms(2) nth_mem [OF w(1)]
        by (auto simp: undisturbed_def is_leaving_def phase_def list_ex_iff)
    qed
    then show ?thesis using Free Some k assms(1) by (simp add: receive_def Let_def)
  qed
qed (use assms in \<open>simp_all add: receive_def\<close>)

lemma orderly_release:
  assumes "orderly c s"
  shows "orderly c (release_slot w s)"
proof (cases "worker_at s w")
  case (Some k)
  show ?thesis
  proof (cases "wk_stage k = Leaving")
    case True
    have k: "w < length (ls_workers s)" "ls_workers s ! w = k" using worker_at_in [OF Some] by simp_all
    have "one_each (map worker_view (ls_workers s)) (ls_map s) (ls_admission s)" using assms by (simp add: orderly_def)
    from one_each_release [OF this, of w "wk_scope k" "wk_release k"] True k
    have "one_each (map worker_view (ls_workers (set_worker w (to_stage Released) s))) (ls_map s) (run_release (wk_release k) (ls_admission s)) \<and>
        ac_softCap (run_release (wk_release k) (ls_admission s)) = ac_softCap (ls_admission s)"
      unfolding view_set by (simp add: worker_view_def phase_def to_stage_def)
    then show ?thesis using assms Some True exiting_set [OF assms, of "to_stage Released" w]
      by (auto simp: release_slot_def orderly_def is_leaving_def to_stage_def)
  qed (use assms Some in \<open>auto simp: release_slot_def split: stage.split\<close>)
qed (use assms in \<open>simp add: release_slot_def\<close>)

lemma orderly_delete:
  assumes "orderly c s"
  shows "orderly c (delete_worker w s)"
proof (cases "worker_at s w")
  case (Some k)
  show ?thesis
  proof (cases "wk_stage k = Released")
    case True
    have k: "w < length (ls_workers s)" "ls_workers s ! w = k" using worker_at_in [OF Some] by simp_all
    have "one_each (map worker_view (ls_workers s)) (ls_map s) (ls_admission s)" using assms by (simp add: orderly_def)
    from one_each_delete [OF this, of w "wk_scope k" "wk_release k"] True k
    have "one_each (map worker_view (ls_workers (set_worker w (to_stage Gone) s))) (AList.delete (wk_scope k) (ls_map s)) (ls_admission s)"
      unfolding view_set by (simp add: worker_view_def phase_def to_stage_def)
    then show ?thesis using assms Some True exiting_set [OF assms, of "to_stage Gone" w]
      by (auto simp: delete_worker_def orderly_def is_leaving_def to_stage_def)
  qed (use assms Some in \<open>auto simp: delete_worker_def split: stage.split\<close>)
qed (use assms in \<open>simp add: delete_worker_def\<close>)

lemma orderly_look_push:
  "orderly c s \<Longrightarrow> orderly c (look s)" "orderly c s \<Longrightarrow> orderly c (push_steering s)" "orderly c s \<Longrightarrow> orderly c (poll_steering w b s)"
  by (simp_all add: look_def push_steering_def poll_steering_def split: dispatch.split option.split stage.split prod.split bool.split)

lemma orderly_box:
  assumes "orderly c s"
  shows "orderly c (put_inbox s)"
proof (cases "ls_dispatch s")
  case (Boxing w m)
  show ?thesis
  proof (cases "worker_at s w")
    case (Some k)
    have "orderly c (set_worker w (\<lambda>k. k\<lparr>wk_inbox := wk_inbox k @ [m]\<rparr>) s)"
      by (rule orderly_set [OF assms Some])
        (use orderly_exiting [OF assms Some] in \<open>simp_all add: worker_view_def phase_def is_leaving_def\<close>)
    then show ?thesis using assms Boxing Some by (simp add: put_inbox_def)
  qed (use assms Boxing in \<open>simp add: put_inbox_def\<close>)
qed (use assms in \<open>simp_all add: put_inbox_def\<close>)

text \<open>A running worker that stays one, or starts to leave, keeps the invariant.\<close>

lemma orderly_running:
  assumes "orderly c s" "worker_at s w = Some k" "\<not> is_leaving k"
    and "wk_scope (f k) = wk_scope k" "wk_release (f k) = wk_release k" "phase (f k) = 0" "wk_exiting (f k) \<longrightarrow> wk_exiting k \<or> is_leaving (f k)"
  shows "orderly c (set_worker w f s)"
proof (rule orderly_set [OF assms(1,2)])
  show "worker_view (f k) = worker_view k"
    using assms(3-6) by (cases "wk_stage k") (simp_all add: worker_view_def phase_def is_leaving_def)
  show "is_leaving (f k)" if "wk_exiting (f k)"
    using assms(3,7) that orderly_exiting [OF assms(1,2)] by blast
qed

lemma orderly_stage:
  assumes "orderly c s" "worker_at s w = Some k" "\<not> is_leaving k" "\<not> is_leaving (to_stage st k)"
  shows "orderly c (set_worker w (to_stage st) s)"
  by (rule orderly_running [OF assms(1-3)]) (use assms(4) in \<open>cases st; simp_all add: phase_def to_stage_def is_leaving_def\<close>)+

lemma orderly_worker_step:
  assumes "orderly c s"
  shows "orderly c (take_message w s)" "orderly c (served w b s)" "orderly c (check_pending w b s)" "orderly c (continued w b s)"
    "orderly c (end_turn w s)" "orderly c (quit_worker w s)" "orderly c (crash_worker w s)"
proof -
  have "orderly c (take_message w s) \<and> orderly c (served w b s) \<and> orderly c (check_pending w b s) \<and> orderly c (continued w b s) \<and>
    orderly c (end_turn w s) \<and> orderly c (quit_worker w s) \<and> orderly c (crash_worker w s)"
  proof (cases "worker_at s w")
    case None
    then show ?thesis
      using assms by (simp add: take_message_def served_def check_pending_def continued_def end_turn_def quit_worker_def crash_worker_def)
  next
    case (Some k)
    note run = orderly_running [OF assms Some] and stage = orderly_stage [OF assms Some]
    have t: "orderly c (take_message w s)"
    proof (cases "wk_stage k = Idle")
      case True
      have "orderly c (set_worker w (\<lambda>k. k\<lparr>wk_inbox := ms, wk_inTurn := True, wk_stage := Serving m\<rparr>) s)" for m ms
        by (rule run) (simp_all add: True is_leaving_def phase_def)
      then show ?thesis using assms Some by (simp add: take_message_def split: stage.split list.split)
    qed (use assms Some in \<open>simp add: take_message_def split: stage.split\<close>)
    have v: "orderly c (served w b s)" "orderly c (continued w b s)"
      using assms Some stage by (simp_all add: served_def continued_def is_leaving_def to_stage_def split: stage.split)
    have p: "orderly c (check_pending w b s)"
      using assms Some stage by (simp add: check_pending_def is_leaving_def to_stage_def split: stage.split prod.split)
    have e: "orderly c (end_turn w s)"
      using assms Some run by (simp add: end_turn_def is_leaving_def phase_def split: stage.split)
    have q: "orderly c (quit_worker w s)"
      using assms Some run by (simp add: quit_worker_def is_leaving_def phase_def split: stage.split)
    have "orderly c (crash_worker w s)"
      using assms Some run by (simp add: crash_worker_def turn_active_def is_leaving_def phase_def split: stage.split)
    with t v p e q show ?thesis by blast
  qed
  then show "orderly c (take_message w s)" "orderly c (served w b s)" "orderly c (check_pending w b s)" "orderly c (continued w b s)"
    "orderly c (end_turn w s)" "orderly c (quit_worker w s)" "orderly c (crash_worker w s)" by blast+
qed

lemma orderly_step: "orderly c s \<Longrightarrow> (case a of A_receive m \<Rightarrow> undisturbed m s | _ \<Rightarrow> True) \<Longrightarrow> orderly c (loop_step a s)"
  by (cases a) (simp_all add: orderly_receive orderly_look_push orderly_box orderly_worker_step orderly_release orderly_delete)

lemma orderly_run: "calm as s \<Longrightarrow> orderly c s \<Longrightarrow> orderly c (loop_run as s)"
proof (induction as arbitrary: s)
  case (Cons a as)
  then have "orderly c (loop_step a s)" by (intro orderly_step) simp_all
  with Cons.IH [of "loop_step a s"] Cons.prems show ?case by (simp add: loop_run_def)
qed (simp add: loop_run_def)

lemma orderly_new: "orderly (ac_softCap (new_admission_controller n cap)) (new_loop mode (new_admission_controller n cap))"
  by (simp add: orderly_def one_each_def new_loop_def new_admission_controller_def)

text \<open>
  C27. While no message is received for a scope whose worker has left and is still in the map, two workers of one
  scope never coexist, and the workers that still hold their slot are at most as many as the soft cap.
\<close>

theorem one_worker_per_scope:
  assumes "calm as (new_loop mode (new_admission_controller n cap))"
    and s: "s = loop_run as (new_loop mode (new_admission_controller n cap))"
  shows "(\<forall>v w k j. worker_at s v = Some k \<and> worker_at s w = Some j \<and> wk_scope k = wk_scope j \<and> wk_stage k \<noteq> Gone \<and> wk_stage j \<noteq> Gone \<longrightarrow> v = w) \<and>
    length (filter (\<lambda>k. wk_stage k \<noteq> Released \<and> wk_stage k \<noteq> Gone) (ls_workers s)) \<le> ac_softCap (new_admission_controller n cap)"
proof -
  let ?c = "ac_softCap (new_admission_controller n cap)"
  have inv: "one_each (map worker_view (ls_workers s)) (ls_map s) (ls_admission s)" "ac_softCap (ls_admission s) = ?c"
    using orderly_run [OF assms(1) orderly_new] s by (simp_all add: orderly_def)
  have mapped: "map_of (ls_map s) (wk_scope k) = Some v" if "worker_at s v = Some k" "wk_stage k \<noteq> Gone" for v k
  proof -
    have "phase k < 2" using that(2) by (cases "wk_stage k") (simp_all add: phase_def)
    then show ?thesis using one_each_live [OF inv(1), of v "wk_scope k" "wk_release k" "phase k"] worker_at_in [OF that(1)]
      by (simp add: worker_view_def)
  qed
  let ?R = "{v. v < length (ls_workers s) \<and> wk_stage (ls_workers s ! v) \<noteq> Released \<and> wk_stage (ls_workers s ! v) \<noteq> Gone}"
  have "card ?R \<le> card (ac_activeScopes (ls_admission s))"
  proof (rule card_inj_on_le)
    show "inj_on (\<lambda>v. wk_scope (ls_workers s ! v)) ?R"
    proof (rule inj_onI)
      fix v w assume vw: "v \<in> ?R" "w \<in> ?R" "wk_scope (ls_workers s ! v) = wk_scope (ls_workers s ! w)"
      have "worker_at s v = Some (ls_workers s ! v)" "worker_at s w = Some (ls_workers s ! w)"
        using vw(1,2) by (simp_all add: worker_at_def)
      then have "map_of (ls_map s) (wk_scope (ls_workers s ! v)) = Some v" "map_of (ls_map s) (wk_scope (ls_workers s ! w)) = Some w"
        using mapped vw(1,2) by blast+
      then show "v = w" unfolding vw(3) by simp
    qed
    show "(\<lambda>v. wk_scope (ls_workers s ! v)) ` ?R \<subseteq> ac_activeScopes (ls_admission s)"
    proof clarify
      fix v assume v: "v < length (ls_workers s)" "wk_stage (ls_workers s ! v) \<noteq> Released" "wk_stage (ls_workers s ! v) \<noteq> Gone"
      then have "phase (ls_workers s ! v) = 0" by (cases "wk_stage (ls_workers s ! v)") (simp_all add: phase_def)
      then show "wk_scope (ls_workers s ! v) \<in> ac_activeScopes (ls_admission s)"
        using v(1) one_each_slot [OF inv(1), of "wk_scope (ls_workers s ! v)"] by (auto simp: worker_view_def)
    qed
    show "finite (ac_activeScopes (ls_admission s))" using inv(1) by (simp add: one_each_def)
  qed
  also have "\<dots> \<le> ?c" using inv by (simp add: one_each_def)
  finally have "length (filter (\<lambda>k. wk_stage k \<noteq> Released \<and> wk_stage k \<noteq> Gone) (ls_workers s)) \<le> ?c"
    by (simp add: length_filter_conv_card)
  moreover have "v = w" if "worker_at s v = Some k" "worker_at s w = Some j" "wk_scope k = wk_scope j" "wk_stage k \<noteq> Gone" "wk_stage j \<noteq> Gone"
    for v w k j using mapped [OF that(1,4)] mapped [OF that(2,5)] that(3) by simp
  ultimately show ?thesis by blast
qed

text \<open>A worker serves two messages and leaves; the next message finds it gone.\<close>

abbreviation calm_day :: "nat loop_action list" where
  "calm_day \<equiv> [A_receive (sample_message ''a''), A_look, A_box, A_take 0, A_receive (sample_message ''bb''), A_look, A_push,
     A_served 0 True, A_check 0 False, A_continued 0 True, A_check 0 False, A_end 0, A_quit 0, A_release 0, A_delete 0,
     A_receive (sample_message ''ccc''), A_look, A_box, A_take 1]"

lemma one_worker_per_scope_witness:
  "length (filter (\<lambda>k. wk_stage k \<noteq> Released \<and> wk_stage k \<noteq> Gone) (ls_workers (loop_run calm_day small_loop))) \<le> 1"
proof -
  have "calm calm_day small_loop" by code_simp
  moreover have "ac_softCap (new_admission_controller 1 1) = 1" by code_simp
  ultimately show ?thesis
    using one_worker_per_scope [of calm_day SteeringOneAtATime 1 1 "loop_run calm_day small_loop"] by simp
qed

section \<open>Two workers of one scope\<close>

definition running_workers :: "'a loop_state \<Rightarrow> nat" where
  "running_workers s = length (filter (\<lambda>k. wk_stage k \<noteq> Released \<and> wk_stage k \<noteq> Gone) (ls_workers s))"

text \<open>A message arrives while worker \<open>w\<close> leaves, then another one; \<open>v\<close> is the number of the next worker.\<close>

definition replaced_run :: "nat \<Rightarrow> nat \<Rightarrow> 'a inbound \<Rightarrow> 'a inbound \<Rightarrow> 'a loop_action list" where
  "replaced_run w v m m' = [A_receive m, A_release w, A_delete w, A_look, A_box, A_take v,
     A_receive m', A_look, A_box, A_take (Suc v)]"

lemma replaced_first:
  assumes "worker_at s w = Some k" "wk_stage k = Leaving" "wk_exiting k" "wk_release k = ReleaseSlot (wk_scope k)"
    and "map_of (ls_map s) (wk_scope k) = Some w" "ls_dispatch s = Free" "wk_scope k \<in> ac_activeScopes (ls_admission s)"
    and "im_scope m = wk_scope k"
  defines t: "t \<equiv> loop_run [A_receive m, A_release w, A_delete w, A_look, A_box, A_take (length (ls_workers s))] s"
  shows "ls_workers t = (ls_workers s)[w := k\<lparr>wk_stage := Gone\<rparr>] @
      [(new_session_worker (wk_scope k) ReleaseNothing)\<lparr>wk_inTurn := True, wk_stage := Serving m\<rparr>]"
    "map_of (ls_map t) (wk_scope k) = None" "ls_dispatch t = Free"
    "ls_admission t = (ls_admission s)\<lparr>ac_activeScopes := ac_activeScopes (ls_admission s) - {wk_scope k}\<rparr>"
proof -
  have w: "w < length (ls_workers s)" "ls_workers s ! w = k" using worker_at_in [OF assms(1)] by simp_all
  have s1: "receive m s = s\<lparr>ls_received := ls_received s @ [m], ls_admission := ls_admission s,
      ls_workers := ls_workers s @ [new_session_worker (wk_scope k) ReleaseNothing],
      ls_map := AList.update (wk_scope k) (length (ls_workers s)) (ls_map s), ls_dispatch := Sending (length (ls_workers s)) m\<rparr>" (is "_ = ?s1")
    using assms by (simp add: receive_def Let_def spawn_worker_def try_admit_def)
  have s2: "release_slot w ?s1 = ?s1\<lparr>ls_workers := (ls_workers s)[w := k\<lparr>wk_stage := Released\<rparr>] @ [new_session_worker (wk_scope k) ReleaseNothing],
      ls_admission := (ls_admission s)\<lparr>ac_activeScopes := ac_activeScopes (ls_admission s) - {wk_scope k}\<rparr>\<rparr>" (is "_ = ?s2")
    using w assms(2,4) by (simp add: release_slot_def worker_at_def set_worker_def to_stage_def nth_append list_update_append)
  have s3: "delete_worker w ?s2 = ?s2\<lparr>ls_workers := (ls_workers s)[w := k\<lparr>wk_stage := Gone\<rparr>] @ [new_session_worker (wk_scope k) ReleaseNothing],
      ls_map := AList.delete (wk_scope k) (AList.update (wk_scope k) (length (ls_workers s)) (ls_map s))\<rparr>" (is "_ = ?s3")
    using w by (simp add: delete_worker_def worker_at_def set_worker_def to_stage_def nth_append list_update_append)
  have s4: "look ?s3 = ?s3\<lparr>ls_dispatch := Boxing (length (ls_workers s)) m\<rparr>" (is "_ = ?s4")
    using w by (simp add: look_def worker_at_def nth_append new_session_worker_def)
  have s5: "put_inbox ?s4 = ?s4\<lparr>ls_workers := (ls_workers s)[w := k\<lparr>wk_stage := Gone\<rparr>] @
      [(new_session_worker (wk_scope k) ReleaseNothing)\<lparr>wk_inbox := [m]\<rparr>], ls_dispatch := Free\<rparr>" (is "_ = ?s5")
    using w by (simp add: put_inbox_def worker_at_def set_worker_def nth_append list_update_append new_session_worker_def)
  have s6: "take_message (length (ls_workers s)) ?s5 = ?s5\<lparr>ls_workers := (ls_workers s)[w := k\<lparr>wk_stage := Gone\<rparr>] @
      [(new_session_worker (wk_scope k) ReleaseNothing)\<lparr>wk_inTurn := True, wk_stage := Serving m\<rparr>], ls_handled := ls_handled s @ [m]\<rparr>" (is "_ = ?s6")
    using w by (simp add: take_message_def worker_at_def set_worker_def nth_append list_update_append new_session_worker_def)
  have t6: "t = ?s6"
    unfolding t by (simp only: loop_run_def fold_simps loop_step.simps s1 s2 s3 s4 s5 s6)
  show "ls_workers t = (ls_workers s)[w := k\<lparr>wk_stage := Gone\<rparr>] @
      [(new_session_worker (wk_scope k) ReleaseNothing)\<lparr>wk_inTurn := True, wk_stage := Serving m\<rparr>]"
    "map_of (ls_map t) (wk_scope k) = None" "ls_dispatch t = Free"
    "ls_admission t = (ls_admission s)\<lparr>ac_activeScopes := ac_activeScopes (ls_admission s) - {wk_scope k}\<rparr>"
    unfolding t6 by (simp_all add: delete_conv')
qed

lemma filter_split:
  "w < length xs \<Longrightarrow> filter P xs = filter P (take w xs) @ (if P (xs ! w) then [xs ! w] else []) @ filter P (drop (Suc w) xs)"
  using arg_cong [OF id_take_nth_drop, of w xs "filter P"] by (simp del: append_take_drop_id)

lemma fresh_worker_serves:
  assumes "map_of (ls_map t) x = None" "ls_dispatch t = Free" "try_admit x (ls_admission t) = (Some r, a)" "im_scope m = x"
  shows "ls_workers (loop_run [A_receive m, A_look, A_box, A_take (length (ls_workers t))] t) =
    ls_workers t @ [(new_session_worker x r)\<lparr>wk_inTurn := True, wk_stage := Serving m\<rparr>]"
proof -
  let ?n = "length (ls_workers t)"
  have s1: "receive m t = t\<lparr>ls_received := ls_received t @ [m], ls_admission := a, ls_workers := ls_workers t @ [new_session_worker x r],
      ls_map := AList.update x ?n (ls_map t), ls_dispatch := Sending ?n m\<rparr>" (is "_ = ?s1")
    using assms by (simp add: receive_def Let_def spawn_worker_def)
  have s2: "look ?s1 = ?s1\<lparr>ls_dispatch := Boxing ?n m\<rparr>" (is "_ = ?s2")
    by (simp add: look_def worker_at_def new_session_worker_def)
  have s3: "put_inbox ?s2 = ?s2\<lparr>ls_workers := ls_workers t @ [(new_session_worker x r)\<lparr>wk_inbox := [m]\<rparr>], ls_dispatch := Free\<rparr>" (is "_ = ?s3")
    by (simp add: put_inbox_def worker_at_def set_worker_def new_session_worker_def)
  have "ls_workers (take_message ?n ?s3) = ls_workers t @ [(new_session_worker x r)\<lparr>wk_inTurn := True, wk_stage := Serving m\<rparr>]"
    by (simp add: take_message_def worker_at_def set_worker_def new_session_worker_def)
  then show ?thesis by (simp only: loop_run_def fold_simps loop_step.simps s1 s2 s3)
qed

text \<open>
  C28. Two messages that find a worker leaving, from whatever state undisturbed work has led to: the first gets a
  replacement, which shares the slot the leaving worker still holds; the leaving worker then releases the slot and removes the
  map entry, which is the replacement's; the second message spawns another worker. Two turns of one session run at
  once, and one worker more runs than before: with the cap reached, it is exceeded.
\<close>

theorem two_workers_one_scope:
  assumes "calm as (new_loop mode (new_admission_controller n cap))"
    and s: "s = loop_run as (new_loop mode (new_admission_controller n cap))"
    and "worker_at s w = Some k" "wk_stage k = Leaving" "wk_exiting k" "ls_dispatch s = Free"
    and "im_scope m = wk_scope k" "im_scope m' = wk_scope k"
  shows "let t = loop_run (replaced_run w (length (ls_workers s)) m m') s in
    map (\<lambda>j. (wk_scope j, wk_stage j)) (drop (length (ls_workers s)) (ls_workers t)) =
      [(wk_scope k, Serving m), (wk_scope k, Serving m')] \<and>
    running_workers t = running_workers s + 1"
proof -
  let ?x = "wk_scope k" and ?n = "length (ls_workers s)" and ?A = "ac_activeScopes (ls_admission s)"
  have inv: "one_each (map worker_view (ls_workers s)) (ls_map s) (ls_admission s)"
    using orderly_run [OF assms(1) orderly_new] s by (simp add: orderly_def)
  have w: "w < ?n" "ls_workers s ! w = k" using worker_at_in [OF assms(3)] by simp_all
  have v: "map worker_view (ls_workers s) ! w = (?x, wk_release k, 0)"
    using w assms(4) by (simp add: worker_view_def phase_def)
  have l: "map_of (ls_map s) ?x = Some w" "wk_release k = ReleaseSlot ?x"
    using one_each_live [OF inv _ v] w by simp_all
  have slot: "?x \<in> ?A" using one_each_slot [OF inv, of ?x] v w by auto
  let ?t = "loop_run [A_receive m, A_release w, A_delete w, A_look, A_box, A_take ?n] s"
  note t = replaced_first [OF assms(3,4,5) l(2,1) assms(6) slot assms(7)]
  have "card (?A - {?x}) < ac_softCap (ls_admission s)"
  proof -
    have "finite ?A" "card ?A \<le> ac_softCap (ls_admission s)" using inv unfolding one_each_def by blast+
    then show ?thesis using card_Diff1_less [of ?A ?x] slot by simp
  qed
  then obtain a where "try_admit ?x (ls_admission ?t) = (Some (ReleaseSlot ?x), a)" by (simp add: try_admit_def t(4))
  from fresh_worker_serves [OF t(2,3) this assms(8)]
  have e: "ls_workers (loop_run (replaced_run w ?n m m') s) =
      ls_workers ?t @ [(new_session_worker ?x (ReleaseSlot ?x))\<lparr>wk_inTurn := True, wk_stage := Serving m'\<rparr>]"
    using t(1) by (simp add: replaced_run_def loop_run_def)
  have "running_workers s = length (filter (\<lambda>k. wk_stage k \<noteq> Released \<and> wk_stage k \<noteq> Gone) (take w (ls_workers s))) + 1 +
      length (filter (\<lambda>k. wk_stage k \<noteq> Released \<and> wk_stage k \<noteq> Gone) (drop (Suc w) (ls_workers s)))"
    unfolding running_workers_def filter_split [OF w(1)] w(2) using assms(4) by simp
  moreover have "(ls_workers s)[w := k\<lparr>wk_stage := Gone\<rparr>] = take w (ls_workers s) @ k\<lparr>wk_stage := Gone\<rparr> # drop (Suc w) (ls_workers s)"
    using w(1) by (rule upd_conv_take_nth_drop)
  ultimately have "running_workers (loop_run (replaced_run w ?n m m') s) = running_workers s + 1"
    using assms(4) by (simp add: running_workers_def e t(1) new_session_worker_def)
  then show ?thesis by (simp add: Let_def e t(1) new_session_worker_def)
qed

lemma two_workers_one_scope_witness:
  "running_workers (loop_run (replaced_run 0 1 (sample_message ''bb'') (sample_message ''ccc''))
     (loop_run [A_receive (sample_message ''a''), A_look, A_box, A_take 0, A_served 0 False, A_end 0, A_quit 0] small_loop)) = 2"
proof -
  let ?as = "[A_receive (sample_message ''a''), A_look, A_box, A_take 0, A_served 0 False, A_end 0, A_quit 0]"
  let ?s = "loop_run ?as small_loop"
  have c: "calm ?as small_loop" by code_simp
  have "map (\<lambda>k. (wk_stage k, wk_exiting k, wk_scope k)) (ls_workers ?s) = [(Leaving, True, ''chat'')]" by code_simp
  then obtain k where k: "ls_workers ?s = [k]" "wk_stage k = Leaving" "wk_exiting k" "wk_scope k = ''chat''" by auto
  have d: "ls_dispatch ?s = Free" "running_workers ?s = 1" by code_simp+
  have m: "im_scope (sample_message b) = ''chat''" for b by (simp add: sample_message_def)
  have "worker_at ?s 0 = Some k" using k(1) by (simp add: worker_at_def)
  from two_workers_one_scope [OF c refl this k(2,3) d(1), of "sample_message ''bb''" "sample_message ''ccc''"]
  show ?thesis using k(1,4) d(2) m by (simp add: Let_def)
qed

end
