(* ===== verification/Spec2Isabelle.thy ===== *)
theory Spec2Isabelle
  imports Policy Approval_Api Abuse_Limits Ssrf Exec_Approval Prompt_Guard Fallback Audit_Runs
    Agent_Routing Model_Router Tool_Compositor History_Repair History_Sanitize
    Session_Stores Config_Update Schedules_Rest Split_Message Task_Api Session_Workers
begin

text \<open>
  Omnipus is a gateway that runs tool-calling language-model agents for its users. Messages arrive over chat
  channels, a WebSocket, a REST API and schedules; an agent loop answers them with the help of a model and of
  tools; policies, approvals, limiters and an audit log keep the tools in check. This library models the Go
  code that decides: who may do what, when, how often, in which order, and what survives an error. Every
  definition is named after the code it translates; file names are below src/.

  \<^bold>\<open>How the parts interact.\<close>
  A request passes the HTTP front (Gateway_Http: CSRF, origin, bearer, role gates) to a handler (Gateway_Users,
  Config_Update, Schedules_Rest, Task_Api, Approval_Api). A chat message is routed to an agent (Agent_Routing,
  Session_Keys), handed to the worker of its session (Session_Workers, Steering, the admission
  controller of Abuse_Limits), and answered in a turn: the history is read from a session store (Session_Store,
  Session_Manager, Jsonl_Store), repaired (History_Repair), cut to the context budget (Chat_Messages), sanitised
  (History_Sanitize) and sent to a model chosen by Model_Router through the fallback chain (Fallback, Cooldown,
  Error_Classifier). The tools the model is offered, and each call it makes, go through the policies (Policy,
  Tool_Compositor); a call whose policy is ask waits in the approval registry (Approvals, Approval_System).
  Tool input and output pass Ssrf, Exec_Approval, Prompt_Guard and the rate limits (Rate_Limits, Abuse_Limits).
  Decisions are written to the audit log (Audit_Chain, Audit_Runs). Agents and users create tasks
  (Task_Store, Task_Tools, Task_Executor) and schedules (Cron_Service and its companions, Scheduled_Runner,
  Schedules_Api), which notify users (Notifications). Replies are split for the channel (Split_Message).

  \<^bold>\<open>Library layer.\<close>
  Go_Prelude: the standard-library operations the code calls (strings, maps as association lists, times and durations,
  checked integers), with the collections of simp rules the components use. Runes and Hex: UTF-8 and encoding/hex.
  Go_Regexp: leftmost-first matching for the constructs the patterns use. Net_Lib: net and net/netip addresses and
  prefixes. Json_Canonical: JSON values, their canonical text and a parser that inverts it.

  \<^bold>\<open>Policy and approval.\<close>
  Glob (pkg/policy MatchGlob): the optimised matcher agrees with a reference matcher. Policy (pkg/policy): configuration,
  validation, evaluation, fences and caps; evaluation characterised branch by branch. Tool_Compositor
  (pkg/tools/compositor.go and its callers): the tools a model sees are exactly those the policy admits.
  Approvals, Approval_System, Approval_Api (pkg/gateway approvals.go, rest_tool_registry.go, policy_approver.go,
  ws_tool_approval.go): the registry as operations, then as a step relation over goroutines, timers and channels; every
  request gets exactly one outcome and the waiting loop is released.

  \<^bold>\<open>Limits and guards.\<close>
  Window_Limit states the contract of a sliding window once (a locale); Rate_Limits and Abuse_Limits interpret it on the
  registries of pkg/security, pkg/sysagent, pkg/tools and pkg/gateway, and model the login limiter, the
  cancel-abuse detector, the daily cost cap and the admission controller. Ssrf: which addresses are refused and
  that only checked addresses are dialled. Exec_Approval: the command allowlist and the interactive prompt.
  Prompt_Guard: escaping and wrapping of untrusted text, on runes and bytes.

  \<^bold>\<open>Models and providers.\<close>
  Cooldown, Error_Classifier, Fallback, Model_Router: exact cooldown times, when an error moves to the next model,
  what the chain returns on every branch. The request, the clock and the context are arguments.

  \<^bold>\<open>Sessions and histories.\<close>
  Session_Store has the contract every back end keeps (a locale over a record of methods) and its clients, compression and
  summarization; Session_Manager and Jsonl_Store interpret it; Session_Stores compares them and runs crashes as prefixes of the
  list of disk writes. Chat_Messages, History_Repair, History_Sanitize: turn boundaries, estimates, and the two passes that make
  a history acceptable to a provider.

  \<^bold>\<open>Audit.\<close>
  Audit_Chain: HMAC chain, rotation, recovery, verification; under the stated hypotheses on the hash an edit is detected or a
  collision exhibited. Audit_Runs: every log the writer produces verifies, as an invariant of its runs.

  \<^bold>\<open>Gateway.\<close>
  Gateway_Http, Gateway_Users, Config_Update: handlers as functions from a request and a world (the configuration file, the
  limiters, the sessions) to a response and a world; who can become administrator, what login, logout and a configuration
  change do.

  \<^bold>\<open>Workers.\<close>
  Steering: a bounded first-in first-out buffer per scope (a locale of that contract, interpreted on the code's queue).
  Session_Workers: dispatcher and workers as interleaved actions; messages are conserved, one worker per scope as long as no
  message meets a leaving worker, and the two races when one does.

  \<^bold>\<open>Tasks and schedules.\<close>
  Task_Store, Task_Executor, Task_Tools, Task_Api: the status machine, the directory of files with its lazy migration,
  the executor as interleaved events. Cron_Service, Cron_Schedules, Cron_Lane, Cron_Runs, Cron_Outcomes: jobs, the parallel lane
  with its semaphore, what holds over every interleaving, retries, crashes. Scheduled_Runner, Notifications,
  Schedules_Api, Schedules_Rest: what a fired schedule does and the endpoints over it.

  \<^bold>\<open>How state, errors and time are represented.\<close>
  A struct is a record, a Go map an association list with distinct keys (so that its iteration order, where
  it matters, is an explicit argument), an error a value of an option or a sum. A method under a mutex is one step;
  operations that release the mutex are several, and theories with goroutines quantify over all lists of steps. Clock readings,
  random identifiers, write outcomes and the bodies of library calls are arguments. Counters and times are natural numbers or integers,
  with the width written out where the code can overflow.

  \<^bold>\<open>Bounds and termination.\<close>
  Functions are total: recursion is structural or has a measure; fuel appears once, in Net_Lib, where the number of groups of an
  IPv6 address still to read bounds the loop and the length of the text is enough. Two loops are partial functions to
  option. The splitting of a reply may not end: it returns for every text without code fences, and an opening fence line as long
  as the limit makes it run forever. The escaping loop of the prompt guard grows the text it
  searches; it is shown to end for every text, with a result or a panic. Constants of the code (window lengths, caps, queue
  sizes) are kept.

  \<^bold>\<open>Not modelled.\<close>
  The turn loop itself (calls of the model and of the tools), the providers' and channels' network protocols, WebSocket
  frames, process and sandbox control, file-format migration, prompt assembly, the generated API types, the command line,
  logging and health checks: they are input and output around the decisions modelled here, or generated. Code that the
  repository never reaches (device pairing, to which nothing adds a device, and the system-agent handler with its guard) is left out as
  well. Floating-point costs and scores are reals or
  whole hundredths; text is bytes, or runes where the code counts runes.
\<close>

end
